(* ===== verification/JS_Prelude.thy ===== *)
theory JS_Prelude
  imports Main "HOL-Library.AList" "HOL-Library.Sublist"
begin

text \<open>
  Shared vocabulary of the development: the parts of the JavaScript standard library the
  sources use, as total HOL functions.

  \<^item> A JavaScript \<open>Map\<close> (and a plain object used as a dictionary) is an association list in
    insertion order: \<open>Map.set\<close> keeps the position of a key that is already present and appends a
    new one, \<open>Map.delete\<close> drops the entry. These are the library's \<open>AList.update\<close> and
    \<open>AList.delete\<close>; lookup is \<open>map_of\<close>.
  \<^item> A JavaScript \<open>Set\<close> is a duplicate-free list in insertion order.
  \<^item> Strings are character lists. The sources compare, split and concatenate them; characters
    outside ASCII occur only inside fixed messages, written here as their UTF-8 bytes.
  \<^item> \<open>invariant_system\<close> is the interface every state machine of the development is checked
    against: an initial state, a step function and an invariant.
\<close>

named_theorems js_simps \<open>rewrite rules of the modelled JavaScript library\<close>
named_theorems step_defs \<open>definitions of the state-machine operations\<close>

subsection \<open>Maps in insertion order\<close>

abbreviation map_set :: "'k \<Rightarrow> 'v \<Rightarrow> ('k \<times> 'v) list \<Rightarrow> ('k \<times> 'v) list" where
  "map_set \<equiv> AList.update"

abbreviation map_delete :: "'k \<Rightarrow> ('k \<times> 'v) list \<Rightarrow> ('k \<times> 'v) list" where
  "map_delete \<equiv> AList.delete"

definition map_has :: "('k \<times> 'v) list \<Rightarrow> 'k \<Rightarrow> bool" where
  "map_has m k \<longleftrightarrow> map_of m k \<noteq> None"

definition map_keys :: "('k \<times> 'v) list \<Rightarrow> 'k list" where
  "map_keys m = map fst m"

subsection \<open>Sets in insertion order\<close>

definition set_add :: "'a \<Rightarrow> 'a list \<Rightarrow> 'a list" where
  "set_add x xs = (if x \<in> set xs then xs else xs @ [x])"

definition set_remove :: "'a \<Rightarrow> 'a list \<Rightarrow> 'a list" where
  "set_remove x xs = filter (\<lambda>y. y \<noteq> x) xs"

subsection \<open>Arrays\<close>

definition js_first :: "'a list \<Rightarrow> 'a option" where
  "js_first xs = (case xs of [] \<Rightarrow> None | x # _ \<Rightarrow> Some x)"

definition js_last :: "'a list \<Rightarrow> 'a option" where
  "js_last xs = (case xs of [] \<Rightarrow> None | _ \<Rightarrow> Some (last xs))"

definition or_else :: "'a option \<Rightarrow> 'a option \<Rightarrow> 'a option" where
  "or_else a b = (case a of None \<Rightarrow> b | Some x \<Rightarrow> Some x)"

definition get_or :: "'a option \<Rightarrow> 'a \<Rightarrow> 'a" where
  "get_or a d = (case a of None \<Rightarrow> d | Some x \<Rightarrow> x)"

subsection \<open>Strings\<close>

definition starts_with :: "string \<Rightarrow> string \<Rightarrow> bool" where
  "starts_with s p = prefix p s"

fun js_split :: "char \<Rightarrow> string \<Rightarrow> string list" where
  "js_split c [] = [[]]"
| "js_split c (x # xs) =
     (if x = c then [] # js_split c xs
      else (case js_split c xs of [] \<Rightarrow> [[x]] | w # ws \<Rightarrow> (x # w) # ws))"

fun js_join :: "string \<Rightarrow> string list \<Rightarrow> string" where
  "js_join sep [] = []"
| "js_join sep [x] = x"
| "js_join sep (x # y # ys) = x @ sep @ js_join sep (y # ys)"

definition is_js_space :: "char \<Rightarrow> bool" where
  "is_js_space c \<longleftrightarrow> of_char c \<in> {9, 10, 11, 12, 13, 32 :: int}"

definition js_trim :: "string \<Rightarrow> string" where
  "js_trim s = rev (dropWhile is_js_space (rev (dropWhile is_js_space s)))"

definition lower_char :: "char \<Rightarrow> char" where
  "lower_char c =
     (let n = of_char c :: int in if 65 \<le> n \<and> n \<le> 90 then char_of (n + 32) else c)"

definition to_lower :: "string \<Rightarrow> string" where
  "to_lower s = map lower_char s"

definition is_digit_char :: "char \<Rightarrow> bool" where
  "is_digit_char c \<longleftrightarrow> (48 :: int) \<le> of_char c \<and> of_char c \<le> (57 :: int)"

definition digit_val :: "char \<Rightarrow> int" where
  "digit_val c = of_char c - 48"

definition digit_char :: "int \<Rightarrow> char" where
  "digit_char d = char_of (d + 48)"

text \<open>The decimal value of a digit string, and the digits of a non-negative integer
  (\<open>BigInt(s)\<close> and \<open>BigInt.toString()\<close>).\<close>

definition value_of_digits :: "string \<Rightarrow> int" where
  "value_of_digits s = foldl (\<lambda>acc c. 10 * acc + digit_val c) 0 s"

function digits_of :: "int \<Rightarrow> string" where
  "digits_of n = (if n < 10 then [digit_char n] else digits_of (n div 10) @ [digit_char (n mod 10)])"
  by pat_completeness auto
termination
  by (relation "measure nat") auto

declare digits_of.simps [simp del]

definition string_of_int :: "int \<Rightarrow> string" where
  "string_of_int i = (if i < 0 then ''-'' @ digits_of (- i) else digits_of i)"

definition pad_start :: "nat \<Rightarrow> char \<Rightarrow> string \<Rightarrow> string" where
  "pad_start n c s = replicate (n - length s) c @ s"

subsection \<open>Route prefixes\<close>

text \<open>
  The test \<open>pathname === p || pathname.startsWith(`${p}/`)\<close>, written four times in the sources
  (the two proxies, the API client and the admin navigation).
\<close>

definition path_within :: "string \<Rightarrow> string \<Rightarrow> bool" where
  "path_within p pathname \<longleftrightarrow> pathname = p \<or> starts_with pathname (p @ ''/'')"

subsection \<open>Lemmas on maps\<close>

lemma map_has_update [js_simps]: "map_has (map_set k v m) k' \<longleftrightarrow> k' = k \<or> map_has m k'"
  by (simp add: map_has_def update_conv')

lemma map_has_delete [js_simps]: "map_has (map_delete k m) k' \<longleftrightarrow> k' \<noteq> k \<and> map_has m k'"
  by (simp add: map_has_def delete_conv')

lemma map_of_set [js_simps]: "map_of (map_set k v m) k' = (if k' = k then Some v else map_of m k')"
  by (simp add: update_conv')

lemma map_of_delete [js_simps]: "map_of (map_delete k m) k' = (if k' = k then None else map_of m k')"
  by (simp add: delete_conv')

lemma map_has_keys: "map_has m k \<longleftrightarrow> k \<in> set (map_keys m)"
  by (simp add: map_has_def map_keys_def map_of_eq_None_iff)

lemma set_map_keys_set [js_simps]: "set (map_keys (map_set k v m)) = insert k (set (map_keys m))"
  by (simp add: map_keys_def dom_update)

lemma set_map_keys_delete [js_simps]: "set (map_keys (map_delete k m)) = set (map_keys m) - {k}"
  by (auto simp: map_has_keys [symmetric] map_has_delete)

lemma map_keys_Nil [simp]: "map_keys [] = []"
  by (simp add: map_keys_def)

lemma map_keys_empty_iff: "map_keys m = [] \<longleftrightarrow> m = []"
  by (simp add: map_keys_def)

lemma map_has_Nil [simp]: "\<not> map_has [] k"
  by (simp add: map_has_def)

lemma distinct_keys_set: "distinct (map_keys m) \<Longrightarrow> distinct (map_keys (map_set k v m))"
  by (simp add: map_keys_def distinct_update)

lemma distinct_keys_delete: "distinct (map_keys m) \<Longrightarrow> distinct (map_keys (map_delete k m))"
  by (simp add: map_keys_def distinct_delete)

lemma map_keys_set_present: "map_has m k \<Longrightarrow> map_keys (map_set k v m) = map_keys m"
  by (simp add: map_has_keys map_keys_def update_keys)

subsection \<open>Lemmas on sets\<close>

lemma set_set_add [js_simps]: "set (set_add x xs) = insert x (set xs)"
  by (auto simp: set_add_def)

lemma set_set_remove [js_simps]: "set (set_remove x xs) = set xs - {x}"
  by (auto simp: set_remove_def)

lemma distinct_set_add: "distinct xs \<Longrightarrow> distinct (set_add x xs)"
  by (simp add: set_add_def)

lemma distinct_set_remove: "distinct xs \<Longrightarrow> distinct (set_remove x xs)"
  by (simp add: set_remove_def)

subsection \<open>Lemmas on digit strings\<close>

lemma digit_val_char: "0 \<le> d \<Longrightarrow> d < 10 \<Longrightarrow> digit_val (digit_char d) = d"
  by (simp add: digit_val_def digit_char_def)

lemma is_digit_digit_char: "0 \<le> d \<Longrightarrow> d < 10 \<Longrightarrow> is_digit_char (digit_char d)"
  by (simp add: is_digit_char_def digit_char_def)

lemma digit_val_nonneg: "is_digit_char c \<Longrightarrow> 0 \<le> digit_val c"
  by (simp add: is_digit_char_def digit_val_def)

lemma value_of_digits_Nil [simp]: "value_of_digits [] = 0"
  by (simp add: value_of_digits_def)

lemma value_of_digits_snoc [simp]: "value_of_digits (s @ [c]) = 10 * value_of_digits s + digit_val c"
  by (simp add: value_of_digits_def)

lemma value_of_digits_nonneg: "\<forall>c \<in> set s. is_digit_char c \<Longrightarrow> 0 \<le> value_of_digits s"
  by (induction s rule: rev_induct) (auto simp: digit_val_nonneg)

lemma value_of_digits_append:
  "value_of_digits (s @ t) = value_of_digits s * 10 ^ length t + value_of_digits t"
proof (induction t rule: rev_induct)
  case Nil
  then show ?case by simp
next
  case (snoc c t)
  then show ?case
    by (simp add: append_assoc [symmetric] algebra_simps del: append_assoc)
qed

lemma value_of_digits_replicate_zero: "value_of_digits (replicate n (CHR ''0'')) = 0"
proof (induction n)
  case 0
  then show ?case by simp
next
  case (Suc n)
  then have "value_of_digits (replicate n (CHR ''0'') @ [CHR ''0'']) = 0"
    by (simp add: digit_val_def)
  then show ?case by (simp add: replicate_append_same)
qed

lemma value_of_digits_of: "0 \<le> n \<Longrightarrow> value_of_digits (digits_of n) = n"
proof (induction n rule: digits_of.induct)
  case (1 n)
  show ?case
  proof (cases "n < 10")
    case True
    then have "value_of_digits ([] @ [digit_char n]) = n"
      unfolding value_of_digits_snoc using "1.prems" by (simp add: digit_val_char)
    with True show ?thesis by (simp add: digits_of.simps [of n])
  next
    case False
    with 1 show ?thesis
      by (simp add: digits_of.simps [of n] digit_val_char)
  qed
qed

lemma digits_of_digits: "0 \<le> n \<Longrightarrow> \<forall>c \<in> set (digits_of n). is_digit_char c"
proof (induction n rule: digits_of.induct)
  case (1 n)
  then show ?case
    by (cases "n < 10") (auto simp: digits_of.simps [of n] is_digit_digit_char)
qed

lemma digits_of_nonempty [simp]: "digits_of n \<noteq> []"
  by (simp add: digits_of.simps [of n])

lemma value_of_digits_pad: "value_of_digits (pad_start n (CHR ''0'') s) = value_of_digits s"
  by (simp add: pad_start_def value_of_digits_append value_of_digits_replicate_zero)

lemma length_pad_start: "length (pad_start n c s) = max n (length s)"
  by (simp add: pad_start_def)

lemma pad_start_digits:
  "(\<forall>c \<in> set s. is_digit_char c) \<Longrightarrow> \<forall>c \<in> set (pad_start n (CHR ''0'') s). is_digit_char c"
  by (auto simp: pad_start_def is_digit_char_def)

subsection \<open>Lemmas on splitting and prefixes\<close>

lemma js_split_nonempty: "js_split c s \<noteq> []"
  by (induction s) (auto split: list.splits)

lemma js_split_absent: "c \<notin> set s \<Longrightarrow> js_split c s = [s]"
  by (induction s) auto

lemma js_split_append: "c \<notin> set s \<Longrightarrow> js_split c (s @ c # t) = s # js_split c t"
  by (induction s) auto

lemma js_split_pieces: "w \<in> set (js_split c s) \<Longrightarrow> c \<notin> set w"
  by (induction s arbitrary: w) (auto split: if_splits list.splits)

lemma split_join:
  assumes "xs \<noteq> []" "\<forall>x \<in> set xs. c \<notin> set x"
  shows "js_split c (js_join [c] xs) = xs"
  using assms
proof (induction "[c]" xs rule: js_join.induct)
  case (3 x y ys)
  then show ?case using js_split_append [of c x] by simp
qed (simp_all add: js_split_absent)

lemma js_join_split: "js_join [c] (js_split c s) = s"
proof (induction s)
  case Nil
  then show ?case by simp
next
  case (Cons x xs)
  then obtain w ws where "js_split c xs = w # ws"
    by (meson js_split_nonempty neq_Nil_conv)
  with Cons show ?case by (cases ws) auto
qed

lemma path_within_refl [simp]: "path_within p p"
  by (simp add: path_within_def)

lemma path_within_prefix: "path_within p s \<Longrightarrow> prefix p s"
  by (auto simp: path_within_def starts_with_def dest: append_prefixD)

lemma path_within_sub: "path_within p (p @ ''/'' @ rest)"
  by (simp add: path_within_def starts_with_def)

lemma path_within_trans: "path_within p q \<Longrightarrow> path_within q r \<Longrightarrow> path_within p r"
  by (auto simp: path_within_def starts_with_def prefix_def)

subsection \<open>The interface of a state machine\<close>

locale invariant_system =
  fixes init :: 's
    and step :: "'e \<Rightarrow> 's \<Rightarrow> 's"
    and inv :: "'s \<Rightarrow> bool"
  assumes inv_init: "inv init"
    and inv_step: "inv s \<Longrightarrow> inv (step e s)"
begin

lemma run_inv: "inv s \<Longrightarrow> inv (fold step es s)"
  by (induction es arbitrary: s) (auto intro: inv_step)

lemma reachable_inv: "inv (fold step es init)"
  by (rule run_inv) (rule inv_init)

end

end
