(* ===== verification/JS_Number.thy ===== *)
theory JS_Number
  imports JS_Prelude Complex_Main
begin

text \<open>
  The JavaScript \<open>number\<close> type: IEEE-754 binary64.

  A finite double is modelled by the rational it denotes; the two zeros are identified (no
  modelled code can tell them apart). Every arithmetic operation computes the exact rational
  result and rounds it to the nearest double, ties to even (\<open>round64\<close>), overflowing to an
  infinity. The interface \<open>rounded\<close> collects what clients need to know of rounding
  (monotone, idempotent, exact on small integers, odd); \<open>r64\<close> interprets it on
  \<open>round64\<close>.
\<close>

subsection \<open>Rounding to binary64\<close>

function nlog2 :: "int \<Rightarrow> int" where
  "nlog2 n = (if n \<le> 1 then 0 else 1 + nlog2 (n div 2))"
  by pat_completeness auto
termination
  by (relation "measure nat") auto

declare nlog2.simps [simp del]

text \<open>The binary exponent of a non-zero rational: \<open>2 ^ rexp x \<le> \<bar>x\<bar> < 2 ^ (rexp x + 1)\<close>.\<close>

definition rexp :: "rat \<Rightarrow> int" where
  "rexp x =
     (let (n, d) = quotient_of \<bar>x\<bar>; e = nlog2 n - nlog2 d
      in if 2 powi e \<le> \<bar>x\<bar> then e else e - 1)"

definition ulp_exp :: "rat \<Rightarrow> int" where
  "ulp_exp x = max (rexp x) (- 1022) - 52"

definition round_half_even :: "rat \<Rightarrow> int" where
  "round_half_even q =
     (let f = \<lfloor>q\<rfloor>; r = q - of_int f
      in if r < 1 / 2 then f else if 1 / 2 < r then f + 1 else if even f then f else f + 1)"

definition round64 :: "rat \<Rightarrow> rat" where
  "round64 x =
     (if x = 0 then 0
      else of_int (round_half_even (x / 2 powi ulp_exp x)) * 2 powi ulp_exp x)"

subsection \<open>Numbers and their operations\<close>

datatype jsnum = NaN | PInf | NInf | Fin rat

text \<open>A result at or beyond \<open>2 ^ 1024\<close> overflows.\<close>

definition double_limit :: rat where
  "double_limit = 2 ^ 1024"

definition of_rat_js :: "rat \<Rightarrow> jsnum" where
  "of_rat_js x =
     (let r = round64 x in if double_limit \<le> r then PInf else if r \<le> - double_limit then NInf else Fin r)"

definition is_finite_num :: "jsnum \<Rightarrow> bool" where
  "is_finite_num v = (case v of Fin _ \<Rightarrow> True | _ \<Rightarrow> False)"

definition is_nan :: "jsnum \<Rightarrow> bool" where
  "is_nan v \<longleftrightarrow> v = NaN"

fun js_neg :: "jsnum \<Rightarrow> jsnum" where
  "js_neg NaN = NaN"
| "js_neg PInf = NInf"
| "js_neg NInf = PInf"
| "js_neg (Fin x) = Fin (- x)"

fun js_add :: "jsnum \<Rightarrow> jsnum \<Rightarrow> jsnum" where
  "js_add NaN _ = NaN"
| "js_add _ NaN = NaN"
| "js_add PInf NInf = NaN"
| "js_add NInf PInf = NaN"
| "js_add PInf _ = PInf"
| "js_add NInf _ = NInf"
| "js_add _ PInf = PInf"
| "js_add _ NInf = NInf"
| "js_add (Fin x) (Fin y) = of_rat_js (x + y)"

definition js_sub :: "jsnum \<Rightarrow> jsnum \<Rightarrow> jsnum" where
  "js_sub a b = js_add a (js_neg b)"

fun js_sign :: "jsnum \<Rightarrow> int" where
  "js_sign NaN = 0"
| "js_sign PInf = 1"
| "js_sign NInf = - 1"
| "js_sign (Fin x) = (if 0 < x then 1 else if x < 0 then - 1 else 0)"

definition signed_inf :: "int \<Rightarrow> jsnum" where
  "signed_inf s = (if 0 < s then PInf else if s < 0 then NInf else NaN)"

fun js_mul :: "jsnum \<Rightarrow> jsnum \<Rightarrow> jsnum" where
  "js_mul NaN _ = NaN"
| "js_mul _ NaN = NaN"
| "js_mul (Fin x) (Fin y) = of_rat_js (x * y)"
| "js_mul a b = signed_inf (js_sign a * js_sign b)"

text \<open>Division; the sign of a zero divisor is not modelled, and no modelled code divides by a
  zero.\<close>

fun js_div :: "jsnum \<Rightarrow> jsnum \<Rightarrow> jsnum" where
  "js_div NaN _ = NaN"
| "js_div _ NaN = NaN"
| "js_div (Fin x) (Fin y) = (if y = 0 then signed_inf (js_sign (Fin x)) else of_rat_js (x / y))"
| "js_div (Fin x) _ = Fin 0"
| "js_div a (Fin y) = signed_inf (js_sign a * (if y < 0 then - 1 else 1))"
| "js_div _ _ = NaN"

fun js_lt :: "jsnum \<Rightarrow> jsnum \<Rightarrow> bool" where
  "js_lt NaN _ = False"
| "js_lt _ NaN = False"
| "js_lt (Fin x) (Fin y) = (x < y)"
| "js_lt NInf b = (b \<noteq> NInf)"
| "js_lt PInf _ = False"
| "js_lt (Fin _) b = (b = PInf)"

text \<open>Strict equality \<open>===\<close> on numbers: \<open>NaN\<close> differs from itself.\<close>

definition js_eq :: "jsnum \<Rightarrow> jsnum \<Rightarrow> bool" where
  "js_eq a b \<longleftrightarrow> a \<noteq> NaN \<and> a = b"

definition js_le :: "jsnum \<Rightarrow> jsnum \<Rightarrow> bool" where
  "js_le a b \<longleftrightarrow> js_lt a b \<or> js_eq a b"

definition js_abs :: "jsnum \<Rightarrow> jsnum" where
  "js_abs a = (if js_lt a (Fin 0) then js_neg a else a)"

definition js_max2 :: "jsnum \<Rightarrow> jsnum \<Rightarrow> jsnum" where
  "js_max2 a b = (if a = NaN \<or> b = NaN then NaN else if js_lt a b then b else a)"

definition js_min2 :: "jsnum \<Rightarrow> jsnum \<Rightarrow> jsnum" where
  "js_min2 a b = (if a = NaN \<or> b = NaN then NaN else if js_lt b a then b else a)"

text \<open>\<open>Math.max(...xs)\<close> and \<open>Math.min(...xs)\<close>.\<close>

definition js_max :: "jsnum list \<Rightarrow> jsnum" where
  "js_max xs = foldl js_max2 NInf xs"

definition js_min :: "jsnum list \<Rightarrow> jsnum" where
  "js_min xs = foldl js_min2 PInf xs"

fun js_floor :: "jsnum \<Rightarrow> jsnum" where
  "js_floor (Fin x) = Fin (of_int \<lfloor>x\<rfloor>)"
| "js_floor a = a"

text \<open>\<open>Math.round\<close> rounds halves towards plus infinity.\<close>

fun js_round :: "jsnum \<Rightarrow> jsnum" where
  "js_round (Fin x) = Fin (of_int \<lfloor>x + 1 / 2\<rfloor>)"
| "js_round a = a"

subsection \<open>What clients need to know of rounding\<close>

locale rounded =
  fixes rnd :: "rat \<Rightarrow> rat"
  assumes rnd_mono: "x \<le> y \<Longrightarrow> rnd x \<le> rnd y"
    and rnd_idem: "rnd (rnd x) = rnd x"
    and rnd_int: "\<bar>n\<bar> \<le> 2 ^ 53 \<Longrightarrow> rnd (of_int n) = of_int n"
    and rnd_neg: "rnd (- x) = - rnd x"
begin

lemma rnd_zero: "rnd 0 = 0"
  using rnd_int [of 0] by simp

lemma rnd_lower: "of_int n \<le> x \<Longrightarrow> \<bar>n\<bar> \<le> 2 ^ 53 \<Longrightarrow> of_int n \<le> rnd x"
  using rnd_mono [of "of_int n" x] by (simp add: rnd_int)

lemma rnd_upper: "x \<le> of_int n \<Longrightarrow> \<bar>n\<bar> \<le> 2 ^ 53 \<Longrightarrow> rnd x \<le> of_int n"
  using rnd_mono [of x "of_int n"] by (simp add: rnd_int)

lemma rnd_nonneg: "0 \<le> x \<Longrightarrow> 0 \<le> rnd x"
  using rnd_mono [of 0 x] by (simp add: rnd_zero)

lemma rnd_between:
  "rnd a = a \<Longrightarrow> rnd b = b \<Longrightarrow> a \<le> x \<Longrightarrow> x \<le> b \<Longrightarrow> a \<le> rnd x \<and> rnd x \<le> b"
  using rnd_mono [of a x] rnd_mono [of x b] by simp

end

subsection \<open>Binary exponents\<close>

lemma nlog2_nonneg: "0 \<le> nlog2 n"
proof (induction n rule: nlog2.induct)
  case (1 n)
  then show ?case by (cases "n \<le> 1") (auto simp: nlog2.simps [of n])
qed

lemma nlog2_bounds_int: "0 < n \<Longrightarrow> 2 ^ nat (nlog2 n) \<le> n \<and> n < 2 ^ Suc (nat (nlog2 n))"
proof (induction n rule: nlog2.induct)
  case (1 n)
  show ?case
  proof (cases "n \<le> 1")
    case True
    with "1.prems" have "n = 1" by simp
    then show ?thesis by (simp add: nlog2.simps)
  next
    case False
    then have "0 < n div 2" by simp
    with False "1.IH"
    have ih: "2 ^ nat (nlog2 (n div 2)) \<le> n div 2" "n div 2 < 2 ^ Suc (nat (nlog2 (n div 2)))"
      by auto
    have "nat (nlog2 n) = Suc (nat (nlog2 (n div 2)))"
      using False nlog2_nonneg [of "n div 2"] by (simp add: nlog2.simps [of n])
    moreover have "2 * (2 ^ nat (nlog2 (n div 2))) \<le> n" and "n < 2 * 2 ^ Suc (nat (nlog2 (n div 2)))"
      using ih by linarith+
    ultimately show ?thesis by simp
  qed
qed

lemma nlog2_bounds:
  assumes "0 < n"
  shows "2 powi nlog2 n \<le> (of_int n :: rat)" and "(of_int n :: rat) < 2 powi (nlog2 n + 1)"
proof -
  have "(of_int (2 ^ nat (nlog2 n)) :: rat) \<le> of_int n"
    and "(of_int n :: rat) < of_int (2 ^ Suc (nat (nlog2 n)))"
    using nlog2_bounds_int [OF assms] by (simp_all only: of_int_le_iff of_int_less_iff)
  then show "2 powi nlog2 n \<le> (of_int n :: rat)" and "(of_int n :: rat) < 2 powi (nlog2 n + 1)"
    using nlog2_nonneg [of n] by (simp_all add: power_int_def nat_add_distrib)
qed

lemma rexp_bounds:
  assumes "x \<noteq> 0"
  shows "2 powi rexp x \<le> \<bar>x\<bar>" and "\<bar>x\<bar> < 2 powi (rexp x + 1)"
proof -
  obtain n d where q: "quotient_of \<bar>x\<bar> = (n, d)" by fastforce
  then have d: "0 < d" and xe: "\<bar>x\<bar> = of_int n / of_int d"
    by (simp_all add: quotient_of_denom_pos quotient_of_div)
  then have n: "0 < n"
    using assms zero_less_divide_iff [of "of_int n :: rat" "of_int d"] by (simp flip: xe)
  let ?a = "nlog2 n" and ?b = "nlog2 d"
  have pw: "(2 :: rat) powi (?a - ?b) = 2 powi ?a / 2 powi ?b"
    by (simp add: power_int_diff)
  have hi: "\<bar>x\<bar> < 2 powi (?a - ?b + 1)"
  proof -
    have "of_int n / of_int d < (2 powi (?a + 1) :: rat) / 2 powi ?b"
      using nlog2_bounds [OF n] nlog2_bounds [OF d] n d by (intro frac_less) auto
    also have "\<dots> = 2 powi (?a - ?b + 1)"
      by (simp add: power_int_add pw)
    finally show ?thesis by (simp add: xe)
  qed
  have lo: "2 powi (?a - ?b - 1) \<le> \<bar>x\<bar>"
  proof -
    have "(2 :: rat) powi (?a - ?b - 1) = 2 powi ?a / 2 powi (?b + 1)"
      by (simp add: power_int_diff power_int_add pw)
    also have "\<dots> \<le> of_int n / of_int d"
      using nlog2_bounds [OF n] nlog2_bounds [OF d] n d by (intro frac_le) auto
    finally show ?thesis by (simp add: xe)
  qed
  show "2 powi rexp x \<le> \<bar>x\<bar>" and "\<bar>x\<bar> < 2 powi (rexp x + 1)"
    using hi lo by (auto simp: rexp_def q Let_def)
qed

lemma rexp_less: "\<bar>x\<bar> < 2 powi k \<Longrightarrow> x \<noteq> 0 \<Longrightarrow> rexp x < k"
proof (rule ccontr)
  assume "\<bar>x\<bar> < 2 powi k" "x \<noteq> 0" "\<not> rexp x < k"
  then have "(2 :: rat) powi k \<le> 2 powi rexp x"
    by (intro power_int_increasing) auto
  with rexp_bounds(1) [OF \<open>x \<noteq> 0\<close>] \<open>\<bar>x\<bar> < 2 powi k\<close> show False by linarith
qed

lemma rexp_ge: "2 powi k \<le> \<bar>x\<bar> \<Longrightarrow> k \<le> rexp x"
proof (rule ccontr)
  assume a: "2 powi k \<le> \<bar>x\<bar>" "\<not> k \<le> rexp x"
  have "x \<noteq> 0"
  proof
    assume "x = 0"
    with a(1) have "(2 :: rat) powi k \<le> 0" by simp
    with zero_less_power_int [of "2 :: rat" k] show False by linarith
  qed
  have "(2 :: rat) powi (rexp x + 1) \<le> 2 powi k"
    using a by (intro power_int_increasing) auto
  with rexp_bounds(2) [OF \<open>x \<noteq> 0\<close>] a show False by linarith
qed

lemma rexp_mono: "0 < x \<Longrightarrow> x \<le> y \<Longrightarrow> rexp x \<le> rexp y"
  using rexp_bounds(1) [of x] by (intro rexp_ge) auto

lemma rexp_minus [simp]: "rexp (- x) = rexp x"
  by (simp add: rexp_def)

lemma ulp_exp_minus [simp]: "ulp_exp (- x) = ulp_exp x"
  by (simp add: ulp_exp_def)

subsection \<open>Rounding to an integer, ties to even\<close>

lemma round_half_even_int [simp]: "round_half_even (of_int n) = n"
  by (simp add: round_half_even_def)

lemma round_half_even_mono:
  assumes "p \<le> q"
  shows "round_half_even p \<le> round_half_even q"
proof (cases "\<lfloor>p\<rfloor> = \<lfloor>q\<rfloor>")
  case True
  with assms show ?thesis unfolding round_half_even_def Let_def by auto
next
  case False
  with floor_mono [OF assms] have "\<lfloor>p\<rfloor> + 1 \<le> \<lfloor>q\<rfloor>" by simp
  moreover have "round_half_even p \<le> \<lfloor>p\<rfloor> + 1" "\<lfloor>q\<rfloor> \<le> round_half_even q"
    unfolding round_half_even_def Let_def by auto
  ultimately show ?thesis by linarith
qed

lemma round_half_even_minus: "round_half_even (- q) = - round_half_even q"
proof (cases "q = of_int \<lfloor>q\<rfloor>")
  case True
  then have "round_half_even (- q) = - \<lfloor>q\<rfloor>"
    by (metis of_int_minus round_half_even_int)
  moreover have "round_half_even q = \<lfloor>q\<rfloor>"
    using True by (metis round_half_even_int)
  ultimately show ?thesis by simp
next
  case False
  then have fl: "\<lfloor>- q\<rfloor> = - \<lfloor>q\<rfloor> - 1"
    by (intro floor_unique) (auto, linarith+)
  then show ?thesis
    unfolding round_half_even_def Let_def fl by auto
qed

subsection \<open>\<open>round64\<close> is a rounding\<close>

lemma round64_minus: "round64 (- x) = - round64 x"
  by (simp add: round64_def round_half_even_minus)

text \<open>Multiples of the unit in the last place are fixed.\<close>

lemma round64_multiple:
  assumes "x = of_int k * 2 powi ulp_exp x"
  shows "round64 x = x"
proof (cases "x = 0")
  case False
  have "x / 2 powi ulp_exp x = of_int k"
    using assms by (metis nonzero_mult_div_cancel_right power_int_eq_0_iff zero_neq_numeral)
  with assms False show ?thesis by (simp add: round64_def)
qed (simp add: round64_def)

lemma powi_diff_int:
  assumes "a \<le> (b :: int)"
  shows "(2 :: rat) powi b = of_int (2 ^ nat (b - a)) * 2 powi a"
proof -
  have "(2 :: rat) powi b = 2 powi ((b - a) + a)" by simp
  also have "\<dots> = 2 powi (b - a) * 2 powi a"
    by (rule power_int_add) simp
  also have "(2 :: rat) powi (b - a) = of_int (2 ^ nat (b - a))"
    using assms by (simp add: power_int_def)
  finally show ?thesis .
qed

text \<open>A double is \<open>k * 2 ^ e\<close> with a 53-bit \<open>k\<close> and \<open>e \<ge> -1074\<close>.\<close>

lemma round64_exact:
  assumes "\<bar>k\<bar> \<le> 2 ^ 53" and "- 1074 \<le> e"
  shows "round64 (of_int k * 2 powi e) = of_int k * 2 powi e"
proof (cases "k = 0")
  case True
  then show ?thesis by (simp add: round64_def)
next
  case False
  let ?x = "of_int k * 2 powi e :: rat"
  have x0: "?x \<noteq> 0" using False by simp
  have ax: "\<bar>?x\<bar> = of_int \<bar>k\<bar> * 2 powi e" by (simp add: abs_mult)
  show ?thesis
  proof (cases "\<bar>k\<bar> = 2 ^ 53")
    case True
    then have "\<bar>?x\<bar> = 2 powi (e + 53)"
      by (simp add: ax power_int_add)
    then have "rexp ?x = e + 53"
      using rexp_less [of ?x "e + 54"] rexp_ge [of "e + 53" ?x] x0
        power_int_strict_increasing [of "e + 53" "e + 54" "2 :: rat"] by auto
    then have u: "ulp_exp ?x = e + 1"
      using assms by (simp add: ulp_exp_def)
    have "k = 2 * (k div 2)"
      using True by (metis abs_minus_cancel abs_of_nonneg abs_if dvd_minus_iff dvd_mult_div_cancel even_numeral even_power zero_less_numeral)
    then have "(of_int k :: rat) = of_int (k div 2) * 2"
      by (metis mult.commute of_int_mult of_int_numeral)
    then have "?x = of_int (k div 2) * 2 powi ulp_exp ?x"
      unfolding u by (simp add: power_int_add mult.assoc)
    then show ?thesis by (rule round64_multiple)
  next
    case False
    with assms have "\<bar>k\<bar> < 2 ^ 53" by simp
    then have "(of_int \<bar>k\<bar> :: rat) < 2 ^ 53"
      by (metis of_int_less_iff of_int_numeral of_int_power)
    then have "\<bar>?x\<bar> < 2 powi (e + 53)"
      by (simp add: ax power_int_add)
    then have "rexp ?x < e + 53"
      using x0 by (rule rexp_less)
    then have "ulp_exp ?x \<le> e"
      using assms by (simp add: ulp_exp_def)
    then have "?x = of_int (k * 2 ^ nat (e - ulp_exp ?x)) * 2 powi ulp_exp ?x"
      using powi_diff_int [of "ulp_exp ?x" e] by simp
    then show ?thesis by (rule round64_multiple)
  qed
qed

lemma round64_of_int: "\<bar>n\<bar> \<le> 2 ^ 53 \<Longrightarrow> round64 (of_int n) = of_int n"
  using round64_exact [of n 0] by simp

text \<open>The significand of a rounded number, and with it idempotence.\<close>

lemma round64_significand:
  assumes "x \<noteq> 0"
  shows "\<bar>round_half_even (x / 2 powi ulp_exp x)\<bar> \<le> 2 ^ 53"
proof -
  let ?u = "2 powi ulp_exp x :: rat"
  have "\<bar>x\<bar> < 2 powi (rexp x + 1)"
    using assms by (rule rexp_bounds)
  also have "\<dots> \<le> 2 powi (ulp_exp x + 53)"
    by (intro power_int_increasing) (auto simp: ulp_exp_def)
  also have "\<dots> = 2 ^ 53 * ?u"
    by (simp add: power_int_add)
  finally have "\<bar>x / ?u\<bar> < of_int (2 ^ 53)"
    by (simp add: field_simps)
  then have "x / ?u \<le> of_int (2 ^ 53)" and "of_int (- (2 ^ 53)) \<le> x / ?u"
    by linarith+
  then have "round_half_even (x / ?u) \<le> round_half_even (of_int (2 ^ 53))"
    and "round_half_even (of_int (- (2 ^ 53))) \<le> round_half_even (x / ?u)"
    by (blast intro: round_half_even_mono)+
  then show ?thesis unfolding round_half_even_int by (simp add: abs_le_iff)
qed

lemma round64_idem: "round64 (round64 x) = round64 x"
proof (cases "x = 0")
  case False
  then have "round64 x = of_int (round_half_even (x / 2 powi ulp_exp x)) * 2 powi ulp_exp x"
    by (simp add: round64_def)
  moreover have "- 1074 \<le> ulp_exp x" by (simp add: ulp_exp_def)
  ultimately show ?thesis
    using round64_exact [OF round64_significand [OF False]] by metis
qed (simp add: round64_def)

lemma round64_le_power:
  assumes "0 < x" and "x \<le> 2 powi k" and "ulp_exp x \<le> k"
  shows "round64 x \<le> 2 powi k"
proof -
  let ?u = "2 powi ulp_exp x :: rat"
  have pk: "(2 :: rat) powi k = of_int (2 ^ nat (k - ulp_exp x)) * ?u"
    using assms(3) by (rule powi_diff_int)
  with assms(2) have "x / ?u \<le> of_int (2 ^ nat (k - ulp_exp x))"
    by (simp add: pos_divide_le_eq)
  from round_half_even_mono [OF this]
  have "round_half_even (x / ?u) \<le> 2 ^ nat (k - ulp_exp x)"
    unfolding round_half_even_int .
  then have "(of_int (round_half_even (x / ?u)) :: rat) \<le> of_int (2 ^ nat (k - ulp_exp x))"
    by (simp only: of_int_le_iff)
  with pk assms(1) show ?thesis
    by (simp add: round64_def mult_right_mono)
qed

lemma round64_ge_power:
  assumes "2 powi k \<le> x" and "ulp_exp x \<le> k"
  shows "2 powi k \<le> round64 x"
proof -
  let ?u = "2 powi ulp_exp x :: rat"
  have x: "0 < x"
    using assms(1) zero_less_power_int [of "2 :: rat" k] by linarith
  have pk: "(2 :: rat) powi k = of_int (2 ^ nat (k - ulp_exp x)) * ?u"
    using assms(2) by (rule powi_diff_int)
  with assms(1) have "of_int (2 ^ nat (k - ulp_exp x)) \<le> x / ?u"
    by (simp add: pos_le_divide_eq)
  from round_half_even_mono [OF this]
  have "2 ^ nat (k - ulp_exp x) \<le> round_half_even (x / ?u)"
    unfolding round_half_even_int .
  then have "of_int (2 ^ nat (k - ulp_exp x)) \<le> (of_int (round_half_even (x / ?u)) :: rat)"
    by (simp only: of_int_le_iff)
  with pk x show ?thesis
    by (simp add: round64_def mult_right_mono)
qed

lemma round64_mono_pos:
  assumes "0 < x" and "x \<le> y"
  shows "round64 x \<le> round64 y"
proof (cases "ulp_exp x = ulp_exp y")
  case True
  have "x / 2 powi ulp_exp y \<le> y / 2 powi ulp_exp y"
    using assms by (intro divide_right_mono) auto
  then show ?thesis
    using assms True by (simp add: round64_def mult_right_mono round_half_even_mono)
next
  case False
  have "rexp x \<le> rexp y" using assms by (rule rexp_mono)
  with False have lt: "rexp x + 1 \<le> rexp y" "- 1022 < rexp y" "max (rexp x) (- 1022) < rexp y"
    by (auto simp: ulp_exp_def)
  have y0: "y \<noteq> 0" using assms by auto
  have "x < 2 powi (rexp x + 1)"
    using rexp_bounds(2) [of x] assms by auto
  also have "\<dots> \<le> 2 powi rexp y"
    using lt by (intro power_int_increasing) auto
  finally have "round64 x \<le> 2 powi rexp y"
    using lt assms by (intro round64_le_power) (auto simp: ulp_exp_def)
  also have "2 powi rexp y \<le> round64 y"
    using rexp_bounds(1) [OF y0] assms lt by (intro round64_ge_power) (auto simp: ulp_exp_def)
  finally show ?thesis .
qed

lemma round64_nonneg: "0 \<le> x \<Longrightarrow> 0 \<le> round64 x"
proof -
  assume "0 \<le> x"
  then have "0 \<le> x / 2 powi ulp_exp x" by simp
  then have "round_half_even (of_int 0) \<le> round_half_even (x / 2 powi ulp_exp x)"
    by (intro round_half_even_mono) simp
  then show ?thesis unfolding round_half_even_int by (simp add: round64_def)
qed

lemma round64_mono:
  assumes "x \<le> y"
  shows "round64 x \<le> round64 y"
proof -
  consider "0 < x" | "x \<le> 0" "0 \<le> y" | "y < 0" using assms by linarith
  then show ?thesis
  proof cases
    case 1
    then show ?thesis using assms by (rule round64_mono_pos)
  next
    case 2
    then show ?thesis
      using round64_nonneg [of y] round64_nonneg [of "- x"] by (simp add: round64_minus)
  next
    case 3
    then have "round64 (- y) \<le> round64 (- x)" using assms by (intro round64_mono_pos) auto
    then show ?thesis by (simp add: round64_minus)
  qed
qed

text \<open>The rounding error of a number that is at least one.\<close>

lemma round_half_even_error: "\<bar>of_int (round_half_even q) - q\<bar> \<le> 1 / 2"
proof -
  have "of_int \<lfloor>q\<rfloor> \<le> q" "q < of_int \<lfloor>q\<rfloor> + 1" by linarith+
  then show ?thesis unfolding round_half_even_def Let_def by (auto simp: abs_le_iff)
qed

lemma round64_error:
  assumes "1 \<le> x"
  shows "\<bar>round64 x - x\<bar> \<le> x / 2 ^ 53"
proof -
  let ?u = "2 powi ulp_exp x :: rat" and ?q = "x / 2 powi ulp_exp x"
  have "0 \<le> rexp x" using assms rexp_ge [of 0 x] by simp
  then have "2 powi rexp x = 2 ^ 52 * ?u" by (simp add: ulp_exp_def power_int_diff)
  then have u: "?u \<le> x / 2 ^ 52" using rexp_bounds(1) [of x] assms by (simp add: field_simps)
  have "round64 x - x = (of_int (round_half_even ?q) - ?q) * ?u"
    using assms by (simp add: round64_def left_diff_distrib)
  then have "\<bar>round64 x - x\<bar> = \<bar>of_int (round_half_even ?q) - ?q\<bar> * ?u"
    by (simp add: abs_mult)
  also have "\<dots> \<le> 1 / 2 * ?u" by (intro mult_right_mono round_half_even_error) simp
  also have "\<dots> \<le> x / 2 ^ 53" using u by simp
  finally show ?thesis .
qed

interpretation r64: rounded round64
  by unfold_locales (simp_all add: round64_mono round64_idem round64_of_int round64_minus)

subsection \<open>Finite numbers\<close>

text \<open>The rationals that are doubles.\<close>

definition is_double :: "rat \<Rightarrow> bool" where
  "is_double x \<longleftrightarrow> round64 x = x \<and> \<bar>x\<bar> < double_limit"

lemma of_rat_js_double [simp]: "is_double x \<Longrightarrow> of_rat_js x = Fin x"
  by (auto simp: is_double_def of_rat_js_def Let_def abs_less_iff)

lemma of_rat_js_Fin: "of_rat_js x = Fin y \<Longrightarrow> y = round64 x \<and> is_double y"
  by (auto simp: of_rat_js_def Let_def is_double_def round64_idem abs_less_iff split: if_splits)

lemma double_limit_large: "2 ^ 60 \<le> double_limit"
  unfolding double_limit_def by (rule power_increasing) auto

lemma is_doubleI: "round64 x = x \<Longrightarrow> \<bar>x\<bar> < 2 ^ 60 \<Longrightarrow> is_double x"
  using double_limit_large by (auto simp: is_double_def simp del: power_numeral)

lemma is_double_of_int: "\<bar>n\<bar> \<le> 2 ^ 53 \<Longrightarrow> is_double (of_int n)"
proof (rule is_doubleI)
  assume n: "\<bar>n\<bar> \<le> 2 ^ 53"
  then show "round64 (of_int n) = of_int n" by (rule round64_of_int)
  have "(of_int \<bar>n\<bar> :: rat) \<le> of_int (2 ^ 53)" using n by (simp only: of_int_le_iff)
  then show "\<bar>of_int n :: rat\<bar> < 2 ^ 60" by simp
qed

lemma of_rat_js_bounded:
  assumes "is_double a" and "is_double b" and "a \<le> x" and "x \<le> b"
  shows "\<exists>y. of_rat_js x = Fin y \<and> a \<le> y \<and> y \<le> b"
proof -
  have "a \<le> round64 x \<and> round64 x \<le> b"
    using assms r64.rnd_between by (auto simp: is_double_def)
  then show ?thesis
    using assms by (auto simp: of_rat_js_def Let_def is_double_def abs_less_iff)
qed

end
