(* ===== verification/Ws_Backoff.thy ===== *)
theory Ws_Backoff
  imports JS_Number
begin

text \<open>
  \<^verbatim>\<open>apps/web/lib/ws-backoff.ts\<close>: the reconnect delay shared by the three socket hooks.

  \<open>reconnectDelayMs\<close> takes the attempt number and the value \<open>Math.random()\<close> returns. All
  arithmetic is rounded double arithmetic. The interface \<open>backoff\<close> states what a socket may
  rely on (a whole number of milliseconds between two bounds, for every attempt); \<open>bo\<close> gives
  the bounds of this policy.
\<close>

definition MAX_BACKOFF_MS :: rat where
  "MAX_BACKOFF_MS = 30000"

definition JITTER_FACTOR :: rat where
  "JITTER_FACTOR = 1 / 2"

text \<open>The expression \<open>Math.round(w / 2 + Math.random() * (w / 2) * JITTER_FACTOR)\<close> that every
  branch of the function returns for its own window \<open>w\<close>.\<close>

definition jittered :: "jsnum \<Rightarrow> jsnum \<Rightarrow> jsnum" where
  "jittered w r =
     js_round (js_add (js_div w (Fin 2)) (js_mul (js_mul r (js_div w (Fin 2))) (Fin JITTER_FACTOR)))"

definition reconnectDelayMs :: "nat \<Rightarrow> jsnum \<Rightarrow> jsnum" where
  "reconnectDelayMs attempt r =
     (if attempt = 0 then jittered (Fin 200) r
      else if attempt = 1 then jittered (Fin 350) r
      else if attempt = 2 then jittered (Fin 600) r
      else if attempt = 3 then jittered (Fin 1000) r
      else if attempt = 4 then jittered (Fin 2000) r
      else if attempt = 5 then jittered (Fin 4000) r
      else if attempt = 6 then jittered (Fin 8000) r
      else
        (let delay = js_mul (Fin 8000) (of_rat_js (2 ^ (attempt - 7)));
             capped = js_min2 delay (Fin MAX_BACKOFF_MS)
         in jittered capped r))"

text \<open>The window of an attempt, as a table.\<close>

definition backoff_window :: "nat \<Rightarrow> int" where
  "backoff_window a =
     (if a < 7 then [200, 350, 600, 1000, 2000, 4000, 8000] ! a
      else if a = 7 then 8000 else if a = 8 then 16000 else 30000)"

locale backoff =
  fixes delay :: "nat \<Rightarrow> jsnum \<Rightarrow> jsnum" and lo hi :: int
  assumes delay_range:
    "0 \<le> r \<Longrightarrow> r \<le> 1 \<Longrightarrow> \<exists>n. delay a (Fin r) = Fin (of_int n) \<and> lo \<le> n \<and> n \<le> hi"
begin

lemma delay_finite: "0 \<le> r \<Longrightarrow> r \<le> 1 \<Longrightarrow> is_finite_num (delay a (Fin r))"
  using delay_range [of r a] by (auto simp: is_finite_num_def)

lemma delay_positive: "0 < lo \<Longrightarrow> 0 \<le> r \<Longrightarrow> r \<le> 1 \<Longrightarrow> js_lt (Fin 0) (delay a (Fin r))"
  using delay_range [of r a] by auto

end

lemma is_double_half:
  assumes "\<bar>h\<bar> \<le> 2 ^ 53"
  shows "is_double (of_int h / 2)"
proof (rule is_doubleI)
  have "round64 (of_int h * 2 powi (- 1)) = of_int h * 2 powi (- 1)"
    using assms by (intro round64_exact) auto
  then show "round64 (of_int h / 2) = of_int h / 2"
    by (simp add: power_int_minus field_simps)
  have "(of_int \<bar>h\<bar> :: rat) \<le> of_int (2 ^ 53)" using assms by (simp only: of_int_le_iff)
  then show "\<bar>of_int h / 2 :: rat\<bar> < 2 ^ 60" by simp
qed

lemma jittered_range:
  assumes h: "0 \<le> h" "h \<le> 2 ^ 50" and r: "0 \<le> r" "r \<le> 1"
  shows "\<exists>n. jittered (Fin (of_int (2 * h))) (Fin r) = Fin (of_int n)
    \<and> h \<le> n \<and> of_int n \<le> 3 * of_int h / 2 + (1 / 2 :: rat)"
proof -
  have d: "is_double (of_int h)" "is_double (of_int h / 2)" "is_double (of_int (3 * h) / 2)"
    "is_double 0"
    using h is_double_of_int [of 0] by (auto intro!: is_double_of_int is_double_half simp del: of_int_mult)
  have half: "js_div (Fin (of_int (2 * h))) (Fin 2) = Fin (of_int h)"
    using d by simp
  have "0 \<le> r * of_int h" "r * of_int h \<le> of_int h"
    using h r by (simp_all add: mult_left_le_one_le)
  then obtain y where y: "of_rat_js (r * of_int h) = Fin y" "0 \<le> y" "y \<le> of_int h"
    using of_rat_js_bounded [OF d(4) d(1)] by blast
  then obtain z where z: "of_rat_js (y / 2) = Fin z" "0 \<le> z" "z \<le> of_int h / 2"
    using of_rat_js_bounded [OF d(4) d(2), of "y / 2"] by auto
  then obtain w where w: "of_rat_js (of_int h + z) = Fin w" "of_int h \<le> w" "w \<le> of_int (3 * h) / 2"
    using of_rat_js_bounded [OF d(1) d(3), of "of_int h + z"] by auto
  have "jittered (Fin (of_int (2 * h))) (Fin r) = Fin (of_int \<lfloor>w + 1 / 2\<rfloor>)"
    unfolding jittered_def half by (simp add: y z w JITTER_FACTOR_def)
  moreover have "h \<le> \<lfloor>w + 1 / 2\<rfloor>" using w by (simp add: le_floor_iff)
  moreover have "of_int \<lfloor>w + 1 / 2\<rfloor> \<le> 3 * of_int h / 2 + (1 / 2 :: rat)"
  proof -
    have "of_int \<lfloor>w + 1 / 2\<rfloor> \<le> w + 1 / 2" by (rule of_int_floor_le)
    also have "\<dots> \<le> 3 * of_int h / 2 + 1 / 2" using w(3) by simp
    finally show ?thesis .
  qed
  ultimately show ?thesis by blast
qed

lemma of_rat_js_large: "30000 \<le> x \<Longrightarrow> js_min2 (of_rat_js x) (Fin 30000) = Fin 30000"
  using r64.rnd_lower [of 30000 x] by (auto simp: of_rat_js_def Let_def js_min2_def)

text \<open>Doubling under the cap of 30 seconds: \<open>Math.min(b * 2 ** k, 30_000)\<close> is exact, also where
  the power overflows to infinity.\<close>

lemma capped_doubling:
  assumes "1 \<le> b" "b \<le> 30000"
  shows "js_min2 (js_mul (Fin (of_int b)) (of_rat_js (2 ^ k))) (Fin 30000) = Fin (of_int (min (b * 2 ^ k) 30000))"
proof (cases "(2 :: int) ^ k \<le> 30000")
  case True
  have d: "is_double (of_int (2 ^ k))" using True by (intro is_double_of_int) simp
  have "b * 2 ^ k \<le> 30000 * 30000" using assms True by (intro mult_mono) auto
  then have "is_double (of_int (b * 2 ^ k))" using assms by (intro is_double_of_int) simp
  with d show ?thesis
    by (auto simp: js_min2_def min_def simp flip: of_int_le_iff [where 'a = rat])
next
  case False
  then have p: "(30000 :: rat) \<le> 2 ^ k"
    by (metis less_imp_le linorder_not_le of_int_le_iff of_int_numeral of_int_power)
  have "b * 2 ^ k \<ge> 1 * 30000" using assms False by (intro mult_mono) auto
  then have w: "min (b * 2 ^ k) 30000 = 30000" by simp
  have "30000 \<le> round64 (2 ^ k)" using r64.rnd_lower [of 30000 "2 ^ k"] p by simp
  then have "of_rat_js (2 ^ k) = PInf \<or> (\<exists>y \<ge> 30000. of_rat_js (2 ^ k) = Fin y)"
    using double_limit_large by (simp add: of_rat_js_def Let_def)
  then consider "of_rat_js (2 ^ k) = PInf" | y where "of_rat_js (2 ^ k) = Fin y" "30000 \<le> y" by blast
  then show ?thesis
  proof cases
    case 1
    then show ?thesis using assms by (simp add: w js_min2_def signed_inf_def)
  next
    case 2
    then have "(1 :: rat) * 30000 \<le> of_int b * y" using assms by (intro mult_mono) auto
    with 2 show ?thesis by (simp add: w of_rat_js_large)
  qed
qed

lemma capped_window:
  assumes "7 \<le> a"
  shows "js_min2 (js_mul (Fin 8000) (of_rat_js (2 ^ (a - 7)))) (Fin MAX_BACKOFF_MS)
    = Fin (of_int (backoff_window a))"
proof -
  have "min (8000 * 2 ^ (a - 7)) 30000 = backoff_window a"
  proof (cases "a \<le> 8")
    case True
    then have "a = 7 \<or> a = 8" using assms by linarith
    then show ?thesis by (auto simp: backoff_window_def)
  next
    case False
    then have "2 \<le> a - 7" by simp
    then have "(2 :: int) ^ 2 \<le> 2 ^ (a - 7)" by (rule power_increasing) simp
    with False show ?thesis by (simp add: backoff_window_def min_def)
  qed
  then show ?thesis
    using capped_doubling [of 8000 "a - 7"] by (simp add: MAX_BACKOFF_MS_def)
qed

lemma reconnectDelayMs_window:
  assumes "0 \<le> r" "r \<le> 1"
  shows "\<exists>n. reconnectDelayMs a (Fin r) = Fin (of_int n)
    \<and> of_int (backoff_window a) / 2 \<le> (of_int n :: rat)
    \<and> of_int n \<le> 3 * of_int (backoff_window a) / 4 + (1 / 2 :: rat)"
proof -
  obtain h where h: "backoff_window a = 2 * h" "0 \<le> h" "h \<le> 15000"
  proof
    show "backoff_window a = 2 * (backoff_window a div 2)"
      "0 \<le> backoff_window a div 2" "backoff_window a div 2 \<le> 15000"
      by (auto simp: backoff_window_def nth_Cons' numeral_eq_Suc)
  qed
  have "reconnectDelayMs a (Fin r) = jittered (Fin (of_int (backoff_window a))) (Fin r)"
  proof (cases "a < 7")
    case True
    then consider "a = 0" | "a = 1" | "a = 2" | "a = 3" | "a = 4" | "a = 5" | "a = 6" by linarith
    then show ?thesis by cases (simp_all add: reconnectDelayMs_def backoff_window_def)
  next
    case False
    then show ?thesis
      using capped_window [of a] by (simp add: reconnectDelayMs_def Let_def)
  qed
  moreover obtain n where "jittered (Fin (of_int (2 * h))) (Fin r) = Fin (of_int n)" "h \<le> n"
    "of_int n \<le> 3 * of_int h / 2 + (1 / 2 :: rat)"
    using jittered_range [OF h(2) _ assms] h(3) by auto
  ultimately show ?thesis
    unfolding h(1) by (intro exI [of _ n]) auto
qed

lemma backoff_window_bounds: "200 \<le> backoff_window a" "backoff_window a \<le> 30000"
  by (auto simp: backoff_window_def nth_Cons' numeral_eq_Suc)

lemma backoff_window_mono: "a \<le> b \<Longrightarrow> backoff_window a \<le> backoff_window b"
  by (auto simp: backoff_window_def nth_Cons' numeral_eq_Suc less_Suc_eq)

lemma reconnectDelayMs_range:
  assumes "0 \<le> r" "r \<le> 1"
  shows "\<exists>n. reconnectDelayMs a (Fin r) = Fin (of_int n) \<and> 100 \<le> n \<and> n \<le> 22500"
proof -
  obtain n where n: "reconnectDelayMs a (Fin r) = Fin (of_int n)"
    "of_int (backoff_window a) / 2 \<le> (of_int n :: rat)"
    "of_int n \<le> 3 * of_int (backoff_window a) / 4 + (1 / 2 :: rat)"
    using reconnectDelayMs_window [OF assms] by blast
  have "(200 :: rat) \<le> of_int (backoff_window a)" "of_int (backoff_window a) \<le> (30000 :: rat)"
    using backoff_window_bounds [of a] by simp_all
  then have "(of_int 100 :: rat) \<le> of_int n" "(of_int n :: rat) < of_int 22501"
    using n by simp_all
  then show ?thesis using n(1) by (auto simp only: of_int_le_iff of_int_less_iff)
qed

interpretation bo: backoff reconnectDelayMs 100 22500
  by unfold_locales (rule reconnectDelayMs_range)

end
