(* ===== verification/JS_Value.thy ===== *)
theory JS_Value
  imports JS_Number
begin

text \<open>
  Values that cross the wire, and the two conversions between numbers and strings.

  \<^item> \<open>Number(s)\<close> on a string is the ECMAScript \<open>StringToNumber\<close>: the trimmed string is empty
    (zero), an infinity, a decimal literal or a hexadecimal, octal or binary literal; anything
    else is \<open>NaN\<close>. The exact value of a literal is rounded to the nearest double.
  \<^item> \<open>String(x)\<close> on a number is the ECMAScript \<open>Number::toString\<close>: the shortest decimal that
    rounds back to \<open>x\<close>, at most 17 digits, in plain or exponent notation by its magnitude.

  \<open>jsval\<close> is a value as \<open>JSON.parse\<close> returns it; \<open>numstr\<close> is the TypeScript type
  \<open>number | string\<close> of the price and amount fields.
\<close>

datatype jsval =
    JUndef
  | JNull
  | JBool bool
  | JNum jsnum
  | JStr string
  | JArr "jsval list"
  | JObj "(string \<times> jsval) list"

datatype numstr = Num jsnum | Str string

subsection \<open>Strings to numbers\<close>

definition digit_in_radix :: "int \<Rightarrow> char \<Rightarrow> int option" where
  "digit_in_radix r c =
     (let n = of_char c :: int;
          d = (if 48 \<le> n \<and> n \<le> 57 then n - 48
               else if 97 \<le> n \<and> n \<le> 122 then n - 87
               else if 65 \<le> n \<and> n \<le> 90 then n - 55 else 99)
      in if d < r then Some d else None)"

definition radix_value :: "int \<Rightarrow> string \<Rightarrow> int option" where
  "radix_value r s =
     (if s = [] then None
      else foldl (\<lambda>acc c. case acc of None \<Rightarrow> None
                   | Some v \<Rightarrow> (case digit_in_radix r c of None \<Rightarrow> None | Some d \<Rightarrow> Some (r * v + d)))
             (Some 0) s)"

text \<open>An optional sign.\<close>

definition take_sign :: "string \<Rightarrow> bool \<times> string" where
  "take_sign s =
     (case s of c # cs \<Rightarrow> if c = CHR ''-'' then (True, cs) else if c = CHR ''+'' then (False, cs) else (False, s)
      | [] \<Rightarrow> (False, []))"

definition is_digits :: "string \<Rightarrow> bool" where
  "is_digits s \<longleftrightarrow> list_all is_digit_char s"

text \<open>The mantissa \<open>123\<close>, \<open>123.\<close>, \<open>1.23\<close> or \<open>.23\<close>: its digits as one number and how many
  of them follow the point.\<close>

definition parse_mantissa :: "string \<Rightarrow> (int \<times> nat) option" where
  "parse_mantissa s =
     (case js_split (CHR ''.'') s of
        [w] \<Rightarrow> if w \<noteq> [] \<and> is_digits w then Some (value_of_digits w, 0) else None
      | [w, f] \<Rightarrow>
          if (w \<noteq> [] \<or> f \<noteq> []) \<and> is_digits w \<and> is_digits f
          then Some (value_of_digits (w @ f), length f) else None
      | _ \<Rightarrow> None)"

definition parse_exponent :: "string \<Rightarrow> int option" where
  "parse_exponent s =
     (let (neg, ds) = take_sign s
      in if ds \<noteq> [] \<and> is_digits ds
         then Some (if neg then - value_of_digits ds else value_of_digits ds) else None)"

definition is_exp_char :: "char \<Rightarrow> bool" where
  "is_exp_char c \<longleftrightarrow> c = CHR ''e'' \<or> c = CHR ''E''"

definition parse_unsigned :: "string \<Rightarrow> rat option" where
  "parse_unsigned s =
     (let m = takeWhile (\<lambda>c. \<not> is_exp_char c) s; r = dropWhile (\<lambda>c. \<not> is_exp_char c) s
      in case parse_mantissa m of None \<Rightarrow> None
         | Some (v, k) \<Rightarrow>
             (case r of
                [] \<Rightarrow> Some (of_int v / 10 ^ k)
              | _ # es \<Rightarrow> (case parse_exponent es of None \<Rightarrow> None
                          | Some e \<Rightarrow> Some (of_int v / 10 ^ k * 10 powi e))))"

definition string_to_number :: "string \<Rightarrow> jsnum" where
  "string_to_number s0 =
     (let s = js_trim s0 in
      if s = [] then Fin 0
      else if starts_with s ''0x'' \<or> starts_with s ''0X'' \<or> starts_with s ''0o'' \<or> starts_with s ''0O''
              \<or> starts_with s ''0b'' \<or> starts_with s ''0B''
      then (let r = (if s ! 1 \<in> {CHR ''x'', CHR ''X''} then 16 else if s ! 1 \<in> {CHR ''o'', CHR ''O''} then 8 else 2)
            in case radix_value r (drop 2 s) of None \<Rightarrow> NaN | Some v \<Rightarrow> of_rat_js (of_int v))
      else (let (neg, u) = take_sign s in
            if u = ''Infinity'' then (if neg then NInf else PInf)
            else case parse_unsigned u of None \<Rightarrow> NaN
                 | Some q \<Rightarrow> of_rat_js (if neg then - q else q)))"

text \<open>\<open>Number(v)\<close> on the union type.\<close>

fun js_Number :: "numstr \<Rightarrow> jsnum" where
  "js_Number (Num x) = x"
| "js_Number (Str s) = string_to_number s"

subsection \<open>Numbers to strings\<close>

definition dexp :: "rat \<Rightarrow> int" where
  "dexp x =
     (let (n, d) = quotient_of x;
          e = int (length (digits_of n)) - int (length (digits_of d))
      in if 10 powi e \<le> x then e else e - 1)"

text \<open>The first \<open>k\<close> in the list for which a \<open>k\<close>-digit decimal rounds back to \<open>x\<close>, with
  that decimal's digits and exponent.\<close>

fun shortest_from :: "rat \<Rightarrow> int \<Rightarrow> nat list \<Rightarrow> (int \<times> int) option" where
  "shortest_from x e [] = None"
| "shortest_from x e (k # ks) =
     (let p = e + 1 - int k; c = \<lfloor>x / 10 powi p + 1 / 2\<rfloor>;
          c1 = \<lfloor>x / 10 powi p\<rfloor>; c2 = c1 + 1
      in if round64 (of_int c * 10 powi p) = x then Some (c, p)
         else if round64 (of_int c1 * 10 powi p) = x then Some (c1, p)
         else if round64 (of_int c2 * 10 powi p) = x then Some (c2, p)
         else shortest_from x e ks)"

definition shortest_decimal :: "rat \<Rightarrow> (int \<times> int) option" where
  "shortest_decimal x = shortest_from x (dexp x) [1..<18]"

function strip_zeros :: "int \<Rightarrow> int \<Rightarrow> int \<times> int" where
  "strip_zeros c p = (if 0 < c \<and> c mod 10 = 0 then strip_zeros (c div 10) (p + 1) else (c, p))"
  by pat_completeness auto
termination
  by (relation "measure (\<lambda>(c, p). nat c)") auto

declare strip_zeros.simps [simp del]

definition format_decimal :: "string \<Rightarrow> int \<Rightarrow> string" where
  "format_decimal ds n =
     (let k = int (length ds) in
      if k \<le> n \<and> n \<le> 21 then ds @ replicate (nat (n - k)) (CHR ''0'')
      else if 0 < n \<and> n \<le> 21 then take (nat n) ds @ ''.'' @ drop (nat n) ds
      else if - 6 < n \<and> n \<le> 0 then ''0.'' @ replicate (nat (- n)) (CHR ''0'') @ ds
      else (let es = (if n - 1 < 0 then ''e-'' else ''e+'') @ digits_of \<bar>n - 1\<bar>
            in if k = 1 then ds @ es else take 1 ds @ ''.'' @ drop 1 ds @ es))"

definition positive_to_string :: "rat \<Rightarrow> string" where
  "positive_to_string x =
     (case shortest_decimal x of
        None \<Rightarrow> []
      | Some (c, p) \<Rightarrow>
          (let (c', p') = strip_zeros c p; ds = digits_of c'
           in format_decimal ds (int (length ds) + p')))"

fun num_to_string :: "jsnum \<Rightarrow> string" where
  "num_to_string NaN = ''NaN''"
| "num_to_string PInf = ''Infinity''"
| "num_to_string NInf = ''-Infinity''"
| "num_to_string (Fin x) =
     (if x = 0 then ''0''
      else if x < 0 then ''-'' @ positive_to_string (- x) else positive_to_string x)"

subsection \<open>A number survives the trip through its string\<close>

lemma digit_not_special:
  assumes "is_digit_char c"
  shows "c \<noteq> CHR ''.''" and "\<not> is_exp_char c" and "\<not> is_js_space c"
    and "c \<noteq> CHR ''-''" and "c \<noteq> CHR ''+''" and "c \<noteq> CHR ''I''"
    and "c \<noteq> CHR ''x''" and "c \<noteq> CHR ''X''" and "c \<noteq> CHR ''o''" and "c \<noteq> CHR ''O''"
    and "c \<noteq> CHR ''b''" and "c \<noteq> CHR ''B''"
  using assms by (auto simp: is_digit_char_def is_exp_char_def is_js_space_def)

lemma is_digits_append: "is_digits (s @ t) \<longleftrightarrow> is_digits s \<and> is_digits t"
  by (simp add: is_digits_def)

lemma is_digits_replicate: "is_digits (replicate n (CHR ''0''))"
  by (simp add: is_digits_def list_all_iff is_digit_char_def)

lemma is_digits_digits_of: "0 \<le> n \<Longrightarrow> is_digits (digits_of n)"
  using digits_of_digits by (simp add: is_digits_def list_all_iff)

lemma is_digits_take: "is_digits s \<Longrightarrow> is_digits (take n s)"
  by (auto simp: is_digits_def list_all_iff dest: in_set_takeD)

lemma is_digits_drop: "is_digits s \<Longrightarrow> is_digits (drop n s)"
  by (auto simp: is_digits_def list_all_iff dest: in_set_dropD)

lemmas is_digits_simps = is_digits_append is_digits_replicate is_digits_take is_digits_drop

lemma digits_no_point: "is_digits s \<Longrightarrow> CHR ''.'' \<notin> set s"
  using digit_not_special(1) by (auto simp: is_digits_def list_all_iff)

lemma digits_no_exp: "is_digits s \<Longrightarrow> c \<in> set s \<Longrightarrow> \<not> is_exp_char c"
  using digit_not_special(2) by (auto simp: is_digits_def list_all_iff)

lemma parse_mantissa_whole:
  "is_digits w \<Longrightarrow> w \<noteq> [] \<Longrightarrow> parse_mantissa w = Some (value_of_digits w, 0)"
  by (simp add: parse_mantissa_def js_split_absent digits_no_point)

lemma parse_mantissa_point:
  "is_digits w \<Longrightarrow> is_digits f \<Longrightarrow> w \<noteq> [] \<Longrightarrow>
   parse_mantissa (w @ CHR ''.'' # f) = Some (value_of_digits (w @ f), length f)"
  by (simp add: parse_mantissa_def js_split_append js_split_absent digits_no_point)

text \<open>The mantissas \<open>format_decimal\<close> writes contain no exponent mark.\<close>

lemma parse_unsigned_plain:
  assumes "\<And>c. c \<in> set m \<Longrightarrow> \<not> is_exp_char c" and "parse_mantissa m = Some (v, k)"
  shows "parse_unsigned m = Some (of_int v / 10 ^ k)"
proof -
  have "takeWhile (\<lambda>c. \<not> is_exp_char c) m = m" "dropWhile (\<lambda>c. \<not> is_exp_char c) m = []"
    using assms(1) by (auto simp: takeWhile_eq_all_conv dropWhile_eq_Nil_conv)
  with assms(2) show ?thesis
    by (simp add: parse_unsigned_def del: takeWhile_eq_all_conv dropWhile_eq_Nil_conv)
qed

lemma parse_unsigned_exp:
  assumes "\<And>c. c \<in> set m \<Longrightarrow> \<not> is_exp_char c" and "parse_mantissa m = Some (v, k)"
    and "parse_exponent es = Some e"
  shows "parse_unsigned (m @ CHR ''e'' # es) = Some (of_int v / 10 ^ k * 10 powi e)"
proof -
  have "takeWhile (\<lambda>c. \<not> is_exp_char c) (m @ CHR ''e'' # es) = m"
    "dropWhile (\<lambda>c. \<not> is_exp_char c) (m @ CHR ''e'' # es) = CHR ''e'' # es"
    using assms(1) by (auto simp: takeWhile_append dropWhile_append is_exp_char_def)
  with assms show ?thesis by (simp add: parse_unsigned_def)
qed

lemma parse_exponent_formatted:
  "parse_exponent ((if j < 0 then ''-'' else ''+'') @ digits_of \<bar>j\<bar>) = Some j"
  by (auto simp: parse_exponent_def take_sign_def is_digits_digits_of value_of_digits_of)

lemma powi_10_minus_nat: "(10 :: rat) powi (- int k) = 1 / 10 ^ k"
  by (simp add: power_int_minus_divide)

lemma parse_format_decimal:
  assumes ds: "is_digits ds" "ds \<noteq> []"
  shows "parse_unsigned (format_decimal ds n)
    = Some (of_int (value_of_digits ds) * 10 powi (n - int (length ds)))"
proof -
  let ?k = "int (length ds)" and ?v = "of_int (value_of_digits ds) :: rat"
  consider (whole) "?k \<le> n" "n \<le> 21" | (point) "\<not> (?k \<le> n \<and> n \<le> 21)" "0 < n" "n \<le> 21"
    | (zero) "- 6 < n" "n \<le> 0" | (expo) "n \<le> - 6 \<or> 21 < n" by linarith
  then show ?thesis
  proof cases
    case whole
    let ?m = "ds @ replicate (nat (n - ?k)) (CHR ''0'')"
    have "parse_unsigned ?m = Some (of_int (value_of_digits ?m) / 10 ^ 0)"
      using ds by (intro parse_unsigned_plain parse_mantissa_whole)
        (auto simp: is_digits_simps is_exp_char_def dest: digits_no_exp [rotated])
    moreover have "value_of_digits ?m = value_of_digits ds * 10 ^ nat (n - ?k)"
      by (simp add: value_of_digits_append value_of_digits_replicate_zero)
    ultimately show ?thesis
      using whole by (simp add: format_decimal_def Let_def power_int_def)
  next
    case point
    let ?i = "nat n"
    have i: "?i < length ds" "0 < ?i" using point by auto
    have tn: "take ?i ds \<noteq> []" using i ds by auto
    have "parse_unsigned (take ?i ds @ CHR ''.'' # drop ?i ds)
      = Some (of_int (value_of_digits (take ?i ds @ drop ?i ds)) / 10 ^ length (drop ?i ds))"
      using ds tn by (intro parse_unsigned_plain parse_mantissa_point)
        (auto simp: is_digits_simps is_exp_char_def dest!: in_set_takeD in_set_dropD dest: digits_no_exp [rotated])
    moreover have "n - ?k = - int (length (drop ?i ds))" using point i by simp
    ultimately show ?thesis
      using point by (simp add: format_decimal_def Let_def powi_10_minus_nat del: length_drop)
  next
    case zero
    let ?z = "replicate (nat (- n)) (CHR ''0'')"
    have "parse_unsigned (''0'' @ CHR ''.'' # (?z @ ds))
      = Some (of_int (value_of_digits (''0'' @ ?z @ ds)) / 10 ^ length (?z @ ds))"
      using ds by (intro parse_unsigned_plain parse_mantissa_point)
        (auto simp: is_digits_simps is_digits_def is_digit_char_def is_exp_char_def list_all_iff
          dest: digits_no_exp [rotated])
    moreover have "value_of_digits (''0'' @ ?z @ ds) = value_of_digits ds"
      using value_of_digits_replicate_zero [of "Suc (nat (- n))"]
        value_of_digits_append [of "''0'' @ ?z" ds] by simp
    moreover have "n - ?k = - int (length (?z @ ds))" using zero by simp
    moreover have "\<not> ?k \<le> n" using zero ds by (cases ds) auto
    ultimately show ?thesis
      using zero ds by (simp add: format_decimal_def Let_def powi_10_minus_nat del: length_append)
  next
    case expo
    let ?es = "(if n - 1 < 0 then ''-'' else ''+'') @ digits_of \<bar>n - 1\<bar>"
    have pe: "parse_exponent ?es = Some (n - 1)" by (rule parse_exponent_formatted)
    show ?thesis
    proof (cases "length ds = 1")
      case True
      have "parse_unsigned (ds @ CHR ''e'' # ?es) = Some (?v / 10 ^ 0 * 10 powi (n - 1))"
        using ds pe by (intro parse_unsigned_exp parse_mantissa_whole) (auto dest: digits_no_exp)
      with True expo show ?thesis by (auto simp: format_decimal_def Let_def)
    next
      case False
      have tn: "take 1 ds \<noteq> []" using ds by simp
      have len: "int (length (drop 1 ds)) = ?k - 1" using ds by (cases ds) auto
      have "parse_unsigned ((take 1 ds @ CHR ''.'' # drop 1 ds) @ CHR ''e'' # ?es)
        = Some (of_int (value_of_digits (take 1 ds @ drop 1 ds)) / 10 ^ length (drop 1 ds) * 10 powi (n - 1))"
        using ds tn pe by (intro parse_unsigned_exp parse_mantissa_point)
          (auto simp: is_digits_simps is_exp_char_def dest!: in_set_takeD in_set_dropD dest: digits_no_exp [rotated])
      moreover have "w / 10 ^ length (drop 1 ds) * 10 powi (n - 1) = w * 10 powi (n - ?k)" for w :: rat
      proof -
        have "(1 :: rat) / 10 ^ length (drop 1 ds) * 10 powi (n - 1) = 10 powi (n - ?k)"
          unfolding powi_10_minus_nat [symmetric] len by (simp flip: power_int_add)
        then show ?thesis by (metis mult.assoc mult_1_right times_divide_eq_right)
      qed
      ultimately have "parse_unsigned (take 1 ds @ CHR ''.'' # drop 1 ds @ CHR ''e'' # ?es)
        = Some (?v * 10 powi (n - ?k))" by simp
      with False expo show ?thesis by (auto simp: format_decimal_def Let_def)
    qed
  qed
qed

text \<open>What a formatted decimal starts and ends with: nothing the sign, trim or radix tests of
  \<open>string_to_number\<close> react to.\<close>

lemma format_decimal_hd:
  assumes "is_digits ds" "ds \<noteq> []"
  shows "format_decimal ds n \<noteq> []" and "is_digit_char (hd (format_decimal ds n))"
    and "is_digit_char (last (format_decimal ds n))"
    and "1 < length (format_decimal ds n) \<Longrightarrow>
      (let c = format_decimal ds n ! 1 in is_digit_char c \<or> c = CHR ''.'' \<or> c = CHR ''e'')"
proof -
  obtain d ds' where d: "ds = d # ds'" using assms by (cases ds) auto
  have dig: "c \<in> set ds \<Longrightarrow> is_digit_char c" for c
    using assms by (simp add: is_digits_def list_all_iff)
  have zero: "is_digit_char (CHR ''0'')" by (simp add: is_digit_char_def)
  have ldig: "is_digit_char (last ds)" using dig assms by simp
  have edig: "0 \<le> m \<Longrightarrow> is_digit_char (last (digits_of m))" for m
    using digits_of_digits [of m] by simp
  show "format_decimal ds n \<noteq> []"
    using assms by (auto simp: format_decimal_def Let_def)
  show "is_digit_char (hd (format_decimal ds n))"
    using dig zero by (auto simp: format_decimal_def Let_def d hd_append take_Cons' zero_less_iff_neq_zero)
  show "is_digit_char (last (format_decimal ds n))"
    using ldig edig zero assms
    by (auto simp: format_decimal_def Let_def last_append last_replicate last_drop split: if_splits)
  show "1 < length (format_decimal ds n) \<Longrightarrow>
      (let c = format_decimal ds n ! 1 in is_digit_char c \<or> c = CHR ''.'' \<or> c = CHR ''e'')"
    using dig zero assms
    by (auto simp: format_decimal_def Let_def d nth_append nth_Cons' take_Cons' in_set_conv_nth split: if_splits)
qed

lemma js_trim_id:
  assumes "s \<noteq> []" "\<not> is_js_space (hd s)" "\<not> is_js_space (last s)"
  shows "js_trim s = s"
proof -
  have "dropWhile is_js_space s = s"
    using assms by (cases s) auto
  moreover have "dropWhile is_js_space (rev s) = rev s"
    using assms by (cases "rev s") (auto simp: last_rev hd_rev [symmetric])
  ultimately show ?thesis by (simp add: js_trim_def)
qed

lemma shortest_from_rounds: "shortest_from x e ks = Some (c, p) \<Longrightarrow> round64 (of_int c * 10 powi p) = x"
  by (induction x e ks rule: shortest_from.induct) (auto simp: Let_def split: if_splits)

lemma strip_zeros_value:
  "strip_zeros c p = (c', p') \<Longrightarrow> (of_int c' :: rat) * 10 powi p' = of_int c * 10 powi p"
proof (induction c p rule: strip_zeros.induct)
  case (1 c p)
  show ?case
  proof (cases "0 < c \<and> c mod 10 = 0")
    case True
    with "1.prems" have "strip_zeros (c div 10) (p + 1) = (c', p')"
      by (simp add: strip_zeros.simps [of c p])
    with 1 True have "(of_int c' :: rat) * 10 powi p' = of_int (c div 10) * 10 powi (p + 1)" by simp
    also have "\<dots> = of_int (c div 10 * 10) * 10 powi p"
      by (simp add: power_int_add)
    also have "c div 10 * 10 = c" using True by auto
    finally show ?thesis .
  next
    case False
    with "1.prems" show ?thesis by (simp add: strip_zeros.simps [of c p])
  qed
qed

lemma strip_zeros_nonneg: "0 \<le> c \<Longrightarrow> strip_zeros c p = (c', p') \<Longrightarrow> 0 \<le> c'"
proof (induction c p rule: strip_zeros.induct)
  case (1 c p)
  then show ?case
    by (cases "0 < c \<and> c mod 10 = 0") (auto simp: strip_zeros.simps [of c p])
qed

lemma shortest_from_nonneg:
  "0 < x \<Longrightarrow> shortest_from x e ks = Some (c, p) \<Longrightarrow> 0 \<le> c"
proof (induction x e ks rule: shortest_from.induct)
  case (2 x e k ks)
  have "0 \<le> \<lfloor>x / 10 powi (e + 1 - int k)\<rfloor>" "0 \<le> \<lfloor>x / 10 powi (e + 1 - int k) + 1 / 2\<rfloor>"
    using "2.prems"(1) by (auto simp: zero_le_floor intro!: add_nonneg_nonneg)
  with 2 show ?case by (auto simp: Let_def split: if_splits)
qed simp

lemma string_to_number_formatted:
  assumes "is_digits ds" "ds \<noteq> []"
  shows "string_to_number (format_decimal ds n)
      = of_rat_js (of_int (value_of_digits ds) * 10 powi (n - int (length ds)))"
    and "string_to_number (''-'' @ format_decimal ds n)
      = of_rat_js (- (of_int (value_of_digits ds) * 10 powi (n - int (length ds))))"
proof -
  let ?s = "format_decimal ds n"
  note hd = format_decimal_hd [OF assms, of n]
  obtain c cs where s: "?s = c # cs" using hd(1) by (cases ?s) auto
  have c: "is_digit_char c" using hd(2) s by simp
  have t1: "js_trim ?s = ?s"
    using hd digit_not_special(3) by (intro js_trim_id) auto
  have t2: "js_trim (''-'' @ ?s) = ''-'' @ ?s"
    using hd digit_not_special(3) by (intro js_trim_id) (auto simp: is_js_space_def)
  have nr: "\<not> starts_with ?s [d, x]" if "x \<in> {CHR ''x'', CHR ''X'', CHR ''o'', CHR ''O'', CHR ''b'', CHR ''B''}" for d x
    using that hd(4) unfolding s
    by (cases cs) (auto simp: starts_with_def Let_def is_digit_char_def)
  have sign: "take_sign ?s = (False, ?s)" "take_sign (''-'' @ ?s) = (True, ?s)"
    using c digit_not_special by (auto simp: take_sign_def s)
  have inf: "?s \<noteq> ''Infinity''" using c digit_not_special(6) by (auto simp: s)
  note pd = parse_format_decimal [OF assms, of n]
  show "string_to_number ?s = of_rat_js (of_int (value_of_digits ds) * 10 powi (n - int (length ds)))"
    using hd(1) t1 nr sign inf pd by (simp add: string_to_number_def Let_def)
  show "string_to_number (''-'' @ ?s)
      = of_rat_js (- (of_int (value_of_digits ds) * 10 powi (n - int (length ds))))"
    using t2 sign inf pd by (simp add: string_to_number_def Let_def starts_with_def)
qed

lemma positive_roundtrip:
  assumes "0 < x" and "is_double x" and "shortest_decimal x \<noteq> None"
  shows "string_to_number (positive_to_string x) = Fin x"
    and "string_to_number (''-'' @ positive_to_string x) = Fin (- x)"
proof -
  obtain c p where cp: "shortest_decimal x = Some (c, p)" using assms(3) by auto
  obtain c' p' where st: "strip_zeros c p = (c', p')" by fastforce
  let ?ds = "digits_of c'"
  have c0: "0 \<le> c'"
    using shortest_from_nonneg [OF assms(1)] cp strip_zeros_nonneg [OF _ st]
    by (simp add: shortest_decimal_def)
  have ds: "is_digits ?ds" "?ds \<noteq> []" using c0 by (auto simp: is_digits_digits_of)
  have val: "of_int (value_of_digits ?ds) * 10 powi (int (length ?ds) + p' - int (length ?ds))
    = (of_int c * 10 powi p :: rat)"
    using strip_zeros_value [OF st] c0 by (simp add: value_of_digits_of)
  have rnd: "round64 (of_int c * 10 powi p) = x"
    using cp shortest_from_rounds by (simp add: shortest_decimal_def)
  then have fin: "of_rat_js (of_int c * 10 powi p) = Fin x"
    "of_rat_js (- (of_int c * 10 powi p)) = Fin (- x)"
    using assms(2) by (auto simp: of_rat_js_def Let_def is_double_def round64_minus abs_less_iff)
  show "string_to_number (positive_to_string x) = Fin x"
    and "string_to_number (''-'' @ positive_to_string x) = Fin (- x)"
    using string_to_number_formatted [OF ds, of "int (length ?ds) + p'"] val fin
    by (simp_all add: positive_to_string_def cp st Let_def)
qed

lemma number_string_roundtrip:
  assumes "is_double x" and "x = 0 \<or> shortest_decimal \<bar>x\<bar> \<noteq> None"
  shows "string_to_number (num_to_string (Fin x)) = Fin x"
proof -
  have "is_double \<bar>x\<bar>" using assms(1) by (auto simp: is_double_def abs_if round64_minus)
  moreover have "string_to_number ''0'' = Fin 0"
    by (simp add: string_to_number_def js_trim_def is_js_space_def starts_with_def take_sign_def
        parse_unsigned_def parse_mantissa_def is_exp_char_def is_digits_def is_digit_char_def
        value_of_digits_def digit_val_def of_rat_js_double [OF is_double_of_int [of 0], simplified])
  ultimately show ?thesis
    using assms(2) positive_roundtrip [of "\<bar>x\<bar>"] by (auto simp: abs_if split: if_splits)
qed


subsection \<open>Seventeen digits are enough\<close>

lemma digits_of_length:
  "0 < n \<Longrightarrow> 10 ^ (length (digits_of n) - 1) \<le> n \<and> n < 10 ^ length (digits_of n)"
proof (induction n rule: digits_of.induct)
  case (1 n)
  show ?case
  proof (cases "n < 10")
    case True
    then have "digits_of n = [digit_char n]" by (subst digits_of.simps) simp
    then show ?thesis using 1(2) True by simp
  next
    case False
    have len: "length (digits_of n) = Suc (length (digits_of (n div 10)))"
      using False by (subst digits_of.simps) simp
    have ih: "10 ^ (length (digits_of (n div 10)) - 1) \<le> n div 10" "n div 10 < 10 ^ length (digits_of (n div 10))"
      using 1(1) False by auto
    obtain k where k: "length (digits_of (n div 10)) = Suc k" by (cases "digits_of (n div 10)") auto
    have "10 * 10 ^ k \<le> n" using ih(1) by (simp add: k)
    moreover have "n < 10 * (10 * 10 ^ k)" using ih(2) by (simp add: k)
    ultimately show ?thesis by (simp add: len k)
  qed
qed

lemma dexp_lower:
  assumes "0 < x"
  shows "10 powi dexp x \<le> x"
proof -
  obtain n d where q: "quotient_of x = (n, d)" by (cases "quotient_of x")
  have d: "0 < d" using quotient_of_denom_pos [OF q] .
  have x: "x = of_int n / of_int d" using quotient_of_div [OF q] .
  have n: "0 < n" using assms d by (simp add: x zero_less_divide_iff)
  let ?a = "length (digits_of n)" and ?b = "length (digits_of d)"
  have "1 \<le> ?a" by (cases "digits_of n") auto
  then have pa: "(10 :: rat) powi (int ?a - 1) = 10 ^ (?a - 1)" by (simp add: power_int_def nat_diff_distrib')
  have "(10 :: rat) powi (int ?a - int ?b - 1) = 10 powi (int ?a - 1) / 10 ^ ?b"
    using power_int_diff [of "10 :: rat" "int ?a - 1" "int ?b"] by (simp add: algebra_simps)
  also have "\<dots> \<le> of_int n / of_int d"
  proof (rule frac_le)
    show "10 powi (int ?a - 1) \<le> (of_int n :: rat)"
      unfolding pa using digits_of_length [OF n] by (metis of_int_le_iff of_int_numeral of_int_power)
    have "d \<le> 10 ^ ?b" using digits_of_length [OF d] by simp
    then show "(of_int d :: rat) \<le> 10 ^ ?b" by (metis of_int_le_iff of_int_numeral of_int_power)
  qed (use d n in auto)
  finally have "10 powi (int ?a - int ?b - 1) \<le> x" by (simp add: x)
  then show ?thesis by (simp add: dexp_def q Let_def)
qed

lemma round_half_even_near: "\<bar>q - of_int m\<bar> < 1 / 2 \<Longrightarrow> round_half_even q = m"
proof -
  assume a: "\<bar>q - of_int m\<bar> < 1 / 2"
  have "\<bar>of_int (round_half_even q) - q\<bar> \<le> 1 / 2" by (rule round_half_even_error)
  with a have "\<bar>of_int (round_half_even q) - (of_int m :: rat)\<bar> < 1" by linarith
  then have "\<bar>of_int (round_half_even q - m) :: rat\<bar> < of_int 1" by simp
  then have "\<bar>round_half_even q - m\<bar> < 1" by (simp only: of_int_abs [symmetric] of_int_less_iff)
  then show ?thesis by simp
qed

lemma round64_nearI:
  assumes "y \<noteq> 0" "ulp_exp y = e" "\<bar>y - of_int m * 2 powi e\<bar> < 2 powi e / 2"
  shows "round64 y = of_int m * 2 powi e"
proof -
  have "y / 2 powi e - of_int m = (y - of_int m * 2 powi e) / 2 powi e" by (simp add: diff_divide_distrib)
  then have "\<bar>y / 2 powi e - of_int m\<bar> = \<bar>y - of_int m * 2 powi e\<bar> / 2 powi e" by (simp only: abs_divide) simp
  also have "\<dots> < 1 / 2" using assms(3) by (simp add: pos_divide_less_eq)
  finally show ?thesis using assms by (simp add: round64_def round_half_even_near)
qed

text \<open>Whatever is nearer to a normal double than a quarter of its spacing rounds to it.\<close>

lemma round64_near:
  assumes "round64 x = x" "2 powi (- 1022) \<le> x" "\<bar>y - x\<bar> < x / 2 ^ 54"
  shows "round64 y = x"
proof -
  let ?k = "rexp x" let ?u = "2 powi (?k - 52) :: rat"
  have x0: "0 < x" using assms(2) zero_less_power_int [of "2 :: rat" "- 1022"] by linarith
  have k: "- 1022 \<le> ?k" using assms(2) x0 rexp_ge [of "- 1022" x] by simp
  have lo: "2 powi ?k \<le> x" and hi: "x < 2 powi (?k + 1)" using rexp_bounds [of x] x0 by auto
  have ulp: "ulp_exp x = ?k - 52" using k by (simp add: ulp_exp_def)
  define m where "m = round_half_even (x / ?u)"
  have xm: "x = of_int m * ?u" using assms(1) x0 ulp by (simp add: round64_def m_def)
  have pk: "2 powi ?k = 2 ^ 52 * ?u" "2 powi (?k + 1) = 2 ^ 53 * ?u"
    by (simp_all add: power_int_diff power_int_add)
  have u0: "0 < ?u" by simp
  have "of_int m * ?u < 2 ^ 53 * ?u" "2 ^ 52 * ?u \<le> of_int m * ?u" using lo hi xm pk by auto
  then have "of_int m < (of_int (2 ^ 53) :: rat)" "of_int (2 ^ 52) \<le> (of_int m :: rat)" using u0 by auto
  then have m: "m \<le> 2 ^ 53 - 1" "2 ^ 52 \<le> m" by (simp_all only: of_int_less_iff of_int_le_iff)
  have "x / 2 ^ 54 < 2 ^ 53 * ?u / 2 ^ 54" using hi pk by (simp add: divide_strict_right_mono)
  then have near: "\<bar>y - x\<bar> < ?u / 2" using assms(3) by simp
  have "of_int m * ?u \<le> of_int (2 ^ 53 - 1) * ?u" 
    by (rule mult_right_mono) (use m(1) u0 in \<open>simp_all only: of_int_le_iff order_less_imp_le\<close>)
  then have "x \<le> 9007199254740991 * ?u" using xm by simp
  then have "x + ?u / 2 < 9007199254740992 * ?u" using u0 by linarith
  then have "x + ?u / 2 < 2 ^ 53 * ?u" by simp
  moreover have "y - x < ?u / 2" using near by (simp only: abs_less_iff)
  ultimately have yhi: "y < 2 powi (?k + 1)" unfolding pk(2) by linarith
  have y0: "0 < y"
  proof -
    have "x / 2 ^ 54 < x" using x0 by simp
    then have "- (y - x) < x" using assms(3) abs_ge_minus_self [of "y - x"] by linarith
    then show ?thesis by simp
  qed
  show ?thesis
  proof (cases "2 powi ?k \<le> y")
    case True
    then have "rexp y = ?k" using rexp_ge [of ?k y] rexp_less [of y "?k + 1"] y0 yhi by simp
    then have "ulp_exp y = ?k - 52" using k by (simp add: ulp_exp_def)
    then show ?thesis using round64_nearI [of y "?k - 52" m] y0 near xm by simp
  next
    case False
    moreover have "x - y < ?u / 2" using near abs_ge_minus_self [of "y - x"] by linarith
    ultimately have "of_int m * ?u < 2 ^ 52 * ?u + ?u / 2" using pk(1) xm by linarith
    then have "of_int m * ?u < (2 ^ 52 + 1) * ?u" using u0 by (simp add: distrib_right)
    then have "of_int m < (of_int (2 ^ 52 + 1) :: rat)" using u0 by simp
    then have m52: "m = 2 ^ 52" using m(2) by (simp only: of_int_less_iff)
    then have x: "x = 2 powi ?k" using xm pk by simp
    then have near4: "\<bar>y - x\<bar> < ?u / 4" using assms(3) pk by simp
    have half: "2 powi (?k - 53) = ?u / 2" by (simp add: power_int_diff)
    have "2 powi (?k - 1) = 2251799813685248 * ?u" by (simp add: power_int_diff)
    moreover have "x = 4503599627370496 * ?u" using x pk(1) by simp
    moreover have "x - y < ?u / 4" using near4 abs_ge_minus_self [of "y - x"] by linarith
    ultimately have "2 powi (?k - 1) \<le> y" using u0 by linarith
    then have ry: "rexp y = ?k - 1" using rexp_ge [of "?k - 1" y] rexp_less [of y ?k] y0 False by simp
    show ?thesis
    proof (cases "?k = - 1022")
      case True
      then have "ulp_exp y = ?k - 52" using ry by (simp add: ulp_exp_def)
      then show ?thesis using round64_nearI [of y "?k - 52" m] y0 near xm by simp
    next
      case False
      then have "ulp_exp y = ?k - 53" using ry k by (simp add: ulp_exp_def)
      moreover have "x = of_int (2 ^ 53) * 2 powi (?k - 53)" using x pk by (simp add: half)
      ultimately show ?thesis using round64_nearI [of y "?k - 53" "2 ^ 53"] y0 near4 by (simp add: half)
    qed
  qed
qed

lemma shortest_from_None: "shortest_from x e ks = None \<Longrightarrow> k \<in> set ks \<Longrightarrow>
    round64 (of_int \<lfloor>x / 10 powi (e + 1 - int k) + 1 / 2\<rfloor> * 10 powi (e + 1 - int k)) \<noteq> x"
  by (induction ks) (auto simp: Let_def split: if_splits)

lemma nearest_multiple:
  assumes "0 < (t :: rat)"
  shows "\<bar>of_int \<lfloor>x / t + 1 / 2\<rfloor> * t - x\<bar> \<le> t / 2"
proof -
  let ?c = "of_int \<lfloor>x / t + 1 / 2\<rfloor> :: rat"
  have "?c \<le> x / t + 1 / 2" "x / t + 1 / 2 < ?c + 1" by linarith+
  then have "\<bar>?c - x / t\<bar> \<le> 1 / 2" by linarith
  moreover have "(?c - x / t) * t = ?c * t - x" using assms by (simp add: left_diff_distrib)
  then have "\<bar>?c * t - x\<bar> = \<bar>?c - x / t\<bar> * t" using assms by (metis abs_mult abs_of_pos)
  moreover have "\<bar>?c - x / t\<bar> * t \<le> 1 / 2 * t" if "\<bar>?c - x / t\<bar> \<le> 1 / 2"
    using that assms by (intro mult_right_mono) auto
  ultimately show ?thesis by simp
qed

lemma shortest_decimal_exists:
  assumes "round64 x = x" "2 powi (- 1022) \<le> x"
  shows "shortest_decimal x \<noteq> None"
proof
  assume none: "shortest_decimal x = None"
  have x0: "0 < x" using assms(2) zero_less_power_int [of "2 :: rat" "- 1022"] by linarith
  define t where "t = (10 powi (dexp x - 16) :: rat)"
  have t0: "0 < t" by (simp add: t_def)
  have "t = 10 powi dexp x / 10 ^ 16" by (simp add: t_def power_int_diff)
  then have "t \<le> x / 10 ^ 16" using dexp_lower [OF x0] by (simp add: divide_right_mono)
  then have "t / 2 < x / 2 ^ 54" using x0 by simp
  then have "\<bar>of_int \<lfloor>x / t + 1 / 2\<rfloor> * t - x\<bar> < x / 2 ^ 54" using nearest_multiple [OF t0, of x] by (rule le_less_trans [rotated])
  then have "round64 (of_int \<lfloor>x / t + 1 / 2\<rfloor> * t) = x" by (rule round64_near [OF assms])
  moreover have "round64 (of_int \<lfloor>x / t + 1 / 2\<rfloor> * t) \<noteq> x"
  proof -
    have m: "17 \<in> set [1..<18]" and e: "dexp x + 1 - int 17 = dexp x - 16" by simp_all
    show ?thesis using shortest_from_None [OF none [unfolded shortest_decimal_def] m] unfolding e t_def .
  qed
  ultimately show False by simp
qed

text \<open>A double that is zero or not below the normal range survives the trip.\<close>

definition normal_double :: "rat \<Rightarrow> bool" where
  "normal_double x \<longleftrightarrow> is_double x \<and> (x = 0 \<or> 2 powi (- 1022) \<le> \<bar>x\<bar>)"

lemma normal_string_roundtrip:
  assumes "normal_double x"
  shows "string_to_number (num_to_string (Fin x)) = Fin x"
proof (rule number_string_roundtrip)
  show d: "is_double x" using assms by (simp add: normal_double_def)
  have "round64 \<bar>x\<bar> = \<bar>x\<bar>" using d by (auto simp: is_double_def abs_if round64_minus)
  then show "x = 0 \<or> shortest_decimal \<bar>x\<bar> \<noteq> None"
    using assms shortest_decimal_exists [of "\<bar>x\<bar>"] by (auto simp: normal_double_def)
qed

lemma normal_doubleI: "round64 x = x \<Longrightarrow> \<bar>x\<bar> < 2 ^ 60 \<Longrightarrow> 1 / 2 ^ 60 \<le> \<bar>x\<bar> \<Longrightarrow> normal_double x"
proof -
  assume a: "round64 x = x" "\<bar>x\<bar> < 2 ^ 60" "1 / 2 ^ 60 \<le> \<bar>x\<bar>"
  have "(2 :: rat) powi (- 1022) \<le> 2 powi (- 60)" by (intro power_int_increasing) auto
  also have "\<dots> = 1 / 2 ^ 60" using power_int_minus_divide [of "2 :: rat" 60] by simp
  finally have "2 powi (- 1022) \<le> \<bar>x\<bar>" using a(3) by (rule order_trans)
  moreover have "is_double x" using a(1,2) by (rule is_doubleI)
  ultimately show ?thesis unfolding normal_double_def by blast
qed

end
