(* ===== verification/Browser.thy ===== *)
theory Browser
  imports JS_Prelude
begin

text \<open>
  The browser objects the sockets are built on: the \<open>readyState\<close> of every WebSocket created so
  far, as a list indexed by creation order, and the pending timers of \<open>setTimeout\<close>, as a map from
  timer id to callback. A socket id outside the list reads as closed.
\<close>

datatype ws_status = Connecting | Connected | Disconnected | Errored

datatype ready_state = CONNECTING | OPEN | CLOSING | CLOSED

definition is_live :: "ready_state \<Rightarrow> bool" where
  "is_live r \<longleftrightarrow> r = CONNECTING \<or> r = OPEN"

definition sock :: "ready_state list \<Rightarrow> nat \<Rightarrow> ready_state" where
  "sock rs s = (if s < length rs then rs ! s else CLOSED)"

text \<open>\<open>ws.close()\<close>: a socket that is connecting or open starts closing.\<close>

definition sock_close :: "nat \<Rightarrow> ready_state list \<Rightarrow> ready_state list" where
  "sock_close s rs = (if is_live (sock rs s) then rs[s := CLOSING] else rs)"

text \<open>Timer ids are handed out in increasing order.\<close>

definition fresh_timer :: "(nat \<times> 'a) list \<Rightarrow> nat \<Rightarrow> bool" where
  "fresh_timer ts n \<longleftrightarrow> (\<forall>i. map_has ts i \<longrightarrow> i < n)"

definition clear_timer :: "nat option \<Rightarrow> (nat \<times> 'a) list \<Rightarrow> (nat \<times> 'a) list" where
  "clear_timer i ts = (case i of None \<Rightarrow> ts | Some k \<Rightarrow> map_delete k ts)"

subsection \<open>Lemmas\<close>

named_theorems browser_simps \<open>effect of the browser operations\<close>

lemma is_live_simps [simp]: "is_live CONNECTING" "is_live OPEN" "\<not> is_live CLOSING" "\<not> is_live CLOSED"
  by (simp_all add: is_live_def)

lemma sock_in_range: "sock rs s \<noteq> CLOSED \<Longrightarrow> s < length rs"
  by (simp add: sock_def split: if_splits)

lemma sock_live_range: "is_live (sock rs s) \<Longrightarrow> s < length rs"
  by (auto simp: sock_def split: if_splits)

lemma sock_append [browser_simps]:
  "sock (rs @ [r]) k = (if k = length rs then r else sock rs k)"
  by (simp add: sock_def nth_append)

lemma sock_update [browser_simps]:
  "sock (rs[s := r]) k = (if k = s \<and> s < length rs then r else sock rs k)"
  by (auto simp: sock_def)

lemma sock_sock_close [browser_simps]:
  "sock (sock_close s rs) k = (if k = s \<and> is_live (sock rs s) then CLOSING else sock rs k)"
  using sock_live_range [of rs s] by (auto simp: sock_close_def sock_update)

lemma length_sock_close [simp]: "length (sock_close s rs) = length rs"
  by (simp add: sock_close_def)

lemma live_sock_close [browser_simps]:
  "is_live (sock (sock_close s rs) k) \<longleftrightarrow> k \<noteq> s \<and> is_live (sock rs k)"
  by (auto simp: sock_sock_close)

lemma closed_sock_close [browser_simps]: "sock (sock_close s rs) k = CLOSED \<longleftrightarrow> sock rs k = CLOSED"
  by (auto simp: sock_sock_close)

lemma map_of_clear [browser_simps]:
  "map_of (clear_timer i ts) k = (if i = Some k then None else map_of ts k)"
  by (auto simp: clear_timer_def js_simps split: option.splits)

lemma fresh_timer_clear [simp]: "fresh_timer ts n \<Longrightarrow> fresh_timer (clear_timer i ts) n"
  by (auto simp: fresh_timer_def map_has_def browser_simps split: if_splits)

lemma fresh_timer_delete [simp]: "fresh_timer ts n \<Longrightarrow> fresh_timer (map_delete k ts) n"
  by (auto simp: fresh_timer_def map_has_delete)

lemma fresh_timer_none: "fresh_timer ts n \<Longrightarrow> map_of ts n = None"
  unfolding fresh_timer_def map_has_def by blast

lemma map_of_snoc:
  "fresh_timer ts n \<Longrightarrow> map_of (ts @ [(n, x)]) k = (if k = n then Some x else map_of ts k)"
  using fresh_timer_none [of ts n] by (auto simp: map_add_def split: option.splits)

lemma fresh_timer_snoc [simp]: "fresh_timer ts n \<Longrightarrow> fresh_timer (ts @ [(n, x)]) (Suc n)"
proof -
  assume f: "fresh_timer ts n"
  have "i < Suc n" if "map_has (ts @ [(n, x)]) i" for i
    using that f map_of_snoc [OF f, of x i]
    by (cases "i = n") (auto simp: map_has_def fresh_timer_def less_Suc_eq)
  then show ?thesis by (simp add: fresh_timer_def)
qed

lemma fresh_timer_Nil [simp]: "fresh_timer [] n"
  by (simp add: fresh_timer_def)

end
