(* ===== verification/Market_Socket.thy ===== *)
theory Market_Socket
  imports Ws_Backoff JS_Value Browser
begin

text \<open>
  \<^verbatim>\<open>apps/web/hooks/use-market-socket.tsx\<close>: the one WebSocket a browser tab shares between every
  market page and card grid.

  The record \<open>shared_connection\<close> is the source's \<open>SharedConnection\<close>; \<open>world\<close> extends it with
  what the code keeps in the browser and in closures: the \<open>readyState\<close> of every socket ever
  created, the pending timers, the queued subscribe jobs of \<open>withMarketLock\<close>, the closure
  variable \<open>justReconnected\<close>, whether the module variable \<open>_conn\<close> still refers to this object,
  and the outputs so far (frames sent, sockets created and closed, frames handed to handlers).

  Every function of the source is a definition on \<open>world\<close>, and \<open>market_step\<close> maps each thing
  that can happen (a call from a component, a socket event, a timer, a queued job, a browser
  event) to the function that handles it. A job of \<open>withMarketLock\<close> may run at any later point,
  which includes every order the promise chains allow. Handlers are opaque: a call is recorded
  as an output, and a handler that throws is the same as one that returns, since the source
  catches it.
\<close>

subsection \<open>State\<close>

definition WS_GAP :: string where "WS_GAP = ''__ws_gap__''"
definition WS_RESYNC :: string where "WS_RESYNC = ''__ws_resync__''"
definition WS_STATUS :: string where "WS_STATUS = ''__ws_status__''"

definition RESYNC_AFTER_HIDDEN_MS :: int where "RESYNC_AFTER_HIDDEN_MS = 60000"

definition GRID_ANCHOR_MARKET :: string where "GRID_ANCHOR_MARKET = ''__grid__''"

record market_sub =
  seq :: nat
  handlers :: "nat list"
  wsSubscribed :: bool

text \<open>A parsed server message. \<open>mseq\<close> is the \<open>seq\<close> field when it is a number.\<close>

record ws_msg =
  market_id :: "string option"
  mtype :: "string option"
  mseq :: "int option"
  ts :: "int option"
  serverSeq :: "(string \<times> int) list option"
  prices :: "(string \<times> jsval) list option"
  body :: jsval

datatype client_frame =
    Subscribe string
  | Unsubscribe string
  | Grid "string list"
  | Pong "int option"

datatype delivered =
    Data ws_msg
  | Resync string string
  | Status ws_status
  | Batch "(string \<times> jsval) list"

datatype ws_out =
    NewSocket nat string
  | CloseSocket nat
  | Send nat client_frame
  | Deliver nat delivered
  | FlashTitle

datatype timer = ReconnectTimer string | CloseTimer

record shared_connection =
  ws :: "nat option"
  status :: ws_status
  subs :: "(string \<times> market_sub) list"
  retries :: nat
  reconnectTimer :: "nat option"
  serverSubs :: "string list"
  statusHandlers :: "nat list"
  gridHandlers :: "nat list"
  lastConnectedMarket :: "string option"
  intentionalCloseSocket :: "nat option"
  closeTimer :: "nat option"
  lastSeq :: "(string \<times> int) list"
  everConnected :: bool
  hiddenSince :: "int option"
  declaredGrid :: "string list"

record world = shared_connection +
  ready :: "ready_state list"
  timers :: "(nat \<times> (timer \<times> jsnum)) list"
  nextTimer :: nat
  jobs :: "string list"
  justReconnected :: bool
  moduleConn :: bool
  outs :: "ws_out list"

definition getConnection :: world where
  "getConnection =
     \<lparr> ws = None, status = Disconnected, subs = [], retries = 0, reconnectTimer = None,
       serverSubs = [], statusHandlers = [], gridHandlers = [], lastConnectedMarket = None,
       intentionalCloseSocket = None, closeTimer = None, lastSeq = [], everConnected = False,
       hiddenSince = None, declaredGrid = [],
       ready = [], timers = [], nextTimer = 0, jobs = [], justReconnected = False,
       moduleConn = True, outs = [] \<rparr>"

subsection \<open>The browser\<close>

definition emit :: "ws_out list \<Rightarrow> world \<Rightarrow> world" where
  "emit os w = w\<lparr>outs := outs w @ os\<rparr>"

definition ready_of :: "world \<Rightarrow> nat \<Rightarrow> ready_state" where
  "ready_of w s = (if s < length (ready w) then ready w ! s else CLOSED)"

definition set_ready :: "nat \<Rightarrow> ready_state \<Rightarrow> world \<Rightarrow> world" where
  "set_ready s r w = w\<lparr>ready := (ready w)[s := r]\<rparr>"

text \<open>\<open>new WebSocket(url)\<close>: a fresh socket, still connecting.\<close>

definition new_socket :: "string \<Rightarrow> world \<Rightarrow> world" where
  "new_socket m w =
     emit [NewSocket (length (ready w)) m]
       (w\<lparr>ws := Some (length (ready w)), ready := ready w @ [CONNECTING]\<rparr>)"

text \<open>\<open>ws.close()\<close>: a socket that is connecting or open starts closing.\<close>

definition close_socket :: "nat \<Rightarrow> world \<Rightarrow> world" where
  "close_socket s w =
     emit [CloseSocket s]
       (if ready_of w s = CONNECTING \<or> ready_of w s = OPEN then set_ready s CLOSING w else w)"

definition set_timeout :: "timer \<Rightarrow> jsnum \<Rightarrow> world \<Rightarrow> nat \<times> world" where
  "set_timeout t d w =
     (nextTimer w, w\<lparr>timers := timers w @ [(nextTimer w, (t, d))], nextTimer := Suc (nextTimer w)\<rparr>)"

definition clear_timeout :: "nat option \<Rightarrow> world \<Rightarrow> world" where
  "clear_timeout i w =
     (case i of None \<Rightarrow> w | Some k \<Rightarrow> w\<lparr>timers := map_delete k (timers w)\<rparr>)"

subsection \<open>Helpers\<close>

definition setStatus :: "ws_status \<Rightarrow> world \<Rightarrow> world" where
  "setStatus st w =
     emit (map (\<lambda>h. Deliver h (Status st)) (statusHandlers w)) (w\<lparr>status := st\<rparr>)"

definition deliverToMarket :: "string \<Rightarrow> delivered \<Rightarrow> world \<Rightarrow> world" where
  "deliverToMarket m d w =
     (case map_of (subs w) m of
        None \<Rightarrow> w
      | Some sub \<Rightarrow>
          emit (map (\<lambda>h. Deliver h d) (handlers sub))
            (w\<lparr>subs := map_set m (sub\<lparr>seq := Suc (seq sub)\<rparr>) (subs w)\<rparr>))"

definition emitResync :: "string \<Rightarrow> string \<Rightarrow> world \<Rightarrow> world" where
  "emitResync m reason w = deliverToMarket m (Resync m reason) w"

definition reconcile_one :: "string \<times> int \<Rightarrow> world \<Rightarrow> world" where
  "reconcile_one e w =
     (case map_of (lastSeq w) (fst e) of
        None \<Rightarrow> w
      | Some ours \<Rightarrow>
          if snd e > ours
          then emitResync (fst e) ''beacon'' (w\<lparr>lastSeq := map_set (fst e) (snd e) (lastSeq w)\<rparr>)
          else w)"

definition reconcileAgainstBeacon :: "(string \<times> int) list \<Rightarrow> world \<Rightarrow> world" where
  "reconcileAgainstBeacon serverSeqs w = fold reconcile_one serverSeqs w"

definition checkForGap :: "string \<Rightarrow> int \<Rightarrow> world \<Rightarrow> world" where
  "checkForGap m sq w =
     (case map_of (lastSeq w) m of
        None \<Rightarrow> w\<lparr>lastSeq := map_set m sq (lastSeq w)\<rparr>
      | Some prev \<Rightarrow>
          if sq \<le> prev then w
          else if sq > prev + 1
          then emitResync m ''gap'' (w\<lparr>lastSeq := map_set m sq (lastSeq w)\<rparr>)
          else w\<lparr>lastSeq := map_set m sq (lastSeq w)\<rparr>)"

definition sendWs :: "client_frame \<Rightarrow> world \<Rightarrow> world" where
  "sendWs f w =
     (case ws w of
        None \<Rightarrow> w
      | Some s \<Rightarrow> if ready_of w s = OPEN then emit [Send s f] w else w)"

text \<open>\<open>withMarketLock\<close> queues the body; \<open>wsSubscribe_body\<close> is what runs.\<close>

definition wsSubscribe :: "string \<Rightarrow> world \<Rightarrow> world" where
  "wsSubscribe m w = w\<lparr>jobs := jobs w @ [m]\<rparr>"

definition wsSubscribe_body :: "string \<Rightarrow> world \<Rightarrow> world" where
  "wsSubscribe_body m w =
     (case map_of (subs w) m of
        None \<Rightarrow> w
      | Some sub \<Rightarrow>
          if wsSubscribed sub then w
          else
            (let w1 = sendWs (Subscribe m) w
             in w1\<lparr>subs := map_set m (sub\<lparr>wsSubscribed := True\<rparr>) (subs w1),
                   serverSubs := set_add m (serverSubs w1)\<rparr>))"

definition wsUnsubscribe :: "string \<Rightarrow> world \<Rightarrow> world" where
  "wsUnsubscribe m w =
     (if m \<notin> set (serverSubs w) then w
      else
        (let w1 = sendWs (Unsubscribe m) w;
             w2 = w1\<lparr>serverSubs := set_remove m (serverSubs w1)\<rparr>
         in case map_of (subs w2) m of
              None \<Rightarrow> w2
            | Some sub \<Rightarrow> w2\<lparr>subs := map_set m (sub\<lparr>wsSubscribed := False\<rparr>) (subs w2)\<rparr>))"

subsection \<open>Connect and reconnect\<close>

definition connect :: "string \<Rightarrow> world \<Rightarrow> world" where
  "connect firstMarketId w =
     (if ws w \<noteq> None then w
      else
        (let w1 = (clear_timeout (reconnectTimer w) w)\<lparr>reconnectTimer := None\<rparr>;
             w2 = (clear_timeout (closeTimer w1) w1)\<lparr>closeTimer := None\<rparr>;
             w3 = new_socket firstMarketId (w2\<lparr>lastConnectedMarket := Some firstMarketId\<rparr>)
         in setStatus Connecting (w3\<lparr>intentionalCloseSocket := None\<rparr>)))"

text \<open>The last loop of \<open>onopen\<close>: markets registered but never put on the wire. \<open>sent\<close> is the
  set \<open>sentMarkets\<close>.\<close>

definition open_pending :: "nat \<Rightarrow> string list \<Rightarrow> string \<times> market_sub \<Rightarrow> world \<Rightarrow> world" where
  "open_pending s sent e w =
     (if \<not> wsSubscribed (snd e) \<and> fst e \<notin> set sent
      then emit [Send s (Subscribe (fst e))]
             (w\<lparr>subs := map_set (fst e) ((snd e)\<lparr>wsSubscribed := True\<rparr>) (subs w),
                serverSubs := set_add (fst e) (serverSubs w)\<rparr>)
      else w)"

definition onopen :: "nat \<Rightarrow> world \<Rightarrow> world" where
  "onopen s w =
     (let w1 = setStatus Connected (w\<lparr>retries := 0\<rparr>);
          w2 = emit (map (\<lambda>m. Send s (Subscribe m)) (serverSubs w1)) w1;
          sentMarkets = serverSubs w2;
          w3 = emit (map (\<lambda>m. Send s (Subscribe m)) (serverSubs w2)) w2;
          w4 = (if declaredGrid w3 \<noteq> [] then emit [Send s (Grid (declaredGrid w3))] w3 else w3);
          w5 = fold (open_pending s sentMarkets) (subs w4) w4;
          w6 = (if everConnected w5
                then fold (\<lambda>m. emitResync m ''reconnect'') (map_keys (subs w5)) w5 else w5)
      in w6\<lparr>everConnected := True\<rparr>)"

definition is_synthetic :: "string option \<Rightarrow> bool" where
  "is_synthetic t \<longleftrightarrow> t = Some WS_STATUS \<or> t = Some WS_RESYNC \<or> t = Some WS_GAP"

text \<open>\<open>onmessage\<close>; \<open>None\<close> is a frame that does not parse.\<close>

definition onmessage :: "nat \<Rightarrow> ws_msg option \<Rightarrow> world \<Rightarrow> world" where
  "onmessage s event w =
     (case event of
        None \<Rightarrow> w
      | Some d \<Rightarrow>
          if mtype d = Some ''ping'' then
            (let w1 = (case serverSeq d of None \<Rightarrow> w | Some ss \<Rightarrow> reconcileAgainstBeacon ss w)
             in emit [Send s (Pong (ts d))] w1)
          else if mtype d = Some ''market:prices_batch'' then
            (case prices d of
               None \<Rightarrow> w
             | Some ps \<Rightarrow> emit (map (\<lambda>h. Deliver h (Batch ps)) (gridHandlers w)) w)
          else
            (case market_id d of
               None \<Rightarrow> w
             | Some m \<Rightarrow>
                 if m = [] then w
                 else if is_synthetic (mtype d) then w
                 else if \<not> map_has (subs w) m then w
                 else
                   (let w1 = (case mseq d of None \<Rightarrow> w | Some sq \<Rightarrow> checkForGap m sq w)
                    in deliverToMarket m (Data d) w1)))"

definition reconnect_market :: "world \<Rightarrow> string" where
  "reconnect_market w =
     get_or (lastConnectedMarket w)
       (get_or (js_first (serverSubs w)) (get_or (js_first (map_keys (subs w))) ''default''))"

text \<open>\<open>onclose\<close>; \<open>r\<close> is the value of \<open>Math.random()\<close> inside \<open>reconnectDelayMs\<close>.\<close>

definition onclose :: "nat \<Rightarrow> rat \<Rightarrow> world \<Rightarrow> world" where
  "onclose s r w =
     (if ws w \<noteq> Some s then w
      else
        (let w1 = setStatus Disconnected (w\<lparr>ws := None\<rparr>)
         in if intentionalCloseSocket w1 = Some s
            then w1\<lparr>intentionalCloseSocket := None, everConnected := False\<rparr>
            else
              (let delay = reconnectDelayMs (retries w1) (Fin r);
                   w2 = w1\<lparr>retries := Suc (retries w1)\<rparr>;
                   (i, w3) = set_timeout (ReconnectTimer (reconnect_market w2)) delay w2
               in w3\<lparr>reconnectTimer := Some i\<rparr>)))"

definition onerror :: "nat \<Rightarrow> world \<Rightarrow> world" where
  "onerror s w = (if ws w \<noteq> Some s then w else close_socket s (setStatus Errored w))"

subsection \<open>The context: subscriptions\<close>

definition subscribe :: "string \<Rightarrow> nat \<Rightarrow> world \<Rightarrow> world" where
  "subscribe m h w =
     (let w1 = (if map_has (subs w) m then w
                else w\<lparr>subs := map_set m \<lparr>seq = 0, handlers = [], wsSubscribed = False\<rparr> (subs w)\<rparr>);
          sub = the (map_of (subs w1) m);
          w2 = w1\<lparr>subs := map_set m (sub\<lparr>handlers := set_add h (handlers sub)\<rparr>) (subs w1)\<rparr>
      in if ws w2 = None then connect m w2
         else wsSubscribe m (w2\<lparr>lastConnectedMarket := Some m\<rparr>))"

text \<open>The function \<open>subscribe\<close> returns.\<close>

definition unsubscribe :: "string \<Rightarrow> nat \<Rightarrow> world \<Rightarrow> world" where
  "unsubscribe m h w =
     (case map_of (subs w) m of
        None \<Rightarrow> w
      | Some sub \<Rightarrow>
          (let hs = set_remove h (handlers sub);
               w1 = w\<lparr>subs := map_set m (sub\<lparr>handlers := hs\<rparr>) (subs w)\<rparr>
           in if hs \<noteq> [] then w1
              else
                (let w2 = w1\<lparr>subs := map_delete m (subs w1), lastSeq := map_delete m (lastSeq w1)\<rparr>;
                     w3 = wsUnsubscribe m w2
                 in if subs w3 \<noteq> [] then w3
                    else
                      (let w4 = clear_timeout (closeTimer w3) w3;
                           (i, w5) = set_timeout CloseTimer (Fin 0) w4
                       in w5\<lparr>closeTimer := Some i\<rparr>))))"

text \<open>The callback of the deferred close.\<close>

definition fire_close :: "world \<Rightarrow> world" where
  "fire_close w =
     (let w1 = w\<lparr>closeTimer := None\<rparr>
      in if subs w1 \<noteq> [] then w1
         else
           (let w2 = clear_timeout (reconnectTimer w1) w1;
                s = ws w2;
                w3 = w2\<lparr>intentionalCloseSocket := s, ws := None\<rparr>;
                w4 = (case s of None \<Rightarrow> w3 | Some k \<Rightarrow> close_socket k w3)
            in (setStatus Disconnected w4)\<lparr>retries := 0\<rparr>))"

definition subscribeStatus :: "nat \<Rightarrow> world \<Rightarrow> world" where
  "subscribeStatus h w =
     emit [Deliver h (Status (status w))] (w\<lparr>statusHandlers := set_add h (statusHandlers w)\<rparr>)"

definition unsubscribeStatus :: "nat \<Rightarrow> world \<Rightarrow> world" where
  "unsubscribeStatus h w = w\<lparr>statusHandlers := set_remove h (statusHandlers w)\<rparr>"

definition subscribeGrid :: "nat \<Rightarrow> world \<Rightarrow> world" where
  "subscribeGrid h w = w\<lparr>gridHandlers := set_add h (gridHandlers w)\<rparr>"

definition unsubscribeGrid :: "nat \<Rightarrow> world \<Rightarrow> world" where
  "unsubscribeGrid h w = w\<lparr>gridHandlers := set_remove h (gridHandlers w)\<rparr>"

definition sendGrid :: "string list \<Rightarrow> world \<Rightarrow> world" where
  "sendGrid marketIds w =
     (let w1 = (if ws w = None then connect GRID_ANCHOR_MARKET w else w)
      in (sendWs (Grid marketIds) w1)\<lparr>declaredGrid := marketIds\<rparr>)"

subsection \<open>Recovery and teardown\<close>

definition socket_healthy :: "world \<Rightarrow> bool" where
  "socket_healthy w =
     (case ws w of None \<Rightarrow> False | Some s \<Rightarrow> ready_of w s = CONNECTING \<or> ready_of w s = OPEN)"

definition recover :: "world \<Rightarrow> world" where
  "recover w =
     (if subs w = [] then w
      else if socket_healthy w then w
      else
        (let w1 = w\<lparr>retries := 0\<rparr>;
             w2 = (case reconnectTimer w1 of
                     None \<Rightarrow> w1
                   | Some i \<Rightarrow> (clear_timeout (Some i) w1)\<lparr>reconnectTimer := None\<rparr>);
             market = or_else (lastConnectedMarket w2) (js_first (map_keys (subs w2)))
         in case market of
              None \<Rightarrow> w2
            | Some m \<Rightarrow> if m = [] then w2 else connect m (w2\<lparr>justReconnected := True\<rparr>)))"

definition onHidden :: "int \<Rightarrow> world \<Rightarrow> world" where
  "onHidden now w = w\<lparr>hiddenSince := Some now\<rparr>"

text \<open>\<open>onVisibility\<close> on a tab that became visible. \<open>c.hiddenSince ?\<close> is false for a missing
  value and for the time zero.\<close>

definition onVisible :: "int \<Rightarrow> world \<Rightarrow> world" where
  "onVisible now w =
     (let hiddenFor = (case hiddenSince w of None \<Rightarrow> 0 | Some t \<Rightarrow> if t = 0 then 0 else now - t);
          w1 = recover (w\<lparr>hiddenSince := None\<rparr>)
      in if RESYNC_AFTER_HIDDEN_MS \<le> hiddenFor
         then fold (\<lambda>m. emitResync m ''visible'') (map_keys (subs w1)) w1 else w1)"

definition handleReconnect :: "world \<Rightarrow> world" where
  "handleReconnect w =
     (if \<not> justReconnected w then w else emit [FlashTitle] (w\<lparr>justReconnected := False\<rparr>))"

definition onOnline :: "world \<Rightarrow> world" where
  "onOnline w = recover (handleReconnect w)"

datatype teardown_reason = Hmr | Unload

definition teardownSocket :: "teardown_reason \<Rightarrow> world \<Rightarrow> world" where
  "teardownSocket reason w =
     (if \<not> moduleConn w then w
      else
        (let w1 = clear_timeout (closeTimer w) w;
             w2 = clear_timeout (reconnectTimer w1) w1;
             s = ws w2;
             w3 = w2\<lparr>ws := None, serverSubs := [], subs := [], lastSeq := [],
                     lastConnectedMarket := None, everConnected := False, hiddenSince := None,
                     declaredGrid := [], retries := 0\<rparr>
         in case s of
              None \<Rightarrow> w3
            | Some k \<Rightarrow>
                (let w4 = close_socket k (w3\<lparr>intentionalCloseSocket := Some k\<rparr>)
                 in if reason = Hmr then w4\<lparr>moduleConn := False\<rparr> else w4)))"

subsection \<open>Everything that can happen\<close>

datatype event =
    CallSubscribe string nat
  | CallUnsubscribe string nat
  | CallSubscribeStatus nat
  | CallUnsubscribeStatus nat
  | CallSubscribeGrid nat
  | CallUnsubscribeGrid nat
  | CallSendGrid "string list"
  | SocketOpen nat
  | SocketMessage nat "ws_msg option"
  | SocketClosing nat
  | SocketClose nat rat
  | SocketError nat
  | TimerFires nat
  | JobRuns string
  | TabHidden int
  | TabVisible int
  | Online
  | Teardown teardown_reason

definition fire_timer :: "nat \<Rightarrow> world \<Rightarrow> world" where
  "fire_timer i w =
     (case map_of (timers w) i of
        None \<Rightarrow> w
      | Some (t, d) \<Rightarrow>
          (let w1 = w\<lparr>timers := map_delete i (timers w)\<rparr>
           in case t of ReconnectTimer m \<Rightarrow> connect m w1 | CloseTimer \<Rightarrow> fire_close w1))"

text \<open>
  The hook calls \<open>subscribe\<close> only with a non-empty id. A socket opens only while it is
  connecting, receives only while it is open, may start a closing handshake, and closes once; \<open>Math.random()\<close> lies between 0
  and 1.
\<close>

fun market_step :: "event \<Rightarrow> world \<Rightarrow> world" where
  "market_step (CallSubscribe m h) w = (if m = [] then w else subscribe m h w)"
| "market_step (CallUnsubscribe m h) w = unsubscribe m h w"
| "market_step (CallSubscribeStatus h) w = subscribeStatus h w"
| "market_step (CallUnsubscribeStatus h) w = unsubscribeStatus h w"
| "market_step (CallSubscribeGrid h) w = subscribeGrid h w"
| "market_step (CallUnsubscribeGrid h) w = unsubscribeGrid h w"
| "market_step (CallSendGrid ms) w = sendGrid ms w"
| "market_step (SocketOpen s) w =
     (if ready_of w s = CONNECTING then onopen s (set_ready s OPEN w) else w)"
| "market_step (SocketMessage s d) w = (if ready_of w s = OPEN then onmessage s d w else w)"
| "market_step (SocketClosing s) w =
     (if ready_of w s = CONNECTING \<or> ready_of w s = OPEN then set_ready s CLOSING w else w)"
| "market_step (SocketClose s r) w =
     (if ready_of w s \<noteq> CLOSED \<and> 0 \<le> r \<and> r < 1 then onclose s r (set_ready s CLOSED w) else w)"
| "market_step (SocketError s) w = (if ready_of w s \<noteq> CLOSED then onerror s w else w)"
| "market_step (TimerFires i) w = fire_timer i w"
| "market_step (JobRuns m) w =
     (if m \<in> set (jobs w) then wsSubscribe_body m (w\<lparr>jobs := remove1 m (jobs w)\<rparr>) else w)"
| "market_step (TabHidden t) w = onHidden t w"
| "market_step (TabVisible t) w = onVisible t w"
| "market_step Online w = onOnline w"
| "market_step (Teardown reason) w = teardownSocket reason w"

subsection \<open>What each helper leaves alone\<close>

named_theorems frames \<open>fields a helper does not change\<close>

lemmas ms_defs [step_defs] =
  emit_def set_ready_def new_socket_def close_socket_def set_timeout_def clear_timeout_def
  setStatus_def sendWs_def

lemma emit_frame [frames]:
  "ws (emit os w) = ws w" "subs (emit os w) = subs w" "serverSubs (emit os w) = serverSubs w"
  "ready (emit os w) = ready w" "timers (emit os w) = timers w" "jobs (emit os w) = jobs w"
  "nextTimer (emit os w) = nextTimer w" "reconnectTimer (emit os w) = reconnectTimer w"
  "closeTimer (emit os w) = closeTimer w" "lastSeq (emit os w) = lastSeq w"
  "intentionalCloseSocket (emit os w) = intentionalCloseSocket w"
  "lastConnectedMarket (emit os w) = lastConnectedMarket w"
  "everConnected (emit os w) = everConnected w" "retries (emit os w) = retries w"
  "declaredGrid (emit os w) = declaredGrid w" "gridHandlers (emit os w) = gridHandlers w"
  "statusHandlers (emit os w) = statusHandlers w" "status (emit os w) = status w"
  "outs (emit os w) = outs w @ os" "moduleConn (emit os w) = moduleConn w"
  by (simp_all add: emit_def)

lemma setStatus_frame [frames]:
  "ws (setStatus st w) = ws w" "subs (setStatus st w) = subs w"
  "serverSubs (setStatus st w) = serverSubs w" "ready (setStatus st w) = ready w"
  "timers (setStatus st w) = timers w" "jobs (setStatus st w) = jobs w"
  "nextTimer (setStatus st w) = nextTimer w" "reconnectTimer (setStatus st w) = reconnectTimer w"
  "closeTimer (setStatus st w) = closeTimer w" "lastSeq (setStatus st w) = lastSeq w"
  "intentionalCloseSocket (setStatus st w) = intentionalCloseSocket w"
  "lastConnectedMarket (setStatus st w) = lastConnectedMarket w"
  "everConnected (setStatus st w) = everConnected w" "retries (setStatus st w) = retries w"
  "declaredGrid (setStatus st w) = declaredGrid w" "gridHandlers (setStatus st w) = gridHandlers w"
  "statusHandlers (setStatus st w) = statusHandlers w" "status (setStatus st w) = st"
  "moduleConn (setStatus st w) = moduleConn w"
  "outs (setStatus st w) = outs w @ map (\<lambda>h. Deliver h (Status st)) (statusHandlers w)"
  by (simp_all add: setStatus_def emit_def)

lemma sendWs_frame [frames]:
  "ws (sendWs f w) = ws w" "subs (sendWs f w) = subs w" "serverSubs (sendWs f w) = serverSubs w"
  "ready (sendWs f w) = ready w" "timers (sendWs f w) = timers w" "jobs (sendWs f w) = jobs w"
  "nextTimer (sendWs f w) = nextTimer w" "reconnectTimer (sendWs f w) = reconnectTimer w"
  "closeTimer (sendWs f w) = closeTimer w" "lastSeq (sendWs f w) = lastSeq w"
  "intentionalCloseSocket (sendWs f w) = intentionalCloseSocket w"
  "lastConnectedMarket (sendWs f w) = lastConnectedMarket w"
  "everConnected (sendWs f w) = everConnected w" "retries (sendWs f w) = retries w"
  "declaredGrid (sendWs f w) = declaredGrid w" "gridHandlers (sendWs f w) = gridHandlers w"
  by (simp_all add: sendWs_def emit_def split: option.splits)

lemma clear_timeout_frame [frames]:
  "ws (clear_timeout i w) = ws w" "subs (clear_timeout i w) = subs w"
  "serverSubs (clear_timeout i w) = serverSubs w" "ready (clear_timeout i w) = ready w"
  "jobs (clear_timeout i w) = jobs w" "nextTimer (clear_timeout i w) = nextTimer w"
  "reconnectTimer (clear_timeout i w) = reconnectTimer w" "closeTimer (clear_timeout i w) = closeTimer w"
  "lastSeq (clear_timeout i w) = lastSeq w"
  "intentionalCloseSocket (clear_timeout i w) = intentionalCloseSocket w"
  "lastConnectedMarket (clear_timeout i w) = lastConnectedMarket w"
  "everConnected (clear_timeout i w) = everConnected w" "retries (clear_timeout i w) = retries w"
  "declaredGrid (clear_timeout i w) = declaredGrid w" "moduleConn (clear_timeout i w) = moduleConn w"
  "gridHandlers (clear_timeout i w) = gridHandlers w" "outs (clear_timeout i w) = outs w"
  "timers (clear_timeout i w) = (case i of None \<Rightarrow> timers w | Some k \<Rightarrow> map_delete k (timers w))"
  by (simp_all add: clear_timeout_def split: option.splits)

lemma close_socket_frame [frames]:
  "ws (close_socket s w) = ws w" "subs (close_socket s w) = subs w"
  "serverSubs (close_socket s w) = serverSubs w" "timers (close_socket s w) = timers w"
  "jobs (close_socket s w) = jobs w" "nextTimer (close_socket s w) = nextTimer w"
  "reconnectTimer (close_socket s w) = reconnectTimer w" "closeTimer (close_socket s w) = closeTimer w"
  "lastSeq (close_socket s w) = lastSeq w"
  "intentionalCloseSocket (close_socket s w) = intentionalCloseSocket w"
  "lastConnectedMarket (close_socket s w) = lastConnectedMarket w"
  "everConnected (close_socket s w) = everConnected w" "retries (close_socket s w) = retries w"
  "declaredGrid (close_socket s w) = declaredGrid w" "gridHandlers (close_socket s w) = gridHandlers w"
  "moduleConn (close_socket s w) = moduleConn w"
  by (simp_all add: close_socket_def emit_def set_ready_def)

lemma deliver_frame [frames]:
  "ws (deliverToMarket m d w) = ws w" "serverSubs (deliverToMarket m d w) = serverSubs w"
  "ready (deliverToMarket m d w) = ready w" "timers (deliverToMarket m d w) = timers w"
  "jobs (deliverToMarket m d w) = jobs w" "nextTimer (deliverToMarket m d w) = nextTimer w"
  "reconnectTimer (deliverToMarket m d w) = reconnectTimer w"
  "closeTimer (deliverToMarket m d w) = closeTimer w" "lastSeq (deliverToMarket m d w) = lastSeq w"
  "intentionalCloseSocket (deliverToMarket m d w) = intentionalCloseSocket w"
  "lastConnectedMarket (deliverToMarket m d w) = lastConnectedMarket w"
  "everConnected (deliverToMarket m d w) = everConnected w"
  "gridHandlers (deliverToMarket m d w) = gridHandlers w"
  by (simp_all add: deliverToMarket_def emit_def split: option.splits)

lemma emitResync_frame [frames]:
  "ws (emitResync m x w) = ws w" "serverSubs (emitResync m x w) = serverSubs w"
  "ready (emitResync m x w) = ready w" "timers (emitResync m x w) = timers w"
  "jobs (emitResync m x w) = jobs w" "nextTimer (emitResync m x w) = nextTimer w"
  "reconnectTimer (emitResync m x w) = reconnectTimer w"
  "closeTimer (emitResync m x w) = closeTimer w" "lastSeq (emitResync m x w) = lastSeq w"
  "intentionalCloseSocket (emitResync m x w) = intentionalCloseSocket w"
  "lastConnectedMarket (emitResync m x w) = lastConnectedMarket w"
  "everConnected (emitResync m x w) = everConnected w"
  "gridHandlers (emitResync m x w) = gridHandlers w"
  by (simp_all add: emitResync_def frames)

end
