(* ===== verification/Market_Socket_Inv.thy ===== *)
theory Market_Socket_Inv
  imports Market_Socket
begin

text \<open>
  The invariant of the shared market connection and its preservation by every event.

  \<open>inv_registry\<close> relates the registry of handlers, the set of markets on the wire and the
  sequence baselines; \<open>inv_sockets\<close> says that the only live socket is the tracked one;
  \<open>inv_timers\<close> that a reconnect is scheduled only while there is no socket, at most once, and with
  a delay in the range of \<open>reconnectDelayMs\<close>; \<open>inv_served\<close> that a registry with subscriptions
  has a socket or a scheduled reconnect. The interpretation \<open>ms\<close> at the end discharges the
  contract of \<open>invariant_system\<close> for the whole state machine.
\<close>

subsection \<open>Registry, sockets, timers: the three parts of the invariant\<close>

text \<open>What the registry is for: which market has which handlers, and is it on the wire.\<close>

definition sub_view :: "world \<Rightarrow> string \<Rightarrow> (nat list \<times> bool) option" where
  "sub_view w m = map_option (\<lambda>sub. (handlers sub, wsSubscribed sub)) (map_of (subs w) m)"

definition inv_registry :: "world \<Rightarrow> bool" where
  "inv_registry w \<longleftrightarrow>
     distinct (map_keys (subs w)) \<and> distinct (serverSubs w)
     \<and> (\<forall>m. m \<in> set (serverSubs w) \<longleftrightarrow> (\<exists>hs. sub_view w m = Some (hs, True)))
     \<and> (\<forall>m hs b. sub_view w m = Some (hs, b) \<longrightarrow> hs \<noteq> [] \<and> m \<noteq> [])
     \<and> (\<forall>m. map_has (lastSeq w) m \<longrightarrow> map_has (subs w) m)"

definition inv_sockets :: "world \<Rightarrow> bool" where
  "inv_sockets w \<longleftrightarrow>
     (\<forall>s. is_live (ready_of w s) \<longrightarrow> ws w = Some s)
     \<and> (\<forall>s. ws w = Some s \<longrightarrow> ready_of w s \<noteq> CLOSED)
     \<and> (intentionalCloseSocket w \<noteq> None \<longrightarrow> ws w = None)"

definition timer_ok :: "world \<Rightarrow> nat \<Rightarrow> timer \<Rightarrow> jsnum \<Rightarrow> bool" where
  "timer_ok w i t d =
     (case t of
        CloseTimer \<Rightarrow> True
      | ReconnectTimer m \<Rightarrow>
          m \<noteq> [] \<and> reconnectTimer w = Some i \<and> ws w = None
          \<and> (\<exists>n. d = Fin (of_int n) \<and> 100 \<le> n \<and> n \<le> 22500))"

definition inv_timers :: "world \<Rightarrow> bool" where
  "inv_timers w \<longleftrightarrow>
     distinct (map_keys (timers w)) \<and> (\<forall>i. map_has (timers w) i \<longrightarrow> i < nextTimer w)
     \<and> (\<forall>i t d. map_of (timers w) i = Some (t, d) \<longrightarrow> timer_ok w i t d)
     \<and> lastConnectedMarket w \<noteq> Some []"

definition reconnect_pending :: "world \<Rightarrow> bool" where
  "reconnect_pending w \<longleftrightarrow> (\<exists>i m d. map_of (timers w) i = Some (ReconnectTimer m, d))"

definition inv_served :: "world \<Rightarrow> bool" where
  "inv_served w \<longleftrightarrow> (subs w \<noteq> [] \<longrightarrow> ws w \<noteq> None \<or> reconnect_pending w)"

definition market_inv :: "world \<Rightarrow> bool" where
  "market_inv w \<longleftrightarrow> inv_registry w \<and> inv_sockets w \<and> inv_timers w \<and> inv_served w"

text \<open>Each part looks at its own fields only.\<close>

lemma inv_registry_cong:
  "subs w' = subs w \<Longrightarrow> serverSubs w' = serverSubs w \<Longrightarrow> lastSeq w' = lastSeq w \<Longrightarrow>
   inv_registry w' = inv_registry w"
  by (simp add: inv_registry_def sub_view_def)

lemma inv_sockets_cong:
  "ws w' = ws w \<Longrightarrow> ready w' = ready w \<Longrightarrow> intentionalCloseSocket w' = intentionalCloseSocket w \<Longrightarrow>
   inv_sockets w' = inv_sockets w"
  by (simp add: inv_sockets_def ready_of_def)

lemma inv_timers_cong:
  "ws w' = ws w \<Longrightarrow> timers w' = timers w \<Longrightarrow> nextTimer w' = nextTimer w \<Longrightarrow>
   reconnectTimer w' = reconnectTimer w \<Longrightarrow> lastConnectedMarket w' = lastConnectedMarket w \<Longrightarrow>
   inv_timers w' = inv_timers w"
  by (simp add: inv_timers_def timer_ok_def split: timer.splits)

lemma inv_served_cong:
  "(subs w' = [] \<longleftrightarrow> subs w = []) \<Longrightarrow> ws w' = ws w \<Longrightarrow> timers w' = timers w \<Longrightarrow>
   inv_served w' = inv_served w"
  by (simp add: inv_served_def reconnect_pending_def)

lemmas inv_congs = inv_registry_cong inv_sockets_cong inv_timers_cong inv_served_cong

lemma market_inv_cong:
  assumes "subs w' = subs w" "serverSubs w' = serverSubs w" "lastSeq w' = lastSeq w"
    "ws w' = ws w" "ready w' = ready w" "intentionalCloseSocket w' = intentionalCloseSocket w"
    "timers w' = timers w" "nextTimer w' = nextTimer w" "reconnectTimer w' = reconnectTimer w"
    "lastConnectedMarket w' = lastConnectedMarket w"
  shows "market_inv w' = market_inv w"
  unfolding market_inv_def
  using inv_registry_cong [OF assms(1-3)] inv_sockets_cong [OF assms(4-6)]
    inv_timers_cong [OF assms(4,7-10)] inv_served_cong [of w' w] assms by simp

lemma market_inv_emit [simp]: "market_inv (emit os w) = market_inv w"
  by (rule market_inv_cong) (simp_all add: frames)

lemma market_inv_setStatus [simp]: "market_inv (setStatus st w) = market_inv w"
  by (rule market_inv_cong) (simp_all add: frames)

lemma market_inv_sendWs [simp]: "market_inv (sendWs f w) = market_inv w"
  by (rule market_inv_cong) (simp_all add: frames)

lemma market_inv_init: "market_inv getConnection"
  by (simp add: market_inv_def getConnection_def inv_registry_def inv_sockets_def inv_timers_def
      inv_served_def sub_view_def ready_of_def is_live_def)

subsection \<open>Delivery\<close>

lemma sub_view_deliver [simp]: "sub_view (deliverToMarket m d w) = sub_view w"
  by (rule ext) (simp add: sub_view_def deliverToMarket_def frames js_simps split: option.splits)

lemma subs_keys_deliver [simp]: "map_keys (subs (deliverToMarket m d w)) = map_keys (subs w)"
  by (auto simp: deliverToMarket_def frames map_keys_set_present map_has_def split: option.splits)

lemma subs_Nil_deliver [simp]: "subs (deliverToMarket m d w) = [] \<longleftrightarrow> subs w = []"
  by (metis map_keys_empty_iff subs_keys_deliver)

lemma sub_view_has: "map_has (subs w) m \<longleftrightarrow> sub_view w m \<noteq> None"
  by (simp add: map_has_def sub_view_def)

lemma market_inv_deliver [simp]: "market_inv (deliverToMarket m d w) = market_inv w"
proof -
  have "inv_registry (deliverToMarket m d w) = inv_registry w"
    by (simp add: inv_registry_def sub_view_has frames)
  then show ?thesis
    unfolding market_inv_def
    using inv_sockets_cong [of "deliverToMarket m d w" w] inv_timers_cong [of "deliverToMarket m d w" w]
      inv_served_cong [of "deliverToMarket m d w" w]
    by (simp add: frames)
qed

lemma market_inv_emitResync [simp]: "market_inv (emitResync m x w) = market_inv w"
  by (simp add: emitResync_def)

lemma market_inv_fold_resync: "market_inv w \<Longrightarrow> market_inv (fold (\<lambda>m. emitResync m x) ms w)"
  by (induction ms arbitrary: w) auto

subsection \<open>Sequence numbers\<close>

lemma market_inv_lastSeq:
  assumes "market_inv w" and "map_has (subs w) m"
  shows "market_inv (w\<lparr>lastSeq := map_set m q (lastSeq w)\<rparr>)"
proof -
  let ?w = "w\<lparr>lastSeq := map_set m q (lastSeq w)\<rparr>"
  have "inv_registry ?w"
    using assms by (auto simp: market_inv_def inv_registry_def sub_view_def js_simps)
  moreover have "inv_sockets ?w = inv_sockets w" "inv_timers ?w = inv_timers w" "inv_served ?w = inv_served w"
    by (rule inv_congs; simp)+
  ultimately show ?thesis using assms(1) by (simp add: market_inv_def)
qed

lemma market_inv_checkForGap:
  "market_inv w \<Longrightarrow> map_has (subs w) m \<Longrightarrow> market_inv (checkForGap m q w)"
  by (simp add: checkForGap_def market_inv_lastSeq split: option.splits)

lemma market_inv_reconcile_one: "market_inv w \<Longrightarrow> market_inv (reconcile_one e w)"
proof -
  assume inv: "market_inv w"
  then have "map_has (lastSeq w) m \<Longrightarrow> map_has (subs w) m" for m
    by (simp add: market_inv_def inv_registry_def)
  with inv show ?thesis
    by (auto simp: reconcile_one_def market_inv_lastSeq map_has_def split: option.splits)
qed

lemma market_inv_reconcile: "market_inv w \<Longrightarrow> market_inv (reconcileAgainstBeacon ss w)"
  unfolding reconcileAgainstBeacon_def
  by (induction ss arbitrary: w) (auto simp: market_inv_reconcile_one)

lemma market_inv_onmessage: "market_inv w \<Longrightarrow> market_inv (onmessage s d w)"
  by (auto simp: onmessage_def Let_def market_inv_reconcile market_inv_checkForGap
      split: option.splits)

subsection \<open>Putting a market on the wire and taking it off\<close>

lemma registry_upd:
  assumes "inv_registry w" and "sub_view w m = Some (hs, b)"
    and "subs w' = map_set m sub' (subs w)" "handlers sub' = hs'" "wsSubscribed sub' = b'"
    and "hs' \<noteq> []" and "serverSubs w' = (if b' then set_add m (serverSubs w) else serverSubs w)"
    and "b \<longrightarrow> b'" and "lastSeq w' = lastSeq w"
  shows "inv_registry w'"
proof -
  have sv: "sub_view w' = (sub_view w)(m := Some (hs', b'))"
    using assms(3-5) by (auto simp: sub_view_def js_simps fun_eq_iff)
  have has: "map_has (subs w') k \<longleftrightarrow> map_has (subs w) k" for k
    using assms(2) by (auto simp: sub_view_has sv)
  have "distinct (map_keys (subs w'))" "distinct (serverSubs w')"
    using assms(1,3,7) by (auto simp: inv_registry_def distinct_keys_set distinct_set_add)
  moreover have "k \<in> set (serverSubs w') \<longleftrightarrow> (\<exists>hs. sub_view w' k = Some (hs, True))" for k
    using assms(1,2,7,8) by (auto simp: inv_registry_def sv js_simps)
  moreover have "m \<noteq> []" using assms(1,2) by (auto simp: inv_registry_def)
  ultimately show ?thesis
    using assms(1,6,9) by (auto simp: inv_registry_def sv has)
qed

lemma market_inv_wire:
  assumes "market_inv w" and "map_of (subs w) m = Some sub"
  shows "market_inv (w\<lparr>subs := map_set m (sub\<lparr>wsSubscribed := True\<rparr>) (subs w),
    serverSubs := set_add m (serverSubs w)\<rparr>)" (is "market_inv ?w")
proof -
  have v: "sub_view w m = Some (handlers sub, wsSubscribed sub)"
    using assms(2) by (simp add: sub_view_def)
  have h: "handlers sub \<noteq> []"
    using assms(1) v unfolding market_inv_def inv_registry_def by blast
  have "inv_registry ?w"
    by (rule registry_upd [where w = w and sub' = "sub\<lparr>wsSubscribed := True\<rparr>" and b' = True
          and hs' = "handlers sub", OF _ v]) (use assms(1) h in \<open>simp_all add: market_inv_def\<close>)
  moreover have "subs w \<noteq> []" using assms(2) by auto
  moreover have "subs ?w \<noteq> []" using assms(2) by (cases "subs w") auto
  ultimately show ?thesis
    using assms(1) inv_sockets_cong [of ?w w] inv_timers_cong [of ?w w] inv_served_cong [of ?w w]
    by (simp add: market_inv_def)
qed

lemma market_inv_wsSubscribe_body: "market_inv w \<Longrightarrow> market_inv (wsSubscribe_body m w)"
proof (cases "map_of (subs w) m")
  case (Some sub)
  assume "market_inv w"
  then have "market_inv (sendWs (Subscribe m) w)" by simp
  moreover have "map_of (subs (sendWs (Subscribe m) w)) m = Some sub"
    using Some by (simp add: frames)
  ultimately show ?thesis
    using market_inv_wire \<open>market_inv w\<close> Some by (simp add: wsSubscribe_body_def Let_def)
qed (simp add: wsSubscribe_body_def)

lemma market_inv_open_pending:
  assumes "market_inv w" and "map_of (subs w) (fst e) = Some (snd e)"
  shows "market_inv (open_pending s sent e w)"
  using market_inv_wire [OF assms] assms(1) by (simp add: open_pending_def)

lemma subs_open_pending_other:
  "k \<noteq> fst e \<Longrightarrow> map_of (subs (open_pending s sent e w)) k = map_of (subs w) k"
  by (simp add: open_pending_def frames js_simps)

lemma market_inv_open_pendings:
  assumes "market_inv w" and "distinct (map fst es)" and "\<And>e. e \<in> set es \<Longrightarrow> map_of (subs w) (fst e) = Some (snd e)"
  shows "market_inv (fold (open_pending s sent) es w)"
  using assms
proof (induction es arbitrary: w)
  case (Cons e es)
  have "market_inv (open_pending s sent e w)"
    using Cons.prems by (intro market_inv_open_pending) auto
  moreover have "map_of (subs (open_pending s sent e w)) (fst e') = Some (snd e')" if "e' \<in> set es" for e'
  proof -
    have "fst e \<notin> fst ` set es" using Cons.prems(2) by simp
    then have "fst e' \<noteq> fst e" using that by (metis image_eqI)
    then show ?thesis using Cons.prems(3) that by (simp add: subs_open_pending_other)
  qed
  ultimately show ?case using Cons by simp
qed simp

lemma market_inv_subs_entries:
  "market_inv w \<Longrightarrow> e \<in> set (subs w) \<Longrightarrow> map_of (subs w) (fst e) = Some (snd e)"
  by (cases e) (auto simp: market_inv_def inv_registry_def map_keys_def)

lemma market_inv_retries [simp]: "market_inv (w\<lparr>retries := n\<rparr>) = market_inv w"
  by (rule market_inv_cong) simp_all

lemma market_inv_everConnected [simp]: "market_inv (w\<lparr>everConnected := b\<rparr>) = market_inv w"
  by (rule market_inv_cong) simp_all

lemma market_inv_onopen: "market_inv w \<Longrightarrow> market_inv (onopen s w)"
proof -
  assume inv: "market_inv w"
  let ?w4 = "let w1 = setStatus Connected (w\<lparr>retries := 0\<rparr>);
      w2 = emit (map (\<lambda>m. Send s (Subscribe m)) (serverSubs w1)) w1;
      w3 = emit (map (\<lambda>m. Send s (Subscribe m)) (serverSubs w2)) w2
    in if declaredGrid w3 \<noteq> [] then emit [Send s (Grid (declaredGrid w3))] w3 else w3"
  have i4: "market_inv ?w4" using inv by (simp add: Let_def)
  have "market_inv (fold (open_pending s sent) (subs ?w4) ?w4)" for sent
    using i4 market_inv_subs_entries [OF i4]
    by (intro market_inv_open_pendings) (auto simp: market_inv_def inv_registry_def map_keys_def)
  then show ?thesis
    by (auto simp: onopen_def Let_def intro!: market_inv_fold_resync)
qed

subsection \<open>Opening, losing and closing the socket\<close>

lemma ready_of_new: "ready w' = ready w @ [CONNECTING] \<Longrightarrow>
  ready_of w' s = (if s = length (ready w) then CONNECTING else ready_of w s)"
  by (auto simp: ready_of_def nth_append)

lemma map_of_clear_timer:
  "map_of (timers (clear_timeout i w)) k = (if i = Some k then None else map_of (timers w) k)"
  by (auto simp: frames js_simps split: option.splits)

lemma distinct_clear_timer:
  "distinct (map_keys (timers w)) \<Longrightarrow> distinct (map_keys (timers (clear_timeout i w)))"
  by (auto simp: frames distinct_keys_delete split: option.splits)

lemma ready_of_cong: "ready w' = ready w \<Longrightarrow> ready_of w' = ready_of w"
  by (rule ext) (simp add: ready_of_def)

text \<open>What \<open>connect\<close> does when there is no socket, field by field.\<close>

lemma connect_fields:
  assumes "ws w = None"
  shows "ws (connect m w) = Some (length (ready w))"
    and "ready (connect m w) = ready w @ [CONNECTING]"
    and "subs (connect m w) = subs w" and "serverSubs (connect m w) = serverSubs w"
    and "lastSeq (connect m w) = lastSeq w" and "intentionalCloseSocket (connect m w) = None"
    and "reconnectTimer (connect m w) = None" and "closeTimer (connect m w) = None"
    and "lastConnectedMarket (connect m w) = Some m" and "nextTimer (connect m w) = nextTimer w"
    and "timers (connect m w) = timers (clear_timeout (closeTimer w) (clear_timeout (reconnectTimer w) w))"
    and "everConnected (connect m w) = everConnected w" and "declaredGrid (connect m w) = declaredGrid w"
    and "gridHandlers (connect m w) = gridHandlers w" and "status (connect m w) = Connecting"
  using assms by (simp_all add: connect_def Let_def new_socket_def frames split: option.splits)

lemma connect_idle [simp]: "ws w \<noteq> None \<Longrightarrow> connect m w = w"
  by (simp add: connect_def)

lemma inv_timersD:
  assumes "inv_timers w"
  shows "distinct (map_keys (timers w))"
    and "map_of (timers w) i = Some td \<Longrightarrow> i < nextTimer w"
    and "map_of (timers w) i = Some (ReconnectTimer k, d) \<Longrightarrow>
      k \<noteq> [] \<and> reconnectTimer w = Some i \<and> ws w = None \<and> (\<exists>n. d = Fin (of_int n) \<and> 100 \<le> n \<and> n \<le> 22500)"
    and "lastConnectedMarket w \<noteq> Some []"
  using assms by (force simp: inv_timers_def timer_ok_def map_has_def)+

lemma inv_timersI:
  assumes "distinct (map_keys (timers w))"
    and "\<And>i td. map_of (timers w) i = Some td \<Longrightarrow> i < nextTimer w"
    and "\<And>i k d. map_of (timers w) i = Some (ReconnectTimer k, d) \<Longrightarrow>
      k \<noteq> [] \<and> reconnectTimer w = Some i \<and> ws w = None \<and> (\<exists>n. d = Fin (of_int n) \<and> 100 \<le> n \<and> n \<le> 22500)"
    and "lastConnectedMarket w \<noteq> Some []"
  shows "inv_timers w"
proof -
  have "timer_ok w i t d" if "map_of (timers w) i = Some (t, d)" for i t d
    using that assms(3) by (cases t) (auto simp: timer_ok_def)
  then show ?thesis using assms(1,2,4) by (auto simp: inv_timers_def map_has_def)
qed

text \<open>\<open>connect\<close> re-establishes \<open>inv_served\<close> whatever came before.\<close>

lemma market_inv_connect:
  assumes "inv_registry w" "inv_sockets w" "inv_timers w" "m \<noteq> []"
  shows "market_inv (connect m w)"
proof (cases "ws w")
  case None
  note f = connect_fields [OF None, of m]
  have reg: "inv_registry (connect m w)"
    using assms(1) f inv_registry_cong [of "connect m w" w] by simp
  have sock: "inv_sockets (connect m w)"
    using assms(2) f None ready_of_new [of "connect m w" w]
    by (auto simp: inv_sockets_def is_live_def)
  have "inv_timers (connect m w)"
  proof (rule inv_timersI)
    show "distinct (map_keys (timers (connect m w)))"
      using assms(3) by (simp add: f(11) distinct_clear_timer inv_timers_def)
    show "i < nextTimer (connect m w)" if "map_of (timers (connect m w)) i = Some td" for i td
      using that assms(3) by (simp add: f inv_timers_def map_has_def map_of_clear_timer split: if_splits)
    show "k \<noteq> [] \<and> reconnectTimer (connect m w) = Some i \<and> ws (connect m w) = None \<and> 
        (\<exists>n. d = Fin (of_int n) \<and> 100 \<le> n \<and> n \<le> 22500)"
      if "map_of (timers (connect m w)) i = Some (ReconnectTimer k, d)" for i k d
      using that inv_timersD(3) [OF assms(3), of i k d]
      by (simp add: f map_of_clear_timer split: if_splits)
  qed (use assms(4) f in simp_all)
  then show ?thesis
    using reg sock f by (simp add: market_inv_def inv_served_def)
next
  case (Some s)
  then show ?thesis using assms by (simp add: market_inv_def inv_served_def)
qed

lemma GRID_ANCHOR_nonempty [simp]: "GRID_ANCHOR_MARKET \<noteq> []"
  by (simp add: GRID_ANCHOR_MARKET_def)

lemma market_inv_declaredGrid [simp]: "market_inv (w\<lparr>declaredGrid := g\<rparr>) = market_inv w"
  by (rule market_inv_cong) simp_all

lemma market_inv_connect': "market_inv w \<Longrightarrow> m \<noteq> [] \<Longrightarrow> market_inv (connect m w)"
  by (rule market_inv_connect) (simp_all add: market_inv_def)

lemma market_inv_sendGrid: "market_inv w \<Longrightarrow> market_inv (sendGrid ms w)"
  by (simp add: sendGrid_def Let_def market_inv_connect')

lemma reconnect_market_nonempty:
  assumes "inv_registry w" "inv_timers w"
  shows "reconnect_market w \<noteq> []"
proof -
  have k: "m \<noteq> []" if "map_has (subs w) m" for m
    using assms(1) that unfolding inv_registry_def sub_view_has by fast
  have "m \<noteq> []" if "m \<in> set (serverSubs w)" for m
    using assms(1) that unfolding inv_registry_def by blast
  moreover have "m \<noteq> []" if "m \<in> set (map_keys (subs w))" for m
    using k that by (simp add: map_has_keys)
  ultimately show ?thesis
    using assms(2)
    by (auto simp: reconnect_market_def get_or_def js_first_def inv_timers_def split: option.splits list.splits)
qed

lemma set_timeout_map:
  assumes "inv_timers w"
  shows "map_of (timers (snd (set_timeout t d w))) k
      = (if k = nextTimer w then Some (t, d) else map_of (timers w) k)"
proof -
  have "map_of (timers w) (nextTimer w) = None"
    using assms unfolding inv_timers_def map_has_def by blast
  then show ?thesis
    by (auto simp: set_timeout_def map_add_def split: option.splits)
qed

lemma set_timeout_distinct:
  assumes "inv_timers w"
  shows "distinct (map_keys (timers (snd (set_timeout t d w))))"
proof -
  have "nextTimer w \<notin> set (map_keys (timers w))"
    using assms by (auto simp: inv_timers_def map_has_keys [symmetric])
  then show ?thesis using assms by (auto simp: set_timeout_def inv_timers_def map_keys_def)
qed

lemma set_timeout_frame [frames]:
  "ws (snd (set_timeout t d w)) = ws w" "subs (snd (set_timeout t d w)) = subs w"
  "serverSubs (snd (set_timeout t d w)) = serverSubs w" "lastSeq (snd (set_timeout t d w)) = lastSeq w"
  "ready (snd (set_timeout t d w)) = ready w"
  "intentionalCloseSocket (snd (set_timeout t d w)) = intentionalCloseSocket w"
  "lastConnectedMarket (snd (set_timeout t d w)) = lastConnectedMarket w"
  "nextTimer (snd (set_timeout t d w)) = Suc (nextTimer w)"
  "reconnectTimer (snd (set_timeout t d w)) = reconnectTimer w"
  "everConnected (snd (set_timeout t d w)) = everConnected w"
  "fst (set_timeout t d w) = nextTimer w"
  by (simp_all add: set_timeout_def)

text \<open>An unexpected close, as one update.\<close>

definition lost_socket :: "rat \<Rightarrow> world \<Rightarrow> world" where
  "lost_socket r w =
     (let w1 = setStatus Disconnected (w\<lparr>ws := None\<rparr>);
          w2 = w1\<lparr>retries := Suc (retries w1)\<rparr>
      in (snd (set_timeout (ReconnectTimer (reconnect_market w2))
                 (reconnectDelayMs (retries w1) (Fin r)) w2))\<lparr>reconnectTimer := Some (nextTimer w)\<rparr>)"

lemma onclose_lost:
  assumes "inv_sockets w" "ws w = Some s"
  shows "onclose s r w = lost_socket r w"
  using assms by (auto simp: onclose_def lost_socket_def Let_def frames inv_sockets_def set_timeout_def)

lemma reconnect_market_cong:
  "lastConnectedMarket w' = lastConnectedMarket w \<Longrightarrow> serverSubs w' = serverSubs w \<Longrightarrow>
   subs w' = subs w \<Longrightarrow> reconnect_market w' = reconnect_market w"
  by (simp add: reconnect_market_def)

lemma lost_socket_fields:
  "ws (lost_socket r w) = None" "subs (lost_socket r w) = subs w"
  "serverSubs (lost_socket r w) = serverSubs w" "lastSeq (lost_socket r w) = lastSeq w"
  "ready (lost_socket r w) = ready w"
  "intentionalCloseSocket (lost_socket r w) = intentionalCloseSocket w"
  "lastConnectedMarket (lost_socket r w) = lastConnectedMarket w"
  "nextTimer (lost_socket r w) = Suc (nextTimer w)"
  "reconnectTimer (lost_socket r w) = Some (nextTimer w)"
  "everConnected (lost_socket r w) = everConnected w"
  "timers (lost_socket r w) = timers w @
     [(nextTimer w, (ReconnectTimer (reconnect_market w), reconnectDelayMs (retries w) (Fin r)))]"
  by (simp_all add: lost_socket_def Let_def frames set_timeout_def reconnect_market_def)

lemma set_ready_simps:
  "ready_of (set_ready s r w) k = (if k = s \<and> s < length (ready w) then r else ready_of w k)"
  "ready_of w s \<noteq> CLOSED \<Longrightarrow> s < length (ready w)"
  by (auto simp: set_ready_def ready_of_def nth_list_update split: if_splits)

lemma set_ready_frame [frames]:
  "ws (set_ready s r w) = ws w" "subs (set_ready s r w) = subs w"
  "serverSubs (set_ready s r w) = serverSubs w" "lastSeq (set_ready s r w) = lastSeq w"
  "timers (set_ready s r w) = timers w" "nextTimer (set_ready s r w) = nextTimer w"
  "reconnectTimer (set_ready s r w) = reconnectTimer w" "closeTimer (set_ready s r w) = closeTimer w"
  "lastConnectedMarket (set_ready s r w) = lastConnectedMarket w"
  "intentionalCloseSocket (set_ready s r w) = intentionalCloseSocket w"
  "everConnected (set_ready s r w) = everConnected w" "outs (set_ready s r w) = outs w"
  "retries (set_ready s r w) = retries w" "declaredGrid (set_ready s r w) = declaredGrid w"
  "statusHandlers (set_ready s r w) = statusHandlers w"
  by (simp_all add: set_ready_def)

text \<open>A socket that opens stays the tracked one.\<close>

lemma market_inv_opened:
  assumes "market_inv w" "ready_of w s = CONNECTING"
  shows "market_inv (set_ready s OPEN w)"
proof -
  have l: "is_live (ready_of w k) \<Longrightarrow> ws w = Some k" for k
    using assms(1) by (simp add: market_inv_def inv_sockets_def)
  have ws: "ws w = Some s" and len: "s < length (ready w)"
    using l [of s] assms(2) set_ready_simps(2) [of w s] by (simp_all add: is_live_def)
  have "inv_sockets (set_ready s OPEN w)"
    using assms(1) ws len unfolding market_inv_def inv_sockets_def
    by (simp add: set_ready_simps(1) frames)
  then show ?thesis
    using assms(1) inv_registry_cong [of "set_ready s OPEN w" w] inv_timers_cong [of "set_ready s OPEN w" w]
      inv_served_cong [of "set_ready s OPEN w" w]
    by (simp add: market_inv_def frames)
qed

lemma registry_timers_closed:
  assumes "inv_registry w" "inv_timers w"
  shows "inv_registry (set_ready s r w)" "inv_timers (set_ready s r w)"
  using assms inv_registry_cong [of "set_ready s r w" w] inv_timers_cong [of "set_ready s r w" w]
  by (simp_all add: frames)

lemma lost_socket_pending:
  assumes "inv_timers w"
  shows "map_of (timers (lost_socket r w)) i =
      (if i = nextTimer w then Some (ReconnectTimer (reconnect_market w), reconnectDelayMs (retries w) (Fin r))
       else map_of (timers w) i)"
  using set_timeout_map [OF assms] by (simp add: lost_socket_fields set_timeout_def)

lemma market_inv_lost_socket:
  assumes "inv_registry w" "inv_timers w" and "\<And>s. \<not> is_live (ready_of w s)"
    and "intentionalCloseSocket w = None" "ws w \<noteq> None" "0 \<le> r" "r < 1"
  shows "market_inv (lost_socket r w)"
proof -
  note f = lost_socket_fields [of r w]
  obtain n where n: "reconnectDelayMs (retries w) (Fin r) = Fin (of_int n)" "100 \<le> n" "n \<le> 22500"
    using bo.delay_range [of r "retries w"] assms(6,7) by auto
  note m = lost_socket_pending [OF assms(2), of r]
  have "inv_registry (lost_socket r w)"
    using assms(1) inv_registry_cong [of "lost_socket r w" w] by (simp add: f)
  moreover have "inv_sockets (lost_socket r w)"
    using assms(3,4) ready_of_cong [of "lost_socket r w" w] by (simp add: inv_sockets_def f)
  moreover have "inv_timers (lost_socket r w)"
  proof (rule inv_timersI)
    show "distinct (map_keys (timers (lost_socket r w)))"
      using set_timeout_distinct [OF assms(2)] by (simp add: f set_timeout_def)
    show "i < nextTimer (lost_socket r w)" if "map_of (timers (lost_socket r w)) i = Some td" for i td
      using that inv_timersD(2) [OF assms(2), of i td] by (auto simp: m f(8) split: if_splits)
    show "k \<noteq> [] \<and> reconnectTimer (lost_socket r w) = Some i \<and> ws (lost_socket r w) = None \<and>
        (\<exists>n. d = Fin (of_int n) \<and> 100 \<le> n \<and> n \<le> 22500)"
      if "map_of (timers (lost_socket r w)) i = Some (ReconnectTimer k, d)" for i k d
    proof (cases "i = nextTimer w")
      case True
      then show ?thesis
        using that reconnect_market_nonempty [OF assms(1,2)] n by (simp add: m f(1,9)) blast
    next
      case False
      then show ?thesis
        using that inv_timersD(3) [OF assms(2), of i k d] assms(5) by (simp add: m)
    qed
    show "lastConnectedMarket (lost_socket r w) \<noteq> Some []"
      using inv_timersD(4) [OF assms(2)] by (simp add: f)
  qed
  moreover have "reconnect_pending (lost_socket r w)"
    unfolding reconnect_pending_def by (rule exI [of _ "nextTimer w"]) (simp add: m)
  ultimately show ?thesis by (simp add: market_inv_def inv_served_def)
qed

lemma no_live_socket:
  assumes "inv_sockets w" "ws w = Some s" "ready_of w s \<noteq> CLOSED"
  shows "\<not> is_live (ready_of (set_ready s CLOSED w) k)"
  using assms set_ready_simps(2) [OF assms(3)]
  by (auto simp: inv_sockets_def set_ready_simps(1) is_live_def [of CLOSED])

lemma market_inv_onclose:
  assumes inv: "market_inv w" and s: "ready_of w s \<noteq> CLOSED" and r: "0 \<le> r" "r < 1"
  shows "market_inv (onclose s r (set_ready s CLOSED w))"
proof (cases "ws w = Some s")
  case True
  let ?w = "set_ready s CLOSED w"
  have i: "inv_registry w" "inv_sockets w" "inv_timers w" "intentionalCloseSocket w = None"
    using inv True by (auto simp: market_inv_def inv_sockets_def)
  then have "onclose s r ?w = lost_socket r ?w"
    using True by (auto simp: onclose_def lost_socket_def Let_def frames set_timeout_def)
  then show ?thesis
    using market_inv_lost_socket [OF registry_timers_closed [OF i(1,3)], of s CLOSED r]
      no_live_socket [OF i(2) True s] i True r by (simp add: frames)
next
  case False
  have "inv_sockets (set_ready s CLOSED w)"
    using inv False unfolding market_inv_def inv_sockets_def
    by (auto simp: set_ready_simps(1) frames is_live_def [of CLOSED])
  then have "market_inv (set_ready s CLOSED w)"
    using inv registry_timers_closed [of w s CLOSED] inv_served_cong [of "set_ready s CLOSED w" w]
    by (simp add: market_inv_def frames)
  then show ?thesis using False by (simp add: onclose_def frames)
qed

lemma ready_of_close_socket:
  "ready_of (close_socket s w) k = (if k = s \<and> is_live (ready_of w s) then CLOSING else ready_of w k)"
proof (cases "is_live (ready_of w s)")
  case True
  then have "s < length (ready w)" using set_ready_simps(2) [of w s] by (auto simp: is_live_def)
  with True show ?thesis
    by (simp add: close_socket_def is_live_def ready_of_cong [OF emit_frame(4)] set_ready_simps(1))
next
  case False
  then show ?thesis by (simp add: close_socket_def is_live_def ready_of_cong [OF emit_frame(4)])
qed

lemma inv_sockets_closing:
  assumes "inv_sockets w" "ws w = Some s"
  shows "inv_sockets (close_socket s w)"
proof -
  have "is_live (ready_of (close_socket s w) k) \<Longrightarrow> is_live (ready_of w k)" for k
    by (simp add: ready_of_close_socket is_live_def split: if_splits)
  moreover have "ready_of w k \<noteq> CLOSED \<Longrightarrow> ready_of (close_socket s w) k \<noteq> CLOSED" for k
    by (simp add: ready_of_close_socket)
  ultimately show ?thesis
    using assms(1) unfolding inv_sockets_def close_socket_frame by blast
qed

lemma market_inv_close_socket:
  assumes "market_inv w" "ws w = Some s"
  shows "market_inv (close_socket s w)"
  using assms inv_sockets_closing [of w s] inv_registry_cong [of "close_socket s w" w]
    inv_timers_cong [of "close_socket s w" w] inv_served_cong [of "close_socket s w" w]
  by (simp add: market_inv_def frames)

lemma market_inv_closing:
  assumes "market_inv w" "ready_of w s = CONNECTING \<or> ready_of w s = OPEN"
  shows "market_inv (set_ready s CLOSING w)"
proof -
  have "ws w = Some s" using assms by (auto simp: market_inv_def inv_sockets_def is_live_def)
  then have "market_inv (close_socket s w)" by (rule market_inv_close_socket [OF assms(1)])
  then show ?thesis using assms(2) by (simp add: close_socket_def)
qed

lemma market_inv_onerror: "market_inv w \<Longrightarrow> market_inv (onerror s w)"
  by (simp add: onerror_def market_inv_close_socket frames)

subsection \<open>Subscribing and unsubscribing\<close>

lemma registry_insert:
  assumes "inv_registry w" "m \<noteq> []" "subs w' = map_set m sub' (subs w)" "handlers sub' \<noteq> []"
    and "wsSubscribed sub' = (m \<in> set (serverSubs w))"
    and "serverSubs w' = serverSubs w" "lastSeq w' = lastSeq w"
  shows "inv_registry w'"
proof -
  have sv: "sub_view w' = (sub_view w)(m := Some (handlers sub', m \<in> set (serverSubs w)))"
    using assms(3,5) by (auto simp: sub_view_def js_simps fun_eq_iff)
  have has: "map_has (subs w) k \<Longrightarrow> map_has (subs w') k" for k
    by (simp add: assms(3) js_simps)
  have "distinct (map_keys (subs w'))" "distinct (serverSubs w')"
    using assms(1) by (simp_all add: assms(3,6) inv_registry_def distinct_keys_set)
  moreover have "k \<in> set (serverSubs w') \<longleftrightarrow> (\<exists>hs. sub_view w' k = Some (hs, True))" for k
    using assms(1) by (simp add: inv_registry_def sv assms(6))
  moreover have "hs \<noteq> [] \<and> k \<noteq> []" if "sub_view w' k = Some (hs, b)" for k hs b
  proof (cases "k = m")
    case True
    then show ?thesis using that assms(2,4) by (simp add: sv)
  next
    case False
    then have "sub_view w k = Some (hs, b)" using that by (simp add: sv)
    then show ?thesis using assms(1) unfolding inv_registry_def by blast
  qed
  ultimately show ?thesis
    using assms(1,7) has by (simp add: inv_registry_def)
qed

lemma set_add_nonempty [simp]: "set_add x xs \<noteq> []"
  by (auto simp: set_add_def)

lemma registry_subscribed:
  assumes "inv_registry w" "map_of (subs w) m = Some sub"
  shows "wsSubscribed sub = (m \<in> set (serverSubs w))"
  using assms by (auto simp: inv_registry_def sub_view_def)

lemma registry_not_served:
  assumes "inv_registry w" "map_of (subs w) m = None"
  shows "m \<notin> set (serverSubs w)"
  using assms by (auto simp: inv_registry_def sub_view_def)

text \<open>The registry after \<open>subscribe\<close> added the handler.\<close>

definition add_handler :: "string \<Rightarrow> nat \<Rightarrow> world \<Rightarrow> (string \<times> market_sub) list" where
  "add_handler m h w =
     (let sub = get_or (map_of (subs w) m) \<lparr>seq = 0, handlers = [], wsSubscribed = False\<rparr>
      in map_set m (sub\<lparr>handlers := set_add h (handlers sub)\<rparr>) (subs w))"

lemma delete_update_same [js_simps]: "map_delete k (map_set k v m) = map_delete k m"
  by (induction m) auto

lemma update_update [js_simps]: "map_set k v (map_set k v' m) = map_set k v m"
  by (induction m) auto

lemma subscribe_alt:
  "subscribe m h w =
     (let w2 = w\<lparr>subs := add_handler m h w\<rparr>
      in if ws w = None then connect m w2 else wsSubscribe m (w2\<lparr>lastConnectedMarket := Some m\<rparr>))"
  by (cases "map_of (subs w) m")
    (simp_all add: subscribe_def add_handler_def Let_def map_has_def js_simps get_or_def)

lemma inv_registry_add_handler:
  assumes "inv_registry w" "m \<noteq> []"
  shows "inv_registry (w\<lparr>subs := add_handler m h w\<rparr>)"
proof (rule registry_insert [where w = w and m = m])
  let ?sub = "get_or (map_of (subs w) m) \<lparr>seq = 0, handlers = [], wsSubscribed = False\<rparr>"
  show "subs (w\<lparr>subs := add_handler m h w\<rparr>) = map_set m (?sub\<lparr>handlers := set_add h (handlers ?sub)\<rparr>) (subs w)"
    by (simp add: add_handler_def Let_def)
  show "wsSubscribed (?sub\<lparr>handlers := set_add h (handlers ?sub)\<rparr>) = (m \<in> set (serverSubs w))"
    using registry_subscribed [OF assms(1), of m] registry_not_served [OF assms(1), of m]
    by (cases "map_of (subs w) m") (simp_all add: get_or_def)
qed (use assms in simp_all)

lemma market_inv_jobs [simp]: "market_inv (w\<lparr>jobs := js\<rparr>) = market_inv w"
  by (rule market_inv_cong) simp_all

lemma market_inv_subscribe:
  assumes "market_inv w" "m \<noteq> []"
  shows "market_inv (subscribe m h w)"
proof -
  let ?w = "w\<lparr>subs := add_handler m h w\<rparr>"
  have i: "inv_registry ?w" "inv_sockets ?w" "inv_timers ?w"
    using assms inv_registry_add_handler inv_sockets_cong [of ?w w] inv_timers_cong [of ?w w]
    by (simp_all add: market_inv_def)
  have "market_inv (?w\<lparr>lastConnectedMarket := Some m\<rparr>)" (is "market_inv ?v") if "ws w \<noteq> None"
  proof -
    have "inv_timers ?v"
      using i(3) assms(2) that by (auto simp: inv_timers_def timer_ok_def split: timer.splits)
    then show ?thesis
      using i that inv_registry_cong [of ?v ?w] inv_sockets_cong [of ?v ?w]
      by (simp add: market_inv_def inv_served_def)
  qed
  then show ?thesis
    using market_inv_connect [OF i assms(2)] by (simp add: subscribe_alt Let_def wsSubscribe_def)
qed

lemma set_remove_absent: "x \<notin> set xs \<Longrightarrow> set_remove x xs = xs"
  by (induction xs) (auto simp: set_remove_def)

lemma wsUnsubscribe_absent:
  assumes "\<not> map_has (subs w) m"
  shows "wsUnsubscribe m w =
    (if m \<in> set (serverSubs w)
     then (sendWs (Unsubscribe m) w)\<lparr>serverSubs := set_remove m (serverSubs w)\<rparr> else w)"
  using assms by (simp add: wsUnsubscribe_def Let_def frames map_has_def)

lemma wsUnsubscribe_fields:
  assumes "\<not> map_has (subs w) m"
  shows "subs (wsUnsubscribe m w) = subs w" "ws (wsUnsubscribe m w) = ws w"
    "lastSeq (wsUnsubscribe m w) = lastSeq w" "ready (wsUnsubscribe m w) = ready w"
    "timers (wsUnsubscribe m w) = timers w" "nextTimer (wsUnsubscribe m w) = nextTimer w"
    "reconnectTimer (wsUnsubscribe m w) = reconnectTimer w"
    "intentionalCloseSocket (wsUnsubscribe m w) = intentionalCloseSocket w"
    "lastConnectedMarket (wsUnsubscribe m w) = lastConnectedMarket w"
    "serverSubs (wsUnsubscribe m w) = set_remove m (serverSubs w)"
  using assms by (simp_all add: wsUnsubscribe_absent frames set_remove_absent)

text \<open>The state of \<open>unsubscribe\<close> once the last handler of a market is gone.\<close>

definition drop_market :: "string \<Rightarrow> world \<Rightarrow> world" where
  "drop_market m w =
     wsUnsubscribe m (w\<lparr>subs := map_delete m (subs w), lastSeq := map_delete m (lastSeq w)\<rparr>)"

lemma drop_market_fields:
  "subs (drop_market m w) = map_delete m (subs w)" "ws (drop_market m w) = ws w"
  "lastSeq (drop_market m w) = map_delete m (lastSeq w)" "ready (drop_market m w) = ready w"
  "timers (drop_market m w) = timers w" "nextTimer (drop_market m w) = nextTimer w"
  "reconnectTimer (drop_market m w) = reconnectTimer w"
  "intentionalCloseSocket (drop_market m w) = intentionalCloseSocket w"
  "lastConnectedMarket (drop_market m w) = lastConnectedMarket w"
  "serverSubs (drop_market m w) = set_remove m (serverSubs w)"
  unfolding drop_market_def by (subst wsUnsubscribe_fields; simp add: js_simps)+

lemma registry_delete:
  assumes "inv_registry w" "subs w' = map_delete m (subs w)" "lastSeq w' = map_delete m (lastSeq w)"
    "serverSubs w' = set_remove m (serverSubs w)"
  shows "inv_registry w'"
proof -
  have sv: "sub_view w' = (sub_view w)(m := None)"
    using assms(2) by (auto simp: sub_view_def js_simps fun_eq_iff)
  have "distinct (map_keys (subs w'))" "distinct (serverSubs w')"
    using assms(1) by (simp_all add: assms(2,4) inv_registry_def distinct_keys_delete distinct_set_remove)
  moreover have "k \<in> set (serverSubs w') \<longleftrightarrow> (\<exists>hs. sub_view w' k = Some (hs, True))" for k
    using assms(1) by (simp add: inv_registry_def sv assms(4) js_simps)
  moreover have "hs \<noteq> [] \<and> k \<noteq> []" if "sub_view w' k = Some (hs, b)" for k hs b
  proof -
    have "sub_view w k = Some (hs, b)" using that by (simp add: sv split: if_splits)
    then show ?thesis using assms(1) unfolding inv_registry_def by blast
  qed
  ultimately show ?thesis
    using assms(1,2,3) by (simp add: inv_registry_def js_simps)
qed

lemma market_inv_drop_market: "market_inv w \<Longrightarrow> market_inv (drop_market m w)"
proof -
  assume inv: "market_inv w"
  note f = drop_market_fields [of m w]
  have "inv_registry (drop_market m w)"
    by (rule registry_delete [of w _ m]) (use inv in \<open>simp_all add: f market_inv_def\<close>)
  moreover have "inv_served (drop_market m w)"
    using inv unfolding market_inv_def inv_served_def reconnect_pending_def f by (cases "subs w") simp_all
  moreover have "inv_sockets (drop_market m w)" "inv_timers (drop_market m w)"
    using inv inv_sockets_cong [of "drop_market m w" w] inv_timers_cong [of "drop_market m w" w]
    by (simp_all add: market_inv_def f)
  ultimately show ?thesis by (simp add: market_inv_def)
qed

text \<open>Arming and disarming the deferred close.\<close>

definition arm_close :: "world \<Rightarrow> world" where
  "arm_close w =
     (let w1 = clear_timeout (closeTimer w) w
      in (snd (set_timeout CloseTimer (Fin 0) w1))\<lparr>closeTimer := Some (nextTimer w1)\<rparr>)"

lemma unsubscribe_alt:
  "unsubscribe m h w =
     (case map_of (subs w) m of
        None \<Rightarrow> w
      | Some sub \<Rightarrow>
          if set_remove h (handlers sub) \<noteq> []
          then w\<lparr>subs := map_set m (sub\<lparr>handlers := set_remove h (handlers sub)\<rparr>) (subs w)\<rparr>
          else if subs (drop_market m w) \<noteq> [] then drop_market m w else arm_close (drop_market m w))"
proof (cases "map_of (subs w) m")
  case (Some sub)
  have "map_delete m (map_set m v (subs w)) = map_delete m (subs w)" for v
    by (rule delete_update_same)
  then show ?thesis
    using Some by (simp add: unsubscribe_def drop_market_def arm_close_def Let_def set_timeout_def frames)
qed (simp add: unsubscribe_def)

lemma inv_timers_set_timeout:
  assumes "inv_timers w"
  shows "inv_timers (snd (set_timeout CloseTimer d w))"
proof (rule inv_timersI)
  show "i < nextTimer (snd (set_timeout CloseTimer d w))"
    if "map_of (timers (snd (set_timeout CloseTimer d w))) i = Some td" for i td
    using that inv_timersD(2) [OF assms, of i td]
    by (auto simp: set_timeout_map [OF assms] set_timeout_frame split: if_splits)
  show "k \<noteq> [] \<and> reconnectTimer (snd (set_timeout CloseTimer d w)) = Some i
      \<and> ws (snd (set_timeout CloseTimer d w)) = None
      \<and> (\<exists>n. e = Fin (of_int n) \<and> 100 \<le> n \<and> n \<le> 22500)"
    if "map_of (timers (snd (set_timeout CloseTimer d w))) i = Some (ReconnectTimer k, e)" for i k e
    using that inv_timersD(3) [OF assms, of i k e]
    by (simp add: set_timeout_map [OF assms] set_timeout_frame split: if_splits)
qed (use inv_timersD(4) [OF assms] in \<open>simp_all add: set_timeout_distinct [OF assms] set_timeout_frame\<close>)

lemma inv_timers_fewer:
  assumes "inv_timers w" "distinct (map_keys (timers w'))" "map_of (timers w') \<subseteq>\<^sub>m map_of (timers w)"
    "nextTimer w' = nextTimer w" "reconnectTimer w' = reconnectTimer w" "ws w' = ws w \<or> ws w' = None"
    "lastConnectedMarket w' = lastConnectedMarket w"
  shows "inv_timers w'"
proof (rule inv_timersI)
  have sub: "map_of (timers w) i = Some td" if "map_of (timers w') i = Some td" for i td
    using that assms(3) by (metis domI map_le_def)
  show "i < nextTimer w'" if "map_of (timers w') i = Some td" for i td
    using inv_timersD(2) [OF assms(1) sub [OF that]] by (simp add: assms(4))
  show "k \<noteq> [] \<and> reconnectTimer w' = Some i \<and> ws w' = None
      \<and> (\<exists>n. d = Fin (of_int n) \<and> 100 \<le> n \<and> n \<le> 22500)"
    if "map_of (timers w') i = Some (ReconnectTimer k, d)" for i k d
    using inv_timersD(3) [OF assms(1) sub [OF that]] assms(5,6) by auto
qed (use assms inv_timersD(4) [OF assms(1)] in simp_all)

lemma clear_timeout_le: "map_of (timers (clear_timeout i w)) \<subseteq>\<^sub>m map_of (timers w)"
  by (auto simp: map_le_def map_of_clear_timer)

lemma inv_timers_clear: "inv_timers w \<Longrightarrow> inv_timers (clear_timeout i w)"
  by (rule inv_timers_fewer [of w])
    (simp_all add: clear_timeout_le distinct_clear_timer inv_timersD(1), simp_all add: frames)

lemma market_inv_arm_close:
  assumes "market_inv w" "subs w = []"
  shows "market_inv (arm_close w)"
proof -
  let ?v = "snd (set_timeout CloseTimer (Fin 0) (clear_timeout (closeTimer w) w))"
  have "inv_timers ?v"
    using assms(1) by (simp add: inv_timers_set_timeout inv_timers_clear market_inv_def)
  then have "inv_timers (arm_close w)"
    using inv_timers_cong [of "arm_close w" ?v] by (simp add: arm_close_def Let_def)
  moreover have "inv_registry (arm_close w) = inv_registry w" "inv_sockets (arm_close w) = inv_sockets w"
    by (rule inv_congs; simp add: arm_close_def Let_def frames)+
  ultimately show ?thesis
    using assms by (simp add: market_inv_def inv_served_def arm_close_def Let_def frames)
qed

lemma market_inv_unsubscribe:
  assumes "market_inv w"
  shows "market_inv (unsubscribe m h w)"
proof (cases "map_of (subs w) m")
  case (Some sub)
  let ?hs = "set_remove h (handlers sub)"
  let ?w = "w\<lparr>subs := map_set m (sub\<lparr>handlers := ?hs\<rparr>) (subs w)\<rparr>"
  have "m \<noteq> []"
    using assms Some unfolding market_inv_def inv_registry_def sub_view_def by fastforce
  have "inv_registry ?w" if "?hs \<noteq> []"
    by (rule registry_insert [where w = w and m = m and sub' = "sub\<lparr>handlers := ?hs\<rparr>"])
      (use \<open>m \<noteq> []\<close> assms that registry_subscribed [of w m sub] Some in \<open>simp_all add: market_inv_def\<close>)
  moreover have "subs w \<noteq> []" using Some by auto
  ultimately have "market_inv ?w" if "?hs \<noteq> []"
    using that assms inv_sockets_cong [of ?w w] inv_timers_cong [of ?w w]
    by (simp add: market_inv_def inv_served_def reconnect_pending_def)
  then show ?thesis
    using Some market_inv_drop_market [OF assms, of m] market_inv_arm_close
    by (simp add: unsubscribe_alt)
qed (simp add: unsubscribe_alt assms)

subsection \<open>The deferred close, recovery and teardown\<close>

lemma no_reconnect_left:
  assumes "inv_timers w" "map_of (timers w') \<subseteq>\<^sub>m map_of (timers (clear_timeout (reconnectTimer w) w))"
    "distinct (map_keys (timers w'))" "nextTimer w' = nextTimer w" "lastConnectedMarket w' \<noteq> Some []"
  shows "inv_timers w'"
proof (rule inv_timersI)
  have sub: "reconnectTimer w \<noteq> Some i \<and> map_of (timers w) i = Some td"
    if "map_of (timers w') i = Some td" for i td
  proof -
    have "map_of (timers (clear_timeout (reconnectTimer w) w)) i = Some td"
      using that assms(2) by (metis domI map_le_def)
    then show ?thesis by (simp add: map_of_clear_timer split: if_splits)
  qed
  show "i < nextTimer w'" if "map_of (timers w') i = Some td" for i td
    using inv_timersD(2) [OF assms(1)] sub [OF that] assms(4) by simp
  show "k \<noteq> [] \<and> reconnectTimer w' = Some i \<and> ws w' = None
      \<and> (\<exists>n. d = Fin (of_int n) \<and> 100 \<le> n \<and> n \<le> 22500)"
    if "map_of (timers w') i = Some (ReconnectTimer k, d)" for i k d
    using inv_timersD(3) [OF assms(1)] sub [OF that] by blast
qed (use assms in simp_all)

lemma inv_sockets_dropped:
  assumes "inv_sockets w" "ws w' = None"
    "\<And>k. is_live (ready_of w' k) \<Longrightarrow> is_live (ready_of w k) \<and> ws w \<noteq> Some k"
  shows "inv_sockets w'"
proof -
  have "\<not> is_live (ready_of w' k)" for k
    using assms(1,3) unfolding inv_sockets_def by blast
  then show ?thesis by (simp add: inv_sockets_def assms(2))
qed

lemma close_dropped_live:
  assumes "ready w1 = ready w" "is_live (ready_of (close_socket s w1) k)"
  shows "is_live (ready_of w k) \<and> k \<noteq> s"
  using assms ready_of_cong [OF assms(1)]
  by (auto simp: ready_of_close_socket is_live_def split: if_splits)

lemma fire_close_fields:
  assumes "subs w = []"
  shows "subs (fire_close w) = []" "serverSubs (fire_close w) = serverSubs w"
    "lastSeq (fire_close w) = lastSeq w" "ws (fire_close w) = None"
    "nextTimer (fire_close w) = nextTimer w" "lastConnectedMarket (fire_close w) = lastConnectedMarket w"
    "timers (fire_close w) = timers (clear_timeout (reconnectTimer w) w)"
  using assms by (simp_all add: fire_close_def Let_def frames split: option.splits)

lemma fire_close_live:
  assumes "subs w = []" "is_live (ready_of (fire_close w) k)"
  shows "is_live (ready_of w k) \<and> ws w \<noteq> Some k"
proof (cases "ws w")
  case None
  have r: "ready (fire_close w) = ready w"
    using None assms(1) by (simp add: fire_close_def Let_def frames)
  show ?thesis using None assms(2) ready_of_cong [OF r] by simp
next
  case (Some s)
  let ?w1 = "clear_timeout (reconnectTimer w) (w\<lparr>closeTimer := None\<rparr>)"
  let ?w3 = "?w1\<lparr>intentionalCloseSocket := Some s, ws := None\<rparr>"
  have r: "ready (fire_close w) = ready (close_socket s ?w3)"
    using Some assms(1) by (simp add: fire_close_def Let_def frames)
  have live: "is_live (ready_of (close_socket s ?w3) k)"
    using assms(2) unfolding ready_of_cong [OF r] .
  have "ready ?w3 = ready w" by (simp add: frames)
  from close_dropped_live [OF this live] Some show ?thesis by auto
qed

lemma market_inv_fire_close:
  assumes "inv_registry w" "inv_sockets w" "inv_timers w" "subs w = [] \<or> inv_served w"
  shows "market_inv (fire_close w)"
proof (cases "subs w = []")
  case True
  note f = fire_close_fields [OF True]
  have "inv_timers (fire_close w)"
    by (rule no_reconnect_left [OF assms(3)])
      (use inv_timersD(1,4) [OF assms(3)] in \<open>simp_all only: f map_le_refl distinct_clear_timer not_False_eq_True\<close>)
  then show ?thesis
    using inv_sockets_dropped [OF assms(2) f(4)] fire_close_live [OF True]
      inv_registry_cong [of "fire_close w" w] assms(1) f True
    by (simp add: market_inv_def inv_served_def)
next
  case False
  then have "market_inv w" using assms by (simp add: market_inv_def)
  moreover have "fire_close w = w\<lparr>closeTimer := None\<rparr>" using False by (simp add: fire_close_def)
  ultimately show ?thesis using market_inv_cong [of "fire_close w" w] by simp
qed

lemma market_inv_fire_timer:
  assumes inv: "market_inv w"
  shows "market_inv (fire_timer i w)"
proof (cases "map_of (timers w) i")
  case (Some td)
  obtain t d where td: "td = (t, d)" by (cases td)
  let ?w = "w\<lparr>timers := map_delete i (timers w)\<rparr>"
  have tw: "timers ?w = timers (clear_timeout (Some i) w)" by (simp add: frames)
  have parts: "inv_registry ?w" "inv_sockets ?w" "inv_timers ?w"
    using inv inv_registry_cong [of ?w w] inv_sockets_cong [of ?w w]
      inv_timers_cong [of ?w "clear_timeout (Some i) w"] inv_timers_clear [of w "Some i"]
    by (simp_all add: market_inv_def frames)
  show ?thesis
  proof (cases t)
    case (ReconnectTimer m)
    then have "m \<noteq> []" using inv Some td inv_timersD(3) [of w i m d] by (simp add: market_inv_def)
    then show ?thesis
      using market_inv_connect [OF parts] Some td ReconnectTimer by (simp add: fire_timer_def)
  next
    case CloseTimer
    have "reconnect_pending ?w" if p: "reconnect_pending w"
    proof -
      obtain j m e where j: "map_of (timers w) j = Some (ReconnectTimer m, e)"
        using p unfolding reconnect_pending_def by blast
      then have "j \<noteq> i" using Some td CloseTimer by auto
      with j have "map_of (timers ?w) j = Some (ReconnectTimer m, e)" by (simp add: js_simps)
      then show ?thesis unfolding reconnect_pending_def by blast
    qed
    then have "inv_served ?w"
      using inv unfolding market_inv_def inv_served_def by auto
    then show ?thesis
      using market_inv_fire_close [OF parts] Some td CloseTimer by (simp add: fire_timer_def)
  qed
qed (simp add: fire_timer_def assms)

lemma market_inv_justReconnected [simp]: "market_inv (w\<lparr>justReconnected := b\<rparr>) = market_inv w"
  by (rule market_inv_cong) simp_all

lemma market_inv_hiddenSince [simp]: "market_inv (w\<lparr>hiddenSince := b\<rparr>) = market_inv w"
  by (rule market_inv_cong) simp_all

lemma market_inv_handler_sets [simp]:
  "market_inv (w\<lparr>statusHandlers := a\<rparr>) = market_inv w" "market_inv (w\<lparr>gridHandlers := a\<rparr>) = market_inv w"
  by (rule market_inv_cong; simp)+

text \<open>
  \<open>recover\<close> forgets the pending reconnect before it connects, so the invariant holds again only
  once \<open>connect\<close> has run: it needs a market id, which a non-empty registry provides.
\<close>

lemma recover_target:
  assumes "market_inv w" "subs w \<noteq> []"
  shows "\<exists>m. or_else (lastConnectedMarket w) (js_first (map_keys (subs w))) = Some m \<and> m \<noteq> []"
proof (cases "lastConnectedMarket w")
  case None
  obtain e es where e: "subs w = e # es" using assms(2) by (cases "subs w") auto
  then have "sub_view w (fst e) = Some (handlers (snd e), wsSubscribed (snd e))"
    by (cases e) (simp add: sub_view_def)
  then have "fst e \<noteq> []"
    using assms(1) unfolding market_inv_def inv_registry_def by blast
  then show ?thesis using None e by (simp add: or_else_def js_first_def map_keys_def)
next
  case (Some m)
  then show ?thesis
    using assms(1) inv_timersD(4) [of w] by (auto simp: or_else_def market_inv_def)
qed

definition recover_prep :: "world \<Rightarrow> world" where
  "recover_prep w =
     (case reconnectTimer w of
        None \<Rightarrow> w\<lparr>retries := 0\<rparr>
      | Some i \<Rightarrow> (clear_timeout (Some i) (w\<lparr>retries := 0\<rparr>))\<lparr>reconnectTimer := None\<rparr>)"

lemma recover_prep_fields:
  "subs (recover_prep w) = subs w" "serverSubs (recover_prep w) = serverSubs w"
  "lastSeq (recover_prep w) = lastSeq w" "ws (recover_prep w) = ws w" "ready (recover_prep w) = ready w"
  "intentionalCloseSocket (recover_prep w) = intentionalCloseSocket w"
  "nextTimer (recover_prep w) = nextTimer w"
  "lastConnectedMarket (recover_prep w) = lastConnectedMarket w"
  "timers (recover_prep w) = timers (clear_timeout (reconnectTimer w) w)"
  by (simp_all add: recover_prep_def frames split: option.splits)

lemma recover_alt:
  assumes "subs w \<noteq> []" "\<not> socket_healthy w"
    "or_else (lastConnectedMarket w) (js_first (map_keys (subs w))) = Some m" "m \<noteq> []"
  shows "recover w = connect m ((recover_prep w)\<lparr>justReconnected := True\<rparr>)"
  using assms by (simp add: recover_def Let_def recover_prep_def frames split: option.splits)

lemma market_inv_recover:
  assumes inv: "market_inv w"
  shows "market_inv (recover w)"
proof (cases "subs w \<noteq> [] \<and> \<not> socket_healthy w")
  case True
  obtain m where m: "or_else (lastConnectedMarket w) (js_first (map_keys (subs w))) = Some m" "m \<noteq> []"
    using recover_target [OF inv] True by blast
  let ?w = "(recover_prep w)\<lparr>justReconnected := True\<rparr>"
  have t: "inv_timers w" and lc: "lastConnectedMarket w \<noteq> Some []"
    using inv inv_timersD(4) [of w] by (simp_all add: market_inv_def)
  have "inv_timers ?w"
    by (rule no_reconnect_left [OF t])
      (use inv_timersD(1) [OF t] lc in \<open>simp_all add: recover_prep_fields(7,8,9) distinct_clear_timer\<close>)
  moreover have "inv_registry ?w" "inv_sockets ?w"
    using inv inv_registry_cong [of ?w w] inv_sockets_cong [of ?w w]
    by (simp_all add: market_inv_def recover_prep_fields)
  ultimately show ?thesis
    using market_inv_connect [of ?w m] recover_alt [OF _ _ m] True m(2) by simp
qed (use inv in \<open>auto simp: recover_def\<close>)

lemma market_inv_onVisible: "market_inv w \<Longrightarrow> market_inv (onVisible t w)"
  by (simp add: onVisible_def Let_def market_inv_recover market_inv_fold_resync)

lemma market_inv_onOnline: "market_inv w \<Longrightarrow> market_inv (onOnline w)"
  by (simp add: onOnline_def handleReconnect_def market_inv_recover)

lemma teardown_fields:
  assumes "moduleConn w"
  shows "subs (teardownSocket x w) = []" "serverSubs (teardownSocket x w) = []"
    "lastSeq (teardownSocket x w) = []" "ws (teardownSocket x w) = None"
    "nextTimer (teardownSocket x w) = nextTimer w" "lastConnectedMarket (teardownSocket x w) = None"
    "everConnected (teardownSocket x w) = False" "declaredGrid (teardownSocket x w) = []"
    "timers (teardownSocket x w) =
       timers (clear_timeout (reconnectTimer w) (clear_timeout (closeTimer w) w))"
  using assms by (simp_all add: teardownSocket_def Let_def frames split: option.splits)

lemma teardown_live:
  assumes "moduleConn w" "is_live (ready_of (teardownSocket x w) k)"
  shows "is_live (ready_of w k) \<and> ws w \<noteq> Some k"
proof (cases "ws w")
  case None
  have r: "ready (teardownSocket x w) = ready w"
    using None assms(1) by (simp add: teardownSocket_def Let_def frames)
  show ?thesis using None assms(2) ready_of_cong [OF r] by simp
next
  case (Some s)
  let ?w = "w\<lparr>ws := None, intentionalCloseSocket := Some s\<rparr>"
  have cs: "ready (close_socket s v) = ready (close_socket s ?w)" if "ready v = ready w" for v
    using that by (simp add: close_socket_def frames set_ready_def ready_of_def)
  have r: "ready (teardownSocket x w) = ready (close_socket s ?w)"
    using Some assms(1) by (auto simp: teardownSocket_def Let_def frames intro!: cs)
  have live: "is_live (ready_of (close_socket s ?w) k)"
    using assms(2) unfolding ready_of_cong [OF r] .
  have "ready ?w = ready w" by simp
  from close_dropped_live [OF this live] Some show ?thesis by auto
qed

lemma teardown_timers:
  assumes "inv_timers w" "moduleConn w"
  shows "inv_timers (teardownSocket x w)"
proof -
  note f = teardown_fields [OF assms(2), of x]
  let ?v = "clear_timeout (closeTimer w) w"
  have v: "inv_timers ?v" by (rule inv_timers_clear [OF assms(1)])
  have t: "timers (teardownSocket x w) = timers (clear_timeout (reconnectTimer ?v) ?v)"
    by (simp only: f clear_timeout_frame(7))
  show ?thesis
    by (rule no_reconnect_left [OF v])
      (use inv_timersD(1) [OF v] in \<open>simp_all only: t f map_le_refl distinct_clear_timer
        clear_timeout_frame(6) option.distinct not_False_eq_True\<close>)
qed

lemma market_inv_teardown: "market_inv w \<Longrightarrow> market_inv (teardownSocket x w)"
proof (cases "moduleConn w")
  case True
  assume "market_inv w"
  then have s: "inv_sockets w" and t: "inv_timers w" by (simp_all add: market_inv_def)
  note f = teardown_fields [OF True, of x]
  have "inv_registry (teardownSocket x w)" by (simp add: inv_registry_def f sub_view_def)
  then show ?thesis
    using inv_sockets_dropped [OF s f(4)] teardown_live [OF True] teardown_timers [OF t True] f(1)
    by (simp add: market_inv_def inv_served_def)
qed (simp add: teardownSocket_def)

subsection \<open>The invariant holds in every reachable state\<close>

lemma market_inv_step:
  assumes "market_inv w"
  shows "market_inv (market_step e w)"
  using assms
  by (cases e)
    (simp_all add: market_inv_subscribe market_inv_unsubscribe subscribeStatus_def unsubscribeStatus_def
      subscribeGrid_def unsubscribeGrid_def market_inv_sendGrid market_inv_onopen market_inv_opened
      market_inv_onmessage market_inv_onclose market_inv_onerror market_inv_closing market_inv_fire_timer
      market_inv_wsSubscribe_body onHidden_def market_inv_onVisible market_inv_onOnline
      market_inv_teardown)

interpretation ms: invariant_system getConnection market_step market_inv
  by unfold_locales (simp_all add: market_inv_init market_inv_step)

end
