(* ===== verification/Market_Socket_Props.thy ===== *)
theory Market_Socket_Props
  imports Market_Socket_Inv
begin

text \<open>
  The properties of the shared market connection: one live socket, subscriptions that are always
  served, what an opened socket replays and announces, gap detection and the beacon.
\<close>

subsection \<open>What an opened socket sends and announces\<close>

definition new_outs :: "world \<Rightarrow> world \<Rightarrow> ws_out list" where
  "new_outs w w' = drop (length (outs w)) (outs w')"

definition handlers_of :: "world \<Rightarrow> string \<Rightarrow> nat list" where
  "handlers_of w m = (case map_of (subs w) m of None \<Rightarrow> [] | Some sub \<Rightarrow> handlers sub)"

lemma outs_deliver:
  "outs (deliverToMarket m d w) = outs w @ map (\<lambda>h. Deliver h d) (handlers_of w m)"
  by (simp add: deliverToMarket_def handlers_of_def frames split: option.splits)

lemma handlers_of_deliver [simp]: "handlers_of (deliverToMarket m d w) = handlers_of w"
proof -
  have "handlers_of v k = (case sub_view v k of None \<Rightarrow> [] | Some (hs, b) \<Rightarrow> hs)" for v k
    by (simp add: handlers_of_def sub_view_def split: option.splits)
  then show ?thesis by (simp add: fun_eq_iff)
qed

lemma handlers_of_cong: "subs w' = subs w \<Longrightarrow> handlers_of w' = handlers_of w"
  by (rule ext) (simp add: handlers_of_def)

lemma outs_resyncs:
  "outs (fold (\<lambda>m. emitResync m x) ms w) =
     outs w @ concat (map (\<lambda>m. map (\<lambda>h. Deliver h (Resync m x)) (handlers_of w m)) ms)"
  by (induction ms arbitrary: w) (simp_all add: emitResync_def outs_deliver)

lemma outs_open_pendings:
  "outs (fold (open_pending s sent) es w) =
     outs w @ map (\<lambda>e. Send s (Subscribe (fst e)))
       (filter (\<lambda>e. \<not> wsSubscribed (snd e) \<and> fst e \<notin> set sent) es)"
  by (induction es arbitrary: w) (simp_all add: open_pending_def frames)

lemma handlers_of_open_pending:
  assumes "map_of (subs w) (fst e) = Some (snd e)"
  shows "handlers_of (open_pending s sent e w) = handlers_of w"
  using assms by (auto simp: fun_eq_iff handlers_of_def open_pending_def frames js_simps)

lemma keys_open_pending:
  assumes "map_of (subs w) (fst e) = Some (snd e)"
  shows "map_keys (subs (open_pending s sent e w)) = map_keys (subs w)"
  using assms by (simp add: open_pending_def frames map_keys_set_present map_has_def)

lemma fold_open_pending_views:
  assumes "distinct (map fst es)" "\<And>e. e \<in> set es \<Longrightarrow> map_of (subs w) (fst e) = Some (snd e)"
  shows "handlers_of (fold (open_pending s sent) es w) = handlers_of w"
    and "map_keys (subs (fold (open_pending s sent) es w)) = map_keys (subs w)"
proof -
  have "handlers_of (fold (open_pending s sent) es w) = handlers_of w
      \<and> map_keys (subs (fold (open_pending s sent) es w)) = map_keys (subs w)"
    using assms
  proof (induction es arbitrary: w)
    case (Cons e es)
    have "map_of (subs (open_pending s sent e w)) (fst e') = Some (snd e')" if "e' \<in> set es" for e'
    proof -
      have "fst e \<notin> fst ` set es" using Cons.prems(1) by simp
      then have "fst e' \<noteq> fst e" using that by (metis image_eqI)
      then show ?thesis using Cons.prems(2) that by (simp add: subs_open_pending_other)
    qed
    then show ?case
      using Cons.IH [of "open_pending s sent e w"] Cons.prems
        handlers_of_open_pending [of w e] keys_open_pending [of w e] by simp
  qed simp
  then show "handlers_of (fold (open_pending s sent) es w) = handlers_of w"
    and "map_keys (subs (fold (open_pending s sent) es w)) = map_keys (subs w)" by blast+
qed

lemma everConnected_open_pendings [simp]:
  "everConnected (fold (open_pending s sent) es w) = everConnected w"
  by (induction es arbitrary: w) (simp_all add: open_pending_def frames)

text \<open>\<open>onopen\<close> in two halves: the replay of what was on the wire, and the rest.\<close>

definition open_replay :: "nat \<Rightarrow> world \<Rightarrow> world" where
  "open_replay s w =
     (let w1 = setStatus Connected (w\<lparr>retries := 0\<rparr>);
          w2 = emit (map (\<lambda>m. Send s (Subscribe m)) (serverSubs w1)) w1;
          w3 = emit (map (\<lambda>m. Send s (Subscribe m)) (serverSubs w2)) w2
      in if declaredGrid w3 \<noteq> [] then emit [Send s (Grid (declaredGrid w3))] w3 else w3)"

definition open_finish :: "nat \<Rightarrow> string list \<Rightarrow> world \<Rightarrow> world" where
  "open_finish s sent w4 =
     (let w5 = fold (open_pending s sent) (subs w4) w4;
          w6 = (if everConnected w5
                then fold (\<lambda>m. emitResync m ''reconnect'') (map_keys (subs w5)) w5 else w5)
      in w6\<lparr>everConnected := True\<rparr>)"

lemma onopen_halves: "onopen s w = open_finish s (serverSubs w) (open_replay s w)"
  by (simp add: onopen_def open_finish_def open_replay_def Let_def frames)

lemma open_replay_fields:
  "subs (open_replay s w) = subs w" "serverSubs (open_replay s w) = serverSubs w"
  "everConnected (open_replay s w) = everConnected w"
  "outs (open_replay s w) = outs w
      @ map (\<lambda>h. Deliver h (Status Connected)) (statusHandlers w)
      @ map (\<lambda>m. Send s (Subscribe m)) (serverSubs w)
      @ map (\<lambda>m. Send s (Subscribe m)) (serverSubs w)
      @ (if declaredGrid w \<noteq> [] then [Send s (Grid (declaredGrid w))] else [])"
  by (simp_all add: open_replay_def Let_def frames)

lemma outs_open_finish:
  assumes "distinct (map fst (subs w))"
  shows "outs (open_finish s sent w) = outs w
      @ map (\<lambda>e. Send s (Subscribe (fst e)))
          (filter (\<lambda>e. \<not> wsSubscribed (snd e) \<and> fst e \<notin> set sent) (subs w))
      @ (if everConnected w
         then concat (map (\<lambda>m. map (\<lambda>h. Deliver h (Resync m ''reconnect'')) (handlers_of w m))
                (map_keys (subs w))) else [])"
proof -
  have e: "map_of (subs w) (fst e) = Some (snd e)" if "e \<in> set (subs w)" for e
    using assms that by (cases e) simp
  show ?thesis
    by (simp add: open_finish_def Let_def outs_resyncs outs_open_pendings
        fold_open_pending_views [OF assms e])
qed

text \<open>Everything \<open>onopen\<close> puts out, in order.\<close>

lemma outs_onopen:
  assumes "market_inv w"
  shows "outs (onopen s w) = outs w
      @ map (\<lambda>h. Deliver h (Status Connected)) (statusHandlers w)
      @ map (\<lambda>m. Send s (Subscribe m)) (serverSubs w)
      @ map (\<lambda>m. Send s (Subscribe m)) (serverSubs w)
      @ (if declaredGrid w \<noteq> [] then [Send s (Grid (declaredGrid w))] else [])
      @ map (\<lambda>e. Send s (Subscribe (fst e)))
          (filter (\<lambda>e. \<not> wsSubscribed (snd e) \<and> fst e \<notin> set (serverSubs w)) (subs w))
      @ (if everConnected w
         then concat (map (\<lambda>m. map (\<lambda>h. Deliver h (Resync m ''reconnect'')) (handlers_of w m))
                (map_keys (subs w))) else [])"
proof -
  have "distinct (map fst (subs (open_replay s w)))"
    using assms by (simp add: market_inv_def inv_registry_def map_keys_def open_replay_fields)
  from outs_open_finish [OF this] show ?thesis
    by (simp add: onopen_halves open_replay_fields handlers_of_cong [OF open_replay_fields(1)])
qed

lemma serverSubs_open_pendings:
  "set (serverSubs (fold (open_pending s sent) es w)) = set (serverSubs w)
     \<union> fst ` {e \<in> set es. \<not> wsSubscribed (snd e) \<and> fst e \<notin> set sent}"
  by (induction es arbitrary: w) (auto simp: open_pending_def frames js_simps)

lemma serverSubs_fold_resync [simp]: "serverSubs (fold (\<lambda>m. emitResync m x) ms w) = serverSubs w"
  by (induction ms arbitrary: w) (simp_all add: frames)

lemma registered_or_pending:
  assumes "market_inv w" "map_has (subs w) m" "m \<notin> set (serverSubs w)"
  shows "\<exists>e \<in> set (subs w). fst e = m \<and> \<not> wsSubscribed (snd e)"
proof -
  obtain sub where sub: "map_of (subs w) m = Some sub"
    using assms(2) by (auto simp: map_has_def)
  then have "\<not> wsSubscribed sub"
    using assms(1,3) registry_subscribed [OF _ sub] by (simp add: market_inv_def)
  then show ?thesis using map_of_SomeD [OF sub] by (intro bexI [of _ "(m, sub)"]) simp_all
qed

lemma onopen_covers:
  assumes "market_inv w" "map_has (subs w) m"
  shows "Send s (Subscribe m) \<in> set (new_outs w (onopen s w))"
    and "m \<in> set (serverSubs (onopen s w))"
proof -
  let ?p = "\<lambda>e. \<not> wsSubscribed (snd e) \<and> fst e \<notin> set (serverSubs w)"
  have "m \<in> set (serverSubs w) \<or> m \<in> fst ` set (filter ?p (subs w))"
    using registered_or_pending [OF assms] by force
  then have "Send s (Subscribe m) \<in> set (map (\<lambda>m. Send s (Subscribe m)) (serverSubs w))
      \<union> set (map (\<lambda>e. Send s (Subscribe (fst e))) (filter ?p (subs w)))"
    unfolding set_map by blast
  then show "Send s (Subscribe m) \<in> set (new_outs w (onopen s w))"
    by (simp only: new_outs_def outs_onopen [OF assms(1)] append_eq_conv_conj drop_append set_append
        diff_self_eq_0 drop0 drop_all order_refl append_Nil) blast
  have "set (serverSubs (onopen s w)) = set (serverSubs w)
     \<union> fst ` {e \<in> set (subs w). \<not> wsSubscribed (snd e) \<and> fst e \<notin> set (serverSubs w)}"
    by (simp add: onopen_halves open_finish_def Let_def serverSubs_open_pendings open_replay_fields)
  then show "m \<in> set (serverSubs (onopen s w))"
    using registered_or_pending [OF assms] by auto
qed

lemma new_outs_set_ready [simp]: "new_outs (set_ready s r w) w' = new_outs w w'"
  by (simp add: new_outs_def frames)

lemma onopen_resyncs:
  assumes "market_inv w" "everConnected w" "h \<in> set (handlers_of w m)"
  shows "Deliver h (Resync m ''reconnect'') \<in> set (new_outs w (onopen s w))"
proof -
  have "m \<in> set (map_keys (subs w))"
    using assms(3)
    by (cases "map_of (subs w) m") (simp_all add: handlers_of_def map_has_keys [symmetric] map_has_def)
  then show ?thesis
    using assms(2,3) by (auto simp: new_outs_def outs_onopen [OF assms(1)])
qed

subsection \<open>Sequence gaps\<close>

text \<open>A server frame of one market that carries a sequence number.\<close>

definition is_market_frame :: "string \<Rightarrow> ws_msg \<Rightarrow> bool" where
  "is_market_frame m d \<longleftrightarrow>
     market_id d = Some m \<and> m \<noteq> [] \<and> mseq d \<noteq> None \<and> mtype d \<noteq> Some ''ping''
     \<and> mtype d \<noteq> Some ''market:prices_batch'' \<and> \<not> is_synthetic (mtype d)"

lemma onmessage_frame:
  assumes "is_market_frame m d" "map_has (subs w) m"
  shows "onmessage s (Some d) w = deliverToMarket m (Data d) (checkForGap m (the (mseq d)) w)"
  using assms by (auto simp: onmessage_def is_market_frame_def)

lemma handlers_of_lastSeq [simp]: "handlers_of (w\<lparr>lastSeq := x\<rparr>) = handlers_of w"
  by (rule handlers_of_cong) simp

lemma checkForGap_baseline:
  assumes "map_of (lastSeq w) m = Some prev"
  shows "map_of (lastSeq (checkForGap m q w)) m = Some (max prev q)"
    and "outs (checkForGap m q w) = outs w
      @ (if q > prev + 1 then map (\<lambda>h. Deliver h (Resync m ''gap'')) (handlers_of w m) else [])"
    and "handlers_of (checkForGap m q w) = handlers_of w"
    and "map_keys (subs (checkForGap m q w)) = map_keys (subs w)"
  using assms by (auto simp: checkForGap_def emitResync_def outs_deliver frames js_simps)

lemma onmessage_gap:
  assumes "is_market_frame m d" "map_has (subs w) m" "map_of (lastSeq w) m = Some prev" "mseq d = Some q"
  shows "map_of (lastSeq (onmessage s (Some d) w)) m = Some (max prev q)"
    and "outs (onmessage s (Some d) w) = outs w
      @ (if q > prev + 1 then map (\<lambda>h. Deliver h (Resync m ''gap'')) (handlers_of w m) else [])
      @ map (\<lambda>h. Deliver h (Data d)) (handlers_of w m)"
    and "handlers_of (onmessage s (Some d) w) = handlers_of w"
    and "map_has (subs (onmessage s (Some d) w)) m"
  using checkForGap_baseline [OF assms(3), of q] assms(2,4)
  by (simp_all add: onmessage_frame [OF assms(1,2)] frames outs_deliver map_has_keys)

lemma outs_frames_extend:
  assumes "\<forall>d \<in> set ds. is_market_frame m d" "map_has (subs w) m" "map_of (lastSeq w) m = Some b"
  shows "\<exists>os. outs (fold (\<lambda>d. onmessage s (Some d)) ds w) = outs w @ os"
  using assms
proof (induction ds arbitrary: w b)
  case (Cons d ds)
  obtain q where q: "mseq d = Some q" using Cons.prems(1) by (auto simp: is_market_frame_def)
  have d: "is_market_frame m d" using Cons.prems(1) by simp
  note g = onmessage_gap [OF d Cons.prems(2,3) q, of s]
  show ?case using Cons.IH [OF _ g(4) g(1)] Cons.prems(1) g(2) by fastforce
qed simp

text \<open>
  A run of frames on which nothing asks for a repair covers every number between the old and the
  new baseline: a frame cannot be lost unnoticed while later ones arrive.
\<close>

lemma frames_cover:
  assumes "\<forall>d \<in> set ds. is_market_frame m d" "map_has (subs w) m" "handlers_of w m \<noteq> []"
    and "map_of (lastSeq w) m = Some b"
    and "\<forall>h. Deliver h (Resync m ''gap'') \<notin> set (drop (length (outs w)) (outs (fold (\<lambda>d. onmessage s (Some d)) ds w)))"
  shows "\<exists>e. map_of (lastSeq (fold (\<lambda>d. onmessage s (Some d)) ds w)) m = Some e \<and> b \<le> e
      \<and> {b<..e} \<subseteq> (\<lambda>d. the (mseq d)) ` set ds
      \<and> (\<exists>os. outs (fold (\<lambda>d. onmessage s (Some d)) ds w) = outs w @ os)"
  using assms
proof (induction ds arbitrary: w b)
  case (Cons d ds)
  obtain q where q: "mseq d = Some q" using Cons.prems(1) by (auto simp: is_market_frame_def)
  have d: "is_market_frame m d" using Cons.prems(1) by simp
  let ?w = "onmessage s (Some d) w"
  note g = onmessage_gap [OF d Cons.prems(2,4) q, of s]
  obtain h where h: "h \<in> set (handlers_of w m)" using Cons.prems(3) by (cases "handlers_of w m") auto
  obtain os where os: "outs (fold (\<lambda>d. onmessage s (Some d)) ds ?w) = outs ?w @ os"
    using outs_frames_extend [OF _ g(4,1)] Cons.prems(1) by fastforce
  have nogap: "\<not> q > b + 1"
    using Cons.prems(5) h os g(2) by (auto split: if_splits)
  have "\<forall>h. Deliver h (Resync m ''gap'') \<notin> set (drop (length (outs ?w)) (outs (fold (\<lambda>d. onmessage s (Some d)) ds ?w)))"
    using Cons.prems(5) os g(2) by simp
  then obtain e where e: "map_of (lastSeq (fold (\<lambda>d. onmessage s (Some d)) ds ?w)) m = Some e"
      "max b q \<le> e" "{max b q<..e} \<subseteq> (\<lambda>d. the (mseq d)) ` set ds"
    using Cons.IH [OF _ g(4) _ g(1)] Cons.prems(1,3) g(3) by fastforce
  have "{b<..e} \<subseteq> insert q {max b q<..e}" using nogap by auto
  then have "{b<..e} \<subseteq> (\<lambda>d. the (mseq d)) ` set (d # ds)" using e(3) q by auto
  moreover have "\<exists>os. outs (fold (\<lambda>d. onmessage s (Some d)) (d # ds) w) = outs w @ os"
    using os g(2) by simp
  ultimately show ?case using e(1,2) by simp
qed simp

subsection \<open>The beacon\<close>

definition behind :: "world \<Rightarrow> string \<times> int \<Rightarrow> bool" where
  "behind w e = (case map_of (lastSeq w) (fst e) of None \<Rightarrow> False | Some ours \<Rightarrow> snd e > ours)"

definition beacon_resyncs :: "world \<Rightarrow> string \<times> int \<Rightarrow> ws_out list" where
  "beacon_resyncs w e =
     (if behind w e then map (\<lambda>h. Deliver h (Resync (fst e) ''beacon'')) (handlers_of w (fst e)) else [])"

lemma reconcile_one_effect:
  "map_of (lastSeq (reconcile_one e w)) =
     (if behind w e then (map_of (lastSeq w))(fst e \<mapsto> snd e) else map_of (lastSeq w))"
  "outs (reconcile_one e w) = outs w @ beacon_resyncs w e"
  "handlers_of (reconcile_one e w) = handlers_of w"
  by (auto simp: reconcile_one_def behind_def beacon_resyncs_def emitResync_def frames outs_deliver
      update_conv' split: option.splits)

lemma beacon_resyncs_cong:
  assumes "map_of (lastSeq w') (fst e) = map_of (lastSeq w) (fst e)" "handlers_of w' = handlers_of w"
  shows "behind w' e = behind w e" "beacon_resyncs w' e = beacon_resyncs w e"
  using assms by (simp_all add: behind_def beacon_resyncs_def)

lemma reconcile_effect:
  assumes "distinct (map fst ss)"
  shows "map_of (lastSeq (reconcileAgainstBeacon ss w)) =
      map_of (lastSeq w) ++ map_of (filter (behind w) ss)
    \<and> outs (reconcileAgainstBeacon ss w) = outs w @ concat (map (beacon_resyncs w) ss)"
  using assms
proof (induction ss arbitrary: w)
  case (Cons e ss)
  let ?v = "reconcile_one e w"
  have other: "fst e' \<noteq> fst e" if "e' \<in> set ss" for e'
    using Cons.prems that by (auto simp: image_iff)
  have c: "behind ?v e' = behind w e'" "beacon_resyncs ?v e' = beacon_resyncs w e'" if "e' \<in> set ss" for e'
    using other [OF that] beacon_resyncs_cong [of ?v e' w]
    by (simp_all add: reconcile_one_effect)
  then have f: "filter (behind ?v) ss = filter (behind w) ss"
      "map (beacon_resyncs ?v) ss = map (beacon_resyncs w) ss"
    by (auto intro: filter_cong)
  have "fst e \<notin> dom (map_of (filter (behind w) ss))"
    using other by (auto simp: dom_map_of_conv_image_fst) (metis fst_conv)
  then have up: "(map_of (lastSeq w))(fst e \<mapsto> snd e) ++ map_of (filter (behind w) ss) =
      map_of (lastSeq w) ++ (map_of (filter (behind w) ss))(fst e \<mapsto> snd e)"
    by (simp add: map_add_upd_left)
  have c: "map_of (filter (behind w) (e # ss)) = (if behind w e
      then (map_of (filter (behind w) ss))(fst e \<mapsto> snd e) else map_of (filter (behind w) ss))"
    by (auto simp: fun_eq_iff)
  have st: "reconcileAgainstBeacon (e # ss) w = reconcileAgainstBeacon ss ?v"
    by (simp add: reconcileAgainstBeacon_def)
  have "map_of (lastSeq (reconcileAgainstBeacon ss ?v)) = map_of (lastSeq ?v) ++ map_of (filter (behind w) ss)"
      "outs (reconcileAgainstBeacon ss ?v) = outs ?v @ concat (map (beacon_resyncs w) ss)"
    using Cons.IH [of ?v] Cons.prems unfolding f by simp_all
  then show ?case
    unfolding st c by (cases "behind w e") (simp_all only: reconcile_one_effect up if_True if_False
        list.map concat.simps append_assoc simp_thms)
qed (simp add: reconcileAgainstBeacon_def)

lemma reconcile_baseline:
  assumes "distinct (map fst ss)" "(m, p) \<in> set ss" "map_of (lastSeq w) m = Some ours"
  shows "map_of (lastSeq (reconcileAgainstBeacon ss w)) m = Some (max ours p)"
proof -
  have "map_of (filter (behind w) ss) m = (if p > ours then Some p else None)"
  proof (cases "p > ours")
    case True
    have "distinct (map fst (filter (behind w) ss))" using assms(1) by (simp add: distinct_map_filter)
    moreover have "(m, p) \<in> set (filter (behind w) ss)" using True assms(2,3) by (simp add: behind_def)
    ultimately show ?thesis using True by simp
  next
    case False
    have "p' = p" if "(m, p') \<in> set ss" for p'
      using assms(1,2) that by (metis map_of_is_SomeI option.inject)
    then have "m \<notin> fst ` set (filter (behind w) ss)"
      using False assms(3) by (auto simp: behind_def)
    then show ?thesis using False by (simp add: map_of_eq_None_iff)
  qed
  then show ?thesis
    using reconcile_effect [OF assms(1), of w] assms(3) by (simp add: map_add_def max_def)
qed

lemma onmessage_ping:
  assumes "mtype d = Some ''ping''" "serverSeq d = Some ss" "distinct (map fst ss)"
  shows "new_outs w (onmessage s (Some d) w) = concat (map (beacon_resyncs w) ss) @ [Send s (Pong (ts d))]"
    and "lastSeq (onmessage s (Some d) w) = lastSeq (reconcileAgainstBeacon ss w)"
  using assms reconcile_effect [OF assms(3), of w]
  by (simp_all add: onmessage_def frames new_outs_def)

subsection \<open>Properties\<close>

abbreviation reached :: "event list \<Rightarrow> world" where
  "reached es \<equiv> fold market_step es getConnection"

lemma live_is_tracked: "market_inv w \<Longrightarrow> is_live (ready_of w s) \<Longrightarrow> ws w = Some s"
  by (simp add: market_inv_def inv_sockets_def)

text \<open>
  C20. One socket per tab: whatever sequence of calls, socket events, timers and browser events
  happened, every live (connecting or open) socket is the one the connection tracks, so there is
  at most one, and the tracked socket has not closed.
\<close>

theorem one_live_socket:
  "{s. is_live (ready_of (reached es) s)} \<subseteq> set_option (ws (reached es))
   \<and> CLOSED \<notin> ready_of (reached es) ` set_option (ws (reached es))"
proof -
  have "market_inv (reached es)" by (rule ms.reachable_inv)
  then have "inv_sockets (reached es)" by (simp add: market_inv_def)
  then have "\<forall>s. is_live (ready_of (reached es) s) \<longrightarrow> ws (reached es) = Some s"
    and "\<forall>s. ws (reached es) = Some s \<longrightarrow> ready_of (reached es) s \<noteq> CLOSED"
    unfolding inv_sockets_def by blast+
  then show ?thesis by (auto simp: image_iff)
qed

text \<open>
  C21. Subscriptions are never abandoned: in every reachable state with a subscribed market and no
  socket, a reconnect is scheduled after between 100 ms and 22.5 s, and when its timer fires a new
  socket is opened and tracked.
\<close>

theorem subscriptions_served:
  assumes "subs (reached es) \<noteq> []" "ws (reached es) = None"
  shows "\<exists>i m n. map_of (timers (reached es)) i = Some (ReconnectTimer m, Fin (of_int n))
      \<and> 100 \<le> n \<and> n \<le> 22500
      \<and> ws (market_step (TimerFires i) (reached es)) = Some (length (ready (reached es)))"
proof -
  have inv: "market_inv (reached es)" by (rule ms.reachable_inv)
  then have "reconnect_pending (reached es)" using assms by (simp add: market_inv_def inv_served_def)
  then obtain i m d where t: "map_of (timers (reached es)) i = Some (ReconnectTimer m, d)"
    unfolding reconnect_pending_def by blast
  then obtain n where n: "d = Fin (of_int n)" "100 \<le> n" "n \<le> 22500"
    using inv_timersD(3) [of "reached es" i m d] inv by (auto simp: market_inv_def)
  have "ws (market_step (TimerFires i) (reached es)) = Some (length (ready (reached es)))"
    using t assms(2) by (simp add: fire_timer_def connect_fields(1))
  with t n show ?thesis by blast
qed

theorem subscriptions_served_witness:
  "\<exists>i m n. map_of (timers (reached [CallSubscribe ''m'' 7, SocketClose 0 0])) i
        = Some (ReconnectTimer m, Fin (of_int n))
      \<and> 100 \<le> n \<and> n \<le> 22500
      \<and> ws (market_step (TimerFires i) (reached [CallSubscribe ''m'' 7, SocketClose 0 0])) = Some 1"
proof -
  have "subs (reached [CallSubscribe ''m'' 7, SocketClose 0 0]) \<noteq> []"
    "ws (reached [CallSubscribe ''m'' 7, SocketClose 0 0]) = None"
    "length (ready (reached [CallSubscribe ''m'' 7, SocketClose 0 0])) = 1"
    by (simp_all add: getConnection_def subscribe_def connect_def onclose_def Let_def step_defs
        ready_of_def map_has_def)
  then show ?thesis using subscriptions_served [of "[CallSubscribe ''m'' 7, SocketClose 0 0]"] by simp
qed

text \<open>
  A socket that opens carries every subscription: for every registered market a subscribe frame
  goes out on the new socket and the market counts as subscribed on the wire, and a declared grid
  is declared again.
\<close>

theorem open_replays_registry:
  assumes "ready_of (reached es) s = CONNECTING"
  shows "(\<forall>m. map_has (subs (reached es)) m \<longrightarrow>
        Send s (Subscribe m) \<in> set (new_outs (reached es) (market_step (SocketOpen s) (reached es)))
        \<and> m \<in> set (serverSubs (market_step (SocketOpen s) (reached es))))
    \<and> (declaredGrid (reached es) \<noteq> [] \<longrightarrow>
        Send s (Grid (declaredGrid (reached es)))
          \<in> set (new_outs (reached es) (market_step (SocketOpen s) (reached es))))"
proof -
  let ?w = "set_ready s OPEN (reached es)"
  have inv: "market_inv ?w" using market_inv_opened [OF ms.reachable_inv assms] .
  have st: "market_step (SocketOpen s) (reached es) = onopen s ?w" using assms by simp
  have g: "declaredGrid (reached es) \<noteq> [] \<Longrightarrow>
      Send s (Grid (declaredGrid (reached es))) \<in> set (new_outs ?w (onopen s ?w))"
    using outs_onopen [OF inv, of s] by (simp add: new_outs_def frames)
  show ?thesis
    unfolding st using onopen_covers [OF inv, of _ s] g by (simp add: frames)
qed

theorem open_replays_registry_witness:
  "Send 0 (Subscribe ''m'') \<in> set (new_outs (reached [CallSubscribe ''m'' 7])
     (market_step (SocketOpen 0) (reached [CallSubscribe ''m'' 7])))"
proof -
  have "ready_of (reached [CallSubscribe ''m'' 7]) 0 = CONNECTING"
    "map_has (subs (reached [CallSubscribe ''m'' 7])) ''m''"
    by code_simp+
  then show ?thesis using open_replays_registry [of "[CallSubscribe ''m'' 7]" 0] by blast
qed

text \<open>
  A reconnect repairs every subscriber: once the tab has been connected, a socket that opens
  again delivers a resync for its market to every registered handler, so a handler cannot keep the
  state from before the drop.
\<close>

theorem reconnect_resyncs_everyone:
  assumes "ready_of (reached es) s = CONNECTING" "everConnected (reached es)"
    "h \<in> set (handlers_of (reached es) m)"
  shows "Deliver h (Resync m ''reconnect'')
      \<in> set (new_outs (reached es) (market_step (SocketOpen s) (reached es)))"
proof -
  let ?w = "set_ready s OPEN (reached es)"
  have inv: "market_inv ?w" using market_inv_opened [OF ms.reachable_inv assms(1)] .
  have "handlers_of ?w = handlers_of (reached es)" by (rule handlers_of_cong) (simp add: frames)
  then show ?thesis
    using onopen_resyncs [OF inv, of h m s] assms by (simp add: frames)
qed

theorem reconnect_resyncs_everyone_witness:
  "Deliver 8 (Resync ''m'' ''reconnect'')
     \<in> set (new_outs (reached [CallSubscribe ''m'' 7, SocketOpen 0, CallUnsubscribe ''m'' 7, TimerFires 0, CallSubscribe ''m'' 8])
       (market_step (SocketOpen 1)
         (reached [CallSubscribe ''m'' 7, SocketOpen 0, CallUnsubscribe ''m'' 7, TimerFires 0, CallSubscribe ''m'' 8])))"
proof -
  let ?es = "[CallSubscribe ''m'' 7, SocketOpen 0, CallUnsubscribe ''m'' 7, TimerFires 0, CallSubscribe ''m'' 8]"
  have "ready_of (reached ?es) 1 = CONNECTING" "everConnected (reached ?es)"
    "8 \<in> set (handlers_of (reached ?es) ''m'')"
    by code_simp+
  then show ?thesis by (rule reconnect_resyncs_everyone)
qed

text \<open>
  C22. Gap detection is exact: a sequenced frame of a subscribed market with baseline \<open>prev\<close> is
  delivered to every handler, is preceded by a resync to each of them exactly when its number
  skips at least one, and moves the baseline to the larger of the two numbers, never backwards.
\<close>

theorem gap_detection_exact:
  assumes "is_market_frame m d" "mseq d = Some q" "map_has (subs w) m" "map_of (lastSeq w) m = Some prev"
  shows "new_outs w (onmessage s (Some d) w) =
      (if q > prev + 1 then map (\<lambda>h. Deliver h (Resync m ''gap'')) (handlers_of w m) else [])
      @ map (\<lambda>h. Deliver h (Data d)) (handlers_of w m)
    \<and> map_of (lastSeq (onmessage s (Some d) w)) m = Some (max prev q)"
  using onmessage_gap [OF assms(1,3,4,2), of s] by (simp add: new_outs_def)

definition sample_frame :: "int \<Rightarrow> ws_msg" where
  "sample_frame q = \<lparr>market_id = Some ''m'', mtype = Some ''market:trade'', mseq = Some q, ts = None,
     serverSeq = None, prices = None, body = JNull\<rparr>"

definition sample_state :: world where
  "sample_state =
     getConnection\<lparr>subs := [(''m'', \<lparr>seq = 0, handlers = [7], wsSubscribed = True\<rparr>)],
       serverSubs := [''m''], ws := Some 0, ready := [OPEN], lastSeq := [(''m'', 4)]\<rparr>"

lemma sample_facts:
  "is_market_frame ''m'' (sample_frame q)" "mseq (sample_frame q) = Some q"
  "map_has (subs sample_state) ''m''" "map_of (lastSeq sample_state) ''m'' = Some 4"
  "handlers_of sample_state ''m'' = [7]"
  by (simp_all add: is_market_frame_def sample_frame_def sample_state_def is_synthetic_def map_has_def
      handlers_of_def WS_STATUS_def WS_RESYNC_def WS_GAP_def)

theorem gap_detection_exact_witness:
  "new_outs sample_state (onmessage 0 (Some (sample_frame 9)) sample_state) =
     [Deliver 7 (Resync ''m'' ''gap''), Deliver 7 (Data (sample_frame 9))]"
  using gap_detection_exact [OF sample_facts(1,2,3,4), of 0 9] by (simp add: sample_facts(5))

text \<open>
  C23. No frame is lost unnoticed while later ones arrive: if a run of sequenced frames of a
  subscribed market triggers no resync, then every sequence number between the old baseline and
  the new one was received.
\<close>

theorem no_silent_loss:
  assumes "\<forall>d \<in> set ds. is_market_frame m d" "map_has (subs w) m" "handlers_of w m \<noteq> []"
    and "map_of (lastSeq w) m = Some b"
    and "\<forall>h. Deliver h (Resync m ''gap'') \<notin> set (new_outs w (fold (\<lambda>d. onmessage s (Some d)) ds w))"
  shows "\<exists>e. map_of (lastSeq (fold (\<lambda>d. onmessage s (Some d)) ds w)) m = Some e
      \<and> {b<..e} \<subseteq> (\<lambda>d. the (mseq d)) ` set ds"
  using frames_cover [OF assms(1-4), of s] assms(5) unfolding new_outs_def by blast

theorem no_silent_loss_witness:
  "\<exists>e. map_of (lastSeq (fold (\<lambda>d. onmessage 0 (Some d)) [sample_frame 5, sample_frame 6] sample_state)) ''m''
        = Some e
      \<and> {4<..e} \<subseteq> (\<lambda>d. the (mseq d)) ` set [sample_frame 5, sample_frame 6]"
proof (rule no_silent_loss)
  show "\<forall>h. Deliver h (Resync ''m'' ''gap'')
      \<notin> set (new_outs sample_state (fold (\<lambda>d. onmessage 0 (Some d)) [sample_frame 5, sample_frame 6] sample_state))"
    by (simp add: new_outs_def sample_frame_def sample_state_def onmessage_def is_synthetic_def map_has_def
        WS_STATUS_def WS_RESYNC_def WS_GAP_def checkForGap_def deliverToMarket_def frames)
qed (simp_all add: sample_facts)

text \<open>
  The heartbeat repairs quiet markets: on a ping that carries the server's positions, exactly
  the markets with a baseline behind the server's get a resync, each to all its handlers; their
  baselines rise to the server's position and none moves backwards; and the ping is answered with
  a pong carrying its timestamp, although it has no market id.
\<close>

theorem beacon_exact:
  assumes "mtype d = Some ''ping''" "serverSeq d = Some ss" "distinct (map fst ss)"
  shows "new_outs w (onmessage s (Some d) w) =
      concat (map (\<lambda>e. if behind w e
                        then map (\<lambda>h. Deliver h (Resync (fst e) ''beacon'')) (handlers_of w (fst e))
                        else []) ss) @ [Send s (Pong (ts d))]
    \<and> (\<forall>m p ours. (m, p) \<in> set ss \<and> map_of (lastSeq w) m = Some ours \<longrightarrow>
        map_of (lastSeq (onmessage s (Some d) w)) m = Some (max ours p))"
  using onmessage_ping [OF assms, where w = w and s = s] reconcile_baseline [OF assms(3), of _ _ w]
  by (simp add: beacon_resyncs_def [abs_def])

theorem beacon_exact_witness:
  "map_of (lastSeq (onmessage 0 (Some ((sample_frame 0)\<lparr>mtype := Some ''ping'', serverSeq := Some [(''m'', 6)]\<rparr>))
     sample_state)) ''m'' = Some 6"
  using beacon_exact [of "(sample_frame 0)\<lparr>mtype := Some ''ping'', serverSeq := Some [(''m'', 6)]\<rparr>"
      "[(''m'', 6)]" sample_state 0] sample_facts(4) by simp

text \<open>
  Losing the tracked socket always schedules a reconnect, also when only a grid is shown, while
  the late close of a socket that was replaced changes nothing but that socket's own state. In
  particular the branch of \<open>onclose\<close> for a close on purpose is never taken: both places that close
  on purpose forget the socket first.
\<close>

theorem close_reconnects_or_is_ignored:
  assumes "ready_of (reached es) s \<noteq> CLOSED" "0 \<le> r" "r < 1"
  shows "(ws (reached es) = Some s \<longrightarrow>
        reconnect_pending (market_step (SocketClose s r) (reached es))
        \<and> everConnected (market_step (SocketClose s r) (reached es)) = everConnected (reached es))
    \<and> (ws (reached es) \<noteq> Some s \<longrightarrow>
        market_step (SocketClose s r) (reached es) = set_ready s CLOSED (reached es))"
proof -
  let ?w = "set_ready s CLOSED (reached es)"
  have inv: "inv_sockets (reached es)" "inv_timers ?w"
    using ms.reachable_inv [of es] registry_timers_closed [of "reached es"] by (simp_all add: market_inv_def)
  have st: "market_step (SocketClose s r) (reached es) = onclose s r ?w" using assms by simp
  have "onclose s r ?w = lost_socket r ?w" if "ws (reached es) = Some s"
    using inv(1) that by (auto simp: onclose_def lost_socket_def Let_def frames set_timeout_def inv_sockets_def)
  moreover have "reconnect_pending (lost_socket r ?w)"
    unfolding reconnect_pending_def
    by (intro exI [of _ "nextTimer ?w"]) (simp add: lost_socket_pending [OF inv(2)])
  ultimately show ?thesis
    unfolding st by (simp add: lost_socket_fields(10) frames onclose_def)
qed

theorem close_reconnects_or_is_ignored_witness:
  "reconnect_pending (market_step (SocketClose 0 (1 / 2)) (reached [CallSendGrid [''a'']]))"
proof -
  have "ready_of (reached [CallSendGrid [''a'']]) 0 \<noteq> CLOSED" "ws (reached [CallSendGrid [''a'']]) = Some 0"
    by code_simp+
  then show ?thesis using close_reconnects_or_is_ignored [of "[CallSendGrid [''a'']]" 0 "1 / 2"] by simp
qed

text \<open>
  A grid can be left without a socket: when the last market subscription goes while a grid is
  still declared and has a handler, the socket is closed, nothing is scheduled to reopen it, and
  neither the tab becoming visible nor the network coming back does.
\<close>

theorem grid_left_dead:
  "\<exists>es. (let w = reached es
     in declaredGrid w \<noteq> [] \<and> gridHandlers w \<noteq> [] \<and> ws w = None \<and> timers w = []
        \<and> ws (market_step Online w) = None \<and> ws (market_step (TabVisible 5) w) = None)"
  by (rule exI [of _ "[CallSubscribeGrid 1, CallSendGrid [''a''], SocketOpen 0, CallSubscribe ''m'' 7,
      CallUnsubscribe ''m'' 7, TimerFires 0]"]) code_simp

end
