(* ===== verification/Market_Grid.thy ===== *)
theory Market_Grid
  imports Market_Socket "HOL-Library.Char_ord" "HOL-Library.List_Lexorder"
begin

text \<open>
  The hook \<open>useMarketGrid\<close> of \<^verbatim>\<open>apps/web/hooks/use-market-socket.tsx\<close>: the key under which a
  set of visible markets is declared, and the effect that declares it. Arrays are sorted by the
  lexicographic order on strings, which is what \<open>Array.prototype.sort\<close> does on the identifiers.
  The hook \<open>useSocketLive\<close> reduces status frames to a boolean.
\<close>

definition dedupe :: "'a list \<Rightarrow> 'a list" where
  "dedupe xs = fold set_add xs []"

definition grid_key :: "string list \<Rightarrow> bool \<Rightarrow> string" where
  "grid_key marketIds enabled =
     (if enabled then js_join ''|'' (sort (dedupe (filter (\<lambda>m. m \<noteq> []) marketIds))) else [])"

definition grid_declaration :: "string \<Rightarrow> string list" where
  "grid_declaration key = (if key = [] then [] else js_split (CHR ''|'') key)"

text \<open>The declaring effect runs when the key changed since the last run.\<close>

definition useMarketGrid :: "string option \<Rightarrow> string list \<Rightarrow> bool \<Rightarrow> world \<Rightarrow> string option \<times> world" where
  "useMarketGrid lastKey marketIds enabled w =
     (let key = grid_key marketIds enabled
      in if lastKey = Some key then (lastKey, w)
         else (Some key, sendGrid (grid_declaration key) w))"

definition useSocketLive :: "bool \<Rightarrow> delivered \<Rightarrow> bool" where
  "useSocketLive live d = (case d of Status st \<Rightarrow> st = Connected | _ \<Rightarrow> False)"

subsection \<open>Lemmas\<close>

lemma dedupe_fold:
  "distinct acc \<Longrightarrow> distinct (fold set_add xs acc) \<and> set (fold set_add xs acc) = set acc \<union> set xs"
  by (induction xs arbitrary: acc) (simp_all add: distinct_set_add js_simps)

lemma dedupe_distinct [simp]: "distinct (dedupe xs)" and dedupe_set [simp]: "set (dedupe xs) = set xs"
  using dedupe_fold [of "[]" xs] by (simp_all add: dedupe_def)

lemma js_join_empty_iff: "js_join [c] xs = [] \<longleftrightarrow> xs = [] \<or> xs = [[]]"
  by (cases "([c], xs)" rule: js_join.cases) auto

lemma grid_declaration_key:
  assumes "\<forall>m \<in> set ms. CHR ''|'' \<notin> set m"
  shows "grid_declaration (grid_key ms True) = sort (dedupe (filter (\<lambda>m. m \<noteq> []) ms))"
proof (cases "filter (\<lambda>m. m \<noteq> []) ms = []")
  case True
  then show ?thesis by (simp add: grid_declaration_def grid_key_def dedupe_def)
next
  case False
  let ?l = "sort (dedupe (filter (\<lambda>m. m \<noteq> []) ms))"
  have set: "set ?l = {m \<in> set ms. m \<noteq> []}" by auto
  obtain m where m: "m \<in> set ms" "m \<noteq> []" using False by (auto simp: filter_empty_conv)
  then have in_l: "m \<in> set ?l" unfolding set by simp
  have ne: "?l \<noteq> []" "?l \<noteq> [[]]"
    using in_l by force (metis in_l m(2) empty_iff list.set(1) set_ConsD)
  then have "js_join ''|'' ?l \<noteq> []" by (simp add: js_join_empty_iff)
  moreover have "js_split (CHR ''|'') (js_join ''|'' ?l) = ?l"
    by (rule split_join [OF ne(1)]) (use assms set in blast)
  ultimately show ?thesis by (simp add: grid_declaration_def grid_key_def)
qed

lemma sorted_distinct_canonical:
  "set xs = set ys \<Longrightarrow> distinct xs \<Longrightarrow> distinct ys \<Longrightarrow> sort xs = sort (ys :: 'a::linorder list)"
  by (simp add: sorted_distinct_set_unique)

subsection \<open>Properties\<close>

text \<open>
  A grid is declared again exactly when the set of visible markets changed: for identifiers
  without a vertical bar, two lists have the same key precisely when they contain the same
  non-empty identifiers, and then the effect leaves the connection alone.
\<close>

theorem grid_redeclared_iff_set_changed:
  assumes "\<forall>m \<in> set ms \<union> set ms'. CHR ''|'' \<notin> set m"
  shows "(grid_key ms True = grid_key ms' True) = (set ms - {[]} = set ms' - {[]})
    \<and> (set ms - {[]} = set ms' - {[]} \<longrightarrow>
        useMarketGrid (Some (grid_key ms True)) ms' True w = (Some (grid_key ms True), w))
    \<and> (set ms - {[]} \<noteq> set ms' - {[]} \<longrightarrow>
        declaredGrid (snd (useMarketGrid (Some (grid_key ms True)) ms' True w))
          = sort (dedupe (filter (\<lambda>m. m \<noteq> []) ms')))"
proof -
  have k: "grid_declaration (grid_key ms True) = sort (dedupe (filter (\<lambda>m. m \<noteq> []) ms))"
    "grid_declaration (grid_key ms' True) = sort (dedupe (filter (\<lambda>m. m \<noteq> []) ms'))"
    using assms by (simp_all add: grid_declaration_key)
  have s: "set (sort (dedupe (filter (\<lambda>m. m \<noteq> []) xs))) = set xs - {[]}" for xs :: "string list"
    by auto
  have iff: "(grid_key ms True = grid_key ms' True) = (set ms - {[]} = set ms' - {[]})"
  proof
    assume "grid_key ms True = grid_key ms' True"
    then show "set ms - {[]} = set ms' - {[]}" using k s by metis
  next
    assume e: "set ms - {[]} = set ms' - {[]}"
    have "sort (dedupe (filter (\<lambda>m. m \<noteq> []) ms)) = sort (dedupe (filter (\<lambda>m. m \<noteq> []) ms'))"
      by (rule sorted_distinct_canonical) (use e in auto)
    then show "grid_key ms True = grid_key ms' True" by (simp add: grid_key_def)
  qed
  then show ?thesis
    using k(2) by (auto simp: useMarketGrid_def Let_def sendGrid_def)
qed

theorem grid_redeclared_iff_set_changed_witness:
  "useMarketGrid (Some (grid_key [''b'', ''a''] True)) [''a'', ''b'', ''a''] True getConnection
     = (Some (grid_key [''b'', ''a''] True), getConnection)"
proof -
  have "\<forall>m \<in> set [''b'', ''a''] \<union> set [''a'', ''b'', ''a'']. CHR ''|'' \<notin> set m" by simp
  from grid_redeclared_iff_set_changed [OF this, of getConnection]
  show ?thesis by auto
qed

end
