(* ===== verification/User_Socket.thy ===== *)
theory User_Socket
  imports Ws_Backoff JS_Value Browser
begin

text \<open>
  \<^verbatim>\<open>apps/web/hooks/use-user-socket.ts\<close>: the private notification socket of one user, shared by
  every component that subscribes.

  The module keeps a map from user id to \<open>SharedConnection\<close>; the operations on different ids do
  not touch each other, so the model follows one id. \<open>user_conn\<close> is the connection object and
  \<open>present\<close> says whether the map holds it; the record \<open>user_world\<close> adds the sockets created so far,
  the ones whose handlers were detached, the pending timers and the outputs. A connection that was
  removed from the map is inert (its socket is detached, its retry cleared, its recovery listeners
  return at once because it has no subscribers), so only the current one is kept.
\<close>

subsection \<open>State\<close>

record user_conn =
  ws :: "nat option"
  status :: ws_status
  subscribers :: "nat list"
  retries :: nat
  retry :: "nat option"
  linger :: "nat option"
  everConnected :: bool
  recoveryBound :: bool

datatype user_timer = RetryTimer | LingerTimer

record user_frame =
  ftype :: "string option"
  fts :: "int option"
  fbody :: jsval

datatype user_data = Frame user_frame | Resync string

datatype user_out =
    NewSocket nat
  | CloseSocket nat
  | SendPong nat "int option"
  | SendData nat jsval
  | OnMessage nat user_data
  | OnStatus nat ws_status

record user_world = user_conn +
  present :: bool
  ready :: "ready_state list"
  detached :: "nat list"
  timers :: "(nat \<times> (user_timer \<times> jsnum)) list"
  nextTimer :: nat
  outs :: "user_out list"

definition LINGER_MS :: int where "LINGER_MS = 2000"

definition createConnection :: "user_world \<Rightarrow> user_world" where
  "createConnection w =
     w\<lparr>ws := None, status := Disconnected, subscribers := [], retries := 0, retry := None,
       linger := None, everConnected := False, recoveryBound := False\<rparr>"

definition initial :: user_world where
  "initial =
     \<lparr>ws = None, status = Disconnected, subscribers = [], retries = 0, retry = None,
      linger = None, everConnected = False, recoveryBound = False,
      present = False, ready = [], detached = [], timers = [], nextTimer = 0, outs = []\<rparr>"

subsection \<open>Operations\<close>

definition put :: "user_out list \<Rightarrow> user_world \<Rightarrow> user_world" where
  "put os w = w\<lparr>outs := outs w @ os\<rparr>"

definition emit :: "user_data \<Rightarrow> user_world \<Rightarrow> user_world" where
  "emit d w = put (map (\<lambda>h. OnMessage h d) (subscribers w)) w"

definition setStatus :: "ws_status \<Rightarrow> user_world \<Rightarrow> user_world" where
  "setStatus st w =
     (if status w = st then w
      else put (map (\<lambda>h. OnStatus h st) (subscribers w)) (w\<lparr>status := st\<rparr>))"

definition detach :: "nat \<Rightarrow> user_world \<Rightarrow> user_world" where
  "detach s w = w\<lparr>detached := set_add s (detached w)\<rparr>"

definition close_ws :: "nat \<Rightarrow> user_world \<Rightarrow> user_world" where
  "close_ws s w = put [CloseSocket s] (w\<lparr>ready := sock_close s (ready w)\<rparr>)"

definition start_timer :: "user_timer \<Rightarrow> jsnum \<Rightarrow> user_world \<Rightarrow> user_world" where
  "start_timer t d w =
     w\<lparr>timers := timers w @ [(nextTimer w, (t, d))], nextTimer := Suc (nextTimer w)\<rparr>"

text \<open>\<open>open\<close>: a fresh socket becomes the tracked one.\<close>

definition open_conn :: "user_world \<Rightarrow> user_world" where
  "open_conn w =
     (let w1 = setStatus Connecting w;
          s = length (ready w1)
      in put [NewSocket s] (w1\<lparr>ready := ready w1 @ [CONNECTING], ws := Some s\<rparr>))"

definition onopen :: "nat \<Rightarrow> user_world \<Rightarrow> user_world" where
  "onopen s w =
     (if ws w \<noteq> Some s then w
      else
        (let w1 = (setStatus Connected w)\<lparr>retries := 0\<rparr>;
             w2 = (if everConnected w1 then emit (Resync ''reconnect'') w1 else w1)
         in w2\<lparr>everConnected := True\<rparr>))"

definition onmessage :: "nat \<Rightarrow> user_frame option \<Rightarrow> user_world \<Rightarrow> user_world" where
  "onmessage s event w =
     (case event of
        None \<Rightarrow> w
      | Some d \<Rightarrow>
          if ftype d = Some ''ping'' then put [SendPong s (fts d)] w else emit (Frame d) w)"

definition onclose :: "nat \<Rightarrow> rat \<Rightarrow> user_world \<Rightarrow> user_world" where
  "onclose s r w =
     (if ws w \<noteq> Some s then w
      else
        (let w1 = setStatus Disconnected (w\<lparr>ws := None\<rparr>)
         in if subscribers w1 = [] then w1
            else
              (let delay = reconnectDelayMs (retries w1) (Fin r);
                   w2 = w1\<lparr>retries := Suc (retries w1)\<rparr>
               in (start_timer RetryTimer delay w2)\<lparr>retry := Some (nextTimer w2)\<rparr>)))"

definition onerror :: "nat \<Rightarrow> user_world \<Rightarrow> user_world" where
  "onerror s w = close_ws s w"

definition fire_retry :: "user_world \<Rightarrow> user_world" where
  "fire_retry w =
     (let w1 = w\<lparr>retry := None\<rparr>
      in if subscribers w1 \<noteq> [] \<and> ws w1 = None then open_conn w1 else w1)"

definition recover :: "bool \<Rightarrow> user_world \<Rightarrow> user_world" where
  "recover force w =
     (if subscribers w = [] then w
      else if \<not> force \<and> ws w = None \<and> retry w = None then w
      else
        (let w1 = (if retry w = None then w
                   else w\<lparr>timers := clear_timer (retry w) (timers w), retry := None\<rparr>);
             w2 = (case ws w1 of None \<Rightarrow> w1 | Some s \<Rightarrow> close_ws s (detach s w1))
         in open_conn (w2\<lparr>ws := None, retries := 0\<rparr>)))"

definition bindRecovery :: "user_world \<Rightarrow> user_world" where
  "bindRecovery w = w\<lparr>recoveryBound := True\<rparr>"

definition acquire :: "nat \<Rightarrow> user_world \<Rightarrow> user_world" where
  "acquire h w =
     (let w1 = (if present w then w else (createConnection w)\<lparr>present := True\<rparr>);
          w2 = (if linger w1 = None then w1
                else w1\<lparr>timers := clear_timer (linger w1) (timers w1), linger := None\<rparr>);
          w3 = put [OnStatus h (status w2)] (w2\<lparr>subscribers := set_add h (subscribers w2)\<rparr>);
          w4 = bindRecovery w3
      in if ws w4 = None \<and> retry w4 = None then open_conn w4 else w4)"

text \<open>The function \<open>acquire\<close> returns.\<close>

definition release :: "nat \<Rightarrow> user_world \<Rightarrow> user_world" where
  "release h w =
     (if \<not> present w then w
      else
        (let w1 = w\<lparr>subscribers := set_remove h (subscribers w)\<rparr>
         in if subscribers w1 \<noteq> [] then w1
            else (start_timer LingerTimer (Fin (of_int LINGER_MS)) w1)\<lparr>linger := Some (nextTimer w1)\<rparr>))"

text \<open>The callback of the linger timer.\<close>

definition fire_linger :: "user_world \<Rightarrow> user_world" where
  "fire_linger w =
     (if \<not> present w \<or> subscribers w \<noteq> [] then w
      else
        (let w1 = w\<lparr>present := False\<rparr>;
             w2 = w1\<lparr>timers := clear_timer (retry w1) (timers w1)\<rparr>;
             s = ws w2;
             w3 = w2\<lparr>ws := None, status := Disconnected\<rparr>
         in case s of None \<Rightarrow> w3 | Some k \<Rightarrow> close_ws k (detach k w3)))"

definition send :: "jsval \<Rightarrow> user_world \<Rightarrow> user_world" where
  "send d w =
     (if \<not> present w then w
      else case ws w of
             None \<Rightarrow> w
           | Some s \<Rightarrow> if sock (ready w) s = OPEN then put [SendData s d] w else w)"

text \<open>What the hook reports.\<close>

definition useUserSocket_status :: "bool \<Rightarrow> string \<Rightarrow> ws_status \<Rightarrow> ws_status" where
  "useUserSocket_status enabled userId st = (if enabled \<and> userId \<noteq> [] then st else Disconnected)"

subsection \<open>Everything that can happen\<close>

datatype user_event =
    Acquire nat
  | Release nat
  | Send jsval
  | SocketOpen nat
  | SocketMessage nat "user_frame option"
  | SocketClosing nat
  | SocketClose nat rat
  | SocketError nat
  | TimerFires nat
  | Online
  | Visible

definition fire_timer :: "nat \<Rightarrow> user_world \<Rightarrow> user_world" where
  "fire_timer i w =
     (case map_of (timers w) i of
        None \<Rightarrow> w
      | Some (t, d) \<Rightarrow>
          (let w1 = w\<lparr>timers := map_delete i (timers w)\<rparr>
           in case t of RetryTimer \<Rightarrow> fire_retry w1 | LingerTimer \<Rightarrow> fire_linger w1))"

text \<open>
  Each run of the hook's effect makes a fresh subscriber and React runs its cleanup once. A
  detached socket has no handlers any more.
\<close>

fun user_step :: "user_event \<Rightarrow> user_world \<Rightarrow> user_world" where
  "user_step (Acquire h) w = (if h \<in> set (subscribers w) then w else acquire h w)"
| "user_step (Release h) w = (if h \<in> set (subscribers w) then release h w else w)"
| "user_step (Send d) w = send d w"
| "user_step (SocketOpen s) w =
     (if sock (ready w) s = CONNECTING
      then (let w1 = w\<lparr>ready := (ready w)[s := OPEN]\<rparr>
            in if s \<in> set (detached w1) then w1 else onopen s w1)
      else w)"
| "user_step (SocketMessage s d) w =
     (if sock (ready w) s = OPEN \<and> s \<notin> set (detached w) then onmessage s d w else w)"
| "user_step (SocketClosing s) w = w\<lparr>ready := sock_close s (ready w)\<rparr>"
| "user_step (SocketClose s r) w =
     (if sock (ready w) s \<noteq> CLOSED \<and> 0 \<le> r \<and> r < 1
      then (let w1 = w\<lparr>ready := (ready w)[s := CLOSED]\<rparr>
            in if s \<in> set (detached w1) then w1 else onclose s r w1)
      else w)"
| "user_step (SocketError s) w =
     (if sock (ready w) s \<noteq> CLOSED \<and> s \<notin> set (detached w) then onerror s w else w)"
| "user_step (TimerFires i) w = fire_timer i w"
| "user_step Online w = (if recoveryBound w then recover True w else w)"
| "user_step Visible w = (if recoveryBound w then recover False w else w)"

subsection \<open>Invariant\<close>

definition uinv_sockets :: "user_world \<Rightarrow> bool" where
  "uinv_sockets w \<longleftrightarrow>
     (\<forall>s. is_live (sock (ready w) s) \<longrightarrow> ws w = Some s)
     \<and> (\<forall>s. ws w = Some s \<longrightarrow> sock (ready w) s \<noteq> CLOSED \<and> s \<notin> set (detached w))
     \<and> (\<forall>s \<in> set (detached w). s < length (ready w))"

definition delay_ok :: "jsnum \<Rightarrow> bool" where
  "delay_ok d \<longleftrightarrow> (\<exists>n. d = Fin (of_int n) \<and> 100 \<le> n \<and> n \<le> 22500)"

definition uinv_timers :: "user_world \<Rightarrow> bool" where
  "uinv_timers w \<longleftrightarrow>
     fresh_timer (timers w) (nextTimer w)
     \<and> (\<forall>i d. map_of (timers w) i = Some (RetryTimer, d) \<longrightarrow> retry w = Some i \<and> ws w = None \<and> delay_ok d \<and> present w)
     \<and> (\<forall>i d. map_of (timers w) i = Some (LingerTimer, d) \<longrightarrow>
          linger w = Some i \<and> d = Fin (of_int LINGER_MS) \<and> present w \<and> subscribers w = [])
     \<and> (\<forall>i. present w \<and> retry w = Some i \<longrightarrow> (\<exists>d. map_of (timers w) i = Some (RetryTimer, d)))
     \<and> (\<forall>i. present w \<and> linger w = Some i \<longrightarrow> (\<exists>d. map_of (timers w) i = Some (LingerTimer, d)))"

definition uinv_served :: "user_world \<Rightarrow> bool" where
  "uinv_served w \<longleftrightarrow>
     distinct (subscribers w)
     \<and> (\<not> present w \<longrightarrow> subscribers w = [] \<and> ws w = None)
     \<and> (present w \<and> subscribers w \<noteq> [] \<longrightarrow> ws w \<noteq> None \<or> retry w \<noteq> None)
     \<and> (present w \<and> subscribers w = [] \<longrightarrow> (\<exists>i d. map_of (timers w) i = Some (LingerTimer, d)))"

definition user_inv :: "user_world \<Rightarrow> bool" where
  "user_inv w \<longleftrightarrow> uinv_sockets w \<and> uinv_timers w \<and> uinv_served w"

subsection \<open>Preservation\<close>

lemma user_put_frame [simp]:
  "ws (put os w) = ws w" "status (put os w) = status w" "subscribers (put os w) = subscribers w"
  "retries (put os w) = retries w" "retry (put os w) = retry w" "linger (put os w) = linger w"
  "everConnected (put os w) = everConnected w" "recoveryBound (put os w) = recoveryBound w"
  "present (put os w) = present w" "ready (put os w) = ready w" "detached (put os w) = detached w"
  "timers (put os w) = timers w" "nextTimer (put os w) = nextTimer w" "outs (put os w) = outs w @ os"
  by (simp_all add: put_def)

lemma user_setStatus_frame [simp]:
  "ws (setStatus st w) = ws w" "status (setStatus st w) = st" "subscribers (setStatus st w) = subscribers w"
  "retries (setStatus st w) = retries w" "retry (setStatus st w) = retry w" "linger (setStatus st w) = linger w"
  "everConnected (setStatus st w) = everConnected w" "recoveryBound (setStatus st w) = recoveryBound w"
  "present (setStatus st w) = present w" "ready (setStatus st w) = ready w"
  "detached (setStatus st w) = detached w" "timers (setStatus st w) = timers w"
  "nextTimer (setStatus st w) = nextTimer w"
  by (simp_all add: setStatus_def)

lemma user_inv_cong:
  assumes "ws w' = ws w" "ready w' = ready w" "detached w' = detached w" "timers w' = timers w"
    "nextTimer w' = nextTimer w" "retry w' = retry w" "linger w' = linger w" "present w' = present w"
    "subscribers w' = subscribers w"
  shows "user_inv w' = user_inv w"
  using assms by (simp add: user_inv_def uinv_sockets_def uinv_timers_def uinv_served_def)

lemma user_inv_put [simp]: "user_inv (put os w) = user_inv w"
  by (rule user_inv_cong) simp_all

lemma user_inv_setStatus [simp]: "user_inv (setStatus st w) = user_inv w"
  by (rule user_inv_cong) simp_all

lemma user_inv_fields [simp]:
  "user_inv (w\<lparr>retries := n\<rparr>) = user_inv w" "user_inv (w\<lparr>everConnected := b\<rparr>) = user_inv w"
  by (rule user_inv_cong; simp)+

lemma user_inv_emit [simp]: "user_inv (emit d w) = user_inv w"
  by (simp add: emit_def)

lemma user_inv_initial: "user_inv initial"
  by (simp add: initial_def user_inv_def uinv_sockets_def uinv_timers_def uinv_served_def sock_def)

text \<open>Opening a socket is allowed whenever none is live and no retry is pending.\<close>

lemma user_inv_open_conn:
  assumes sock: "\<forall>s. \<not> is_live (sock (ready w) s)" "\<forall>s \<in> set (detached w). s < length (ready w)"
    and t: "fresh_timer (timers w) (nextTimer w)" "\<And>i. map_of (timers w) i = None" "retry w = None"
      "linger w = None"
    and p: "present w" "subscribers w \<noteq> []" "distinct (subscribers w)"
  shows "user_inv (open_conn w)"
proof -
  have "uinv_sockets (open_conn w)"
    using sock by (auto simp: uinv_sockets_def open_conn_def Let_def browser_simps)
  moreover have "uinv_timers (open_conn w)"
    using t by (simp add: uinv_timers_def open_conn_def Let_def)
  moreover have "uinv_served (open_conn w)"
    using p by (simp add: uinv_served_def open_conn_def Let_def)
  ultimately show ?thesis by (simp add: user_inv_def)
qed

lemma user_invD:
  assumes "user_inv w"
  shows "is_live (sock (ready w) s) \<Longrightarrow> ws w = Some s"
    and "ws w = Some s \<Longrightarrow> sock (ready w) s \<noteq> CLOSED"
    and "ws w = Some s \<Longrightarrow> s \<notin> set (detached w)"
    and "\<forall>s \<in> set (detached w). s < length (ready w)"
    and "fresh_timer (timers w) (nextTimer w)"
    and "map_of (timers w) i = Some (RetryTimer, d) \<Longrightarrow> retry w = Some i \<and> ws w = None \<and> delay_ok d \<and> present w"
    and "map_of (timers w) i = Some (LingerTimer, d) \<Longrightarrow>
      linger w = Some i \<and> d = Fin (of_int LINGER_MS) \<and> present w \<and> subscribers w = []"
    and "present w \<Longrightarrow> retry w = Some i \<Longrightarrow> \<exists>d. map_of (timers w) i = Some (RetryTimer, d)"
    and "distinct (subscribers w)"
    and "\<not> present w \<Longrightarrow> subscribers w = [] \<and> ws w = None"
    and "subscribers w \<noteq> [] \<Longrightarrow> present w \<and> (ws w \<noteq> None \<or> retry w \<noteq> None)"
    and "present w \<Longrightarrow> subscribers w = [] \<Longrightarrow> \<exists>i d. map_of (timers w) i = Some (LingerTimer, d)"
    and "present w \<Longrightarrow> linger w = Some i \<Longrightarrow> \<exists>d. map_of (timers w) i = Some (LingerTimer, d)"
  using assms unfolding user_inv_def uinv_sockets_def uinv_timers_def uinv_served_def by blast+

lemma no_linger_with_subscribers:
  assumes "user_inv w" "subscribers w \<noteq> []"
  shows "linger w = None"
proof (rule ccontr)
  assume "linger w \<noteq> None"
  then obtain i where i: "linger w = Some i" by blast
  obtain d where "map_of (timers w) i = Some (LingerTimer, d)"
    using user_invD(13) [OF assms(1) _ i] user_invD(11) [OF assms] by blast
  then show False using user_invD(7) [OF assms(1)] assms(2) by blast
qed

text \<open>Changes to the state of one socket.\<close>

lemma user_inv_ready:
  assumes inv: "user_inv w" and len: "length rs = length (ready w)"
    and live: "\<And>k. is_live (sock rs k) \<Longrightarrow> is_live (sock (ready w) k)"
    and tracked: "\<And>k. ws w = Some k \<Longrightarrow> sock rs k \<noteq> CLOSED"
  shows "user_inv (w\<lparr>ready := rs\<rparr>)"
proof -
  have "ws w = Some k" if "is_live (sock rs k)" for k
    using user_invD(1) [OF inv] live [OF that] by blast
  then have "uinv_sockets (w\<lparr>ready := rs\<rparr>)"
    using user_invD(3) [OF inv] user_invD(4) [OF inv] tracked len by (simp add: uinv_sockets_def)
  then show ?thesis
    using inv by (simp add: user_inv_def uinv_timers_def uinv_served_def)
qed

lemma user_inv_opened:
  assumes "user_inv w" "sock (ready w) s = CONNECTING"
  shows "user_inv (w\<lparr>ready := (ready w)[s := OPEN]\<rparr>)"
  by (rule user_inv_ready [OF assms(1)])
    (use assms(2) user_invD(2) [OF assms(1)] in \<open>auto simp: browser_simps split: if_splits\<close>)

lemma user_inv_onopen: "user_inv w \<Longrightarrow> user_inv (onopen s w)"
  by (simp add: onopen_def Let_def)

lemma user_inv_onmessage: "user_inv w \<Longrightarrow> user_inv (onmessage s d w)"
  by (simp add: onmessage_def split: option.splits)

lemma user_delay_ok_reconnect: "0 \<le> r \<Longrightarrow> r < 1 \<Longrightarrow> delay_ok (reconnectDelayMs n (Fin r))"
  using bo.delay_range [of r n] by (simp add: delay_ok_def)

text \<open>The tracked socket closed: its state is set before the handler runs.\<close>

lemma user_inv_onclose:
  assumes inv: "user_inv w" and s: "sock (ready w) s \<noteq> CLOSED" and r: "0 \<le> r" "r < 1"
  shows "user_inv (onclose s r (w\<lparr>ready := (ready w)[s := CLOSED]\<rparr>))"
proof (cases "ws w = Some s")
  case True
  let ?w = "w\<lparr>ready := (ready w)[s := CLOSED]\<rparr>"
  have len: "s < length (ready w)" using s by (rule sock_in_range)
  have dead: "\<not> is_live (sock ((ready w)[s := CLOSED]) k)" for k
    using user_invD(1) [OF inv, of k] True len by (auto simp: browser_simps)
  have no_retry: "map_of (timers w) i \<noteq> Some (RetryTimer, d)" for i d
    using user_invD(6) [OF inv, of i d] True by auto
  have p: "present w" using user_invD(10) [OF inv] True by auto
  have nr: "retry w = None" using user_invD(8) [OF inv p] no_retry by (cases "retry w") auto
  note m = map_of_snoc [OF user_invD(5) [OF inv]]
  show ?thesis
  proof (cases "subscribers w = []")
    case sub: True
    have "onclose s r ?w = setStatus Disconnected (?w\<lparr>ws := None\<rparr>)"
      using True sub by (simp add: onclose_def)
    moreover have "user_inv (?w\<lparr>ws := None\<rparr>)"
      using dead no_retry nr sub p user_invD(4,5) [OF inv] user_invD(7) [OF inv] user_invD(12) [OF inv p sub] user_invD(13) [OF inv p]
      by (simp add: user_inv_def uinv_sockets_def uinv_timers_def uinv_served_def)
    ultimately show ?thesis by simp
  next
    case sub: False
    have no_linger: "map_of (timers w) i \<noteq> Some (LingerTimer, d)" for i d
      using user_invD(7) [OF inv, of i d] sub by auto
    have "uinv_sockets (onclose s r ?w)" "uinv_served (onclose s r ?w)"
      using True sub dead p user_invD(4,9) [OF inv]
      by (simp_all add: onclose_def Let_def start_timer_def uinv_sockets_def uinv_served_def)
    moreover have "uinv_timers (onclose s r ?w)"
      using True sub p no_retry no_linger no_linger_with_subscribers [OF inv sub] user_invD(5) [OF inv] user_delay_ok_reconnect [OF r]
      by (simp add: onclose_def Let_def start_timer_def uinv_timers_def m del: map_of_append)
    ultimately show ?thesis by (simp add: user_inv_def)
  qed
next
  case False
  have "user_inv (w\<lparr>ready := (ready w)[s := CLOSED]\<rparr>)"
    by (rule user_inv_ready [OF inv])
      (use False user_invD(2) [OF inv] in \<open>auto simp: browser_simps split: if_splits\<close>)
  then show ?thesis using False by (simp add: onclose_def)
qed

lemma user_inv_sock_close:
  assumes inv: "user_inv w"
  shows "user_inv (w\<lparr>ready := sock_close s (ready w)\<rparr>)"
  by (rule user_inv_ready [OF inv]) (use user_invD(2) [OF inv] in \<open>auto simp: browser_simps split: if_splits\<close>)

lemma user_inv_close_ws: "user_inv w \<Longrightarrow> user_inv (close_ws s w)"
  by (simp add: close_ws_def user_inv_sock_close)

lemma delete_timer_facts:
  assumes "user_inv w"
  shows "fresh_timer (map_delete i (timers w)) (nextTimer w)"
    and "map_of (map_delete i (timers w)) k = Some (RetryTimer, d) \<Longrightarrow>
      k \<noteq> i \<and> retry w = Some k \<and> ws w = None \<and> delay_ok d \<and> present w"
    and "map_of (map_delete i (timers w)) k = Some (LingerTimer, d) \<Longrightarrow>
      k \<noteq> i \<and> linger w = Some k \<and> d = Fin (of_int LINGER_MS) \<and> present w \<and> subscribers w = []"
  using user_invD(5) [OF assms] user_invD(6,7) [OF assms, of k d]
  by (simp_all add: js_simps split: if_splits)

lemma user_inv_fire_retry:
  assumes inv: "user_inv w" and i: "map_of (timers w) i = Some (RetryTimer, d)"
  shows "user_inv (fire_retry (w\<lparr>timers := map_delete i (timers w)\<rparr>))"
proof -
  let ?w = "w\<lparr>timers := map_delete i (timers w), retry := None\<rparr>"
  have r: "retry w = Some i" "ws w = None" using user_invD(6) [OF inv i] by simp_all
  note df = delete_timer_facts [OF inv, of i]
  have no_retry: "map_of (map_delete i (timers w)) k \<noteq> Some (RetryTimer, e)" for k e
    using df(2) [of k e] r(1) by auto
  have keep: "\<exists>e. map_of (map_delete i (timers w)) k = Some (LingerTimer, e)"
    if pr: "present w" and k: "linger w = Some k" for k
  proof -
    obtain e where e: "map_of (timers w) k = Some (LingerTimer, e)" using user_invD(13) [OF inv pr k] by blast
    then have "k \<noteq> i" using i by auto
    with e show ?thesis by (simp add: js_simps)
  qed
  have t: "uinv_timers ?w"
    using df(1,3) no_retry keep by (simp add: uinv_timers_def)
  have dead: "\<forall>s. \<not> is_live (sock (ready w) s)" using user_invD(1) [OF inv] r(2) by auto
  show ?thesis
  proof (cases "subscribers w = []")
    case True
    have "\<exists>k e. map_of (map_delete i (timers w)) k = Some (LingerTimer, e)" if pr: "present w"
      using user_invD(12) [OF inv pr True] user_invD(7) [OF inv] keep [OF pr] by blast
    then have "uinv_served ?w" using True r(2) by (simp add: uinv_served_def)
    moreover have "uinv_sockets ?w" using inv by (simp add: user_inv_def uinv_sockets_def)
    ultimately have "user_inv ?w" using t by (simp add: user_inv_def)
    then show ?thesis using True by (simp add: fire_retry_def)
  next
    case False
    have none: "map_of (map_delete i (timers w)) k = None" for k
    proof (rule ccontr)
      assume "map_of (map_delete i (timers w)) k \<noteq> None"
      then obtain t e where "map_of (map_delete i (timers w)) k = Some (t, e)" by auto
      then show False using no_retry [of k e] df(3) [of k e] False by (cases t) auto
    qed
    have "user_inv (open_conn ?w)"
      by (rule user_inv_open_conn)
        (use dead df(1) none False no_linger_with_subscribers [OF inv False] user_invD(4,9) [OF inv] user_invD(11) [OF inv False] in simp_all)
    then show ?thesis using False r(2) by (simp add: fire_retry_def)
  qed
qed

lemma user_inv_fire_linger:
  assumes inv: "user_inv w" and i: "map_of (timers w) i = Some (LingerTimer, d)"
  shows "user_inv (fire_linger (w\<lparr>timers := map_delete i (timers w)\<rparr>))"
proof -
  have l: "linger w = Some i" "present w" "subscribers w = []" using user_invD(7) [OF inv i] by simp_all
  let ?w = "fire_linger (w\<lparr>timers := map_delete i (timers w)\<rparr>)"
  have f: "present ?w = False" "subscribers ?w = []" "ws ?w = None" "nextTimer ?w = nextTimer w"
    "timers ?w = clear_timer (retry w) (map_delete i (timers w))"
    using l by (cases "ws w"; simp add: fire_linger_def Let_def close_ws_def detach_def)+
  note df = delete_timer_facts [OF inv, of i]
  have none: "map_of (timers ?w) k \<noteq> Some (t, e)" for k t e
  proof
    assume "map_of (timers ?w) k = Some (t, e)"
    then have a: "retry w \<noteq> Some k" "map_of (map_delete i (timers w)) k = Some (t, e)"
      unfolding f(5) by (simp_all add: map_of_clear split: if_splits)
    show False
    proof (cases t)
      case RetryTimer
      with a(2) have "retry w = Some k" by (blast dest: df(2))
      with a(1) show False by simp
    next
      case LingerTimer
      with a(2) have "k \<noteq> i" "linger w = Some k" by (blast dest: df(3))+
      with l(1) show False by simp
    qed
  qed
  have "fresh_timer (timers ?w) (nextTimer ?w)" unfolding f(4,5) using df(1) by simp
  then have "uinv_timers ?w" unfolding uinv_timers_def f(1) using none by blast
  moreover have "uinv_served ?w" using f by (simp add: uinv_served_def)
  moreover have "uinv_sockets ?w"
  proof (cases "ws w")
    case None
    then show ?thesis
      using inv l by (simp add: fire_linger_def Let_def user_inv_def uinv_sockets_def)
  next
    case (Some s)
    have "\<not> is_live (sock (sock_close s (ready w)) k)" for k
      using user_invD(1) [OF inv, of k] Some by (auto simp: browser_simps)
    moreover have "s < length (ready w)" using user_invD(2) [OF inv Some] by (rule sock_in_range)
    ultimately show ?thesis
      using l Some user_invD(4) [OF inv]
      by (simp add: fire_linger_def Let_def uinv_sockets_def close_ws_def detach_def js_simps)
  qed
  ultimately show ?thesis by (simp add: user_inv_def)
qed

lemma user_inv_fire_timer: "user_inv w \<Longrightarrow> user_inv (fire_timer i w)"
  by (auto simp: fire_timer_def Let_def user_inv_fire_retry user_inv_fire_linger
      split: option.splits user_timer.splits)

lemma user_inv_send: "user_inv w \<Longrightarrow> user_inv (send d w)"
  by (simp add: send_def split: option.splits)

lemma user_inv_release:
  assumes inv: "user_inv w" and h: "h \<in> set (subscribers w)"
  shows "user_inv (release h w)"
proof -
  have p: "present w" "subscribers w \<noteq> []"
    using user_invD(11) [OF inv] h by (cases "subscribers w"; simp)+
  have no_linger: "map_of (timers w) i \<noteq> Some (LingerTimer, d)" for i d
    using user_invD(7) [OF inv, of i d] p(2) by auto
  note m = map_of_snoc [OF user_invD(5) [OF inv]]
  let ?hs = "set_remove h (subscribers w)"
  have d: "distinct ?hs" using user_invD(9) [OF inv] by (rule distinct_set_remove)
  have "user_inv (w\<lparr>subscribers := ?hs\<rparr>)" if "?hs \<noteq> []"
    using inv that p d no_linger
    by (simp add: user_inv_def uinv_sockets_def uinv_timers_def uinv_served_def)
  moreover have "user_inv (release h w)" if "?hs = []"
  proof -
    have "uinv_sockets (release h w)"
      using inv by (simp add: user_inv_def uinv_sockets_def release_def Let_def start_timer_def)
    moreover have "uinv_timers (release h w)"
    proof -
      have t: "map_of (timers (release h w)) i =
          (if i = nextTimer w then Some (LingerTimer, Fin (of_int LINGER_MS)) else map_of (timers w) i)" for i
        using that p(1) m by (simp add: release_def Let_def start_timer_def del: map_of_append)
      have f: "fresh_timer (timers (release h w)) (nextTimer (release h w))"
          "linger (release h w) = Some (nextTimer w)" "retry (release h w) = retry w"
          "subscribers (release h w) = []" "present (release h w)" "ws (release h w) = ws w"
        using that p(1) user_invD(5) [OF inv] by (simp_all add: release_def Let_def start_timer_def)
      have "map_of (timers w) (nextTimer w) = None" by (rule fresh_timer_none [OF user_invD(5) [OF inv]])
      then show ?thesis
        unfolding uinv_timers_def t f(2-6)
        using f(1,5) no_linger user_invD(6) [OF inv] user_invD(8) [OF inv p(1)] by (auto 0 2 split: if_splits)
    qed
    moreover have "uinv_served (release h w)"
      using that p by (auto simp: uinv_served_def release_def Let_def start_timer_def m simp del: map_of_append)
    ultimately show ?thesis by (simp add: user_inv_def)
  qed
  ultimately show ?thesis using p(1) by (cases "?hs = []") (simp_all add: release_def)
qed

text \<open>With subscribers there is no linger timer, so clearing the retry leaves no timer at all.\<close>

lemma no_timers_after_retry_cleared:
  assumes inv: "user_inv w" and sub: "subscribers w \<noteq> []"
  shows "map_of (clear_timer (retry w) (timers w)) k = None"
proof (rule ccontr)
  assume "map_of (clear_timer (retry w) (timers w)) k \<noteq> None"
  then obtain t e where a: "retry w \<noteq> Some k" "map_of (timers w) k = Some (t, e)"
    by (auto simp: map_of_clear split: if_splits)
  show False
  proof (cases t)
    case RetryTimer
    with a show False by (blast dest: user_invD(6) [OF inv])
  next
    case LingerTimer
    with a(2) have "subscribers w = []" by (blast dest: user_invD(7) [OF inv])
    with sub show False by simp
  qed
qed

definition user_recover_prep :: "user_world \<Rightarrow> user_world" where
  "user_recover_prep w =
     (let w1 = (if retry w = None then w
                else w\<lparr>timers := clear_timer (retry w) (timers w), retry := None\<rparr>);
          w2 = (case ws w1 of None \<Rightarrow> w1 | Some s \<Rightarrow> close_ws s (detach s w1))
      in w2\<lparr>ws := None, retries := 0\<rparr>)"

lemma user_recover_prep_fields:
  "timers (user_recover_prep w) = clear_timer (retry w) (timers w)" "retry (user_recover_prep w) = None"
  "present (user_recover_prep w) = present w" "subscribers (user_recover_prep w) = subscribers w"
  "nextTimer (user_recover_prep w) = nextTimer w" "ws (user_recover_prep w) = None"
  "detached (user_recover_prep w) = (case ws w of None \<Rightarrow> detached w | Some s \<Rightarrow> set_add s (detached w))"
  "ready (user_recover_prep w) = (case ws w of None \<Rightarrow> ready w | Some s \<Rightarrow> sock_close s (ready w))"
  "everConnected (user_recover_prep w) = everConnected w" "linger (user_recover_prep w) = linger w"
  by (auto simp: user_recover_prep_def Let_def close_ws_def detach_def clear_timer_def split: option.splits)

lemma user_recover_prep_dead:
  assumes inv: "user_inv w"
  shows "\<forall>s. \<not> is_live (sock (ready (user_recover_prep w)) s)"
    and "\<forall>s \<in> set (detached (user_recover_prep w)). s < length (ready (user_recover_prep w))"
proof -
  show "\<forall>s. \<not> is_live (sock (ready (user_recover_prep w)) s)"
    using user_invD(1) [OF inv] unfolding user_recover_prep_fields
    by (cases "ws w") (auto simp: live_sock_close)
  show "\<forall>s \<in> set (detached (user_recover_prep w)). s < length (ready (user_recover_prep w))"
    using user_invD(4) [OF inv] sock_in_range [OF user_invD(2) [OF inv]] unfolding user_recover_prep_fields
    by (cases "ws w") (simp_all add: js_simps)
qed

lemma user_recover_alt:
  assumes "subscribers w \<noteq> []" "force \<or> ws w \<noteq> None \<or> retry w \<noteq> None"
  shows "recover force w = open_conn (user_recover_prep w)"
  using assms by (auto simp: recover_def user_recover_prep_def Let_def)

lemma user_inv_recover:
  assumes inv: "user_inv w"
  shows "user_inv (recover force w)"
proof (cases "subscribers w \<noteq> [] \<and> (force \<or> ws w \<noteq> None \<or> retry w \<noteq> None)")
  case True
  then have sub: "subscribers w \<noteq> []" by simp
  have "user_inv (open_conn (user_recover_prep w))"
    by (rule user_inv_open_conn [OF user_recover_prep_dead [OF inv]])
      (use sub no_linger_with_subscribers [OF inv sub] user_invD(5,9) [OF inv] user_invD(11) [OF inv sub] no_timers_after_retry_cleared [OF inv sub] in
        \<open>simp_all add: user_recover_prep_fields\<close>)
  then show ?thesis using True user_recover_alt [of w force] by simp
next
  case False
  then have "recover force w = w" by (auto simp: recover_def)
  then show ?thesis using inv by simp
qed

text \<open>\<open>acquire\<close> before it opens: the connection exists and no linger is pending.\<close>

definition acquire_prep :: "nat \<Rightarrow> user_world \<Rightarrow> user_world" where
  "acquire_prep h w =
     (let w1 = (if present w then w else (createConnection w)\<lparr>present := True\<rparr>);
          w2 = (if linger w1 = None then w1
                else w1\<lparr>timers := clear_timer (linger w1) (timers w1), linger := None\<rparr>)
      in bindRecovery (put [OnStatus h (status w2)] (w2\<lparr>subscribers := set_add h (subscribers w2)\<rparr>)))"

lemma acquire_alt:
  "acquire h w = (if ws (acquire_prep h w) = None \<and> retry (acquire_prep h w) = None
     then open_conn (acquire_prep h w) else acquire_prep h w)"
  by (simp add: acquire_def acquire_prep_def Let_def)

lemma acquire_prep_fields:
  assumes inv: "user_inv w"
  shows "present (acquire_prep h w)" "subscribers (acquire_prep h w) = set_add h (subscribers w)"
    "ws (acquire_prep h w) = ws w" "ready (acquire_prep h w) = ready w"
    "detached (acquire_prep h w) = detached w" "nextTimer (acquire_prep h w) = nextTimer w"
    "retry (acquire_prep h w) = (if present w then retry w else None)"
    "linger (acquire_prep h w) = None"
    "timers (acquire_prep h w) = (if present w then clear_timer (linger w) (timers w) else timers w)"
  using user_invD(10) [OF inv]
  by (cases "present w"; simp add: acquire_prep_def Let_def bindRecovery_def createConnection_def clear_timer_def)+

lemma acquire_timers:
  assumes inv: "user_inv w" and t: "map_of (timers (acquire_prep h w)) k = Some (t, d)"
  shows "t = RetryTimer \<and> retry (acquire_prep h w) = Some k \<and> ws w = None \<and> delay_ok d"
proof (cases "present w")
  case True
  then have a: "linger w \<noteq> Some k" "map_of (timers w) k = Some (t, d)"
    using t by (simp_all add: acquire_prep_fields [OF inv] map_of_clear split: if_splits)
  have "t = RetryTimer"
    using a by (cases t) (blast dest: user_invD(7) [OF inv])+
  with a True show ?thesis by (simp add: acquire_prep_fields [OF inv]) (blast dest: user_invD(6) [OF inv])
next
  case False
  then have a: "map_of (timers w) k = Some (t, d)" using t by (simp add: acquire_prep_fields [OF inv])
  have "present w" using a by (cases t) (blast dest: user_invD(6,7) [OF inv])+
  with False show ?thesis by simp
qed

lemma user_inv_acquire:
  assumes inv: "user_inv w" and h: "h \<notin> set (subscribers w)"
  shows "user_inv (acquire h w)"
proof -
  let ?w = "acquire_prep h w"
  note f = acquire_prep_fields [OF inv, of h]
  have d: "distinct (subscribers ?w)" "subscribers ?w \<noteq> []"
    using user_invD(9) [OF inv] by (simp_all add: f distinct_set_add) (auto simp: set_add_def)
  have fr: "fresh_timer (timers ?w) (nextTimer ?w)" using user_invD(5) [OF inv] by (simp add: f)
  show ?thesis
  proof (cases "ws ?w = None \<and> retry ?w = None")
    case True
    have "\<forall>s. \<not> is_live (sock (ready ?w) s)"
      using True user_invD(1) [OF inv] by (auto simp: f)
    moreover have none: "map_of (timers ?w) k = None" for k
    proof (rule ccontr)
      assume "map_of (timers ?w) k \<noteq> None"
      then obtain t e where "map_of (timers ?w) k = Some (t, e)" by auto
      from acquire_timers [OF inv this] True show False by simp
    qed
    ultimately have "user_inv (open_conn ?w)"
      by (intro user_inv_open_conn) (use True fr d f user_invD(4) [OF inv] in simp_all)
    then show ?thesis using True by (simp add: acquire_alt)
  next
    case False
    have "uinv_sockets ?w" using inv by (simp add: user_inv_def uinv_sockets_def f)
    moreover have "uinv_timers ?w"
    proof -
      have "\<exists>d. map_of (timers ?w) i = Some (RetryTimer, d)" if r: "retry ?w = Some i" for i
      proof -
        have pr: "present w" "retry w = Some i" using r by (simp_all add: f split: if_splits)
        then obtain d where d: "map_of (timers w) i = Some (RetryTimer, d)"
          using user_invD(8) [OF inv] by blast
        have "linger w \<noteq> Some i" using user_invD(13) [OF inv pr(1), of i] d by auto
        then show ?thesis using pr d by (simp add: f map_of_clear)
      qed
      then show ?thesis
        unfolding uinv_timers_def using fr acquire_timers [OF inv, of h] f(1,3,8) by fastforce
    qed
    moreover have "uinv_served ?w" using False d f(1,3) by (simp add: uinv_served_def)
    ultimately have "user_inv ?w" by (simp add: user_inv_def)
    moreover have "acquire h w = ?w" using False by (simp only: acquire_alt if_False)
    ultimately show ?thesis by simp
  qed
qed

lemma user_inv_step:
  assumes "user_inv w"
  shows "user_inv (user_step e w)"
proof (cases e)
  case (SocketClose s r)
  have "user_inv (w\<lparr>ready := (ready w)[s := CLOSED]\<rparr>)" if "s \<in> set (detached w)"
    by (rule user_inv_ready [OF assms])
      (use that user_invD(2,3) [OF assms] in \<open>auto simp: browser_simps split: if_splits\<close>)
  then show ?thesis using SocketClose assms user_inv_onclose by (simp add: Let_def)
qed (use assms in \<open>simp_all add: Let_def user_inv_acquire user_inv_release user_inv_send user_inv_opened
      user_inv_onopen user_inv_onmessage onerror_def user_inv_close_ws user_inv_sock_close user_inv_fire_timer user_inv_recover\<close>)

interpretation us: invariant_system initial user_step user_inv
  by unfold_locales (simp_all add: user_inv_initial user_inv_step)

subsection \<open>Properties\<close>

abbreviation reached :: "user_event list \<Rightarrow> user_world" where
  "reached es \<equiv> fold user_step es initial"

text \<open>
  One private socket per user: in every reachable state the only socket that is connecting or
  open is the tracked one, and it still has its handlers, so no frame can arrive twice.
\<close>

theorem user_one_live_socket:
  "{s. is_live (sock (ready (reached es)) s)} \<subseteq> set_option (ws (reached es))
   \<and> set_option (ws (reached es)) \<inter> set (detached (reached es)) = {}"
  using user_invD(1) [OF us.reachable_inv, of es] user_invD(3) [OF us.reachable_inv, of es] by auto

text \<open>
  A frame reaches every subscriber exactly once: a message on the open socket that is not a
  heartbeat appends one delivery per subscriber, and no subscriber is listed twice.
\<close>

theorem user_frame_delivered_once:
  assumes "sock (ready (reached es)) s = OPEN" "ftype d \<noteq> Some ''ping''"
  shows "outs (user_step (SocketMessage s (Some d)) (reached es)) =
      outs (reached es) @ map (\<lambda>h. OnMessage h (Frame d)) (subscribers (reached es))
    \<and> distinct (subscribers (reached es))"
proof -
  have inv: "user_inv (reached es)" by (rule us.reachable_inv)
  have "ws (reached es) = Some s" using user_invD(1) [OF inv] assms(1) by simp
  then have "s \<notin> set (detached (reached es))" by (rule user_invD(3) [OF inv])
  then show ?thesis
    using assms user_invD(9) [OF inv] by (simp add: onmessage_def emit_def)
qed

theorem user_frame_delivered_once_witness:
  "outs (user_step (SocketMessage 0 (Some \<lparr>ftype = Some ''fill'', fts = None, fbody = JNull\<rparr>))
      (reached [Acquire 1, Acquire 2, SocketOpen 0])) =
    outs (reached [Acquire 1, Acquire 2, SocketOpen 0])
      @ [OnMessage 1 (Frame \<lparr>ftype = Some ''fill'', fts = None, fbody = JNull\<rparr>),
         OnMessage 2 (Frame \<lparr>ftype = Some ''fill'', fts = None, fbody = JNull\<rparr>)]"
proof -
  have "sock (ready (reached [Acquire 1, Acquire 2, SocketOpen 0])) 0 = OPEN"
    "subscribers (reached [Acquire 1, Acquire 2, SocketOpen 0]) = [1, 2]"
    by code_simp+
  then show ?thesis
    using user_frame_delivered_once [of "[Acquire 1, Acquire 2, SocketOpen 0]" 0
        "\<lparr>ftype = Some ''fill'', fts = None, fbody = JNull\<rparr>"] by simp
qed

text \<open>
  C24. Subscribers are always served and an idle connection never leaks: with a subscriber and no
  socket, a retry between 100 ms and 22.5 s is pending and opens a new socket when it fires; with a
  connection but no subscriber, the two-second linger timer is pending, and when it fires the
  connection is gone and no socket is live.
\<close>

theorem user_served_or_released:
  "(subscribers (reached es) \<noteq> [] \<and> ws (reached es) = None \<longrightarrow>
      (\<exists>i d. map_of (timers (reached es)) i = Some (RetryTimer, d) \<and> delay_ok d
        \<and> ws (user_step (TimerFires i) (reached es)) = Some (length (ready (reached es)))))
   \<and> (present (reached es) \<and> subscribers (reached es) = [] \<longrightarrow>
      (\<exists>i. map_of (timers (reached es)) i = Some (LingerTimer, Fin 2000)
        \<and> \<not> present (user_step (TimerFires i) (reached es))
        \<and> {s. is_live (sock (ready (user_step (TimerFires i) (reached es))) s)} = {}))"
proof -
  let ?w = "reached es"
  have inv: "user_inv ?w" by (rule us.reachable_inv)
  have "\<exists>i d. map_of (timers ?w) i = Some (RetryTimer, d) \<and> delay_ok d
      \<and> ws (user_step (TimerFires i) ?w) = Some (length (ready ?w))"
    if a: "subscribers ?w \<noteq> []" "ws ?w = None"
  proof -
    obtain i where "retry ?w = Some i" "present ?w" using user_invD(11) [OF inv a(1)] a(2) by auto
    then obtain d where d: "map_of (timers ?w) i = Some (RetryTimer, d)" using user_invD(8) [OF inv] by blast
    have "delay_ok d" using user_invD(6) [OF inv d] by simp
    moreover have "ws (user_step (TimerFires i) ?w) = Some (length (ready ?w))"
      using d a by (simp add: fire_timer_def fire_retry_def open_conn_def Let_def)
    ultimately show ?thesis using d by blast
  qed
  moreover have "\<exists>i. map_of (timers ?w) i = Some (LingerTimer, Fin 2000)
      \<and> \<not> present (user_step (TimerFires i) ?w)
      \<and> {s. is_live (sock (ready (user_step (TimerFires i) ?w)) s)} = {}"
    if a: "present ?w" "subscribers ?w = []"
  proof -
    obtain i d where d: "map_of (timers ?w) i = Some (LingerTimer, d)" using user_invD(12) [OF inv a] by blast
    have f: "d = Fin 2000" using user_invD(7) [OF inv d] by (simp add: LINGER_MS_def)
    let ?v = "user_step (TimerFires i) ?w"
    have v: "\<not> present ?v" "ws ?v = None"
      using d a by (cases "ws ?w"; simp add: fire_timer_def fire_linger_def Let_def close_ws_def detach_def)+
    have "user_inv ?v" using user_inv_step [OF inv] .
    then have "{s. is_live (sock (ready ?v) s)} = {}" using user_invD(1) v(2) by fastforce
    with d f v show ?thesis by blast
  qed
  ultimately show ?thesis by blast
qed

theorem user_served_or_released_witness:
  "\<exists>i. map_of (timers (reached [Acquire 1, Release 1])) i = Some (LingerTimer, Fin 2000)
     \<and> \<not> present (user_step (TimerFires i) (reached [Acquire 1, Release 1]))
     \<and> {s. is_live (sock (ready (user_step (TimerFires i) (reached [Acquire 1, Release 1]))) s)} = {}"
proof -
  have "present (reached [Acquire 1, Release 1])" "subscribers (reached [Acquire 1, Release 1]) = []"
    by code_simp+
  then show ?thesis using user_served_or_released [of "[Acquire 1, Release 1]"] by blast
qed

text \<open>
  Recovery replaces the socket whatever it claims to be: when the network comes back, a
  subscribed connection tracks a brand-new socket, the old one is closed without handlers, so its
  late close event changes nothing but its own state; and once the new socket opens after an
  earlier connection, every subscriber is told to resynchronise.
\<close>

theorem user_recover_replaces:
  assumes "subscribers (reached es) \<noteq> []" "ws (reached es) = Some s" "recoveryBound (reached es)"
    "everConnected (reached es)"
  shows "ws (user_step Online (reached es)) = Some (length (ready (reached es)))
    \<and> s \<in> set (detached (user_step Online (reached es)))
    \<and> \<not> is_live (sock (ready (user_step Online (reached es))) s)
    \<and> (\<forall>h \<in> set (subscribers (reached es)). OnMessage h (Resync ''reconnect'') \<in>
         set (outs (user_step (SocketOpen (length (ready (reached es)))) (user_step Online (reached es)))))"
proof -
  let ?w = "reached es"
  let ?n = "length (ready ?w)"
  have inv: "user_inv ?w" by (rule us.reachable_inv)
  have on: "user_step Online ?w = open_conn (user_recover_prep ?w)"
    using assms user_recover_alt [of ?w True] by simp
  note f = user_recover_prep_fields [of ?w]
  have s: "s < ?n" using user_invD(2) [OF inv assms(2)] by (rule sock_in_range)
  have nd: "?n \<notin> set (detached (user_recover_prep ?w))"
    using user_recover_prep_dead(2) [OF inv] assms(2) by (auto simp: f)
  have w: "ws (user_step Online ?w) = Some ?n" "s \<in> set (detached (user_step Online ?w))"
    "sock (ready (user_step Online ?w)) ?n = CONNECTING" "?n \<notin> set (detached (user_step Online ?w))"
    "everConnected (user_step Online ?w)" "subscribers (user_step Online ?w) = subscribers ?w"
    using assms nd unfolding on by (simp_all add: open_conn_def Let_def f browser_simps js_simps)
  have "\<not> is_live (sock (ready (user_step Online ?w)) s)"
    using user_invD(1) [OF user_inv_step [OF inv, of Online], of s] w(1) s by auto
  moreover have "OnMessage h (Resync ''reconnect'') \<in> set (outs (user_step (SocketOpen ?n) (user_step Online ?w)))"
    if "h \<in> set (subscribers ?w)" for h
    using w that by (simp add: Let_def onopen_def emit_def del: user_step.simps(10))
  ultimately show ?thesis using w(1,2) by blast
qed

theorem user_recover_replaces_witness:
  "ws (user_step Online (reached [Acquire 4, SocketOpen 0])) = Some 1"
proof -
  have "subscribers (reached [Acquire 4, SocketOpen 0]) \<noteq> []" "ws (reached [Acquire 4, SocketOpen 0]) = Some 0"
    "recoveryBound (reached [Acquire 4, SocketOpen 0])" "everConnected (reached [Acquire 4, SocketOpen 0])"
    "length (ready (reached [Acquire 4, SocketOpen 0])) = 1"
    by code_simp+
  then show ?thesis using user_recover_replaces [of "[Acquire 4, SocketOpen 0]" 0] by simp
qed

end
