(* ===== verification/Global_Trades.thy ===== *)
theory Global_Trades
  imports Ws_Backoff JS_Value Browser
begin

text \<open>
  \<^verbatim>\<open>apps/web/hooks/use-global-trades-socket.ts\<close>: the socket of the platform-wide trade feed,
  owned by one hook instance.

  The record \<open>feed\<close> holds the hook's refs and its status state; \<open>running\<close> says whether the effect
  is active with \<open>enabled\<close> (its listeners are bound), \<open>muted\<close> lists the sockets whose \<open>onclose\<close> was
  set to null. The effect is run by \<open>Render\<close>, which first runs the cleanup of an active effect, as
  React does when \<open>enabled\<close> changes. Timers that were overwritten in \<open>timerRef\<close> stay pending.
\<close>

subsection \<open>State\<close>

record feed_frame =
  ftype :: "string option"
  fts :: "int option"
  fbody :: jsval

datatype feed_data = Frame feed_frame | Resync string

datatype feed_out =
    NewSocket nat
  | CloseSocket nat
  | SendPong nat "int option"
  | OnMessage feed_data

record feed =
  status :: ws_status
  wsRef :: "nat option"
  retriesRef :: nat
  timerRef :: "nat option"
  mountedRef :: bool
  everConnectedRef :: bool
  running :: bool
  ready :: "ready_state list"
  muted :: "nat list"
  timers :: "(nat \<times> jsnum) list"
  nextTimer :: nat
  outs :: "feed_out list"

definition initial :: feed where
  "initial =
     \<lparr>status = Disconnected, wsRef = None, retriesRef = 0, timerRef = None, mountedRef = True,
      everConnectedRef = False, running = False, ready = [], muted = [], timers = [], nextTimer = 0,
      outs = []\<rparr>"

subsection \<open>Operations\<close>

definition put :: "feed_out list \<Rightarrow> feed \<Rightarrow> feed" where
  "put os w = w\<lparr>outs := outs w @ os\<rparr>"

definition close_ws :: "nat \<Rightarrow> feed \<Rightarrow> feed" where
  "close_ws s w = put [CloseSocket s] (w\<lparr>ready := sock_close s (ready w)\<rparr>)"

definition mute :: "nat \<Rightarrow> feed \<Rightarrow> feed" where
  "mute s w = w\<lparr>muted := set_add s (muted w)\<rparr>"

text \<open>\<open>readyState <= WebSocket.OPEN\<close> of the socket in \<open>wsRef\<close>.\<close>

definition ref_live :: "feed \<Rightarrow> bool" where
  "ref_live w = (case wsRef w of None \<Rightarrow> False | Some s \<Rightarrow> is_live (sock (ready w) s))"

definition connect :: "feed \<Rightarrow> feed" where
  "connect w =
     (if \<not> mountedRef w then w
      else if ref_live w then w
      else
        (let s = length (ready w)
         in put [NewSocket s]
              (w\<lparr>status := Connecting, ready := ready w @ [CONNECTING], wsRef := Some s\<rparr>)))"

definition onopen :: "nat \<Rightarrow> feed \<Rightarrow> feed" where
  "onopen s w =
     (if \<not> mountedRef w then close_ws s w
      else
        (let w1 = w\<lparr>retriesRef := 0, status := Connected\<rparr>;
             w2 = (if everConnectedRef w1 then put [OnMessage (Resync ''reconnect'')] w1 else w1)
         in w2\<lparr>everConnectedRef := True\<rparr>))"

definition onmessage :: "nat \<Rightarrow> feed_frame option \<Rightarrow> feed \<Rightarrow> feed" where
  "onmessage s event w =
     (case event of
        None \<Rightarrow> w
      | Some d \<Rightarrow>
          if ftype d = Some ''ping'' then put [SendPong s (fts d)] w
          else put [OnMessage (Frame d)] w)"

definition onclose :: "nat \<Rightarrow> rat \<Rightarrow> feed \<Rightarrow> feed" where
  "onclose s r w =
     (if \<not> mountedRef w then w
      else
        (let w1 = (if wsRef w = Some s then w\<lparr>wsRef := None\<rparr> else w);
             delay = reconnectDelayMs (retriesRef w1) (Fin r)
         in w1\<lparr>status := Disconnected, retriesRef := Suc (retriesRef w1),
               timers := timers w1 @ [(nextTimer w1, delay)], nextTimer := Suc (nextTimer w1),
               timerRef := Some (nextTimer w1)\<rparr>))"

definition onerror :: "nat \<Rightarrow> feed \<Rightarrow> feed" where
  "onerror s w = (if \<not> mountedRef w then w else close_ws s w)"

definition fire_timer :: "nat \<Rightarrow> feed \<Rightarrow> feed" where
  "fire_timer i w =
     (if map_has (timers w) i
      then connect (w\<lparr>timers := map_delete i (timers w), timerRef := None\<rparr>) else w)"

definition recover :: "bool \<Rightarrow> feed \<Rightarrow> feed" where
  "recover force w =
     (if \<not> mountedRef w then w
      else if \<not> force \<and> wsRef w = None \<and> timerRef w = None then w
      else
        (let w1 = (if timerRef w = None then w
                   else w\<lparr>timers := clear_timer (timerRef w) (timers w), timerRef := None\<rparr>);
             w2 = (case wsRef w1 of
                     None \<Rightarrow> w1
                   | Some s \<Rightarrow> if ref_live w1 then close_ws s (mute s w1) else w1)
         in connect (w2\<lparr>retriesRef := 0, wsRef := None\<rparr>)))"

text \<open>The effect with \<open>enabled\<close>, its cleanup, and the effect without.\<close>

definition effect_enabled :: "feed \<Rightarrow> feed" where
  "effect_enabled w = (connect (w\<lparr>mountedRef := True, retriesRef := 0\<rparr>))\<lparr>running := True\<rparr>"

definition cleanup :: "feed \<Rightarrow> feed" where
  "cleanup w =
     (let w1 = w\<lparr>mountedRef := False, timers := clear_timer (timerRef w) (timers w), running := False\<rparr>;
          s = wsRef w1;
          w2 = w1\<lparr>wsRef := None\<rparr>
      in case s of None \<Rightarrow> w2 | Some k \<Rightarrow> close_ws k (mute k w2))"

definition effect_disabled :: "feed \<Rightarrow> feed" where
  "effect_disabled w =
     (let w1 = w\<lparr>mountedRef := True, timers := clear_timer (timerRef w) (timers w)\<rparr>;
          w2 = (case wsRef w1 of
                  None \<Rightarrow> w1
                | Some k \<Rightarrow> (close_ws k (mute k w1))\<lparr>wsRef := None\<rparr>)
      in w2\<lparr>retriesRef := 0\<rparr>)"

definition reported_status :: "bool \<Rightarrow> feed \<Rightarrow> ws_status" where
  "reported_status enabled w = (if enabled then status w else Disconnected)"

subsection \<open>Everything that can happen\<close>

datatype feed_event =
    Render bool
  | Unmount
  | SocketOpen nat
  | SocketMessage nat "feed_frame option"
  | SocketClosing nat
  | SocketClose nat rat
  | SocketError nat
  | TimerFires nat
  | Online
  | Visible

definition run_effect :: "bool \<Rightarrow> feed \<Rightarrow> feed" where
  "run_effect enabled w =
     (if enabled \<and> running w then w
      else
        (let w1 = (if running w then cleanup w else w)
         in if enabled then effect_enabled w1 else effect_disabled w1))"

fun feed_step :: "feed_event \<Rightarrow> feed \<Rightarrow> feed" where
  "feed_step (Render enabled) w = run_effect enabled w"
| "feed_step Unmount w = (if running w then cleanup w else w)"
| "feed_step (SocketOpen s) w =
     (if sock (ready w) s = CONNECTING then onopen s (w\<lparr>ready := (ready w)[s := OPEN]\<rparr>) else w)"
| "feed_step (SocketMessage s d) w = (if sock (ready w) s = OPEN then onmessage s d w else w)"
| "feed_step (SocketClosing s) w = w\<lparr>ready := sock_close s (ready w)\<rparr>"
| "feed_step (SocketClose s r) w =
     (if sock (ready w) s \<noteq> CLOSED \<and> 0 \<le> r \<and> r < 1
      then (let w1 = w\<lparr>ready := (ready w)[s := CLOSED]\<rparr>
            in if s \<in> set (muted w1) then w1 else onclose s r w1)
      else w)"
| "feed_step (SocketError s) w = (if sock (ready w) s \<noteq> CLOSED then onerror s w else w)"
| "feed_step (TimerFires i) w = fire_timer i w"
| "feed_step Online w = (if running w then recover True w else w)"
| "feed_step Visible w = (if running w then recover False w else w)"

subsection \<open>Invariant\<close>

definition delay_ok :: "jsnum \<Rightarrow> bool" where
  "delay_ok d \<longleftrightarrow> (\<exists>n. d = Fin (of_int n) \<and> 100 \<le> n \<and> n \<le> 22500)"

definition feed_inv :: "feed \<Rightarrow> bool" where
  "feed_inv w \<longleftrightarrow>
     (\<forall>s. is_live (sock (ready w) s) \<longrightarrow> wsRef w = Some s)
     \<and> (\<forall>s. wsRef w = Some s \<longrightarrow> sock (ready w) s \<noteq> CLOSED \<and> s \<notin> set (muted w))
     \<and> (\<forall>s \<in> set (muted w). s < length (ready w))
     \<and> fresh_timer (timers w) (nextTimer w)
     \<and> (\<forall>i d. map_of (timers w) i = Some d \<longrightarrow> delay_ok d)
     \<and> (running w \<longrightarrow> mountedRef w \<and> (wsRef w \<noteq> None \<or> timers w \<noteq> []))
     \<and> (wsRef w \<noteq> None \<longrightarrow> mountedRef w)"

lemma feed_invD:
  assumes "feed_inv w"
  shows "is_live (sock (ready w) s) \<Longrightarrow> wsRef w = Some s"
    and "wsRef w = Some s \<Longrightarrow> sock (ready w) s \<noteq> CLOSED \<and> s \<notin> set (muted w)"
    and "\<forall>s \<in> set (muted w). s < length (ready w)"
    and "fresh_timer (timers w) (nextTimer w)"
    and "map_of (timers w) i = Some d \<Longrightarrow> delay_ok d"
    and "running w \<Longrightarrow> mountedRef w \<and> (wsRef w \<noteq> None \<or> timers w \<noteq> [])"
    and "wsRef w \<noteq> None \<Longrightarrow> mountedRef w"
  using assms unfolding feed_inv_def by blast+

lemma feed_invI:
  assumes "\<And>s. is_live (sock (ready w) s) \<Longrightarrow> wsRef w = Some s"
    and "\<And>s. wsRef w = Some s \<Longrightarrow> sock (ready w) s \<noteq> CLOSED \<and> s \<notin> set (muted w)"
    and "\<And>s. s \<in> set (muted w) \<Longrightarrow> s < length (ready w)"
    and "fresh_timer (timers w) (nextTimer w)"
    and "\<And>i d. map_of (timers w) i = Some d \<Longrightarrow> delay_ok d"
    and "running w \<Longrightarrow> mountedRef w \<and> (wsRef w \<noteq> None \<or> timers w \<noteq> [])"
    and "wsRef w \<noteq> None \<Longrightarrow> mountedRef w"
  shows "feed_inv w"
  using assms unfolding feed_inv_def by blast

lemma feed_put_frame [simp]:
  "status (put os w) = status w" "wsRef (put os w) = wsRef w" "retriesRef (put os w) = retriesRef w"
  "timerRef (put os w) = timerRef w" "mountedRef (put os w) = mountedRef w"
  "everConnectedRef (put os w) = everConnectedRef w" "running (put os w) = running w"
  "ready (put os w) = ready w" "muted (put os w) = muted w" "timers (put os w) = timers w"
  "nextTimer (put os w) = nextTimer w" "outs (put os w) = outs w @ os"
  by (simp_all add: put_def)

lemma feed_inv_cong:
  assumes "wsRef w' = wsRef w" "ready w' = ready w" "muted w' = muted w" "timers w' = timers w"
    "nextTimer w' = nextTimer w" "running w' = running w" "mountedRef w' = mountedRef w"
  shows "feed_inv w' = feed_inv w"
  using assms by (simp add: feed_inv_def)

lemma feed_inv_put [simp]: "feed_inv (put os w) = feed_inv w"
  by (rule feed_inv_cong) simp_all

lemma feed_inv_ready:
  assumes inv: "feed_inv w" and len: "length rs = length (ready w)"
    and live: "\<And>k. is_live (sock rs k) \<Longrightarrow> is_live (sock (ready w) k)"
    and tracked: "\<And>k. wsRef w = Some k \<Longrightarrow> sock rs k \<noteq> CLOSED"
  shows "feed_inv (w\<lparr>ready := rs\<rparr>)"
proof (rule feed_invI)
  show "wsRef (w\<lparr>ready := rs\<rparr>) = Some s" if "is_live (sock (ready (w\<lparr>ready := rs\<rparr>)) s)" for s
    using feed_invD(1) [OF inv live] that by simp
qed (use feed_invD(2-7) [OF inv] len tracked in auto)

lemma feed_inv_sock_close: "feed_inv w \<Longrightarrow> feed_inv (w\<lparr>ready := sock_close s (ready w)\<rparr>)"
  by (rule feed_inv_ready) (auto simp: browser_simps dest: feed_invD(2) split: if_splits)

lemma feed_inv_close_ws: "feed_inv w \<Longrightarrow> feed_inv (close_ws s w)"
  by (simp add: close_ws_def feed_inv_sock_close)

text \<open>\<open>connect\<close> works from any state whose live sockets are tracked; it restores the last part of
  the invariant.\<close>

lemma feed_inv_connect:
  assumes "\<And>s. is_live (sock (ready w) s) \<Longrightarrow> wsRef w = Some s"
    and "\<And>s. wsRef w = Some s \<Longrightarrow> sock (ready w) s \<noteq> CLOSED \<and> s \<notin> set (muted w)"
    and "\<forall>s \<in> set (muted w). s < length (ready w)"
    and "fresh_timer (timers w) (nextTimer w)"
    and "\<And>i d. map_of (timers w) i = Some d \<Longrightarrow> delay_ok d"
    and "running w \<Longrightarrow> mountedRef w" and "wsRef w \<noteq> None \<Longrightarrow> mountedRef w"
  shows "feed_inv (connect w)" and "mountedRef w \<Longrightarrow> wsRef (connect w) \<noteq> None"
proof -
  show w: "wsRef (connect w) \<noteq> None" if "mountedRef w"
    using that by (auto simp: connect_def ref_live_def Let_def split: option.splits)
  have dead: "\<not> is_live (sock (ready w) s)" if "\<not> ref_live w" for s
    using assms(1) [of s] that by (auto simp: ref_live_def)
  show "feed_inv (connect w)"
  proof (cases "mountedRef w \<and> \<not> ref_live w")
    case True
    have m: "s \<noteq> length (ready w)" if "s \<in> set (muted w)" for s using assms(3) that by auto
    show ?thesis
      by (rule feed_invI)
        (use True dead m assms(3,4,5) in \<open>auto simp: connect_def Let_def browser_simps split: if_splits\<close>)
  next
    case False
    then have c: "connect w = w" by (auto simp: connect_def)
    show ?thesis unfolding c
      by (rule feed_invI) (use assms w c in \<open>auto\<close>)
  qed
qed

lemma feed_inv_opened:
  assumes "feed_inv w" "sock (ready w) s = CONNECTING"
  shows "feed_inv (w\<lparr>ready := (ready w)[s := OPEN]\<rparr>)"
  by (rule feed_inv_ready [OF assms(1)])
    (use assms(2) feed_invD(2) [OF assms(1)] in \<open>auto simp: browser_simps split: if_splits\<close>)

lemma feed_inv_onopen: "feed_inv w \<Longrightarrow> feed_inv (onopen s w)"
proof -
  assume inv: "feed_inv w"
  have "feed_inv (onopen s w) = feed_inv w" if "mountedRef w"
    by (rule feed_inv_cong) (simp_all add: onopen_def Let_def that)
  then show ?thesis using inv feed_inv_close_ws [OF inv] by (cases "mountedRef w") (simp_all add: onopen_def)
qed

lemma feed_inv_onmessage: "feed_inv w \<Longrightarrow> feed_inv (onmessage s d w)"
  by (simp add: onmessage_def split: option.splits)

lemma feed_inv_onerror: "feed_inv w \<Longrightarrow> feed_inv (onerror s w)"
  by (simp add: onerror_def feed_inv_close_ws)

lemma feed_delay_ok_reconnect: "0 \<le> r \<Longrightarrow> r < 1 \<Longrightarrow> delay_ok (reconnectDelayMs n (Fin r))"
  using bo.delay_range [of r n] by (simp add: delay_ok_def)

lemma feed_inv_add_timer:
  assumes inv: "feed_inv w" and d: "delay_ok d"
  shows "feed_inv (w\<lparr>status := st, retriesRef := n, timers := timers w @ [(nextTimer w, d)],
    nextTimer := Suc (nextTimer w), timerRef := t\<rparr>)" (is "feed_inv ?v")
proof (rule feed_invI)
  show "wsRef ?v = Some s" if "is_live (sock (ready ?v) s)" for s
    using feed_invD(1) [OF inv] that by simp
  show "delay_ok e" if "map_of (timers ?v) i = Some e" for i e
    using that d feed_invD(5) [OF inv, of i e] map_of_snoc [OF feed_invD(4) [OF inv], of d i]
    by (cases "i = nextTimer w") simp_all
qed (use feed_invD(2-4,6,7) [OF inv] in simp_all)

text \<open>A close event runs after the socket is marked closed; a muted socket has no handler.\<close>

lemma feed_inv_closed:
  assumes inv: "feed_inv w" and s: "sock (ready w) s \<noteq> CLOSED" and r: "0 \<le> r" "r < 1"
  shows "feed_inv (if s \<in> set (muted w) then w\<lparr>ready := (ready w)[s := CLOSED]\<rparr>
      else onclose s r (w\<lparr>ready := (ready w)[s := CLOSED]\<rparr>))" (is "feed_inv ?v")
proof (cases "wsRef w = Some s")
  case True
  have len: "s < length (ready w)" using s by (rule sock_in_range)
  have m: "s \<notin> set (muted w)" "mountedRef w" using feed_invD(2,7) [OF inv] True by auto
  have dead: "\<not> is_live (sock ((ready w)[s := CLOSED]) k)" for k
    using feed_invD(1) [OF inv, of k] True len by (auto simp: browser_simps)
  note snoc = map_of_snoc [OF feed_invD(4) [OF inv]]
  show ?thesis
  proof (rule feed_invI)
    show "delay_ok d" if "map_of (timers ?v) i = Some d" for i d
      using that True m feed_delay_ok_reconnect [OF r] feed_invD(5) [OF inv, of i d]
      by (cases "i = nextTimer w") (auto simp: onclose_def Let_def snoc simp del: map_of_append)
  qed (use True m dead feed_invD(3,4) [OF inv] in \<open>simp_all add: onclose_def Let_def\<close>)
next
  case False
  have closed: "feed_inv (w\<lparr>ready := (ready w)[s := CLOSED]\<rparr>)"
    by (rule feed_inv_ready [OF inv])
      (use False feed_invD(2) [OF inv] in \<open>auto simp: browser_simps split: if_splits\<close>)
  then show ?thesis
    using feed_inv_add_timer [OF closed feed_delay_ok_reconnect [OF r]] False
    by (simp add: onclose_def Let_def)
qed

lemma feed_inv_fire_timer:
  assumes inv: "feed_inv w"
  shows "feed_inv (fire_timer i w)"
proof -
  let ?w = "w\<lparr>timers := map_delete i (timers w), timerRef := None\<rparr>"
  have "feed_inv (connect ?w)"
  proof (rule feed_inv_connect(1))
    show "wsRef ?w = Some s" if "is_live (sock (ready ?w) s)" for s
      using feed_invD(1) [OF inv] that by simp
    show "delay_ok d" if "map_of (timers ?w) k = Some d" for k d
      using that feed_invD(5) [OF inv, of k d] by (simp add: js_simps split: if_splits)
  qed (use feed_invD(2-4,6,7) [OF inv] in auto)
  then show ?thesis using inv by (simp add: fire_timer_def)
qed

text \<open>Dropping the tracked socket: nothing is live afterwards.\<close>

lemma dead_after_close:
  assumes "feed_inv w" "wsRef w = Some s"
  shows "\<not> is_live (sock (sock_close s (ready w)) k)"
  using feed_invD(1) [OF assms(1), of k] assms(2) by (auto simp: live_sock_close)

lemma tracked_in_range: "feed_inv w \<Longrightarrow> wsRef w = Some s \<Longrightarrow> s < length (ready w)"
  using feed_invD(2) sock_in_range by blast

lemma clear_timer_ok:
  assumes "feed_inv w" "map_of (clear_timer i (timers w)) k = Some d"
  shows "delay_ok d"
  using assms(2) feed_invD(5) [OF assms(1), of k d] by (simp add: map_of_clear split: if_splits)

lemma feed_inv_cleanup:
  assumes inv: "feed_inv w"
  shows "feed_inv (cleanup w)"
proof (cases "wsRef w")
  case None
  have "\<not> is_live (sock (ready w) s)" for s using feed_invD(1) [OF inv, of s] None by auto
  then show ?thesis
    by (intro feed_invI)
      (use None clear_timer_ok [OF inv] feed_invD(3,4) [OF inv] in \<open>auto simp: cleanup_def Let_def\<close>)
next
  case (Some k)
  show ?thesis
    by (rule feed_invI)
      (use Some clear_timer_ok [OF inv] dead_after_close [OF inv Some] tracked_in_range [OF inv Some]
        feed_invD(3,4) [OF inv] in \<open>auto simp: cleanup_def Let_def close_ws_def mute_def js_simps\<close>)
qed

lemma feed_inv_disabled:
  assumes inv: "feed_inv w" and r: "\<not> running w"
  shows "feed_inv (effect_disabled w)"
proof (cases "wsRef w")
  case None
  have "\<not> is_live (sock (ready w) s)" for s using feed_invD(1) [OF inv, of s] None by auto
  then show ?thesis
    by (intro feed_invI)
      (use r None clear_timer_ok [OF inv] feed_invD(3,4) [OF inv] in \<open>auto simp: effect_disabled_def Let_def\<close>)
next
  case (Some k)
  show ?thesis
    by (rule feed_invI)
      (use r Some clear_timer_ok [OF inv] dead_after_close [OF inv Some] tracked_in_range [OF inv Some]
        feed_invD(3,4) [OF inv] in \<open>auto simp: effect_disabled_def Let_def close_ws_def mute_def js_simps\<close>)
qed

lemma feed_inv_enabled:
  assumes inv: "feed_inv w"
  shows "feed_inv (effect_enabled w)"
proof -
  let ?w = "w\<lparr>mountedRef := True, retriesRef := 0, running := True\<rparr>"
  have l: "\<And>s. is_live (sock (ready ?w) s) \<Longrightarrow> wsRef ?w = Some s" using feed_invD(1) [OF inv] by simp
  have d: "\<And>i d. map_of (timers ?w) i = Some d \<Longrightarrow> delay_ok d" using feed_invD(5) [OF inv] by simp
  have "feed_inv (connect ?w)"
    by (rule feed_inv_connect(1) [OF l _ _ _ d]) (use feed_invD(2,3,4) [OF inv] in simp_all)
  moreover have "effect_enabled w = connect ?w"
    by (simp add: effect_enabled_def connect_def ref_live_def Let_def put_def split: option.splits)
  ultimately show ?thesis by simp
qed

definition feed_recover_prep :: "feed \<Rightarrow> feed" where
  "feed_recover_prep w =
     (let w1 = (if timerRef w = None then w
                else w\<lparr>timers := clear_timer (timerRef w) (timers w), timerRef := None\<rparr>);
          w2 = (case wsRef w1 of
                  None \<Rightarrow> w1
                | Some s \<Rightarrow> if ref_live w1 then close_ws s (mute s w1) else w1)
      in w2\<lparr>retriesRef := 0, wsRef := None\<rparr>)"

lemma feed_recover_prep_fields:
  "timers (feed_recover_prep w) = clear_timer (timerRef w) (timers w)" "wsRef (feed_recover_prep w) = None"
  "mountedRef (feed_recover_prep w) = mountedRef w" "running (feed_recover_prep w) = running w"
  "nextTimer (feed_recover_prep w) = nextTimer w"
  "muted (feed_recover_prep w) = (case wsRef w of None \<Rightarrow> muted w
     | Some s \<Rightarrow> if is_live (sock (ready w) s) then set_add s (muted w) else muted w)"
  "ready (feed_recover_prep w) = (case wsRef w of None \<Rightarrow> ready w | Some s \<Rightarrow> sock_close s (ready w))"
  "everConnectedRef (feed_recover_prep w) = everConnectedRef w"
  by (auto simp: feed_recover_prep_def Let_def close_ws_def mute_def clear_timer_def ref_live_def sock_close_def
      split: option.splits)

lemma feed_recover_alt:
  assumes "mountedRef w" "force \<or> wsRef w \<noteq> None \<or> timerRef w \<noteq> None"
  shows "recover force w = connect (feed_recover_prep w)"
  using assms by (auto simp: recover_def feed_recover_prep_def Let_def)

lemma feed_inv_recover:
  assumes inv: "feed_inv w"
  shows "feed_inv (recover force w)"
proof (cases "mountedRef w \<and> (force \<or> wsRef w \<noteq> None \<or> timerRef w \<noteq> None)")
  case True
  have dead: "\<not> is_live (sock (ready (feed_recover_prep w)) s)" for s
    using feed_invD(1) [OF inv, of s] dead_after_close [OF inv, of _ s]
    by (cases "wsRef w") (auto simp: feed_recover_prep_fields)
  have mu: "\<forall>s \<in> set (muted (feed_recover_prep w)). s < length (ready (feed_recover_prep w))"
    using feed_invD(3) [OF inv] tracked_in_range [OF inv]
    by (cases "wsRef w") (auto simp: feed_recover_prep_fields js_simps)
  have "feed_inv (connect (feed_recover_prep w))"
    by (rule feed_inv_connect(1))
      (use dead mu True clear_timer_ok [OF inv] feed_invD(4) [OF inv] in
        \<open>simp_all add: feed_recover_prep_fields(1-5)\<close>)
  then show ?thesis using True feed_recover_alt [of w force] by simp
next
  case False
  then have "recover force w = w" by (auto simp: recover_def)
  then show ?thesis using inv by simp
qed

lemma feed_inv_step:
  assumes "feed_inv w"
  shows "feed_inv (feed_step e w)"
proof (cases e)
  case (Render b)
  have "\<not> running (cleanup w)" by (simp add: cleanup_def Let_def close_ws_def mute_def split: option.splits)
  then show ?thesis
    using Render assms feed_inv_cleanup feed_inv_enabled feed_inv_disabled
    by (simp add: run_effect_def Let_def)
next
  case (SocketClose s r)
  then show ?thesis using assms feed_inv_closed [of w s r] by (simp add: Let_def)
qed (use assms in \<open>simp_all add: feed_inv_cleanup feed_inv_opened feed_inv_onopen feed_inv_onmessage
      feed_inv_sock_close feed_inv_onerror feed_inv_fire_timer feed_inv_recover\<close>)

lemma feed_inv_initial: "feed_inv initial"
  by (simp add: feed_inv_def initial_def sock_def)

interpretation gt: invariant_system initial feed_step feed_inv
  by unfold_locales (rule feed_inv_initial, rule feed_inv_step)

subsection \<open>Properties\<close>

abbreviation reached :: "feed_event list \<Rightarrow> feed" where
  "reached es \<equiv> fold feed_step es initial"

text \<open>
  The trade feed holds at most one live socket and never parks: in every reachable state each
  connecting or open socket is the one in \<open>wsRef\<close>; and while the hook is enabled it tracks a socket
  that has not closed, or a retry is pending after 100 ms to 22.5 s.
\<close>

theorem feed_never_parked:
  "{s. is_live (sock (ready (reached es)) s)} \<subseteq> set_option (wsRef (reached es))
   \<and> (running (reached es) \<longrightarrow>
       (\<exists>s. wsRef (reached es) = Some s \<and> sock (ready (reached es)) s \<noteq> CLOSED)
       \<or> (\<exists>i d. map_of (timers (reached es)) i = Some d \<and> delay_ok d))"
proof -
  let ?w = "reached es"
  have inv: "feed_inv ?w" by (rule gt.reachable_inv)
  have "(\<exists>s. wsRef ?w = Some s \<and> sock (ready ?w) s \<noteq> CLOSED)
      \<or> (\<exists>i d. map_of (timers ?w) i = Some d \<and> delay_ok d)" if r: "running ?w"
  proof (cases "wsRef ?w")
    case None
    then obtain i d ts where "timers ?w = (i, d) # ts"
      using feed_invD(6) [OF inv r] by (cases "timers ?w") auto
    then have "map_of (timers ?w) i = Some d" by simp
    then show ?thesis using feed_invD(5) [OF inv] by blast
  next
    case (Some s)
    then show ?thesis using feed_invD(2) [OF inv] by blast
  qed
  then show ?thesis using feed_invD(1) [OF inv] by auto
qed

theorem feed_never_parked_witness:
  "\<exists>s. wsRef (reached [Render True]) = Some s \<and> sock (ready (reached [Render True])) s \<noteq> CLOSED"
proof -
  have "running (reached [Render True])" "timers (reached [Render True]) = []" by code_simp+
  then show ?thesis using feed_never_parked [of "[Render True]"] by simp
qed

lemmas feed_eval = initial_def run_effect_def effect_enabled_def effect_disabled_def cleanup_def
  connect_def onopen_def onclose_def recover_def fire_timer_def ref_live_def close_ws_def mute_def
  put_def Let_def sock_def sock_close_def clear_timer_def map_has_def set_add_def

text \<open>
  The close event of a superseded socket still runs the status machine. A socket that was
  already closing when the network came back keeps its handler: when its close event arrives the
  hook reports disconnected although the tracked socket is open. The same event overwrites
  \<open>timerRef\<close>, so an earlier retry can no longer be cancelled and opens a socket after the hook was
  disabled.
\<close>

theorem stale_close_runs_the_machine:
  "(\<exists>es s. wsRef (reached es) = Some s \<and> sock (ready (reached es)) s = OPEN \<and> running (reached es)
     \<and> reported_status True (reached es) = Disconnected)
   \<and> (\<exists>es s. \<not> running (reached es) \<and> wsRef (reached es) = Some s
     \<and> sock (ready (reached es)) s = CONNECTING \<and> last es = TimerFires 0 \<and> Render False \<in> set es)"
proof
  show "\<exists>es s. wsRef (reached es) = Some s \<and> sock (ready (reached es)) s = OPEN \<and> running (reached es)
      \<and> reported_status True (reached es) = Disconnected"
    by (rule exI [of _ "[Render True, SocketOpen 0, SocketClosing 0, Online, SocketOpen 1, SocketClose 0 0]"],
        rule exI [of _ 1]) (simp add: feed_eval reported_status_def)
  show "\<exists>es s. \<not> running (reached es) \<and> wsRef (reached es) = Some s
      \<and> sock (ready (reached es)) s = CONNECTING \<and> last es = TimerFires 0 \<and> Render False \<in> set es"
    by (rule exI [of _ "[Render True, SocketClosing 0, Online, SocketClose 0 0, SocketClose 1 0, Render False,
        TimerFires 0]"], rule exI [of _ 2]) (simp add: feed_eval)
qed

end
