(* ===== verification/Trade_Feed.thy ===== *)
theory Trade_Feed
  imports JS_Value
begin

text \<open>
  The rows of the platform-wide tape: validation of a frame
  (\<^verbatim>\<open>apps/web/lib/global-trade-frame.ts\<close>), the feed state on top of it
  (\<^verbatim>\<open>apps/web/hooks/use-live-trade-feed.ts\<close>, and the same handler in
  \<^verbatim>\<open>app/(public)/trades/TradesPageClient.tsx\<close>) and the merge with the REST page, which the trades
  page and the home page both contain.
\<close>

subsection \<open>Frames and trades\<close>

record GlobalTradeFrame =
  ftype :: "string option"
  fid :: "string option"
  fmarket_id :: "string option"
  fmarket_slug :: "string option"
  fmarket_question :: "string option"
  foutcome :: "string option"
  fside :: "string option"
  fprice :: "numstr option"
  famount :: "numstr option"
  fexecuted_at :: "string option"
  fusername :: "string option"

record Trade =
  trade_id :: string
  market_id :: string
  market_slug :: string
  market_question :: string
  outcome :: string
  side :: string
  price :: string
  amount :: string
  executed_at :: "string option"
  username :: string

definition falsy_string :: "string option \<Rightarrow> bool" where
  "falsy_string s \<longleftrightarrow> s = None \<or> s = Some []"

definition js_String :: "numstr \<Rightarrow> string" where
  "js_String v = (case v of Num n \<Rightarrow> num_to_string n | Str s \<Rightarrow> s)"

definition toTrade :: "GlobalTradeFrame \<Rightarrow> Trade option" where
  "toTrade frame =
     (if falsy_string (fid frame) \<or> falsy_string (fmarket_id frame) then None
      else if falsy_string (foutcome frame) \<or> falsy_string (fside frame) then None
      else
        (case (fprice frame, famount frame) of
           (Some p, Some a) \<Rightarrow>
             if \<not> is_finite_num (js_Number p) \<or> \<not> is_finite_num (js_Number a) then None
             else Some \<lparr>trade_id = the (fid frame), market_id = the (fmarket_id frame),
               market_slug = get_or (fmarket_slug frame) [],
               market_question = get_or (fmarket_question frame) [],
               outcome = the (foutcome frame), side = the (fside frame),
               price = js_String p, amount = js_String a, executed_at = fexecuted_at frame,
               username = get_or (fusername frame) ''Unknown''\<rparr>
         | _ \<Rightarrow> None))"

subsection \<open>The feed\<close>

record live_feed =
  wsTrades :: "Trade list"
  pendingCount :: nat
  seenIds :: "string list"
  refetches :: nat

definition empty_feed :: live_feed where
  "empty_feed = \<lparr>wsTrades = [], pendingCount = 0, seenIds = [], refetches = 0\<rparr>"

definition RESYNC :: string where "RESYNC = ''__ws_resync__''"

definition handleMessage :: "nat \<Rightarrow> GlobalTradeFrame \<Rightarrow> live_feed \<Rightarrow> live_feed" where
  "handleMessage mx frame s =
     (if ftype frame = Some RESYNC
      then s\<lparr>wsTrades := [], pendingCount := 0, seenIds := [], refetches := Suc (refetches s)\<rparr>
      else if ftype frame \<noteq> Some ''trade:new'' then s
      else
        (case toTrade frame of
           None \<Rightarrow> s
         | Some trade \<Rightarrow>
             if trade_id trade \<in> set (seenIds s) then s
             else
               (let s1 = s\<lparr>seenIds := set_add (trade_id trade) (seenIds s)\<rparr>
                in if list_ex (\<lambda>t. trade_id t = trade_id trade) (wsTrades s1) then s1
                   else if mx \<le> length (wsTrades s1) then s1\<lparr>pendingCount := Suc (pendingCount s1)\<rparr>
                   else s1\<lparr>wsTrades := trade # wsTrades s1\<rparr>)))"

definition scrollToTop :: "live_feed \<Rightarrow> live_feed" where
  "scrollToTop s = s\<lparr>wsTrades := [], pendingCount := 0\<rparr>"

text \<open>The effect of the trades page that marks the REST rows as seen.\<close>

definition seedSeen :: "Trade list \<Rightarrow> live_feed \<Rightarrow> live_feed" where
  "seedSeen restTrades s = s\<lparr>seenIds := fold set_add (map trade_id restTrades) (seenIds s)\<rparr>"

text \<open>The merge loop; it stops once the output is full.\<close>

fun merge_loop :: "nat \<Rightarrow> string list \<Rightarrow> Trade list \<Rightarrow> Trade list \<Rightarrow> Trade list" where
  "merge_loop mx seen out [] = out"
| "merge_loop mx seen out (t # ts) =
     (if trade_id t \<in> set seen then merge_loop mx seen out ts
      else if mx \<le> length (out @ [t]) then out @ [t]
      else merge_loop mx (set_add (trade_id t) seen) (out @ [t]) ts)"

definition mergedTrades :: "nat \<Rightarrow> Trade list \<Rightarrow> Trade list option \<Rightarrow> Trade list" where
  "mergedTrades mx ws rest = merge_loop mx [] [] (ws @ get_or rest [])"

datatype feed_action = Message GlobalTradeFrame | ScrollToTop | Seed "Trade list"

fun feed_action_step :: "nat \<Rightarrow> feed_action \<Rightarrow> live_feed \<Rightarrow> live_feed" where
  "feed_action_step mx (Message f) s = handleMessage mx f s"
| "feed_action_step mx ScrollToTop s = scrollToTop s"
| "feed_action_step mx (Seed ts) s = seedSeen ts s"

subsection \<open>Reference: first occurrence of every id\<close>

fun firsts :: "string list \<Rightarrow> Trade list \<Rightarrow> Trade list" where
  "firsts seen [] = []"
| "firsts seen (t # ts) =
     (if trade_id t \<in> set seen then firsts seen ts else t # firsts (trade_id t # seen) ts)"

lemma firsts_cong: "set seen = set seen' \<Longrightarrow> firsts seen ts = firsts seen' ts"
proof (induction ts arbitrary: seen seen')
  case (Cons t ts)
  have "set (trade_id t # seen) = set (trade_id t # seen')" using Cons.prems by simp
  from Cons.IH [OF Cons.prems] Cons.IH [OF this] Cons.prems show ?case by simp
qed simp

lemma merge_loop_firsts:
  "length out < mx \<Longrightarrow> merge_loop mx seen out ts = out @ take (mx - length out) (firsts seen ts)"
proof (induction ts arbitrary: seen out)
  case (Cons t ts)
  show ?case
  proof (cases "trade_id t \<in> set seen")
    case False
    have f: "firsts (set_add (trade_id t) seen) ts = firsts (trade_id t # seen) ts"
      by (rule firsts_cong) (simp add: js_simps)
    show ?thesis
    proof (cases "mx \<le> Suc (length out)")
      case True
      then have "mx - length out = 1" using Cons.prems by simp
      with True False show ?thesis by simp
    next
      case full: False
      then have "mx - length out = Suc (mx - Suc (length out))" using Cons.prems by simp
      with full False Cons.IH [of "out @ [t]" "set_add (trade_id t) seen"] f show ?thesis by simp
    qed
  qed (use Cons in simp)
qed simp

lemma firsts_ids:
  "set (map trade_id (firsts seen ts)) = set (map trade_id ts) - set seen"
  "distinct (map trade_id (firsts seen ts))"
proof -
  show *: "set (map trade_id (firsts seen ts)) = set (map trade_id ts) - set seen" for seen ts
    by (induction ts arbitrary: seen) auto
  show "distinct (map trade_id (firsts seen ts))"
  proof (induction ts arbitrary: seen)
    case (Cons t ts)
    have "trade_id t \<notin> set (map trade_id (firsts (trade_id t # seen) ts))" unfolding * by simp
    with Cons show ?case by simp
  qed simp
qed

lemma firsts_prefix: "distinct (map trade_id ws) \<Longrightarrow> firsts [] (ws @ ts) = ws @ firsts (rev (map trade_id ws)) ts"
proof -
  have "firsts seen (ws @ ts) = ws @ firsts (rev (map trade_id ws) @ seen) ts"
    if "distinct (map trade_id ws)" "set seen \<inter> set (map trade_id ws) = {}" for seen
    using that
  proof (induction ws arbitrary: seen)
    case (Cons t ws)
    have "firsts (trade_id t # seen) (ws @ ts) = ws @ firsts (rev (map trade_id ws) @ trade_id t # seen) ts"
      using Cons.prems by (intro Cons.IH) auto
    then show ?case using Cons.prems by auto
  qed simp
  from this [of "[]"] show "distinct (map trade_id ws) \<Longrightarrow> ?thesis" by simp
qed

subsection \<open>Invariant of the feed\<close>

definition feed_ok :: "nat \<Rightarrow> live_feed \<Rightarrow> bool" where
  "feed_ok mx s \<longleftrightarrow>
     distinct (map trade_id (wsTrades s)) \<and> set (map trade_id (wsTrades s)) \<subseteq> set (seenIds s)
     \<and> length (wsTrades s) \<le> mx \<and> distinct (seenIds s)"

lemma set_fold_add: "set (fold set_add xs acc) = set acc \<union> set xs"
  by (induction xs arbitrary: acc) (simp_all add: js_simps)

lemma distinct_fold_add: "distinct acc \<Longrightarrow> distinct (fold set_add xs acc)"
  by (induction xs arbitrary: acc) (simp_all add: distinct_set_add)

lemma feed_ok_step: "feed_ok mx s \<Longrightarrow> feed_ok mx (feed_action_step mx a s)"
proof (cases a)
  case (Message f)
  assume "feed_ok mx s"
  with Message show ?thesis
    by (auto simp: feed_ok_def handleMessage_def Let_def js_simps distinct_set_add list_ex_iff split: option.splits)
next
  case (Seed ts)
  assume "feed_ok mx s"
  with Seed show ?thesis by (auto simp: feed_ok_def seedSeen_def set_fold_add distinct_fold_add)
qed (simp add: feed_ok_def scrollToTop_def)

interpretation tf: invariant_system empty_feed "feed_action_step mx" "feed_ok mx" for mx
  by unfold_locales (simp add: feed_ok_def empty_feed_def, rule feed_ok_step)

subsection \<open>Properties\<close>

text \<open>
  C25. No duplicate rows: whatever frames, scrolls and REST pages arrived, the rendered tape (the
  merge of the live rows with any REST page) has each trade id at most once, at most the maximum
  number of rows, the live rows come first and unchanged, and it is exactly the first rows of the
  two sources with repeated ids dropped.
\<close>

theorem tape_merge_correct:
  assumes "0 < mx"
  shows "(let ws = wsTrades (fold (feed_action_step mx) acts empty_feed);
              tape = mergedTrades mx ws rest
          in distinct (map trade_id tape) \<and> length tape \<le> mx
             \<and> take (length ws) tape = ws
             \<and> tape = take mx (firsts [] (ws @ get_or rest [])))"
proof -
  let ?ws = "wsTrades (fold (feed_action_step mx) acts empty_feed)"
  let ?all = "firsts [] (?ws @ get_or rest [])"
  have ok: "feed_ok mx (fold (feed_action_step mx) acts empty_feed)" by (rule tf.reachable_inv)
  then have d: "distinct (map trade_id ?ws)" and l: "length ?ws \<le> mx" by (simp_all add: feed_ok_def)
  have m: "mergedTrades mx ?ws rest = take mx ?all"
    using assms merge_loop_firsts [of "[]" mx "[]"] by (simp add: mergedTrades_def)
  have "distinct (map trade_id (take mx ?all))"
    using firsts_ids(2) [of "[]"] by (metis distinct_take take_map)
  moreover have "take (length ?ws) (take mx ?all) = ?ws"
    using l by (simp add: firsts_prefix [OF d])
  ultimately show ?thesis unfolding Let_def m by simp
qed

definition sample_frame :: "string \<Rightarrow> GlobalTradeFrame" where
  "sample_frame i =
     \<lparr>ftype = Some ''trade:new'', fid = Some i, fmarket_id = Some ''m'', fmarket_slug = None,
      fmarket_question = None, foutcome = Some ''YES'', fside = Some ''buy'',
      fprice = Some (Num (Fin 1)), famount = Some (Num (Fin 2)), fexecuted_at = None, fusername = None\<rparr>"

theorem tape_merge_correct_witness:
  "length (mergedTrades 1 (wsTrades (fold (feed_action_step 1) [Message (sample_frame ''a'')] empty_feed)) None) \<le> 1"
  using tape_merge_correct [of 1 "[Message (sample_frame ''a'')]" None] by (simp add: Let_def)

text \<open>
  A frame is accepted exactly when it names an id, a market, an outcome and a side and its
  price and amount are present and read as finite numbers; an accepted row keeps them verbatim.
  A missing price is thus never shown as zero.
\<close>

theorem toTrade_accepts_iff:
  "(toTrade f \<noteq> None) =
     (\<not> falsy_string (fid f) \<and> \<not> falsy_string (fmarket_id f) \<and> \<not> falsy_string (foutcome f)
      \<and> \<not> falsy_string (fside f)
      \<and> (\<exists>p a. fprice f = Some p \<and> famount f = Some a
           \<and> is_finite_num (js_Number p) \<and> is_finite_num (js_Number a)))
   \<and> (toTrade f \<noteq> None \<longrightarrow>
        fid f = Some (trade_id (the (toTrade f)))
        \<and> fprice f \<in> {Some (Str (price (the (toTrade f))))} \<union> range (\<lambda>n. Some (Num n)))"
  by (cases "fprice f"; cases "famount f")
    (auto simp: toTrade_def falsy_string_def js_String_def split: numstr.splits)

theorem toTrade_accepts_iff_witness: "fid (sample_frame ''a'') = Some (trade_id (the (toTrade (sample_frame ''a''))))"
proof -
  have "toTrade (sample_frame ''a'') \<noteq> None"
    by (simp add: toTrade_def sample_frame_def falsy_string_def is_finite_num_def)
  then show ?thesis using toTrade_accepts_iff [of "sample_frame ''a''"] by blast
qed

text \<open>
  A full tape freezes: once the live rows have reached the maximum, no trade frame changes
  them, however many arrive, so a page that shows the live rows and never scrolls to the top (the
  home page) stops following the market; and scrolling to the top drops the waiting rows, which a
  repeated frame cannot bring back.
\<close>

theorem full_tape_freezes:
  assumes "length (wsTrades s) = mx" "\<forall>f \<in> set fs. ftype f = Some ''trade:new''"
  shows "wsTrades (fold (handleMessage mx) fs s) = wsTrades s
    \<and> (\<forall>f \<in> set fs. toTrade f \<noteq> None \<longrightarrow>
         handleMessage mx f (scrollToTop (fold (handleMessage mx) fs s)) = scrollToTop (fold (handleMessage mx) fs s))"
proof -
  have "wsTrades (fold (handleMessage mx) fs s) = wsTrades s
      \<and> set (seenIds s) \<subseteq> set (seenIds (fold (handleMessage mx) fs s))
      \<and> (\<forall>f \<in> set fs. \<forall>t. toTrade f = Some t \<longrightarrow> trade_id t \<in> set (seenIds (fold (handleMessage mx) fs s)))"
    using assms
  proof (induction fs arbitrary: s)
    case (Cons f fs)
    have r: "ftype f \<noteq> Some RESYNC" using Cons.prems(2) by (simp add: RESYNC_def)
    have w: "wsTrades (handleMessage mx f s) = wsTrades s"
      using Cons.prems(1) r by (auto simp: handleMessage_def Let_def split: option.splits)
    have m: "set (seenIds s) \<subseteq> set (seenIds (handleMessage mx f s))"
      using r by (auto simp: handleMessage_def Let_def js_simps split: option.splits)
    have i: "\<forall>t. toTrade f = Some t \<longrightarrow> trade_id t \<in> set (seenIds (handleMessage mx f s))"
      using Cons.prems(2) r by (auto simp: handleMessage_def Let_def js_simps)
    show ?case
      using Cons.IH [of "handleMessage mx f s"] Cons.prems w m i by auto
  qed simp
  then show ?thesis using assms(2) by (auto simp: handleMessage_def scrollToTop_def RESYNC_def)
qed

theorem full_tape_freezes_witness:
  "wsTrades (fold (handleMessage 0) [sample_frame ''a'', sample_frame ''b''] empty_feed) = []"
  using full_tape_freezes [of empty_feed 0 "[sample_frame ''a'', sample_frame ''b'']"]
  by (simp add: empty_feed_def sample_frame_def)

end
