(* ===== verification/Live_Price.thy ===== *)
theory Live_Price
  imports JS_Value
begin

text \<open>
  \<^verbatim>\<open>apps/web/lib/live-price.ts\<close>: the pure helpers that turn price frames, price history and the
  orderbook into what the market pages display.

  A frame's number is \<open>jsnum option\<close>: \<open>None\<close> is a missing or null value, and a number that is not
  finite is kept, since \<open>isFiniteNumber\<close> has to reject it. A plain object is an association list in
  enumeration order. \<open>patchMarketPrices\<close> and \<open>applyLivePrices\<close> return the same reference when there
  is nothing to write; the result is paired with whether a new object was made. \<open>Date\<close> parsing of
  the history's timestamps is the parameter \<open>getTime\<close>.
\<close>

subsection \<open>Frames and points\<close>

record PriceUpdateMessage =
  yes_price :: "jsnum option"
  no_price :: "jsnum option"
  outcome_prices :: "(string \<times> jsnum option) list option"

type_synonym LivePricePoint = "(string \<times> jsnum) list"

definition isFiniteNumber :: "jsnum option \<Rightarrow> bool" where
  "isFiniteNumber v = (case v of None \<Rightarrow> False | Some n \<Rightarrow> is_finite_num n)"

definition add_price :: "string \<times> jsnum option \<Rightarrow> LivePricePoint \<Rightarrow> LivePricePoint" where
  "add_price e point = (if isFiniteNumber (snd e) then map_set (fst e) (the (snd e)) point else point)"

definition buildLivePricePoint :: "PriceUpdateMessage \<Rightarrow> jsnum \<Rightarrow> LivePricePoint option" where
  "buildLivePricePoint msg now =
     (let point = [(''time'', now)];
          entries = get_or (outcome_prices msg) []
      in case entries of
           first # _ \<Rightarrow>
             if isFiniteNumber (snd first)
             then Some (fold add_price entries (map_set ''value'' (the (snd first)) point))
             else None
         | [] \<Rightarrow>
             if isFiniteNumber (yes_price msg) \<and> isFiniteNumber (no_price msg)
             then Some (map_set ''No'' (the (no_price msg))
                    (map_set ''Yes'' (the (yes_price msg))
                      (map_set ''value'' (the (yes_price msg)) point)))
             else None)"

subsection \<open>Outcome prices\<close>

record MarketOutcomeCache =
  oid :: "string option"
  oname :: "string option"
  oprice :: "numstr option"

type_synonym book_side = "numstr list option"

record book =
  bids :: book_side
  asks :: book_side

definition finite_levels :: "book_side \<Rightarrow> jsnum list" where
  "finite_levels side = filter is_finite_num (map js_Number (get_or side []))"

definition api_price :: "MarketOutcomeCache \<Rightarrow> (string \<times> jsnum) list \<Rightarrow> (string \<times> jsnum) list" where
  "api_price outcome m =
     (case (oname outcome, oprice outcome) of
        (Some n, Some p) \<Rightarrow>
          if is_finite_num (js_Number p) then map_set (to_lower n) (js_Number p) m else m
      | _ \<Rightarrow> m)"

definition book_price :: "string \<times> book \<Rightarrow> (string \<times> jsnum) list \<Rightarrow> (string \<times> jsnum) list" where
  "book_price e m =
     (let key = to_lower (fst e)
      in if map_has m key then m
         else
           (let bs = finite_levels (bids (snd e));
                as = finite_levels (asks (snd e));
                bestBid = (if bs \<noteq> [] then js_max bs else NaN);
                bestAsk = (if as \<noteq> [] then js_min as else NaN)
            in if is_finite_num bestBid \<and> is_finite_num bestAsk
               then map_set key (js_div (js_add bestBid bestAsk) (Fin 2)) m
               else if is_finite_num bestAsk then map_set key bestAsk m
               else if is_finite_num bestBid then map_set key bestBid m
               else m))"

definition buildOutcomePrices ::
  "MarketOutcomeCache list option \<Rightarrow> (string \<times> book) list option \<Rightarrow> (string \<times> jsnum) list" where
  "buildOutcomePrices outcomes orderbook =
     fold book_price (get_or orderbook []) (fold api_price (get_or outcomes []) [])"

subsection \<open>Price history\<close>

record history_outcome =
  hname :: "string option"
  hprice :: "numstr option"

record PriceHistorySample =
  timestamp :: string
  houtcomes :: "history_outcome list option"

definition opt_Number :: "numstr option \<Rightarrow> jsnum" where
  "opt_Number v = (case v of None \<Rightarrow> NaN | Some p \<Rightarrow> js_Number p)"

definition add_history :: "history_outcome \<Rightarrow> LivePricePoint \<Rightarrow> LivePricePoint" where
  "add_history o' point =
     (let price = opt_Number (hprice o')
      in case hname o' of
           None \<Rightarrow> point
         | Some n \<Rightarrow> if is_finite_num price \<and> n \<noteq> [] then map_set n price point else point)"

definition history_point :: "(string \<Rightarrow> jsnum) \<Rightarrow> PriceHistorySample \<Rightarrow> LivePricePoint option" where
  "history_point getTime sample =
     (let os = get_or (houtcomes sample) [];
          value = (case os of [] \<Rightarrow> NaN | o1 # _ \<Rightarrow> opt_Number (hprice o1))
      in if \<not> is_finite_num value then None
         else
           (let parsedTime = js_div (getTime (timestamp sample)) (Fin 1000)
            in if \<not> is_finite_num parsedTime then None
               else Some (fold add_history os [(''time'', parsedTime), (''value'', value)])))"

definition priceHistoryToPoints ::
  "(string \<Rightarrow> jsnum) \<Rightarrow> PriceHistorySample list option \<Rightarrow> LivePricePoint list" where
  "priceHistoryToPoints getTime samples = List.map_filter (history_point getTime) (get_or samples [])"

subsection \<open>Patching the cached market\<close>

text \<open>The patched fields; \<open>other\<close> are the remaining ones, which the spread keeps.\<close>

record market_cache =
  cyes_price :: "numstr option"
  cno_price :: "numstr option"
  outcomes :: "MarketOutcomeCache list option"
  other :: "(string \<times> jsval) list"

text \<open>\<open>prices[key]\<close> on the frame's object.\<close>

definition quote_at :: "(string \<times> jsnum option) list \<Rightarrow> string \<Rightarrow> jsnum option" where
  "quote_at ps key = get_or (map_of ps key) None"

definition same_price :: "jsnum \<Rightarrow> numstr option \<Rightarrow> bool" where
  "same_price p q = (case q of Some (Num n) \<Rightarrow> js_eq p n | _ \<Rightarrow> False)"

text \<open>The two functions have a loop each, a \<open>map\<close> whose callback sets a flag of the enclosing
  function: \<open>changed\<close> in \<open>patchMarketPrices\<close>, \<open>outcomesChanged\<close> in \<open>applyLivePrices\<close>.\<close>

primrec patch_loop ::
  "(string \<times> jsnum option) list \<Rightarrow> bool \<Rightarrow> MarketOutcomeCache list \<Rightarrow> bool \<times> MarketOutcomeCache list" where
  "patch_loop outcomePrices changed [] = (changed, [])"
| "patch_loop outcomePrices changed (outcome # rest) =
     (let price = or_else (quote_at outcomePrices (get_or (oname outcome) []))
                    (quote_at outcomePrices (to_lower (get_or (oname outcome) [])))
      in if \<not> isFiniteNumber price \<or> same_price (the price) (oprice outcome)
         then apsnd ((#) outcome) (patch_loop outcomePrices changed rest)
         else apsnd ((#) (outcome\<lparr>oprice := map_option Num price\<rparr>)) (patch_loop outcomePrices True rest))"

definition patch_outcomes ::
  "(string \<times> jsnum option) list option \<Rightarrow> MarketOutcomeCache list option \<Rightarrow> MarketOutcomeCache list option" where
  "patch_outcomes outcomePrices os =
     (case (outcomePrices, os) of
        (Some ps, Some xs) \<Rightarrow>
          if xs \<noteq> []
          then (let (changed, nextOutcomes) = patch_loop ps False xs in if changed then Some nextOutcomes else None)
          else None
      | _ \<Rightarrow> None)"

definition patchMarketPrices :: "market_cache option \<Rightarrow> PriceUpdateMessage \<Rightarrow> bool \<times> market_cache option" where
  "patchMarketPrices prev msg =
     (case prev of
        None \<Rightarrow> (False, None)
      | Some m \<Rightarrow>
          (let y = (if isFiniteNumber (yes_price msg) then Some (Str (num_to_string (the (yes_price msg)))) else None);
               n = (if isFiniteNumber (no_price msg) then Some (Str (num_to_string (the (no_price msg)))) else None);
               os = patch_outcomes (outcome_prices msg) (outcomes m)
           in if y = None \<and> n = None \<and> os = None then (False, Some m)
              else (True, Some (m\<lparr>cyes_price := or_else y (cyes_price m), cno_price := or_else n (cno_price m),
                                 outcomes := or_else os (outcomes m)\<rparr>))))"

primrec overlay_loop ::
  "(string \<times> jsnum option) list \<Rightarrow> bool \<Rightarrow> MarketOutcomeCache list \<Rightarrow> bool \<times> MarketOutcomeCache list" where
  "overlay_loop prices outcomesChanged [] = (outcomesChanged, [])"
| "overlay_loop prices outcomesChanged (outcome # rest) =
     (let name = get_or (oname outcome) [];
          price = or_else (quote_at prices name) (quote_at prices (to_lower name))
      in if \<not> isFiniteNumber price \<or> same_price (the price) (oprice outcome)
         then apsnd ((#) outcome) (overlay_loop prices outcomesChanged rest)
         else apsnd ((#) (outcome\<lparr>oprice := map_option Num price\<rparr>)) (overlay_loop prices True rest))"

text \<open>The object \<open>patch\<close> and the flag \<open>changed\<close> of \<open>applyLivePrices\<close>, written in three stages.\<close>

definition overlay_yes :: "PriceUpdateMessage \<Rightarrow> bool \<times> market_cache \<Rightarrow> bool \<times> market_cache" where
  "overlay_yes live acc =
     (if isFiniteNumber (yes_price live)
      then (True, (snd acc)\<lparr>cyes_price := map_option Num (yes_price live)\<rparr>) else acc)"

definition overlay_no :: "PriceUpdateMessage \<Rightarrow> bool \<times> market_cache \<Rightarrow> bool \<times> market_cache" where
  "overlay_no live acc =
     (if isFiniteNumber (no_price live)
      then (True, (snd acc)\<lparr>cno_price := map_option Num (no_price live)\<rparr>) else acc)"

definition overlay_outcomes :: "market_cache \<Rightarrow> PriceUpdateMessage \<Rightarrow> bool \<times> market_cache \<Rightarrow> bool \<times> market_cache" where
  "overlay_outcomes market live acc =
     (case (outcome_prices live, outcomes market) of
        (Some ps, Some (x # xs)) \<Rightarrow>
          (let (outcomesChanged, nxt) = overlay_loop ps False (x # xs)
           in if outcomesChanged then (True, (snd acc)\<lparr>outcomes := Some nxt\<rparr>) else acc)
      | _ \<Rightarrow> acc)"

definition applyLivePrices :: "market_cache \<Rightarrow> PriceUpdateMessage option \<Rightarrow> bool \<times> market_cache" where
  "applyLivePrices market live =
     (case live of
        None \<Rightarrow> (False, market)
      | Some msg \<Rightarrow>
          (let (changed, patched) = overlay_outcomes market msg (overlay_no msg (overlay_yes msg (False, market)))
           in if changed then (True, patched) else (False, market)))"

subsection \<open>Arithmetic of the midpoint\<close>

lemma round64_twice:
  assumes "round64 x = x"
  shows "round64 (2 * x) = 2 * x"
proof (cases "x = 0")
  case False
  let ?k = "round_half_even (x / 2 powi ulp_exp x)"
  have x: "x = of_int ?k * 2 powi ulp_exp x" using assms False by (simp add: round64_def)
  have "2 * x = of_int ?k * 2 powi (ulp_exp x + 1)"
    by (subst x) (simp add: power_int_add)
  moreover have "- 1074 \<le> ulp_exp x + 1" by (simp add: ulp_exp_def)
  ultimately show ?thesis using round64_exact [OF round64_significand [OF False]] by metis
qed (simp add: round64_def)

lemma is_double_twice:
  assumes "is_double x" "\<bar>x\<bar> \<le> 2 ^ 50"
  shows "is_double (2 * x)"
proof (rule is_doubleI)
  show "round64 (2 * x) = 2 * x" using assms(1) round64_twice by (simp add: is_double_def)
  show "\<bar>2 * x\<bar> < 2 ^ 60" using assms(2) by (simp add: abs_mult)
qed

text \<open>The computed midpoint of two prices lies between them, rounding included.\<close>

lemma midpoint_between:
  assumes "is_double a" "is_double b" "a \<le> b" "\<bar>a\<bar> \<le> 2 ^ 50" "\<bar>b\<bar> \<le> 2 ^ 50"
  shows "\<exists>m. js_div (of_rat_js (a + b)) (Fin 2) = Fin m \<and> a \<le> m \<and> m \<le> b"
proof -
  have "2 * a \<le> a + b" "a + b \<le> 2 * b" using assms(3) by simp_all
  from of_rat_js_bounded [OF is_double_twice [OF assms(1,4)] is_double_twice [OF assms(2,5)] this]
  obtain s where s: "of_rat_js (a + b) = Fin s" "2 * a \<le> s" "s \<le> 2 * b" by blast
  then have "a \<le> s / 2" "s / 2 \<le> b" by simp_all
  from of_rat_js_bounded [OF assms(1,2) this] obtain m where "of_rat_js (s / 2) = Fin m" "a \<le> m" "m \<le> b"
    by blast
  then show ?thesis by (simp add: s(1))
qed

lemma js_max_finite:
  assumes "xs \<noteq> []" "\<forall>x \<in> set xs. is_finite_num x"
  shows "\<exists>m. js_max xs = Fin m \<and> Fin m \<in> set xs \<and> (\<forall>q. Fin q \<in> set xs \<longrightarrow> q \<le> m)"
proof -
  have *: "\<exists>m. foldl js_max2 (Fin a) xs = Fin m \<and> Fin m \<in> insert (Fin a) (set xs)
      \<and> a \<le> m \<and> (\<forall>q. Fin q \<in> set xs \<longrightarrow> q \<le> m)" if "\<forall>x \<in> set xs. is_finite_num x" for a xs
    using that
  proof (induction xs arbitrary: a)
    case (Cons x xs)
    then obtain q where q: "x = Fin q" by (cases x) (auto simp: is_finite_num_def)
    have "js_max2 (Fin a) x = Fin (max a q)" by (simp add: js_max2_def q max_def)
    with Cons.IH [of "max a q"] Cons.prems obtain m where
      m: "foldl js_max2 (Fin a) (x # xs) = Fin m" "Fin m \<in> insert (Fin (max a q)) (set xs)"
        "max a q \<le> m" "\<forall>p. Fin p \<in> set xs \<longrightarrow> p \<le> m" by auto
    have "Fin m \<in> insert (Fin a) (set (x # xs))" using m(2) q by (auto simp: max_def split: if_splits)
    with m q show ?case by auto
  qed simp
  obtain y ys where xs: "xs = y # ys" using assms(1) by (cases xs) auto
  then obtain a where a: "y = Fin a" using assms(2) by (cases y) (auto simp: is_finite_num_def)
  have "js_max xs = foldl js_max2 (Fin a) ys" by (simp add: js_max_def xs a js_max2_def)
  with * [of ys a] assms(2) show ?thesis by (auto simp: xs a)
qed

lemma js_min_finite:
  assumes "xs \<noteq> []" "\<forall>x \<in> set xs. is_finite_num x"
  shows "\<exists>m. js_min xs = Fin m \<and> Fin m \<in> set xs \<and> (\<forall>q. Fin q \<in> set xs \<longrightarrow> m \<le> q)"
proof -
  have *: "\<exists>m. foldl js_min2 (Fin a) xs = Fin m \<and> Fin m \<in> insert (Fin a) (set xs)
      \<and> m \<le> a \<and> (\<forall>q. Fin q \<in> set xs \<longrightarrow> m \<le> q)" if "\<forall>x \<in> set xs. is_finite_num x" for a xs
    using that
  proof (induction xs arbitrary: a)
    case (Cons x xs)
    then obtain q where q: "x = Fin q" by (cases x) (auto simp: is_finite_num_def)
    have "js_min2 (Fin a) x = Fin (min a q)" by (auto simp: js_min2_def q min_def)
    with Cons.IH [of "min a q"] Cons.prems obtain m where
      m: "foldl js_min2 (Fin a) (x # xs) = Fin m" "Fin m \<in> insert (Fin (min a q)) (set xs)"
        "m \<le> min a q" "\<forall>p. Fin p \<in> set xs \<longrightarrow> m \<le> p" by auto
    have "Fin m \<in> insert (Fin a) (set (x # xs))" using m(2) q by (auto simp: min_def split: if_splits)
    with m q show ?case by auto
  qed simp
  obtain y ys where xs: "xs = y # ys" using assms(1) by (cases xs) auto
  then obtain a where a: "y = Fin a" using assms(2) by (cases y) (auto simp: is_finite_num_def)
  have "js_min xs = foldl js_min2 (Fin a) ys" by (simp add: js_min_def xs a js_min2_def)
  with * [of ys a] assms(2) show ?thesis by (auto simp: xs a)
qed

subsection \<open>Maps built by folds\<close>

lemma add_price_keeps:
  "fst e \<noteq> k \<Longrightarrow> map_of (add_price e p) k = map_of p k"
  by (simp add: add_price_def js_simps)

lemma fold_add_price_other:
  "k \<notin> fst ` set es \<Longrightarrow> map_of (fold add_price es p) k = map_of p k"
  by (induction es arbitrary: p) (auto simp: add_price_keeps)

lemma fold_add_price_at:
  assumes "distinct (map fst es)" "(k, v) \<in> set es" "isFiniteNumber v"
  shows "map_of (fold add_price es p) k = v"
  using assms
proof (induction es arbitrary: p)
  case (Cons e es)
  show ?case
  proof (cases "e = (k, v)")
    case True
    then have "k \<notin> fst ` set es" using Cons.prems(1) by simp
    then have "map_of (fold add_price es (add_price e p)) k = map_of (add_price e p) k"
      by (rule fold_add_price_other)
    also have "\<dots> = v"
      using True Cons.prems(3) by (cases v) (simp_all add: add_price_def js_simps isFiniteNumber_def)
    finally show ?thesis by simp
  next
    case False
    then show ?thesis using Cons by auto
  qed
qed simp

text \<open>Every price in a built point comes from the frame.\<close>

lemma fold_add_price_source:
  "map_of (fold add_price es p) k = Some v \<Longrightarrow> map_of p k = Some v \<or> is_finite_num v \<and> (k, Some v) \<in> set es"
proof (induction es arbitrary: p)
  case (Cons e es)
  from Cons.IH [of "add_price e p"] Cons.prems
  have "map_of (add_price e p) k = Some v \<or> is_finite_num v \<and> (k, Some v) \<in> set es" by simp
  then show ?case
    by (cases e; cases "snd e")
      (auto simp: add_price_def js_simps isFiniteNumber_def split: if_splits)
qed simp

lemma fold_book_keeps: "map_of m k \<noteq> None \<Longrightarrow> map_of (fold book_price es m) k = map_of m k"
proof (induction es arbitrary: m)
  case (Cons e es)
  have "map_of (book_price e m) k = map_of m k"
    using Cons.prems by (auto simp: book_price_def Let_def map_has_def js_simps)
  then show ?case using Cons.IH [of "book_price e m"] Cons.prems by simp
qed simp

lemma fold_book_other:
  "k \<notin> (\<lambda>e. to_lower (fst e)) ` set es \<Longrightarrow> map_of (fold book_price es m) k = map_of m k"
proof (induction es arbitrary: m)
  case (Cons e es)
  have "map_of (book_price e m) k = map_of m k"
    using Cons.prems by (auto simp: book_price_def Let_def js_simps)
  then show ?case using Cons by simp
qed simp

lemma fold_book_at:
  assumes "distinct (map (\<lambda>e. to_lower (fst e)) es)" "e \<in> set es" "map_of m (to_lower (fst e)) = None"
  shows "map_of (fold book_price es m) (to_lower (fst e)) = map_of (book_price e []) (to_lower (fst e))"
  using assms
proof (induction es arbitrary: m)
  case (Cons e' es)
  show ?case
  proof (cases "e = e'")
    case True
    then have "to_lower (fst e) \<notin> (\<lambda>e. to_lower (fst e)) ` set es" using Cons.prems(1) by simp
    then have "map_of (fold book_price es (book_price e m)) (to_lower (fst e)) = map_of (book_price e m) (to_lower (fst e))"
      by (rule fold_book_other)
    also have "\<dots> = map_of (book_price e []) (to_lower (fst e))"
      using Cons.prems(3) by (simp add: book_price_def Let_def map_has_def js_simps)
    finally show ?thesis using True by simp
  next
    case False
    then have "to_lower (fst e') \<noteq> to_lower (fst e)" using Cons.prems by (auto simp: image_iff)
    then have "map_of (book_price e' m) (to_lower (fst e)) = None"
      using Cons.prems(3) by (simp add: book_price_def Let_def js_simps)
    then show ?thesis using Cons.IH [of "book_price e' m"] Cons.prems False by simp
  qed
qed simp

lemma finite_levels_finite: "\<forall>x \<in> set (finite_levels side). is_finite_num x"
  by (simp add: finite_levels_def)

subsection \<open>Properties\<close>

text \<open>
  A price frame produces a chart point only from prices it carries: the point is dropped
  unless the first outcome (or both sides of a binary market) has a finite price, every value
  except the time is a finite number of the frame, and every outcome with a finite price gets
  exactly that price, so a missing price is never drawn as zero.
\<close>

theorem live_point_faithful:
  assumes "outcome_prices msg = Some ps" "ps \<noteq> []" "distinct (map fst ps)"
    "''time'' \<notin> fst ` set ps" "''value'' \<notin> fst ` set ps"
  shows "case buildLivePricePoint msg now of
      None \<Rightarrow> \<not> isFiniteNumber (snd (hd ps))
    | Some point \<Rightarrow>
        map_of point ''time'' = Some now \<and> map_of point ''value'' = snd (hd ps)
        \<and> (\<forall>k v. (k, v) \<in> set ps \<and> isFiniteNumber v \<longrightarrow> map_of point k = v)
        \<and> (\<forall>k v. k \<noteq> ''time'' \<and> k \<noteq> ''value'' \<and> map_of point k = Some v \<longrightarrow>
             is_finite_num v \<and> (k, Some v) \<in> set ps)"
proof (cases "isFiniteNumber (snd (hd ps))")
  case True
  let ?p = "map_set ''value'' (the (snd (hd ps))) [(''time'', now)]"
  have b: "buildLivePricePoint msg now = Some (fold add_price ps ?p)"
    using True assms(1,2) by (cases ps) (simp_all add: buildLivePricePoint_def get_or_def)
  have "map_of (fold add_price ps ?p) ''time'' = Some now"
    using fold_add_price_other [OF assms(4)] by (simp add: js_simps)
  moreover have "map_of (fold add_price ps ?p) ''value'' = snd (hd ps)"
    using fold_add_price_other [OF assms(5)] True by (cases "snd (hd ps)") (simp_all add: js_simps isFiniteNumber_def)
  moreover have "\<forall>k v. (k, v) \<in> set ps \<and> isFiniteNumber v \<longrightarrow> map_of (fold add_price ps ?p) k = v"
    using fold_add_price_at [OF assms(3)] by blast
  moreover have "\<forall>k v. k \<noteq> ''time'' \<and> k \<noteq> ''value'' \<and> map_of (fold add_price ps ?p) k = Some v \<longrightarrow>
      is_finite_num v \<and> (k, Some v) \<in> set ps"
  proof (intro allI impI, elim conjE)
    fix k v assume k: "k \<noteq> ''time''" "k \<noteq> ''value''" "map_of (fold add_price ps ?p) k = Some v"
    then have "map_of ?p k \<noteq> Some v" by (simp add: js_simps)
    with fold_add_price_source [OF k(3)] show "is_finite_num v \<and> (k, Some v) \<in> set ps" by blast
  qed
  ultimately show ?thesis unfolding b by simp
next
  case False
  then have "buildLivePricePoint msg now = None"
    using assms(1,2) by (cases ps) (simp_all add: buildLivePricePoint_def get_or_def)
  then show ?thesis using False by simp
qed

theorem live_point_faithful_witness:
  "map_of (the (buildLivePricePoint \<lparr>yes_price = None, no_price = None,
      outcome_prices = Some [(''A'', Some (Fin (1/4))), (''B'', None)]\<rparr> (Fin 5))) ''value'' = Some (Fin (1/4))"
proof -
  let ?m = "\<lparr>yes_price = None, no_price = None,
      outcome_prices = Some [(''A'', Some (Fin (1/4))), (''B'', None)]\<rparr> :: PriceUpdateMessage"
  let ?ps = "[(''A'', Some (Fin (1/4))), (''B'', None)]"
  obtain point where point: "buildLivePricePoint ?m (Fin 5) = Some point"
    by (simp add: buildLivePricePoint_def get_or_def isFiniteNumber_def is_finite_num_def)
  have "outcome_prices ?m = Some ?ps" "?ps \<noteq> []" "distinct (map fst ?ps)" "''time'' \<notin> fst ` set ?ps"
    "''value'' \<notin> fst ` set ?ps" by simp_all
  from live_point_faithful [OF this, of "Fin 5"] have "map_of point ''value'' = snd (hd ?ps)"
    unfolding point option.case by blast
  then show ?thesis unfolding point by simp
qed

text \<open>The prices the API quotes for an outcome: the finite ones of the entries with its name.\<close>

definition api_quotes :: "MarketOutcomeCache list option \<Rightarrow> string \<Rightarrow> jsnum list" where
  "api_quotes os k =
     filter is_finite_num
       (concat (map (\<lambda>oc. case (oname oc, oprice oc) of
            (Some n, Some p) \<Rightarrow> if to_lower n = k then [js_Number p] else []
          | _ \<Rightarrow> []) (get_or os [])))"

lemma fold_api_price:
  "map_of (fold api_price xs m) k =
     (if api_quotes (Some xs) k = [] then map_of m k else Some (last (api_quotes (Some xs) k)))"
  by (induction xs arbitrary: m)
    (auto simp: api_quotes_def api_price_def get_or_def js_simps split: option.splits)

lemma api_price_at:
  "map_of (buildOutcomePrices os None) k = (if api_quotes os k = [] then None else Some (last (api_quotes os k)))"
  using fold_api_price [of "get_or os []" "[]" k] by (simp add: buildOutcomePrices_def get_or_def api_quotes_def)

definition best_bid :: "jsnum list \<Rightarrow> rat \<Rightarrow> bool" where
  "best_bid bs q \<longleftrightarrow> Fin q \<in> set bs \<and> (\<forall>q'. Fin q' \<in> set bs \<longrightarrow> q' \<le> q)"

definition best_ask :: "jsnum list \<Rightarrow> rat \<Rightarrow> bool" where
  "best_ask as q \<longleftrightarrow> Fin q \<in> set as \<and> (\<forall>q'. Fin q' \<in> set as \<longrightarrow> q \<le> q')"

text \<open>What one entry of the book gives an outcome that has no price yet.\<close>

lemma book_price_none:
  "finite_levels (bids b) = [] \<Longrightarrow> finite_levels (asks b) = [] \<Longrightarrow> map_of (book_price (nm, b) []) (to_lower nm) = None"
  by (simp add: book_price_def map_has_def is_finite_num_def)

lemma book_price_ask:
  assumes "finite_levels (bids b) = []" "finite_levels (asks b) \<noteq> []"
  shows "\<exists>ask. best_ask (finite_levels (asks b)) ask \<and> map_of (book_price (nm, b) []) (to_lower nm) = Some (Fin ask)"
  using js_min_finite [OF assms(2) finite_levels_finite] assms
  by (auto simp: book_price_def best_bid_def best_ask_def map_has_def is_finite_num_def js_simps)

lemma book_price_bid:
  assumes "finite_levels (bids b) \<noteq> []" "finite_levels (asks b) = []"
  shows "\<exists>bid. best_bid (finite_levels (bids b)) bid \<and> map_of (book_price (nm, b) []) (to_lower nm) = Some (Fin bid)"
  using js_max_finite [OF assms(1) finite_levels_finite] assms
  by (auto simp: book_price_def best_bid_def best_ask_def map_has_def is_finite_num_def js_simps)

lemma book_price_mid:
  assumes sides: "finite_levels (bids b) \<noteq> []" "finite_levels (asks b) \<noteq> []"
    and doubles: "\<forall>x. Fin x \<in> set (finite_levels (bids b)) \<union> set (finite_levels (asks b)) \<longrightarrow> is_double x \<and> \<bar>x\<bar> \<le> 2 ^ 50"
  shows "\<exists>mid bid ask. best_bid (finite_levels (bids b)) bid \<and> best_ask (finite_levels (asks b)) ask
    \<and> map_of (book_price (nm, b) []) (to_lower nm) = Some (Fin mid)
    \<and> Fin mid = js_div (js_add (Fin bid) (Fin ask)) (Fin 2) \<and> min bid ask \<le> mid \<and> mid \<le> max bid ask"
proof -
  obtain bid where bid: "js_max (finite_levels (bids b)) = Fin bid" "Fin bid \<in> set (finite_levels (bids b))"
      "\<forall>q. Fin q \<in> set (finite_levels (bids b)) \<longrightarrow> q \<le> bid"
    using js_max_finite [OF sides(1) finite_levels_finite] by blast
  obtain ask where ask: "js_min (finite_levels (asks b)) = Fin ask" "Fin ask \<in> set (finite_levels (asks b))"
      "\<forall>q. Fin q \<in> set (finite_levels (asks b)) \<longrightarrow> ask \<le> q"
    using js_min_finite [OF sides(2) finite_levels_finite] by blast
  have d: "is_double bid" "\<bar>bid\<bar> \<le> 2 ^ 50" "is_double ask" "\<bar>ask\<bar> \<le> 2 ^ 50"
    using doubles bid(2) ask(2) by blast+
  obtain mid where mid: "js_div (of_rat_js (bid + ask)) (Fin 2) = Fin mid" "min bid ask \<le> mid" "mid \<le> max bid ask"
    using midpoint_between [OF d(1,3) _ d(2,4)] midpoint_between [OF d(3,1) _ d(4,2)]
    by (cases "bid \<le> ask") (auto simp: add.commute)
  have "map_of (book_price (nm, b) []) (to_lower nm) = Some (Fin mid)"
    using mid(1) bid(1) ask(1) sides by (simp add: book_price_def Let_def is_finite_num_def)
  moreover have "Fin mid = js_div (js_add (Fin bid) (Fin ask)) (Fin 2)" using mid(1) by simp
  ultimately show ?thesis using bid(2,3) ask(2,3) mid(2,3) unfolding best_bid_def best_ask_def by blast
qed

text \<open>
  C27. The displayed price of an outcome prefers the API and otherwise comes from the book. Let no two
  entries of the orderbook have the same name in lower case. An outcome with a finite price of the
  API shows that price (of several the last), whatever the book says. An outcome without one that
  is in the book shows the midpoint of the greatest finite bid and the least finite ask where the
  book has both, a finite number between the two even after rounding (for levels that are doubles of
  at most \<open>2 ^ 50\<close>), the least ask or the greatest bid where it has one of them, and nothing where
  it has neither. An outcome in neither has no price, so a missing price is never shown as zero.
\<close>

theorem outcome_price_source:
  fixes os :: "MarketOutcomeCache list option" and ob :: "(string \<times> book) list"
  assumes "distinct (map (\<lambda>e. to_lower (fst e)) ob)"
  defines "shown \<equiv> \<lambda>k. map_of (buildOutcomePrices os (Some ob)) k"
  shows "(\<forall>k. api_quotes os k \<noteq> [] \<longrightarrow> shown k = Some (last (api_quotes os k)))
    \<and> (\<forall>k. api_quotes os k = [] \<and> k \<notin> (\<lambda>e. to_lower (fst e)) ` set ob \<longrightarrow> shown k = None)
    \<and> (\<forall>nm b. (nm, b) \<in> set ob \<and> api_quotes os (to_lower nm) = [] \<longrightarrow>
        (let bs = finite_levels (bids b); as = finite_levels (asks b)
         in (bs = [] \<and> as = [] \<longrightarrow> shown (to_lower nm) = None)
          \<and> (bs = [] \<and> as \<noteq> [] \<longrightarrow> (\<exists>ask. best_ask as ask \<and> shown (to_lower nm) = Some (Fin ask)))
          \<and> (bs \<noteq> [] \<and> as = [] \<longrightarrow> (\<exists>bid. best_bid bs bid \<and> shown (to_lower nm) = Some (Fin bid)))
          \<and> (bs \<noteq> [] \<and> as \<noteq> [] \<and> (\<forall>x. Fin x \<in> set bs \<union> set as \<longrightarrow> is_double x \<and> \<bar>x\<bar> \<le> 2 ^ 50) \<longrightarrow>
              (\<exists>mid bid ask. best_bid bs bid \<and> best_ask as ask \<and> shown (to_lower nm) = Some (Fin mid)
                \<and> Fin mid = js_div (js_add (Fin bid) (Fin ask)) (Fin 2)
                \<and> min bid ask \<le> mid \<and> mid \<le> max bid ask))))"
    (is "_ \<and> _ \<and> (\<forall>nm b. _ nm b \<longrightarrow> ?clauses nm b)")
proof -
  let ?api = "fold api_price (get_or os []) []"
  have api: "map_of ?api k = (if api_quotes os k = [] then None else Some (last (api_quotes os k)))" for k
    using api_price_at [of os k] by (simp add: buildOutcomePrices_def get_or_def)
  have shown: "shown k = map_of (fold book_price ob ?api) k" for k
    by (simp add: shown_def buildOutcomePrices_def get_or_def)
  have quoted: "shown k = Some (last (api_quotes os k))" if "api_quotes os k \<noteq> []" for k
    using fold_book_keeps [of ?api k ob] api [of k] that by (simp add: shown)
  have absent: "shown k = None" if "api_quotes os k = []" "k \<notin> (\<lambda>e. to_lower (fst e)) ` set ob" for k
    using fold_book_other [OF that(2)] api [of k] that(1) by (simp add: shown)
  have booked: "shown (to_lower nm) = map_of (book_price (nm, b) []) (to_lower nm)"
    if "(nm, b) \<in> set ob" "api_quotes os (to_lower nm) = []" for nm b
    using fold_book_at [OF assms(1) that(1)] api [of "to_lower nm"] that(2) by (simp add: shown)
  show ?thesis
  proof (intro conjI allI impI; (elim conjE)?)
    fix nm b assume b: "(nm, b) \<in> set ob" "api_quotes os (to_lower nm) = []"
    note clauses = book_price_none [of b nm] book_price_ask [of b nm] book_price_bid [of b nm] book_price_mid [of b nm]
    show "?clauses nm b"
      unfolding Let_def booked [OF b] using clauses by (intro conjI impI; elim conjE) blast+
  qed (use quoted absent in blast)+
qed

theorem outcome_price_source_witness:
  "map_of (buildOutcomePrices (Some [\<lparr>oid = None, oname = Some ''B'', oprice = Some (Num (Fin (1/8)))\<rparr>])
      (Some [(''A'', \<lparr>bids = Some [Num (Fin 0)], asks = Some [Num (Fin 1)]\<rparr>)])) ''b'' = Some (Fin (1/8))
    \<and> (\<exists>mid. map_of (buildOutcomePrices (Some [\<lparr>oid = None, oname = Some ''B'', oprice = Some (Num (Fin (1/8)))\<rparr>])
      (Some [(''A'', \<lparr>bids = Some [Num (Fin 0)], asks = Some [Num (Fin 1)]\<rparr>)])) ''a'' = Some (Fin mid) \<and> 0 \<le> mid \<and> mid \<le> 1)"
proof -
  let ?os = "Some [\<lparr>oid = None, oname = Some ''B'', oprice = Some (Num (Fin (1/8)))\<rparr>] :: MarketOutcomeCache list option"
  let ?b = "\<lparr>bids = Some [Num (Fin 0)], asks = Some [Num (Fin 1)]\<rparr> :: book"
  have l: "to_lower ''A'' = ''a''" "to_lower ''B'' = ''b''" by code_simp+
  have f: "finite_levels (bids ?b) = [Fin 0]" "finite_levels (asks ?b) = [Fin 1]"
    by (simp_all add: finite_levels_def get_or_def is_finite_num_def)
  have q: "api_quotes ?os ''b'' = [Fin (1/8)]" "api_quotes ?os ''a'' = []"
    by (simp_all add: api_quotes_def get_or_def l is_finite_num_def)
  have dbl: "\<forall>x. Fin x \<in> set [Fin 0] \<union> set [Fin 1] \<longrightarrow> is_double x \<and> \<bar>x\<bar> \<le> 2 ^ 50"
    using is_double_of_int [of 0] is_double_of_int [of 1] by auto
  have "distinct (map (\<lambda>e. to_lower (fst e)) [(''A'', ?b)])" by simp
  note t = outcome_price_source [OF this, of ?os]
  have "map_of (buildOutcomePrices ?os (Some [(''A'', ?b)])) ''b'' = Some (Fin (1/8))" using t q(1) by simp
  moreover have "\<exists>mid bid ask. best_bid [Fin 0] bid \<and> best_ask [Fin 1] ask
      \<and> map_of (buildOutcomePrices ?os (Some [(''A'', ?b)])) ''a'' = Some (Fin mid) \<and> min bid ask \<le> mid \<and> mid \<le> max bid ask"
    using t [THEN conjunct2, THEN conjunct2, THEN spec [of _ "''A''"], THEN spec [of _ ?b]] q(2) dbl
    unfolding Let_def l f by (metis list.set_intros(1) list.distinct(1))
  ultimately show ?thesis by (auto simp: best_bid_def best_ask_def)
qed

text \<open>What a frame means for one cached outcome: of the quotes under its exact name and under its
  lower-case name, the first one the frame has is written if it is finite.\<close>

definition quotes :: "(string \<times> jsnum option) list \<Rightarrow> string \<Rightarrow> jsnum list" where
  "quotes ps nm = [p. k \<leftarrow> [nm, to_lower nm], p \<leftarrow> (case map_of ps k of Some (Some p) \<Rightarrow> [p] | _ \<Rightarrow> [])]"

definition priced :: "(string \<times> jsnum option) list \<Rightarrow> MarketOutcomeCache \<Rightarrow> MarketOutcomeCache" where
  "priced ps oc =
     (case quotes ps (get_or (oname oc) []) of
        [] \<Rightarrow> oc
      | p # _ \<Rightarrow> if is_finite_num p then oc\<lparr>oprice := Some (Num p)\<rparr> else oc)"

text \<open>Whether that writes something new.\<close>

definition repriced :: "(string \<times> jsnum option) list \<Rightarrow> MarketOutcomeCache \<Rightarrow> bool" where
  "repriced ps oc \<longleftrightarrow> priced ps oc \<noteq> oc"

lemma quotes_or_else:
  "or_else (quote_at ps nm) (quote_at ps (to_lower nm)) = (case quotes ps nm of [] \<Rightarrow> None | p # _ \<Rightarrow> Some p)"
  by (simp add: quotes_def quote_at_def or_else_def get_or_def split: option.splits)

lemma outcome_write:
  assumes "price = (case quotes ps (get_or (oname oc) []) of [] \<Rightarrow> None | p # _ \<Rightarrow> Some p)"
  shows "(if \<not> isFiniteNumber price \<or> same_price (the price) (oprice oc) then oc else oc\<lparr>oprice := map_option Num price\<rparr>)
      = priced ps oc"
    "isFiniteNumber price \<and> \<not> same_price (the price) (oprice oc) \<longleftrightarrow> repriced ps oc"
proof -
  have eq: "p = n" if "js_eq p n" for p n using that by (cases p; cases n) (simp_all add: js_eq_def)
  have refl: "js_eq p p" if "is_finite_num p" for p using that by (cases p) (simp_all add: js_eq_def is_finite_num_def)
  have upd: "oc\<lparr>oprice := q\<rparr> = oc \<longleftrightarrow> oprice oc = q" for q by (cases oc) auto
  show "(if \<not> isFiniteNumber price \<or> same_price (the price) (oprice oc) then oc else oc\<lparr>oprice := map_option Num price\<rparr>)
      = priced ps oc"
    using assms eq upd [THEN iffD2]
    by (auto simp: priced_def isFiniteNumber_def same_price_def split: list.splits option.splits numstr.splits) fastforce
  show "isFiniteNumber price \<and> \<not> same_price (the price) (oprice oc) \<longleftrightarrow> repriced ps oc"
    using assms eq refl upd
    by (auto simp: repriced_def priced_def isFiniteNumber_def same_price_def split: list.splits option.splits numstr.splits)
qed

lemma patch_loop_spec: "patch_loop ps changed xs = (changed \<or> list_ex (repriced ps) xs, map (priced ps) xs)"
proof (induction xs arbitrary: changed)
  case (Cons oc xs)
  let ?price = "or_else (quote_at ps (get_or (oname oc) [])) (quote_at ps (to_lower (get_or (oname oc) [])))"
  note w = outcome_write [OF quotes_or_else [of ps "get_or (oname oc) []"]]
  show ?case
  proof (cases "repriced ps oc")
    case True
    then have "isFiniteNumber ?price" "\<not> same_price (the ?price) (oprice oc)" using w(2) by blast+
    then show ?thesis using w(1) True by (simp add: Cons.IH)
  next
    case False
    then have "\<not> isFiniteNumber ?price \<or> same_price (the ?price) (oprice oc)" using w(2) by blast
    then show ?thesis using w(1) False by (simp add: Cons.IH)
  qed
qed simp

lemma overlay_loop_spec: "overlay_loop ps changed xs = (changed \<or> list_ex (repriced ps) xs, map (priced ps) xs)"
proof (induction xs arbitrary: changed)
  case (Cons oc xs)
  let ?price = "or_else (quote_at ps (get_or (oname oc) [])) (quote_at ps (to_lower (get_or (oname oc) [])))"
  note w = outcome_write [OF quotes_or_else [of ps "get_or (oname oc) []"]]
  show ?case
  proof (cases "repriced ps oc")
    case True
    then have "isFiniteNumber ?price" "\<not> same_price (the ?price) (oprice oc)" using w(2) by blast+
    then show ?thesis using w(1) True by (simp add: Cons.IH Let_def)
  next
    case False
    then have "\<not> isFiniteNumber ?price \<or> same_price (the ?price) (oprice oc)" using w(2) by blast
    then show ?thesis using w(1) False by (simp add: Cons.IH Let_def)
  qed
qed simp

lemma unrepriced: "\<not> list_ex (repriced ps) xs \<Longrightarrow> map (priced ps) xs = xs"
  by (induction xs) (auto simp: repriced_def)

text \<open>Whether a frame has anything to write into a market.\<close>

definition frame_writes :: "PriceUpdateMessage \<Rightarrow> market_cache \<Rightarrow> bool" where
  "frame_writes msg m \<longleftrightarrow> isFiniteNumber (yes_price msg) \<or> isFiniteNumber (no_price msg)
     \<or> (\<exists>ps xs. outcome_prices msg = Some ps \<and> outcomes m = Some xs \<and> list_ex (repriced ps) xs)"

definition priced_outcomes :: "PriceUpdateMessage \<Rightarrow> market_cache \<Rightarrow> MarketOutcomeCache list option" where
  "priced_outcomes msg m =
     (case outcome_prices msg of None \<Rightarrow> outcomes m | Some ps \<Rightarrow> map_option (map (priced ps)) (outcomes m))"

lemma patch_outcomes_spec:
  "or_else (patch_outcomes (outcome_prices msg) (outcomes m)) (outcomes m) = priced_outcomes msg m"
  "patch_outcomes (outcome_prices msg) (outcomes m) = None \<longleftrightarrow>
     \<not> (\<exists>ps xs. outcome_prices msg = Some ps \<and> outcomes m = Some xs \<and> list_ex (repriced ps) xs)"
proof -
  show "or_else (patch_outcomes (outcome_prices msg) (outcomes m)) (outcomes m) = priced_outcomes msg m"
    using unrepriced
    by (auto simp: patch_outcomes_def priced_outcomes_def patch_loop_spec or_else_def split: option.splits)
  show "patch_outcomes (outcome_prices msg) (outcomes m) = None \<longleftrightarrow>
     \<not> (\<exists>ps xs. outcome_prices msg = Some ps \<and> outcomes m = Some xs \<and> list_ex (repriced ps) xs)"
    by (auto simp: patch_outcomes_def patch_loop_spec split: option.splits)
qed

lemma overlay_outcomes_spec:
  assumes "outcomes (snd acc) = outcomes market"
  shows "overlay_outcomes market live acc =
    (if \<exists>ps xs. outcome_prices live = Some ps \<and> outcomes market = Some xs \<and> list_ex (repriced ps) xs
     then (True, (snd acc)\<lparr>outcomes := priced_outcomes live market\<rparr>) else acc)"
  by (auto simp: overlay_outcomes_def overlay_loop_spec priced_outcomes_def Let_def split: option.splits list.splits)

lemma priced_outcomes_same:
  "\<not> (\<exists>ps xs. outcome_prices msg = Some ps \<and> outcomes m = Some xs \<and> list_ex (repriced ps) xs) \<Longrightarrow> priced_outcomes msg m = outcomes m"
  using unrepriced by (cases "outcomes m") (auto simp: priced_outcomes_def split: option.splits)

lemma priced_outcomes_changed:
  assumes "outcome_prices msg = Some ps" "outcomes m = Some xs" "list_ex (repriced ps) xs"
  shows "priced_outcomes msg m \<noteq> outcomes m"
proof -
  obtain i where "i < length xs" "priced ps (xs ! i) \<noteq> xs ! i"
    using assms(3) by (auto simp: list_ex_iff repriced_def in_set_conv_nth)
  then have "map (priced ps) xs \<noteq> xs" by (metis nth_map)
  then show ?thesis using assms by (simp add: priced_outcomes_def)
qed

text \<open>What each function does to a market, over the specification alone.\<close>

lemma patchMarketPrices_spec:
  "patchMarketPrices (Some m) msg =
     (frame_writes msg m,
      Some (m\<lparr>cyes_price := if isFiniteNumber (yes_price msg) then Some (Str (num_to_string (the (yes_price msg)))) else cyes_price m,
             cno_price := if isFiniteNumber (no_price msg) then Some (Str (num_to_string (the (no_price msg)))) else cno_price m,
             outcomes := priced_outcomes msg m\<rparr>))"
  using patch_outcomes_spec [of msg m] priced_outcomes_same [of msg m]
  by (simp add: patchMarketPrices_def Let_def frame_writes_def or_else_def split: option.splits)

lemma applyLivePrices_spec:
  "applyLivePrices m (Some msg) =
     (frame_writes msg m,
      m\<lparr>cyes_price := if isFiniteNumber (yes_price msg) then map_option Num (yes_price msg) else cyes_price m,
        cno_price := if isFiniteNumber (no_price msg) then map_option Num (no_price msg) else cno_price m,
        outcomes := priced_outcomes msg m\<rparr>)"
  using priced_outcomes_same [of msg m]
  by (auto simp: applyLivePrices_def overlay_outcomes_spec overlay_no_def overlay_yes_def frame_writes_def Let_def)

text \<open>
  C26. The cache patch and the card overlay agree and touch nothing else. Each of the two functions
  has its own loop over the outcomes; after either, every cached outcome carries the frame's price
  for it, the first quote the frame has under its exact or else its lower-case name if that is
  finite, or is unchanged, in the same order; finite yes and no prices are written, by the cache
  patch as text and by the overlay as a number; the other fields are kept; and both make a new
  object in exactly the cases where there is something to write: a finite yes or no price or an
  outcome whose price changes.
\<close>

theorem cache_patch_agrees_with_overlay:
  fixes m :: market_cache and msg :: PriceUpdateMessage
  defines "p \<equiv> the (snd (patchMarketPrices (Some m) msg))" and "a \<equiv> snd (applyLivePrices m (Some msg))"
  shows "outcomes p = (case outcome_prices msg of None \<Rightarrow> outcomes m | Some ps \<Rightarrow> map_option (map (priced ps)) (outcomes m))
    \<and> outcomes a = outcomes p \<and> other p = other m \<and> other a = other m
    \<and> cyes_price p = (if isFiniteNumber (yes_price msg) then Some (Str (num_to_string (the (yes_price msg)))) else cyes_price m)
    \<and> cyes_price a = (if isFiniteNumber (yes_price msg) then Some (Num (the (yes_price msg))) else cyes_price m)
    \<and> cno_price p = (if isFiniteNumber (no_price msg) then Some (Str (num_to_string (the (no_price msg)))) else cno_price m)
    \<and> cno_price a = (if isFiniteNumber (no_price msg) then Some (Num (the (no_price msg))) else cno_price m)
    \<and> (fst (patchMarketPrices (Some m) msg) \<longleftrightarrow> isFiniteNumber (yes_price msg) \<or> isFiniteNumber (no_price msg) \<or> outcomes p \<noteq> outcomes m)
    \<and> (fst (applyLivePrices m (Some msg)) \<longleftrightarrow> fst (patchMarketPrices (Some m) msg))
    \<and> (fst (patchMarketPrices (Some m) msg) \<or> p = m \<and> a = m)"
proof -
  have some: "isFiniteNumber x \<Longrightarrow> map_option Num x = Some (Num (the x))" for x by (cases x) (simp_all add: isFiniteNumber_def)
  have writes: "frame_writes msg m \<longleftrightarrow> isFiniteNumber (yes_price msg) \<or> isFiniteNumber (no_price msg) \<or> priced_outcomes msg m \<noteq> outcomes m"
    unfolding frame_writes_def using priced_outcomes_same [of msg m] priced_outcomes_changed [of msg _ m] by blast
  then show ?thesis
    by (simp add: p_def a_def patchMarketPrices_spec applyLivePrices_spec some, simp add: priced_outcomes_def)
qed

theorem cache_patch_agrees_with_overlay_witness:
  "outcomes (snd (applyLivePrices \<lparr>cyes_price = None, cno_price = None,
        outcomes = Some [\<lparr>oid = None, oname = Some ''A'', oprice = None\<rparr>], other = []\<rparr>
      (Some \<lparr>yes_price = None, no_price = None, outcome_prices = Some [(''a'', Some (Fin 1))]\<rparr>)))
    = Some [\<lparr>oid = None, oname = Some ''A'', oprice = Some (Num (Fin 1))\<rparr>]"
proof -
  have "to_lower ''A'' = ''a''" by code_simp
  then show ?thesis
    using cache_patch_agrees_with_overlay
      [of "\<lparr>cyes_price = None, cno_price = None, outcomes = Some [\<lparr>oid = None, oname = Some ''A'', oprice = None\<rparr>], other = []\<rparr>"
        "\<lparr>yes_price = None, no_price = None, outcome_prices = Some [(''a'', Some (Fin 1))]\<rparr>"]
    by (simp add: priced_def quotes_def get_or_def is_finite_num_def)
qed

text \<open>
  The name match is not case-insensitive: a frame that quotes the outcome under the canonical
  name leaves a cached outcome whose name differs in case at its old price, unless the frame uses
  the all-lower-case name.
\<close>

lemma price_match_is_case_sensitive:
  "patch_loop [(''Yes'', Some p)] False [\<lparr>oid = i, oname = Some ''YES'', oprice = q\<rparr>]
     = (False, [\<lparr>oid = i, oname = Some ''YES'', oprice = q\<rparr>])"
proof -
  have "to_lower ''YES'' = ''yes''" by code_simp
  then show ?thesis by (simp add: patch_loop_spec repriced_def priced_def quotes_def get_or_def)
qed

end
