(* ===== verification/Api_Errors.thy ===== *)
theory Api_Errors
  imports JS_Value
begin

text \<open>
  The error and response envelopes of \<^verbatim>\<open>packages/api-client/src/client.ts\<close>: \<open>ApiError\<close>,
  \<open>extractMessage\<close>, \<open>apiErrorMessage\<close>, \<open>apiErrorCode\<close>, \<open>isUnauthorized\<close> and \<open>parseResponse\<close>.

  A parsed JSON value is a \<open>jsval\<close>. Reading a property of \<open>null\<close> or \<open>undefined\<close> throws, so
  \<open>js_get\<close> is partial and \<open>extractMessage\<close> returns \<open>None\<close> where the source would throw. The two
  separators outside ASCII are the UTF-8 bytes of the bullet and of the middle dot.
\<close>

subsection \<open>Values\<close>

definition bullet :: string where "bullet = [CHR 0xE2, CHR 0x80, CHR 0xA2]"
definition middot :: string where "middot = [CHR 0xC2, CHR 0xB7]"

fun js_truthy :: "jsval \<Rightarrow> bool" where
  "js_truthy JUndef = False"
| "js_truthy JNull = False"
| "js_truthy (JBool b) = b"
| "js_truthy (JNum n) = (n \<noteq> Fin 0 \<and> n \<noteq> NaN)"
| "js_truthy (JStr s) = (s \<noteq> [])"
| "js_truthy (JArr _) = True"
| "js_truthy (JObj _) = True"

text \<open>\<open>String(v)\<close>; an array joins its elements with commas, \<open>null\<close> and \<open>undefined\<close> elements as
  empty strings.\<close>

fun js_str :: "jsval \<Rightarrow> string" where
  "js_str JUndef = ''undefined''"
| "js_str JNull = ''null''"
| "js_str (JBool b) = (if b then ''true'' else ''false'')"
| "js_str (JNum n) = num_to_string n"
| "js_str (JStr s) = s"
| "js_str (JArr vs) = js_join '','' (map (\<lambda>v. if v = JUndef \<or> v = JNull then [] else js_str v) vs)"
| "js_str (JObj _) = ''[object Object]''"

definition join_str :: "jsval \<Rightarrow> string" where
  "join_str v = (if v = JUndef \<or> v = JNull then [] else js_str v)"

fun js_get :: "jsval \<Rightarrow> string \<Rightarrow> jsval option" where
  "js_get JUndef k = None"
| "js_get JNull k = None"
| "js_get (JObj fs) k = Some (get_or (map_of fs k) JUndef)"
| "js_get v k = Some JUndef"

definition field :: "jsval \<Rightarrow> string \<Rightarrow> jsval" where
  "field v k = get_or (js_get v k) JUndef"

definition is_object :: "jsval \<Rightarrow> bool" where
  "is_object v = (case v of JObj _ \<Rightarrow> True | JArr _ \<Rightarrow> True | _ \<Rightarrow> False)"

fun all_some :: "'a option list \<Rightarrow> 'a list option" where
  "all_some [] = Some []"
| "all_some (None # xs) = None"
| "all_some (Some x # xs) = map_option ((#) x) (all_some xs)"

subsection \<open>\<open>extractMessage\<close>\<close>

definition generic_message :: string where "generic_message = ''An error occurred''"

text \<open>\<open>e.msg || e.loc.join(".")\<close>\<close>

definition detail_item :: "jsval \<Rightarrow> string option" where
  "detail_item e =
     (case js_get e ''msg'' of
        None \<Rightarrow> None
      | Some m \<Rightarrow>
          if js_truthy m then Some (join_str m)
          else (case js_get e ''loc'' of
                  Some (JArr ls) \<Rightarrow> Some (js_join ''.'' (map join_str ls))
                | _ \<Rightarrow> None))"

definition field_error :: "jsval \<Rightarrow> string option" where
  "field_error e =
     (case js_get e ''field'' of
        None \<Rightarrow> None
      | Some f \<Rightarrow> Some (js_str f @ '': '' @ js_str (field e ''message'')))"

definition rate_limit_message :: "jsval \<Rightarrow> string" where
  "rate_limit_message d =
     (case field d ''retry_after'' of
        JNum n \<Rightarrow>
          if js_truthy (JNum n)
          then ''Too many requests '' @ bullet @ '' try again in '' @ num_to_string n @ ''s''
          else ''Too many requests '' @ bullet @ '' try again shortly''
      | _ \<Rightarrow> ''Too many requests '' @ bullet @ '' try again shortly'')"

definition as_str :: "jsval \<Rightarrow> string option" where
  "as_str v = (case v of JStr s \<Rightarrow> Some s | _ \<Rightarrow> None)"

definition as_arr :: "jsval \<Rightarrow> jsval list option" where
  "as_arr v = (case v of JArr xs \<Rightarrow> Some xs | _ \<Rightarrow> None)"

definition field_errors_text :: "jsval \<Rightarrow> string option" where
  "field_errors_text d =
     (case as_arr (field (field d ''details'') ''errors'') of
        Some es \<Rightarrow>
          if es \<noteq> [] then map_option (js_join ('' '' @ middot @ '' '')) (all_some (map field_error es))
          else Some []
      | None \<Rightarrow> Some [])"

definition extractMessage :: "jsval \<Rightarrow> (string \<times> jsval) option" where
  "extractMessage d =
     (if \<not> is_object d then Some (generic_message, JUndef)
      else if as_arr (field d ''detail'') \<noteq> None
      then map_option (\<lambda>ms. (js_join ''; '' ms, JUndef))
             (all_some (map detail_item (the (as_arr (field d ''detail'')))))
      else if field d ''error_code'' = JStr ''RATE_LIMIT_EXCEEDED''
      then Some (rate_limit_message d, JStr ''RATE_LIMIT_EXCEEDED'')
      else if field d ''success'' = JBool False \<and> as_str (field d ''error'') \<noteq> None
      then map_option (\<lambda>fields.
             ((let err = the (as_str (field d ''error''))
               in if fields \<noteq> [] then err @ '' '' @ bullet @ '' '' @ fields else err),
              field d ''error_code'')) (field_errors_text d)
      else if as_str (field d ''error_code'') \<noteq> None \<and> as_str (field d ''message'') \<noteq> None
      then Some (the (as_str (field d ''message'')), field d ''error_code'')
      else if as_str (field d ''detail'') \<noteq> None then Some (the (as_str (field d ''detail'')), JUndef)
      else if as_str (field d ''error'') \<noteq> None then Some (the (as_str (field d ''error'')), JUndef)
      else Some (generic_message, JUndef))"

subsection \<open>Thrown values\<close>

datatype thrown =
    ApiError string int jsval jsval
  | DOMException string string
  | TypeErr string
  | OtherError string
  | NonError

definition isUnauthorized :: "thrown \<Rightarrow> bool" where
  "isUnauthorized err = (case err of ApiError _ st _ _ \<Rightarrow> st = 401 \<or> st = 403 | _ \<Rightarrow> False)"

fun js_includes :: "string \<Rightarrow> string \<Rightarrow> bool" where
  "js_includes [] p = (p = [])"
| "js_includes (c # cs) p = (prefix p (c # cs) \<or> js_includes cs p)"

text \<open>The test \<open>/fetch|network|load failed/i\<close>.\<close>

definition network_text :: "string \<Rightarrow> bool" where
  "network_text s =
     (let t = to_lower s in js_includes t ''fetch'' \<or> js_includes t ''network'' \<or> js_includes t ''load failed'')"

definition apiErrorMessage :: "thrown \<Rightarrow> string \<Rightarrow> string" where
  "apiErrorMessage err fallback =
     (case err of
        ApiError msg _ _ _ \<Rightarrow> if msg \<noteq> [] then msg else fallback
      | DOMException name msg \<Rightarrow>
          if name = ''AbortError'' \<or> name = ''TimeoutError''
          then ''The request timed out '' @ bullet @ '' please try again.''
          else if msg \<noteq> [] then msg else fallback
      | TypeErr msg \<Rightarrow>
          if network_text msg
          then ''Can'' @ [CHR 0x27] @ ''t reach the server '' @ bullet @ '' check your connection and try again.''
          else if msg \<noteq> [] then msg else fallback
      | OtherError msg \<Rightarrow> if msg \<noteq> [] then msg else fallback
      | NonError \<Rightarrow> fallback)"

definition apiErrorCode :: "thrown \<Rightarrow> jsval" where
  "apiErrorCode err = (case err of ApiError _ _ _ code \<Rightarrow> code | _ \<Rightarrow> JUndef)"

subsection \<open>\<open>parseResponse\<close>\<close>

definition parseResponse :: "jsval \<Rightarrow> jsval" where
  "parseResponse raw =
     (case raw of
        JObj fs \<Rightarrow>
          if map_of fs ''success'' = Some (JBool True) \<and> map_has fs ''data'' then raw
          else JObj [(''success'', JBool True), (''data'', raw)]
      | _ \<Rightarrow> JObj [(''success'', JBool True), (''data'', raw)])"

subsection \<open>Lemmas\<close>

lemma all_some_map_Some [simp]: "all_some (map (\<lambda>x. Some (f x)) xs) = Some (map f xs)"
  by (induction xs) simp_all

lemma all_some_Some:
  "all_some xs = Some ys \<longleftrightarrow> xs = map Some ys"
  by (induction xs arbitrary: ys rule: all_some.induct) (auto simp: Cons_eq_map_conv)

lemma parseResponse_field: "field (parseResponse raw) ''success'' = JBool True"
  by (auto simp: parseResponse_def field_def get_or_def split: jsval.splits)

lemma parseResponse_idem: "parseResponse (parseResponse raw) = parseResponse raw"
  by (auto simp: parseResponse_def map_has_def split: jsval.splits)

text \<open>
  Object envelopes are total: every field-error entry that is an object, and every validation item
  with a message or a location, has a text, so \<open>extractMessage\<close> does not throw.
\<close>

definition item_ok :: "jsval \<Rightarrow> bool" where
  "item_ok e = (case e of
     JObj fs \<Rightarrow> js_truthy (field e ''msg'') \<or> (case field e ''loc'' of JArr _ \<Rightarrow> True | _ \<Rightarrow> False)
   | _ \<Rightarrow> False)"

definition entry_ok :: "jsval \<Rightarrow> bool" where
  "entry_ok e = (e \<noteq> JNull \<and> e \<noteq> JUndef)"

definition envelope_ok :: "jsval \<Rightarrow> bool" where
  "envelope_ok d \<longleftrightarrow>
     list_all item_ok (get_or (as_arr (field d ''detail'')) [])
     \<and> list_all entry_ok (get_or (as_arr (field (field d ''details'') ''errors'')) [])"

lemma detail_item_some: "item_ok e \<Longrightarrow> detail_item e \<noteq> None"
  by (cases e) (auto simp: item_ok_def detail_item_def field_def get_or_def split: option.splits jsval.splits)

lemma field_error_some: "entry_ok e \<Longrightarrow> field_error e \<noteq> None"
  by (cases e) (auto simp: entry_ok_def field_error_def)

lemma all_some_map: "list_all P xs \<Longrightarrow> (\<And>x. P x \<Longrightarrow> f x \<noteq> None) \<Longrightarrow> all_some (map f xs) \<noteq> None"
  by (induction xs) fastforce+

lemma extractMessage_total:
  assumes "envelope_ok d"
  shows "extractMessage d \<noteq> None"
proof -
  have i: "all_some (map detail_item items) \<noteq> None" if "as_arr (field d ''detail'') = Some items" for items
    by (rule all_some_map [of item_ok])
      (use assms that in \<open>simp_all add: envelope_ok_def get_or_def detail_item_some\<close>)
  have "all_some (map field_error es) \<noteq> None"
    if "as_arr (field (field d ''details'') ''errors'') = Some es" for es
    by (rule all_some_map [of entry_ok])
      (use assms that in \<open>simp_all add: envelope_ok_def get_or_def field_error_some\<close>)
  then have "field_errors_text d \<noteq> None" by (auto simp: field_errors_text_def split: option.splits)
  with i show ?thesis by (auto simp: extractMessage_def)
qed

end
