(* ===== verification/Api_Client.thy ===== *)
theory Api_Client
  imports Api_Errors Ws_Backoff
begin

text \<open>
  The request machinery of \<^verbatim>\<open>packages/api-client/src/client.ts\<close>: \<open>fetchWithRetry\<close>, the session
  state and its single-flight refresh, the routing policy, and \<open>request\<close> with the map of pending
  requests.

  \<^item> For \<open>fetchWithRetry\<close> alone the network is a stream: \<open>srv n\<close> is what the \<open>n\<close>-th \<open>fetch\<close> of
    one call gives, a response or a rejection (a timeout and an aborted signal are rejections). It
    returns its result with the delays it slept. Inside \<open>request\<close> the same loop runs one attempt
    at a time (\<open>Due\<close>, \<open>Sending\<close>), so that the attempts of different requests interleave;
    \<open>round_is_fetchWithRetry\<close> shows that the two agree.
  \<^item> A response carries its status, its \<open>Retry-After\<close> header and its body, \<open>None\<close> for a body
    that is not JSON.
  \<^item> The module variables, the requests under way and the clock are the record \<open>client\<close>. Code
    runs to the next \<open>await\<close> without interruption, so each operation below is the code between
    two awaits, and \<open>api_step\<close> lets the operations of different requests interleave freely.
  \<^item> Bodies are read after the headers. A refused response keeps its entry in the map of pending
    requests while its body is read (\<open>Failing\<close>: the source awaits \<open>res.json()\<close> before it throws);
    an accepted one loses it at the headers (\<open>Reading\<close>: the source returns \<open>res.json()\<close> without
    awaiting it, so the \<open>finally\<close> runs while the promise is still unresolved).
  \<^item> A refresh passes through three states, since its callers resume only after the \<open>finally\<close>
    that clears \<open>refreshPromise\<close>: in flight, settled, none.
\<close>

subsection \<open>Responses and retries\<close>

record resp =
  rstatus :: int
  rbody :: "jsval option"
  retryAfter :: "string option"

datatype fetch_result = Res resp | Threw thrown

definition res_ok :: "resp \<Rightarrow> bool" where
  "res_ok r \<longleftrightarrow> 200 \<le> rstatus r \<and> rstatus r \<le> 299"

text \<open>\<open>parseInt(s, 10)\<close>: the longest run of digits after white space and a sign.\<close>

definition parseInt10 :: "string \<Rightarrow> jsnum" where
  "parseInt10 s =
     (let (neg, t) = take_sign (dropWhile is_js_space s); ds = takeWhile is_digit_char t
      in if ds = [] then NaN
         else of_rat_js (of_int (if neg then - value_of_digits ds else value_of_digits ds)))"

definition backoff_ms :: "nat \<Rightarrow> jsnum" where
  "backoff_ms attempt = js_min2 (js_mul (Fin 1000) (of_rat_js (2 ^ attempt))) (Fin 30000)"

definition rate_limit_delay :: "nat \<Rightarrow> resp \<Rightarrow> jsnum" where
  "rate_limit_delay attempt r =
     (case retryAfter r of
        None \<Rightarrow> backoff_ms attempt
      | Some h \<Rightarrow> if h = [] then backoff_ms attempt else js_mul (parseInt10 h) (Fin 1000))"

text \<open>The \<open>for\<close> loop, from a given attempt with a given \<open>lastError\<close>.\<close>

function retry_loop ::
  "(nat \<Rightarrow> fetch_result) \<Rightarrow> int \<Rightarrow> nat \<Rightarrow> thrown option \<Rightarrow> fetch_result \<times> jsnum list" where
  "retry_loop srv retries attempt lastError =
     (if int attempt \<le> retries then
        (case srv attempt of
           Res r \<Rightarrow>
             if res_ok r then (Res r, [])
             else if rstatus r = 429 \<and> int attempt < retries
             then apsnd ((#) (rate_limit_delay attempt r)) (retry_loop srv retries (Suc attempt) lastError)
             else if 500 \<le> rstatus r \<and> int attempt < retries
             then apsnd ((#) (backoff_ms attempt)) (retry_loop srv retries (Suc attempt) lastError)
             else (Res r, [])
         | Threw e \<Rightarrow>
             if int attempt < retries
             then apsnd ((#) (backoff_ms attempt)) (retry_loop srv retries (Suc attempt) (Some e))
             else retry_loop srv retries (Suc attempt) (Some e))
      else (Threw (get_or lastError (OtherError ''Request failed after retries'')), []))"
  by pat_completeness auto
termination
  by (relation "measure (\<lambda>(srv, retries, attempt, le). nat (retries + 1 - int attempt))") auto

declare retry_loop.simps [simp del]

definition fetchWithRetry :: "(nat \<Rightarrow> fetch_result) \<Rightarrow> int \<Rightarrow> fetch_result \<times> jsnum list" where
  "fetchWithRetry srv retries = retry_loop srv retries 0 None"

subsection \<open>Session state\<close>

datatype SessionState = SUnknown | SActive | SNone

datatype refresh_state = NoRefresh | InFlight | Settled bool

record AuthRoutingPolicy =
  publicPaths :: "string list"
  loginPath :: string

datatype Method = GET | POST | PATCH | PUT | DELETE

datatype outcome = Resolved jsval | Rejected thrown

text \<open>Where a request stands: in one of its two calls of \<open>fetchWithRetry\<close>, between two attempts or
  with one in flight; waiting for a refresh, and resumed from it with its result; reading the body
  of a refused or of an accepted response; settled.\<close>

datatype fetch_round = R1 | R2

datatype phase =
    Due fetch_round nat
  | Sending fetch_round nat
  | Waiting
  | Refreshed bool
  | Failing thrown
  | Reading outcome
  | Done outcome

record request =
  rq_method :: Method
  rq_path :: string
  rq_body :: "jsval option"
  rq_auth :: bool
  rq_retries :: int
  rq_phase :: phase

text \<open>What the client does to the outside: one \<open>fetch\<close> of a request, a call of the refresh
  endpoint and its answer, a navigation to the login page.\<close>

datatype api_output = Fetch nat | RefreshCall | RefreshAnswer bool | Redirect string

record client =
  sessionState :: SessionState
  refreshPromise :: refresh_state
  refreshBlockedUntil :: int
  clock :: int
  authRouting :: AuthRoutingPolicy
  location :: "string option"
  requests :: "request list"
  pendingRequests :: "(string \<times> nat) list"
  outputs :: "api_output list"

definition REFRESH_COOLDOWN_MS :: int where
  "REFRESH_COOLDOWN_MS = 30000"

definition markSessionActive :: "client \<Rightarrow> client" where
  "markSessionActive c = c\<lparr>sessionState := SActive, refreshBlockedUntil := 0\<rparr>"

definition markSessionEnded :: "client \<Rightarrow> client" where
  "markSessionEnded c = c\<lparr>sessionState := SNone, refreshBlockedUntil := 0\<rparr>"

definition refreshSuppressed :: "client \<Rightarrow> bool" where
  "refreshSuppressed c \<longleftrightarrow> sessionState c = SNone \<or> clock c < refreshBlockedUntil c"

text \<open>The body of \<open>doRefresh\<close> once its \<open>fetch\<close> is answered: the new state and the result.\<close>

definition doRefresh :: "fetch_result \<Rightarrow> client \<Rightarrow> client \<times> bool" where
  "doRefresh answer c =
     (case answer of
        Res r \<Rightarrow>
          if res_ok r then (markSessionActive c, True)
          else if rstatus r = 401 \<or> rstatus r = 403 then (markSessionEnded c, False)
          else (c\<lparr>refreshBlockedUntil := clock c + REFRESH_COOLDOWN_MS\<rparr>, False)
      | Threw e \<Rightarrow> (c\<lparr>refreshBlockedUntil := clock c + REFRESH_COOLDOWN_MS\<rparr>, False))"

definition emit :: "api_output \<Rightarrow> client \<Rightarrow> client" where
  "emit ev c = c\<lparr>outputs := outputs c @ [ev]\<rparr>"

definition refreshSession :: "client \<Rightarrow> client" where
  "refreshSession c =
     (if refreshPromise c = NoRefresh then emit RefreshCall (c\<lparr>refreshPromise := InFlight\<rparr>) else c)"

definition unauthenticatedMessage :: "client \<Rightarrow> string" where
  "unauthenticatedMessage c =
     (if sessionState c = SNone then ''You need to sign in to view this.''
      else ''Session expired. Please sign in again.'')"

subsection \<open>Routing\<close>

definition default_routing :: AuthRoutingPolicy where
  "default_routing = \<lparr>publicPaths = [], loginPath = ''/login''\<rparr>"

text \<open>\<open>configureAuthRouting\<close> spreads a partial policy over the current one.\<close>

definition configureAuthRouting :: "string list option \<Rightarrow> string option \<Rightarrow> client \<Rightarrow> client" where
  "configureAuthRouting pub login c =
     c\<lparr>authRouting := \<lparr>publicPaths = get_or pub (publicPaths (authRouting c)),
                       loginPath = get_or login (loginPath (authRouting c))\<rparr>\<rparr>"

definition SESSION_PROBE_PATHS :: "string list" where
  "SESSION_PROBE_PATHS = [''/api/v1/auth/me'']"

definition CREDENTIAL_PATHS :: "string list" where
  "CREDENTIAL_PATHS =
     [''/api/v1/auth/login'',
      ''/api/v1/auth/refresh'',
      ''/api/v1/auth/verify-magic'',
      ''/api/v1/auth/verify-magic-2fa'',
      ''/api/v1/auth/verify-magic-url'',
      ''/api/v1/auth/verify-magic-url-2fa'',
      ''/api/v1/auth/verify-email'',
      ''/api/v1/auth/change-password'',
      ''/api/v1/auth/set-password'',
      ''/api/v1/auth/reset-password'']"

definition shouldRedirectToLogin :: "AuthRoutingPolicy \<Rightarrow> string \<Rightarrow> bool" where
  "shouldRedirectToLogin pol pathname =
     (if starts_with pathname (loginPath pol) then False
      else \<not> list_ex (\<lambda>p. path_within p pathname) (publicPaths pol))"

definition isSessionProbe :: "string \<Rightarrow> bool" where
  "isSessionProbe pathname = List.member SESSION_PROBE_PATHS pathname"

definition isCredentialEndpoint :: "string \<Rightarrow> bool" where
  "isCredentialEndpoint pathname =
     (let path = get_or (js_first (js_split (CHR ''?'') pathname)) pathname
      in list_ex (\<lambda>p. path_within p path) CREDENTIAL_PATHS)"

definition redirectToLogin :: "client \<Rightarrow> client" where
  "redirectToLogin c =
     (case location c of
        None \<Rightarrow> c
      | Some pathname \<Rightarrow>
          if shouldRedirectToLogin (authRouting c) pathname
          then emit (Redirect (loginPath (authRouting c))) c else c)"

subsection \<open>Request keys\<close>

definition hex_digit :: "int \<Rightarrow> char" where
  "hex_digit d = (if d < 10 then char_of (d + 48) else char_of (d + 87))"

definition json_escape :: "char \<Rightarrow> string" where
  "json_escape ch =
     (let n = of_char ch :: int in
      if n = 34 then [CHR 0x5C, CHR 0x22]
      else if n = 92 then [CHR 0x5C, CHR 0x5C]
      else if n = 8 then [CHR 0x5C, CHR ''b'']
      else if n = 9 then [CHR 0x5C, CHR ''t'']
      else if n = 10 then [CHR 0x5C, CHR ''n'']
      else if n = 12 then [CHR 0x5C, CHR ''f'']
      else if n = 13 then [CHR 0x5C, CHR ''r'']
      else if n < 32 then [CHR 0x5C] @ ''u00'' @ [hex_digit (n div 16), hex_digit (n mod 16)]
      else [ch])"

definition json_quote :: "string \<Rightarrow> string" where
  "json_quote s = [CHR 0x22] @ concat (map json_escape s) @ [CHR 0x22]"

text \<open>\<open>JSON.stringify\<close> of a value other than \<open>undefined\<close>: fields that are \<open>undefined\<close> are
  left out, elements that are \<open>undefined\<close> and numbers that are not finite become \<open>null\<close>.\<close>

fun json_stringify :: "jsval \<Rightarrow> string" where
  "json_stringify JUndef = ''null''"
| "json_stringify JNull = ''null''"
| "json_stringify (JBool b) = (if b then ''true'' else ''false'')"
| "json_stringify (JNum n) = (if is_finite_num n then num_to_string n else ''null'')"
| "json_stringify (JStr s) = json_quote s"
| "json_stringify (JArr vs) = ''['' @ js_join '','' (map json_stringify vs) @ '']''"
| "json_stringify (JObj fs) =
     ''{'' @ js_join '',''
       (map (\<lambda>(k, v). json_quote k @ '':'' @ json_stringify v) (filter (\<lambda>(k, v). v \<noteq> JUndef) fs)) @ ''}''"

fun method_name :: "Method \<Rightarrow> string" where
  "method_name GET = ''GET''"
| "method_name POST = ''POST''"
| "method_name PATCH = ''PATCH''"
| "method_name PUT = ''PUT''"
| "method_name DELETE = ''DELETE''"

definition bodyKey :: "jsval option \<Rightarrow> string" where
  "bodyKey b =
     (case get_or b JUndef of
        JStr s \<Rightarrow> if s \<noteq> [] then s else json_stringify (JStr s)
      | JUndef \<Rightarrow> json_stringify JNull
      | v \<Rightarrow> json_stringify v)"

definition cacheKey :: "request \<Rightarrow> string" where
  "cacheKey rq = method_name (rq_method rq) @ '':'' @ rq_path rq @ '':'' @ bodyKey (rq_body rq)"

subsection \<open>\<open>request\<close>\<close>

definition set_phase :: "nat \<Rightarrow> phase \<Rightarrow> client \<Rightarrow> client" where
  "set_phase i p c = c\<lparr>requests := (requests c)[i := (requests c ! i)\<lparr>rq_phase := p\<rparr>]\<rparr>"

text \<open>The top of the loop in \<open>fetchWithRetry\<close>: an attempt within the budget is sent, and without
  one left the call is about to give up.\<close>

definition start_attempt :: "nat \<Rightarrow> fetch_round \<Rightarrow> nat \<Rightarrow> client \<Rightarrow> client" where
  "start_attempt i rd attempt c =
     (if int attempt \<le> rq_retries (requests c ! i)
      then set_phase i (Sending rd attempt) (emit (Fetch i) c)
      else set_phase i (Due rd attempt) c)"

text \<open>The call itself: a pending \<open>GET\<close> with the same key is shared; otherwise a new request
  starts its first \<open>fetchWithRetry\<close>, which runs to its first \<open>fetch\<close>, and a \<open>GET\<close> or \<open>DELETE\<close> is
  entered in the map. The result names the request whose promise the caller holds.\<close>

definition request_call :: "Method \<Rightarrow> string \<Rightarrow> jsval option \<Rightarrow> bool \<Rightarrow> int \<Rightarrow> client \<Rightarrow> client \<times> nat" where
  "request_call meth path body auth retries c =
     (let rq = \<lparr>rq_method = meth, rq_path = path, rq_body = body, rq_auth = auth,
                rq_retries = retries, rq_phase = Due R1 0\<rparr>;
          i = length (requests c);
          started = start_attempt i R1 0 (c\<lparr>requests := requests c @ [rq]\<rparr>);
          fresh = (if meth = GET \<or> meth = DELETE
                   then started\<lparr>pendingRequests := map_set (cacheKey rq) i (pendingRequests c)\<rparr>
                   else started)
      in if meth = GET
         then (case map_of (pendingRequests c) (cacheKey rq) of
                 Some j \<Rightarrow> (c, j)
               | None \<Rightarrow> (fresh, i))
         else (fresh, i))"

text \<open>The \<open>finally\<close>, and a throw through it, which rejects the promise in the same turn.\<close>

definition request_finally :: "nat \<Rightarrow> client \<Rightarrow> client" where
  "request_finally i c =
     c\<lparr>pendingRequests := map_delete (cacheKey (requests c ! i)) (pendingRequests c)\<rparr>"

definition throw_out :: "nat \<Rightarrow> thrown \<Rightarrow> client \<Rightarrow> client" where
  "throw_out i e c = set_phase i (Done (Rejected e)) (request_finally i c)"

definition error_data :: "resp \<Rightarrow> jsval" where
  "error_data r = get_or (rbody r) (JObj [])"

text \<open>A body on which \<open>extractMessage\<close> itself throws rejects the request with that
  \<open>TypeError\<close>; its text is the engine's.\<close>

definition credential_error :: "resp \<Rightarrow> thrown" where
  "credential_error r =
     (case extractMessage (error_data r) of
        None \<Rightarrow> TypeErr []
      | Some (message, error_code) \<Rightarrow>
          ApiError (if message \<noteq> [] \<and> message \<noteq> generic_message then message
                    else ''Those credentials were not accepted.'') 401 (error_data r) error_code)"

definition status_error :: "resp \<Rightarrow> thrown" where
  "status_error r =
     (case extractMessage (error_data r) of
        None \<Rightarrow> TypeErr []
      | Some (message, error_code) \<Rightarrow> ApiError message (rstatus r) (error_data r) error_code)"

text \<open>What \<open>res.json()\<close> of an accepted response gives.\<close>

definition json_outcome :: "resp \<Rightarrow> outcome" where
  "json_outcome r = (case rbody r of Some v \<Rightarrow> Resolved v | None \<Rightarrow> Rejected (OtherError []))"

definition unauthenticated :: "client \<Rightarrow> thrown" where
  "unauthenticated c = ApiError (unauthenticatedMessage c) 401 JUndef JUndef"

text \<open>The end of the \<open>try\<close> block, at the headers of the response that counts.\<close>

definition headers_arrived :: "nat \<Rightarrow> resp \<Rightarrow> client \<Rightarrow> client" where
  "headers_arrived i r c =
     (if \<not> res_ok r then set_phase i (Failing (status_error r)) c
      else set_phase i (Reading (json_outcome r)) (request_finally i c))"

text \<open>From the end of the first \<open>fetchWithRetry\<close> to the reading of a body, to a throw or to the
  wait for a refresh.\<close>

definition first_response :: "nat \<Rightarrow> fetch_result \<Rightarrow> client \<Rightarrow> client" where
  "first_response i result c =
     (let rq = requests c ! i in
      case result of
        Threw e \<Rightarrow> throw_out i e c
      | Res r \<Rightarrow>
          if rstatus r = 401 \<and> \<not> rq_auth rq then
            if isCredentialEndpoint (rq_path rq) then set_phase i (Failing (credential_error r)) c
            else if isSessionProbe (rq_path rq)
            then (let c' = markSessionEnded c in throw_out i (unauthenticated c') c')
            else if refreshSuppressed c then throw_out i (unauthenticated c) c
            else set_phase i Waiting (refreshSession c)
          else headers_arrived i r c)"

text \<open>After \<open>await refreshSession()\<close>.\<close>

definition resume :: "nat \<Rightarrow> bool \<Rightarrow> client \<Rightarrow> client" where
  "resume i refreshed c =
     (if \<not> refreshed then (let c' = redirectToLogin c in throw_out i (unauthenticated c') c')
      else start_attempt i R2 0 c)"

definition replay_response :: "nat \<Rightarrow> fetch_result \<Rightarrow> client \<Rightarrow> client" where
  "replay_response i result c =
     (case result of
        Threw e \<Rightarrow> throw_out i e c
      | Res r \<Rightarrow> headers_arrived i r c)"

definition round_result :: "nat \<Rightarrow> fetch_round \<Rightarrow> fetch_result \<Rightarrow> client \<Rightarrow> client" where
  "round_result i rd result c =
     (case rd of R1 \<Rightarrow> first_response i result c | R2 \<Rightarrow> replay_response i result c)"

text \<open>The loop of \<open>fetchWithRetry\<close> inside a request: what an answer to an attempt leads to, and
  the end of the sleep before the next one.\<close>

definition retryable :: "fetch_result \<Rightarrow> bool" where
  "retryable x = (case x of Threw _ \<Rightarrow> True | Res r \<Rightarrow> rstatus r = 429 \<or> 500 \<le> rstatus r)"

definition attempt_answered :: "nat \<Rightarrow> fetch_round \<Rightarrow> nat \<Rightarrow> fetch_result \<Rightarrow> client \<Rightarrow> client" where
  "attempt_answered i rd attempt result c =
     (if retryable result \<and> int attempt < rq_retries (requests c ! i)
      then set_phase i (Due rd (Suc attempt)) c
      else round_result i rd result c)"

definition sleep_over :: "nat \<Rightarrow> fetch_round \<Rightarrow> nat \<Rightarrow> client \<Rightarrow> client" where
  "sleep_over i rd attempt c =
     (if int attempt \<le> rq_retries (requests c ! i) then start_attempt i rd attempt c
      else round_result i rd (Threw (OtherError ''Request failed after retries'')) c)"

text \<open>The body has been read: a refused response throws through the \<open>finally\<close> now; the promise
  of an accepted one follows that of its body.\<close>

definition body_read :: "nat \<Rightarrow> client \<Rightarrow> client" where
  "body_read i c =
     (case rq_phase (requests c ! i) of
        Failing e \<Rightarrow> throw_out i e c
      | Reading out \<Rightarrow> set_phase i (Done out) c
      | _ \<Rightarrow> c)"

text \<open>The two halves of a refresh: \<open>doRefresh\<close> returns, and the \<open>finally\<close> clears
  \<open>refreshPromise\<close> and hands the result to every request that awaits it.\<close>

definition refresh_answered :: "fetch_result \<Rightarrow> client \<Rightarrow> client" where
  "refresh_answered answer c =
     (let (c', ok) = doRefresh answer c
      in emit (RefreshAnswer ok) (c'\<lparr>refreshPromise := Settled ok\<rparr>))"

definition release_waiter :: "bool \<Rightarrow> request \<Rightarrow> request" where
  "release_waiter ok rq = (if rq_phase rq = Waiting then rq\<lparr>rq_phase := Refreshed ok\<rparr> else rq)"

definition refresh_finally :: "bool \<Rightarrow> client \<Rightarrow> client" where
  "refresh_finally ok c =
     c\<lparr>refreshPromise := NoRefresh, requests := map (release_waiter ok) (requests c)\<rparr>"

subsection \<open>The client as a transition system\<close>

datatype api_label = SignIn | SignOut | Internal

definition initial_client :: "int \<Rightarrow> string option \<Rightarrow> client" where
  "initial_client t loc =
     \<lparr>sessionState = SUnknown, refreshPromise = NoRefresh, refreshBlockedUntil = 0, clock = t,
      authRouting = default_routing, location = loc, requests = [], pendingRequests = [], outputs = []\<rparr>"

definition in_phase :: "client \<Rightarrow> nat \<Rightarrow> phase \<Rightarrow> bool" where
  "in_phase c i p \<longleftrightarrow> i < length (requests c) \<and> rq_phase (requests c ! i) = p"

inductive api_step :: "client \<Rightarrow> api_label \<Rightarrow> client \<Rightarrow> bool" where
  call: "api_step c Internal (fst (request_call meth path body auth retries c))"
| answered_attempt: "in_phase c i (Sending rd attempt) \<Longrightarrow>
    api_step c Internal (attempt_answered i rd attempt result c)"
| slept: "in_phase c i (Due rd attempt) \<Longrightarrow> api_step c Internal (sleep_over i rd attempt c)"
| resumed: "in_phase c i (Refreshed ok) \<Longrightarrow> api_step c Internal (resume i ok c)"
| refused_read: "in_phase c i (Failing e) \<Longrightarrow> api_step c Internal (body_read i c)"
| accepted_read: "in_phase c i (Reading out) \<Longrightarrow> api_step c Internal (body_read i c)"
| answered: "refreshPromise c = InFlight \<Longrightarrow> api_step c Internal (refresh_answered answer c)"
| cleared: "refreshPromise c = Settled ok \<Longrightarrow> api_step c Internal (refresh_finally ok c)"
| signed_in: "api_step c SignIn (markSessionActive c)"
| signed_out: "api_step c SignOut (markSessionEnded c)"
| configured: "api_step c Internal (configureAuthRouting pub login c)"
| time_passes: "t \<ge> clock c \<Longrightarrow> api_step c Internal (c\<lparr>clock := t\<rparr>)"
| navigated: "api_step c Internal (c\<lparr>location := loc\<rparr>)"

inductive api_run :: "client \<Rightarrow> api_label list \<Rightarrow> client \<Rightarrow> bool" where
  run_refl: "api_run c [] c"
| run_step: "api_run c ls c' \<Longrightarrow> api_step c' l c'' \<Longrightarrow> api_run c (ls @ [l]) c''"

definition reachable_client :: "client \<Rightarrow> bool" where
  "reachable_client c \<longleftrightarrow> (\<exists>t loc ls. api_run (initial_client t loc) ls c)"

inductive_cases api_stepE: "api_step c l c'"
inductive_cases sign_inE: "api_step c SignIn c'"

subsection \<open>Retries: which attempt decides, and what is slept\<close>

definition retry_delay :: "nat \<Rightarrow> fetch_result \<Rightarrow> jsnum" where
  "retry_delay a x =
     (case x of Res r \<Rightarrow> if rstatus r = 429 then rate_limit_delay a r else backoff_ms a
      | Threw _ \<Rightarrow> backoff_ms a)"

lemma backoff_ms_eq: "backoff_ms a = Fin (of_int (min (1000 * 2 ^ a) 30000))"
  using capped_doubling [of 1000 a] by (simp add: backoff_ms_def)

lemma retry_loop_last:
  assumes "int a = retries"
  shows "retry_loop srv retries a le = (srv a, [])"
  using assms by (simp add: retry_loop.simps [of _ _ a] retry_loop.simps [of _ _ "Suc a"] get_or_def split: fetch_result.splits)

lemma retry_loop_stop:
  assumes "int a \<le> retries" "\<not> retryable (srv a)"
  shows "retry_loop srv retries a le = (srv a, [])"
  using assms by (auto simp: retry_loop.simps [of _ _ a] retryable_def split: fetch_result.splits)

lemma retry_loop_again:
  assumes "int a < retries" "retryable (srv a)"
  shows "\<exists>le'. retry_loop srv retries a le
    = apsnd ((#) (retry_delay a (srv a))) (retry_loop srv retries (Suc a) le')"
  using assms
  by (auto simp: retry_loop.simps [of _ _ a] retryable_def retry_delay_def res_ok_def split: fetch_result.splits)

text \<open>The reference: the number of attempts is found first, then the answer and the delays are read
  off the stream.\<close>

definition deciding_attempt :: "(nat \<Rightarrow> fetch_result) \<Rightarrow> nat \<Rightarrow> nat" where
  "deciding_attempt srv n = length (takeWhile (\<lambda>a. retryable (srv a)) [0..<n])"

lemma retry_loop_spec:
  assumes "a \<le> n"
  shows "retry_loop srv (int n) a le =
    (let k = length (takeWhile (\<lambda>a. retryable (srv a)) [a..<n])
     in (srv (a + k), map (\<lambda>j. retry_delay j (srv j)) [a..<a + k]))"
  using assms
proof (induction "n - a" arbitrary: a le)
  case 0
  then show ?case by (simp add: retry_loop_last)
next
  case (Suc d)
  then have lt: "a < n" by simp
  then have upt: "[a..<n] = a # [Suc a..<n]" by (rule upt_conv_Cons)
  show ?case
  proof (cases "retryable (srv a)")
    case False
    with lt show ?thesis by (simp add: upt retry_loop_stop)
  next
    case True
    let ?k = "length (takeWhile (\<lambda>a. retryable (srv a)) [Suc a..<n])"
    obtain le' where "retry_loop srv (int n) a le
        = apsnd ((#) (retry_delay a (srv a))) (retry_loop srv (int n) (Suc a) le')"
      using retry_loop_again [of a "int n" srv le] lt True by auto
    also have "retry_loop srv (int n) (Suc a) le'
        = (srv (Suc a + ?k), map (\<lambda>j. retry_delay j (srv j)) [Suc a..<Suc a + ?k])"
      using Suc lt by (simp add: Let_def)
    finally show ?thesis
      using True upt_conv_Cons [of a "a + Suc ?k"] by (simp add: upt Let_def del: upt_Suc)
  qed
qed

lemma fetchWithRetry_spec:
  "fetchWithRetry srv (int n) =
    (let k = deciding_attempt srv n in (srv k, map (\<lambda>j. retry_delay j (srv j)) [0..<k]))"
  by (simp add: fetchWithRetry_def retry_loop_spec deciding_attempt_def)

lemma deciding_attempt_le: "deciding_attempt srv n \<le> n"
  using length_takeWhile_le [of "\<lambda>a. retryable (srv a)" "[0..<n]"] by (simp add: deciding_attempt_def)

lemma deciding_attempt_before: "j < deciding_attempt srv n \<Longrightarrow> retryable (srv j)"
  using nth_mem [of j "takeWhile (\<lambda>a. retryable (srv a)) [0..<n]"] deciding_attempt_le [of srv n]
  by (auto simp: deciding_attempt_def takeWhile_nth dest: set_takeWhileD)

lemma deciding_attempt_at: "deciding_attempt srv n < n \<Longrightarrow> \<not> retryable (srv (deciding_attempt srv n))"
  using nth_length_takeWhile [of "\<lambda>a. retryable (srv a)" "[0..<n]"] by (simp add: deciding_attempt_def)

lemma deciding_attempt_unique:
  assumes "k \<le> n" "\<forall>j < k. retryable (srv j)" "k < n \<longrightarrow> \<not> retryable (srv k)"
  shows "deciding_attempt srv n = k"
  using assms deciding_attempt_le [of srv n] deciding_attempt_before [of _ srv n] deciding_attempt_at [of srv n]
  by (metis linorder_neqE_nat order_le_imp_less_or_eq order_less_le_trans)

end
