(* ===== verification/Api_Client_Props.thy ===== *)
theory Api_Client_Props
  imports Api_Client
begin

text \<open>
  Correctness of the API client (\<open>Api_Client\<close>): invariants of every reachable state by rule
  induction on the runs, the refinement of the refresh gate, a measure for the work a request has
  left, and the properties of \<open>request\<close> and \<open>fetchWithRetry\<close>.
\<close>

named_theorems client_defs \<open>the operations of the client, unfolded together\<close>

lemmas [client_defs] = set_phase_def request_finally_def throw_out_def headers_arrived_def emit_def
  start_attempt_def markSessionActive_def markSessionEnded_def refreshSession_def redirectToLogin_def
  resume_def replay_response_def round_result_def attempt_answered_def sleep_over_def body_read_def
  refresh_answered_def refresh_finally_def doRefresh_def configureAuthRouting_def first_response_def
  request_call_def Let_def

lemmas client_splits = if_splits option.splits fetch_result.splits phase.splits fetch_round.splits

subsection \<open>Small invariants\<close>

definition is_done :: "phase \<Rightarrow> bool" where
  "is_done p = (case p of Done _ \<Rightarrow> True | _ \<Rightarrow> False)"

text \<open>The \<open>finally\<close> of the request has not run: its response has not arrived, or it was refused
  and its body is being read.\<close>

definition is_open :: "phase \<Rightarrow> bool" where
  "is_open p = (case p of Reading _ \<Rightarrow> False | Done _ \<Rightarrow> False | _ \<Rightarrow> True)"

lemma is_done_simps [simp]:
  "is_done (Done x)" "\<not> is_done (Due rd a)" "\<not> is_done (Sending rd a)" "\<not> is_done Waiting"
  "\<not> is_done (Refreshed b)" "\<not> is_done (Failing e)" "\<not> is_done (Reading x)"
  by (simp_all add: is_done_def)

lemma is_open_simps [simp]:
  "\<not> is_open (Done x)" "is_open (Due rd a)" "is_open (Sending rd a)" "is_open Waiting"
  "is_open (Refreshed b)" "is_open (Failing e)" "\<not> is_open (Reading x)"
  by (simp_all add: is_open_def)

lemma cacheKey_phase [simp]: "cacheKey (rq\<lparr>rq_phase := p\<rparr>) = cacheKey rq"
  by (simp add: cacheKey_def)

text \<open>A request waits only while there is a refresh to wait for.\<close>

definition waiting_ok :: "client \<Rightarrow> bool" where
  "waiting_ok c \<longleftrightarrow> (\<forall>i < length (requests c). rq_phase (requests c ! i) = Waiting \<longrightarrow> refreshPromise c \<noteq> NoRefresh)"

definition is_answer :: "api_output \<Rightarrow> bool" where
  "is_answer x = (case x of RefreshAnswer _ \<Rightarrow> True | _ \<Rightarrow> False)"

text \<open>Every refresh call but the one in flight is answered.\<close>

definition flight_ok :: "client \<Rightarrow> bool" where
  "flight_ok c \<longleftrightarrow>
     count_list (outputs c) RefreshCall
     = length (filter is_answer (outputs c)) + (if refreshPromise c = InFlight then 1 else 0)"

text \<open>How often a request in a given phase has been fetched, with \<open>N\<close> attempts to a round.\<close>

definition budget :: "request \<Rightarrow> nat" where
  "budget rq = nat (rq_retries rq + 1)"

fun sent_ok :: "nat \<Rightarrow> phase \<Rightarrow> nat \<Rightarrow> bool" where
  "sent_ok N (Due R1 a) n = (n = a \<and> a \<le> N \<and> (a = 0 \<longrightarrow> N = 0))"
| "sent_ok N (Sending R1 a) n = (n = Suc a \<and> a < N)"
| "sent_ok N Waiting n = (0 < n \<and> n \<le> N)"
| "sent_ok N (Refreshed _) n = (0 < n \<and> n \<le> N)"
| "sent_ok N (Due R2 a) n = (0 < n \<and> n \<le> N + a \<and> a \<le> N)"
| "sent_ok N (Sending R2 a) n = (0 < n \<and> n \<le> N + Suc a \<and> a < N)"
| "sent_ok N (Failing _) n = (0 < n \<and> n \<le> 2 * N)"
| "sent_ok N (Reading _) n = (0 < n \<and> n \<le> 2 * N)"
| "sent_ok N (Done _) n = ((0 < N \<longrightarrow> 0 < n) \<and> n \<le> 2 * N)"

definition fetches_ok :: "client \<Rightarrow> bool" where
  "fetches_ok c \<longleftrightarrow>
     (\<forall>i < length (requests c).
        sent_ok (budget (requests c ! i)) (rq_phase (requests c ! i)) (count_list (outputs c) (Fetch i)))
     \<and> (\<forall>i \<ge> length (requests c). count_list (outputs c) (Fetch i) = 0)"

text \<open>The map of pending requests: it names only requests whose \<open>finally\<close> has not run, under their
  own keys, and every such \<open>GET\<close> is in it.\<close>

definition pending_ok :: "client \<Rightarrow> bool" where
  "pending_ok c \<longleftrightarrow>
     (\<forall>k i. map_of (pendingRequests c) k = Some i \<longrightarrow>
        i < length (requests c) \<and> cacheKey (requests c ! i) = k \<and> is_open (rq_phase (requests c ! i)))"

definition gets_ok :: "client \<Rightarrow> bool" where
  "gets_ok c \<longleftrightarrow>
     (\<forall>i < length (requests c). rq_method (requests c ! i) = GET \<longrightarrow> is_open (rq_phase (requests c ! i)) \<longrightarrow>
        map_of (pendingRequests c) (cacheKey (requests c ! i)) = Some i)"

definition client_inv :: "client \<Rightarrow> bool" where
  "client_inv c \<longleftrightarrow> waiting_ok c \<and> flight_ok c \<and> fetches_ok c \<and> pending_ok c \<and> gets_ok c"

lemma cacheKey_GET: "cacheKey rq = cacheKey rq' \<Longrightarrow> rq_method rq = GET \<Longrightarrow> rq_method rq' = GET"
  by (cases "rq_method rq'") (simp_all add: cacheKey_def)

text \<open>What the operations leave alone.\<close>

lemma requests_of_ops [simp]:
  "requests (markSessionActive c) = requests c" "requests (markSessionEnded c) = requests c"
  "requests (emit x c) = requests c" "requests (refreshSession c) = requests c"
  "requests (redirectToLogin c) = requests c" "requests (request_finally i c) = requests c"
  by (auto simp: client_defs split: option.splits)

lemma pending_of_ops [simp]:
  "pendingRequests (markSessionActive c) = pendingRequests c"
  "pendingRequests (markSessionEnded c) = pendingRequests c"
  "pendingRequests (emit x c) = pendingRequests c" "pendingRequests (refreshSession c) = pendingRequests c"
  "pendingRequests (redirectToLogin c) = pendingRequests c"
  by (auto simp: client_defs split: option.splits)

lemma in_phase_ops [simp]:
  "in_phase (markSessionActive c) = in_phase c" "in_phase (markSessionEnded c) = in_phase c"
  "in_phase (emit x c) = in_phase c" "in_phase (refreshSession c) = in_phase c"
  "in_phase (redirectToLogin c) = in_phase c" "in_phase (request_finally i c) = in_phase c"
  by (auto simp: in_phase_def fun_eq_iff)

lemma pending_ok_ops [simp]:
  "pending_ok (markSessionActive c) = pending_ok c" "pending_ok (markSessionEnded c) = pending_ok c"
  "pending_ok (emit x c) = pending_ok c" "pending_ok (refreshSession c) = pending_ok c"
  "pending_ok (redirectToLogin c) = pending_ok c"
  by (simp_all add: pending_ok_def)

lemma gets_ok_ops [simp]:
  "gets_ok (markSessionActive c) = gets_ok c" "gets_ok (markSessionEnded c) = gets_ok c"
  "gets_ok (emit x c) = gets_ok c" "gets_ok (refreshSession c) = gets_ok c"
  "gets_ok (redirectToLogin c) = gets_ok c"
  by (simp_all add: gets_ok_def)

subsection \<open>The shape of the steps\<close>

text \<open>What a request's step on its own state amounts to: it moves on, it throws or it starts reading
  the body of an accepted response.\<close>

lemma round_result_cases:
  obtains (thrown) e b where "round_result i rd result c = throw_out i e (if b then markSessionEnded c else c)"
  | (failing) e where "round_result i rd result c = set_phase i (Failing e) c"
  | (reading) x where "round_result i rd result c = set_phase i (Reading x) (request_finally i c)"
  | (waits) "rd = R1" "round_result i rd result c = set_phase i Waiting (refreshSession c)" "\<not> refreshSuppressed c"
proof -
  have headers: "(\<exists>e. headers_arrived i r c = set_phase i (Failing e) c)
      \<or> (\<exists>x. headers_arrived i r c = set_phase i (Reading x) (request_finally i c))" for r
    by (auto simp: headers_arrived_def)
  show ?thesis
  proof (cases result)
    case (Threw e)
    then show ?thesis
      using thrown [of e False] by (cases rd) (simp_all add: round_result_def first_response_def replay_response_def)
  next
    case (Res r)
    let ?rq = "requests c ! i"
    consider "rd = R2 \<or> \<not> (rstatus r = 401 \<and> \<not> rq_auth ?rq)"
      | "rd = R1" "rstatus r = 401 \<and> \<not> rq_auth ?rq" "isCredentialEndpoint (rq_path ?rq)"
      | "rd = R1" "rstatus r = 401 \<and> \<not> rq_auth ?rq" "\<not> isCredentialEndpoint (rq_path ?rq)" "isSessionProbe (rq_path ?rq)"
      | "rd = R1" "rstatus r = 401 \<and> \<not> rq_auth ?rq" "\<not> isCredentialEndpoint (rq_path ?rq)" "\<not> isSessionProbe (rq_path ?rq)"
      by (cases rd) blast+
    then show ?thesis
    proof cases
      case 1
      then have "round_result i rd result c = headers_arrived i r c"
        by (cases rd) (auto simp: Res round_result_def first_response_def replay_response_def Let_def)
      then show ?thesis using headers [of r] failing reading by auto
    next
      case 2
      then show ?thesis using failing [of "credential_error r"] by (simp add: Res round_result_def first_response_def Let_def)
    next
      case 3
      then show ?thesis
        using thrown [of "unauthenticated (markSessionEnded c)" True] by (simp add: Res round_result_def first_response_def Let_def)
    next
      case 4
      then show ?thesis
        using thrown [of "unauthenticated c" False] waits
        by (cases "refreshSuppressed c") (simp_all add: Res round_result_def first_response_def Let_def)
    qed
  qed
qed

lemma round_result_Threw [simp]: "round_result i rd (Threw e) c = throw_out i e c"
  by (cases rd) (simp_all add: round_result_def first_response_def replay_response_def)

lemma body_read_eq:
  "in_phase c i (Failing e) \<Longrightarrow> body_read i c = throw_out i e c"
  "in_phase c i (Reading x) \<Longrightarrow> body_read i c = set_phase i (Done x) c"
  by (simp_all add: body_read_def in_phase_def)

lemma waiting_set_phase:
  "waiting_ok c \<Longrightarrow> p \<noteq> Waiting \<or> refreshPromise c \<noteq> NoRefresh \<Longrightarrow> waiting_ok (set_phase i p c)"
  by (cases "i < length (requests c)") (auto simp: waiting_ok_def set_phase_def nth_list_update split: if_splits)

lemma waiting_ok_ops [simp]:
  "waiting_ok (markSessionActive c) = waiting_ok c" "waiting_ok (markSessionEnded c) = waiting_ok c"
  "waiting_ok (emit x c) = waiting_ok c" "waiting_ok (request_finally i c) = waiting_ok c"
  "waiting_ok (redirectToLogin c) = waiting_ok c"
  "waiting_ok c \<Longrightarrow> waiting_ok (refreshSession c)" "refreshPromise (refreshSession c) \<noteq> NoRefresh"
  by (auto simp: waiting_ok_def client_defs split: option.splits)

lemma waiting_throw: "waiting_ok c \<Longrightarrow> waiting_ok (throw_out i e c)"
  by (simp add: throw_out_def waiting_set_phase)

lemma waiting_start: "waiting_ok c \<Longrightarrow> waiting_ok (start_attempt i rd a c)"
  by (simp add: start_attempt_def waiting_set_phase)

lemma waiting_round: "waiting_ok c \<Longrightarrow> waiting_ok (round_result i rd x c)"
  by (cases rule: round_result_cases [of i rd x c]) (simp_all add: waiting_set_phase waiting_throw)

lemma waiting_call: "waiting_ok c \<Longrightarrow> waiting_ok (fst (request_call meth path body auth retries c))"
  by (auto simp: request_call_def Let_def start_attempt_def set_phase_def emit_def waiting_ok_def nth_append less_Suc_eq
      split: option.splits)

lemma waiting_ok_step:
  assumes "api_step c l c'" "waiting_ok c"
  shows "waiting_ok c'"
  using assms
  by (cases rule: api_step.cases)
    (simp_all add: attempt_answered_def sleep_over_def resume_def Let_def body_read_eq waiting_set_phase waiting_throw
      waiting_start waiting_round waiting_call,
     auto simp: refresh_answered_def doRefresh_def emit_def refresh_finally_def release_waiter_def
      configureAuthRouting_def waiting_ok_def markSessionActive_def markSessionEnded_def split: fetch_result.splits)

lemma flight_ok_ops [simp]:
  "flight_ok (set_phase i p c) = flight_ok c" "flight_ok (request_finally i c) = flight_ok c"
  "flight_ok (throw_out i e c) = flight_ok c" "flight_ok (emit (Fetch i) c) = flight_ok c"
  "flight_ok (start_attempt i rd a c) = flight_ok c" "flight_ok (redirectToLogin c) = flight_ok c"
  "flight_ok (markSessionActive c) = flight_ok c" "flight_ok (markSessionEnded c) = flight_ok c"
  "flight_ok c \<Longrightarrow> flight_ok (refreshSession c)"
  by (auto simp: flight_ok_def is_answer_def client_defs split: option.splits)

lemma flight_round: "flight_ok c \<Longrightarrow> flight_ok (round_result i rd x c)"
  by (cases rule: round_result_cases [of i rd x c]) simp_all

lemma flight_call: "flight_ok c \<Longrightarrow> flight_ok (fst (request_call meth path body auth retries c))"
  by (auto simp: request_call_def Let_def start_attempt_def set_phase_def emit_def flight_ok_def is_answer_def split: option.splits)

lemma flight_answered: "refreshPromise c = InFlight \<Longrightarrow> flight_ok c \<Longrightarrow> flight_ok (refresh_answered x c)"
  by (auto simp: flight_ok_def is_answer_def client_defs split: fetch_result.splits)

lemma flight_ok_step:
  assumes "api_step c l c'" "flight_ok c"
  shows "flight_ok c'"
  using assms
  by (cases rule: api_step.cases)
    (simp_all add: attempt_answered_def sleep_over_def resume_def Let_def body_read_eq flight_round flight_call flight_answered,
     simp_all add: flight_ok_def refresh_finally_def configureAuthRouting_def)

text \<open>The remaining three are kept by the building blocks of the operations: a change of phase, the
  end of a request and the start of one.\<close>

lemma phase_pending:
  assumes "in_phase c i p" "is_open p = is_open q"
  shows "pending_ok (set_phase i q c) = pending_ok c" "gets_ok (set_phase i q c) = gets_ok c"
  using assms by (auto simp: pending_ok_def gets_ok_def set_phase_def in_phase_def nth_list_update)

lemma close_pending:
  assumes "in_phase c i p" "is_open p" "\<not> is_open q" "pending_ok c" "gets_ok c"
  shows "pending_ok (set_phase i q (request_finally i c))" "gets_ok (set_phase i q (request_finally i c))"
proof -
  show "pending_ok (set_phase i q (request_finally i c))"
    using assms(1,3,4)
    by (auto simp: pending_ok_def request_finally_def set_phase_def in_phase_def nth_list_update map_of_delete split: if_splits)
  have "cacheKey (requests c ! j) \<noteq> cacheKey (requests c ! i)"
    if "j < length (requests c)" "rq_method (requests c ! j) = GET" "is_open (rq_phase (requests c ! j))" "j \<noteq> i" for j
  proof
    assume eq: "cacheKey (requests c ! j) = cacheKey (requests c ! i)"
    then have "rq_method (requests c ! i) = GET" using that cacheKey_GET by blast
    then have "map_of (pendingRequests c) (cacheKey (requests c ! i)) = Some i"
      using assms by (simp add: gets_ok_def in_phase_def)
    moreover have "map_of (pendingRequests c) (cacheKey (requests c ! j)) = Some j"
      using assms(5) that by (simp add: gets_ok_def)
    ultimately show False using eq \<open>j \<noteq> i\<close> by simp
  qed
  then show "gets_ok (set_phase i q (request_finally i c))"
    using assms(1,3,5)
    by (auto simp: gets_ok_def request_finally_def set_phase_def in_phase_def nth_list_update map_of_delete)
qed

lemma call_pending:
  assumes "pending_ok c" "gets_ok c"
  shows "pending_ok (fst (request_call meth path body auth retries c))"
    "gets_ok (fst (request_call meth path body auth retries c))"
proof -
  let ?rq = "\<lparr>rq_method = meth, rq_path = path, rq_body = body, rq_auth = auth, rq_retries = retries, rq_phase = Due R1 0\<rparr>"
  have key: "cacheKey (?rq\<lparr>rq_phase := Sending R1 0\<rparr>) = cacheKey ?rq" by (rule cacheKey_phase)
  show "pending_ok (fst (request_call meth path body auth retries c))"
  proof -
    have old: "i < length (requests c) \<and> cacheKey (requests c ! i) = k \<and> is_open (rq_phase (requests c ! i))"
      if "map_of (pendingRequests c) k = Some i" for k i
      using assms(1) that by (simp add: pending_ok_def)
    show ?thesis
      unfolding pending_ok_def using key
      by (auto simp: request_call_def Let_def start_attempt_def set_phase_def emit_def map_of_set nth_append less_Suc_eq
          nth_list_update dest: old split: option.splits if_splits)
  qed
  have "cacheKey (requests c ! j) \<noteq> cacheKey ?rq"
    if "j < length (requests c)" "rq_method (requests c ! j) = GET" "is_open (rq_phase (requests c ! j))"
      "meth = GET \<longrightarrow> map_of (pendingRequests c) (cacheKey ?rq) = None" for j
  proof
    assume eq: "cacheKey (requests c ! j) = cacheKey ?rq"
    then have "meth = GET" using that(2) cacheKey_GET [of "requests c ! j" ?rq] by simp
    moreover have "map_of (pendingRequests c) (cacheKey (requests c ! j)) = Some j"
      using assms(2) that by (simp add: gets_ok_def)
    ultimately show False using eq that(4) by simp
  qed
  then show "gets_ok (fst (request_call meth path body auth retries c))"
    using assms(2) key
    by (auto simp: gets_ok_def request_call_def Let_def start_attempt_def set_phase_def emit_def map_of_set nth_append
        less_Suc_eq split: option.splits)
qed

lemma release_pending:
  "pending_ok (refresh_finally ok c) = pending_ok c" "gets_ok (refresh_finally ok c) = gets_ok c"
proof -
  have "cacheKey (release_waiter ok rq) = cacheKey rq" "rq_method (release_waiter ok rq) = rq_method rq"
    "is_open (rq_phase (release_waiter ok rq)) = is_open (rq_phase rq)" for rq
    by (auto simp: release_waiter_def)
  then show "pending_ok (refresh_finally ok c) = pending_ok c" "gets_ok (refresh_finally ok c) = gets_ok c"
    by (simp_all add: pending_ok_def gets_ok_def refresh_finally_def cong: conj_cong)
qed

lemma throw_pending:
  assumes "in_phase c i p" "is_open p" "pending_ok c" "gets_ok c"
  shows "pending_ok (throw_out i e c) \<and> gets_ok (throw_out i e c)"
  using close_pending [OF assms(1,2) _ assms(3,4)] by (simp add: throw_out_def)

lemma start_pending:
  assumes "in_phase c i p" "is_open p" "pending_ok c" "gets_ok c"
  shows "pending_ok (start_attempt i rd a c) \<and> gets_ok (start_attempt i rd a c)"
  using phase_pending [of c i p "Due rd a"] phase_pending [of "emit (Fetch i) c" i p "Sending rd a"] assms
  by (simp add: start_attempt_def)

lemma round_pending:
  assumes "in_phase c i p" "is_open p" "pending_ok c" "gets_ok c"
  shows "pending_ok (round_result i rd x c) \<and> gets_ok (round_result i rd x c)"
proof (cases rule: round_result_cases [of i rd x c])
  case (thrown e b)
  then show ?thesis using throw_pending [of "if b then markSessionEnded c else c" i p e] assms by (cases b) simp_all
next
  case (failing e)
  then show ?thesis using phase_pending [OF assms(1), of "Failing e"] assms by simp
next
  case (reading x)
  then show ?thesis using close_pending [OF assms(1,2) _ assms(3,4), of "Reading x"] by simp
next
  case waits
  then show ?thesis using phase_pending [of "refreshSession c" i p Waiting] assms by simp
qed

lemma pending_step:
  assumes "api_step c l c'" "pending_ok c" "gets_ok c"
  shows "pending_ok c' \<and> gets_ok c'"
  using assms(1)
proof cases
  case (answered_attempt i rd a x)
  then show ?thesis
    using round_pending [of c i "Sending rd a" rd x] phase_pending [of c i "Sending rd a" "Due rd (Suc a)"] assms(2,3)
    by (simp add: attempt_answered_def)
next
  case (slept i rd a)
  then show ?thesis
    using throw_pending [of c i "Due rd a"] start_pending [of c i "Due rd a" rd a] assms(2,3) by (simp add: sleep_over_def)
next
  case (resumed i ok)
  then show ?thesis
    using throw_pending [of "redirectToLogin c" i "Refreshed ok"] start_pending [of c i "Refreshed ok" R2 0] assms(2,3)
    by (simp add: resume_def Let_def)
next
  case (refused_read i e)
  then show ?thesis using throw_pending [of c i "Failing e" e] assms(2,3) by (simp add: body_read_eq)
next
  case (accepted_read i x)
  then show ?thesis using phase_pending [of c i "Reading x" "Done x"] assms(2,3) by (simp add: body_read_eq)
next
  case (answered answer)
  then have "requests c' = requests c" "pendingRequests c' = pendingRequests c"
    by (auto simp: client_defs split: fetch_result.splits)
  then show ?thesis using assms(2,3) by (simp add: pending_ok_def gets_ok_def)
next
  case call
  then show ?thesis using call_pending assms(2,3) by simp
next
  case cleared
  then show ?thesis using release_pending assms(2,3) by simp
qed (use assms(2,3) in \<open>simp_all add: configureAuthRouting_def pending_ok_def gets_ok_def\<close>)

lemma fetches_ok_ops [simp]:
  "fetches_ok (markSessionActive c) = fetches_ok c" "fetches_ok (markSessionEnded c) = fetches_ok c"
  "fetches_ok (refreshSession c) = fetches_ok c" "fetches_ok (redirectToLogin c) = fetches_ok c"
  "fetches_ok (request_finally i c) = fetches_ok c"
  by (auto simp: fetches_ok_def client_defs split: option.splits)

lemma budget_phase [simp]: "budget (rq\<lparr>rq_phase := p\<rparr>) = budget rq"
  by (simp add: budget_def)

lemma phase_fetches:
  assumes "in_phase c i p" "fetches_ok c" "\<And>n. sent_ok (budget (requests c ! i)) p n \<Longrightarrow> sent_ok (budget (requests c ! i)) q n"
  shows "fetches_ok (set_phase i q c)"
  using assms by (auto simp: fetches_ok_def set_phase_def in_phase_def nth_list_update)

lemma sent_ok_Done: "sent_ok N p n \<Longrightarrow> sent_ok N (Done x) n"
  by (cases "(N, p, n)" rule: sent_ok.cases) auto

lemma throw_fetches: "in_phase c i p \<Longrightarrow> fetches_ok c \<Longrightarrow> fetches_ok (throw_out i e c)"
  using phase_fetches [of "request_finally i c" i p "Done (Rejected e)"] sent_ok_Done by (simp add: throw_out_def)

lemma start_fetches:
  assumes "in_phase c i p" "fetches_ok c"
    "\<And>n. sent_ok (budget (requests c ! i)) p n \<Longrightarrow> sent_ok (budget (requests c ! i)) (Due rd a) n"
  shows "fetches_ok (start_attempt i rd a c)"
proof (cases "int a \<le> rq_retries (requests c ! i)")
  case True
  then have "a < budget (requests c ! i)" by (simp add: budget_def)
  moreover have "sent_ok (budget (requests c ! i)) (Due rd a) (count_list (outputs c) (Fetch i))"
    using assms by (auto simp: fetches_ok_def in_phase_def)
  ultimately have "sent_ok (budget (requests c ! i)) (Sending rd a) (Suc (count_list (outputs c) (Fetch i)))"
    by (cases rd) auto
  then show ?thesis
    using True assms(1,2)
    by (auto simp: start_attempt_def fetches_ok_def set_phase_def emit_def in_phase_def nth_list_update)
next
  case False
  then show ?thesis using phase_fetches [of c i p "Due rd a"] assms by (simp add: start_attempt_def)
qed

lemma round_fetches:
  assumes "in_phase c i (Sending rd a)" "fetches_ok c"
  shows "fetches_ok (round_result i rd x c)"
proof (cases rule: round_result_cases [of i rd x c])
  case (thrown e b)
  then show ?thesis
    using throw_fetches [of "if b then markSessionEnded c else c" i "Sending rd a" e] assms by (cases b) simp_all
next
  case (failing e)
  then show ?thesis using phase_fetches [OF assms, of "Failing e"] by (cases rd) simp_all
next
  case (reading y)
  then show ?thesis
    using phase_fetches [of "request_finally i c" i "Sending rd a" "Reading y"] assms by (cases rd) simp_all
next
  case waits
  then show ?thesis using phase_fetches [of "refreshSession c" i "Sending rd a" Waiting] assms by simp
qed

lemma fetches_step:
  assumes "api_step c l c'" "fetches_ok c"
  shows "fetches_ok c'"
  using assms(1)
proof cases
  case (call meth path body auth retries)
  then show ?thesis
    using assms(2)
    by (auto simp: request_call_def Let_def start_attempt_def set_phase_def emit_def fetches_ok_def nth_append less_Suc_eq
        budget_def split: option.splits)
next
  case (answered_attempt i rd a x)
  have "int a < rq_retries (requests c ! i) \<Longrightarrow> fetches_ok (set_phase i (Due rd (Suc a)) c)"
    using phase_fetches [OF answered_attempt(3) assms(2), of "Due rd (Suc a)"] by (cases rd) (auto simp: budget_def)
  then show ?thesis
    using answered_attempt round_fetches assms(2) by (simp add: attempt_answered_def)
next
  case (slept i rd a)
  then show ?thesis
    using throw_fetches [of c i "Due rd a"] start_fetches [of c i "Due rd a" rd a] assms(2) by (simp add: sleep_over_def)
next
  case (resumed i ok)
  then show ?thesis
    using throw_fetches [of "redirectToLogin c" i "Refreshed ok"] start_fetches [of c i "Refreshed ok" R2 0] assms(2)
    by (simp add: resume_def Let_def)
next
  case (refused_read i e)
  then show ?thesis using throw_fetches [of c i "Failing e" e] assms(2) by (simp add: body_read_eq)
next
  case (accepted_read i x)
  then show ?thesis using phase_fetches [of c i "Reading x" "Done x"] sent_ok_Done assms(2) by (simp add: body_read_eq)
next
  case (answered answer)
  then have "requests c' = requests c" "count_list (outputs c') (Fetch i) = count_list (outputs c) (Fetch i)" for i
    by (auto simp: client_defs split: fetch_result.splits)
  then show ?thesis using assms(2) by (simp add: fetches_ok_def)
next
  case (cleared ok)
  have "sent_ok N (rq_phase (release_waiter ok rq)) n = sent_ok N (rq_phase rq) n" "budget (release_waiter ok rq) = budget rq" for rq n N
    by (auto simp: release_waiter_def)
  then show ?thesis using cleared assms(2) by (simp add: fetches_ok_def refresh_finally_def)
qed (use assms(2) in \<open>simp_all add: configureAuthRouting_def markSessionActive_def markSessionEnded_def fetches_ok_def\<close>)

lemma client_inv_step: "api_step c l c' \<Longrightarrow> client_inv c \<Longrightarrow> client_inv c'"
  using waiting_ok_step flight_ok_step fetches_step pending_step unfolding client_inv_def by blast

lemma client_inv_init: "client_inv (initial_client t loc)"
  by (simp add: client_inv_def initial_client_def waiting_ok_def flight_ok_def fetches_ok_def pending_ok_def gets_ok_def)

lemma client_inv_run: "api_run c ls c' \<Longrightarrow> client_inv c \<Longrightarrow> client_inv c'"
  by (induction rule: api_run.induct) (auto intro: client_inv_step)

lemma client_inv_reachable: "reachable_client c \<Longrightarrow> client_inv c"
  using client_inv_run client_inv_init unfolding reachable_client_def by blast

subsection \<open>The refresh gate\<close>

text \<open>
  What the session machinery promises, without its variables: a gate that is open or shut, at most
  one call under way behind it, and a count of the calls made. A call starts only through an open
  gate with none under way; only a call's answer or a sign-in opens it again.
\<close>

record gate =
  shut :: bool
  flying :: bool
  calls :: nat

inductive gate_step :: "gate \<Rightarrow> api_label \<Rightarrow> gate \<Rightarrow> bool" where
  g_skip: "gate_step g l g"
| g_call: "\<not> shut g \<Longrightarrow> \<not> flying g \<Longrightarrow> gate_step g Internal (g\<lparr>flying := True, calls := Suc (calls g)\<rparr>)"
| g_accepted: "flying g \<Longrightarrow> gate_step g Internal (g\<lparr>flying := False, shut := False\<rparr>)"
| g_refused: "flying g \<Longrightarrow> gate_step g Internal (g\<lparr>flying := False, shut := True\<rparr>)"
| g_inconclusive: "flying g \<Longrightarrow> gate_step g Internal (g\<lparr>flying := False\<rparr>)"
| g_sign_in: "gate_step g SignIn (g\<lparr>shut := False\<rparr>)"
| g_closed: "l \<noteq> SignIn \<Longrightarrow> gate_step g l (g\<lparr>shut := True\<rparr>)"

inductive_cases gate_stepE: "gate_step g l g'"

definition abs_gate :: "client \<Rightarrow> gate" where
  "abs_gate c =
     \<lparr>shut = (sessionState c = SNone), flying = (refreshPromise c = InFlight),
      calls = count_list (outputs c) RefreshCall\<rparr>"

lemma abs_gate_same:
  assumes "sessionState c' = sessionState c" "refreshPromise c' = refreshPromise c"
    "count_list (outputs c') RefreshCall = count_list (outputs c) RefreshCall"
  shows "gate_step (abs_gate c) l (abs_gate c')"
  using assms g_skip [of "abs_gate c" l] by (simp add: abs_gate_def)

lemma abs_gate_ops [simp]:
  "abs_gate (throw_out i e c) = abs_gate c" "abs_gate (set_phase i p c) = abs_gate c"
  "abs_gate (request_finally i c) = abs_gate c" "abs_gate (start_attempt i rd a c) = abs_gate c"
  "abs_gate (redirectToLogin c) = abs_gate c" "abs_gate (emit (Fetch i) c) = abs_gate c"
  "abs_gate (markSessionEnded c) = (abs_gate c)\<lparr>shut := True\<rparr>"
  "abs_gate (markSessionActive c) = (abs_gate c)\<lparr>shut := False\<rparr>"
  by (auto simp: abs_gate_def client_defs split: option.splits)

lemma abs_gate_refreshSession:
  "abs_gate (refreshSession c) =
     (if refreshPromise c = NoRefresh then (abs_gate c)\<lparr>flying := True, calls := Suc (calls (abs_gate c))\<rparr>
      else abs_gate c)"
  by (simp add: abs_gate_def client_defs)

lemma refresh_answered_gate:
  assumes "refreshPromise c = InFlight"
  shows "gate_step (abs_gate c) Internal (abs_gate (refresh_answered answer c))"
proof -
  let ?g = "abs_gate c" and ?g' = "abs_gate (refresh_answered answer c)"
  have "flying ?g" using assms by (simp add: abs_gate_def)
  moreover have "?g' = ?g\<lparr>flying := False, shut := False\<rparr> \<or> ?g' = ?g\<lparr>flying := False, shut := True\<rparr>
      \<or> ?g' = ?g\<lparr>flying := False\<rparr>"
    by (auto simp: abs_gate_def client_defs split: fetch_result.splits)
  ultimately show ?thesis by (metis g_accepted g_refused g_inconclusive)
qed

lemma round_result_gate: "gate_step (abs_gate c) Internal (abs_gate (round_result i rd x c))"
proof (cases rule: round_result_cases [of i rd x c])
  case (thrown e b)
  then show ?thesis by (cases b) (simp_all add: g_skip g_closed)
next
  case waits
  then have "\<not> shut (abs_gate c)" by (simp add: abs_gate_def refreshSuppressed_def)
  moreover have "refreshPromise c = NoRefresh \<Longrightarrow> \<not> flying (abs_gate c)" by (simp add: abs_gate_def)
  ultimately show ?thesis using waits by (simp add: abs_gate_refreshSession g_skip g_call)
qed (simp_all add: g_skip)

lemma client_refines_gate:
  assumes "api_step c l c'"
  shows "gate_step (abs_gate c) l (abs_gate c')"
  using assms
proof cases
  case (call meth path body auth retries)
  then show ?thesis by (auto intro!: abs_gate_same simp: request_call_def Let_def start_attempt_def set_phase_def emit_def split: option.splits)
next
  case (answered_attempt i rd a x)
  then show ?thesis using round_result_gate [of c i rd x] by (simp add: attempt_answered_def g_skip)
next
  case (slept i rd a)
  then show ?thesis by (simp add: sleep_over_def g_skip)
next
  case (resumed i ok)
  then show ?thesis by (simp add: resume_def Let_def g_skip)
next
  case (refused_read i e)
  then show ?thesis by (simp add: body_read_eq g_skip)
next
  case (accepted_read i x)
  then show ?thesis by (simp add: body_read_eq g_skip)
next
  case (answered answer)
  then show ?thesis using refresh_answered_gate by simp
next
  case signed_in
  then show ?thesis by (simp add: g_sign_in)
next
  case signed_out
  then show ?thesis by (simp add: g_closed)
next
  case (cleared ok)
  then have "abs_gate c' = abs_gate c" by (simp add: abs_gate_def refresh_finally_def)
  then show ?thesis by (simp add: g_skip)
qed (auto intro!: abs_gate_same simp: configureAuthRouting_def)

text \<open>The promise, proved on the gate: once shut with nothing under way, it stays shut and silent
  until a sign-in.\<close>

lemma gate_stays_shut:
  "gate_step g l g' \<Longrightarrow> shut g \<Longrightarrow> \<not> flying g \<Longrightarrow> l \<noteq> SignIn \<Longrightarrow> shut g' \<and> \<not> flying g' \<and> calls g' = calls g"
  by (erule gate_stepE) auto

lemma shut_run:
  assumes "api_run c ls c'" "shut (abs_gate c)" "\<not> flying (abs_gate c)" "SignIn \<notin> set ls"
  shows "shut (abs_gate c') \<and> \<not> flying (abs_gate c') \<and> calls (abs_gate c') = calls (abs_gate c)"
  using assms
proof (induction rule: api_run.induct)
  case (run_step c ls c' l c'')
  then show ?case using gate_stays_shut [OF client_refines_gate, of c' l c''] by auto
qed simp

subsection \<open>The work a request has left\<close>

definition phase_of :: "client \<Rightarrow> nat \<Rightarrow> phase" where
  "phase_of c i = rq_phase (requests c ! i)"

text \<open>An upper bound for the events a request still needs: with \<open>N\<close> attempts to a round, an answer
  and a sleep for each attempt, the two halves of a refresh, the resumption and the body.\<close>

fun events_left :: "refresh_state \<Rightarrow> nat \<Rightarrow> phase \<Rightarrow> nat" where
  "events_left p N (Due R1 a) = 2 * (N - a) + 2 * N + 6"
| "events_left p N (Sending R1 a) = 2 * (N - a) - 1 + 2 * N + 6"
| "events_left (Settled ok) N Waiting = 2 * N + 4"
| "events_left p N Waiting = 2 * N + 5"
| "events_left p N (Refreshed _) = 2 * N + 3"
| "events_left p N (Due R2 a) = 2 * (N - a) + 2"
| "events_left p N (Sending R2 a) = 2 * (N - a) - 1 + 2"
| "events_left p N (Failing _) = 1"
| "events_left p N (Reading _) = 1"
| "events_left p N (Done _) = 0"

definition todo :: "client \<Rightarrow> nat \<Rightarrow> nat" where
  "todo c i = events_left (refreshPromise c) (budget (requests c ! i)) (phase_of c i)"

text \<open>The event a request awaits: the answer to its attempt, whatever it is, the end of its sleep,
  the answer or the end of the refresh it waits for, its resumption, the arrival of its body.\<close>

definition awaited :: "nat \<Rightarrow> client \<Rightarrow> client \<Rightarrow> bool" where
  "awaited i c c' \<longleftrightarrow>
     (case phase_of c i of
        Due rd a \<Rightarrow> c' = sleep_over i rd a c
      | Sending rd a \<Rightarrow> (\<exists>result. c' = attempt_answered i rd a result c)
      | Waiting \<Rightarrow>
          (case refreshPromise c of
             NoRefresh \<Rightarrow> False
           | InFlight \<Rightarrow> (\<exists>answer. c' = refresh_answered answer c)
           | Settled ok \<Rightarrow> c' = refresh_finally ok c)
      | Refreshed ok \<Rightarrow> c' = resume i ok c
      | Failing _ \<Rightarrow> c' = body_read i c
      | Reading _ \<Rightarrow> c' = body_read i c
      | Done _ \<Rightarrow> False)"

lemma phase_of_ops [simp]:
  "phase_of (markSessionActive c) = phase_of c" "phase_of (markSessionEnded c) = phase_of c"
  "phase_of (emit x c) = phase_of c" "phase_of (refreshSession c) = phase_of c"
  "phase_of (redirectToLogin c) = phase_of c" "phase_of (request_finally i c) = phase_of c"
  by (simp_all add: phase_of_def fun_eq_iff)

lemma in_phase_iff: "in_phase c i p \<longleftrightarrow> i < length (requests c) \<and> phase_of c i = p"
  by (simp add: in_phase_def phase_of_def)

lemma events_left_done: "events_left p N q = 0 \<longleftrightarrow> is_done q"
  by (cases "(p, N, q)" rule: events_left.cases) simp_all

lemma events_left_le: "events_left p N q \<le> 4 * N + 6"
  by (cases "(p, N, q)" rule: events_left.cases) simp_all

lemma events_left_waiting: "events_left p N Waiting \<le> 2 * N + 5" "2 * N + 4 \<le> events_left p N Waiting"
  by (cases p; simp)+

lemma events_left_other: "q \<noteq> Waiting \<Longrightarrow> events_left p N q = events_left p' N q"
  by (cases "(p, N, q)" rule: events_left.cases; cases "(p', N, q)" rule: events_left.cases; simp)

text \<open>What a change of phase does to the work of each request.\<close>

lemma phase_of_set:
  assumes "i < length (requests c)"
  shows "phase_of (set_phase i q c) j = (if j = i then q else phase_of c j)"
    "budget (requests (set_phase i q c) ! j) = budget (requests c ! j)"
    "refreshPromise (set_phase i q c) = refreshPromise c" "length (requests (set_phase i q c)) = length (requests c)"
  using assms by (auto simp: set_phase_def phase_of_def nth_list_update)

lemma todo_set:
  assumes "i < length (requests c)"
  shows "todo (set_phase i q c) j = (if j = i then events_left (refreshPromise c) (budget (requests c ! i)) q else todo c j)"
  using phase_of_set [OF assms] by (simp add: todo_def)

lemma todo_ops [simp]:
  "todo (markSessionActive c) = todo c" "todo (markSessionEnded c) = todo c" "todo (emit x c) = todo c"
  "todo (redirectToLogin c) = todo c" "todo (request_finally i c) = todo c"
proof -
  have "refreshPromise (markSessionActive c) = refreshPromise c" "refreshPromise (markSessionEnded c) = refreshPromise c"
    "refreshPromise (emit x c) = refreshPromise c" "refreshPromise (redirectToLogin c) = refreshPromise c"
    "refreshPromise (request_finally i c) = refreshPromise c"
    by (auto simp: client_defs split: option.splits)
  then show "todo (markSessionActive c) = todo c" "todo (markSessionEnded c) = todo c" "todo (emit x c) = todo c"
    "todo (redirectToLogin c) = todo c" "todo (request_finally i c) = todo c"
    by (simp_all add: todo_def fun_eq_iff)
qed

lemma todo_refreshSession: "todo (refreshSession c) j = todo c j"
proof (cases "phase_of c j = Waiting")
  case True
  then show ?thesis by (auto simp: todo_def refreshSession_def emit_def phase_of_def)
next
  case False
  then show ?thesis
    using events_left_other [of "phase_of c j" "refreshPromise (refreshSession c)" _ "refreshPromise c"]
    by (simp add: todo_def)
qed

text \<open>A step of request \<open>i\<close>: it comes closer to its end, and the work of the others stays.\<close>

definition advances :: "nat \<Rightarrow> client \<Rightarrow> client \<Rightarrow> bool" where
  "advances i c c' \<longleftrightarrow> todo c' i < todo c i \<and> (\<forall>j. j \<noteq> i \<longrightarrow> todo c' j = todo c j)
     \<and> length (requests c') = length (requests c)"

lemma advances_throw:
  "i < length (requests c) \<Longrightarrow> \<not> is_done (phase_of c i) \<Longrightarrow> advances i c (throw_out i e c)"
  using events_left_done [of "refreshPromise c" "budget (requests c ! i)" "phase_of c i"]
  by (simp add: advances_def throw_out_def todo_set phase_of_set) (simp add: todo_def)

lemma advances_round:
  assumes "i < length (requests c)" "phase_of c i = Sending rd a"
  shows "advances i c (round_result i rd x c)"
proof (cases rule: round_result_cases [of i rd x c])
  case (thrown e b)
  then show ?thesis using advances_throw [of i "if b then markSessionEnded c else c" e] assms
    by (cases b) (simp_all add: advances_def)
next
  case (failing e)
  then show ?thesis using assms by (cases rd) (simp_all add: advances_def todo_set phase_of_set, simp_all add: todo_def)
next
  case (reading y)
  then show ?thesis using assms by (cases rd) (simp_all add: advances_def todo_set phase_of_set, simp_all add: todo_def)
next
  case waits
  have "events_left (refreshPromise (refreshSession c)) (budget (requests c ! i)) Waiting < todo c i"
    using events_left_waiting(1) [of "refreshPromise (refreshSession c)" "budget (requests c ! i)"] assms waits(1)
    by (simp add: todo_def)
  then show ?thesis using waits assms by (simp add: advances_def todo_set phase_of_set todo_refreshSession)
qed

lemma advances_start:
  assumes "i < length (requests c)" "events_left (refreshPromise c) (budget (requests c ! i)) (Due rd a) < todo c i \<or> phase_of c i = Due rd a \<and> int a \<le> rq_retries (requests c ! i)"
  shows "advances i c (start_attempt i rd a c)"
proof (cases "int a \<le> rq_retries (requests c ! i)")
  case True
  then have "a < budget (requests c ! i)" by (simp add: budget_def)
  then have "events_left (refreshPromise c) (budget (requests c ! i)) (Sending rd a)
      < events_left (refreshPromise c) (budget (requests c ! i)) (Due rd a)"
    by (cases rd) auto
  moreover have "events_left (refreshPromise c) (budget (requests c ! i)) (Due rd a) \<le> todo c i"
    using assms(2) by (auto simp: todo_def)
  ultimately have "events_left (refreshPromise c) (budget (requests c ! i)) (Sending rd a) < todo c i" by simp
  moreover have "refreshPromise (emit (Fetch i) c) = refreshPromise c" by (simp add: emit_def)
  ultimately show ?thesis using True assms(1) by (simp add: start_attempt_def advances_def todo_set phase_of_set)
next
  case False
  then show ?thesis using assms by (auto simp: start_attempt_def advances_def todo_set phase_of_set)
qed

lemma advances_own:
  assumes "i < length (requests c)"
  shows "phase_of c i = Sending rd a \<Longrightarrow> advances i c (attempt_answered i rd a x c)"
    "phase_of c i = Due rd a \<Longrightarrow> advances i c (sleep_over i rd a c)"
    "phase_of c i = Refreshed ok \<Longrightarrow> advances i c (resume i ok c)"
    "phase_of c i = Failing e \<or> phase_of c i = Reading y \<Longrightarrow> advances i c (body_read i c)"
proof -
  show "advances i c (attempt_answered i rd a x c)" if p: "phase_of c i = Sending rd a"
  proof (cases "retryable x \<and> int a < rq_retries (requests c ! i)")
    case True
    then have "Suc a < budget (requests c ! i)" unfolding budget_def by linarith
    then have "advances i c (set_phase i (Due rd (Suc a)) c)"
      using assms p by (cases rd) (simp_all add: advances_def todo_set phase_of_set, simp_all add: todo_def)
    then show ?thesis using True by (simp add: attempt_answered_def)
  next
    case False
    then show ?thesis using advances_round [OF assms p] by (auto simp: attempt_answered_def)
  qed
  show "advances i c (sleep_over i rd a c)" if "phase_of c i = Due rd a"
    using that assms advances_throw [OF assms] advances_start [OF assms] by (simp add: sleep_over_def)
  show "advances i c (resume i ok c)" if "phase_of c i = Refreshed ok"
    using that assms advances_throw [of i "redirectToLogin c"] advances_start [OF assms, of R2 0]
    by (simp add: resume_def Let_def advances_def todo_def)
  show "advances i c (body_read i c)" if "phase_of c i = Failing e \<or> phase_of c i = Reading y"
  proof -
    have "phase_of c i = Failing e \<Longrightarrow> body_read i c = throw_out i e c"
      "phase_of c i = Reading y \<Longrightarrow> body_read i c = set_phase i (Done y) c"
      by (simp_all add: body_read_def phase_of_def)
    then show ?thesis
      using that advances_throw [OF assms, of e] assms
      by (auto simp: advances_def todo_set phase_of_set todo_def)
  qed
qed

lemma refresh_answered_fields:
  "requests (refresh_answered x c) = requests c" "\<exists>ok. refreshPromise (refresh_answered x c) = Settled ok"
  by (auto simp: client_defs split: fetch_result.splits)

lemma todo_answered: "refreshPromise c = InFlight \<Longrightarrow>
    todo (refresh_answered x c) j = (if phase_of c j = Waiting then todo c j - 1 else todo c j)"
proof -
  assume p: "refreshPromise c = InFlight"
  obtain ok where ok: "refreshPromise (refresh_answered x c) = Settled ok" using refresh_answered_fields by blast
  show ?thesis
    using ok p events_left_other [of "phase_of c j" "Settled ok" _ InFlight]
    by (cases "phase_of c j = Waiting") (simp_all add: todo_def phase_of_def refresh_answered_fields)
qed

lemma todo_finally:
  assumes "refreshPromise c = Settled ok" "j < length (requests c)"
  shows "todo (refresh_finally ok c) j = (if phase_of c j = Waiting then todo c j - 1 else todo c j)"
proof -
  have "budget (release_waiter ok rq) = budget rq" for rq by (simp add: release_waiter_def budget_def)
  then show ?thesis
    using assms events_left_other [of "phase_of c j" NoRefresh _ "Settled ok"]
    by (cases "phase_of c j = Waiting") (simp_all add: todo_def phase_of_def refresh_finally_def release_waiter_def)
qed

lemma awaited_advances:
  assumes "awaited i c c'" "i < length (requests c)"
  shows "todo c' i < todo c i"
proof (cases "phase_of c i")
  case Waiting
  then have "0 < todo c i" using events_left_done [of "refreshPromise c" _ Waiting] by (auto simp: todo_def)
  then show ?thesis
    using Waiting assms by (cases "refreshPromise c") (auto simp: awaited_def todo_answered todo_finally)
qed (use assms advances_own [OF assms(2)] in \<open>auto simp: awaited_def advances_def\<close>)

lemma awaited_step:
  assumes "awaited i c c'" "i < length (requests c)"
  shows "api_step c Internal c'"
proof (cases "phase_of c i")
  case Waiting
  then show ?thesis using assms by (cases "refreshPromise c") (auto simp: awaited_def intro: answered cleared)
qed (use assms in \<open>auto simp: awaited_def in_phase_iff intro: api_step.intros\<close>)

lemma awaited_exists:
  assumes "waiting_ok c" "i < length (requests c)" "\<not> is_done (phase_of c i)"
  shows "\<exists>c'. awaited i c c'"
proof (cases "phase_of c i")
  case Waiting
  then have "refreshPromise c \<noteq> NoRefresh" using assms by (auto simp: waiting_ok_def phase_of_def)
  then show ?thesis using Waiting by (cases "refreshPromise c") (auto simp: awaited_def)
qed (use assms in \<open>auto simp: awaited_def\<close>)

lemma call_keeps:
  assumes "j < length (requests c)"
  shows "j < length (requests (fst (request_call meth path body auth retries c)))
    \<and> requests (fst (request_call meth path body auth retries c)) ! j = requests c ! j
    \<and> refreshPromise (fst (request_call meth path body auth retries c)) = refreshPromise c"
  using assms by (auto simp: request_call_def Let_def start_attempt_def set_phase_def emit_def nth_append split: option.splits)

text \<open>No step of the client adds to the work of a request.\<close>

lemma todo_step:
  assumes "api_step c l c'" "j < length (requests c)"
  shows "todo c' j \<le> todo c j \<and> j < length (requests c')"
proof -
  have own: "todo c' j \<le> todo c j \<and> j < length (requests c')" if "advances i c c'" for i
    using that assms(2) by (cases "j = i") (auto simp: advances_def)
  show ?thesis
    using assms(1)
  proof cases
    case call
    then show ?thesis using call_keeps [OF assms(2)] by (simp add: todo_def phase_of_def)
  next
    case answered_attempt
    then show ?thesis using own [OF _] advances_own(1) by (simp add: in_phase_iff) blast
  next
    case slept
    then show ?thesis using own [OF _] advances_own(2) by (simp add: in_phase_iff) blast
  next
    case resumed
    then show ?thesis using own [OF _] advances_own(3) by (simp add: in_phase_iff) blast
  next
    case refused_read
    then show ?thesis using own [OF _] advances_own(4) by (simp add: in_phase_iff) blast
  next
    case accepted_read
    then show ?thesis using own [OF _] advances_own(4) by (simp add: in_phase_iff) blast
  next
    case answered
    then show ?thesis using assms(2) refresh_answered_fields by (simp add: todo_answered)
  next
    case cleared
    then show ?thesis using assms(2) by (simp add: todo_finally) (simp add: refresh_finally_def)
  qed (use assms(2) in \<open>simp_all add: configureAuthRouting_def todo_def phase_of_def\<close>)
qed

text \<open>A run without end, given by its states and labels.\<close>

definition endless_run :: "(nat \<Rightarrow> client) \<Rightarrow> (nat \<Rightarrow> api_label) \<Rightarrow> bool" where
  "endless_run cs ls \<longleftrightarrow>
     (\<exists>t loc. cs 0 = initial_client t loc) \<and> (\<forall>n. api_step (cs n) (ls n) (cs (Suc n)))"

lemma endless_reachable:
  assumes "endless_run cs ls"
  shows "reachable_client (cs n)"
proof -
  obtain t loc where start: "cs 0 = initial_client t loc" using assms by (auto simp: endless_run_def)
  have "api_run (cs 0) (map ls [0..<n]) (cs n)"
  proof (induction n)
    case 0
    show ?case by (simp add: run_refl)
  next
    case (Suc n)
    then show ?case using assms run_step [of "cs 0" "map ls [0..<n]" "cs n" "ls n"] by (simp add: endless_run_def)
  qed
  then show ?thesis using start by (auto simp: reachable_client_def)
qed

lemma endless_todo:
  assumes "endless_run cs ls" "i < length (requests (cs n))" "n \<le> m"
  shows "todo (cs m) i \<le> todo (cs n) i \<and> i < length (requests (cs m))"
  using assms(3)
proof (induction rule: dec_induct)
  case base
  then show ?case using assms(2) by simp
next
  case (step k)
  then show ?case using todo_step [of "cs k" "ls k" "cs (Suc k)" i] assms(1) by (fastforce simp: endless_run_def)
qed

lemma fair_done:
  assumes "endless_run cs ls" "i < length (requests (cs n))"
    "\<forall>m \<ge> n. \<not> is_done (phase_of (cs m) i) \<longrightarrow> (\<exists>k \<ge> m. awaited i (cs k) (cs (Suc k)))"
  shows "\<exists>m \<ge> n. is_done (phase_of (cs m) i)"
  using assms(2,3)
proof (induction "todo (cs n) i" arbitrary: n rule: less_induct)
  case less
  show ?case
  proof (cases "is_done (phase_of (cs n) i)")
    case False
    then obtain k where k: "n \<le> k" "awaited i (cs k) (cs (Suc k))" using less.prems(2) by blast
    have at_k: "todo (cs k) i \<le> todo (cs n) i" "i < length (requests (cs k))"
      using endless_todo [OF assms(1) less.prems(1) k(1)] by simp_all
    have next_k: "i < length (requests (cs (Suc k)))"
      using endless_todo [OF assms(1) less.prems(1), of "Suc k"] k(1) by simp
    have less_k: "todo (cs (Suc k)) i < todo (cs n) i" using awaited_advances [OF k(2) at_k(2)] at_k(1) by simp
    have fair_k: "\<forall>m \<ge> Suc k. \<not> is_done (phase_of (cs m) i) \<longrightarrow> (\<exists>k \<ge> m. awaited i (cs k) (cs (Suc k)))"
      using less.prems(2) k(1) by simp
    obtain m where "m \<ge> Suc k" "is_done (phase_of (cs m) i)" using less.hyps [OF less_k next_k fair_k] by blast
    moreover have "n \<le> m" using \<open>m \<ge> Suc k\<close> k(1) by simp
    ultimately show ?thesis by blast
  qed blast
qed

text \<open>The attempts of a round, played out one by one, are a call of \<open>fetchWithRetry\<close>: they fetch as
  often, and end in its result.\<close>

lemma set_phase_same:
  assumes "in_phase c i p"
  shows "set_phase i p c = c"
proof -
  have "(requests c ! i)\<lparr>rq_phase := p\<rparr> = requests c ! i" using assms by (auto simp: in_phase_def)
  then show ?thesis by (simp add: set_phase_def)
qed

lemma round_attempts:
  assumes "in_phase c i (Sending rd 0)" "rq_retries (requests c ! i) = int n" "k \<le> deciding_attempt srv n"
  shows "api_run c (replicate (2 * k) Internal)
    (set_phase i (Sending rd k) (c\<lparr>outputs := outputs c @ replicate k (Fetch i)\<rparr>))"
  using assms(3)
proof (induction k)
  case 0
  show ?case using set_phase_same [OF assms(1)] by (simp add: run_refl)
next
  case (Suc k)
  let ?c = "set_phase i (Sending rd k) (c\<lparr>outputs := outputs c @ replicate k (Fetch i)\<rparr>)"
  let ?d = "set_phase i (Due rd (Suc k)) ?c"
  have i: "i < length (requests c)" using assms(1) by (simp add: in_phase_def)
  have k: "k < n" "retryable (srv k)"
    using Suc.prems deciding_attempt_le [of srv n] deciding_attempt_before [of k srv n] by simp_all
  have ph: "in_phase ?c i (Sending rd k)" "in_phase ?d i (Due rd (Suc k))"
    using i by (simp_all add: in_phase_def set_phase_def)
  have r: "rq_retries (requests ?c ! i) = int n" "rq_retries (requests ?d ! i) = int n"
    using i assms(2) by (simp_all add: set_phase_def)
  have 1: "api_step ?c Internal ?d" using answered_attempt [OF ph(1), of "srv k"] k r by (simp add: attempt_answered_def)
  have "sleep_over i rd (Suc k) ?d
      = set_phase i (Sending rd (Suc k)) (c\<lparr>outputs := outputs c @ replicate (Suc k) (Fetch i)\<rparr>)"
    using i k r by (simp add: sleep_over_def start_attempt_def set_phase_def emit_def replicate_append_same)
  then have "api_step ?d Internal (set_phase i (Sending rd (Suc k)) (c\<lparr>outputs := outputs c @ replicate (Suc k) (Fetch i)\<rparr>))"
    using slept [OF ph(2)] by simp
  from run_step [OF run_step [OF Suc.IH 1] this] show ?case using Suc.prems by (simp add: replicate_append_same)
qed

lemma round_is_fetchWithRetry:
  assumes "in_phase c i (Sending rd 0)" "rq_retries (requests c ! i) = int n"
  shows "\<exists>k ls. fetchWithRetry srv (int n) = (srv k, map (\<lambda>j. retry_delay j (srv j)) [0..<k])
    \<and> api_run c ls (round_result i rd (srv k)
        (set_phase i (Sending rd k) (c\<lparr>outputs := outputs c @ replicate k (Fetch i)\<rparr>)))"
proof -
  let ?k = "deciding_attempt srv n"
  let ?c = "set_phase i (Sending rd ?k) (c\<lparr>outputs := outputs c @ replicate ?k (Fetch i)\<rparr>)"
  have "i < length (requests c)" using assms(1) by (simp add: in_phase_def)
  then have ph: "in_phase ?c i (Sending rd ?k)" and r: "rq_retries (requests ?c ! i) = int n"
    using assms(2) by (simp_all add: in_phase_def set_phase_def)
  have "attempt_answered i rd ?k (srv ?k) ?c = round_result i rd (srv ?k) ?c"
    using deciding_attempt_at [of srv n] r by (auto simp: attempt_answered_def)
  then have "api_step ?c Internal (round_result i rd (srv ?k) ?c)" using answered_attempt [OF ph, of "srv ?k"] by simp
  from run_step [OF round_attempts [OF assms order_refl] this] show ?thesis
    using fetchWithRetry_spec [of srv n] by (auto simp: Let_def)
qed

text \<open>One more internal step of a run.\<close>

lemma run_snoc: "api_run c ls c' \<Longrightarrow> api_step c' Internal c'' \<Longrightarrow> api_run c (ls @ [Internal]) c''"
  by (rule run_step)

lemma run_one: "api_step c l c' \<Longrightarrow> api_run c [l] c'"
  using run_step [OF run_refl] by simp

subsection \<open>A sample run\<close>

text \<open>One anonymous \<open>GET\<close> that is answered 401: it asks for a refresh and waits.\<close>

definition ok_response :: resp where
  "ok_response = \<lparr>rstatus = 200, rbody = Some JNull, retryAfter = None\<rparr>"

definition denied :: resp where
  "denied = \<lparr>rstatus = 401, rbody = None, retryAfter = None\<rparr>"

definition sample_called :: client where
  "sample_called = fst (request_call GET ''/api/v1/orders'' None False 3 (initial_client 0 (Some ''/wallet'')))"

definition sample_waiting :: client where
  "sample_waiting = set_phase 0 Waiting (refreshSession sample_called)"

lemma fetchWithRetry_immediate: "0 \<le> n \<Longrightarrow> \<not> retryable (srv 0) \<Longrightarrow> fetchWithRetry srv n = (srv 0, [])"
  by (simp add: fetchWithRetry_def retry_loop_stop)

lemma sample_requests:
  "requests sample_called = [\<lparr>rq_method = GET, rq_path = ''/api/v1/orders'', rq_body = None, rq_auth = False,
     rq_retries = 3, rq_phase = Sending R1 0\<rparr>]"
  "sessionState sample_called = SUnknown" "refreshPromise sample_called = NoRefresh"
  "refreshBlockedUntil sample_called = 0" "clock sample_called = 0" "outputs sample_called = [Fetch 0]"
  "pendingRequests sample_called = [(''GET:/api/v1/orders:null'', 0)]"
  by (simp_all add: sample_called_def request_call_def initial_client_def emit_def Let_def start_attempt_def set_phase_def
      cacheKey_def bodyKey_def get_or_def)

lemma not_credential: "\<not> isCredentialEndpoint ''/api/v1/orders''" "\<not> isSessionProbe ''/api/v1/orders''"
  by (simp_all add: isCredentialEndpoint_def isSessionProbe_def SESSION_PROBE_PATHS_def CREDENTIAL_PATHS_def
      path_within_def starts_with_def js_first_def get_or_def)

lemma sample_called_step: "api_run (initial_client 0 (Some ''/wallet'')) [Internal] sample_called"
  unfolding sample_called_def by (rule run_one) (rule call)

lemma sample_sending: "in_phase sample_called 0 (Sending R1 0)"
  by (simp add: in_phase_def sample_requests)

lemma sample_waiting_step:
  "api_run (initial_client 0 (Some ''/wallet'')) [Internal, Internal] sample_waiting"
proof -
  from answered_attempt [OF sample_sending, of "Res denied"] have "api_step sample_called Internal sample_waiting"
    by (simp add: sample_requests attempt_answered_def round_result_def retryable_def denied_def first_response_def Let_def
        not_credential refreshSuppressed_def sample_waiting_def)
  then show ?thesis using sample_called_step run_snoc by fastforce
qed

lemma sample_waiting_reachable: "reachable_client sample_waiting"
  using sample_waiting_step unfolding reachable_client_def by blast

lemma sample_waiting_simps:
  "length (requests sample_waiting) = 1" "refreshPromise sample_waiting = InFlight"
  "phase_of sample_waiting 0 = Waiting" "outputs sample_waiting = [Fetch 0, RefreshCall]"
  "requests sample_waiting ! 0 = \<lparr>rq_method = GET, rq_path = ''/api/v1/orders'', rq_body = None, rq_auth = False,
     rq_retries = 3, rq_phase = Waiting\<rparr>"
  by (simp_all add: sample_waiting_def set_phase_def refreshSession_def emit_def sample_requests phase_of_def)

text \<open>The same \<open>GET\<close> answered 200: at the headers its entry is gone, then its body arrives.\<close>

definition sample_reading :: client where
  "sample_reading = attempt_answered 0 R1 0 (Res ok_response) sample_called"

lemma sample_reading_eq: "sample_reading = set_phase 0 (Reading (Resolved JNull)) (request_finally 0 sample_called)"
  by (simp add: sample_reading_def attempt_answered_def round_result_def first_response_def headers_arrived_def
      ok_response_def retryable_def res_ok_def json_outcome_def)

lemma sample_reading_simps:
  "requests sample_reading = [\<lparr>rq_method = GET, rq_path = ''/api/v1/orders'', rq_body = None, rq_auth = False,
     rq_retries = 3, rq_phase = Reading (Resolved JNull)\<rparr>]"
  "pendingRequests sample_reading = []" "outputs sample_reading = [Fetch 0]"
  by (simp_all add: sample_reading_eq set_phase_def request_finally_def sample_requests cacheKey_def
      bodyKey_def get_or_def)

lemma sample_reading_step: "api_step sample_called Internal sample_reading"
  unfolding sample_reading_def by (rule answered_attempt [OF sample_sending])

lemma sample_reading_reachable: "reachable_client sample_reading"
  using run_step [OF sample_called_step sample_reading_step] unfolding reachable_client_def by blast

lemma sample_read_step: "api_step sample_reading Internal (body_read 0 sample_reading)"
  by (rule accepted_read [of _ _ "Resolved JNull"]) (simp add: in_phase_def sample_reading_simps)

lemma sample_read_done: "phase_of (body_read 0 sample_reading) 0 = Done (Resolved JNull)"
  by (simp add: body_read_def phase_of_def set_phase_def sample_reading_simps)

lemma idle_step: "api_step c Internal c"
  using time_passes [of c "clock c"] by simp

text \<open>A run without end in which that request is served and nothing else happens.\<close>

definition sample_run :: "nat \<Rightarrow> client" where
  "sample_run n = (if n = 0 then initial_client 0 (Some ''/wallet'') else if n = 1 then sample_called
     else if n = 2 then sample_reading else body_read 0 sample_reading)"

lemma sample_run_endless: "endless_run sample_run (\<lambda>_. Internal)"
proof -
  have "api_step (initial_client 0 (Some ''/wallet'')) Internal sample_called" unfolding sample_called_def by (rule call)
  then have "api_step (sample_run n) Internal (sample_run (Suc n))" for n
    using sample_reading_step sample_read_step idle_step [of "body_read 0 sample_reading"]
    by (cases "n = 0"; cases "n = 1"; cases "n = 2") (simp_all add: sample_run_def)
  then show ?thesis by (auto simp: endless_run_def sample_run_def)
qed

lemma sample_run_fair:
  "\<forall>m \<ge> 1. \<not> is_done (phase_of (sample_run m) 0) \<longrightarrow> (\<exists>k \<ge> m. awaited 0 (sample_run k) (sample_run (Suc k)))"
proof (intro allI impI)
  fix m :: nat
  assume "1 \<le> m" "\<not> is_done (phase_of (sample_run m) 0)"
  then have "m \<le> 2" by (auto simp: sample_run_def sample_read_done split: if_splits)
  moreover have "awaited 0 (sample_run 2) (sample_run (Suc 2))"
    by (simp add: awaited_def sample_run_def phase_of_def sample_reading_simps)
  ultimately show "\<exists>k \<ge> m. awaited 0 (sample_run k) (sample_run (Suc k))" by blast
qed

subsection \<open>Properties\<close>

text \<open>
  C28. Single flight. In every reachable state the refresh calls made so far are the answered ones
  plus one if a call is in flight, so two are never under way together; and a request that waits
  for a refresh has one to wait for.
\<close>

theorem refresh_single_flight:
  assumes "reachable_client c"
  shows "count_list (outputs c) RefreshCall
      = length (filter is_answer (outputs c)) + (if refreshPromise c = InFlight then 1 else 0)
    \<and> (\<forall>i < length (requests c). phase_of c i = Waiting \<longrightarrow> refreshPromise c \<noteq> NoRefresh)"
  using client_inv_reachable [OF assms] by (simp add: client_inv_def flight_ok_def waiting_ok_def phase_of_def)

theorem refresh_single_flight_witness:
  "reachable_client sample_waiting \<and> count_list (outputs sample_waiting) RefreshCall = 1
    \<and> refreshPromise sample_waiting \<noteq> NoRefresh"
  using refresh_single_flight [OF sample_waiting_reachable] sample_waiting_reachable
  by (simp add: sample_waiting_simps is_answer_def)

text \<open>
  C29. Refinement. Seen through \<open>abs_gate\<close>, every step of the client is a step of the refresh gate
  with the same label: a refresh is called only while the session is not known to be dead and none
  is in flight, and only a sign-in or the answer of a call revives a dead session.
\<close>

theorem client_implements_gate:
  assumes "api_run c ls c'"
  shows "(\<exists>gs. length gs = Suc (length ls) \<and> hd gs = abs_gate c \<and> last gs = abs_gate c'
    \<and> (\<forall>j < length ls. gate_step (gs ! j) (ls ! j) (gs ! Suc j)))"
  using assms
proof (induction rule: api_run.induct)
  case (run_refl c)
  show ?case by (intro exI [of _ "[abs_gate c]"]) simp
next
  case (run_step c ls c' l c'')
  then obtain gs where gs: "length gs = Suc (length ls)" "hd gs = abs_gate c" "last gs = abs_gate c'"
    "\<forall>j < length ls. gate_step (gs ! j) (ls ! j) (gs ! Suc j)" by blast
  have "gs ! length ls = abs_gate c'" using gs(1,3) by (metis diff_Suc_1 last_conv_nth length_0_conv nat.distinct(1))
  then have "gate_step (gs ! length ls) l (abs_gate c'')" using client_refines_gate [OF run_step.hyps(2)] by simp
  then show ?case
    using gs by (intro exI [of _ "gs @ [abs_gate c'']"]) (auto simp: nth_append less_Suc_eq hd_append)
qed

theorem client_implements_gate_witness:
  "\<exists>gs. length gs = 3 \<and> hd gs = abs_gate (initial_client 0 (Some ''/wallet'')) \<and> last gs = abs_gate sample_waiting
    \<and> calls (last gs) = 1"
proof -
  obtain gs where gs: "length gs = Suc (length [Internal, Internal])"
    "hd gs = abs_gate (initial_client 0 (Some ''/wallet''))" "last gs = abs_gate sample_waiting"
    using client_implements_gate [OF sample_waiting_step] by auto
  then show ?thesis by (intro exI [of _ gs]) (simp add: abs_gate_def sample_waiting_simps)
qed

text \<open>
  C30. A dead session costs no refresh calls. From a state whose session is known to be dead and
  with no refresh in flight, however requests, answers, sign-outs and time interleave, the session
  stays dead and the refresh endpoint is not called again until somebody signs in.
\<close>

theorem dead_session_never_refreshes:
  assumes "api_run c ls c'" "sessionState c = SNone" "refreshPromise c \<noteq> InFlight" "SignIn \<notin> set ls"
  shows "sessionState c' = SNone \<and> refreshPromise c' \<noteq> InFlight
    \<and> count_list (outputs c') RefreshCall = count_list (outputs c) RefreshCall"
  using shut_run [OF assms(1)] assms(2-4) by (simp add: abs_gate_def)

theorem dead_session_never_refreshes_witness:
  "sessionState (fst (request_call GET ''/api/v1/orders'' None False 3 (markSessionEnded (initial_client 0 None)))) = SNone
    \<and> count_list (outputs (fst (request_call GET ''/api/v1/orders'' None False 3
          (markSessionEnded (initial_client 0 None))))) RefreshCall = 0"
  using dead_session_never_refreshes [OF run_one [OF call], of "markSessionEnded (initial_client 0 None)"
      GET "''/api/v1/orders''" None False 3]
  by (simp add: markSessionEnded_def initial_client_def)

text \<open>
  C31. Every request ends. Take any run of the client without end, in which a request's own events
  happen: as long as it is unfinished, the answer to its attempt (any answer), the end of its sleep,
  the answer and the end of the refresh it waits for, its resumption or the arrival of its body
  comes at some later time. Then the request is settled, whatever the other requests, sign-ins,
  sign-outs and the clock do meanwhile; the next such event is always possible, at most
  \<open>4 N + 6\<close> of them are left, where \<open>N\<close> is the number of attempts to a round (the retries and one),
  and the request is fetched at most \<open>N\<close> times before it waits for a refresh, at most \<open>2 N\<close> times
  in all, and at least once if \<open>N > 0\<close>.
\<close>

theorem request_terminates:
  assumes "endless_run cs ls" "i < length (requests (cs n))"
    "\<forall>m \<ge> n. \<not> is_done (phase_of (cs m) i) \<longrightarrow> (\<exists>k \<ge> m. awaited i (cs k) (cs (Suc k)))"
  defines "N \<equiv> nat (rq_retries (requests (cs n) ! i) + 1)"
  shows "(\<exists>m \<ge> n. is_done (phase_of (cs m) i))
    \<and> todo (cs n) i \<le> 4 * N + 6 \<and> (todo (cs n) i = 0 \<longleftrightarrow> is_done (phase_of (cs n) i))
    \<and> (\<forall>l c'. api_step (cs n) l c' \<longrightarrow> todo c' i \<le> todo (cs n) i)
    \<and> (\<forall>c'. awaited i (cs n) c' \<longrightarrow> api_step (cs n) Internal c' \<and> todo c' i < todo (cs n) i)
    \<and> (\<not> is_done (phase_of (cs n) i) \<longrightarrow> (\<exists>c'. awaited i (cs n) c'))
    \<and> count_list (outputs (cs n)) (Fetch i) \<le> 2 * N
    \<and> (phase_of (cs n) i = Waiting \<longrightarrow> count_list (outputs (cs n)) (Fetch i) \<le> N)
    \<and> (0 < N \<longrightarrow> 0 < count_list (outputs (cs n)) (Fetch i))"
proof -
  have inv: "client_inv (cs n)" by (rule client_inv_reachable [OF endless_reachable [OF assms(1)]])
  have sent: "sent_ok N (phase_of (cs n) i) (count_list (outputs (cs n)) (Fetch i))"
    using inv assms(2) by (simp add: client_inv_def fetches_ok_def phase_of_def N_def budget_def)
  have "\<exists>m \<ge> n. is_done (phase_of (cs m) i)" by (rule fair_done [OF assms(1-3)])
  moreover have "todo (cs n) i \<le> 4 * N + 6"
    using events_left_le by (simp add: todo_def N_def budget_def)
  moreover have "todo (cs n) i = 0 \<longleftrightarrow> is_done (phase_of (cs n) i)" by (simp add: todo_def events_left_done)
  moreover have "\<forall>l c'. api_step (cs n) l c' \<longrightarrow> todo c' i \<le> todo (cs n) i" using todo_step assms(2) by blast
  moreover have "\<forall>c'. awaited i (cs n) c' \<longrightarrow> api_step (cs n) Internal c' \<and> todo c' i < todo (cs n) i"
    using awaited_step awaited_advances assms(2) by blast
  moreover have "\<not> is_done (phase_of (cs n) i) \<longrightarrow> (\<exists>c'. awaited i (cs n) c')"
    using awaited_exists inv assms(2) by (simp add: client_inv_def)
  moreover have "phase_of (cs n) i = Waiting \<longrightarrow> count_list (outputs (cs n)) (Fetch i) \<le> N" using sent by auto
  ultimately show ?thesis using sent_ok_Done [OF sent, of undefined] by simp
qed

theorem request_terminates_witness:
  "endless_run sample_run (\<lambda>_. Internal) \<and> (\<exists>m \<ge> 1. is_done (phase_of (sample_run m) 0))
    \<and> todo (sample_run 1) 0 \<le> 22 \<and> count_list (outputs (sample_run 1)) (Fetch 0) \<le> 8"
proof -
  have "0 < length (requests (sample_run 1))" "rq_retries (requests (sample_run 1) ! 0) = 3"
    by (simp_all add: sample_run_def sample_requests)
  then show ?thesis
    using request_terminates [OF sample_run_endless _ sample_run_fair] sample_run_endless by simp
qed

lemma get_pending:
  "gets_ok c \<Longrightarrow> i < length (requests c) \<Longrightarrow> rq_method (requests c ! i) = GET \<Longrightarrow> is_open (phase_of c i)
    \<Longrightarrow> map_of (pendingRequests c) (cacheKey (requests c ! i)) = Some i"
  by (simp add: gets_ok_def phase_of_def)

lemma get_unique:
  assumes "gets_ok c"
  shows "\<forall>i < length (requests c). \<forall>k < length (requests c).
        rq_method (requests c ! i) = GET \<and> rq_method (requests c ! k) = GET
        \<and> is_open (phase_of c i) \<and> is_open (phase_of c k)
        \<and> cacheKey (requests c ! i) = cacheKey (requests c ! k) \<longrightarrow> i = k"
  using get_pending [OF assms] by (metis option.inject)

lemma pending_entry:
  assumes "pending_ok c" "map_of (pendingRequests c) k = Some i"
  shows "i < length (requests c) \<and> is_open (phase_of c i) \<and> cacheKey (requests c ! i) = k"
  using assms by (simp add: pending_ok_def phase_of_def)

lemma cacheKey_prefix_GET:
  "cacheKey rq = ''GET:'' @ xs \<Longrightarrow> rq_method rq = GET"
  by (cases "rq_method rq") (simp_all add: cacheKey_def)

lemma pending_absent:
  assumes "gets_ok c" "map_of (pendingRequests c) k = None"
  shows "\<forall>i < length (requests c). rq_method (requests c ! i) = GET \<and> is_open (phase_of c i)
    \<longrightarrow> cacheKey (requests c ! i) \<noteq> k"
  using get_pending [OF assms(1)] assms(2) by (metis option.distinct(1))

lemma fresh_get:
  assumes "request_call GET path body auth retries c = (c', j)"
    "map_of (pendingRequests c) (''GET:'' @ path @ '':'' @ bodyKey body) = None"
  shows "j < length (requests c') \<and> is_open (phase_of c' j)
    \<and> cacheKey (requests c' ! j) = ''GET:'' @ path @ '':'' @ bodyKey body
    \<and> j = length (requests c) \<and> length (requests c') = Suc j
    \<and> outputs c' = outputs c @ (if 0 \<le> retries then [Fetch j] else [])"
  using assms by (auto simp: request_call_def Let_def start_attempt_def set_phase_def emit_def cacheKey_def phase_of_def)

text \<open>
  C32. Concurrent \<open>GET\<close>s are shared until the headers. In a reachable state no two \<open>GET\<close> requests
  whose \<open>finally\<close> has not run (their response has not arrived, or it was refused and its body is
  being read) have the same key. A further call with the key of such a request changes nothing and
  gets that request's promise; without one, also while an earlier \<open>GET\<close> with the key is still
  reading the body of its accepted response, the call starts a request of its own and sends its
  first fetch at once (if the retries allow one at all). Either way the promise the caller gets is
  that of a request with the key it asked for whose \<open>finally\<close> has not run.
\<close>

theorem get_requests_shared:
  assumes "reachable_client c" "request_call GET path body auth retries c = (c', j)"
  defines "key \<equiv> ''GET:'' @ path @ '':'' @ bodyKey body"
  shows "(\<forall>i < length (requests c). \<forall>k < length (requests c).
        rq_method (requests c ! i) = GET \<and> rq_method (requests c ! k) = GET
        \<and> is_open (phase_of c i) \<and> is_open (phase_of c k)
        \<and> cacheKey (requests c ! i) = cacheKey (requests c ! k) \<longrightarrow> i = k)
    \<and> j < length (requests c') \<and> is_open (phase_of c' j) \<and> cacheKey (requests c' ! j) = key
    \<and> (if \<exists>i < length (requests c). rq_method (requests c ! i) = GET \<and> is_open (phase_of c i) \<and> cacheKey (requests c ! i) = key
       then c' = c
       else j = length (requests c) \<and> length (requests c') = Suc j
         \<and> outputs c' = outputs c @ (if 0 \<le> retries then [Fetch j] else []))"
proof -
  have p: "pending_ok c" and g: "gets_ok c" using client_inv_reachable [OF assms(1)] by (simp_all add: client_inv_def)
  show ?thesis
  proof (cases "map_of (pendingRequests c) key")
    case (Some i)
    then have "c' = c" "j = i" using assms(2) by (simp_all add: request_call_def Let_def cacheKey_def key_def)
    moreover have "rq_method (requests c ! i) = GET"
      using pending_entry [OF p Some] cacheKey_prefix_GET by (simp add: key_def)
    ultimately show ?thesis using get_unique [OF g] pending_entry [OF p Some] by auto
  next
    case None
    have "\<not> (\<exists>i < length (requests c). rq_method (requests c ! i) = GET \<and> is_open (phase_of c i) \<and> cacheKey (requests c ! i) = key)"
      using pending_absent [OF g None] by blast
    moreover note fresh_get [OF assms(2) None [unfolded key_def], folded key_def]
    ultimately show ?thesis using get_unique [OF g] by auto
  qed
qed

theorem get_requests_shared_witness:
  "fst (request_call GET ''/api/v1/orders'' None False 3 sample_waiting) = sample_waiting
    \<and> outputs (fst (request_call GET ''/api/v1/orders'' None False 3 sample_reading)) = [Fetch 0, Fetch 1]
    \<and> phase_of sample_reading 0 = Reading (Resolved JNull)"
proof -
  have k: "cacheKey (requests sample_waiting ! 0) = ''GET:'' @ ''/api/v1/orders'' @ '':'' @ bodyKey None"
    by (simp add: sample_waiting_simps cacheKey_def)
  have "fst (request_call GET ''/api/v1/orders'' None False 3 sample_waiting) = sample_waiting"
    using get_requests_shared [OF sample_waiting_reachable prod.collapse [symmetric], of "''/api/v1/orders''" None False 3] k
    by (simp add: sample_waiting_simps(1-3,5))
  moreover have "outputs (fst (request_call GET ''/api/v1/orders'' None False 3 sample_reading)) = [Fetch 0, Fetch 1]"
    using get_requests_shared [OF sample_reading_reachable prod.collapse [symmetric], of "''/api/v1/orders''" None False 3]
    by (simp add: sample_reading_simps phase_of_def)
  ultimately show ?thesis by (simp add: phase_of_def sample_reading_simps)
qed

text \<open>
  A credential endpoint's 401 belongs to the caller. When a sign-in, verification or password
  endpoint answers 401, the request is rejected with the server's own message and code (a fixed
  text where the body carries none), and the session state, the refresh machinery and the page
  are left as they were.
\<close>

theorem credential_denial_surfaces:
  assumes "in_phase c i (Sending R1 a)" "isCredentialEndpoint (rq_path (requests c ! i))" "\<not> rq_auth (requests c ! i)"
    "rstatus r = 401" "extractMessage (error_data r) = Some (message, code)"
    "c' = body_read i (attempt_answered i R1 a (Res r) c)"
  shows "phase_of c' i = Done (Rejected (ApiError
      (if message = [] \<or> message = ''An error occurred'' then ''Those credentials were not accepted.'' else message)
      401 (error_data r) code))
    \<and> sessionState c' = sessionState c \<and> refreshPromise c' = refreshPromise c
    \<and> refreshBlockedUntil c' = refreshBlockedUntil c \<and> outputs c' = outputs c"
proof -
  have "attempt_answered i R1 a (Res r) c = set_phase i (Failing (credential_error r)) c"
    using assms(2-4) by (simp add: attempt_answered_def retryable_def round_result_def first_response_def Let_def)
  then have "c' = throw_out i (credential_error r) (set_phase i (Failing (credential_error r)) c)"
    using assms(1,6) by (simp add: body_read_def set_phase_def in_phase_def)
  then show ?thesis
    using assms(1,5) by (auto simp: throw_out_def request_finally_def set_phase_def phase_of_def in_phase_def
        credential_error_def generic_message_def)
qed

text \<open>
  C33. \<open>fetchWithRetry\<close> stops. With \<open>n\<close> retries its answer is that of the first attempt that is
  neither rejected nor 429 nor a server error, or else of attempt \<open>n\<close>: it makes at most \<open>n + 1\<close>
  calls, sleeps once between two of them, the \<open>Retry-After\<close> time after a 429 that names one and
  otherwise between one and thirty seconds.
\<close>

theorem fetchWithRetry_correct:
  assumes "0 \<le> retries"
  shows "\<exists>k. int k \<le> retries \<and> fetchWithRetry srv retries = (srv k, map (\<lambda>j. retry_delay j (srv j)) [0..<k])
    \<and> (\<forall>j < k. retryable (srv j)) \<and> (int k < retries \<longrightarrow> \<not> retryable (srv k))
    \<and> (\<forall>j. \<exists>ms. backoff_ms j = Fin (of_int ms) \<and> 1000 \<le> ms \<and> ms \<le> 30000)"
proof -
  obtain n where n: "retries = int n" using assms by (rule nonneg_int_cases)
  have "(1 :: int) \<le> 2 ^ j" for j by simp
  then have "\<exists>ms. backoff_ms j = Fin (of_int ms) \<and> 1000 \<le> ms \<and> ms \<le> 30000" for j
    by (intro exI [of _ "min (1000 * 2 ^ j) 30000"]) (auto simp: backoff_ms_eq min_def)
  then show ?thesis
    unfolding n using deciding_attempt_le [of srv n] deciding_attempt_before [of _ srv n] deciding_attempt_at [of srv n]
    by (intro exI [of _ "deciding_attempt srv n"]) (simp add: fetchWithRetry_spec Let_def)
qed

theorem fetchWithRetry_correct_witness:
  "fetchWithRetry (\<lambda>a. if a = 0 then Threw NonError else Res denied) 2 = (Res denied, [Fin 1000])"
proof -
  let ?srv = "\<lambda>a. if a = 0 then Threw NonError else Res denied"
  obtain k where k: "int k \<le> 2" "fetchWithRetry ?srv 2 = (?srv k, map (\<lambda>j. retry_delay j (?srv j)) [0..<k])"
    "\<forall>j < k. retryable (?srv j)" "int k < 2 \<longrightarrow> \<not> retryable (?srv k)"
    using fetchWithRetry_correct [of 2 ?srv] by auto
  have r: "retryable (Threw NonError)" "\<not> retryable (Res denied)" by (simp_all add: retryable_def denied_def)
  have "k \<noteq> 0" using k(4) r by (cases k) auto
  moreover have "k \<noteq> 2" using k(3) [rule_format, of 1] r by auto
  ultimately have "k = 1" using k(1) by simp
  then show ?thesis using k(2) by (simp add: retry_delay_def backoff_ms_eq)
qed

text \<open>
  A late answer overrides what happened meanwhile. There are runs in which a user signs in
  while a refresh is in flight and its refusal then ends the new session, and in which a user signs
  out and the refresh then marks the session active again.
\<close>

theorem late_refresh_overrides:
  "(\<exists>c. api_run (initial_client 0 (Some ''/wallet'')) [Internal, Internal, SignIn, Internal] c \<and> sessionState c = SNone)
    \<and> (\<exists>c. api_run (initial_client 0 (Some ''/wallet'')) [Internal, Internal, SignOut, Internal] c \<and> sessionState c = SActive)"
proof
  note r = sample_waiting_step
  have i: "refreshPromise (markSessionActive sample_waiting) = InFlight"
    "refreshPromise (markSessionEnded sample_waiting) = InFlight"
    by (simp_all add: markSessionActive_def markSessionEnded_def sample_waiting_simps)
  show "\<exists>c. api_run (initial_client 0 (Some ''/wallet'')) [Internal, Internal, SignIn, Internal] c \<and> sessionState c = SNone"
    using run_snoc [OF run_step [OF r signed_in] answered [OF i(1), of "Res denied"]]
    by (intro exI [of _ "refresh_answered (Res denied) (markSessionActive sample_waiting)"])
      (simp add: client_defs denied_def res_ok_def)
  show "\<exists>c. api_run (initial_client 0 (Some ''/wallet'')) [Internal, Internal, SignOut, Internal] c \<and> sessionState c = SActive"
    using run_snoc [OF run_step [OF r signed_out] answered [OF i(2), of "Res ok_response"]]
    by (intro exI [of _ "refresh_answered (Res ok_response) (markSessionEnded sample_waiting)"])
      (simp add: client_defs ok_response_def res_ok_def)
qed

end
