(* ===== verification/Session_Proxy.thy ===== *)
theory Session_Proxy
  imports Api_Client
begin

text \<open>
  Session validation on the server and the two Next.js proxies built on it:
  \<^verbatim>\<open>packages/api-client/src/session.ts\<close>, \<^verbatim>\<open>packages/api-client/src/config.ts\<close>,
  \<^verbatim>\<open>apps/web/proxy.ts\<close> and \<^verbatim>\<open>apps/admin/proxy.ts\<close>.

  The injected \<open>fetchImpl\<close> is two functions of the model, the answer of \<open>/auth/me\<close> to a cookie
  header and the answer of \<open>/auth/refresh\<close> to its headers. A response is its kind (the page, or a
  redirect with a path and a query) and its headers, a list of lower-case names and values in which
  a name may repeat. The locale \<open>session_gate\<close> is the contract the proxies rely on; it is
  interpreted on the modelled validator for every API.
\<close>

subsection \<open>Configuration\<close>

definition strip_slashes :: "string \<Rightarrow> string" where
  "strip_slashes s = rev (dropWhile (\<lambda>c. c = CHR ''/'') (rev s))"

definition strip_api_prefix :: "string \<Rightarrow> string" where
  "strip_api_prefix s = (if suffix ''/api/v1'' s then take (length s - 7) s else s)"

definition normalizeBase :: "string option \<Rightarrow> string \<Rightarrow> string" where
  "normalizeBase raw fallback =
     (let v = js_trim (get_or raw []); value = (if v = [] then fallback else v)
      in strip_api_prefix (strip_slashes value))"

subsection \<open>Headers\<close>

type_synonym headers = "(string \<times> string) list"

definition header_append :: "string \<Rightarrow> string \<Rightarrow> headers \<Rightarrow> headers" where
  "header_append n v hs = hs @ [(n, v)]"

fun header_set :: "string \<Rightarrow> string \<Rightarrow> headers \<Rightarrow> headers" where
  "header_set n v [] = [(n, v)]"
| "header_set n v ((k, w) # hs) =
     (if k = n then (n, v) # filter (\<lambda>(k, w). k \<noteq> n) hs else (k, w) # header_set n v hs)"

definition ACCESS_COOKIE :: string where "ACCESS_COOKIE = ''access_token''"
definition REFRESH_COOKIE :: string where "REFRESH_COOKIE = ''refresh_token''"

definition refreshRequestHeaders :: "string \<Rightarrow> string option \<Rightarrow> headers" where
  "refreshRequestHeaders refreshToken userAgent =
     (''cookie'', REFRESH_COOKIE @ ''='' @ refreshToken) #
     (case userAgent of None \<Rightarrow> [] | Some ua \<Rightarrow> if ua = [] then [] else [(''user-agent'', ua)])"

text \<open>An answer of the API with its \<open>Set-Cookie\<close> headers, one entry each (\<open>getSetCookie\<close>).\<close>

record api_resp = resp +
  set_cookies :: "string list"

definition readSetCookies :: "api_resp \<Rightarrow> string list" where
  "readSetCookies r = set_cookies r"

definition applySetCookies :: "string list \<Rightarrow> headers \<Rightarrow> headers" where
  "applySetCookies cookies hs = foldl (\<lambda>hs cookie. header_append ''set-cookie'' cookie hs) hs cookies"

definition applySecurityHeaders :: "bool \<Rightarrow> headers \<Rightarrow> headers" where
  "applySecurityHeaders production hs =
     (let h1 = header_set ''x-content-type-options'' ''nosniff'' hs;
          h2 = header_set ''x-frame-options'' ''DENY'' h1;
          h3 = header_set ''x-xss-protection'' ''1; mode=block'' h2;
          h4 = header_set ''referrer-policy'' ''strict-origin-when-cross-origin'' h3
      in if production
         then header_set ''strict-transport-security'' ''max-age=31536000; includeSubDomains'' h4 else h4)"

subsection \<open>Identities\<close>

definition is_hex_char :: "char \<Rightarrow> bool" where
  "is_hex_char c = (digit_in_radix 16 c \<noteq> None)"

text \<open>\<open>/^[0-9a-f]{8}-[0-9a-f]{4}-[0-9a-f]{4}-[0-9a-f]{4}-[0-9a-f]{12}$/i\<close>\<close>

definition is_uuid :: "string \<Rightarrow> bool" where
  "is_uuid s =
     (let ps = js_split (CHR ''-'') s
      in map length ps = [8, 4, 4, 4, 12] \<and> list_all (list_all is_hex_char) ps)"

text \<open>\<open>/^[^\s@]+@[^\s@]+\.[^\s@]+$/\<close>: one \<open>@\<close>, no white space, and a point inside the domain.\<close>

definition is_email :: "string \<Rightarrow> bool" where
  "is_email s =
     (case js_split (CHR ''@'') s of
        [local, domain] \<Rightarrow>
          local \<noteq> [] \<and> list_all (\<lambda>c. \<not> is_js_space c) local \<and> list_all (\<lambda>c. \<not> is_js_space c) domain
          \<and> List.member (butlast (tl domain)) (CHR ''.'')
      | _ \<Rightarrow> False)"

definition isPlausibleIdentity :: "jsval \<Rightarrow> bool" where
  "isPlausibleIdentity user =
     (js_truthy user \<and> is_uuid (js_str (field user ''id'')) \<and> is_email (js_str (field user ''email''))
      \<and> (case field user ''is_admin'' of JBool _ \<Rightarrow> True | _ \<Rightarrow> False))"

subsection \<open>Validation\<close>

datatype api_answer = Answer api_resp | Unreachable

record ProxySession =
  user :: "jsval option"
  setCookies :: "string list"

text \<open>\<open>fetchMe\<close>: \<open>None\<close> where it throws (no answer, a body that is not JSON, a body without
  properties), otherwise the identity or \<open>null\<close>.\<close>

definition fetchMe :: "(string \<Rightarrow> api_answer) \<Rightarrow> string \<Rightarrow> jsval option" where
  "fetchMe me cookieHeader =
     (case me cookieHeader of
        Unreachable \<Rightarrow> None
      | Answer r \<Rightarrow>
          if \<not> (200 \<le> rstatus r \<and> rstatus r \<le> 299) then Some JNull
          else (case rbody r of
                  None \<Rightarrow> None
                | Some json \<Rightarrow>
                    map_option (\<lambda>d. if d = JUndef then JNull else d) (js_get json ''data'')))"

definition no_session :: "string list \<Rightarrow> ProxySession" where
  "no_session cookies = \<lparr>user = None, setCookies = cookies\<rparr>"

definition newAccess :: "string list \<Rightarrow> string option" where
  "newAccess cookies =
     List.find (\<lambda>cookie. starts_with cookie (ACCESS_COOKIE @ ''=''))
       (map (\<lambda>cookie. js_trim (hd (js_split (CHR '';'') cookie))) cookies)"

text \<open>A token that is absent or empty is not used.\<close>

definition token :: "string option \<Rightarrow> string option" where
  "token t = (case t of Some [] \<Rightarrow> None | _ \<Rightarrow> t)"

definition rotate :: "(string \<Rightarrow> api_answer) \<Rightarrow> (headers \<Rightarrow> api_answer) \<Rightarrow> string \<Rightarrow> string option \<Rightarrow> ProxySession" where
  "rotate me refresh refreshToken userAgent =
     (case refresh (refreshRequestHeaders refreshToken userAgent) of
        Unreachable \<Rightarrow> no_session []
      | Answer r \<Rightarrow>
          let cookies = readSetCookies r in
          if \<not> (200 \<le> rstatus r \<and> rstatus r \<le> 299) then no_session cookies
          else (case newAccess cookies of
                  None \<Rightarrow> no_session cookies
                | Some access \<Rightarrow>
                    (case fetchMe me access of
                       None \<Rightarrow> no_session cookies
                     | Some u \<Rightarrow>
                         \<lparr>user = (if isPlausibleIdentity u then Some u else None), setCookies = cookies\<rparr>)))"

definition validateSessionCookies ::
  "(string \<Rightarrow> api_answer) \<Rightarrow> (headers \<Rightarrow> api_answer) \<Rightarrow> string option \<Rightarrow> string option \<Rightarrow> string option \<Rightarrow> ProxySession" where
  "validateSessionCookies me refresh accessToken refreshToken userAgent =
     (let fallback = (case token refreshToken of
                        None \<Rightarrow> no_session []
                      | Some t \<Rightarrow> rotate me refresh t userAgent)
      in case token accessToken of
           None \<Rightarrow> fallback
         | Some t \<Rightarrow>
             (case fetchMe me (ACCESS_COOKIE @ ''='' @ t) of
                None \<Rightarrow> fallback
              | Some u \<Rightarrow>
                  if isPlausibleIdentity u then \<lparr>user = Some u, setCookies = []\<rparr>
                  else if js_truthy u then no_session []
                  else fallback))"

subsection \<open>The proxies\<close>

record proxy_request =
  pathname :: string
  next_param :: "string option"
  access_cookie :: "string option"
  refresh_cookie :: "string option"
  user_agent :: "string option"

datatype reply_kind = Page | RedirectTo string "(string \<times> string) list"

record reply =
  kind :: reply_kind
  reply_headers :: headers

definition validateSession :: "(string \<Rightarrow> api_answer) \<Rightarrow> (headers \<Rightarrow> api_answer) \<Rightarrow> proxy_request \<Rightarrow> ProxySession" where
  "validateSession me refresh req =
     validateSessionCookies me refresh (access_cookie req) (refresh_cookie req) (user_agent req)"

definition nextResponse :: "bool \<Rightarrow> string list \<Rightarrow> reply" where
  "nextResponse production cookies =
     \<lparr>kind = Page, reply_headers = applySecurityHeaders production (applySetCookies cookies [])\<rparr>"

definition redirect_with :: "string \<Rightarrow> (string \<times> string) list \<Rightarrow> string list \<Rightarrow> reply" where
  "redirect_with path query cookies =
     \<lparr>kind = RedirectTo path query, reply_headers = applySetCookies cookies []\<rparr>"

definition PROTECTED_PATHS :: "string list" where
  "PROTECTED_PATHS =
     [''/portfolio'', ''/orders'', ''/positions'', ''/transactions'', ''/wallet'', ''/settings'',
      ''/markets/mine'', ''/markets/new'', ''/notifications'']"

definition AUTH_PATHS :: "string list" where
  "AUTH_PATHS = [''/login'', ''/signup'', ''/forgot-password'', ''/reset-password'']"

definition isProtected :: "string \<Rightarrow> bool" where
  "isProtected path = list_ex (\<lambda>p. path_within p path) PROTECTED_PATHS"

text \<open>\<open>next.startsWith("/") && !next.startsWith("//")\<close>\<close>

definition accepts_next :: "string \<Rightarrow> bool" where
  "accepts_next s \<longleftrightarrow> starts_with s ''/'' \<and> \<not> starts_with s ''//''"

definition web_target :: "proxy_request \<Rightarrow> string" where
  "web_target req =
     (let rawNext = get_or (next_param req) ''/portfolio''
      in if accepts_next rawNext then rawNext else ''/portfolio'')"

text \<open>The storefront's proxy; the three branches after the sign-in pages all return
  \<open>nextResponse()\<close>.\<close>

definition web_proxy :: "(proxy_request \<Rightarrow> ProxySession) \<Rightarrow> bool \<Rightarrow> proxy_request \<Rightarrow> reply" where
  "web_proxy validate production req =
     (if isProtected (pathname req) then
        (let s = validate req in
         case user s of
           None \<Rightarrow> redirect_with ''/login'' [(''next'', pathname req)] (setCookies s)
         | Some u \<Rightarrow>
             if \<not> isPlausibleIdentity u then redirect_with ''/login'' [] (setCookies s)
             else nextResponse production (setCookies s))
      else if list_ex (\<lambda>p. path_within p (pathname req)) AUTH_PATHS then
        (let s = validate req in
         case user s of
           Some u \<Rightarrow> redirect_with (web_target req) [] (setCookies s)
         | None \<Rightarrow> nextResponse production (setCookies s))
      else nextResponse production [])"

definition toLogin :: "bool \<Rightarrow> proxy_request \<Rightarrow> string list \<Rightarrow> string option \<Rightarrow> reply" where
  "toLogin production req cookies reason =
     (let query = (case reason of
                     Some r \<Rightarrow> [(''reason'', r)]
                   | None \<Rightarrow> if accepts_next (pathname req) then [(''next'', pathname req)] else []);
          r = redirect_with ''/login'' query cookies
      in r\<lparr>reply_headers := applySecurityHeaders production (reply_headers r)\<rparr>)"

definition admin_target :: "proxy_request \<Rightarrow> string" where
  "admin_target req =
     (case next_param req of None \<Rightarrow> ''/'' | Some raw \<Rightarrow> if accepts_next raw then raw else ''/'')"

definition is_admin_user :: "jsval option \<Rightarrow> bool" where
  "is_admin_user u = (case u of None \<Rightarrow> False | Some v \<Rightarrow> js_truthy (field v ''is_admin''))"

definition admin_proxy :: "(proxy_request \<Rightarrow> ProxySession) \<Rightarrow> bool \<Rightarrow> proxy_request \<Rightarrow> reply" where
  "admin_proxy validate production req =
     (let s = validate req in
      if path_within ''/login'' (pathname req) then
        if is_admin_user (user s)
        then (let r = redirect_with (admin_target req) [] (setCookies s)
              in r\<lparr>reply_headers := applySecurityHeaders production (reply_headers r)\<rparr>)
        else nextResponse production (setCookies s)
      else if user s = None then toLogin production req (setCookies s) None
      else if \<not> is_admin_user (user s) then toLogin production req (setCookies s) (Some ''not-admin'')
      else nextResponse production (setCookies s))"

subsection \<open>Headers survive\<close>

definition cookies_in :: "headers \<Rightarrow> string list" where
  "cookies_in hs = map snd (filter (\<lambda>(k, v). k = ''set-cookie'') hs)"

lemma applySetCookies_append: "applySetCookies cookies hs = hs @ map (Pair ''set-cookie'') cookies"
  by (induction cookies arbitrary: hs) (simp_all add: applySetCookies_def header_append_def)

lemma cookies_in_applied [simp]: "cookies_in (applySetCookies cookies []) = cookies"
  by (induction cookies) (simp_all add: cookies_in_def applySetCookies_append)

lemma filter_header_set: "m \<noteq> n \<Longrightarrow> filter (\<lambda>(k, v). k = m) (header_set n v hs) = filter (\<lambda>(k, v). k = m) hs"
proof (induction n v hs rule: header_set.induct)
  case (2 n v k w hs)
  have "filter (\<lambda>(k, v). k = m) (filter (\<lambda>(k, w). k \<noteq> n) hs) = filter (\<lambda>(k, v). k = m) hs"
    using 2(2) by (induction hs) auto
  then show ?case using 2 by (auto simp del: filter_filter)
qed simp

lemma cookies_in_secured [simp]: "cookies_in (applySecurityHeaders production hs) = cookies_in hs"
  by (simp add: cookies_in_def applySecurityHeaders_def Let_def filter_header_set)

lemma cookies_in_replies [simp]:
  "cookies_in (reply_headers (nextResponse production cookies)) = cookies"
  "cookies_in (reply_headers (redirect_with path query cookies)) = cookies"
  "cookies_in (reply_headers (toLogin production req cookies reason)) = cookies"
  by (simp_all add: nextResponse_def redirect_with_def toLogin_def Let_def)

lemma kind_replies [simp]:
  "kind (nextResponse production cookies) = Page"
  "kind (redirect_with path query cookies) = RedirectTo path query"
  "kind (toLogin production req cookies reason) \<noteq> Page"
  by (simp_all add: nextResponse_def redirect_with_def toLogin_def Let_def)

subsection \<open>The contract of a validator\<close>

locale session_gate =
  fixes validate :: "proxy_request \<Rightarrow> ProxySession"
  assumes plausible: "user (validate req) = Some u \<Longrightarrow> isPlausibleIdentity u"
begin

lemma protected_page:
  assumes "isProtected (pathname req)" "kind (web_proxy validate production req) = Page"
  shows "\<exists>u. user (validate req) = Some u \<and> isPlausibleIdentity u"
  using assms by (auto simp: web_proxy_def Let_def split: option.splits if_splits)

lemma protected_redirect:
  assumes "isProtected (pathname req)" "user (validate req) = None"
  shows "kind (web_proxy validate production req) = RedirectTo ''/login'' [(''next'', pathname req)]"
  using assms by (simp add: web_proxy_def)

lemma admin_true: "user (validate req) = Some u \<Longrightarrow> is_admin_user (Some u) \<longleftrightarrow> field u ''is_admin'' = JBool True"
  using plausible [of req u] by (auto simp: isPlausibleIdentity_def is_admin_user_def split: jsval.splits)

lemma admin_page:
  assumes "\<not> path_within ''/login'' (pathname req)" "kind (admin_proxy validate production req) = Page"
  shows "\<exists>u. user (validate req) = Some u \<and> isPlausibleIdentity u \<and> field u ''is_admin'' = JBool True"
  using assms plausible admin_true
  by (cases "user (validate req)") (auto simp: admin_proxy_def Let_def split: if_splits)

lemma admin_replays: "cookies_in (reply_headers (admin_proxy validate production req)) = setCookies (validate req)"
  by (simp add: admin_proxy_def Let_def)

lemma web_replays:
  assumes "isProtected (pathname req) \<or> list_ex (\<lambda>p. path_within p (pathname req)) AUTH_PATHS"
  shows "cookies_in (reply_headers (web_proxy validate production req)) = setCookies (validate req)"
  using assms by (auto simp: web_proxy_def Let_def split: option.splits)

end

lemma rotate_plausible: "user (rotate me refresh t ua) = Some u \<Longrightarrow> isPlausibleIdentity u"
  by (auto simp: rotate_def Let_def no_session_def split: api_answer.splits if_splits option.splits)

lemma validate_plausible:
  "user (validateSessionCookies me refresh a r ua) = Some u \<Longrightarrow> isPlausibleIdentity u"
  using rotate_plausible
  by (auto simp: validateSessionCookies_def Let_def no_session_def split: option.splits if_splits)

interpretation sg: session_gate "validateSession me refresh" for me refresh
  by unfold_locales (simp add: validateSession_def validate_plausible)

subsection \<open>Where a redirect goes\<close>

text \<open>The URL parser on a reference that begins with a slash, against an \<open>http\<close> base: tabs and
  line ends are removed, a backslash counts as a slash, and two slashes start a host.\<close>

definition url_clean :: "string \<Rightarrow> string" where
  "url_clean s = filter (\<lambda>c. of_char c \<notin> {9, 10, 13 :: int}) s"

definition url_slash :: "char \<Rightarrow> bool" where
  "url_slash c \<longleftrightarrow> c = CHR ''/'' \<or> c = CHR 0x5C"

definition leaves_origin :: "string \<Rightarrow> bool" where
  "leaves_origin s = (case url_clean s of a # b # _ \<Rightarrow> url_slash a \<and> url_slash b | _ \<Rightarrow> False)"

definition plain_path :: "string \<Rightarrow> bool" where
  "plain_path s = list_all (\<lambda>c. of_char c \<notin> {9, 10, 13 :: int} \<and> c \<noteq> CHR 0x5C) s"

lemma plain_path_stays: "plain_path s \<Longrightarrow> accepts_next s \<Longrightarrow> \<not> leaves_origin s"
proof -
  assume p: "plain_path s" and a: "accepts_next s"
  have "url_clean s = s" using p by (simp add: url_clean_def plain_path_def list_all_iff)
  then show ?thesis
    using p a by (auto simp: leaves_origin_def accepts_next_def starts_with_def url_slash_def plain_path_def split: list.splits)
qed

subsection \<open>Properties\<close>

text \<open>A user id and an API for the examples: \<open>/auth/me\<close> knows one cookie.\<close>

definition sample_user :: jsval where
  "sample_user = JObj [(''id'', JStr ''12345678-1234-1234-1234-123456789abc''), (''email'', JStr ''a@b.co''),
     (''is_admin'', JBool False)]"

definition sample_me :: "string \<Rightarrow> api_answer" where
  "sample_me cookie =
     (if cookie = ''access_token=new''
      then Answer \<lparr>rstatus = 200, rbody = Some (JObj [(''data'', sample_user)]), retryAfter = None, set_cookies = []\<rparr>
      else Answer \<lparr>rstatus = 401, rbody = None, retryAfter = None, set_cookies = []\<rparr>)"

definition sample_refresh :: "headers \<Rightarrow> api_answer" where
  "sample_refresh hs =
     Answer \<lparr>rstatus = 200, rbody = None, retryAfter = None,
       set_cookies = [''access_token=new; Path=/'', ''refresh_token=r2; Path=/'']\<rparr>"

lemma sample_user_plausible: "isPlausibleIdentity sample_user"
  by (simp add: isPlausibleIdentity_def sample_user_def field_def get_or_def is_uuid_def is_email_def
      is_hex_char_def digit_in_radix_def Let_def is_js_space_def)

lemma sample_user_defined: "sample_user \<noteq> JUndef"
  by (simp add: sample_user_def)

lemma sample_rotation:
  "validateSessionCookies sample_me sample_refresh (Some ''old'') (Some ''r1'') None
    = \<lparr>user = Some sample_user, setCookies = [''access_token=new; Path=/'', ''refresh_token=r2; Path=/'']\<rparr>"
  using sample_user_plausible
  by (simp add: validateSessionCookies_def rotate_def fetchMe_def sample_me_def sample_refresh_def token_def
      readSetCookies_def newAccess_def ACCESS_COOKIE_def starts_with_def js_trim_def is_js_space_def get_or_def
      isPlausibleIdentity_def [of JNull] sample_user_defined)

text \<open>
  C34. A validated identity is well formed and comes from the API. If validation returns a user, its
  id is a UUID, its email has the shape of one and \<open>is_admin\<close> is a boolean; it is the \<open>data\<close> of a
  2xx answer of \<open>/auth/me\<close> to the request's own access token, or to the access cookie of a 2xx
  answer of the refresh endpoint, and in that case every cookie of that answer is handed on.
\<close>

theorem validated_identity_wellformed:
  assumes "validateSessionCookies me refresh access refr ua = s" "user s = Some u"
  shows "is_uuid (js_str (field u ''id'')) \<and> is_email (js_str (field u ''email''))
    \<and> (\<exists>b. field u ''is_admin'' = JBool b)
    \<and> (\<exists>cookie r json. me cookie = Answer r \<and> 200 \<le> rstatus r \<and> rstatus r \<le> 299 \<and> rbody r = Some json
        \<and> js_get json ''data'' = Some u
        \<and> ((\<exists>t. access = Some t \<and> cookie = ''access_token='' @ t \<and> setCookies s = [])
           \<or> (\<exists>t r'. refr = Some t \<and> refresh (refreshRequestHeaders t ua) = Answer r'
                \<and> 200 \<le> rstatus r' \<and> rstatus r' \<le> 299
                \<and> newAccess (set_cookies r') = Some cookie \<and> setCookies s = set_cookies r')))"
proof -
  have p: "isPlausibleIdentity u" using validate_plausible assms by blast
  have "u \<noteq> JNull" using p by (auto simp: isPlausibleIdentity_def)
  moreover have "fetchMe me cookie = Some u \<Longrightarrow> u \<noteq> JNull \<Longrightarrow>
      \<exists>r json. me cookie = Answer r \<and> 200 \<le> rstatus r \<and> rstatus r \<le> 299 \<and> rbody r = Some json
        \<and> js_get json ''data'' = Some u" for cookie
    by (auto simp: fetchMe_def split: api_answer.splits if_splits option.splits)
  ultimately have me: "fetchMe me cookie = Some u \<Longrightarrow>
      \<exists>r json. me cookie = Answer r \<and> 200 \<le> rstatus r \<and> rstatus r \<le> 299 \<and> rbody r = Some json
        \<and> js_get json ''data'' = Some u" for cookie by blast
  consider t where "access = Some t" "fetchMe me (''access_token='' @ t) = Some u" "setCookies s = []"
    | t where "refr = Some t" "rotate me refresh t ua = s"
    using assms
    by (auto simp: validateSessionCookies_def Let_def token_def no_session_def ACCESS_COOKIE_def
        split: option.splits if_splits list.splits)
  then have "\<exists>cookie. fetchMe me cookie = Some u
      \<and> ((\<exists>t. access = Some t \<and> cookie = ''access_token='' @ t \<and> setCookies s = [])
         \<or> (\<exists>t r'. refr = Some t \<and> refresh (refreshRequestHeaders t ua) = Answer r' \<and> 200 \<le> rstatus r'
              \<and> rstatus r' \<le> 299 \<and> newAccess (set_cookies r') = Some cookie \<and> setCookies s = set_cookies r'))"
  proof cases
    case (2 t)
    then show ?thesis
      using assms(2)
      by (auto simp: rotate_def Let_def no_session_def readSetCookies_def split: api_answer.splits if_splits option.splits)
  qed blast
  then show ?thesis using me p by (fastforce simp: isPlausibleIdentity_def split: jsval.splits)
qed

theorem validated_identity_wellformed_witness:
  "is_uuid (js_str (field sample_user ''id''))
    \<and> setCookies (validateSessionCookies sample_me sample_refresh (Some ''old'') (Some ''r1'') None) \<noteq> []"
  using validated_identity_wellformed [OF sample_rotation, of sample_user] by (simp add: sample_rotation)

text \<open>
  C35. The proxies let nobody in. A protected storefront page is served only to a validated user and
  a visitor without one is sent to the login page with the way back; every admin page but the login
  page is served only to a validated user whose \<open>is_admin\<close> is true; and wherever a proxy validated
  the session, its reply carries exactly the cookies of the validation, in order.
\<close>

theorem proxies_gate_pages:
  fixes me :: "string \<Rightarrow> api_answer" and refresh :: "headers \<Rightarrow> api_answer"
  defines "validate \<equiv> validateSession me refresh"
  assumes "isProtected (pathname req)" "\<not> path_within ''/login'' (pathname areq)"
  shows "(kind (web_proxy validate production req) = Page \<longleftrightarrow> user (validate req) \<noteq> None)
    \<and> (user (validate req) = None \<longrightarrow>
        kind (web_proxy validate production req) = RedirectTo ''/login'' [(''next'', pathname req)])
    \<and> (kind (admin_proxy validate production areq) = Page \<longleftrightarrow>
        (\<exists>u. user (validate areq) = Some u \<and> isPlausibleIdentity u \<and> field u ''is_admin'' = JBool True))
    \<and> cookies_in (reply_headers (web_proxy validate production req)) = setCookies (validate req)
    \<and> cookies_in (reply_headers (admin_proxy validate production areq)) = setCookies (validate areq)"
proof (intro conjI)
  show "kind (web_proxy validate production req) = Page \<longleftrightarrow> user (validate req) \<noteq> None"
    using sg.protected_page [OF assms(2)] sg.plausible assms(2) unfolding validate_def
    by (auto simp: web_proxy_def Let_def split: option.splits)
  show "user (validate req) = None \<longrightarrow> kind (web_proxy validate production req) = RedirectTo ''/login'' [(''next'', pathname req)]"
    using sg.protected_redirect [OF assms(2)] unfolding validate_def by blast
  show "kind (admin_proxy validate production areq) = Page \<longleftrightarrow>
      (\<exists>u. user (validate areq) = Some u \<and> isPlausibleIdentity u \<and> field u ''is_admin'' = JBool True)"
    using sg.admin_page [OF assms(3)] assms(3) unfolding validate_def
    by (auto simp: admin_proxy_def Let_def is_admin_user_def)
  show "cookies_in (reply_headers (web_proxy validate production req)) = setCookies (validate req)"
    using sg.web_replays assms(2) unfolding validate_def by blast
  show "cookies_in (reply_headers (admin_proxy validate production areq)) = setCookies (validate areq)"
    unfolding validate_def by (rule sg.admin_replays)
qed

definition sample_page :: "string \<Rightarrow> proxy_request" where
  "sample_page path = \<lparr>pathname = path, next_param = None, access_cookie = Some ''old'', refresh_cookie = Some ''r1'',
     user_agent = None\<rparr>"

theorem proxies_gate_pages_witness:
  "kind (web_proxy (validateSession sample_me sample_refresh) True (sample_page ''/wallet/deposit'')) = Page
    \<and> kind (admin_proxy (validateSession sample_me sample_refresh) True (sample_page ''/users'')) \<noteq> Page"
proof -
  have v: "validateSession sample_me sample_refresh (sample_page p)
      = \<lparr>user = Some sample_user, setCookies = [''access_token=new; Path=/'', ''refresh_token=r2; Path=/'']\<rparr>" for p
    by (simp add: validateSession_def sample_page_def sample_rotation)
  have "isProtected (pathname (sample_page ''/wallet/deposit''))" "\<not> path_within ''/login'' (pathname (sample_page ''/users''))"
    by (simp_all add: sample_page_def isProtected_def PROTECTED_PATHS_def path_within_def starts_with_def)
  moreover have "field sample_user ''is_admin'' \<noteq> JBool True" by (simp add: sample_user_def field_def get_or_def)
  ultimately show ?thesis
    using proxies_gate_pages [of "sample_page ''/wallet/deposit''" "sample_page ''/users''" sample_me sample_refresh True]
    by (simp add: v)
qed

text \<open>
  C36. The way back after a sign-in. A target the proxies accept stays on the origin when it holds
  no backslash, tab or line end; but the test on the first two characters also accepts a slash
  followed by a backslash, which the URL parser reads as the start of another host.
\<close>

theorem login_target_open_redirect:
  shows "(plain_path (web_target req) \<longrightarrow> \<not> leaves_origin (web_target req))
    \<and> (plain_path (admin_target req) \<longrightarrow> \<not> leaves_origin (admin_target req))
    \<and> leaves_origin (web_target (req\<lparr>next_param := Some (''/'' @ [CHR 0x5C] @ ''evil.example'')\<rparr>))
    \<and> leaves_origin (admin_target (req\<lparr>next_param := Some (''/'' @ [CHR 0x5C] @ ''evil.example'')\<rparr>))"
proof -
  have a: "accepts_next (web_target req)" "accepts_next (admin_target req)"
    by (auto simp: web_target_def admin_target_def accepts_next_def starts_with_def Let_def split: option.splits)
  show ?thesis
    using plain_path_stays [OF _ a(1)] plain_path_stays [OF _ a(2)]
    by (simp add: web_target_def admin_target_def accepts_next_def starts_with_def Let_def get_or_def
        leaves_origin_def url_clean_def url_slash_def)
qed

theorem login_target_open_redirect_witness:
  "\<not> leaves_origin (web_target (sample_page ''/login''))"
  using login_target_open_redirect [of "sample_page ''/login''"]
  by (simp add: web_target_def sample_page_def get_or_def accepts_next_def starts_with_def Let_def plain_path_def)

end
