(* ===== verification/Decimal.thy ===== *)
theory Decimal
  imports JS_Value
begin

text \<open>
  \<^verbatim>\<open>apps/admin/lib/decimal.ts\<close>: exact decimal arithmetic on strings, for the treasury page.

  A \<open>bigint\<close> is an \<open>int\<close>. Strings that are not decimal numbers are read as zero, so every
  function is total. \<open>dec_value\<close> is the number a scaled integer stands for.
\<close>

record Scaled =
  units :: int
  scale :: nat

definition parse :: "string \<Rightarrow> Scaled" where
  "parse value =
     (let trimmed = js_trim value in
      if trimmed = [] \<or> trimmed = ''.'' then \<lparr>units = 0, scale = 0\<rparr>
      else
        (let negative = starts_with trimmed ''-'';
             unsigned = (if negative then drop 1 trimmed else trimmed);
             parts = js_split (CHR ''.'') unsigned;
             whole = hd parts;
             fraction = (if 1 < length parts then parts ! 1 else []);
             digits = (if whole = [] then ''0'' else whole) @ fraction
         in if \<not> (digits \<noteq> [] \<and> is_digits digits) then \<lparr>units = 0, scale = 0\<rparr>
            else \<lparr>units = value_of_digits digits * (if negative then -1 else 1), scale = length fraction\<rparr>))"

definition rescale :: "Scaled \<Rightarrow> nat \<Rightarrow> Scaled" where
  "rescale v s =
     (if scale v = s then v else \<lparr>units = units v * 10 ^ (s - scale v), scale = s\<rparr>)"

definition format :: "Scaled \<Rightarrow> string" where
  "format v =
     (let negative = units v < 0;
          sign = (if negative then ''-'' else []);
          digits = pad_start (scale v + 1) (CHR ''0'') (string_of_int (if negative then - units v else units v))
      in if scale v = 0 then sign @ digits
         else sign @ take (length digits - scale v) digits @ ''.'' @ drop (length digits - scale v) digits)"

definition subtract :: "string \<Rightarrow> string \<Rightarrow> string" where
  "subtract a b =
     (let left = parse a; right = parse b; s = max (scale left) (scale right)
      in format \<lparr>units = units (rescale left s) - units (rescale right s), scale = s\<rparr>)"

definition add :: "string \<Rightarrow> string \<Rightarrow> string" where
  "add a b =
     (let left = parse a; right = parse b; s = max (scale left) (scale right)
      in format \<lparr>units = units (rescale left s) + units (rescale right s), scale = s\<rparr>)"

text \<open>\<open>whole.replace(/\B(?=(\d{3})+(?!\d))/g, ",")\<close> on a string of digits: a comma before every
  proper suffix whose length is a multiple of three.\<close>

fun commas :: "string \<Rightarrow> string" where
  "commas [] = []"
| "commas (c # cs) = (if cs \<noteq> [] \<and> length cs mod 3 = 0 then c # CHR '','' # commas cs else c # commas cs)"

text \<open>The match of \<open>/^(-?)(\d+)(?:\.(\d+))?$/\<close>: sign, whole part, fraction.\<close>

definition decimal_match :: "string \<Rightarrow> (string \<times> string \<times> string option) option" where
  "decimal_match s =
     (let sign = (if starts_with s ''-'' then ''-'' else []);
          body = drop (length sign) s
      in case js_split (CHR ''.'') body of
           [w] \<Rightarrow> if w \<noteq> [] \<and> is_digits w then Some (sign, w, None) else None
         | [w, f] \<Rightarrow> if w \<noteq> [] \<and> is_digits w \<and> f \<noteq> [] \<and> is_digits f then Some (sign, w, Some f) else None
         | _ \<Rightarrow> None)"

definition group_digits :: "string \<Rightarrow> string" where
  "group_digits value =
     (let trimmed = js_trim value in
      case decimal_match trimmed of
        None \<Rightarrow> trimmed
      | Some (sign, whole, fraction) \<Rightarrow>
          sign @ commas whole @ (case fraction of None \<Rightarrow> [] | Some f \<Rightarrow> ''.'' @ f))"

subsection \<open>The number a string stands for\<close>

definition dec_value :: "Scaled \<Rightarrow> rat" where
  "dec_value v = of_int (units v) / 10 ^ scale v"

lemma dec_value_rescale:
  assumes "scale v \<le> s"
  shows "of_int (units (rescale v s)) = dec_value v * 10 ^ s"
proof -
  have "(10 :: rat) ^ s = 10 ^ (s - scale v) * 10 ^ scale v"
    using assms by (simp flip: power_add)
  then show ?thesis by (simp add: rescale_def dec_value_def)
qed

lemma string_of_nonneg: "0 \<le> n \<Longrightarrow> string_of_int n = digits_of n"
  by (simp add: string_of_int_def)

lemma digit_not_space: "is_digit_char c \<Longrightarrow> \<not> is_js_space c"
  by (auto simp: is_digit_char_def is_js_space_def)

lemma js_trim_no_space: "list_all (\<lambda>c. \<not> is_js_space c) s \<Longrightarrow> js_trim s = s"
proof -
  assume a: "list_all (\<lambda>c. \<not> is_js_space c) s"
  have "dropWhile is_js_space t = t" if "list_all (\<lambda>c. \<not> is_js_space c) t" for t
    using that by (cases t) auto
  moreover have "list_all (\<lambda>c. \<not> is_js_space c) (rev s)" using a by (simp add: list_all_iff)
  ultimately show ?thesis using a by (simp add: js_trim_def)
qed

lemma digits_no_space: "is_digits s \<Longrightarrow> list_all (\<lambda>c. \<not> is_js_space c) s"
  by (auto simp: is_digits_def list_all_iff digit_not_space)

text \<open>A printed number: an optional sign, digits, and digits after a point if there is a scale.\<close>

definition printed :: "bool \<Rightarrow> string \<Rightarrow> string \<Rightarrow> string" where
  "printed neg w f = (if neg then ''-'' else []) @ w @ (if f = [] then [] else ''.'' @ f)"

lemma point_not_space: "\<not> is_js_space (CHR ''-'')" "\<not> is_js_space (CHR ''.'')"
  by (simp_all add: is_js_space_def)

lemma parse_printed:
  assumes "w \<noteq> []" "is_digits w" "is_digits f"
  shows "parse (printed neg w f)
    = \<lparr>units = value_of_digits (w @ f) * (if neg then -1 else 1), scale = length f\<rparr>"
proof -
  let ?s = "printed neg w f"
  have trim: "js_trim ?s = ?s"
    using assms point_not_space by (intro js_trim_no_space) (auto simp: printed_def digits_no_space)
  obtain c cs where w: "w = c # cs" using assms(1) by (cases w) auto
  then have c: "c \<noteq> CHR ''-''" "c \<noteq> CHR ''.''" using assms(2) by (auto simp: is_digits_def is_digit_char_def)
  have neg: "starts_with ?s ''-'' = neg" using c by (auto simp: printed_def starts_with_def w)
  have uns: "(if neg then drop 1 ?s else ?s) = w @ (if f = [] then [] else ''.'' @ f)" by (simp add: printed_def)
  have split: "js_split (CHR ''.'') (w @ (if f = [] then [] else ''.'' @ f)) = w # (if f = [] then [] else [f])"
    using digits_no_point [OF assms(2)] digits_no_point [OF assms(3)]
    by (auto simp: js_split_absent js_split_append)
  have ne: "?s \<noteq> []" "?s \<noteq> ''.''" using c by (auto simp: printed_def w)
  show ?thesis
    unfolding parse_def trim Let_def neg uns split using assms ne by (auto simp: is_digits_append)
qed

lemma format_printed:
  assumes "ds = pad_start (scale v + 1) (CHR ''0'') (digits_of \<bar>units v\<bar>)"
  shows "format v = printed (units v < 0) (take (length ds - scale v) ds) (drop (length ds - scale v) ds)"
proof -
  have "string_of_int (if units v < 0 then - units v else units v) = digits_of \<bar>units v\<bar>"
    by (simp add: string_of_nonneg)
  moreover have "scale v + 1 \<le> length ds" by (simp add: assms length_pad_start)
  ultimately show ?thesis unfolding format_def printed_def Let_def assms by auto
qed

lemma decimal_parse_format: "parse (format v) = v"
proof -
  define ds where "ds = pad_start (scale v + 1) (CHR ''0'') (digits_of \<bar>units v\<bar>)"
  let ?w = "take (length ds - scale v) ds" and ?f = "drop (length ds - scale v) ds"
  have d: "is_digits ds"
    using pad_start_digits [OF digits_of_digits, of "\<bar>units v\<bar>"] by (simp add: ds_def is_digits_def list_all_iff)
  have len: "scale v + 1 \<le> length ds" by (simp add: ds_def length_pad_start)
  have val: "value_of_digits ds = \<bar>units v\<bar>" by (simp add: ds_def value_of_digits_pad value_of_digits_of)
  have "parse (printed (units v < 0) ?w ?f)
      = \<lparr>units = value_of_digits (?w @ ?f) * (if units v < 0 then -1 else 1), scale = length ?f\<rparr>"
    using d len by (intro parse_printed) (auto simp: is_digits_take is_digits_drop)
  then show ?thesis using len format_printed [OF ds_def] by (simp add: val)
qed

lemma digits_of_snoc: "0 < v \<Longrightarrow> 0 \<le> d \<Longrightarrow> d < 10 \<Longrightarrow> digits_of (10 * v + d) = digits_of v @ [digit_char d]"
  by (subst digits_of.simps) simp

lemma digit_char_val: "is_digit_char c \<Longrightarrow> digit_char (digit_val c) = c"
  by (simp add: digit_char_def digit_val_def)

lemma digit_val_range: "is_digit_char c \<Longrightarrow> 0 \<le> digit_val c \<and> digit_val c < 10"
  by (simp add: is_digit_char_def digit_val_def)

text \<open>Padding the digits of its value to its own length gives a digit string back.\<close>

lemma pad_digits_of_value:
  assumes "is_digits ds" "ds \<noteq> []"
  shows "pad_start (length ds) (CHR ''0'') (digits_of (value_of_digits ds)) = ds"
  using assms
proof (induction ds rule: rev_induct)
  case (snoc c ds)
  let ?v = "value_of_digits ds" and ?d = "digit_val c"
  have c: "is_digit_char c" and ds: "is_digits ds" using snoc.prems by (auto simp: is_digits_def)
  note d = digit_val_range [OF c]
  have nn: "0 \<le> ?v" using ds by (intro value_of_digits_nonneg) (auto simp: is_digits_def list_all_iff)
  show ?case
  proof (cases "?v = 0")
    case True
    have "ds = replicate (length ds) (CHR ''0'')"
    proof (cases "ds = []")
      case False
      have z: "digits_of 0 = ''0''"
        using digit_char_val [of "CHR ''0''"] by (simp add: digits_of.simps is_digit_char_def digit_val_def)
      have "pad_start (length ds) (CHR ''0'') ''0'' = ds" using snoc.IH [OF ds False] by (simp only: True z)
      then have "\<exists>k. replicate k (CHR ''0'') @ ''0'' = ds" unfolding pad_start_def by blast
      then obtain k where "ds = replicate (Suc k) (CHR ''0'')" by (auto simp: replicate_append_same)
      then show ?thesis by simp
    qed simp
    moreover have "digits_of ?d = [c]" using d c by (simp add: digits_of.simps digit_char_val)
    ultimately show ?thesis using True by (simp add: pad_start_def)
  next
    case False
    then have "ds \<noteq> []" by auto
    moreover have "digits_of (10 * ?v + ?d) = digits_of ?v @ [c]"
      using digits_of_snoc [of ?v ?d] False nn d by (simp add: digit_char_val c)
    ultimately show ?thesis using snoc.IH [OF ds] by (simp add: pad_start_def)
  qed
qed simp

lemma pad_digits_of_value_short:
  assumes "is_digits ds" "ds \<noteq> []" "n \<le> length ds" "n = length ds \<or> hd ds \<noteq> CHR ''0''"
  shows "pad_start n (CHR ''0'') (digits_of (value_of_digits ds)) = ds"
proof (cases "n = length ds")
  case True
  then show ?thesis using pad_digits_of_value assms by simp
next
  case False
  let ?t = "digits_of (value_of_digits ds)"
  have p: "replicate (length ds - length ?t) (CHR ''0'') @ ?t = ds"
    using pad_digits_of_value [OF assms(1,2)] by (simp add: pad_start_def)
  moreover have "length ds - length ?t = 0"
  proof (rule ccontr)
    assume "length ds - length ?t \<noteq> 0"
    then obtain k where "length ds - length ?t = Suc k" using not0_implies_Suc by blast
    then have "hd ds = CHR ''0''" using p by (metis append_Cons list.sel(1) replicate_Suc)
    then show False using assms(4) False by blast
  qed
  ultimately have "?t = ds" by simp
  then show ?thesis using assms(3) by (simp add: pad_start_def)
qed

text \<open>The strings \<open>format\<close> prints: no superfluous leading zero, no negative zero.\<close>

definition canonical :: "string \<Rightarrow> bool" where
  "canonical s =
     (case decimal_match s of
        None \<Rightarrow> False
      | Some (sign, w, f) \<Rightarrow>
          (length w = 1 \<or> hd w \<noteq> CHR ''0'') \<and> (sign = [] \<or> value_of_digits (w @ get_or f []) \<noteq> 0))"

lemma decimal_match_printed:
  assumes "decimal_match s = Some (sign, w, f)"
  shows "s = printed (sign \<noteq> []) w (get_or f [])" "w \<noteq> []" "is_digits w" "is_digits (get_or f [])"
    "sign = [] \<or> sign = ''-''" "f = None \<or> (\<exists>x. f = Some x \<and> x \<noteq> [])"
proof -
  define sg where "sg = (if starts_with s ''-'' then ''-'' else [])"
  have s: "s = sg @ drop (length sg) s" by (auto simp: sg_def starts_with_def prefix_def)
  have "js_join ''.'' (js_split (CHR ''.'') (drop (length sg) s)) = drop (length sg) s" by (rule js_join_split)
  with assms s show "s = printed (sign \<noteq> []) w (get_or f [])" "w \<noteq> []" "is_digits w" "is_digits (get_or f [])"
    "sign = [] \<or> sign = ''-''" "f = None \<or> (\<exists>x. f = Some x \<and> x \<noteq> [])"
    unfolding decimal_match_def Let_def sg_def [symmetric]
    by (auto simp: printed_def get_or_def is_digits_def sg_def split: list.splits if_splits)
qed

lemma decimal_format_parse:
  assumes "canonical s"
  shows "format (parse s) = s"
proof -
  obtain sign w f0 where m: "decimal_match s = Some (sign, w, f0)"
    and c: "length w = 1 \<or> hd w \<noteq> CHR ''0''" "sign = [] \<or> value_of_digits (w @ get_or f0 []) \<noteq> 0"
    using assms by (auto simp: canonical_def split: option.splits)
  define f where "f = get_or f0 []"
  let ?ds = "w @ f" and ?neg = "sign \<noteq> []"
  note p = decimal_match_printed [OF m, folded f_def]
  have ds: "is_digits ?ds" "?ds \<noteq> []" using p by (auto simp: is_digits_append)
  then have nn: "0 \<le> value_of_digits ?ds" by (intro value_of_digits_nonneg) (auto simp: is_digits_def list_all_iff)
  let ?v = "\<lparr>units = value_of_digits ?ds * (if ?neg then -1 else 1), scale = length f\<rparr>"
  have v: "parse s = ?v" using p parse_printed by simp
  have abs: "\<bar>units ?v\<bar> = value_of_digits ?ds" "(units ?v < 0) = ?neg" using nn c(2) by (auto simp: f_def)
  have l: "Suc (length f) \<le> length ?ds" using p(2) by (cases w) auto
  have "pad_start (scale ?v + 1) (CHR ''0'') (digits_of \<bar>units ?v\<bar>) = ?ds"
    unfolding abs using pad_digits_of_value_short [OF ds, of "Suc (length f)"] l c(1) p(2) by (cases w) auto
  from format_printed [OF this [symmetric]] have "format ?v = printed ?neg w f" unfolding abs by simp
  then show ?thesis using v p(1) by simp
qed

subsection \<open>Grouping\<close>

lemma commas_remove: "CHR '','' \<notin> set w \<Longrightarrow> filter (\<lambda>c. c \<noteq> CHR '','') (commas w) = w"
  by (induction w rule: commas.induct) auto

lemma digits_no_comma: "is_digits w \<Longrightarrow> CHR '','' \<notin> set w"
  by (auto simp: is_digits_def list_all_iff is_digit_char_def)

lemma length_split_commas:
  assumes "is_digits w" "w \<noteq> []"
  shows "\<exists>h t. js_split (CHR '','') (commas w) = h # t \<and> 0 < length h \<and> length h \<le> 3
    \<and> length h mod 3 = length w mod 3 \<and> (\<forall>x \<in> set t. length x = 3)"
  using assms
proof (induction w rule: commas.induct)
  case (2 c cs)
  have c: "c \<noteq> CHR '',''" using 2(3) by (auto simp: is_digits_def is_digit_char_def)
  have cs: "is_digits cs" using 2(3) by (simp add: is_digits_def)
  consider "cs = []" | "cs \<noteq> []" "length cs mod 3 = 0" | "cs \<noteq> []" "length cs mod 3 \<noteq> 0" by blast
  then show ?case
  proof cases
    case 1
    with c show ?thesis by simp
  next
    case 2
    then obtain h t where h: "js_split (CHR '','') (commas cs) = h # t" "0 < length h" "length h \<le> 3"
        "length h mod 3 = length cs mod 3" "\<forall>x \<in> set t. length x = 3"
      using "2.IH"(1) [OF conjI [OF 2] cs 2(1)] by auto
    then have "length h = 3" using 2 by (cases "length h < 3") auto
    then show ?thesis using 2 c h by (simp add: mod_Suc)
  next
    case 3
    then obtain h t where h: "js_split (CHR '','') (commas cs) = h # t" "0 < length h" "length h \<le> 3"
        "length h mod 3 = length cs mod 3" "\<forall>x \<in> set t. length x = 3"
      using "2.IH"(2) [OF _ cs 3(1)] 3 by auto
    have "length h < 3" using h 3 by (cases "length h = 3") auto
    moreover have "length cs mod 3 = 1 \<or> length cs mod 3 = 2" using 3(2) by presburger
    ultimately show ?thesis using 3 c h by (auto simp: mod_Suc)
  qed
qed simp

text \<open>Grouping a printed number: the blocks between commas hold three digits, and without the
  commas the print is unchanged.\<close>

lemma decimal_match_of_printed:
  assumes "w \<noteq> []" "is_digits w" "is_digits f"
  shows "decimal_match (printed neg w f) = Some (if neg then ''-'' else [], w, if f = [] then None else Some f)"
proof -
  obtain c cs where wc: "w = c # cs" using assms(1) by (cases w) auto
  then have "c \<noteq> CHR ''-''" using assms(2) by (auto simp: is_digits_def is_digit_char_def)
  with wc have w: "w = c # cs" "c \<noteq> CHR ''-''" by simp_all
  have "starts_with (printed neg w f) ''-'' = neg" using w by (auto simp: printed_def starts_with_def)
  moreover have "js_split (CHR ''.'') (w @ (if f = [] then [] else ''.'' @ f)) = w # (if f = [] then [] else [f])"
    using digits_no_point [OF assms(2)] digits_no_point [OF assms(3)] by (auto simp: js_split_absent js_split_append)
  moreover have "drop (length (if neg then ''-'' else [])) (printed neg w f) = w @ (if f = [] then [] else ''.'' @ f)"
    by (simp add: printed_def)
  ultimately show ?thesis unfolding decimal_match_def Let_def using assms by simp
qed

lemma printed_no_space:
  "is_digits w \<Longrightarrow> is_digits f \<Longrightarrow> list_all (\<lambda>c. \<not> is_js_space c) (printed neg w f)"
  using point_not_space by (auto simp: printed_def digits_no_space)

lemma group_printed:
  assumes "w \<noteq> []" "is_digits w" "is_digits f"
  shows "filter (\<lambda>c. c \<noteq> CHR '','') (group_digits (printed neg w f)) = printed neg w f"
proof -
  have "js_trim (printed neg w f) = printed neg w f" using assms by (intro js_trim_no_space printed_no_space)
  moreover have "filter (\<lambda>c. c \<noteq> CHR '','') f = f"
    using digits_no_comma [OF assms(3)] by (auto simp: filter_id_conv)
  ultimately show ?thesis
    using commas_remove [OF digits_no_comma [OF assms(2)]]
    by (simp add: group_digits_def decimal_match_of_printed [OF assms]) (simp add: printed_def)
qed

lemma format_shape:
  obtains w f where "format v = printed (units v < 0) w f" "w \<noteq> []" "is_digits w" "is_digits f"
proof -
  define ds where "ds = pad_start (scale v + 1) (CHR ''0'') (digits_of \<bar>units v\<bar>)"
  have d: "is_digits ds"
    using pad_start_digits [OF digits_of_digits, of "\<bar>units v\<bar>"] by (simp add: ds_def is_digits_def list_all_iff)
  have len: "scale v + 1 \<le> length ds" by (simp add: ds_def length_pad_start)
  show ?thesis
    by (rule that [OF format_printed [OF ds_def]]) (use d len in \<open>auto simp: is_digits_take is_digits_drop\<close>)
qed

lemma group_format: "filter (\<lambda>c. c \<noteq> CHR '','') (group_digits (format v)) = format v"
  using format_shape [of v] group_printed by metis

subsection \<open>Properties\<close>

text \<open>
  C37. Money is added exactly. For all strings, the number the sum (the difference) prints is the sum
  (the difference) of the numbers read, with as many decimals as the longer operand: no rounding,
  for figures of any size. Grouping a printed figure only inserts commas, in blocks of three.
\<close>

theorem decimal_arithmetic_exact:
  "dec_value (parse (add a b)) = dec_value (parse a) + dec_value (parse b)
    \<and> dec_value (parse (subtract a b)) = dec_value (parse a) - dec_value (parse b)
    \<and> scale (parse (add a b)) = max (scale (parse a)) (scale (parse b))
    \<and> scale (parse (subtract a b)) = max (scale (parse a)) (scale (parse b))
    \<and> filter (\<lambda>c. c \<noteq> CHR '','') (group_digits (add a b)) = add a b"
proof -
  let ?s = "max (scale (parse a)) (scale (parse b))"
  have r: "of_int (units (rescale (parse a) ?s)) = dec_value (parse a) * 10 ^ ?s"
    "of_int (units (rescale (parse b) ?s)) = dec_value (parse b) * 10 ^ ?s"
    by (simp_all add: dec_value_rescale)
  have "filter (\<lambda>c. c \<noteq> CHR '','') (group_digits (format v)) = format v" for v
    by (rule group_format)
  then show ?thesis
    by (simp add: add_def subtract_def Let_def decimal_parse_format dec_value_def [of "\<lparr>units = _, scale = _\<rparr>"]
        r add_divide_distrib diff_divide_distrib)
qed

text \<open>
  C38. Printing and reading are inverse. Every scaled integer is read back from its print exactly,
  scale included; and every canonical decimal string (no superfluous leading zero, no negative
  zero) is printed back from what was read.
\<close>

theorem decimal_roundtrip:
  "parse (format v) = v \<and> (canonical s \<longrightarrow> format (parse s) = s)"
  using decimal_parse_format decimal_format_parse by blast

theorem decimal_roundtrip_witness:
  "canonical ''-120.05'' \<and> format (parse ''-120.05'') = ''-120.05''"
proof -
  have "canonical ''-120.05''"
    by (simp add: canonical_def decimal_match_def starts_with_def is_digits_def is_digit_char_def get_or_def
        value_of_digits_def digit_val_def)
  then show ?thesis using decimal_roundtrip [of _ "''-120.05''"] by blast
qed

end
