(* ===== verification/Candles.thy ===== *)
theory Candles
  imports JS_Value
begin

text \<open>
  The two candle builders: \<^verbatim>\<open>apps/web/lib/utils/ohlc.ts\<close> (\<open>buildCandles\<close>, from the price history
  endpoint) and \<^verbatim>\<open>apps/web/lib/utils/chart.ts\<close> (\<open>priceToOHLC\<close> from a whole stream of prices and
  \<open>addPriceToOHLC\<close> one price at a time).

  \<open>new Date(s).getTime()\<close> on a string is the parameter \<open>date_ms\<close>. A \<open>Date\<close> made from a number is
  its time value, clipped as the language says. Arrays are sorted with the stable sort of the
  library on finite keys; an engine's order for keys that are not finite is not modelled.
\<close>

definition sort_num :: "('a \<Rightarrow> jsnum) \<Rightarrow> 'a list \<Rightarrow> 'a list" where
  "sort_num key xs = sort_key (\<lambda>x. case key x of Fin t \<Rightarrow> t | _ \<Rightarrow> 0) xs"

text \<open>\<open>x || 0\<close>\<close>

definition or_zero :: "jsnum \<Rightarrow> jsnum" where
  "or_zero x = (if x = NaN then Fin 0 else x)"

subsection \<open>\<open>ohlc.ts\<close>\<close>

record OHLCPoint =
  time :: jsnum
  o_open :: jsnum
  o_high :: jsnum
  o_low :: jsnum
  o_close :: jsnum
  volume :: jsnum

record history_outcome =
  out_id :: string
  out_name :: string
  out_price :: string
  out_open :: "string option"
  out_high :: "string option"
  out_low :: "string option"
  out_close :: "string option"

record history_bucket =
  timestamp :: string
  outcomes :: "history_outcome list"
  total_volume :: string

definition INTERVAL_OPTIONS :: "(int \<times> string) list" where
  "INTERVAL_OPTIONS =
     [(60, ''1m''), (300, ''5m''), (900, ''15m''), (3600, ''1h''), (14400, ''4h''), (86400, ''1d'')]"

definition intervalToQueryParam :: "int \<Rightarrow> string" where
  "intervalToQueryParam seconds =
     (case map_of INTERVAL_OPTIONS seconds of Some label \<Rightarrow> label | None \<Rightarrow> ''5m'')"

text \<open>\<open>Number(v ?? close)\<close>\<close>

definition number_or :: "string option \<Rightarrow> jsnum \<Rightarrow> jsnum" where
  "number_or v close = (case v of Some s \<Rightarrow> string_to_number s | None \<Rightarrow> close)"

definition pick_outcome :: "string option \<Rightarrow> history_outcome list \<Rightarrow> history_outcome option" where
  "pick_outcome outcomeId os =
     or_else (case outcomeId of
                Some i \<Rightarrow> if i = [] then None else List.find (\<lambda>oc. out_id oc = i) os
              | None \<Rightarrow> None)
       (js_first os)"

definition candle :: "(string \<Rightarrow> jsnum) \<Rightarrow> string option \<Rightarrow> history_bucket \<Rightarrow> OHLCPoint option" where
  "candle date_ms outcomeId p =
     (case pick_outcome outcomeId (outcomes p) of
        None \<Rightarrow> None
      | Some oc \<Rightarrow>
          (let close = string_to_number (get_or (out_close oc) (out_price oc)) in
           if \<not> is_finite_num close then None
           else
             (let open = number_or (out_open oc) close;
                  high = number_or (out_high oc) close;
                  low = number_or (out_low oc) close;
                  t = js_floor (js_div (date_ms (timestamp p)) (Fin 1000))
              in if \<not> is_finite_num t then None
                 else Some
                   \<lparr>time = t,
                    o_open = (if is_finite_num open then open else close),
                    o_high = (if is_finite_num high then js_max [high, open, close] else js_max [open, close]),
                    o_low = (if is_finite_num low then js_min [low, open, close] else js_min [open, close]),
                    o_close = close,
                    volume = or_zero (string_to_number (total_volume p))\<rparr>)))"

definition buildCandles :: "(string \<Rightarrow> jsnum) \<Rightarrow> history_bucket list \<Rightarrow> string option \<Rightarrow> OHLCPoint list" where
  "buildCandles date_ms points outcomeId =
     sort_num time (List.map_filter (candle date_ms outcomeId) points)"

definition getIntervalLabel :: "jsnum \<Rightarrow> string" where
  "getIntervalLabel seconds =
     (if js_le (Fin 86400) seconds then num_to_string (js_floor (js_div seconds (Fin 86400))) @ ''d''
      else if js_le (Fin 3600) seconds then num_to_string (js_floor (js_div seconds (Fin 3600))) @ ''h''
      else if js_le (Fin 60) seconds then num_to_string (js_floor (js_div seconds (Fin 60))) @ ''m''
      else num_to_string seconds @ ''s'')"

definition formatCents :: "jsnum \<Rightarrow> string" where
  "formatCents value =
     (if \<not> is_finite_num value then [CHR 0xE2, CHR 0x80, CHR 0x94]
      else num_to_string (js_round (js_mul value (Fin 100))) @ [CHR 0xC2, CHR 0xA2])"

subsection \<open>\<open>chart.ts\<close>\<close>

record LiveLinePoint =
  pt_time :: jsnum
  pt_value :: jsnum

record OHLCDataPoint =
  date :: jsnum
  c_open :: jsnum
  c_high :: jsnum
  c_low :: jsnum
  c_close :: jsnum

text \<open>The time value of \<open>new Date(x)\<close>.\<close>

definition time_clip :: "jsnum \<Rightarrow> jsnum" where
  "time_clip x =
     (case x of
        Fin t \<Rightarrow> if \<bar>t\<bar> \<le> 8640000000000000 then Fin (of_int (if 0 \<le> t then \<lfloor>t\<rfloor> else \<lceil>t\<rceil>)) else NaN
      | _ \<Rightarrow> NaN)"

definition bucket_of :: "jsnum \<Rightarrow> jsnum \<Rightarrow> jsnum" where
  "bucket_of t interval = js_mul (js_floor (js_div t interval)) interval"

definition add_to_bucket ::
  "jsnum \<Rightarrow> LiveLinePoint \<Rightarrow> (jsnum \<times> jsnum list) list \<Rightarrow> (jsnum \<times> jsnum list) list" where
  "add_to_bucket interval pt buckets =
     (let b = bucket_of (pt_time pt) interval
      in map_set b (get_or (map_of buckets b) [] @ [pt_value pt]) buckets)"

definition candle_of_bucket :: "jsnum \<times> jsnum list \<Rightarrow> OHLCDataPoint" where
  "candle_of_bucket bv =
     \<lparr>date = time_clip (js_mul (fst bv) (Fin 1000)), c_open = hd (snd bv), c_high = js_max (snd bv),
      c_low = js_min (snd bv), c_close = last (snd bv)\<rparr>"

definition priceToOHLC :: "LiveLinePoint list \<Rightarrow> jsnum \<Rightarrow> OHLCDataPoint list" where
  "priceToOHLC history interval =
     map candle_of_bucket (sort_num fst (fold (add_to_bucket interval) history []))"

definition addPriceToOHLC :: "OHLCDataPoint list \<Rightarrow> jsnum \<Rightarrow> jsnum \<Rightarrow> jsnum \<Rightarrow> OHLCDataPoint list" where
  "addPriceToOHLC candles price timestampSeconds interval =
     (let bucket = bucket_of timestampSeconds interval;
          bucketMs = js_mul bucket (Fin 1000);
          fresh = candles @ [\<lparr>date = time_clip bucketMs, c_open = price, c_high = price, c_low = price, c_close = price\<rparr>]
      in case js_last candles of
           None \<Rightarrow> fresh
         | Some lst \<Rightarrow>
             if js_eq (date lst) bucketMs
             then butlast candles @ [lst\<lparr>c_high := js_max [c_high lst, price], c_low := js_min [c_low lst, price],
                                         c_close := price\<rparr>]
             else fresh)"

subsection \<open>Buckets\<close>

text \<open>The bucket of a time as an integer; quotient and product are rounded doubles.\<close>

definition bucket_int :: "rat \<Rightarrow> int \<Rightarrow> int" where
  "bucket_int t n = \<lfloor>round64 (t / of_int n)\<rfloor> * n"

definition time_ok :: "rat \<Rightarrow> bool" where
  "time_ok t \<longleftrightarrow> 0 \<le> t \<and> t \<le> 8000000000000"

definition interval_ok :: "int \<Rightarrow> bool" where
  "interval_ok n \<longleftrightarrow> 1 \<le> n \<and> n \<le> 86400"

lemma bucket_bounds:
  assumes "time_ok t" "interval_ok n"
  shows "0 \<le> round64 (t / of_int n)" "round64 (t / of_int n) \<le> 8000000000000"
    "0 \<le> bucket_int t n" "bucket_int t n \<le> 8000000086400"
proof -
  let ?x = "t / of_int n"
  have x: "0 \<le> ?x" "?x \<le> of_int 8000000000000"
  proof -
    show "0 \<le> ?x" using assms by (simp add: time_ok_def interval_ok_def)
    have "t \<le> t * of_int n" using assms by (simp add: time_ok_def interval_ok_def mult_le_cancel_left1)
    then have "?x \<le> t" using assms by (simp add: interval_ok_def divide_le_eq)
    then show "?x \<le> of_int 8000000000000" using assms by (simp add: time_ok_def)
  qed
  show r0: "0 \<le> round64 ?x" by (rule round64_nonneg [OF x(1)])
  show r1: "round64 ?x \<le> 8000000000000" using r64.rnd_upper [OF x(2)] by simp
  show "0 \<le> bucket_int t n" using r0 assms by (simp add: bucket_int_def interval_ok_def)
  have "\<lceil>?x\<rceil> \<le> 8000000000000" "0 \<le> \<lceil>?x\<rceil>" using x by (simp_all add: ceiling_le_iff)
  then have "round64 ?x \<le> of_int \<lceil>?x\<rceil>" by (intro r64.rnd_upper) (simp_all add: le_of_int_ceiling)
  then have "\<lfloor>round64 ?x\<rfloor> \<le> \<lceil>?x\<rceil>" by (simp add: floor_le_iff)
  then have "(of_int \<lfloor>round64 ?x\<rfloor> :: rat) \<le> of_int \<lceil>?x\<rceil>" by simp
  then have "of_int \<lfloor>round64 ?x\<rfloor> \<le> ?x + 1" using ceiling_correct [of ?x] by linarith
  then have "of_int \<lfloor>round64 ?x\<rfloor> * of_int n \<le> (?x + 1) * of_int n" using assms by (intro mult_right_mono) (simp_all add: interval_ok_def)
  also have "\<dots> = t + of_int n" using assms by (simp add: interval_ok_def field_simps)
  finally have "(of_int (bucket_int t n) :: rat) \<le> t + of_int n" by (simp add: bucket_int_def)
  moreover have "(of_int n :: rat) \<le> 86400" using assms by (simp add: interval_ok_def)
  ultimately have "(of_int (bucket_int t n) :: rat) \<le> of_int 8000000086400" using assms by (simp add: time_ok_def)
  then show "bucket_int t n \<le> 8000000086400" by (simp only: of_int_le_iff)
qed

lemma bucket_mono:
  assumes "t \<le> t'" "interval_ok n"
  shows "bucket_int t n \<le> bucket_int t' n"
  unfolding bucket_int_def
  using assms by (intro mult_right_mono floor_mono r64.rnd_mono) (simp_all add: interval_ok_def divide_right_mono)

lemma bucket_of_int:
  assumes "time_ok t" "interval_ok n"
  shows "bucket_of (Fin t) (Fin (of_int n)) = Fin (of_int (bucket_int t n))"
proof -
  have n: "n \<noteq> 0" using assms by (simp add: interval_ok_def)
  have "of_rat_js (t / of_int n) = Fin (round64 (t / of_int n))"
    using bucket_bounds(1,2) [OF assms] double_limit_large by (auto simp: of_rat_js_def Let_def)
  moreover have "is_double (of_int (bucket_int t n))"
    using bucket_bounds(3,4) [OF assms] by (intro is_double_of_int) simp
  ultimately show ?thesis using n by (simp add: bucket_of_def bucket_int_def)
qed

lemma bucket_ms:
  assumes "0 \<le> k" "k \<le> 8000000086400"
  shows "js_mul (Fin (of_int k)) (Fin 1000) = Fin (of_int (k * 1000))"
    "time_clip (Fin (of_int (k * 1000))) = Fin (of_int (k * 1000))"
proof -
  have "is_double (of_int (k * 1000))" using assms by (intro is_double_of_int) simp
  then show "js_mul (Fin (of_int k)) (Fin 1000) = Fin (of_int (k * 1000))" by simp
  have "\<bar>of_int (k * 1000) :: rat\<bar> = of_int (k * 1000)" using assms by simp
  moreover have "(of_int (k * 1000) :: rat) \<le> of_int 8640000000000000"
    using assms by (simp only: of_int_le_iff)
  ultimately show "time_clip (Fin (of_int (k * 1000))) = Fin (of_int (k * 1000))"
    using assms unfolding time_clip_def by (simp del: of_int_mult)
qed

lemma js_max_snoc: "js_max (xs @ [x]) = js_max2 (js_max xs) x"
  by (simp add: js_max_def)

lemma js_min_snoc: "js_min (xs @ [x]) = js_min2 (js_min xs) x"
  by (simp add: js_min_def)

lemma js_max_pair: "js_max [a, b] = js_max2 a b" "js_max [a] = a"
  by (cases a; simp add: js_max_def js_max2_def)+

lemma js_min_pair: "js_min [a, b] = js_min2 a b" "js_min [a] = a"
  by (cases a; simp add: js_min_def js_min2_def)+

lemma js_last_snoc: "js_last (xs @ [x]) = Some x"
  by (cases xs) (simp_all add: js_last_def)

lemma map_set_last:
  "k \<notin> set (map fst bs) \<Longrightarrow> map_set k v (bs @ [(k, w)]) = bs @ [(k, v)]"
  by (induction bs) auto

lemma map_set_fresh: "k \<notin> set (map fst bs) \<Longrightarrow> map_set k v bs = bs @ [(k, v)]"
  by (induction bs) auto

subsection \<open>Streaming and batch\<close>

definition stream_candles :: "LiveLinePoint list \<Rightarrow> jsnum \<Rightarrow> OHLCDataPoint list" where
  "stream_candles history interval =
     foldl (\<lambda>cs pt. addPriceToOHLC cs (pt_value pt) (pt_time pt) interval) [] history"

definition times_of :: "LiveLinePoint list \<Rightarrow> rat list" where
  "times_of h = map (\<lambda>pt. case pt_time pt of Fin t \<Rightarrow> t | _ \<Rightarrow> -1) h"

definition stream_ok :: "LiveLinePoint list \<Rightarrow> bool" where
  "stream_ok h \<longleftrightarrow> list_all time_ok (times_of h) \<and> sorted (times_of h)"

definition bucket_range :: "int \<Rightarrow> bool" where
  "bucket_range k \<longleftrightarrow> 0 \<le> k \<and> k \<le> 8000000086400"

text \<open>The buckets of an ordered stream: keys increasing, the last one that of the last point.\<close>

definition buckets_ok :: "int \<Rightarrow> LiveLinePoint list \<Rightarrow> (jsnum \<times> jsnum list) list \<Rightarrow> bool" where
  "buckets_ok n h bs \<longleftrightarrow>
     (\<exists>ks. map fst bs = map (\<lambda>k. Fin (of_int k)) ks \<and> sorted_wrt (<) ks
        \<and> list_all bucket_range ks
        \<and> (h = [] \<longrightarrow> ks = []) \<and> (h \<noteq> [] \<longrightarrow> ks \<noteq> [] \<and> last ks = bucket_int (last (times_of h)) n))
     \<and> list_all (\<lambda>bv. snd bv \<noteq> []) bs"

lemma candle_date: "bucket_range k \<Longrightarrow> date (candle_of_bucket (Fin (of_int k), vs)) = Fin (of_int (k * 1000))"
  using bucket_ms [of k] by (simp add: bucket_range_def candle_of_bucket_def del: js_mul.simps)

text \<open>A point of the last bucket updates its candle.\<close>

lemma stream_same_bucket:
  assumes b: "bucket_of (pt_time pt) i = Fin (of_int k)" "bucket_range k"
    and bs: "bs = bs0 @ [(Fin (of_int k), vs)]" "Fin (of_int k) \<notin> set (map fst bs0)" "vs \<noteq> []"
  shows "add_to_bucket i pt bs = bs0 @ [(Fin (of_int k), vs @ [pt_value pt])]"
    "addPriceToOHLC (map candle_of_bucket bs) (pt_value pt) (pt_time pt) i
      = map candle_of_bucket (bs0 @ [(Fin (of_int k), vs @ [pt_value pt])])"
proof -
  have "map_of bs0 (Fin (of_int k)) = None" using bs(2) by (simp add: map_of_eq_None_iff)
  then have "map_of bs (Fin (of_int k)) = Some vs" by (simp add: bs(1) map_add_def)
  then show "add_to_bucket i pt bs = bs0 @ [(Fin (of_int k), vs @ [pt_value pt])]"
    using map_set_last [OF bs(2)] by (simp add: add_to_bucket_def b(1) get_or_def bs(1))
  have "js_last (map candle_of_bucket bs) = Some (candle_of_bucket (Fin (of_int k), vs))"
    by (simp add: bs(1) js_last_snoc)
  moreover have "js_mul (Fin (of_int k)) (Fin 1000) = Fin (of_int (k * 1000))"
    using bucket_ms b(2) by (simp add: bucket_range_def)
  ultimately show "addPriceToOHLC (map candle_of_bucket bs) (pt_value pt) (pt_time pt) i
      = map candle_of_bucket (bs0 @ [(Fin (of_int k), vs @ [pt_value pt])])"
    using bs(3) candle_date [OF b(2), of vs]
    by (simp add: addPriceToOHLC_def b(1) Let_def js_eq_def bs(1) butlast_append del: js_mul.simps)
      (simp add: candle_of_bucket_def js_max_pair js_min_pair js_max_snoc js_min_snoc)
qed

text \<open>A point of a later bucket opens a new candle.\<close>

lemma stream_new_bucket:
  assumes b: "bucket_of (pt_time pt) i = Fin (of_int k)" "bucket_range k"
    and bs: "Fin (of_int k) \<notin> set (map fst bs)" "\<And>l vs. bs \<noteq> [] \<Longrightarrow> last bs = (Fin (of_int l), vs) \<Longrightarrow> bucket_range l"
      "\<forall>x \<in> set (map fst bs). \<exists>l. x = Fin (of_int l)"
  shows "add_to_bucket i pt bs = bs @ [(Fin (of_int k), [pt_value pt])]"
    "addPriceToOHLC (map candle_of_bucket bs) (pt_value pt) (pt_time pt) i
      = map candle_of_bucket (bs @ [(Fin (of_int k), [pt_value pt])])"
proof -
  show "add_to_bucket i pt bs = bs @ [(Fin (of_int k), [pt_value pt])]"
    using map_set_fresh [OF bs(1)] bs(1) map_of_eq_None_iff [of bs "Fin (of_int k)"]
    by (simp add: add_to_bucket_def b(1) get_or_def)
  have ms: "js_mul (Fin (of_int k)) (Fin 1000) = Fin (of_int (k * 1000))"
    using bucket_ms b(2) by (simp add: bucket_range_def)
  have new: "candle_of_bucket (Fin (of_int k), [pt_value pt])
      = \<lparr>date = time_clip (Fin (of_int (k * 1000))), c_open = pt_value pt, c_high = pt_value pt, c_low = pt_value pt,
         c_close = pt_value pt\<rparr>"
    using ms by (simp add: candle_of_bucket_def js_max_pair js_min_pair del: js_mul.simps)
  show "addPriceToOHLC (map candle_of_bucket bs) (pt_value pt) (pt_time pt) i
      = map candle_of_bucket (bs @ [(Fin (of_int k), [pt_value pt])])"
  proof (cases bs rule: rev_cases)
    case Nil
    then show ?thesis by (simp add: addPriceToOHLC_def b(1) Let_def js_last_def ms new del: js_mul.simps)
  next
    case (snoc bs0 kv)
    then obtain l vs where kv: "kv = (Fin (of_int l), vs)" using bs(3) by (cases kv) auto
    then have "bucket_range l" using bs(2) snoc by auto
    moreover have "l \<noteq> k" using bs(1) snoc kv by auto
    moreover have "js_last (map candle_of_bucket bs) = Some (candle_of_bucket kv)"
      by (simp add: snoc js_last_snoc)
    ultimately show ?thesis
      using candle_date [of l vs] by (simp add: addPriceToOHLC_def b(1) Let_def js_eq_def kv ms new del: js_mul.simps)
  qed
qed

lemma streaming_step:
  assumes n: "interval_ok n" and bs: "buckets_ok n h bs" and h: "stream_ok (h @ [pt])"
  shows "buckets_ok n (h @ [pt]) (add_to_bucket (Fin (of_int n)) pt bs)
    \<and> addPriceToOHLC (map candle_of_bucket bs) (pt_value pt) (pt_time pt) (Fin (of_int n))
      = map candle_of_bucket (add_to_bucket (Fin (of_int n)) pt bs)"
proof -
  obtain ks where ks: "map fst bs = map (\<lambda>k. Fin (of_int k)) ks" "sorted_wrt (<) ks"
      "list_all bucket_range ks" "h = [] \<longrightarrow> ks = []"
      "h \<noteq> [] \<longrightarrow> ks \<noteq> [] \<and> last ks = bucket_int (last (times_of h)) n"
    and ne: "list_all (\<lambda>bv. snd bv \<noteq> []) bs"
    using bs by (auto simp: buckets_ok_def)
  obtain t where t: "pt_time pt = Fin t" "time_ok t" "last (times_of (h @ [pt])) = t"
    "h \<noteq> [] \<longrightarrow> last (times_of h) \<le> t"
    using h by (auto simp: stream_ok_def times_of_def sorted_append last_map time_ok_def split: jsnum.splits)
  define b where "b = bucket_int t n"
  have b: "bucket_of (pt_time pt) (Fin (of_int n)) = Fin (of_int b)" "bucket_range b"
    using t n bucket_of_int [of t n] bucket_bounds [of t n] by (auto simp: b_def bucket_range_def)
  show ?thesis
  proof (cases "ks \<noteq> [] \<and> last ks = b")
    case True
    then obtain ks0 where k: "ks = ks0 @ [b]" by (metis append_butlast_last_id)
    then obtain bs0 vs where s: "bs = bs0 @ [(Fin (of_int b), vs)]" "map fst bs0 = map (\<lambda>k. Fin (of_int k)) ks0"
      using ks(1) by (cases bs rule: rev_cases) auto
    moreover have "Fin (of_int b) \<notin> set (map fst bs0)" using ks(2) k s(2) by (auto simp: sorted_wrt_append)
    moreover have "vs \<noteq> []" using ne s by simp
    moreover have "buckets_ok n (h @ [pt]) (bs0 @ [(Fin (of_int b), vs @ [pt_value pt])])"
      using ks ne s k t(3) unfolding buckets_ok_def by (intro conjI exI [of _ ks]) (auto simp: b_def)
    ultimately show ?thesis using stream_same_bucket [OF b s(1)] by simp
  next
    case False
    have lt: "\<forall>k \<in> set ks. k < b"
    proof (cases "ks = []")
      case False
      then have "h \<noteq> []" using ks(4) by auto
      then have "last ks \<le> b" using ks(5) t(4) bucket_mono [OF _ n] by (auto simp: b_def)
      then have "last ks < b" using \<open>\<not> (ks \<noteq> [] \<and> last ks = b)\<close> False by simp
      moreover obtain ks0 where "ks = ks0 @ [last ks]" using False by (metis append_butlast_last_id)
      then have "\<forall>k \<in> set ks. k \<le> last ks" using ks(2) by (metis Un_iff less_imp_le order_refl set_append set_ConsD sorted_wrt_append list.set_intros(1) empty_iff list.set(1))
      ultimately show ?thesis by fastforce
    qed simp
    then have "Fin (of_int b) \<notin> set (map fst bs)" unfolding ks(1) by auto
    moreover have "bucket_range l" if "bs \<noteq> []" "last bs = (Fin (of_int l), vs)" for l vs
    proof -
      have "Fin (of_int l) \<in> set (map fst bs)" using that by (metis fst_conv image_eqI last_in_set set_map)
      then show ?thesis using ks(3) unfolding ks(1) by (auto simp: list_all_iff)
    qed
    moreover have "\<forall>x \<in> set (map fst bs). \<exists>l. x = Fin (of_int l)" unfolding ks(1) by auto
    moreover have "buckets_ok n (h @ [pt]) (bs @ [(Fin (of_int b), [pt_value pt])])"
      using ks ne b lt t(3) unfolding buckets_ok_def
      by (intro conjI exI [of _ "ks @ [b]"]) (auto simp: b_def sorted_wrt_append)
    ultimately show ?thesis using stream_new_bucket [OF b] by simp
  qed
qed

lemma sort_num_sorted:
  assumes "map fst bs = map (\<lambda>k. Fin (of_int k)) ks" "sorted_wrt (<) ks"
  shows "sort_num fst bs = bs"
proof -
  have "map (\<lambda>x. case fst x of Fin t \<Rightarrow> t | _ \<Rightarrow> 0) bs = map (\<lambda>x. case x of Fin t \<Rightarrow> t | _ \<Rightarrow> 0) (map fst bs)" by simp
  also have "\<dots> = map of_int ks" unfolding assms(1) by simp
  finally have "sorted (map (\<lambda>x. case fst x of Fin t \<Rightarrow> t | _ \<Rightarrow> 0) bs)"
    using assms(2) by (simp add: sorted_map sorted_wrt_mono_rel [of ks "(<)"])
  then show ?thesis by (simp add: sort_num_def sort_key_id_if_sorted)
qed

lemma stream_buckets:
  assumes "interval_ok n" "stream_ok h"
  shows "buckets_ok n h (fold (add_to_bucket (Fin (of_int n))) h [])
    \<and> stream_candles h (Fin (of_int n)) = map candle_of_bucket (fold (add_to_bucket (Fin (of_int n))) h [])"
  using assms(2)
proof (induction h rule: rev_induct)
  case Nil
  show ?case by (simp add: buckets_ok_def stream_candles_def)
next
  case (snoc pt h)
  then have "stream_ok h" by (simp add: stream_ok_def times_of_def sorted_append)
  with snoc.IH streaming_step [OF assms(1) _ snoc.prems] show ?case
    by (simp add: stream_candles_def)
qed

subsection \<open>Candles from the endpoint\<close>

definition open_ok :: "history_outcome \<Rightarrow> bool" where
  "open_ok oc = (case out_open oc of None \<Rightarrow> True | Some s \<Rightarrow> is_finite_num (string_to_number s))"

definition candle_ok :: "OHLCPoint \<Rightarrow> bool" where
  "candle_ok c \<longleftrightarrow>
     is_finite_num (time c) \<and> is_finite_num (o_low c) \<and> is_finite_num (o_high c)
     \<and> js_le (o_low c) (o_open c) \<and> js_le (o_low c) (o_close c)
     \<and> js_le (o_open c) (o_high c) \<and> js_le (o_close c) (o_high c)"

lemma pick_outcome_set: "pick_outcome i os = Some oc \<Longrightarrow> oc \<in> set os"
  by (auto simp: pick_outcome_def or_else_def js_first_def find_Some_iff split: option.splits if_splits list.splits)

lemma finite_numE: "is_finite_num x \<Longrightarrow> (\<And>q. x = Fin q \<Longrightarrow> P) \<Longrightarrow> P"
  by (cases x) (auto simp: is_finite_num_def)

lemma wick_range:
  "is_finite_num high \<Longrightarrow> js_max [high, Fin a, Fin b] = Fin (max (max (case high of Fin h \<Rightarrow> h | _ \<Rightarrow> 0) a) b)"
  "js_max [Fin a, Fin b] = Fin (max a b)"
  "is_finite_num low \<Longrightarrow> js_min [low, Fin a, Fin b] = Fin (min (min (case low of Fin l \<Rightarrow> l | _ \<Rightarrow> 0) a) b)"
  "js_min [Fin a, Fin b] = Fin (min a b)"
  by (auto elim!: finite_numE simp: js_max_def js_max2_def js_min_def js_min2_def max_def min_def)

lemma candle_wellformed:
  assumes "candle d i p = Some c" "\<forall>oc \<in> set (outcomes p). open_ok oc"
  shows "candle_ok c"
proof -
  obtain oc where oc: "pick_outcome i (outcomes p) = Some oc"
    using assms(1) by (auto simp: candle_def split: option.splits)
  then have open_fin: "open_ok oc" using pick_outcome_set assms(2) by blast
  define cl where "cl = string_to_number (get_or (out_close oc) (out_price oc))"
  have "is_finite_num cl" "is_finite_num (js_floor (js_div (d (timestamp p)) (Fin 1000)))"
    using assms(1) oc by (auto simp: candle_def cl_def Let_def split: if_splits)
  moreover have "is_finite_num (number_or (out_open oc) cl)"
    using open_fin \<open>is_finite_num cl\<close> by (auto simp: open_ok_def number_or_def split: option.splits)
  ultimately obtain a b where "cl = Fin b" "number_or (out_open oc) cl = Fin a" by (elim finite_numE)
  then show ?thesis
    using assms(1) oc \<open>is_finite_num (js_floor _)\<close>
    by (auto simp: candle_def Let_def cl_def [symmetric] candle_ok_def js_le_def js_eq_def wick_range is_finite_num_def
        split: if_splits)
qed

lemma bad_open: "string_to_number ''n/a'' = NaN"
  by (simp add: string_to_number_def js_trim_def is_js_space_def starts_with_def take_sign_def parse_unsigned_def
      is_exp_char_def parse_mantissa_def is_digits_def is_digit_char_def Let_def)

lemma whole_number: "string_to_number ''1'' = Fin 1"
  using is_double_of_int [of 1]
  by (simp add: string_to_number_def js_trim_def is_js_space_def starts_with_def take_sign_def parse_unsigned_def
      is_exp_char_def parse_mantissa_def is_digits_def is_digit_char_def Let_def value_of_digits_def digit_val_def)

text \<open>A bucket with a malformed opening price.\<close>

definition bad_bucket :: history_bucket where
  "bad_bucket = \<lparr>timestamp = [], outcomes = [\<lparr>out_id = ''a'', out_name = ''Yes'', out_price = ''1'', out_open = Some ''n/a'',
     out_high = Some ''1'', out_low = None, out_close = None\<rparr>], total_volume = ''1''\<rparr>"

lemma bad_bucket_high: "map o_high (buildCandles (\<lambda>_. Fin 0) [bad_bucket] None) = [NaN]"
  using is_double_of_int [of 0]
  by (simp add: buildCandles_def map_filter_def candle_def pick_outcome_def or_else_def js_first_def number_or_def
      is_finite_num_def sort_num_def bad_bucket_def get_or_def whole_number bad_open js_max_def js_max2_def Let_def)

subsection \<open>Properties\<close>

text \<open>
  C39. Streaming equals batch. For every ordered stream of prices and every candle width up to a day,
  feeding the prices one at a time to \<open>addPriceToOHLC\<close> gives the candles \<open>priceToOHLC\<close> computes from
  the whole stream, with the rounding of the bucket arithmetic included.
\<close>

theorem streaming_candles_equal_batch:
  assumes "interval_ok n" "stream_ok history"
  shows "stream_candles history (Fin (of_int n)) = priceToOHLC history (Fin (of_int n))"
proof -
  let ?bs = "fold (add_to_bucket (Fin (of_int n))) history []"
  have b: "buckets_ok n history ?bs" and s: "stream_candles history (Fin (of_int n)) = map candle_of_bucket ?bs"
    using stream_buckets [OF assms] by simp_all
  from b have "sort_num fst ?bs = ?bs" unfolding buckets_ok_def using sort_num_sorted by blast
  with s show ?thesis by (simp add: priceToOHLC_def)
qed

theorem streaming_candles_equal_batch_witness:
  "stream_candles [\<lparr>pt_time = Fin 30, pt_value = Fin 1\<rparr>, \<lparr>pt_time = Fin 70, pt_value = NaN\<rparr>] (Fin (of_int 60))
    = priceToOHLC [\<lparr>pt_time = Fin 30, pt_value = Fin 1\<rparr>, \<lparr>pt_time = Fin 70, pt_value = NaN\<rparr>] (Fin (of_int 60))"
  by (rule streaming_candles_equal_batch) (simp_all add: interval_ok_def stream_ok_def times_of_def time_ok_def)

text \<open>
  Endpoint candles. If every opening price the endpoint gives is a number, each candle has finite
  prices with the body inside the wick, and the candles are in order of time. A malformed opening
  price breaks this: the high and the low of that candle are \<open>NaN\<close>.
\<close>

theorem endpoint_candles_wellformed:
  assumes "\<forall>p \<in> set points. \<forall>oc \<in> set (outcomes p). open_ok oc"
  shows "list_all candle_ok (buildCandles d points i)
    \<and> sorted (map (\<lambda>c. case time c of Fin t \<Rightarrow> t | _ \<Rightarrow> 0) (buildCandles d points i))
    \<and> map o_high (buildCandles (\<lambda>_. Fin 0) [bad_bucket] None) = [NaN]"
proof (intro conjI)
  show "list_all candle_ok (buildCandles d points i)"
    using assms candle_wellformed by (fastforce simp: buildCandles_def sort_num_def list_all_iff map_filter_def)
  show "sorted (map (\<lambda>c. case time c of Fin t \<Rightarrow> t | _ \<Rightarrow> 0) (buildCandles d points i))"
    by (simp add: buildCandles_def sort_num_def)
  show "map o_high (buildCandles (\<lambda>_. Fin 0) [bad_bucket] None) = [NaN]" by (rule bad_bucket_high)
qed

theorem endpoint_candles_wellformed_witness:
  "list_all candle_ok (buildCandles (\<lambda>_. Fin 0)
    [\<lparr>timestamp = [], outcomes = [\<lparr>out_id = ''a'', out_name = ''Yes'', out_price = ''1'', out_open = Some ''1'',
       out_high = Some ''n/a'', out_low = None, out_close = None\<rparr>], total_volume = ''1''\<rparr>] None)"
  using endpoint_candles_wellformed
    [of "[\<lparr>timestamp = [], outcomes = [\<lparr>out_id = ''a'', out_name = ''Yes'', out_price = ''1'', out_open = Some ''1'',
       out_high = Some ''n/a'', out_low = None, out_close = None\<rparr>], total_volume = ''1''\<rparr>]" "\<lambda>_. Fin 0" None]
  by (simp add: open_ok_def whole_number is_finite_num_def)

end
