(* ===== verification/Realtime_Prefs.thy ===== *)
theory Realtime_Prefs
  imports JS_Value
begin

text \<open>
  How live prices are shown and spoken: \<^verbatim>\<open>apps/web/lib/realtime-prefs.tsx\<close> (preferences and the
  significance rule), \<^verbatim>\<open>price-announcer.tsx\<close> (the coalescing announcer), \<^verbatim>\<open>use-price-tick.ts\<close>
  (the flash of a card) and \<^verbatim>\<open>outcome-colors.ts\<close>.

  Preferences in local storage are the partial record the provider writes, or a value that is not
  one; that \<open>JSON.parse\<close> undoes \<open>JSON.stringify\<close> on such a record is taken from the language. Market ids are not
  array indices, so the entries of the announcer's objects keep their insertion order.
\<close>

subsection \<open>Preferences\<close>

datatype MotionMode = MotionOff | MotionSignificant | MotionAll

datatype SignificanceRule = RuleDisplay | RuleAbsolute | RuleRelative

record RealtimePrefs =
  motion :: MotionMode
  rule :: SignificanceRule
  absolute :: jsnum
  relative :: jsnum
  showLiveBadge :: bool
  showActiveTint :: bool
  announcePrices :: bool
  announceIntervalMs :: jsnum

definition DEFAULT_PREFS :: RealtimePrefs where
  "DEFAULT_PREFS =
     \<lparr>motion = MotionSignificant, rule = RuleDisplay, absolute = of_rat_js (1 / 100), relative = of_rat_js (2 / 100),
      showLiveBadge = True, showActiveTint = True, announcePrices = False, announceIntervalMs = Fin 2000\<rparr>"

definition displayedPercent :: "jsnum \<Rightarrow> jsnum" where
  "displayedPercent price = js_round (js_mul price (Fin 100))"

definition isSignificant :: "jsnum \<Rightarrow> jsnum \<Rightarrow> SignificanceRule \<Rightarrow> jsnum \<Rightarrow> jsnum \<Rightarrow> bool" where
  "isSignificant from to r abso rel =
     (if \<not> is_finite_num from \<or> \<not> is_finite_num to then False
      else
        (let delta = js_abs (js_sub to from) in
         if js_eq delta (Fin 0) then False
         else (case r of
                 RuleAbsolute \<Rightarrow> js_le abso delta
               | RuleRelative \<Rightarrow> \<not> js_eq from (Fin 0) \<and> js_le rel (js_div delta (js_abs from))
               | RuleDisplay \<Rightarrow> \<not> js_eq (displayedPercent from) (displayedPercent to))))"

definition significant_default :: "jsnum \<Rightarrow> jsnum \<Rightarrow> bool" where
  "significant_default from to =
     isSignificant from to (rule DEFAULT_PREFS) (absolute DEFAULT_PREFS) (relative DEFAULT_PREFS)"

text \<open>\<open>Partial<RealtimePrefs>\<close>\<close>

record stored_prefs =
  s_motion :: "MotionMode option"
  s_rule :: "SignificanceRule option"
  s_absolute :: "jsnum option"
  s_relative :: "jsnum option"
  s_showLiveBadge :: "bool option"
  s_showActiveTint :: "bool option"
  s_announcePrices :: "bool option"
  s_announceIntervalMs :: "jsnum option"

definition no_prefs :: stored_prefs where
  "no_prefs = \<lparr>s_motion = None, s_rule = None, s_absolute = None, s_relative = None, s_showLiveBadge = None,
     s_showActiveTint = None, s_announcePrices = None, s_announceIntervalMs = None\<rparr>"

text \<open>What \<open>localStorage\<close> gives: nothing or no access, text that does not parse, the text of
  a record, or the text \<open>null\<close>.\<close>

datatype storage = Absent | Corrupt | Saved stored_prefs | SavedNull

text \<open>\<open>readStored\<close> and the initial state of \<open>motionOverride\<close>, \<open>stored.motion ?? null\<close>:
  \<open>None\<close> is the \<open>TypeError\<close> of reading a property of \<open>null\<close>.\<close>

definition readStored :: "storage \<Rightarrow> stored_prefs option" where
  "readStored st = (case st of Saved p \<Rightarrow> Some p | SavedNull \<Rightarrow> None | _ \<Rightarrow> Some no_prefs)"

record prefs_state =
  stored :: stored_prefs
  motionOverride :: "MotionMode option"
  systemReducedMotion :: bool
  saved :: storage

definition mount_prefs :: "storage \<Rightarrow> bool \<Rightarrow> prefs_state option" where
  "mount_prefs st reduced =
     map_option (\<lambda>p. \<lparr>stored = p, motionOverride = s_motion p, systemReducedMotion = reduced, saved = st\<rparr>) (readStored st)"

datatype pref_value =
    PMotion MotionMode | PRule SignificanceRule | PAbsolute jsnum | PRelative jsnum
  | PShowLiveBadge bool | PShowActiveTint bool | PAnnouncePrices bool | PAnnounceIntervalMs jsnum

fun set_key :: "pref_value \<Rightarrow> stored_prefs \<Rightarrow> stored_prefs" where
  "set_key (PMotion v) p = p\<lparr>s_motion := Some v\<rparr>"
| "set_key (PRule v) p = p\<lparr>s_rule := Some v\<rparr>"
| "set_key (PAbsolute v) p = p\<lparr>s_absolute := Some v\<rparr>"
| "set_key (PRelative v) p = p\<lparr>s_relative := Some v\<rparr>"
| "set_key (PShowLiveBadge v) p = p\<lparr>s_showLiveBadge := Some v\<rparr>"
| "set_key (PShowActiveTint v) p = p\<lparr>s_showActiveTint := Some v\<rparr>"
| "set_key (PAnnouncePrices v) p = p\<lparr>s_announcePrices := Some v\<rparr>"
| "set_key (PAnnounceIntervalMs v) p = p\<lparr>s_announceIntervalMs := Some v\<rparr>"

text \<open>\<open>persist\<close>: storage that refuses the write is left as it was.\<close>

definition persist :: "bool \<Rightarrow> stored_prefs \<Rightarrow> prefs_state \<Rightarrow> prefs_state" where
  "persist writable p st = (if writable then st\<lparr>saved := Saved p\<rparr> else st)"

definition set_pref :: "bool \<Rightarrow> pref_value \<Rightarrow> prefs_state \<Rightarrow> prefs_state" where
  "set_pref writable v st =
     (let p = set_key v (stored st) in persist writable p (st\<lparr>stored := p\<rparr>))"

definition setMotion :: "bool \<Rightarrow> MotionMode option \<Rightarrow> prefs_state \<Rightarrow> prefs_state" where
  "setMotion writable mode st =
     (let p = (stored st)\<lparr>s_motion := mode\<rparr>
      in persist writable p (st\<lparr>motionOverride := mode, stored := p\<rparr>))"

definition reset :: "bool \<Rightarrow> prefs_state \<Rightarrow> prefs_state" where
  "reset writable st =
     st\<lparr>stored := no_prefs, motionOverride := None, saved := (if writable then Absent else saved st)\<rparr>"

definition system_motion :: "bool \<Rightarrow> prefs_state \<Rightarrow> prefs_state" where
  "system_motion reduced st = st\<lparr>systemReducedMotion := reduced\<rparr>"

definition prefs_of :: "prefs_state \<Rightarrow> RealtimePrefs" where
  "prefs_of st =
     (let p = stored st; d = DEFAULT_PREFS;
          merged = \<lparr>motion = get_or (s_motion p) (motion d), rule = get_or (s_rule p) (rule d),
            absolute = get_or (s_absolute p) (absolute d), relative = get_or (s_relative p) (relative d),
            showLiveBadge = get_or (s_showLiveBadge p) (showLiveBadge d),
            showActiveTint = get_or (s_showActiveTint p) (showActiveTint d),
            announcePrices = get_or (s_announcePrices p) (announcePrices d),
            announceIntervalMs = get_or (s_announceIntervalMs p) (announceIntervalMs d)\<rparr>
      in case motionOverride st of
           Some m \<Rightarrow> merged\<lparr>motion := m\<rparr>
         | None \<Rightarrow> if systemReducedMotion st then merged\<lparr>motion := MotionOff\<rparr> else merged)"

subsection \<open>The announcer\<close>

record PriceChange =
  marketId :: string
  outcome :: string
  from_price :: jsnum
  to_price :: jsnum
  arrived :: int

record AnnouncerState =
  announced :: "(string \<times> jsnum) list"
  pending :: "(string \<times> PriceChange) list"

definition EMPTY_STATE :: AnnouncerState where
  "EMPTY_STATE = \<lparr>announced = [], pending = []\<rparr>"

definition stagePriceChange :: "AnnouncerState \<Rightarrow> PriceChange \<Rightarrow> AnnouncerState" where
  "stagePriceChange st change =
     (let m = marketId change;
          from = (case map_of (pending st) m of
                    Some e \<Rightarrow> from_price e
                  | None \<Rightarrow> get_or (map_of (announced st) m) (from_price change))
      in \<lparr>announced = announced st, pending = map_set m (change\<lparr>from_price := from\<rparr>) (pending st)\<rparr>)"

definition formatPriceChange :: "PriceChange \<Rightarrow> string" where
  "formatPriceChange change =
     (let from = displayedPercent (from_price change); to = displayedPercent (to_price change) in
      if js_eq from to then outcome change @ '' '' @ num_to_string to @ ''%''
      else outcome change @ '' '' @ num_to_string to @ ''%, '' @
           (if js_lt from to then ''up from'' else ''down from'') @ '' '' @ num_to_string from @ ''%'')"

definition speakable :: "(jsnum \<Rightarrow> jsnum \<Rightarrow> bool) \<Rightarrow> PriceChange \<Rightarrow> bool" where
  "speakable significant change \<longleftrightarrow>
     \<not> js_eq (from_price change) (to_price change) \<and> significant (from_price change) (to_price change)"

text \<open>The loop over the entries, with the messages and the copy of \<open>announced\<close> it builds.\<close>

definition flush_entry ::
  "(jsnum \<Rightarrow> jsnum \<Rightarrow> bool) \<Rightarrow> string \<times> PriceChange \<Rightarrow> string list \<times> (string \<times> jsnum) list \<Rightarrow> string list \<times> (string \<times> jsnum) list" where
  "flush_entry significant e acc =
     (if js_eq (from_price (snd e)) (to_price (snd e)) then acc
      else if \<not> significant (from_price (snd e)) (to_price (snd e)) then acc
      else (fst acc @ [formatPriceChange (snd e)], map_set (fst e) (to_price (snd e)) (snd acc)))"

definition flushAnnouncements :: "(jsnum \<Rightarrow> jsnum \<Rightarrow> bool) \<Rightarrow> AnnouncerState \<Rightarrow> AnnouncerState \<times> string list" where
  "flushAnnouncements significant st =
     (let (messages, ann) = fold (flush_entry significant) (pending st) ([], announced st)
      in (\<lparr>announced = ann, pending = []\<rparr>, messages))"

subsection \<open>The provider of the announcer\<close>

text \<open>The live region: what it says, the messages whose timeout of 50 ms is running, and whether
  a flush is scheduled.\<close>

record announcer =
  state_ref :: AnnouncerState
  timer_set :: bool
  region :: string
  next_region :: "string list"

definition announce :: "bool \<Rightarrow> PriceChange \<Rightarrow> announcer \<Rightarrow> announcer" where
  "announce isEnabled change a =
     (if \<not> isEnabled then a
      else a\<lparr>state_ref := stagePriceChange (state_ref a) change, timer_set := True\<rparr>)"

definition fire_flush :: "(jsnum \<Rightarrow> jsnum \<Rightarrow> bool) \<Rightarrow> announcer \<Rightarrow> announcer" where
  "fire_flush significant a =
     (let (st, messages) = flushAnnouncements significant (state_ref a);
          a1 = a\<lparr>timer_set := False, state_ref := st\<rparr>
      in if messages = [] then a1 else a1\<lparr>region := [], next_region := next_region a1 @ [js_join ''. '' messages]\<rparr>)"

definition fire_region :: "announcer \<Rightarrow> announcer" where
  "fire_region a = (case next_region a of [] \<Rightarrow> a | s # rest \<Rightarrow> a\<lparr>region := s, next_region := rest\<rparr>)"

subsection \<open>The flash of a card\<close>

record price_tick =
  direction :: int
  tick_at :: nat
  active :: bool
  seen :: "rat option"
  seq :: nat

definition ACTIVE_WINDOW_MS :: int where "ACTIVE_WINDOW_MS = 4000"

definition initial_tick :: price_tick where
  "initial_tick = \<lparr>direction = 0, tick_at = 0, active = False, seen = None, seq = 0\<rparr>"

definition usePriceTick :: "RealtimePrefs \<Rightarrow> jsnum option \<Rightarrow> price_tick \<Rightarrow> price_tick" where
  "usePriceTick prefs price t =
     (case price of
        Some (Fin p) \<Rightarrow>
          (case seen t of
             None \<Rightarrow> t\<lparr>seen := Some p\<rparr>
           | Some prev \<Rightarrow>
               (let t1 = t\<lparr>seen := Some p\<rparr>;
                    worthShowing = (motion prefs = MotionAll
                      \<or> motion prefs = MotionSignificant
                        \<and> isSignificant (Fin prev) (Fin p) (rule prefs) (absolute prefs) (relative prefs))
                in if worthShowing
                   then t1\<lparr>seq := Suc (seq t), direction := (if prev < p then 1 else - 1), tick_at := Suc (seq t), active := True\<rparr>
                   else t1))
      | _ \<Rightarrow> t)"

definition tick_expires :: "price_tick \<Rightarrow> price_tick" where
  "tick_expires t = (if active t then t\<lparr>active := False\<rparr> else t)"

definition tickColor :: "int \<Rightarrow> string option" where
  "tickColor d =
     (if d = 1 then Some ''text-emerald-600 dark:text-emerald-400''
      else if d = - 1 then Some ''text-rose-600 dark:text-rose-400'' else None)"

subsection \<open>Colours of outcomes\<close>

definition OUTCOME_CHART_COLORS :: "string list" where
  "OUTCOME_CHART_COLORS =
     [''var(--outcome-1)'', ''var(--outcome-2)'', ''var(--outcome-3)'', ''var(--outcome-4)'',
      ''var(--outcome-5)'', ''var(--outcome-6)'', ''var(--outcome-7)'', ''var(--outcome-8)'']"

definition MAX_PLOTTED_OUTCOMES :: nat where "MAX_PLOTTED_OUTCOMES = 4"

definition outcomeColor :: "jsnum \<Rightarrow> string" where
  "outcomeColor index =
     (case index of
        Fin i \<Rightarrow> if i < 0 then OUTCOME_CHART_COLORS ! 0
                 else OUTCOME_CHART_COLORS ! (nat \<lfloor>i\<rfloor> mod length OUTCOME_CHART_COLORS)
      | _ \<Rightarrow> OUTCOME_CHART_COLORS ! 0)"

definition plottedOutcomeColors :: "string list \<Rightarrow> (string \<times> string) list" where
  "plottedOutcomeColors names =
     map (\<lambda>(name, i). (name, outcomeColor (Fin (of_nat i)))) (zip (take MAX_PLOTTED_OUTCOMES names) [0..<MAX_PLOTTED_OUTCOMES])"

subsection \<open>Coalescing\<close>

definition changes_of :: "string \<Rightarrow> PriceChange list \<Rightarrow> PriceChange list" where
  "changes_of m cs = filter (\<lambda>c. marketId c = m) cs"

text \<open>What a run of changes amounts to for one market: from the price last announced, or where
  the first change started if none was, to where the last one went.\<close>

definition total_move :: "AnnouncerState \<Rightarrow> string \<Rightarrow> PriceChange list \<Rightarrow> PriceChange option" where
  "total_move st m cs =
     (case changes_of m cs of
        [] \<Rightarrow> None
      | c # _ \<Rightarrow> Some ((last (changes_of m cs))\<lparr>from_price := get_or (map_of (announced st) m) (from_price c)\<rparr>))"

lemma announced_staged: "announced (foldl stagePriceChange st cs) = announced st"
  by (induction cs arbitrary: st) (simp_all add: stagePriceChange_def Let_def)

lemma changes_of_snoc: "changes_of m (cs @ [c]) = changes_of m cs @ (if marketId c = m then [c] else [])"
  by (simp add: changes_of_def)

lemma total_move_snoc:
  "total_move st m (cs @ [c]) =
     (if marketId c = m
      then Some (c\<lparr>from_price := (case total_move st m cs of Some e \<Rightarrow> from_price e
                   | None \<Rightarrow> get_or (map_of (announced st) m) (from_price c))\<rparr>)
      else total_move st m cs)"
  by (cases "changes_of m cs") (auto simp: total_move_def changes_of_snoc)

lemma staged_total:
  assumes "pending st = []"
  shows "map_of (pending (foldl stagePriceChange st cs)) m = total_move st m cs"
proof (induction cs arbitrary: m rule: rev_induct)
  case Nil
  show ?case by (simp add: assms total_move_def changes_of_def)
next
  case (snoc c cs)
  then show ?case
    by (auto simp: stagePriceChange_def [of "foldl stagePriceChange st cs" c] Let_def map_of_set total_move_snoc
        announced_staged split: option.splits)
qed

lemma staged_distinct: "distinct (map fst (pending st)) \<Longrightarrow> distinct (map fst (pending (foldl stagePriceChange st cs)))"
  by (induction cs arbitrary: st) (simp_all add: stagePriceChange_def Let_def distinct_update)

lemma flush_loop:
  "fold (flush_entry sig) es (ms, ann) =
     (ms @ map formatPriceChange (filter (speakable sig) (map snd es)),
      fold (\<lambda>e. map_set (fst e) (to_price (snd e))) (filter (\<lambda>e. speakable sig (snd e)) es) ann)"
  by (induction es arbitrary: ms ann) (auto simp: flush_entry_def speakable_def)

lemma fold_map_set:
  "distinct (map fst es) \<Longrightarrow>
    map_of (fold (\<lambda>e. map_set (fst e) (f (snd e))) es ann) m
      = (case map_of es m of Some v \<Rightarrow> Some (f v) | None \<Rightarrow> map_of ann m)"
proof (induction es arbitrary: ann)
  case (Cons e es)
  have "map_of es (fst e) = None" using Cons.prems by (simp add: map_of_eq_None_iff)
  then show ?case using Cons by (auto simp: map_of_set split: option.splits)
qed simp

lemma map_of_filter_snd:
  "distinct (map fst es) \<Longrightarrow>
    map_of (filter (\<lambda>e. P (snd e)) es) m = (case map_of es m of Some v \<Rightarrow> if P v then Some v else None | None \<Rightarrow> None)"
  by (induction es) (auto simp: map_of_eq_None_iff split: option.splits)

subsection \<open>Further facts\<close>

text \<open>The motion a card gets: the user's choice, else the system's request, else what is stored.\<close>

lemma motion_resolution:
  "motion (prefs_of st) =
     (case motionOverride st of Some m \<Rightarrow> m
      | None \<Rightarrow> if systemReducedMotion st then MotionOff else get_or (s_motion (stored st)) MotionSignificant)"
  by (auto simp: prefs_of_def Let_def DEFAULT_PREFS_def split: option.splits)

text \<open>A choice of motion survives a reload of the page; a cleared preference is the default again.\<close>

lemma motion_survives_reload:
  "mount_prefs (saved (setMotion True mode st)) reduced
    = Some \<lparr>stored = stored (setMotion True mode st), motionOverride = mode, systemReducedMotion = reduced,
            saved = saved (setMotion True mode st)\<rparr>"
  by (simp add: mount_prefs_def readStored_def setMotion_def persist_def Let_def)

lemma reset_reload: "map_option prefs_of (mount_prefs (saved (reset True st)) False) = Some DEFAULT_PREFS"
  by (simp add: mount_prefs_def readStored_def reset_def prefs_of_def Let_def no_prefs_def get_or_def)

lemma stored_null_crashes: "mount_prefs SavedNull reduced = None"
  by (simp add: mount_prefs_def readStored_def)

text \<open>The key of the flash never repeats: it grows with every shown move and only then.\<close>

lemma tick_key_grows:
  assumes "tick_at t = seq t"
  shows "tick_at (usePriceTick prefs price t) = seq (usePriceTick prefs price t)"
    "tick_at t \<le> tick_at (usePriceTick prefs price t)"
    "tick_at (usePriceTick prefs price t) = tick_at t \<longrightarrow> direction (usePriceTick prefs price t) = direction t"
  using assms by (auto simp: usePriceTick_def Let_def split: option.splits jsnum.splits)

lemma outcomeColor_defined: "outcomeColor index \<in> set OUTCOME_CHART_COLORS"
proof -
  have "nat \<lfloor>i\<rfloor> mod length OUTCOME_CHART_COLORS < length OUTCOME_CHART_COLORS" for i :: rat
    by (simp add: OUTCOME_CHART_COLORS_def)
  moreover have "0 < length OUTCOME_CHART_COLORS" by (simp add: OUTCOME_CHART_COLORS_def)
  ultimately show ?thesis by (auto simp: outcomeColor_def split: jsnum.splits)
qed

text \<open>The outcomes a chart draws get different colours.\<close>

lemma plotted_colours_distinct: "distinct (map snd (plottedOutcomeColors names))"
proof -
  let ?n = "min (length names) MAX_PLOTTED_OUTCOMES"
  have c: "outcomeColor (Fin (of_nat i)) = OUTCOME_CHART_COLORS ! i" if "i < 4" for i
    using that by (simp add: outcomeColor_def OUTCOME_CHART_COLORS_def)
  have len: "length (plottedOutcomeColors names) = ?n" by (simp add: plottedOutcomeColors_def)
  have "map snd (plottedOutcomeColors names) = take ?n OUTCOME_CHART_COLORS"
  proof (rule nth_equalityI)
    show "length (map snd (plottedOutcomeColors names)) = length (take ?n OUTCOME_CHART_COLORS)"
      by (simp add: len OUTCOME_CHART_COLORS_def MAX_PLOTTED_OUTCOMES_def)
    show "map snd (plottedOutcomeColors names) ! i = take ?n OUTCOME_CHART_COLORS ! i"
      if "i < length (map snd (plottedOutcomeColors names))" for i
      using that c [of i] by (simp add: len plottedOutcomeColors_def split_beta MAX_PLOTTED_OUTCOMES_def)
  qed
  then show ?thesis by (simp add: distinct_take OUTCOME_CHART_COLORS_def)
qed

subsection \<open>Properties\<close>

text \<open>
  One announcement per market and window, about the total move. Whatever changes arrive, in
  whatever interleaving, after a flush: for each market exactly one entry is judged, the move from
  the price last announced (or where the first change started) to the newest price; the messages
  are those of the moves that are not zero and significant; nothing stays pending; and the
  baseline of a market advances exactly when it was spoken.
\<close>

theorem announcer_coalesces:
  assumes "pending st = []" "flushAnnouncements sig (foldl stagePriceChange st cs) = (st', messages)"
  shows "(\<forall>m. map_of (pending (foldl stagePriceChange st cs)) m = total_move st m cs)
    \<and> distinct (map fst (pending (foldl stagePriceChange st cs)))
    \<and> messages = map formatPriceChange (filter (speakable sig) (map snd (pending (foldl stagePriceChange st cs))))
    \<and> pending st' = []
    \<and> (\<forall>m. map_of (announced st') m =
        (case total_move st m cs of
           Some c \<Rightarrow> if speakable sig c then Some (to_price c) else map_of (announced st) m
         | None \<Rightarrow> map_of (announced st) m))"
proof -
  let ?p = "pending (foldl stagePriceChange st cs)"
  have total: "map_of ?p m = total_move st m cs" for m by (rule staged_total [OF assms(1)])
  have dist: "distinct (map fst ?p)" using staged_distinct assms(1) by simp
  have st': "st' = \<lparr>announced = fold (\<lambda>e. map_set (fst e) (to_price (snd e))) (filter (\<lambda>e. speakable sig (snd e)) ?p) (announced st),
      pending = []\<rparr>" "messages = map formatPriceChange (filter (speakable sig) (map snd ?p))"
    using assms(2) by (simp_all add: flushAnnouncements_def flush_loop announced_staged)
  have "distinct (map fst (filter (\<lambda>e. speakable sig (snd e)) ?p))" using dist by (simp add: distinct_map_filter)
  from fold_map_set [OF this, of to_price "announced st"]
  have "map_of (announced st') m = (case total_move st m cs of
      Some c \<Rightarrow> if speakable sig c then Some (to_price c) else map_of (announced st) m | None \<Rightarrow> map_of (announced st) m)" for m
    by (auto simp: st'(1) map_of_filter_snd [OF dist, of "speakable sig"] total split: option.splits)
  then show ?thesis using total dist st' by simp
qed

definition sample_change :: "string \<Rightarrow> rat \<Rightarrow> rat \<Rightarrow> PriceChange" where
  "sample_change m a b = \<lparr>marketId = m, outcome = ''Yes'', from_price = Fin a, to_price = Fin b, arrived = 0\<rparr>"

theorem announcer_coalesces_witness:
  "map_of (announced (fst (flushAnnouncements (\<lambda>_ _. True)
      (foldl stagePriceChange EMPTY_STATE [sample_change ''m'' 0 1, sample_change ''n'' 5 5, sample_change ''m'' 1 2])))) ''m''
    = Some (Fin 2)"
proof -
  let ?cs = "[sample_change ''m'' 0 1, sample_change ''n'' 5 5, sample_change ''m'' 1 2]"
  obtain st' ms where f: "flushAnnouncements (\<lambda>_ _. True) (foldl stagePriceChange EMPTY_STATE ?cs) = (st', ms)"
    by (rule prod.exhaust)
  have e: "pending EMPTY_STATE = []" by (simp add: EMPTY_STATE_def)
  have "map_of (announced st') ''m'' = (case total_move EMPTY_STATE ''m'' ?cs of
      Some c \<Rightarrow> if speakable (\<lambda>_ _. True) c then Some (to_price c) else map_of (announced EMPTY_STATE) ''m''
    | None \<Rightarrow> map_of (announced EMPTY_STATE) ''m'')"
    using announcer_coalesces [OF e f] by simp
  then show ?thesis unfolding f
    by (simp add: total_move_def changes_of_def sample_change_def EMPTY_STATE_def get_or_def speakable_def js_eq_def)
qed

end
