(* ===== verification/Step_Up.thy ===== *)
theory Step_Up
  imports Api_Errors
begin

text \<open>
  Privileged actions of the admin app: \<^verbatim>\<open>apps/admin/hooks/use-step-up.ts\<close>, the credential fields of
  \<^verbatim>\<open>apps/admin/components/step-up-prompt.tsx\<close>, and the two plain checks of
  \<^verbatim>\<open>apps/admin/schemas/privileged.ts\<close>.

  An intent is a number (its texts are only displayed). The privileged call of an intent is under
  way from \<open>submit\<close> to its answer; several can be, since cancelling the prompt does not cancel the
  call. React runs the updates of one event before the next event, so an operation reads the state
  the previous one left. Whether the fields validate is the schema library's answer and an argument.
\<close>

record StepUpState =
  intent :: "nat option"
  requiresCode :: bool
  error :: "string option"
  errorCode :: jsval
  pending_call :: bool

definition idle :: StepUpState where
  "idle = \<lparr>intent = None, requiresCode = False, error = None, errorCode = JUndef, pending_call = False\<rparr>"

record step_up =
  state :: StepUpState
  calls_under_way :: "nat list"

definition cancel :: "step_up \<Rightarrow> step_up" where
  "cancel h = h\<lparr>state := idle\<rparr>"

definition begin_intent :: "nat \<Rightarrow> step_up \<Rightarrow> step_up" where
  "begin_intent i h = h\<lparr>state := idle\<lparr>intent := Some i\<rparr>\<rparr>"

text \<open>\<open>submit\<close> up to its \<open>await\<close>.\<close>

definition submit :: "step_up \<Rightarrow> step_up" where
  "submit h =
     (case intent (state h) of
        None \<Rightarrow> h
      | Some i \<Rightarrow>
          if pending_call (state h) then h
          else h\<lparr>state := (state h)\<lparr>pending_call := True, error := None, errorCode := JUndef\<rparr>,
                 calls_under_way := calls_under_way h @ [i]\<rparr>)"

definition step_up_error :: "thrown \<Rightarrow> string" where
  "step_up_error err =
     apiErrorMessage err
       (if apiErrorCode err = JStr ''STEP_UP_2FA_INVALID''
        then ''That code was not accepted. Check your authenticator and try again.''
        else if apiErrorCode err = JStr ''STEP_UP_PASSWORD_INVALID'' then ''That password was not accepted.''
        else ''The action could not be completed.'')"

text \<open>The rest of \<open>submit\<close>, when the call of an intent is answered: \<open>None\<close> is success.\<close>

definition answer :: "nat \<Rightarrow> thrown option \<Rightarrow> step_up \<Rightarrow> step_up" where
  "answer i result h =
     (let h1 = h\<lparr>calls_under_way := remove1 i (calls_under_way h)\<rparr>; s = state h in
      case result of
        None \<Rightarrow> h1\<lparr>state := idle\<rparr>
      | Some err \<Rightarrow>
          if apiErrorCode err = JStr ''STEP_UP_2FA_REQUIRED''
          then h1\<lparr>state := s\<lparr>pending_call := False, requiresCode := True, error := None, errorCode := JUndef\<rparr>\<rparr>
          else h1\<lparr>state := s\<lparr>pending_call := False, error := Some (step_up_error err), errorCode := apiErrorCode err\<rparr>\<rparr>)"

subsection \<open>The prompt\<close>

record prompt =
  password :: string
  code :: string
  seen_open :: bool
  seen_errorCode :: jsval

text \<open>The adjustment during render, for the props the hook passes.\<close>

definition render_prompt :: "StepUpState \<Rightarrow> prompt \<Rightarrow> prompt" where
  "render_prompt s p =
     (let opened = (intent s \<noteq> None) in
      if seen_open p \<noteq> opened \<or> seen_errorCode p \<noteq> errorCode s then
        (let p1 = (if \<not> opened then p\<lparr>password := [], code := []\<rparr>
                   else if errorCode s = JStr ''STEP_UP_PASSWORD_INVALID'' then p\<lparr>password := []\<rparr>
                   else if errorCode s = JStr ''STEP_UP_2FA_INVALID'' then p\<lparr>code := []\<rparr> else p)
         in p1\<lparr>seen_open := opened, seen_errorCode := errorCode s\<rparr>)
      else p)"

text \<open>The credentials the form submits, if it does.\<close>

definition form_submit :: "bool \<Rightarrow> StepUpState \<Rightarrow> prompt \<Rightarrow> (string \<times> string option) option" where
  "form_submit canSubmit s p =
     (if \<not> canSubmit \<or> pending_call s then None
      else Some (password p, if requiresCode s then Some (code p) else None))"

subsection \<open>Plain checks\<close>

datatype Ruling = Upheld | Dismissed

definition validateRuling :: "Ruling \<Rightarrow> string option \<Rightarrow> string option" where
  "validateRuling ruling note =
     (if ruling = Dismissed \<and> js_trim (get_or note []) = []
      then Some ''A dismissal needs a reason. The proposer is not told anything else.'' else None)"

definition canDistribute :: "string option \<Rightarrow> bool" where
  "canDistribute amount =
     (case amount of
        None \<Rightarrow> False
      | Some s \<Rightarrow> \<not> starts_with s ''-'' \<and> s \<noteq> ''0'' \<and> \<not> js_eq (string_to_number s) (Fin 0))"

subsection \<open>The hook as a state machine\<close>

datatype step_up_event = Begin nat | Cancel | Submit | Answered nat "thrown option"

fun step_up_step :: "step_up_event \<Rightarrow> step_up \<Rightarrow> step_up" where
  "step_up_step (Begin i) h = begin_intent i h"
| "step_up_step Cancel h = cancel h"
| "step_up_step Submit h = submit h"
| "step_up_step (Answered i r) h = (if i \<in> set (calls_under_way h) then answer i r h else h)"

definition initial_step_up :: step_up where
  "initial_step_up = \<lparr>state = idle, calls_under_way = []\<rparr>"

text \<open>A code without a message is never shown, a waiting prompt shows no error, and a prompt that
  waits has a call under way.\<close>

definition step_up_inv :: "step_up \<Rightarrow> bool" where
  "step_up_inv h \<longleftrightarrow>
     (errorCode (state h) \<noteq> JUndef \<longrightarrow> error (state h) \<noteq> None)
     \<and> (pending_call (state h) \<longrightarrow> error (state h) = None \<and> intent (state h) \<noteq> None)"

lemma step_up_inv_step: "step_up_inv h \<Longrightarrow> step_up_inv (step_up_step e h)"
  by (cases e)
    (auto simp: step_up_inv_def cancel_def begin_intent_def idle_def submit_def answer_def Let_def split: option.splits)

interpretation su: invariant_system initial_step_up step_up_step step_up_inv
  by unfold_locales (auto simp: step_up_inv_step, simp add: step_up_inv_def initial_step_up_def idle_def)

text \<open>Which fields a render keeps.\<close>

lemma render_closed: "intent s = None \<Longrightarrow> seen_open p \<Longrightarrow> password (render_prompt s p) = [] \<and> code (render_prompt s p) = []"
  by (simp add: render_prompt_def Let_def)

lemma render_code_required:
  "intent s = Some i \<Longrightarrow> seen_open p \<Longrightarrow> errorCode s = JUndef \<Longrightarrow>
    password (render_prompt s p) = password p \<and> code (render_prompt s p) = code p"
  by (simp add: render_prompt_def Let_def)

lemma render_rejected:
  assumes "intent s = Some i" "seen_errorCode p = JUndef"
  shows "errorCode s = JStr ''STEP_UP_2FA_INVALID'' \<Longrightarrow> password (render_prompt s p) = password p \<and> code (render_prompt s p) = []"
    "errorCode s = JStr ''STEP_UP_PASSWORD_INVALID'' \<Longrightarrow> password (render_prompt s p) = [] \<and> code (render_prompt s p) = code p"
  using assms by (simp_all add: render_prompt_def Let_def)

subsection \<open>Property\<close>



end
