(* ===== verification/Trade_Form.thy ===== *)
theory Trade_Form
  imports JS_Value
begin

text \<open>
  The order form, \<^verbatim>\<open>apps/web/components/markets/trade-form.tsx\<close>, without its markup: the component's
  state, the fields of the form library, the quote effect with its debounce and its requests, and
  the payload \<open>onValid\<close> sends.

  The form library keeps the fields and calls \<open>onValid\<close> with them when the schema accepts them;
  an event \<open>Submitted\<close> is such a call. An answer of the quote endpoint is an event too, and may
  arrive for any request that is still out. The quote effect runs after every event that changes
  one of its dependencies. Numbers typed into the form are numbers (\<open>valueAsNumber\<close>), \<open>NaN\<close> where
  the field is empty.
\<close>

datatype side = Buy | Sell

datatype order_type = Market | Limit | FillOrKill

record Outcome =
  outcome_id :: string
  outcome_name :: string

record TradeFormProps =
  marketId :: string
  currentYesPrice :: jsnum
  currentNoPrice :: jsnum
  outcomePrices :: "(string \<times> jsnum) list"
  outcomes :: "Outcome list"
  marketStatus :: string
  marketVersion :: nat
  available_balance :: jsnum

record QuoteResponse =
  price_after :: string
  slippage :: string

record quote_inputs =
  q_market :: string
  q_outcome :: string
  q_side :: side
  q_amount :: jsnum

record PlaceOrderInput =
  market_id :: string
  po_outcome :: string
  po_side :: side
  po_order_type :: order_type
  po_amount :: jsnum
  po_price :: "jsnum option"
  po_post_only :: bool
  po_expires_at :: "string option"
  client_order_id :: nat
  max_slippage :: "jsnum option"
  min_shares_out :: "jsnum option"
  expected_price :: "jsnum option"
  quote_id :: "string option"

record trade_form =
  props :: TradeFormProps
  outcome :: string
  side :: side
  quote :: "QuoteResponse option"
  quoteMeta :: "quote_inputs option"
  tolerance :: jsnum
  clientOrderId :: nat
  f_outcome :: string
  f_side :: side
  f_order_type :: order_type
  f_amount :: jsnum
  f_price :: "jsnum option"
  f_post_only :: bool
  f_expires_at :: "string option"
  debounce :: "quote_inputs option"
  requests_out :: "quote_inputs list"
  submitted :: "PlaceOrderInput list"

definition BLOCKED_STATUS :: string where "BLOCKED_STATUS = ''resolved''"

definition isMultiOutcome :: "TradeFormProps \<Rightarrow> bool" where
  "isMultiOutcome p =
     (if outcomes p = [] then False
      else (let names = map (\<lambda>oc. to_lower (outcome_name oc)) (outcomes p)
            in \<not> (List.member names ''yes'' \<and> List.member names ''no'')))"

text \<open>The first render: state, and the default values of the form library.\<close>

definition mount_form :: "TradeFormProps \<Rightarrow> nat \<Rightarrow> trade_form" where
  "mount_form p uuid =
     \<lparr>props = p,
      outcome = (if isMultiOutcome p
                 then (case outcomes p of [] \<Rightarrow> ''yes'' | oc # _ \<Rightarrow> to_lower (outcome_name oc)) else ''yes''),
      side = Buy, quote = None, quoteMeta = None, tolerance = of_rat_js (2 / 100), clientOrderId = uuid,
      f_outcome = ''yes'', f_side = Buy, f_order_type = Market, f_amount = Fin 0, f_price = None, f_post_only = False,
      f_expires_at = None, debounce = None, requests_out = [], submitted = []\<rparr>"

definition effectivePrice :: "trade_form \<Rightarrow> jsnum" where
  "effectivePrice f =
     (if isMultiOutcome (props f) then get_or (map_of (outcomePrices (props f)) (outcome f)) (Fin 0)
      else if outcome f = ''yes'' then currentYesPrice (props f) else currentNoPrice (props f))"

definition quoteMatchesInputs :: "trade_form \<Rightarrow> bool" where
  "quoteMatchesInputs f =
     (quote f \<noteq> None
      \<and> (case quoteMeta f of
           None \<Rightarrow> False
         | Some q \<Rightarrow> q_market q = marketId (props f) \<and> q_outcome q = outcome f \<and> q_side q = side f
                     \<and> js_eq (q_amount q) (f_amount f)))"

definition quoteVisible :: "trade_form \<Rightarrow> bool" where
  "quoteVisible f \<longleftrightarrow> f_order_type f = Market \<and> quoteMatchesInputs f"

definition displayPrice :: "trade_form \<Rightarrow> numstr" where
  "displayPrice f =
     (if f_order_type f = Limit then Num (get_or (f_price f) (effectivePrice f))
      else (case quote f of
              Some q \<Rightarrow> if quoteVisible f then Str (price_after q) else Num (effectivePrice f)
            | None \<Rightarrow> Num (effectivePrice f)))"

definition truthy_num :: "numstr \<Rightarrow> bool" where
  "truthy_num v = (case v of Num x \<Rightarrow> x \<noteq> Fin 0 \<and> x \<noteq> NaN | Str s \<Rightarrow> s \<noteq> [])"

definition total :: "trade_form \<Rightarrow> jsnum" where
  "total f =
     (if truthy_num (Num (f_amount f)) \<and> truthy_num (displayPrice f)
      then js_mul (f_amount f) (js_Number (displayPrice f)) else Fin 0)"

definition isMarketOpen :: "trade_form \<Rightarrow> bool" where
  "isMarketOpen f \<longleftrightarrow> marketStatus (props f) \<noteq> BLOCKED_STATUS"

definition hasInsufficientBalance :: "trade_form \<Rightarrow> bool" where
  "hasInsufficientBalance f \<longleftrightarrow> side f = Buy \<and> js_lt (available_balance (props f)) (total f)"

definition expectedPrice :: "trade_form \<Rightarrow> numstr" where
  "expectedPrice f =
     (if f_order_type f = Limit then Num (get_or (f_price f) (effectivePrice f))
      else (case quote f of
              Some q \<Rightarrow> if quoteVisible f then Str (price_after q) else Num (effectivePrice f)
            | None \<Rightarrow> Num (effectivePrice f)))"

definition maxSlippageValue :: "trade_form \<Rightarrow> jsnum" where
  "maxSlippageValue f = (if f_order_type f = Limit then Fin 0 else tolerance f)"

subsection \<open>The quote effect\<close>

definition current_inputs :: "trade_form \<Rightarrow> quote_inputs" where
  "current_inputs f =
     \<lparr>q_market = marketId (props f), q_outcome = outcome f, q_side = side f, q_amount = f_amount f\<rparr>"

definition quote_effect :: "trade_form \<Rightarrow> trade_form" where
  "quote_effect f =
     (let f1 = f\<lparr>debounce := None\<rparr> in
      if \<not> truthy_num (Num (f_amount f)) \<or> js_le (f_amount f) (Fin 0) \<or> f_order_type f \<noteq> Market then f1
      else if quoteMatchesInputs f then f1
      else f1\<lparr>debounce := Some (current_inputs f)\<rparr>)"

definition effect_deps :: "trade_form \<Rightarrow> quote_inputs \<times> order_type \<times> bool \<times> nat" where
  "effect_deps f = (current_inputs f, f_order_type f, quoteMatchesInputs f, marketVersion (props f))"

definition fire_debounce :: "trade_form \<Rightarrow> trade_form" where
  "fire_debounce f =
     (case debounce f of
        None \<Rightarrow> f
      | Some q \<Rightarrow> f\<lparr>debounce := None, requests_out := requests_out f @ [q]\<rparr>)"

text \<open>The answer to the request with the inputs \<open>q\<close>; \<open>None\<close> is the \<open>catch\<close>.\<close>

definition quote_answered :: "quote_inputs \<Rightarrow> QuoteResponse option \<Rightarrow> trade_form \<Rightarrow> trade_form" where
  "quote_answered q res f =
     (if q \<notin> set (requests_out f) then f
      else (let f1 = f\<lparr>requests_out := remove1 q (requests_out f)\<rparr>
            in case res of
                 Some r \<Rightarrow> f1\<lparr>quote := Some r, quoteMeta := Some q\<rparr>
               | None \<Rightarrow> f1\<lparr>quote := None, quoteMeta := None\<rparr>))"

definition quote_expires :: "trade_form \<Rightarrow> trade_form" where
  "quote_expires f = (if quote f = None then f else f\<lparr>quote := None, quoteMeta := None\<rparr>)"

subsection \<open>Handlers\<close>

definition handleOutcomeClick :: "string \<Rightarrow> trade_form \<Rightarrow> trade_form" where
  "handleOutcomeClick name f = f\<lparr>outcome := name, f_outcome := name\<rparr>"

definition handleSideClick :: "side \<Rightarrow> trade_form \<Rightarrow> trade_form" where
  "handleSideClick s f = f\<lparr>side := s, f_side := s\<rparr>"

definition handleOrderTypeChange :: "order_type \<Rightarrow> trade_form \<Rightarrow> trade_form" where
  "handleOrderTypeChange v f =
     (let f1 = f\<lparr>f_order_type := v\<rparr> in if v \<noteq> Limit then f1\<lparr>f_post_only := False\<rparr> else f1)"

definition payload_of :: "trade_form \<Rightarrow> PlaceOrderInput" where
  "payload_of f =
     \<lparr>market_id = marketId (props f), po_outcome = f_outcome f, po_side = f_side f, po_order_type = f_order_type f,
      po_amount = f_amount f, po_price = f_price f, po_post_only = f_post_only f,
      po_expires_at = f_expires_at f, client_order_id = clientOrderId f,
      max_slippage = (if js_lt (Fin 0) (maxSlippageValue f) then Some (maxSlippageValue f) else None),
      min_shares_out = None,
      expected_price = (let e = js_Number (expectedPrice f) in if js_lt (Fin 0) e then Some e else None),
      quote_id = None\<rparr>"

definition submit_disabled :: "trade_form \<Rightarrow> bool" where
  "submit_disabled f \<longleftrightarrow> \<not> isMarketOpen f \<or> hasInsufficientBalance f"

definition onValid :: "trade_form \<Rightarrow> trade_form" where
  "onValid f = f\<lparr>submitted := submitted f @ [payload_of f], quote := None, quoteMeta := None\<rparr>"

datatype form_event =
    Props TradeFormProps | OutcomeClicked string | SideClicked side | AmountTyped jsnum | PriceTyped "jsnum option"
  | OrderTypeChosen order_type | PostOnly bool | ExpiryTyped "string option" | ToleranceMoved jsnum | DebounceFired
  | QuoteAnswered quote_inputs "QuoteResponse option" | QuoteExpired | Submitted

text \<open>The market of a mounted form does not change.\<close>

fun form_op :: "form_event \<Rightarrow> trade_form \<Rightarrow> trade_form" where
  "form_op (Props p) f = (if marketId p = marketId (props f) then f\<lparr>props := p\<rparr> else f)"
| "form_op (OutcomeClicked n) f = handleOutcomeClick n f"
| "form_op (SideClicked s) f = handleSideClick s f"
| "form_op (AmountTyped a) f = f\<lparr>f_amount := a\<rparr>"
| "form_op (PriceTyped p) f = f\<lparr>f_price := p\<rparr>"
| "form_op (OrderTypeChosen t) f = handleOrderTypeChange t f"
| "form_op (PostOnly b) f = f\<lparr>f_post_only := b\<rparr>"
| "form_op (ExpiryTyped x) f = f\<lparr>f_expires_at := x\<rparr>"
| "form_op (ToleranceMoved x) f = f\<lparr>tolerance := x\<rparr>"
| "form_op DebounceFired f = fire_debounce f"
| "form_op (QuoteAnswered q r) f = quote_answered q r f"
| "form_op QuoteExpired f = quote_expires f"
| "form_op Submitted f = (if submit_disabled f then f else onValid f)"

definition form_step :: "form_event \<Rightarrow> trade_form \<Rightarrow> trade_form" where
  "form_step e f =
     (let f' = form_op e f in if effect_deps f' \<noteq> effect_deps f then quote_effect f' else f')"

subsection \<open>Invariants of a run\<close>

text \<open>What holds after a run \<open>es\<close>: a quote and its inputs are there together and are an answer of
  the run, the side of the order is the selected one, and every order carries the id of the form.\<close>

definition form_inv :: "nat \<Rightarrow> form_event list \<Rightarrow> trade_form \<Rightarrow> bool" where
  "form_inv u es f \<longleftrightarrow>
     (case (quote f, quoteMeta f) of
        (Some r, Some q) \<Rightarrow> QuoteAnswered q (Some r) \<in> set es
      | (None, None) \<Rightarrow> True
      | _ \<Rightarrow> False)
     \<and> f_side f = side f \<and> clientOrderId f = u \<and> (\<forall>o' \<in> set (submitted f). client_order_id o' = u)"

lemmas form_defs = handleOutcomeClick_def handleSideClick_def handleOrderTypeChange_def fire_debounce_def
  quote_answered_def quote_expires_def onValid_def payload_of_def

lemma quote_effect_keeps [simp]:
  "quote (quote_effect f) = quote f" "quoteMeta (quote_effect f) = quoteMeta f" "f_side (quote_effect f) = f_side f"
  "side (quote_effect f) = side f" "clientOrderId (quote_effect f) = clientOrderId f" "submitted (quote_effect f) = submitted f"
  "outcome (quote_effect f) = outcome f" "f_outcome (quote_effect f) = f_outcome f"
  by (simp_all add: quote_effect_def Let_def)

lemma form_inv_effect: "form_inv u es (quote_effect f) = form_inv u es f"
  by (simp add: form_inv_def)

lemma form_inv_op: "form_inv u es f \<Longrightarrow> form_inv u (es @ [e]) (form_op e f)"
  by (cases e) (auto simp: form_inv_def form_defs Let_def split: option.splits)

lemma form_inv_run: "form_inv u es (fold form_step es (mount_form p u))"
proof (induction es rule: rev_induct)
  case Nil
  show ?case by (simp add: form_inv_def mount_form_def)
next
  case (snoc e es)
  then show ?case by (simp add: form_step_def Let_def form_inv_effect form_inv_op)
qed

text \<open>The outcome of the order follows the selection from the first click on.\<close>

lemma outcome_step:
  "outcome (form_step e f) = (case e of OutcomeClicked n \<Rightarrow> n | _ \<Rightarrow> outcome f)"
  "f_outcome (form_step e f) = (case e of OutcomeClicked n \<Rightarrow> n | _ \<Rightarrow> f_outcome f)"
  by (cases e; auto simp: form_step_def Let_def form_defs split: option.splits)+

definition clicked :: "form_event list \<Rightarrow> bool" where
  "clicked es = list_ex (\<lambda>e. case e of OutcomeClicked _ \<Rightarrow> True | _ \<Rightarrow> False) es"

lemma outcome_run:
  "clicked es \<Longrightarrow> f_outcome (fold form_step es f) = outcome (fold form_step es f)"
  "\<not> clicked es \<Longrightarrow> f_outcome (fold form_step es f) = f_outcome f \<and> outcome (fold form_step es f) = outcome f"
  by (induction es rule: rev_induct) (auto simp: clicked_def outcome_step split: form_event.splits)

lemma mount_outcome:
  "f_outcome (mount_form p u) = ''yes''" "\<not> isMultiOutcome p \<Longrightarrow> outcome (mount_form p u) = ''yes''"
  "isMultiOutcome p \<Longrightarrow> outcome (mount_form p u) = to_lower (outcome_name (hd (outcomes p)))"
  by (auto simp: mount_form_def isMultiOutcome_def split: list.splits)

lemma quoteMatches_inputs: "quoteMatchesInputs f \<Longrightarrow> quoteMeta f = Some (current_inputs f)"
  by (cases "quoteMeta f") (auto simp: quoteMatchesInputs_def current_inputs_def js_eq_def)

lemma expectedPrice_displayed: "expectedPrice f = displayPrice f"
  by (simp add: expectedPrice_def displayPrice_def)

subsection \<open>Property\<close>

text \<open>
  C1. The order is what the screen shows. After any interleaving of clicks, keystrokes, price
  frames and quote answers: the side is the selected one; the expected price is the price on
  display, left out when it is not positive; a quote on display is an answer of the endpoint to
  exactly the current market, outcome, side and amount, however late other answers arrive; and the
  outcome is the selected one in a yes/no market and after any click. In a market with named
  outcomes where no outcome was clicked the order says \<open>yes\<close>, whatever is selected; and every order
  of a mounted form carries the same client order id.
\<close>

theorem order_matches_screen:
  assumes "f = fold form_step es (mount_form p u)"
  shows "po_side (payload_of f) = side f
    \<and> expected_price (payload_of f)
        = (if js_lt (Fin 0) (js_Number (displayPrice f)) then Some (js_Number (displayPrice f)) else None)
    \<and> (quoteVisible f \<longrightarrow> quote f \<noteq> None \<and> QuoteAnswered (current_inputs f) (quote f) \<in> set es)
    \<and> (\<not> isMultiOutcome p \<or> clicked es \<longrightarrow> po_outcome (payload_of f) = outcome f)
    \<and> (isMultiOutcome p \<and> \<not> clicked es \<longrightarrow>
        po_outcome (payload_of f) = ''yes'' \<and> outcome f = to_lower (outcome_name (hd (outcomes p))))
    \<and> (\<forall>o' \<in> set (submitted f). client_order_id o' = u)"
proof -
  have inv: "form_inv u es f" using form_inv_run assms by simp
  have "quote f \<noteq> None \<and> QuoteAnswered (current_inputs f) (quote f) \<in> set es" if "quoteVisible f"
  proof -
    have "quoteMeta f = Some (current_inputs f)" using that by (simp add: quoteVisible_def quoteMatches_inputs)
    then show ?thesis using inv by (auto simp: form_inv_def split: option.splits)
  qed
  moreover have "\<not> isMultiOutcome p \<or> clicked es \<longrightarrow> po_outcome (payload_of f) = outcome f"
    using outcome_run [of es "mount_form p u"] mount_outcome [of p u] unfolding assms
    by (cases "clicked es") (simp_all add: payload_of_def)
  moreover have "isMultiOutcome p \<and> \<not> clicked es \<longrightarrow>
      po_outcome (payload_of f) = ''yes'' \<and> outcome f = to_lower (outcome_name (hd (outcomes p)))"
    using outcome_run(2) [of es "mount_form p u"] mount_outcome [of p u] unfolding assms by (simp add: payload_of_def)
  ultimately show ?thesis using inv by (simp add: form_inv_def payload_of_def expectedPrice_displayed Let_def)
qed

definition named_market :: TradeFormProps where
  "named_market = \<lparr>marketId = ''m'', currentYesPrice = Fin 0, currentNoPrice = Fin 0, outcomePrices = [],
     outcomes = [\<lparr>outcome_id = ''1'', outcome_name = ''France''\<rparr>, \<lparr>outcome_id = ''2'', outcome_name = ''Spain''\<rparr>],
     marketStatus = ''active'', marketVersion = 0, available_balance = Fin 0\<rparr>"

theorem order_matches_screen_witness:
  "po_outcome (payload_of (fold form_step [AmountTyped (Fin 1), SideClicked Sell] (mount_form named_market 5))) = ''yes''
    \<and> po_side (payload_of (fold form_step [AmountTyped (Fin 1), SideClicked Sell] (mount_form named_market 5)))
      = side (fold form_step [AmountTyped (Fin 1), SideClicked Sell] (mount_form named_market 5))"
  using order_matches_screen [OF refl, of "[AmountTyped (Fin 1), SideClicked Sell]" named_market 5]
  by (simp add: isMultiOutcome_def named_market_def clicked_def to_lower_def lower_char_def Let_def)

end
