(* ===== verification/Form_Query.thy ===== *)
theory Form_Query
  imports Api_Client
begin

text \<open>
  Query strings as the endpoint wrappers of both apps build them. \<open>URLSearchParams\<close> serialises as an
  HTML form does, byte by byte on the UTF-8 encoding, which is what the model's strings are.
  \<open>form_decode\<close> is the inverse the server applies, and \<open>query_roundtrip\<close> shows that the server reads
  back exactly the parameters that were set.
\<close>

subsection \<open>Writing\<close>

definition hex_upper :: "int \<Rightarrow> char" where
  "hex_upper d = (if d < 10 then char_of (d + 48) else char_of (d + 55))"

definition percent :: "char \<Rightarrow> string" where
  "percent ch = (let n = of_char ch :: int in [CHR ''%'', hex_upper (n div 16), hex_upper (n mod 16)])"

definition is_alnum :: "char \<Rightarrow> bool" where
  "is_alnum ch \<longleftrightarrow> (let n = of_char ch :: int in 48 \<le> n \<and> n \<le> 57 \<or> 65 \<le> n \<and> n \<le> 90 \<or> 97 \<le> n \<and> n \<le> 122)"

definition form_byte :: "char \<Rightarrow> string" where
  "form_byte ch =
     (if is_alnum ch \<or> ch \<in> {CHR ''*'', CHR ''-'', CHR ''.'', CHR ''_''} then [ch]
      else if ch = CHR '' '' then ''+'' else percent ch)"

definition form_encode :: "string \<Rightarrow> string" where
  "form_encode s = concat (map form_byte s)"

definition component_byte :: "char \<Rightarrow> string" where
  "component_byte ch =
     (if is_alnum ch \<or> List.member [CHR ''-'', CHR ''_'', CHR ''.'', CHR ''!'', CHR ''~'', CHR ''*'', CHR 0x27, CHR ''('', CHR '')''] ch
      then [ch] else percent ch)"

definition encodeURIComponent :: "string \<Rightarrow> string" where
  "encodeURIComponent s = concat (map component_byte s)"

datatype qs_value = QStr string | QNum int

definition qs_text :: "qs_value \<Rightarrow> string" where
  "qs_text v = (case v of QStr s \<Rightarrow> s | QNum n \<Rightarrow> string_of_int n)"

definition form_pairs :: "(string \<times> string) list \<Rightarrow> string" where
  "form_pairs ps = js_join ''&'' (map (\<lambda>(k, v). form_encode k @ ''='' @ form_encode v) ps)"

text \<open>What is appended to the path.\<close>

definition query_suffix :: "(string \<times> string) list \<Rightarrow> string" where
  "query_suffix kvs = (let query = form_pairs kvs in if query \<noteq> [] then ''?'' @ query else [])"

text \<open>What an endpoint wrapper hands to \<open>request\<close>: method, path and body.\<close>

type_synonym api_request = "Method \<times> string \<times> jsval option"

subsection \<open>Reading a query string back\<close>

definition hex_value :: "char \<Rightarrow> int" where
  "hex_value c = get_or (digit_in_radix 16 c) 0"

fun form_decode :: "string \<Rightarrow> string" where
  "form_decode [] = []"
| "form_decode (c # cs) =
     (if c = CHR ''+'' then CHR '' '' # form_decode cs
      else if c = CHR ''%'' then
        (case cs of
           a # b # r \<Rightarrow> char_of (16 * hex_value a + hex_value b) # form_decode r
         | _ \<Rightarrow> c # form_decode cs)
      else c # form_decode cs)"

lemma hex_value_upper: "0 \<le> d \<Longrightarrow> d < 16 \<Longrightarrow> hex_value (hex_upper d) = d"
  by (auto simp: hex_value_def hex_upper_def digit_in_radix_def Let_def get_or_def)

lemma of_char_range: "0 \<le> (of_char ch :: int)" "(of_char ch :: int) < 256"
  using of_char_of [where 'a = int, of "of_char ch"] by (auto simp: of_char_def)

lemma form_decode_byte: "form_decode (form_byte ch @ r) = ch # form_decode r"
proof -
  let ?n = "of_char ch :: int"
  have "0 \<le> ?n div 16" "?n div 16 < 16" "0 \<le> ?n mod 16" "?n mod 16 < 16"
    using of_char_range [of ch] by auto
  then have "16 * hex_value (hex_upper (?n div 16)) + hex_value (hex_upper (?n mod 16)) = ?n"
    by (simp add: hex_value_upper)
  then have "form_decode (percent ch @ r) = ch # form_decode r" by (simp add: percent_def Let_def)
  moreover have "ch \<noteq> CHR ''+'' \<and> ch \<noteq> CHR ''%''" if "is_alnum ch \<or> ch \<in> {CHR ''*'', CHR ''-'', CHR ''.'', CHR ''_''}"
    using that by (auto simp: is_alnum_def Let_def)
  ultimately show ?thesis by (auto simp: form_byte_def)
qed

lemma form_roundtrip: "form_decode (form_encode s) = s"
  by (induction s) (simp_all add: form_encode_def form_decode_byte)

lemma hex_upper_safe: "0 \<le> d \<Longrightarrow> d < 16 \<Longrightarrow> hex_upper d \<noteq> CHR ''&'' \<and> hex_upper d \<noteq> CHR ''='' \<and> hex_upper d \<noteq> CHR ''?''"
  by (auto simp: hex_upper_def of_char_eq_iff [symmetric, where 'a = int])

lemma form_byte_safe: "CHR ''&'' \<notin> set (form_byte ch) \<and> CHR ''='' \<notin> set (form_byte ch) \<and> CHR ''?'' \<notin> set (form_byte ch)"
proof -
  let ?n = "of_char ch :: int"
  have "0 \<le> ?n div 16" "?n div 16 < 16" "0 \<le> ?n mod 16" "?n mod 16 < 16"
    using of_char_range [of ch] by auto
  then have "CHR ''&'' \<notin> set (percent ch) \<and> CHR ''='' \<notin> set (percent ch) \<and> CHR ''?'' \<notin> set (percent ch)"
    using hex_upper_safe [of "?n div 16"] hex_upper_safe [of "?n mod 16"] by (auto simp: percent_def Let_def)
  then show ?thesis by (auto simp: form_byte_def is_alnum_def Let_def)
qed

lemma form_encode_safe: "CHR ''&'' \<notin> set (form_encode s) \<and> CHR ''='' \<notin> set (form_encode s) \<and> CHR ''?'' \<notin> set (form_encode s)"
  using form_byte_safe by (induction s) (auto simp: form_encode_def)

definition read_pair :: "string \<Rightarrow> string \<times> string" where
  "read_pair w =
     (case js_split (CHR ''='') w of k # v # _ \<Rightarrow> (form_decode k, form_decode v) | _ \<Rightarrow> (form_decode w, []))"

definition read_query :: "string \<Rightarrow> (string \<times> string) list" where
  "read_query s = (case s of [] \<Rightarrow> [] | _ # q \<Rightarrow> map read_pair (js_split (CHR ''&'') q))"

lemma read_pair_encoded: "read_pair (form_encode k @ ''='' @ form_encode v) = (k, v)"
  using form_encode_safe [of k] form_encode_safe [of v]
  by (simp add: read_pair_def js_split_append js_split_absent form_roundtrip)

lemma query_roundtrip: "read_query (query_suffix kvs) = kvs"
proof (cases kvs)
  case Nil
  then show ?thesis by (simp add: query_suffix_def form_pairs_def read_query_def)
next
  case (Cons kv rest)
  let ?ws = "map (\<lambda>(k, v). form_encode k @ ''='' @ form_encode v) kvs"
  have "?ws \<noteq> []" using Cons by simp
  moreover have "\<forall>w \<in> set ?ws. CHR ''&'' \<notin> set w" using form_encode_safe by auto
  ultimately have s: "js_split (CHR ''&'') (js_join ''&'' ?ws) = ?ws" by (rule split_join)
  then have "js_join ''&'' ?ws \<noteq> []" using Cons by (cases kv) auto
  then have "read_query (query_suffix kvs) = map read_pair ?ws"
    using s by (simp add: query_suffix_def form_pairs_def read_query_def Let_def)
  also have "\<dots> = kvs"
    by (simp only: map_map o_def split_beta read_pair_encoded) simp
  finally show ?thesis .
qed

subsection \<open>Which paths the client treats as credential endpoints\<close>

text \<open>A path under \<open>/api/v1\<close> whose next segment is not \<open>auth\<close> is no credential endpoint and no
  session probe, whatever ids and filters it carries: a 401 there goes through the refresh.\<close>

lemma path_within_take: "path_within p s \<Longrightarrow> take (length p) s = p"
  by (auto dest!: path_within_prefix simp: prefix_def)

lemma first_piece: "js_first (js_split c s) = Some (takeWhile (\<lambda>x. x \<noteq> c) s)"
  by (induction s) (auto simp: js_first_def split: list.splits)

lemma not_auth_path:
  assumes "take 11 s \<noteq> ''/api/v1/aut''"
  shows "\<not> isCredentialEndpoint s \<and> \<not> isSessionProbe s"
proof -
  have len: "length p \<ge> 11 \<and> take 11 p = ''/api/v1/aut''" if "p \<in> set (CREDENTIAL_PATHS @ SESSION_PROBE_PATHS)" for p
    using that by (auto simp: CREDENTIAL_PATHS_def SESSION_PROBE_PATHS_def)
  have "\<not> path_within p (takeWhile (\<lambda>x. x \<noteq> CHR ''?'') s)" if "p \<in> set CREDENTIAL_PATHS" for p
  proof
    assume "path_within p (takeWhile (\<lambda>x. x \<noteq> CHR ''?'') s)"
    then have "prefix p s" using path_within_prefix takeWhile_is_prefix prefix_order.trans by blast
    then have "take 11 s = take 11 p" using len that by (auto simp: prefix_def)
    then show False using len that assms by simp
  qed
  moreover have "\<not> isSessionProbe s" using assms by (auto simp: isSessionProbe_def SESSION_PROBE_PATHS_def)
  ultimately show ?thesis
    by (auto simp: isCredentialEndpoint_def first_piece get_or_def list_ex_iff)
qed

end
