(* ===== verification/Admin_Api.thy ===== *)
theory Admin_Api
  imports Form_Query
begin

text \<open>
  The admin surface of the API client, \<^verbatim>\<open>packages/api-client/src/admin.ts\<close>: every endpoint as the
  method, path and body it hands to \<open>request\<close>, with the query strings it builds, and the
  navigation of the admin app (\<^verbatim>\<open>apps/admin/lib/nav.ts\<close>, \<^verbatim>\<open>apps/admin/lib/site-url.ts\<close>).
\<close>

subsection \<open>Query strings\<close>

text \<open>The keys of one call are different, so \<open>search.set\<close> appends.\<close>

definition qs_kept :: "(string \<times> qs_value option) list \<Rightarrow> (string \<times> string) list" where
  "qs_kept params =
     List.map_filter (\<lambda>(k, v). case v of None \<Rightarrow> None | Some x \<Rightarrow> if x = QStr [] then None else Some (k, qs_text x)) params"

definition qs :: "(string \<times> qs_value option) list \<Rightarrow> string" where
  "qs params = query_suffix (qs_kept params)"

subsection \<open>Endpoints\<close>

definition str_param :: "string option \<Rightarrow> qs_value option" where
  "str_param = map_option QStr"

definition num_param :: "int option \<Rightarrow> int \<Rightarrow> qs_value option" where
  "num_param v d = Some (QNum (get_or v d))"

definition users ::
  "int option \<Rightarrow> int option \<Rightarrow> string option \<Rightarrow> string option \<Rightarrow> string option \<Rightarrow> api_request" where
  "users page pageSize search status order =
     (GET, ''/api/v1/admin/users'' @
        qs [(''page'', num_param page 1), (''page_size'', num_param pageSize 20), (''search'', str_param search),
            (''status'', str_param status), (''sort'', str_param order)], None)"

definition user :: "string \<Rightarrow> string list option \<Rightarrow> api_request" where
  "user userId incl =
     (GET, ''/api/v1/admin/users/'' @ userId @ qs [(''include'', map_option (\<lambda>xs. QStr (js_join '','' xs)) incl)], None)"

definition with_note :: "string option \<Rightarrow> (string \<times> jsval) list \<Rightarrow> jsval" where
  "with_note note fs = JObj (fs @ (case note of None \<Rightarrow> [] | Some n \<Rightarrow> [(''note'', JStr n)]))"

definition ban :: "string \<Rightarrow> string \<Rightarrow> string option \<Rightarrow> api_request" where
  "ban userId reason note =
     (PATCH, ''/api/v1/admin/users/'' @ userId @ ''/ban'', Some (with_note note [(''reason'', JStr reason)]))"

definition unban :: "string \<Rightarrow> string option option \<Rightarrow> api_request" where
  "unban userId body = (PATCH, ''/api/v1/admin/users/'' @ userId @ ''/unban'', map_option (\<lambda>note. with_note note []) body)"

definition markets ::
  "string option \<Rightarrow> string option \<Rightarrow> string option \<Rightarrow> int option \<Rightarrow> int option \<Rightarrow> api_request" where
  "markets status q order page pageSize =
     (GET, ''/api/v1/admin/markets'' @
        qs [(''status'', str_param status), (''q'', str_param q), (''sort'', str_param order),
            (''page'', num_param page 1), (''page_size'', num_param pageSize 50)], None)"

definition approveMarket :: "string \<Rightarrow> api_request" where
  "approveMarket marketId = (POST, ''/api/v1/admin/markets/'' @ marketId @ ''/approve'', None)"

definition rejectMarket :: "string \<Rightarrow> string \<Rightarrow> string option \<Rightarrow> api_request" where
  "rejectMarket marketId reason note =
     (POST, ''/api/v1/admin/markets/'' @ marketId @ ''/reject'', Some (with_note note [(''reason'', JStr reason)]))"

definition actions ::
  "int option \<Rightarrow> int option \<Rightarrow> string option \<Rightarrow> string option \<Rightarrow> string option \<Rightarrow> string option \<Rightarrow> api_request" where
  "actions page pageSize act targetType targetId success =
     (GET, ''/api/v1/admin/admin-actions'' @
        qs [(''page'', num_param page 1), (''page_size'', num_param pageSize 50), (''action'', str_param act),
            (''target_type'', str_param targetType), (''target_id'', str_param targetId), (''success'', str_param success)], None)"

definition auditEvents :: "int option \<Rightarrow> int option \<Rightarrow> string option \<Rightarrow> string option \<Rightarrow> api_request" where
  "auditEvents page pageSize event success =
     (GET, ''/api/v1/admin/audit-events'' @
        qs [(''page'', num_param page 1), (''page_size'', num_param pageSize 50), (''event'', str_param event),
            (''success'', str_param success)], None)"

definition disputes ::
  "string option \<Rightarrow> string option \<Rightarrow> string option \<Rightarrow> int option \<Rightarrow> int option \<Rightarrow> api_request" where
  "disputes status marketId q page pageSize =
     (GET, ''/api/v1/admin/disputes'' @
        qs [(''status'', Some (QStr (get_or status ''open''))), (''market_id'', str_param marketId), (''q'', str_param q),
            (''page'', num_param page 1), (''page_size'', num_param pageSize 25)], None)"

definition dispute :: "string \<Rightarrow> api_request" where
  "dispute disputeId = (GET, ''/api/v1/admin/disputes/'' @ disputeId, None)"

definition step_up_body :: "string \<Rightarrow> string option \<Rightarrow> (string \<times> jsval) list" where
  "step_up_body password code =
     (''password'', JStr password) # (case code of None \<Rightarrow> [] | Some c \<Rightarrow> [(''code'', JStr c)])"

definition adjudicate :: "string \<Rightarrow> string \<Rightarrow> string option \<Rightarrow> string \<Rightarrow> string option \<Rightarrow> api_request" where
  "adjudicate disputeId ruling note password code =
     (POST, ''/api/v1/disputes/'' @ disputeId @ ''/adjudicate'',
      Some (JObj ((''ruling'', JStr ruling) # (case note of None \<Rightarrow> [] | Some n \<Rightarrow> [(''admin_note'', JStr n)])
                  @ step_up_body password code)))"

definition treasury :: api_request where
  "treasury = (GET, ''/api/v1/treasury'', None)"

definition treasuryLogs :: "int option \<Rightarrow> int option \<Rightarrow> string option \<Rightarrow> api_request" where
  "treasuryLogs page pageSize event =
     (GET, ''/api/v1/treasury/logs'' @
        qs [(''page'', num_param page 1), (''page_size'', num_param pageSize 20), (''event'', str_param event)], None)"

definition treasuryDistribute :: "jsnum \<Rightarrow> string \<Rightarrow> string option \<Rightarrow> api_request" where
  "treasuryDistribute amount password code =
     (POST, ''/api/v1/treasury/distribute?amount='' @ encodeURIComponent (num_to_string amount),
      Some (JObj ((''password'', JStr password) #
        (case code of None \<Rightarrow> [] | Some c \<Rightarrow> if c = [] then [] else [(''totp_code'', JStr c)]))))"

definition distributeProtocolFees :: "string \<Rightarrow> string option \<Rightarrow> api_request" where
  "distributeProtocolFees password code =
     (POST, ''/api/v1/admin/distribute-protocol-fees'', Some (JObj (step_up_body password code)))"

definition sessions :: api_request where
  "sessions = (GET, ''/api/v1/auth/sessions'', None)"

definition revokeSession :: "string \<Rightarrow> api_request" where
  "revokeSession sessionId = (DELETE, ''/api/v1/auth/sessions/'' @ sessionId, None)"

definition twoFactorStatus :: api_request where
  "twoFactorStatus = (GET, ''/api/v1/auth/2fa/status'', None)"

definition STEP_UP_CODES :: "string list" where
  "STEP_UP_CODES = [''STEP_UP_PASSWORD_INVALID'', ''STEP_UP_2FA_REQUIRED'', ''STEP_UP_2FA_INVALID'']"

definition isStepUpError :: "thrown \<Rightarrow> bool" where
  "isStepUpError err = (case apiErrorCode err of JStr c \<Rightarrow> List.member STEP_UP_CODES c | _ \<Rightarrow> False)"

subsection \<open>Navigation\<close>

record AdminNavItem =
  href :: string
  label :: string
  description :: string

record AdminNavGroup =
  group_label :: string
  items :: "AdminNavItem list"

definition ADMIN_NAV :: "AdminNavGroup list" where
  "ADMIN_NAV =
     [\<lparr>group_label = ''Overview'', items =
        [\<lparr>href = ''/'', label = ''Dashboard'', description = ''What is waiting, and what failed''\<rparr>]\<rparr>,
      \<lparr>group_label = ''Operate'', items =
        [\<lparr>href = ''/disputes'', label = ''Disputes'', description = ''Claims awaiting a ruling''\<rparr>,
         \<lparr>href = ''/markets'', label = ''Moderation'', description = ''Markets awaiting review''\<rparr>,
         \<lparr>href = ''/treasury'', label = ''Treasury'', description = ''Fees collected and distributed''\<rparr>]\<rparr>,
      \<lparr>group_label = ''Investigate'', items =
        [\<lparr>href = ''/users'', label = ''Users'', description = ''Accounts, wallets and activity''\<rparr>,
         \<lparr>href = ''/users/security'', label = ''Security'', description = ''Sessions and two-factor''\<rparr>]\<rparr>,
      \<lparr>group_label = ''Accountability'', items =
        [\<lparr>href = ''/audit'', label = ''Audit trail'', description = ''Privileged actions and auth events''\<rparr>]\<rparr>]"

definition ADMIN_ROUTES :: "string list" where
  "ADMIN_ROUTES = concat (map (\<lambda>group. map href (items group)) ADMIN_NAV)"

definition isActiveRoute :: "string option \<Rightarrow> string \<Rightarrow> bool" where
  "isActiveRoute pathname hrf =
     (case pathname of
        None \<Rightarrow> False
      | Some p \<Rightarrow> if p = [] then False else if hrf = ''/'' then p = ''/'' else path_within hrf p)"

definition storefrontUrl :: "string \<Rightarrow> string option" where
  "storefrontUrl siteUrl =
     (let candidate = js_trim siteUrl; low = to_lower candidate
      in if starts_with low ''http://'' \<or> starts_with low ''https://'' then Some candidate else None)"

subsection \<open>Facts\<close>

text \<open>The server reads back exactly the parameters that were set and not empty.\<close>

lemma qs_roundtrip: "read_query (qs params) = qs_kept params"
  by (simp add: qs_def query_roundtrip)

text \<open>Privileged writes are no credential endpoints, so a 401 there goes through the refresh.\<close>

lemma privileged_writes_use_session:
  "\<not> isCredentialEndpoint (fst (snd (ban u r n)))" "\<not> isCredentialEndpoint (fst (snd (adjudicate d r n pw c)))"
  "\<not> isCredentialEndpoint (fst (snd (treasuryDistribute a pw c)))"
  "\<not> isCredentialEndpoint (fst (snd (distributeProtocolFees pw c)))"
  by (simp_all add: not_auth_path ban_def adjudicate_def treasuryDistribute_def distributeProtocolFees_def)

text \<open>The security page lies under the list of users, so both entries of the sidebar are lit there.\<close>

lemma security_lights_two: "filter (isActiveRoute (Some ''/users/security'')) ADMIN_ROUTES = [''/users'', ''/users/security'']"
  by (simp add: ADMIN_ROUTES_def ADMIN_NAV_def isActiveRoute_def path_within_def starts_with_def)

end
