(* ===== verification/Web_Api.thy ===== *)
theory Web_Api
  imports Form_Query
begin

text \<open>
  The endpoint wrappers of the storefront, \<^verbatim>\<open>apps/web/lib/api/*.ts\<close>: what each hands to
  \<open>request\<close>, and what the wrappers of \<^verbatim>\<open>auth.ts\<close> and \<^verbatim>\<open>account.ts\<close> do to the session once the
  promise settles.

  The schemas of the forms are the validation library's: a wrapper that calls \<open>schema.parse\<close> takes
  it as the parameter \<open>parse\<close>, and gives \<open>None\<close> where it throws, before any request. Optional
  parameters are options. Page numbers are integers.
\<close>

subsection \<open>Query parameters\<close>

text \<open>\<open>if (params?.x) qs.set(...)\<close> leaves out an absent, empty or zero parameter.\<close>

definition qs_truthy :: "qs_value \<Rightarrow> bool" where
  "qs_truthy v = (case v of QStr s \<Rightarrow> s \<noteq> [] | QNum n \<Rightarrow> n \<noteq> 0)"

definition truthy_kept :: "(string \<times> qs_value option) list \<Rightarrow> (string \<times> string) list" where
  "truthy_kept params =
     List.map_filter (\<lambda>(k, v). case v of None \<Rightarrow> None | Some x \<Rightarrow> if qs_truthy x then Some (k, qs_text x) else None) params"

definition web_query :: "(string \<times> qs_value option) list \<Rightarrow> string" where
  "web_query params = query_suffix (truthy_kept params)"

definition str_opt :: "string option \<Rightarrow> qs_value option" where
  "str_opt v = map_option QStr v"

definition num_opt :: "int option \<Rightarrow> qs_value option" where
  "num_opt v = map_option QNum v"

definition val_opt :: "string option \<Rightarrow> jsval" where
  "val_opt v = (case v of None \<Rightarrow> JUndef | Some s \<Rightarrow> JStr s)"

definition page_params :: "int option \<Rightarrow> int option \<Rightarrow> (string \<times> qs_value option) list" where
  "page_params page page_size = [(''page'', num_opt page), (''page_size'', num_opt page_size)]"

subsection \<open>Markets\<close>

definition listMarkets ::
  "string option \<Rightarrow> string option \<Rightarrow> string option \<Rightarrow> string option \<Rightarrow> int option \<Rightarrow> int option \<Rightarrow> api_request" where
  "listMarkets q category status srt page page_size =
     (GET, ''/api/v1/markets/'' @ web_query
        ([(''q'', str_opt q), (''category'', str_opt category), (''status'', str_opt status), (''sort'', str_opt srt)]
         @ page_params page page_size), None)"

definition getMarket :: "string \<Rightarrow> api_request" where
  "getMarket slug = (GET, ''/api/v1/markets/'' @ slug, None)"

definition getMarketActivity :: "string \<Rightarrow> int option \<Rightarrow> api_request" where
  "getMarketActivity slug limit =
     (GET, ''/api/v1/markets/'' @ slug @ ''/activity?limit='' @ string_of_int (get_or limit 20), None)"

definition getMarketFAQs :: "string \<Rightarrow> api_request" where
  "getMarketFAQs slug = (GET, ''/api/v1/markets/'' @ slug @ ''/faqs'', None)"

definition getPriceHistory :: "string \<Rightarrow> string option \<Rightarrow> string option \<Rightarrow> string option \<Rightarrow> api_request" where
  "getPriceHistory slug interval from_date to_date =
     (GET, ''/api/v1/markets/'' @ slug @ ''/price-history'' @ web_query
        [(''interval'', str_opt interval), (''from_date'', str_opt from_date), (''to_date'', str_opt to_date)], None)"

definition getRelatedMarkets :: "string \<Rightarrow> int option \<Rightarrow> api_request" where
  "getRelatedMarkets slug limit =
     (GET, ''/api/v1/markets/'' @ slug @ ''/related?limit='' @ string_of_int (get_or limit 5), None)"

definition resolveMarket :: "string \<Rightarrow> string \<Rightarrow> api_request" where
  "resolveMarket slug winning_outcome_id =
     (POST, ''/api/v1/markets/'' @ slug @ ''/resolve'', Some (JObj [(''winning_outcome_id'', JStr winning_outcome_id)]))"

definition createMarket :: "jsval \<Rightarrow> api_request" where
  "createMarket data = (POST, ''/api/v1/markets/'', Some data)"

definition listMyMarkets :: "string option \<Rightarrow> int option \<Rightarrow> int option \<Rightarrow> api_request" where
  "listMyMarkets status page pageSize =
     (GET, ''/api/v1/markets/mine'' @ web_query ((''status'', str_opt status) # page_params page pageSize), None)"

definition getOrderBook :: "string \<Rightarrow> api_request" where
  "getOrderBook slug = (GET, ''/api/v1/markets/'' @ slug @ ''/orderbook'', None)"

definition claimWinnings :: "string \<Rightarrow> api_request" where
  "claimWinnings slug = (POST, ''/api/v1/markets/'' @ slug @ ''/claim'', None)"

subsection \<open>Orders and money\<close>

definition listOrders ::
  "string option \<Rightarrow> int option \<Rightarrow> string option \<Rightarrow> string option \<Rightarrow> string option \<Rightarrow> string option \<Rightarrow> string option
   \<Rightarrow> string option \<Rightarrow> api_request" where
  "listOrders cursor page_size status side order_type market_id date_from date_to =
     (GET, ''/api/v1/orders/'' @ web_query
        [(''cursor'', str_opt cursor), (''page_size'', num_opt page_size), (''status'', str_opt status), (''side'', str_opt side),
         (''order_type'', str_opt order_type), (''market_id'', str_opt market_id), (''date_from'', str_opt date_from),
         (''date_to'', str_opt date_to)], None)"

definition getOrder :: "string \<Rightarrow> api_request" where
  "getOrder orderId = (GET, ''/api/v1/orders/'' @ orderId, None)"

definition placeOrder :: "(jsval \<Rightarrow> jsval option) \<Rightarrow> jsval \<Rightarrow> api_request option" where
  "placeOrder parse order = map_option (\<lambda>v. (POST, ''/api/v1/orders/'', Some v)) (parse order)"

definition cancelOrder :: "string \<Rightarrow> api_request" where
  "cancelOrder orderId = (DELETE, ''/api/v1/orders/'' @ orderId, None)"

definition getQuote :: "(jsval \<Rightarrow> jsval option) \<Rightarrow> jsval \<Rightarrow> api_request option" where
  "getQuote parse params = map_option (\<lambda>v. (POST, ''/api/v1/orders/quote'', Some v)) (parse params)"

definition getWallet :: api_request where
  "getWallet = (GET, ''/api/v1/wallet/'', None)"

definition deposit :: "(jsval \<Rightarrow> jsval option) \<Rightarrow> jsval \<Rightarrow> api_request option" where
  "deposit parse data = map_option (\<lambda>v. (POST, ''/api/v1/wallet/deposit'', Some v)) (parse data)"

definition withdraw :: "(jsval \<Rightarrow> jsval option) \<Rightarrow> jsval \<Rightarrow> api_request option" where
  "withdraw parse data = map_option (\<lambda>v. (POST, ''/api/v1/wallet/withdraw'', Some v)) (parse data)"

definition listTransactions :: "int option \<Rightarrow> int option \<Rightarrow> api_request" where
  "listTransactions page page_size = (GET, ''/api/v1/wallet/transactions'' @ web_query (page_params page page_size), None)"

definition listPositions :: "int option \<Rightarrow> int option \<Rightarrow> api_request" where
  "listPositions page page_size = (GET, ''/api/v1/positions/'' @ web_query (page_params page page_size), None)"

definition splitMerge_body :: "string \<Rightarrow> jsnum \<Rightarrow> jsval" where
  "splitMerge_body marketId amount = JObj [(''market_id'', JStr marketId), (''amount'', JNum amount)]"

definition splitMergeApi_split :: "string \<Rightarrow> jsnum \<Rightarrow> api_request" where
  "splitMergeApi_split marketId amount = (POST, ''/api/v1/split-merge/split'', Some (splitMerge_body marketId amount))"

definition splitMergeApi_merge :: "string \<Rightarrow> jsnum \<Rightarrow> api_request" where
  "splitMergeApi_merge marketId amount = (POST, ''/api/v1/split-merge/merge'', Some (splitMerge_body marketId amount))"

definition getLPAnalytics :: api_request where
  "getLPAnalytics = (GET, ''/api/v1/markets/liquidity/analytics'', None)"

definition addLiquidity :: "(jsval \<Rightarrow> jsval option) \<Rightarrow> string \<Rightarrow> jsval \<Rightarrow> api_request option" where
  "addLiquidity parse marketId data =
     map_option (\<lambda>v. (POST, ''/api/v1/markets/'' @ marketId @ ''/liquidity'', Some v)) (parse data)"

definition removeLiquidity :: "(jsval \<Rightarrow> jsval option) \<Rightarrow> string \<Rightarrow> jsval \<Rightarrow> api_request option" where
  "removeLiquidity parse marketId data =
     map_option (\<lambda>v. (DELETE, ''/api/v1/markets/'' @ marketId @ ''/liquidity'', Some v)) (parse data)"

definition getLPPosition :: "string \<Rightarrow> api_request" where
  "getLPPosition marketId = (GET, ''/api/v1/markets/'' @ marketId @ ''/liquidity'', None)"

subsection \<open>Trades, comments, disputes, flags, alerts, notifications\<close>

definition toQuery :: "string option \<Rightarrow> int option \<Rightarrow> int option \<Rightarrow> string option \<Rightarrow> (string \<times> qs_value option) list" where
  "toQuery cursor page page_size market_slug =
     (''cursor'', str_opt cursor) # page_params page page_size @ [(''market_slug'', str_opt market_slug)]"

definition listTrades :: "string option \<Rightarrow> int option \<Rightarrow> int option \<Rightarrow> string option \<Rightarrow> api_request" where
  "listTrades cursor page page_size market_slug =
     (GET, ''/api/v1/trades'' @ web_query (toQuery cursor page page_size market_slug), None)"

definition listMarketTrades :: "string \<Rightarrow> string option \<Rightarrow> int option \<Rightarrow> int option \<Rightarrow> api_request" where
  "listMarketTrades slug cursor page page_size =
     (GET, ''/api/v1/markets/'' @ slug @ ''/trades'' @ web_query (toQuery cursor page page_size None), None)"

definition getMarketComments :: "string \<Rightarrow> int option \<Rightarrow> int option \<Rightarrow> api_request" where
  "getMarketComments slug page page_size =
     (GET, ''/api/v1/markets/'' @ slug @ ''/comments'' @ web_query (page_params page page_size), None)"

definition getMarketCommentReplies :: "string \<Rightarrow> string \<Rightarrow> int option \<Rightarrow> int option \<Rightarrow> api_request" where
  "getMarketCommentReplies slug commentId page page_size =
     (GET, ''/api/v1/markets/'' @ slug @ ''/comments/'' @ commentId @ ''/replies'' @ web_query (page_params page page_size), None)"

definition postComment :: "string \<Rightarrow> string \<Rightarrow> string option \<Rightarrow> api_request" where
  "postComment slug content parent_id =
     (POST, ''/api/v1/markets/'' @ slug @ ''/comments'',
      Some (JObj [(''content'', JStr content), (''parent_id'', case parent_id of None \<Rightarrow> JNull | Some p \<Rightarrow> JStr p)]))"

definition updateComment :: "string \<Rightarrow> string \<Rightarrow> string \<Rightarrow> api_request" where
  "updateComment slug commentId content =
     (PATCH, ''/api/v1/markets/'' @ slug @ ''/comments/'' @ commentId, Some (JObj [(''content'', JStr content)]))"

definition deleteComment :: "string \<Rightarrow> string \<Rightarrow> api_request" where
  "deleteComment slug commentId = (DELETE, ''/api/v1/markets/'' @ slug @ ''/comments/'' @ commentId, None)"

definition disputesApi_create :: "jsval \<Rightarrow> api_request" where
  "disputesApi_create data = (POST, ''/api/v1/disputes'', Some data)"

definition disputesApi_getForMarket :: "string \<Rightarrow> api_request" where
  "disputesApi_getForMarket marketId = (GET, ''/api/v1/disputes/market/'' @ marketId, None)"

definition disputesApi_proposeResolution :: "jsval \<Rightarrow> api_request" where
  "disputesApi_proposeResolution data = (POST, ''/api/v1/disputes/propose-resolution'', Some data)"

definition disputesApi_adjudicate :: "string \<Rightarrow> jsval \<Rightarrow> api_request" where
  "disputesApi_adjudicate disputeId data = (POST, ''/api/v1/disputes/'' @ disputeId @ ''/adjudicate'', Some data)"

definition flagsApi_create :: "jsval \<Rightarrow> api_request" where
  "flagsApi_create data = (POST, ''/api/v1/flags'', Some data)"

definition flagsApi_getForMarket :: "string \<Rightarrow> api_request" where
  "flagsApi_getForMarket marketId = (GET, ''/api/v1/flags/market/'' @ marketId, None)"

definition flagsApi_resolve :: "string \<Rightarrow> jsval \<Rightarrow> api_request" where
  "flagsApi_resolve flagId data = (PATCH, ''/api/v1/flags/'' @ flagId @ ''/resolve'', Some data)"

definition createAlert :: "(jsval \<Rightarrow> jsval option) \<Rightarrow> jsval \<Rightarrow> api_request option" where
  "createAlert parse data = map_option (\<lambda>v. (POST, ''/api/v1/alerts/'', Some v)) (parse data)"

definition listAlerts :: api_request where
  "listAlerts = (GET, ''/api/v1/alerts/'', None)"

definition deleteAlert :: "string \<Rightarrow> api_request" where
  "deleteAlert alertId = (DELETE, ''/api/v1/alerts/'' @ alertId, None)"

text \<open>\<open>params?.page != null\<close> keeps a zero.\<close>

definition notificationsApi_list :: "int option \<Rightarrow> int option \<Rightarrow> bool option \<Rightarrow> api_request" where
  "notificationsApi_list page page_size unread_only =
     (GET, ''/api/v1/notifications'' @ query_suffix
        (List.map_filter (\<lambda>(k, v). map_option (\<lambda>x. (k, qs_text x)) v)
           [(''page'', num_opt page), (''page_size'', num_opt page_size),
            (''unread_only'', if unread_only = Some True then Some (QStr ''true'') else None)]), None)"

definition notificationsApi_getPreferences :: api_request where
  "notificationsApi_getPreferences = (GET, ''/api/v1/notifications/preferences'', None)"

definition notificationsApi_updatePreferences :: "(jsval \<Rightarrow> jsval option) \<Rightarrow> jsval \<Rightarrow> api_request option" where
  "notificationsApi_updatePreferences parse data =
     map_option (\<lambda>v. (PUT, ''/api/v1/notifications/preferences'', Some v)) (parse data)"

definition notificationsApi_markRead :: "string \<Rightarrow> api_request" where
  "notificationsApi_markRead notificationId = (POST, ''/api/v1/notifications/'' @ notificationId @ ''/read'', None)"

definition notificationsApi_markAllRead :: api_request where
  "notificationsApi_markAllRead = (POST, ''/api/v1/notifications/read-all'', None)"

definition getReferralCode :: api_request where
  "getReferralCode = (GET, ''/api/v1/referrals/code'', None)"

definition getReferralStats :: api_request where
  "getReferralStats = (GET, ''/api/v1/referrals/stats'', None)"

definition getTreasury :: api_request where
  "getTreasury = (GET, ''/api/v1/treasury'', None)"

definition getTreasuryLogs :: "int option \<Rightarrow> int option \<Rightarrow> string option \<Rightarrow> api_request" where
  "getTreasuryLogs page page_size event =
     (GET, ''/api/v1/treasury/logs'' @ web_query (page_params page page_size @ [(''event'', str_opt event)]), None)"

subsection \<open>Authentication\<close>

text \<open>What hangs on the promise of an endpoint: nothing, \<open>signedIn\<close>, \<open>signedInUnlessChallenged\<close> or
  \<open>.finally(markSessionEnded)\<close>.\<close>

datatype session_hook = Plain | SignedIn | SignedInUnlessChallenged | FinallyEnded

type_synonym auth_call = "api_request \<times> session_hook"

definition signedIn :: "outcome \<Rightarrow> client \<Rightarrow> client" where
  "signedIn out c = (case out of Resolved _ \<Rightarrow> markSessionActive c | Rejected _ \<Rightarrow> c)"

text \<open>\<open>res.data?.requires_2fa\<close>: a \<open>null\<close> response throws inside \<open>then\<close>, so nothing is marked.\<close>

definition signedInUnlessChallenged :: "outcome \<Rightarrow> client \<Rightarrow> client" where
  "signedInUnlessChallenged out c =
     (case out of
        Rejected _ \<Rightarrow> c
      | Resolved res \<Rightarrow>
          (case js_get res ''data'' of
             None \<Rightarrow> c
           | Some data \<Rightarrow> if js_truthy (Api_Errors.field data ''requires_2fa'') then c else markSessionActive c))"

definition after_settled :: "session_hook \<Rightarrow> outcome \<Rightarrow> client \<Rightarrow> client" where
  "after_settled h out c =
     (case h of
        Plain \<Rightarrow> c
      | SignedIn \<Rightarrow> signedIn out c
      | SignedInUnlessChallenged \<Rightarrow> signedInUnlessChallenged out c
      | FinallyEnded \<Rightarrow> markSessionEnded c)"

definition authApi_me :: auth_call where
  "authApi_me = ((GET, ''/api/v1/auth/me'', None), SignedIn)"

definition authApi_login :: "string \<Rightarrow> string \<Rightarrow> string option \<Rightarrow> auth_call" where
  "authApi_login email password totpCode =
     ((POST, ''/api/v1/auth/login'',
       Some (JObj [(''email'', JStr email), (''password'', JStr password), (''totp_code'', val_opt totpCode)])), SignedIn)"

definition authApi_logout :: auth_call where
  "authApi_logout = ((POST, ''/api/v1/auth/logout'', None), FinallyEnded)"

definition authApi_logoutAll :: auth_call where
  "authApi_logoutAll = ((POST, ''/api/v1/auth/logout-all'', None), FinallyEnded)"

definition authApi_sessions :: auth_call where
  "authApi_sessions = ((GET, ''/api/v1/auth/sessions'', None), Plain)"

definition authApi_revokeSession :: "string \<Rightarrow> auth_call" where
  "authApi_revokeSession sessionId = ((DELETE, ''/api/v1/auth/sessions/'' @ sessionId, None), Plain)"

definition authApi_refresh :: auth_call where
  "authApi_refresh = ((POST, ''/api/v1/auth/refresh'', None), Plain)"

definition registerApi_register :: "string \<Rightarrow> string \<Rightarrow> string \<Rightarrow> string option \<Rightarrow> auth_call" where
  "registerApi_register email username password referralCode =
     ((POST, ''/api/v1/auth/register'',
       Some (JObj [(''email'', JStr email), (''username'', JStr username), (''password'', JStr password),
                   (''referral_code'', val_opt referralCode)])), Plain)"

definition registerApi_verifyEmail :: "string \<Rightarrow> string \<Rightarrow> auth_call" where
  "registerApi_verifyEmail email code =
     ((POST, ''/api/v1/auth/verify-email'', Some (JObj [(''email'', JStr email), (''code'', JStr code)])), Plain)"

definition registerApi_resendVerification :: "string \<Rightarrow> auth_call" where
  "registerApi_resendVerification email =
     ((POST, ''/api/v1/auth/resend-verification'', Some (JObj [(''email'', JStr email)])), Plain)"

definition magicLinkApi_sendCode :: "string \<Rightarrow> auth_call" where
  "magicLinkApi_sendCode email = ((POST, ''/api/v1/auth/magic-link'', Some (JObj [(''email'', JStr email)])), Plain)"

definition magicLinkApi_verifyCode :: "string \<Rightarrow> string \<Rightarrow> string option \<Rightarrow> auth_call" where
  "magicLinkApi_verifyCode email code totpCode =
     ((POST, ''/api/v1/auth/verify-magic'',
       Some (JObj [(''email'', JStr email), (''code'', JStr code), (''totp_code'', val_opt totpCode)])), SignedInUnlessChallenged)"

definition magicLinkApi_requestUrl :: "string \<Rightarrow> auth_call" where
  "magicLinkApi_requestUrl email = ((POST, ''/api/v1/auth/magic-link/url'', Some (JObj [(''email'', JStr email)])), Plain)"

definition magicLinkApi_verifyUrl :: "string \<Rightarrow> auth_call" where
  "magicLinkApi_verifyUrl token =
     ((POST, ''/api/v1/auth/verify-magic-url'', Some (JObj [(''token'', JStr token)])), SignedInUnlessChallenged)"

definition partial_body :: "string \<Rightarrow> string \<Rightarrow> jsval" where
  "partial_body partialToken totpCode = JObj [(''partial_token'', JStr partialToken), (''totp_code'', JStr totpCode)]"

definition magicLinkApi_verifyUrl2fa :: "string \<Rightarrow> string \<Rightarrow> auth_call" where
  "magicLinkApi_verifyUrl2fa partialToken totpCode =
     ((POST, ''/api/v1/auth/verify-magic-url-2fa'', Some (partial_body partialToken totpCode)), SignedIn)"

definition magicLinkApi_verifyMagic2fa :: "string \<Rightarrow> string \<Rightarrow> auth_call" where
  "magicLinkApi_verifyMagic2fa partialToken totpCode =
     ((POST, ''/api/v1/auth/verify-magic-2fa'', Some (partial_body partialToken totpCode)), SignedIn)"

definition passwordApi_forgotPassword :: "string \<Rightarrow> auth_call" where
  "passwordApi_forgotPassword email = ((POST, ''/api/v1/auth/forgot-password'', Some (JObj [(''email'', JStr email)])), Plain)"

definition passwordApi_resetPassword :: "string \<Rightarrow> string \<Rightarrow> string \<Rightarrow> auth_call" where
  "passwordApi_resetPassword email code newPassword =
     ((POST, ''/api/v1/auth/reset-password'',
       Some (JObj [(''email'', JStr email), (''code'', JStr code), (''new_password'', JStr newPassword)])), Plain)"

definition accountApi_setPassword :: "string \<Rightarrow> auth_call" where
  "accountApi_setPassword password = ((POST, ''/api/v1/auth/set-password'', Some (JObj [(''password'', JStr password)])), Plain)"

definition accountApi_changePassword :: "string \<Rightarrow> string \<Rightarrow> string option \<Rightarrow> auth_call" where
  "accountApi_changePassword old_password new_password totp_code =
     ((POST, ''/api/v1/auth/change-password'',
       Some (JObj [(''old_password'', JStr old_password), (''new_password'', JStr new_password), (''totp_code'', val_opt totp_code)])),
      SignedIn)"

definition twoFactorApi_status :: auth_call where
  "twoFactorApi_status = ((GET, ''/api/v1/auth/2fa/status'', None), Plain)"

definition twoFactorApi_setup :: auth_call where
  "twoFactorApi_setup = ((GET, ''/api/v1/auth/2fa/setup'', None), Plain)"

definition twoFactorApi_enable :: "string \<Rightarrow> auth_call" where
  "twoFactorApi_enable code = ((POST, ''/api/v1/auth/2fa/enable'', Some (JObj [(''code'', JStr code)])), Plain)"

definition twoFactorApi_disable :: "string \<Rightarrow> string \<Rightarrow> auth_call" where
  "twoFactorApi_disable code password =
     ((POST, ''/api/v1/auth/2fa/disable'', Some (JObj [(''code'', JStr code), (''password'', JStr password)])), Plain)"

definition accountApi_deletionImpact :: auth_call where
  "accountApi_deletionImpact = ((GET, ''/api/v1/account/deletion-impact'', None), Plain)"

definition accountApi_delete :: "string \<Rightarrow> string option \<Rightarrow> auth_call" where
  "accountApi_delete password code =
     ((DELETE, ''/api/v1/account'', Some (JObj [(''password'', JStr password), (''code'', val_opt code)])), FinallyEnded)"

text \<open>The route policy the storefront declares when its client module is loaded.\<close>

definition web_routing :: "client \<Rightarrow> client" where
  "web_routing =
     configureAuthRouting
       (Some [''/'', ''/markets'', ''/trades'', ''/faq'', ''/docs'', ''/legal'', ''/support'']) (Some ''/login'')"

subsection \<open>A call from start to end\<close>

text \<open>A request that is alone, from its call to what hangs on its promise. The results are those of
  its calls of \<open>fetchWithRetry\<close>: \<open>call_answered\<close> takes the first one and stops there if it is
  the 401 of a session that may be refreshed; \<open>call_exchange\<close> goes on with the answer of the
  refresh (unless one has settled already) and with the result of the replay.\<close>

definition run_hook :: "session_hook \<Rightarrow> nat \<Rightarrow> client \<Rightarrow> client" where
  "run_hook h i c = (case rq_phase (requests c ! i) of Done out \<Rightarrow> after_settled h out c | _ \<Rightarrow> c)"

definition call_answered :: "auth_call \<Rightarrow> resp \<Rightarrow> client \<Rightarrow> client" where
  "call_answered call r c =
     (let ((meth, path, body), h) = call;
          (c1, i) = request_call meth path body False 3 c
      in run_hook h i (body_read i (first_response i (Res r) c1)))"

definition refresh_round :: "nat \<Rightarrow> fetch_result \<Rightarrow> fetch_result \<Rightarrow> client \<Rightarrow> client" where
  "refresh_round i answer again c =
     (let c1 = (if refreshPromise c = InFlight then refresh_answered answer c else c)
      in case refreshPromise c1 of
           Settled ok \<Rightarrow>
             let c2 = resume i ok (refresh_finally ok c1)
             in if ok then body_read i (replay_response i again c2) else c2
         | _ \<Rightarrow> c1)"

definition call_exchange :: "auth_call \<Rightarrow> fetch_result \<Rightarrow> fetch_result \<Rightarrow> fetch_result \<Rightarrow> client \<Rightarrow> client" where
  "call_exchange call result answer again c =
     (let ((meth, path, body), h) = call;
          (c1, i) = request_call meth path body False 3 c;
          c2 = body_read i (first_response i result c1)
      in run_hook h i (if rq_phase (requests c2 ! i) = Waiting then refresh_round i answer again c2 else c2))"

subsection \<open>Facts\<close>

lemma web_query_roundtrip: "read_query (web_query params) = truthy_kept params"
  by (simp add: web_query_def query_roundtrip)

text \<open>The hooks are steps of the client, so its properties hold with them.\<close>

lemma after_settled_run: "\<exists>ls. api_run c ls (after_settled h out c) \<and> ls \<in> {[], [SignIn], [SignOut]}"
proof -
  have one: "api_run c [l] c'" if "api_step c l c'" for l c'
    using run_step [OF run_refl that] by simp
  have "after_settled h out c \<in> {c, markSessionActive c, markSessionEnded c}"
    by (auto simp: after_settled_def signedIn_def signedInUnlessChallenged_def split: session_hook.split outcome.split option.split)
  then show ?thesis using one [OF signed_in] one [OF signed_out] run_refl [of c] by auto
qed

definition call_outcome :: "resp \<Rightarrow> outcome" where
  "call_outcome r =
     (if rstatus r = 401 then Rejected (credential_error r)
      else if res_ok r then json_outcome r else Rejected (status_error r))"

definition same_session :: "client \<Rightarrow> client \<Rightarrow> bool" where
  "same_session c c' \<longleftrightarrow>
     sessionState c' = sessionState c \<and> refreshBlockedUntil c' = refreshBlockedUntil c \<and> clock c' = clock c"

lemma same_session_refl [simp]: "same_session c c"
  by (simp add: same_session_def)

text \<open>The new request of a call that is not a \<open>GET\<close>.\<close>

lemma call_starts:
  assumes "meth \<noteq> GET"
  obtains c1 where "request_call meth path body False 3 c = (c1, length (requests c))" "same_session c c1"
    "length (requests c) < length (requests c1)" "rq_path (requests c1 ! length (requests c)) = path"
    "\<not> rq_auth (requests c1 ! length (requests c))" "rq_phase (requests c1 ! length (requests c)) = Sending R1 0"
  using assms
  by (cases "meth = DELETE")
    (auto simp: request_call_def Let_def start_attempt_def set_phase_def emit_def same_session_def)

lemma first_response_ends:
  assumes "i < length (requests c)" "rstatus r = 401 \<longrightarrow> isCredentialEndpoint (rq_path (requests c ! i))" "\<not> rq_auth (requests c ! i)"
  shows "same_session c (body_read i (first_response i (Res r) c))
    \<and> rq_phase (requests (body_read i (first_response i (Res r) c)) ! i) = Done (call_outcome r)"
proof -
  have "res_ok r \<Longrightarrow> rstatus r \<noteq> 401" by (simp add: res_ok_def)
  then show ?thesis
    using assms
    by (cases "rstatus r = 401"; cases "res_ok r")
      (simp_all add: first_response_def headers_arrived_def body_read_def throw_out_def request_finally_def set_phase_def
        call_outcome_def same_session_def)
qed

lemma call_settles:
  assumes "meth \<noteq> GET" "rstatus r = 401 \<longrightarrow> isCredentialEndpoint path"
  shows "\<exists>c'. same_session c c' \<and> call_answered ((meth, path, body), h) r c = after_settled h (call_outcome r) c'
    \<and> call_exchange ((meth, path, body), h) (Res r) answer again c = after_settled h (call_outcome r) c'"
proof -
  obtain c1 where c1: "request_call meth path body False 3 c = (c1, length (requests c))" "same_session c c1"
    "length (requests c) < length (requests c1)" "rq_path (requests c1 ! length (requests c)) = path"
    "\<not> rq_auth (requests c1 ! length (requests c))"
    using call_starts [OF assms(1)] by metis
  have "same_session c (body_read (length (requests c)) (first_response (length (requests c)) (Res r) c1))"
    "rq_phase (requests (body_read (length (requests c)) (first_response (length (requests c)) (Res r) c1)) ! length (requests c))
      = Done (call_outcome r)"
    using first_response_ends [of "length (requests c)" c1 r] c1 assms(2) by (auto simp: same_session_def)
  then show ?thesis using c1(1) by (auto simp: call_answered_def call_exchange_def run_hook_def)
qed

text \<open>The exchange always comes to its end, also through a refresh.\<close>

lemma phase_of_throw: "i < length (requests c) \<Longrightarrow> rq_phase (requests (throw_out i e c) ! i) = Done (Rejected e)"
  by (simp add: throw_out_def set_phase_def request_finally_def)

lemma headers_end: "i < length (requests c) \<Longrightarrow> \<exists>out. rq_phase (requests (body_read i (headers_arrived i r c)) ! i) = Done out"
  by (simp add: headers_arrived_def body_read_def throw_out_def set_phase_def request_finally_def)

lemma replay_end: "i < length (requests c) \<Longrightarrow> \<exists>out. rq_phase (requests (body_read i (replay_response i x c)) ! i) = Done out"
  using headers_end phase_of_throw by (cases x) (auto simp: replay_response_def body_read_def)

lemma refresh_round_end:
  assumes "i < length (requests c)" "refreshPromise c \<noteq> NoRefresh"
  shows "\<exists>out. rq_phase (requests (refresh_round i answer again c) ! i) = Done out"
proof -
  let ?c1 = "if refreshPromise c = InFlight then refresh_answered answer c else c"
  have answered: "requests (refresh_answered answer c) = requests c" "\<exists>ok. refreshPromise (refresh_answered answer c) = Settled ok"
    by (auto simp: refresh_answered_def doRefresh_def emit_def markSessionActive_def markSessionEnded_def split: fetch_result.split)
  then have len: "i < length (requests ?c1)" using assms(1) by simp
  have "\<exists>ok. refreshPromise ?c1 = Settled ok" using answered(2) assms(2) by (cases "refreshPromise c") simp_all
  then obtain ok where ok: "refreshPromise ?c1 = Settled ok" by blast
  let ?c2 = "resume i ok (refresh_finally ok ?c1)"
  have i: "i < length (requests (refresh_finally ok ?c1))" using len by (simp add: refresh_finally_def)
  show ?thesis
  proof (cases ok)
    case True
    have "i < length (requests ?c2)" using True i by (simp add: resume_def start_attempt_def set_phase_def emit_def)
    then show ?thesis using True ok replay_end by (simp add: refresh_round_def Let_def)
  next
    case False
    have "requests (redirectToLogin d) = requests d" for d by (auto simp: redirectToLogin_def emit_def split: option.split)
    then show ?thesis using False ok i phase_of_throw by (simp add: refresh_round_def Let_def resume_def)
  qed
qed

lemma first_response_phase:
  fixes x :: fetch_result
  assumes "i < length (requests c)" "rq_phase (requests c ! i) = Sending R1 a"
  defines "c' \<equiv> body_read i (first_response i x c)"
  shows "i < length (requests c') \<and> ((\<exists>out. rq_phase (requests c' ! i) = Done out)
    \<or> rq_phase (requests c' ! i) = Waiting \<and> refreshPromise c' \<noteq> NoRefresh)"
proof (cases x)
  case (Threw e)
  then have "c' = throw_out i e c"
    using phase_of_throw [OF assms(1)] by (simp add: c'_def first_response_def body_read_def)
  then show ?thesis using phase_of_throw [OF assms(1)] assms(1) by (simp add: throw_out_def set_phase_def request_finally_def)
next
  case (Res r)
  show ?thesis
    using assms(1)
    by (simp add: c'_def Res first_response_def headers_arrived_def body_read_def throw_out_def request_finally_def set_phase_def
        markSessionEnded_def refreshSession_def emit_def Let_def)
qed

lemma exchange_settles:
  assumes "meth \<noteq> GET"
  shows "\<exists>out c'. call_exchange ((meth, path, body), h) x answer again c = after_settled h out c'"
proof -
  obtain c1 where c1: "request_call meth path body False 3 c = (c1, length (requests c))"
    "length (requests c) < length (requests c1)" "rq_phase (requests c1 ! length (requests c)) = Sending R1 0"
    using call_starts [OF assms] by metis
  let ?c2 = "body_read (length (requests c)) (first_response (length (requests c)) x c1)"
  let ?c3 = "if rq_phase (requests ?c2 ! length (requests c)) = Waiting then refresh_round (length (requests c)) answer again ?c2 else ?c2"
  have "\<exists>out. rq_phase (requests ?c3 ! length (requests c)) = Done out"
    using first_response_phase [OF c1(2,3), of x] refresh_round_end [of "length (requests c)" ?c2 answer again] by auto
  then obtain out where "rq_phase (requests ?c3 ! length (requests c)) = Done out" ..
  then have "call_exchange ((meth, path, body), h) x answer again c = after_settled h out ?c3"
    using c1(1) by (simp add: call_exchange_def run_hook_def)
  then show ?thesis by blast
qed

text \<open>A rejected \<open>fetch\<close> ends the call of a sign-in without touching the session.\<close>

lemma call_thrown:
  assumes "meth \<noteq> GET"
  shows "\<exists>c'. same_session c c' \<and> call_exchange ((meth, path, body), h) (Threw e) answer again c = after_settled h (Rejected e) c'"
proof -
  obtain c1 where c1: "request_call meth path body False 3 c = (c1, length (requests c))" "same_session c c1"
    "length (requests c) < length (requests c1)"
    using call_starts [OF assms] by metis
  let ?c2 = "throw_out (length (requests c)) e c1"
  have "body_read (length (requests c)) (first_response (length (requests c)) (Threw e) c1) = ?c2"
    using phase_of_throw [OF c1(3)] by (simp add: first_response_def body_read_def)
  moreover have "same_session c ?c2" using c1(2) by (simp add: same_session_def throw_out_def set_phase_def request_finally_def)
  ultimately show ?thesis using c1(1,3) phase_of_throw [OF c1(3)] by (auto simp: call_exchange_def run_hook_def)
qed

definition sign_in_calls :: "auth_call set" where
  "sign_in_calls =
     (\<Union>e p t. {authApi_login e p t, magicLinkApi_verifyCode e p t, accountApi_changePassword e p t})
   \<union> (\<Union>p t. {magicLinkApi_verifyUrl t, magicLinkApi_verifyUrl2fa p t, magicLinkApi_verifyMagic2fa p t})"

definition challenge :: "jsval \<Rightarrow> bool" where
  "challenge res \<longleftrightarrow> (\<exists>data. js_get res ''data'' = Some data \<and> js_truthy (Api_Errors.field data ''requires_2fa''))"

lemma sign_in_call_shape:
  assumes "call \<in> sign_in_calls"
  obtains path body h where "call = ((POST, path, body), h)" "isCredentialEndpoint path" "h \<in> {SignedIn, SignedInUnlessChallenged}"
  using assms unfolding sign_in_calls_def
  by (auto simp: authApi_login_def magicLinkApi_verifyCode_def accountApi_changePassword_def magicLinkApi_verifyUrl_def
      magicLinkApi_verifyUrl2fa_def magicLinkApi_verifyMagic2fa_def isCredentialEndpoint_def CREDENTIAL_PATHS_def js_first_def get_or_def)

lemma after_rejected:
  "h \<in> {SignedIn, SignedInUnlessChallenged} \<Longrightarrow> after_settled h (Rejected e) c = c"
  by (auto simp: after_settled_def signedIn_def signedInUnlessChallenged_def)

lemma js_get_none: "js_get v k = None \<longleftrightarrow> v \<in> {JNull, JUndef}"
  by (cases v) simp_all

lemma after_resolved:
  assumes "h \<in> {SignedIn, SignedInUnlessChallenged}" "same_session c c'"
  shows "if h = SignedInUnlessChallenged \<and> (challenge v \<or> v \<in> {JNull, JUndef})
    then same_session c (after_settled h (Resolved v) c')
    else sessionState (after_settled h (Resolved v) c') = SActive
      \<and> (0 \<le> clock c \<longrightarrow> \<not> refreshSuppressed (after_settled h (Resolved v) c'))"
  using assms js_get_none [of v "''data''"]
  by (auto simp: after_settled_def signedIn_def signedInUnlessChallenged_def challenge_def markSessionActive_def
      refreshSuppressed_def same_session_def split: option.splits)

text \<open>C2.
  The session follows the answer. \<open>result\<close> is what \<open>fetchWithRetry\<close> gave a sign-in (a login, a
  magic-link verification, a change of password): an accepted response whose body is JSON marks the
  session active, even one known to be dead, so that later 401s are refreshed again, with two
  exceptions for the magic-link calls, whose hook reads \<open>res.data\<close>: a two-factor challenge
  and the body \<open>null\<close> leave the session as it was. A refused response, a body that is not JSON and a
  rejected \<open>fetch\<close> leave it as it was. Signing out and deleting the account end the session whatever
  the server answers, a 401 included: if the session was not known to be dead that 401 is first
  refreshed and the request replayed, and whatever comes of it, the client considers itself
  signed out and will not refresh, although after a deletion that was refused for a wrong password
  the cookies are still good.
\<close>

theorem session_follows_answer:
  fixes c :: client and r :: resp and result answer again :: fetch_result
  assumes "call \<in> sign_in_calls"
  shows "(\<forall>v. result = Res r \<and> res_ok r \<and> rbody r = Some v \<longrightarrow>
        (if snd call = SignedInUnlessChallenged \<and> (challenge v \<or> v \<in> {JNull, JUndef})
         then same_session c (call_exchange call result answer again c)
         else sessionState (call_exchange call result answer again c) = SActive
           \<and> (0 \<le> clock c \<longrightarrow> \<not> refreshSuppressed (call_exchange call result answer again c))))
    \<and> (result = Res r \<and> (\<not> res_ok r \<or> rbody r = None) \<or> result = Threw e \<longrightarrow>
        same_session c (call_exchange call result answer again c))
    \<and> (\<forall>pw code. sessionState (call_exchange (accountApi_delete pw code) result answer again c) = SNone
        \<and> refreshSuppressed (call_exchange (accountApi_delete pw code) result answer again c))
    \<and> sessionState (call_exchange authApi_logout result answer again c) = SNone
    \<and> refreshSuppressed (call_exchange authApi_logout result answer again c)"
proof -
  obtain path body h where call: "call = ((POST, path, body), h)" "isCredentialEndpoint path" "h \<in> {SignedIn, SignedInUnlessChallenged}"
    using sign_in_call_shape [OF assms] .
  have ended: "sessionState (call_exchange ((meth, p, b), FinallyEnded) result answer again c) = SNone
      \<and> refreshSuppressed (call_exchange ((meth, p, b), FinallyEnded) result answer again c)" if "meth \<noteq> GET" for meth p b
    using exchange_settles [OF that, of p b FinallyEnded result answer again c]
    by (auto simp: after_settled_def markSessionEnded_def refreshSuppressed_def)
  have accepted: "if h = SignedInUnlessChallenged \<and> (challenge v \<or> v \<in> {JNull, JUndef})
         then same_session c (call_exchange call (Res r) answer again c)
         else sessionState (call_exchange call (Res r) answer again c) = SActive
           \<and> (0 \<le> clock c \<longrightarrow> \<not> refreshSuppressed (call_exchange call (Res r) answer again c))"
    if "res_ok r" "rbody r = Some v" for v
  proof -
    have "call_outcome r = Resolved v" using that by (auto simp: call_outcome_def json_outcome_def res_ok_def)
    then obtain c' where c': "same_session c c'" "call_exchange call (Res r) answer again c = after_settled h (Resolved v) c'"
      using call_settles [of POST r path c body h answer again] call by auto
    show ?thesis unfolding c'(2) by (rule after_resolved [OF call(3) c'(1)])
  qed
  have refused: "same_session c (call_exchange call (Res r) answer again c)" if "\<not> res_ok r \<or> rbody r = None"
  proof -
    have "\<exists>e. call_outcome r = Rejected e" using that by (auto simp: call_outcome_def json_outcome_def)
    then show ?thesis using call_settles [of POST r path c body h answer again] call(1,2) after_rejected [OF call(3)] by auto
  qed
  have thrown: "same_session c (call_exchange call (Threw e) answer again c)"
    using call_thrown [of POST c path body h e answer again] call after_rejected [OF call(3)] by auto
  show ?thesis
    using accepted refused thrown ended by (auto simp: call(1) accountApi_delete_def authApi_logout_def)
qed

theorem session_follows_answer_witness:
  "sessionState (call_exchange (authApi_login ''a@b.c'' ''pw'' None) (Res \<lparr>rstatus = 200, rbody = Some (JObj []), retryAfter = None\<rparr>)
     (Threw NonError) (Threw NonError) (markSessionEnded (initial_client 0 None))) = SActive
   \<and> sessionState (call_exchange (accountApi_delete ''typo'' None) (Res \<lparr>rstatus = 401, rbody = None, retryAfter = None\<rparr>)
     (Res \<lparr>rstatus = 200, rbody = None, retryAfter = None\<rparr>) (Res \<lparr>rstatus = 401, rbody = None, retryAfter = None\<rparr>)
     (initial_client 0 None)) = SNone"
proof -
  have 1: "authApi_login ''a@b.c'' ''pw'' None \<in> sign_in_calls" by (auto simp: sign_in_calls_def)
  show ?thesis
    using session_follows_answer [OF 1, where result = "Res \<lparr>rstatus = 200, rbody = Some (JObj []), retryAfter = None\<rparr>"
        and r = "\<lparr>rstatus = 200, rbody = Some (JObj []), retryAfter = None\<rparr>" and answer = "Threw NonError"
        and again = "Threw NonError" and c = "markSessionEnded (initial_client 0 None)"]
      session_follows_answer [OF 1, where result = "Res \<lparr>rstatus = 401, rbody = None, retryAfter = None\<rparr>"
        and answer = "Res \<lparr>rstatus = 200, rbody = None, retryAfter = None\<rparr>"
        and again = "Res \<lparr>rstatus = 401, rbody = None, retryAfter = None\<rparr>" and c = "initial_client 0 None"]
    by (simp add: authApi_login_def res_ok_def)
qed

end
