(* ===== verification/Query_Cache.thy ===== *)
theory Query_Cache
  imports Web_Api Ws_Backoff
begin

text \<open>
  What the storefront keeps in its query cache and when it drops or refetches it: the keys of
  \<^verbatim>\<open>lib/api/queryKeys.ts\<close>, the resync of the private feed (\<^verbatim>\<open>lib/ws-resync.ts\<close>), the sign-out of
  \<^verbatim>\<open>hooks/use-auth-context.tsx\<close>, the policy of the identity query (\<^verbatim>\<open>hooks/use-auth.ts\<close>,
  \<^verbatim>\<open>hooks/api/use-auth-gate.ts\<close>) and what the mutations of \<^verbatim>\<open>hooks/api/*.ts\<close> invalidate.

  The cache itself is the query library's. Which keys a filter selects is the parameter \<open>matches\<close>;
  the code relies on what the library documents of it, the predicate \<open>prefix_matching\<close>: a filter of
  plain strings selects the keys it is a prefix of.
\<close>

subsection \<open>Keys\<close>

type_synonym query_key = "jsval list"

abbreviation str_key :: "string list \<Rightarrow> query_key" where
  "str_key ks \<equiv> map JStr ks"

definition with_params :: "string list \<Rightarrow> jsval option \<Rightarrow> query_key" where
  "with_params ks p = str_key ks @ (case p of None \<Rightarrow> [] | Some v \<Rightarrow> [v])"

definition with_name :: "string list \<Rightarrow> string option \<Rightarrow> query_key" where
  "with_name ks n = (case n of Some s \<Rightarrow> if s = [] then str_key ks else str_key (ks @ [s]) | None \<Rightarrow> str_key ks)"

definition key_me :: query_key where "key_me = str_key [''auth'', ''me'']"
definition key_sessions :: query_key where "key_sessions = str_key [''auth'', ''sessions'']"
definition key_twoFactorStatus :: query_key where "key_twoFactorStatus = str_key [''auth'', ''2fa'', ''status'']"
definition key_deletionImpact :: query_key where "key_deletionImpact = str_key [''account'', ''deletion-impact'']"
definition key_markets :: "jsval option \<Rightarrow> query_key" where "key_markets p = with_params [''markets''] p"
definition key_market :: "string \<Rightarrow> query_key" where "key_market slug = str_key [''market'', slug]"
definition key_myMarkets :: "int option \<Rightarrow> query_key" where
  "key_myMarkets page = [JStr ''my-markets'', JNum (of_rat_js (of_int (get_or page 1)))]"
definition key_marketActivity :: "string \<Rightarrow> query_key" where "key_marketActivity slug = str_key [''market-activity'', slug]"
definition key_marketTrades :: "string \<Rightarrow> query_key" where "key_marketTrades slug = str_key [''market-trades'', slug]"
definition key_globalTrades :: "string option \<Rightarrow> query_key" where "key_globalTrades n = with_name [''global-trades''] n"
definition key_marketTradesPage :: "string \<Rightarrow> jsval \<Rightarrow> query_key" where
  "key_marketTradesPage slug params = [JStr ''market-trades'', JStr slug, JStr ''simple'', params]"
definition key_globalTradesPage :: "string option \<Rightarrow> jsval \<Rightarrow> query_key" where
  "key_globalTradesPage marketSlug params = [JStr ''global-trades'', val_opt marketSlug, JStr ''simple'', params]"
definition key_comments :: "string \<Rightarrow> query_key" where "key_comments slug = str_key [''comments'', slug]"
definition key_faqs :: "string \<Rightarrow> query_key" where "key_faqs slug = str_key [''faqs'', slug]"
definition key_relatedMarkets :: "string \<Rightarrow> query_key" where "key_relatedMarkets slug = str_key [''related-markets'', slug]"
definition key_priceHistory :: "string \<Rightarrow> string option \<Rightarrow> query_key" where
  "key_priceHistory slug interval = with_name [''price-history'', slug] interval"
definition key_marketCategories :: query_key where "key_marketCategories = str_key [''market-categories'']"
definition key_orderBook :: "string \<Rightarrow> query_key" where "key_orderBook slug = str_key [''orderbook'', slug]"
definition key_orders :: "jsval option \<Rightarrow> query_key" where "key_orders p = with_params [''orders''] p"
definition key_order :: "string \<Rightarrow> query_key" where "key_order i = str_key [''order'', i]"
definition key_quote :: "string \<Rightarrow> query_key" where "key_quote k = str_key [''quote'', k]"
definition key_wallet :: query_key where "key_wallet = str_key [''wallet'']"
definition key_transactions :: query_key where "key_transactions = str_key [''transactions'']"
definition key_positions :: query_key where "key_positions = str_key [''positions'']"
definition key_trades :: query_key where "key_trades = str_key [''trades'']"
definition key_notifications :: "jsval option \<Rightarrow> query_key" where "key_notifications p = with_params [''notifications''] p"
definition key_notificationPreferences :: query_key where "key_notificationPreferences = str_key [''notification-preferences'']"
definition key_alerts :: query_key where "key_alerts = str_key [''alerts'']"
definition key_disputes :: "string option \<Rightarrow> query_key" where "key_disputes m = with_name [''disputes''] m"
definition key_flags :: "string option \<Rightarrow> query_key" where "key_flags m = with_name [''flags''] m"
definition key_lpAnalytics :: query_key where "key_lpAnalytics = str_key [''lp-analytics'']"
definition key_lpPosition :: "string \<Rightarrow> query_key" where "key_lpPosition m = str_key [''lp-position'', m]"
definition key_splitMerge :: query_key where "key_splitMerge = str_key [''split-merge'']"
definition key_referrals :: query_key where "key_referrals = str_key [''referrals'']"
definition key_referralCode :: query_key where "key_referralCode = str_key [''referral-code'']"
definition key_referralStats :: query_key where "key_referralStats = str_key [''referral-stats'']"
definition key_treasury :: query_key where "key_treasury = str_key [''treasury'']"
definition key_treasuryLogs :: "jsval option \<Rightarrow> query_key" where "key_treasuryLogs p = with_params [''treasury-logs''] p"

subsection \<open>The cache\<close>

record cached_query =
  q_key :: query_key
  q_data :: jsval
  q_stale :: bool

type_synonym matcher = "query_key \<Rightarrow> query_key \<Rightarrow> bool"

definition prefix_matching :: "matcher \<Rightarrow> bool" where
  "prefix_matching matches \<longleftrightarrow> (\<forall>ks key. matches (str_key ks) key \<longleftrightarrow> prefix (str_key ks) key)"

definition removeQueries :: "matcher \<Rightarrow> query_key \<Rightarrow> cached_query list \<Rightarrow> cached_query list" where
  "removeQueries matches k cache = filter (\<lambda>e. \<not> matches k (q_key e)) cache"

definition invalidateQueries :: "matcher \<Rightarrow> query_key \<Rightarrow> cached_query list \<Rightarrow> cached_query list" where
  "invalidateQueries matches k cache = map (\<lambda>e. if matches k (q_key e) then e\<lparr>q_stale := True\<rparr> else e) cache"

definition getQueryData :: "query_key \<Rightarrow> cached_query list \<Rightarrow> jsval option" where
  "getQueryData k cache = map_option q_data (List.find (\<lambda>e. q_key e = k) cache)"

definition invalidate_all :: "matcher \<Rightarrow> query_key list \<Rightarrow> cached_query list \<Rightarrow> cached_query list" where
  "invalidate_all matches ks cache = fold (invalidateQueries matches) ks cache"

subsection \<open>Sign-out and resync\<close>

text \<open>Both callbacks of the sign-out mutation of \<open>AuthProvider\<close> drop the same queries.\<close>

definition logout_keys :: "query_key list" where
  "logout_keys = [key_me, key_positions, key_orders None, key_notifications None]"

definition logout_cleanup :: "matcher \<Rightarrow> cached_query list \<Rightarrow> cached_query list" where
  "logout_cleanup matches cache = fold (removeQueries matches) logout_keys cache"

definition WS_RESYNC :: string where "WS_RESYNC = ''__ws_resync__''"

definition applyPrivateFeedResync :: "matcher \<Rightarrow> jsval \<Rightarrow> cached_query list \<Rightarrow> cached_query list \<times> bool" where
  "applyPrivateFeedResync matches payload cache =
     (if Api_Errors.field payload ''type'' \<noteq> JStr WS_RESYNC then (cache, False)
      else (invalidate_all matches [key_positions, key_orders None, key_wallet, str_key [''notifications'']] cache, True))"

subsection \<open>The identity query\<close>

definition shouldRetryMe :: "nat \<Rightarrow> thrown \<Rightarrow> bool" where
  "shouldRetryMe failureCount err = (if isUnauthorized err then False else failureCount < 3)"

definition me_retryDelay :: "nat \<Rightarrow> jsnum" where
  "me_retryDelay attempt = js_min2 (js_mul (Fin 1000) (of_rat_js (2 ^ attempt))) (Fin 8000)"

definition useAuthGate :: "jsval option \<Rightarrow> bool" where
  "useAuthGate user = (case user of None \<Rightarrow> False | Some u \<Rightarrow> js_truthy u)"

definition useLoadingWithGate :: "bool \<Rightarrow> bool \<Rightarrow> bool \<Rightarrow> bool" where
  "useLoadingWithGate queryLoading isAuthLoading enabled \<longleftrightarrow> queryLoading \<or> isAuthLoading \<and> \<not> enabled"

subsection \<open>Mutations\<close>

definition usePlaceOrder_onSuccess :: "matcher \<Rightarrow> cached_query list \<Rightarrow> cached_query list" where
  "usePlaceOrder_onSuccess matches = invalidate_all matches [key_orders None, key_wallet, key_positions]"

text \<open>Titles and descriptions of the error toasts.\<close>

definition usePlaceOrder_onError :: "thrown \<Rightarrow> string \<times> string" where
  "usePlaceOrder_onError err =
     (let code = apiErrorCode err in
      if code = JStr ''SLIPPAGE_EXCEEDED''
      then (''Price moved'', apiErrorMessage err ''The price changed more than expected. Please review and try again.'')
      else if code = JStr ''INSUFFICIENT_BALANCE''
      then (''Insufficient balance'', apiErrorMessage err (''You don'' @ [CHR 0x27] @ ''t have enough funds for this order.''))
      else if code = JStr ''INSUFFICIENT_SHARES''
      then (''Insufficient shares'', apiErrorMessage err (''You don'' @ [CHR 0x27] @ ''t hold enough shares for this sell order.''))
      else if code = JStr ''MARKET_CLOSED''
      then (''Market closed'', apiErrorMessage err ''This market is no longer active for trading.'')
      else if code = JStr ''POST_ONLY_WOULD_CROSS''
      then (''Post-only order rejected'',
            apiErrorMessage err (''Order would cross the spread '' @ bullet @ '' try increasing your limit price.''))
      else (''Trade failed'', apiErrorMessage err ''Your order could not be placed.''))"

definition useCancelOrder_onSuccess :: "matcher \<Rightarrow> cached_query list \<Rightarrow> cached_query list" where
  "useCancelOrder_onSuccess matches = invalidate_all matches [key_orders None, key_wallet, key_positions]"

definition useCancelOrder_onError :: "thrown \<Rightarrow> string \<times> string" where
  "useCancelOrder_onError err =
     (if apiErrorCode err = JStr ''NOT_FOUND''
      then (''Order not found'', apiErrorMessage err ''This order may have already been cancelled or filled.'')
      else (''Cancel failed'', apiErrorMessage err ''The order could not be cancelled.''))"

definition useDeposit_onSuccess :: "matcher \<Rightarrow> cached_query list \<Rightarrow> cached_query list" where
  "useDeposit_onSuccess matches = invalidate_all matches [key_wallet, key_transactions]"

definition useWithdraw_onSuccess :: "matcher \<Rightarrow> cached_query list \<Rightarrow> cached_query list" where
  "useWithdraw_onSuccess matches = invalidate_all matches [key_wallet, key_transactions]"

definition useResolveMarket_onSuccess :: "matcher \<Rightarrow> string \<Rightarrow> cached_query list \<Rightarrow> cached_query list" where
  "useResolveMarket_onSuccess matches slug =
     invalidate_all matches [key_market slug, key_marketActivity slug, key_positions, key_markets None]"

definition useClaimWinnings_onSuccess :: "matcher \<Rightarrow> string \<Rightarrow> cached_query list \<Rightarrow> cached_query list" where
  "useClaimWinnings_onSuccess matches slug = invalidate_all matches [key_positions, key_wallet, key_market slug]"

definition useCreateMarket_onSuccess :: "matcher \<Rightarrow> cached_query list \<Rightarrow> cached_query list" where
  "useCreateMarket_onSuccess matches = invalidate_all matches [key_markets None]"

definition comment_onSuccess :: "matcher \<Rightarrow> string \<Rightarrow> cached_query list \<Rightarrow> cached_query list" where
  "comment_onSuccess matches slug = invalidate_all matches [key_comments slug]"

definition markRead_onSuccess :: "matcher \<Rightarrow> cached_query list \<Rightarrow> cached_query list" where
  "markRead_onSuccess matches = invalidate_all matches [key_notifications None]"

definition twoFactor_onSuccess :: "matcher \<Rightarrow> cached_query list \<Rightarrow> cached_query list" where
  "twoFactor_onSuccess matches = invalidate_all matches [key_me, key_twoFactorStatus]"

subsection \<open>Paging\<close>

definition PAGE_SIZE :: nat where "PAGE_SIZE = 20"

definition transactions_next :: "'t list \<Rightarrow> int \<Rightarrow> int option" where
  "transactions_next page lastPageParam = (if length page = PAGE_SIZE then Some (lastPageParam + 1) else None)"

definition more_next :: "bool \<Rightarrow> int \<Rightarrow> int option" where
  "more_next has_more lastPageParam = (if has_more then Some (lastPageParam + 1) else None)"

subsection \<open>Facts\<close>

lemma invalidate_all_map:
  "invalidate_all matches ks cache = map (\<lambda>e. if \<exists>k \<in> set ks. matches k (q_key e) then e\<lparr>q_stale := True\<rparr> else e) cache"
proof (induction ks arbitrary: cache)
  case (Cons k ks)
  then show ?case by (auto simp: invalidate_all_def invalidateQueries_def)
qed (simp add: invalidate_all_def)

lemma remove_all_filter: "fold (removeQueries matches) ks cache = filter (\<lambda>e. \<forall>k \<in> set ks. \<not> matches k (q_key e)) cache"
  by (induction ks arbitrary: cache) (auto simp: removeQueries_def intro: filter_cong)

lemmas key_defs = key_me_def key_sessions_def key_twoFactorStatus_def key_deletionImpact_def key_myMarkets_def key_wallet_def
  key_transactions_def key_positions_def key_orders_def key_notifications_def key_alerts_def key_lpAnalytics_def
  key_referralCode_def key_referralStats_def key_notificationPreferences_def key_order_def with_params_def

text \<open>A resync of the private feed marks exactly the positions, orders, wallet and notifications of
  the cache as stale, whatever filters their keys carry.\<close>

lemma resync_marks_private_feed:
  assumes "prefix_matching matches" "Api_Errors.field payload ''type'' = JStr WS_RESYNC"
  shows "applyPrivateFeedResync matches payload cache =
    (map (\<lambda>e. if \<exists>n \<in> {''positions'', ''orders'', ''wallet'', ''notifications''}. prefix [JStr n] (q_key e)
              then e\<lparr>q_stale := True\<rparr> else e) cache, True)"
proof -
  have m: "matches [JStr n] key = prefix [JStr n] key" for n key
    using assms(1) [unfolded prefix_matching_def, rule_format, of "[n]" key] by simp
  show ?thesis by (simp add: applyPrivateFeedResync_def assms(2) invalidate_all_map key_defs m)
qed

lemma find_filter_same:
  assumes "\<And>e. q_key e = k \<Longrightarrow> P e"
  shows "List.find (\<lambda>e. q_key e = k) (filter P cache) = List.find (\<lambda>e. q_key e = k) cache"
  using assms by (induction cache) auto

definition account_keys :: "query_key list" where
  "account_keys = [key_wallet, key_transactions, key_sessions, key_twoFactorStatus, key_deletionImpact, key_alerts, key_lpAnalytics,
     key_referralCode, key_referralStats, key_notificationPreferences]"

text \<open>C19.
  Signing out in the header drops exactly the cached identity, positions, orders and notifications,
  whatever filters and pages their keys carry. It does not drop everything scoped to the user: the
  wallet, the transactions, the list of sessions, the alerts and the other account queries stay, so
  the next user of the browser reads the balance of the one before until it is fetched again.
\<close>

theorem logout_leaves_wallet:
  assumes "prefix_matching matches"
  shows "logout_cleanup matches cache =
      filter (\<lambda>e. \<not> prefix key_me (q_key e) \<and> \<not> prefix key_positions (q_key e)
                \<and> \<not> prefix (key_orders None) (q_key e) \<and> \<not> prefix (key_notifications None) (q_key e)) cache
    \<and> (\<forall>filters. getQueryData (key_orders filters) (logout_cleanup matches cache) = None
         \<and> getQueryData (key_notifications filters) (logout_cleanup matches cache) = None)
    \<and> (\<forall>k \<in> set account_keys. getQueryData k (logout_cleanup matches cache) = getQueryData k cache)"
proof -
  have one: "matches k key = prefix k key" if "k \<in> set logout_keys" for k key
    using assms that by (auto simp: prefix_matching_def logout_keys_def key_defs
        dest: spec [of _ "[''auth'', ''me'']"] spec [of _ "[''positions'']"] spec [of _ "[''orders'']"] spec [of _ "[''notifications'']"])
  have eq: "logout_cleanup matches cache = filter (\<lambda>e. \<forall>k \<in> set logout_keys. \<not> prefix k (q_key e)) cache"
    unfolding logout_cleanup_def remove_all_filter using one by (intro filter_cong) auto
  have "getQueryData k (logout_cleanup matches cache) = None" if "\<exists>l \<in> set logout_keys. prefix l k" for k
    using that by (fastforce simp: getQueryData_def eq find_None_iff)
  then have gone: "getQueryData (key_orders fs) (logout_cleanup matches cache) = None"
      "getQueryData (key_notifications fs) (logout_cleanup matches cache) = None" for fs
    by (simp_all add: logout_keys_def key_defs split: option.split)
  have "getQueryData k (logout_cleanup matches cache) = getQueryData k cache" if "k \<in> set account_keys" for k
    unfolding getQueryData_def eq using that
    by (subst find_filter_same) (auto simp: account_keys_def logout_keys_def key_defs)
  then show ?thesis using gone by (simp add: eq logout_keys_def)
qed

theorem logout_leaves_wallet_witness:
  "getQueryData key_wallet (logout_cleanup prefix
     [\<lparr>q_key = key_wallet, q_data = JStr ''250.00'', q_stale = False\<rparr>, \<lparr>q_key = key_me, q_data = JObj [], q_stale = False\<rparr>])
   = Some (JStr ''250.00'')"
proof -
  have pm: "prefix_matching prefix" by (simp add: prefix_matching_def)
  have "key_wallet \<in> set account_keys" by (simp add: account_keys_def)
  then have "getQueryData key_wallet (logout_cleanup prefix cache) = getQueryData key_wallet cache" for cache
    using logout_leaves_wallet [OF pm, of cache] by blast
  then show ?thesis by (simp add: getQueryData_def)
qed

text \<open>The identity is asked for at most four times, and never again after a refusal.\<close>

lemma me_retries: "shouldRetryMe n e \<Longrightarrow> n < 3 \<and> \<not> isUnauthorized e"
  by (simp add: shouldRetryMe_def split: if_splits)

end
