(* ===== verification/Chart_Data.thy ===== *)
theory Chart_Data
  imports JS_Value "HOL-Library.Sublist"
begin

text \<open>
  What the charts of \<^verbatim>\<open>packages/ui/src/components/charts\<close> do to the rows they are given before
  anything is drawn: \<^verbatim>\<open>decimate-time-series.ts\<close> thins a series to the width of the screen,
  \<^verbatim>\<open>filter-data-by-x-domain.ts\<close> cuts it to the brushed range and \<^verbatim>\<open>profit-loss-segments.ts\<close>
  splits it by sign.

  A row is an object, the list of its properties in enumeration order. Bucket edges are computed
  in floating point, as the code does, and this is where the thinning loses rows. The accessor of
  the horizontal position is a parameter that gives the time of its \<open>Date\<close>.
\<close>

type_synonym row = "(string \<times> jsval) list"

definition field :: "row \<Rightarrow> string \<Rightarrow> jsval" where
  "field r k = get_or (map_of r k) JUndef"

definition number_of :: "jsval \<Rightarrow> jsnum option" where
  "number_of v = (case v of JNum x \<Rightarrow> Some x | _ \<Rightarrow> None)"

definition row_at :: "row list \<Rightarrow> int \<Rightarrow> row" where
  "row_at data j = (if 0 \<le> j \<and> j < int (length data) then data ! nat j else [])"

text \<open>The edge of a bucket, \<open>Math.floor(k * bucketSize)\<close>. Wherever it is used the size is finite.\<close>

definition index_of :: "jsnum \<Rightarrow> int" where
  "index_of v = (case v of Fin q \<Rightarrow> \<lfloor>q\<rfloor> | _ \<Rightarrow> 0)"

definition bucket_edge :: "jsnum \<Rightarrow> nat \<Rightarrow> int" where
  "bucket_edge bucketSize k = index_of (js_floor (js_mul (Fin (of_nat k)) bucketSize))"

text \<open>A loop \<open>for (let i = 0; i < limit; i++)\<close> runs this often.\<close>

definition rounds :: "jsnum \<Rightarrow> nat" where
  "rounds limit = (case limit of Fin q \<Rightarrow> nat \<lceil>q\<rceil> | _ \<Rightarrow> 0)"

subsection \<open>Thinning a line\<close>

definition getY :: "string list \<Rightarrow> row \<Rightarrow> int \<Rightarrow> jsnum" where
  "getY valueKeys point index =
     (if valueKeys = [] then
        (case List.map_filter number_of (map snd point) of [] \<Rightarrow> Fin (of_int index) | v # _ \<Rightarrow> v)
      else
        (let (total, count) =
           foldl (\<lambda>(total, count) key.
                    case number_of (field point key) of
                      Some v \<Rightarrow> (js_add total v, count + 1)
                    | None \<Rightarrow> (total, count)) (Fin 0, 0 :: int) valueKeys
         in if 0 < count then js_div total (Fin (of_int count)) else Fin (of_int index)))"

text \<open>The point a triangle is measured against: the mean of the bucket after, or the last row.\<close>

definition next_average :: "row list \<Rightarrow> string list \<Rightarrow> jsnum \<Rightarrow> nat \<Rightarrow> jsnum \<times> jsnum" where
  "next_average data valueKeys bucketSize i =
     (let len = int (length data);
          nextRangeStart = bucket_edge bucketSize (i + 2) + 1;
          nextRangeEnd = min (bucket_edge bucketSize (i + 3) + 1) len;
          nextCount = max 0 (nextRangeEnd - nextRangeStart)
      in if 0 < nextCount then
           (let (sx, sy) =
              foldl (\<lambda>(sx, sy) j. (js_add sx (Fin (of_int j)), js_add sy (getY valueKeys (row_at data j) j)))
                (Fin 0, Fin 0) [nextRangeStart .. nextRangeEnd - 1]
            in (js_div sx (Fin (of_int nextCount)), js_div sy (Fin (of_int nextCount))))
         else (Fin (of_int (len - 1)), getY valueKeys (row_at data (len - 1)) (len - 1)))"

definition triangle_area :: "jsnum \<times> jsnum \<Rightarrow> int \<Rightarrow> jsnum \<Rightarrow> int \<Rightarrow> jsnum \<Rightarrow> jsnum" where
  "triangle_area avg ax ay j y =
     js_mul (js_abs (js_sub (js_mul (js_sub (Fin (of_int ax)) (fst avg)) (js_sub y ay))
                            (js_mul (js_sub (Fin (of_int ax)) (Fin (of_int j))) (js_sub (snd avg) ay))))
            (Fin (1 / 2))"

definition pick_index :: "row list \<Rightarrow> string list \<Rightarrow> jsnum \<Rightarrow> int \<Rightarrow> nat \<Rightarrow> int" where
  "pick_index data valueKeys bucketSize previousIndex i =
     (let len = int (length data);
          rangeStart = bucket_edge bucketSize (i + 1) + 1;
          rangeEnd = min (bucket_edge bucketSize (i + 2) + 1) (len - 1);
          avg = next_average data valueKeys bucketSize i;
          ay = getY valueKeys (row_at data previousIndex) previousIndex
      in snd (foldl (\<lambda>(maxArea, maxIndex) j.
                       let area = triangle_area avg previousIndex ay j (getY valueKeys (row_at data j) j)
                       in if js_lt maxArea area then (area, j) else (maxArea, maxIndex))
                (Fin (- 1), rangeStart) [rangeStart .. rangeEnd - 1]))"

definition decimate_loop :: "row list \<Rightarrow> string list \<Rightarrow> jsnum \<Rightarrow> nat \<Rightarrow> row list \<times> int" where
  "decimate_loop data valueKeys bucketSize n =
     foldl (\<lambda>(sampled, previousIndex) i.
              let maxIndex = pick_index data valueKeys bucketSize previousIndex i
              in (sampled @ [row_at data maxIndex], maxIndex))
       ([row_at data 0], 0) [0..<n]"

definition decimateTimeSeries :: "row list \<Rightarrow> jsnum \<Rightarrow> string list \<Rightarrow> row list" where
  "decimateTimeSeries data maxPoints valueKeys =
     (let len = int (length data) in
      if js_le (Fin (of_int len)) maxPoints \<or> js_lt maxPoints (Fin 3) then data
      else
        (let n = js_sub maxPoints (Fin 2);
             bucketSize = js_div (Fin (of_int (len - 2))) n;
             (sampled, _) = decimate_loop data valueKeys bucketSize (rounds n)
         in sampled @ [row_at data (len - 1)]))"

definition maxRenderPointsForWidth :: "jsnum \<Rightarrow> jsnum" where
  "maxRenderPointsForWidth innerWidth =
     js_max2 (Fin 64) (js_neg (js_floor (js_neg (js_mul innerWidth (Fin (3 / 2))))))"

subsection \<open>Thinning candles\<close>

definition widest :: "(jsnum \<Rightarrow> jsnum \<Rightarrow> bool) \<Rightarrow> string \<Rightarrow> jsnum \<Rightarrow> row list \<Rightarrow> jsnum" where
  "widest beats k start bucket =
     foldl (\<lambda>acc r. case number_of (field r k) of Some v \<Rightarrow> if beats v acc then v else acc | None \<Rightarrow> acc)
       start bucket"

definition merge_candles :: "row list \<Rightarrow> row" where
  "merge_candles bucket =
     (let first = hd bucket; final = last bucket;
          high = widest (\<lambda>v acc. js_lt acc v) ''high'' NInf bucket;
          low = widest (\<lambda>v acc. js_lt v acc) ''low'' PInf bucket
      in map_set ''close'' (field final ''close'')
           (map_set ''low'' (if is_finite_num low then JNum low else field final ''low'')
             (map_set ''high'' (if is_finite_num high then JNum high else field final ''high'')
               (map_set ''open'' (field first ''open'') final))))"

definition ohlc_slice :: "row list \<Rightarrow> jsnum \<Rightarrow> nat \<Rightarrow> row list" where
  "ohlc_slice data bucketSize i =
     (let start = bucket_edge bucketSize i;
          end = min (int (length data)) (bucket_edge bucketSize (i + 1))
      in take (nat (end - start)) (drop (nat start) data))"

definition decimateOhlcData :: "row list \<Rightarrow> jsnum \<Rightarrow> row list" where
  "decimateOhlcData data maxPoints =
     (let len = int (length data) in
      if js_le (Fin (of_int len)) maxPoints \<or> js_lt maxPoints (Fin 2) then data
      else
        (let bucketSize = js_div (Fin (of_int len)) maxPoints
         in List.map_filter
              (\<lambda>i. let bucket = ohlc_slice data bucketSize i
                   in if bucket = [] then None else Some (merge_candles bucket))
              [0..<rounds maxPoints]))"

subsection \<open>Ranges\<close>

definition filterDataByXDomain :: "row list \<Rightarrow> jsnum \<times> jsnum \<Rightarrow> (row \<Rightarrow> jsnum) \<Rightarrow> row list" where
  "filterDataByXDomain data xDomain xAccessor =
     (let minTime = js_min [fst xDomain, snd xDomain]; maxTime = js_max [fst xDomain, snd xDomain]
      in filter (\<lambda>d. js_le minTime (xAccessor d) \<and> js_le (xAccessor d) maxTime) data)"

definition resolveDataXExtent :: "row list \<Rightarrow> (row \<Rightarrow> jsnum) \<Rightarrow> (jsnum \<times> jsnum) option" where
  "resolveDataXExtent data xAccessor =
     (if data = [] then None
      else
        (let (minTime, maxTime) =
           foldl (\<lambda>(lo, hi) point. let time = xAccessor point
                    in (if js_lt time lo then time else lo, if js_lt hi time then time else hi)) (PInf, NInf) data
         in if minTime = PInf then None else Some (minTime, maxTime)))"

definition resolveBrushTrackXExtent :: "row list \<Rightarrow> (row \<Rightarrow> jsnum) \<Rightarrow> jsnum option \<Rightarrow> (jsnum \<times> jsnum) option" where
  "resolveBrushTrackXExtent data xAccessor xExtentMax =
     (case resolveDataXExtent data xAccessor of
        None \<Rightarrow> None
      | Some extent \<Rightarrow>
          (case xExtentMax of
             None \<Rightarrow> Some extent
           | Some m \<Rightarrow> if js_le m (snd extent) then Some extent else Some (fst extent, m)))"

subsection \<open>Runs of one sign\<close>

record ProfitLossSegment =
  seg_data :: "row list"
  isPositive :: bool

text \<open>The loop body; the flag says whether \<open>current\<close> is set, and then it is the last segment.\<close>

definition split_step :: "string \<Rightarrow> ProfitLossSegment list \<times> bool \<Rightarrow> row \<Rightarrow> ProfitLossSegment list \<times> bool" where
  "split_step dataKey st point =
     (case field point dataKey of
        JNum (Fin x) \<Rightarrow>
          (let (segments, current) = st; pos = (0 \<le> x)
           in if \<not> current \<or> isPositive (last segments) \<noteq> pos
              then (segments @ [\<lparr>seg_data = [point], isPositive = pos\<rparr>], True)
              else (butlast segments @ [last segments\<lparr>seg_data := seg_data (last segments) @ [point]\<rparr>], True))
      | _ \<Rightarrow> (fst st, False))"

definition splitProfitLossSegments :: "row list \<Rightarrow> string \<Rightarrow> ProfitLossSegment list" where
  "splitProfitLossSegments data dataKey =
     filter (\<lambda>segment. 1 < length (seg_data segment)) (fst (foldl (split_step dataKey) ([], False) data))"

subsection \<open>Bucket edges\<close>

text \<open>With the size \<open>a / n\<close> rounded to a double the edges still grow, and the edge of bucket \<open>n\<close>
  is \<open>a\<close> or, when the product rounds down, one less.\<close>

definition bucket_size :: "int \<Rightarrow> int \<Rightarrow> rat" where
  "bucket_size a n = round64 (of_int a / of_int n)"

definition sizes_ok :: "int \<Rightarrow> int \<Rightarrow> bool" where
  "sizes_ok a n \<longleftrightarrow> 1 \<le> n \<and> n \<le> a \<and> a < 2 ^ 40"

lemma small_int_double: "0 \<le> a \<Longrightarrow> a < 2 ^ 41 \<Longrightarrow> is_double (of_int a)"
  by (rule is_double_of_int) simp

lemma bucket_size_bounds:
  assumes "sizes_ok a n"
  shows "1 \<le> bucket_size a n" "of_int (a div n) \<le> bucket_size a n"
    "of_int a - 1 / 2 \<le> of_int n * bucket_size a n" "of_int n * bucket_size a n \<le> of_int a + 1 / 2"
    "js_div (Fin (of_int a)) (Fin (of_int n)) = Fin (bucket_size a n)"
proof -
  let ?x = "of_int a / of_int n :: rat"
  have n: "0 < (of_int n :: rat)" and a: "(of_int a :: rat) < 2 ^ 40"
    using assms of_int_less_iff [of a "2 ^ 40", where 'a = rat] by (simp_all add: sizes_ok_def)
  have x: "1 \<le> ?x" using assms n by (simp add: sizes_ok_def field_simps)
  have d: "of_int (a div n) \<le> ?x"
    using of_int_floor_le [of ?x] by (simp only: floor_divide_of_int_eq)
  have dn: "0 \<le> a div n" "a div n \<le> a"
    using assms div_by_1 [of a] zdiv_mono2 [of a 1 n] by (auto simp: sizes_ok_def pos_imp_zdiv_nonneg_iff)
  have "\<bar>a div n\<bar> \<le> 2 ^ 53" using dn assms by (auto simp: sizes_ok_def)
  then show "of_int (a div n) \<le> bucket_size a n" using d r64.rnd_lower by (auto simp: bucket_size_def)
  show "1 \<le> bucket_size a n" using x r64.rnd_lower [of 1 ?x] by (simp add: bucket_size_def)
  have "of_int n * \<bar>bucket_size a n - ?x\<bar> \<le> of_int n * (?x / 2 ^ 53)"
    unfolding bucket_size_def using n x by (intro mult_left_mono round64_error) auto
  also have "\<dots> = of_int a / 2 ^ 53" using n by simp
  also have "\<dots> \<le> 1 / 2 ^ 13" using a by (simp add: field_simps)
  also have "of_int n * \<bar>bucket_size a n - ?x\<bar> = \<bar>of_int n * bucket_size a n - of_int a\<bar>"
    using n by (simp add: abs_mult_pos' right_diff_distrib)
  finally have "\<bar>of_int n * bucket_size a n - of_int a\<bar> \<le> 1 / 2 ^ 13" .
  then show "of_int a - 1 / 2 \<le> of_int n * bucket_size a n" "of_int n * bucket_size a n \<le> of_int a + 1 / 2"
    unfolding abs_le_iff by simp_all
  have "?x \<le> of_int a" using n assms by (simp add: sizes_ok_def field_simps)
  then show "js_div (Fin (of_int a)) (Fin (of_int n)) = Fin (bucket_size a n)"
    using of_rat_js_bounded [of 1 "of_int a" ?x] x n assms is_double_of_int [of 1] is_double_of_int [of a]
    by (auto simp: bucket_size_def sizes_ok_def dest: of_rat_js_Fin)
qed

lemma bucket_edge_floor:
  assumes "sizes_ok a n" "int k \<le> n"
  shows "bucket_edge (Fin (bucket_size a n)) k = \<lfloor>round64 (of_nat k * bucket_size a n)\<rfloor>"
proof -
  let ?b = "bucket_size a n"
  have "of_nat k \<le> (of_int n :: rat)" using assms(2) by (metis of_int_le_iff of_int_of_nat_eq)
  then have "of_nat k * ?b \<le> of_int n * ?b"
    using bucket_size_bounds(1) [OF assms(1)] by (intro mult_right_mono) simp_all
  also have "\<dots> \<le> of_int (a + 1)" using bucket_size_bounds(4) [OF assms(1)] by simp
  finally have "of_nat k * ?b \<le> of_int (a + 1)" .
  moreover have "0 \<le> of_nat k * ?b" using bucket_size_bounds(1) [OF assms(1)] by simp
  moreover have "is_double 0" "is_double (of_int (a + 1))"
    using is_double_of_int [of 0] is_double_of_int [of "a + 1"] assms(1) by (simp_all add: sizes_ok_def)
  ultimately obtain y where "of_rat_js (of_nat k * ?b) = Fin y"
    using of_rat_js_bounded by blast
  moreover from this have "y = round64 (of_nat k * ?b)" by (simp add: of_rat_js_Fin)
  ultimately show ?thesis by (simp add: bucket_edge_def index_of_def)
qed

lemma bucket_edge_zero: "sizes_ok a n \<Longrightarrow> bucket_edge (Fin (bucket_size a n)) 0 = 0"
  by (subst bucket_edge_floor) (simp_all add: sizes_ok_def r64.rnd_zero)

lemma bucket_edge_mono:
  assumes "sizes_ok a n" "j \<le> k" "int k \<le> n"
  shows "bucket_edge (Fin (bucket_size a n)) j \<le> bucket_edge (Fin (bucket_size a n)) k"
proof -
  have "of_nat j * bucket_size a n \<le> of_nat k * bucket_size a n"
    using assms bucket_size_bounds(1) [OF assms(1)] by (intro mult_right_mono) auto
  then show ?thesis
    using assms by (auto simp: bucket_edge_floor intro!: floor_mono round64_mono)
qed

lemma bucket_edge_one:
  assumes "sizes_ok a n"
  shows "a div n \<le> bucket_edge (Fin (bucket_size a n)) 1"
  using assms bucket_size_bounds(2) [OF assms] bucket_edge_floor [OF assms, of 1]
  by (simp add: sizes_ok_def bucket_size_def round64_idem le_floor_iff)

lemma bucket_edge_last:
  assumes "sizes_ok a n" "int k = n"
  shows "bucket_edge (Fin (bucket_size a n)) k \<in> {a - 1, a}"
proof -
  let ?y = "of_int n * bucket_size a n"
  have a: "0 < a" "a < 2 ^ 40" using assms by (auto simp: sizes_ok_def)
  have half: "round64 (of_int (2 * a + 1) / 2) = of_int (2 * a + 1) / 2"
    using round64_exact [of "2 * a + 1" "- 1"] a by simp
  have "?y \<le> of_int (2 * a + 1) / 2" "of_int (a - 1) \<le> ?y"
    using bucket_size_bounds(3,4) [OF assms(1)] by simp_all
  then have "round64 ?y \<le> of_int (2 * a + 1) / 2" "of_int (a - 1) \<le> round64 ?y"
    using half round64_mono [of ?y "of_int (2 * a + 1) / 2"] r64.rnd_lower [of "a - 1" ?y] a by auto
  then have "\<lfloor>round64 ?y\<rfloor> \<le> a" "a - 1 \<le> \<lfloor>round64 ?y\<rfloor>"
    by (auto simp: floor_le_iff le_floor_iff)
  moreover have "(of_nat k :: rat) = of_int n" using assms(2) by (metis of_int_of_nat_eq)
  ultimately show ?thesis unfolding bucket_edge_floor [OF assms(1) eq_refl [OF assms(2)]] by auto
qed

subsection \<open>The rows a thinned line keeps\<close>

lemma foldl_choice:
  assumes "\<And>s j. snd (f s j) = snd s \<or> snd (f s j) = j"
  shows "snd (foldl f s js) = snd s \<or> snd (foldl f s js) \<in> set js"
proof (induction js rule: rev_induct)
  case (snoc j js)
  then show ?case using assms [of "foldl f s js" j] by auto
qed simp

lemma pick_index_range:
  "pick_index data ks bs p i = bucket_edge bs (i + 1) + 1 \<or>
   bucket_edge bs (i + 1) + 1 \<le> pick_index data ks bs p i \<and> pick_index data ks bs p i \<le> bucket_edge bs (i + 2) \<and>
   pick_index data ks bs p i \<le> int (length data) - 2"
proof -
  let ?rs = "bucket_edge bs (i + 1) + 1"
  let ?js = "[?rs .. min (bucket_edge bs (i + 2) + 1) (int (length data) - 1) - 1]"
  have "pick_index data ks bs p i = ?rs \<or> pick_index data ks bs p i \<in> set ?js"
    unfolding pick_index_def Let_def
    by (rule foldl_choice [where s = "(Fin (- 1), ?rs)", unfolded snd_conv]) (auto simp: split_beta)
  then show ?thesis by auto
qed

primrec kept_index :: "row list \<Rightarrow> string list \<Rightarrow> jsnum \<Rightarrow> nat \<Rightarrow> int" where
  "kept_index data ks bs 0 = 0"
| "kept_index data ks bs (Suc i) = pick_index data ks bs (kept_index data ks bs i) i"

lemma decimate_loop_kept:
  "decimate_loop data ks bs n = (map (\<lambda>k. row_at data (kept_index data ks bs k)) [0..<Suc n], kept_index data ks bs n)"
  by (induction n) (simp_all add: decimate_loop_def Let_def)

text \<open>The rows are kept in order and in range; the sample of round \<open>i\<close> comes from the bucket
  after the \<open>i\<close>-th.\<close>

lemma kept_index_bounds:
  assumes "sizes_ok (int (length data) - 2) n" "Suc i \<le> nat n"
  defines "bs \<equiv> Fin (bucket_size (int (length data) - 2) n)"
  shows "bucket_edge bs (Suc i) + 1 \<le> kept_index data ks bs (Suc i)"
    and "kept_index data ks bs (Suc i) < int (length data)"
    and "kept_index data ks bs i \<le> kept_index data ks bs (Suc i)"
proof -
  let ?e = "bucket_edge bs" and ?k = "kept_index data ks bs"
  have n: "0 < n" "int (Suc i) \<le> n" using assms(1,2) by (auto simp: sizes_ok_def)
  have le: "?e (Suc i) \<le> ?e (nat n)" using bucket_edge_mono [OF assms(1)] assms(2) n unfolding bs_def by simp
  have last: "?e (nat n) \<le> int (length data) - 2" using bucket_edge_last [OF assms(1), of "nat n"] n unfolding bs_def by auto
  have r: "?k (Suc j) = ?e (Suc j) + 1 \<or> ?e (Suc j) + 1 \<le> ?k (Suc j) \<and> ?k (Suc j) \<le> ?e (Suc (Suc j)) \<and> ?k (Suc j) \<le> int (length data) - 2" for j
    using pick_index_range [where bs = bs and i = j and data = data and ks = ks and p = "?k j"] by simp
  show lo: "?e (Suc i) + 1 \<le> ?k (Suc i)" using r [of i] by auto
  show "?k (Suc i) < int (length data)" using r [of i] le last by auto
  have "0 \<le> ?e (Suc i)"
    using bucket_edge_mono [OF assms(1), of 0 "Suc i"] n bucket_edge_zero [OF assms(1)] unfolding bs_def by simp
  moreover have "?k i \<le> ?e (Suc i) + 1" if "i = Suc j" for j
    using r [of j] bucket_edge_mono [OF assms(1), of i "Suc i"] n that unfolding bs_def by auto
  ultimately have "?k i \<le> ?e (Suc i) + 1" by (cases i) auto
  then show "?k i \<le> ?k (Suc i)" using lo by simp
qed

lemma js_sub_two: "3 \<le> m \<Longrightarrow> m < 2 ^ 40 \<Longrightarrow> js_sub (Fin (of_int m)) (Fin 2) = Fin (of_int (m - 2))"
  using of_rat_js_double [OF is_double_of_int [of "m - 2"]] by (simp add: js_sub_def)

lemma decimateTimeSeries_kept:
  assumes "3 \<le> m" "m < int (length data)" "int (length data) < 2 ^ 40"
  defines "bs \<equiv> Fin (bucket_size (int (length data) - 2) (m - 2))"
  shows "decimateTimeSeries data (Fin (of_int m)) ks =
    map (\<lambda>k. row_at data (kept_index data ks bs k)) [0..<Suc (nat (m - 2))] @ [row_at data (int (length data) - 1)]"
proof -
  have ok: "sizes_ok (int (length data) - 2) (m - 2)" using assms(1-3) by (simp add: sizes_ok_def)
  have "\<not> js_le (Fin (of_int (int (length data)))) (Fin (of_int m))"
    using assms(2) of_int_le_iff [of "int (length data)" m, where 'a = rat] by (auto simp: js_le_def js_eq_def)
  moreover have "\<not> js_lt (Fin (of_int m)) (Fin 3)"
    using assms(1) of_int_less_iff [of m 3, where 'a = rat] by simp
  moreover have "js_sub (Fin (of_int m)) (Fin 2) = Fin (of_int (m - 2))" using assms(1-3) by (intro js_sub_two) auto
  moreover have "rounds (Fin (of_int (m - 2))) = nat (m - 2)" by (simp only: rounds_def jsnum.case ceiling_of_int)
  ultimately show ?thesis
    unfolding decimateTimeSeries_def Let_def bs_def
    by (simp only: if_False simp_thms bucket_size_bounds(5) [OF ok] decimate_loop_kept prod.case)
qed

lemma kept_indices:
  assumes "sizes_ok (int (length data) - 2) n"
  defines "bs \<equiv> Fin (bucket_size (int (length data) - 2) n)"
  shows "i \<le> j \<Longrightarrow> j \<le> nat n \<Longrightarrow> kept_index data ks bs i \<le> kept_index data ks bs j"
    and "i \<le> nat n \<Longrightarrow> 0 \<le> kept_index data ks bs i \<and> kept_index data ks bs i < int (length data)"
    and "0 < i \<Longrightarrow> i \<le> nat n \<Longrightarrow> (int (length data) - 2) div n < kept_index data ks bs i"
    and "int (length data) - 2 \<le> kept_index data ks bs (nat n)"
proof -
  let ?k = "kept_index data ks bs"
  note step = kept_index_bounds [OF assms(1), folded bs_def, where ks = ks]
  have n: "1 \<le> n" "n \<le> int (length data) - 2" using assms(1) by (simp_all add: sizes_ok_def)
  show mono: "?k i \<le> ?k j" if "i \<le> j" "j \<le> nat n" for i j
    using that(1)
  proof (rule inc_induct)
    fix i' assume "i \<le> i'" "i' < j" and IH: "?k (Suc i') \<le> ?k j"
    then show "?k i' \<le> ?k j" using step(3) [of i'] that(2) by simp
  qed simp
  show "0 \<le> ?k i \<and> ?k i < int (length data)" if "i \<le> nat n" for i
    using mono [of 0 i] step(2) [of "i - 1"] that n by (cases i) auto
  show "(int (length data) - 2) div n < ?k i" if "0 < i" "i \<le> nat n" for i
    using mono [of 1 i] step(1) [of 0] that bucket_edge_one [OF assms(1), folded bs_def] by auto
  show "int (length data) - 2 \<le> ?k (nat n)"
    using step(1) [of "nat n - 1"] bucket_edge_last [OF assms(1), of "nat n", folded bs_def] n by auto
qed

text \<open>A line of \<open>m\<close> samples, \<open>3 \<le> m\<close> and fewer than its rows, keeps \<open>m\<close> rows of the series in order,
  the first and the last among them. The buckets are off by one, though: the rows of the first
  bucket after row 0 (there are at least \<open>(len - 2) div (m - 2)\<close> of them) are never drawn,
  whatever they hold, while the last sample before the end is the last or the last but one row.
\<close>

theorem decimation_skips_first_bucket:
  assumes "3 \<le> m" "m < int (length data)" "int (length data) < 2 ^ 40"
  shows "\<exists>is. decimateTimeSeries data (Fin (of_int m)) ks = map (row_at data) is
    \<and> int (length is) = m \<and> sorted is \<and> hd is = 0 \<and> last is = int (length data) - 1
    \<and> (\<forall>j \<in> set is. 0 \<le> j \<and> j < int (length data))
    \<and> (\<forall>j \<in> set is. j = 0 \<or> (int (length data) - 2) div (m - 2) < j)
    \<and> int (length data) - 2 \<le> is ! nat (m - 2)"
proof -
  define n where "n = nat (m - 2)"
  define bs where "bs = Fin (bucket_size (int (length data) - 2) (m - 2))"
  define k where "k = kept_index data ks bs"
  let ?is = "map k [0..<Suc n] @ [int (length data) - 1]" and ?w = "(int (length data) - 2) div (m - 2)"
  have ok: "sizes_ok (int (length data) - 2) (m - 2)" using assms by (simp add: sizes_ok_def)
  note kept = kept_indices [OF ok, folded bs_def n_def, where ks = ks, folded k_def]
  have k0: "k 0 = 0" by (simp add: k_def)
  have mem: "j \<in> set ?is \<Longrightarrow> (j = int (length data) - 1 \<Longrightarrow> P) \<Longrightarrow> (\<And>i. i \<le> n \<Longrightarrow> j = k i \<Longrightarrow> P) \<Longrightarrow> P" for j P
    by (auto simp: less_Suc_eq_le simp del: upt_Suc)
  have nth: "int (length data) - 2 \<le> ?is ! nat (m - 2)" using kept(4) by (simp add: nth_append n_def del: upt_Suc)
  have srt: "sorted ?is"
    using kept(1,2) by (auto simp: sorted_iff_nth_mono_less nth_append less_Suc_eq_le simp del: upt_Suc)
  have len: "int (length ?is) = m" using assms(1) by (simp add: n_def)
  have hd: "hd ?is = 0" by (simp add: hd_append upt_conv_Cons k0 del: upt_Suc)
  have all: "decimateTimeSeries data (Fin (of_int m)) ks = map (row_at data) ?is"
    using decimateTimeSeries_kept [OF assms, where ks = ks] by (simp add: k_def bs_def n_def o_def del: upt_Suc)
  have w: "?w \<le> int (length data) - 2"
    using assms(1,2) zdiv_mono2 [of "int (length data) - 2" 1 "m - 2"] by simp
  have "j = 0 \<or> ?w < j" if "j \<in> set ?is" for j
    using that
  proof (rule mem)
    show "j = 0 \<or> ?w < j" if "i \<le> n" "j = k i" for i using kept(3) [of i] k0 that by (cases "i = 0") simp_all
  qed (use w in linarith)
  moreover have "0 \<le> j \<and> j < int (length data)" if "j \<in> set ?is" for j
    using that by (rule mem) (use kept(2) assms in auto)
  ultimately show ?thesis using nth srt len hd all by (intro exI [of _ ?is]) auto
qed

theorem decimation_skips_first_bucket_witness:
  "\<exists>is. decimateTimeSeries (map (\<lambda>v. [(''value'', JNum (Fin v))]) [1, 90, 2, 3, 2, 1, 2, 3, 2, 1]) (Fin 4) [''value'']
      = map (row_at (map (\<lambda>v. [(''value'', JNum (Fin v))]) [1, 90, 2, 3, 2, 1, 2, 3, 2, 1])) is
    \<and> length is = 4 \<and> 1 \<notin> set is"
proof -
  let ?data = "map (\<lambda>v. [(''value'', JNum (Fin v))]) [1, 90, 2, 3, 2, 1, 2, 3, 2, 1 :: rat]"
  obtain "is" where "decimateTimeSeries ?data (Fin (of_int 4)) [''value''] = map (row_at ?data) is"
      "int (length is) = 4" "\<forall>j \<in> set is. j = 0 \<or> (int (length ?data) - 2) div (4 - 2) < j"
    using decimation_skips_first_bucket [of 4 ?data "[''value'']"] by auto
  then show ?thesis by (intro exI [of _ "is"]) auto
qed

subsection \<open>The rows a thinned candle chart keeps\<close>

lemma field_map_set: "field (map_set k v r) k' = (if k' = k then v else field r k')"
  by (simp add: field_def js_simps get_or_def)

lemma widest_snoc:
  "widest b k s (g @ [r]) = (case number_of (field r k) of Some v \<Rightarrow> if b v (widest b k s g) then v else widest b k s g | None \<Rightarrow> widest b k s g)"
  by (cases "number_of (field r k)") (simp_all add: widest_def)

definition wick :: "row \<Rightarrow> bool" where
  "wick r \<longleftrightarrow> (\<exists>h l. field r ''high'' = JNum (Fin h) \<and> field r ''low'' = JNum (Fin l))"

lemma widest_high:
  assumes "g \<noteq> []" "\<forall>r \<in> set g. wick r"
  shows "\<exists>q. widest (\<lambda>v acc. js_lt acc v) ''high'' NInf g = Fin q \<and> (\<exists>r \<in> set g. field r ''high'' = JNum (Fin q))
    \<and> (\<forall>r \<in> set g. \<forall>v. field r ''high'' = JNum (Fin v) \<longrightarrow> v \<le> q)"
  using assms
proof (induction g rule: rev_nonempty_induct)
  case (single r)
  then show ?case by (auto simp: widest_def wick_def number_of_def)
next
  case (snoc r g)
  then obtain q h where "widest (\<lambda>v acc. js_lt acc v) ''high'' NInf g = Fin q" "field r ''high'' = JNum (Fin h)"
    "\<exists>r \<in> set g. field r ''high'' = JNum (Fin q)" "\<forall>r \<in> set g. \<forall>v. field r ''high'' = JNum (Fin v) \<longrightarrow> v \<le> q"
    by (auto simp: wick_def)
  then show ?case
    by (intro exI [of _ "max q h"]) (auto simp: widest_snoc number_of_def max_def)
qed

lemma widest_low:
  assumes "g \<noteq> []" "\<forall>r \<in> set g. wick r"
  shows "\<exists>q. widest (\<lambda>v acc. js_lt v acc) ''low'' PInf g = Fin q \<and> (\<exists>r \<in> set g. field r ''low'' = JNum (Fin q))
    \<and> (\<forall>r \<in> set g. \<forall>v. field r ''low'' = JNum (Fin v) \<longrightarrow> q \<le> v)"
  using assms
proof (induction g rule: rev_nonempty_induct)
  case (single r)
  then show ?case by (auto simp: widest_def wick_def number_of_def)
next
  case (snoc r g)
  then obtain q l where "widest (\<lambda>v acc. js_lt v acc) ''low'' PInf g = Fin q" "field r ''low'' = JNum (Fin l)"
    "\<exists>r \<in> set g. field r ''low'' = JNum (Fin q)" "\<forall>r \<in> set g. \<forall>v. field r ''low'' = JNum (Fin v) \<longrightarrow> q \<le> v"
    by (auto simp: wick_def)
  then show ?case
    by (intro exI [of _ "min q l"]) (auto simp: widest_snoc number_of_def min_def)
qed

definition merges :: "row list \<Rightarrow> row \<Rightarrow> bool" where
  "merges g c \<longleftrightarrow>
     field c ''open'' = field (hd g) ''open'' \<and> field c ''close'' = field (last g) ''close''
   \<and> (\<exists>h l. field c ''high'' = JNum (Fin h) \<and> field c ''low'' = JNum (Fin l)
       \<and> (\<exists>r \<in> set g. field r ''high'' = JNum (Fin h)) \<and> (\<exists>r \<in> set g. field r ''low'' = JNum (Fin l))
       \<and> (\<forall>r \<in> set g. \<forall>v. field r ''high'' = JNum (Fin v) \<longrightarrow> v \<le> h)
       \<and> (\<forall>r \<in> set g. \<forall>v. field r ''low'' = JNum (Fin v) \<longrightarrow> l \<le> v))"

lemma merge_candles_merges: "g \<noteq> [] \<Longrightarrow> \<forall>r \<in> set g. wick r \<Longrightarrow> merges g (merge_candles g)"
  using widest_high [of g] widest_low [of g]
  by (auto simp: merges_def merge_candles_def Let_def field_map_set is_finite_num_def)

lemma map_filter_nonempty:
  "List.map_filter (\<lambda>i. let b = s i in if b = [] then None else Some (f b)) xs = map f (filter (\<lambda>b. b \<noteq> []) (map s xs))"
  by (induction xs) (simp_all add: Let_def map_filter_simps)

lemma concat_filter_nonempty: "concat (filter (\<lambda>b. b \<noteq> []) bs) = concat bs"
  by (induction bs) simp_all

lemma ohlc_slices:
  assumes "sizes_ok (int (length data)) m" "int k \<le> m"
  defines "bs \<equiv> Fin (bucket_size (int (length data)) m)"
  shows "concat (map (ohlc_slice data bs) [0..<k]) = take (nat (bucket_edge bs k)) data"
  using assms(2)
proof (induction k)
  case 0
  then show ?case using bucket_edge_zero [OF assms(1)] by (simp add: bs_def)
next
  case (Suc k)
  let ?e = "bucket_edge bs"
  have m: "int (nat m) = m" using assms(1) by (simp add: sizes_ok_def)
  have "0 \<le> ?e k" "?e k \<le> ?e (Suc k)" "?e (Suc k) \<le> ?e (nat m)"
    using bucket_edge_mono [OF assms(1), of 0 k] bucket_edge_mono [OF assms(1), of k "Suc k"]
      bucket_edge_mono [OF assms(1), of "Suc k" "nat m"] bucket_edge_zero [OF assms(1)] Suc.prems m
    by (auto simp: bs_def)
  moreover have "?e (nat m) \<le> int (length data)" using bucket_edge_last [OF assms(1) m] by (auto simp: bs_def)
  ultimately have "ohlc_slice data bs k = take (nat (?e (Suc k)) - nat (?e k)) (drop (nat (?e k)) data)"
    and "nat (?e k) + (nat (?e (Suc k)) - nat (?e k)) = nat (?e (Suc k))"
    by (auto simp: ohlc_slice_def Let_def nat_diff_distrib)
  then show ?case using Suc take_add [of "nat (?e k)" "nat (?e (Suc k)) - nat (?e k)" data] by simp
qed

lemma decimateOhlcData_groups:
  assumes "2 \<le> m" "m < int (length data)" "int (length data) < 2 ^ 40"
  defines "bs \<equiv> Fin (bucket_size (int (length data)) m)"
  shows "decimateOhlcData data (Fin (of_int m)) = map merge_candles (filter (\<lambda>b. b \<noteq> []) (map (ohlc_slice data bs) [0..<nat m]))"
proof -
  have ok: "sizes_ok (int (length data)) m" using assms(1-3) by (simp add: sizes_ok_def)
  have "\<not> js_le (Fin (of_int (int (length data)))) (Fin (of_int m))"
    using assms(2) of_int_le_iff [of "int (length data)" m, where 'a = rat] by (auto simp: js_le_def js_eq_def)
  moreover have "\<not> js_lt (Fin (of_int m)) (Fin 2)"
    using assms(1) of_int_less_iff [of m 2, where 'a = rat] by simp
  moreover have "rounds (Fin (of_int m)) = nat m" by (simp add: rounds_def)
  ultimately show ?thesis
    unfolding decimateOhlcData_def bs_def
    by (simp only: Let_def [of "int (length data)"] if_False simp_thms bucket_size_bounds(5) [OF ok]
        Let_def [of "Fin (bucket_size (int (length data)) m)"] map_filter_nonempty)
qed

text \<open>With 116 candles and 67 columns the product of the bucket size and the number of columns
  rounds to just below 116.\<close>

lemma size_116_67: "bucket_size 116 67 = 7797276966790709 / 4503599627370496"
  by code_simp

lemma round_116: "round64 (522417556774977503 / 4503599627370496) = 8162774324609023 / 70368744177664"
  by code_simp

lemma edge_116_67: "bucket_edge (Fin (bucket_size 116 67)) 67 = 115"
  by (subst bucket_edge_floor) (simp_all add: sizes_ok_def size_116_67 round_116 floor_eq_iff)

lemma ohlc_slice_prefix:
  "0 \<le> bucket_edge bs i \<Longrightarrow> bucket_edge bs (i + 1) \<le> int (length xs) \<Longrightarrow> ohlc_slice (xs @ [x]) bs i = ohlc_slice (xs @ [y]) bs i"
  by (auto simp: ohlc_slice_def Let_def take_append drop_append nat_diff_distrib)

lemma newest_candle_dropped:
  assumes "length xs = 115"
  shows "decimateOhlcData (xs @ [x]) (Fin 67) = decimateOhlcData (xs @ [y]) (Fin 67)"
proof -
  have ok: "sizes_ok 116 67" by (simp add: sizes_ok_def)
  have "ohlc_slice (xs @ [x]) (Fin (bucket_size 116 67)) i = ohlc_slice (xs @ [y]) (Fin (bucket_size 116 67)) i" if "i < 67" for i
    using bucket_edge_mono [OF ok, of "i + 1" 67] bucket_edge_mono [OF ok, of 0 i] bucket_edge_zero [OF ok] that assms edge_116_67
    by (intro ohlc_slice_prefix) simp_all
  then have "map (ohlc_slice (xs @ [x]) (Fin (bucket_size 116 67))) [0..<67] = map (ohlc_slice (xs @ [y]) (Fin (bucket_size 116 67))) [0..<67]"
    by (intro map_cong) simp_all
  then show ?thesis
    using decimateOhlcData_groups [of 67 "xs @ [x]"] decimateOhlcData_groups [of 67 "xs @ [y]"] assms by (simp del: upt_rec_numeral map_eq_conv)
qed

text \<open>Thinned candles are the merges of non-empty groups of consecutive candles, at most as many as
  there are columns: each opens with the first and closes with the last of its group and spans
  all its wicks. The groups cover every candle but possibly the newest: the last bucket ends
  where a product of doubles rounds to, and with 116 candles in 67 columns the newest candle
  changes nothing on the screen.
\<close>

theorem candle_decimation:
  assumes "2 \<le> m" "m < int (length data)" "int (length data) < 2 ^ 40" "\<forall>r \<in> set data. wick r"
  shows "(\<exists>groups. decimateOhlcData data (Fin (of_int m)) = map merge_candles groups
      \<and> (concat groups = data \<or> concat groups = butlast data)
      \<and> int (length groups) \<le> m \<and> (\<forall>g \<in> set groups. g \<noteq> [] \<and> merges g (merge_candles g)))
    \<and> (\<forall>xs x y. length xs = 115 \<longrightarrow> decimateOhlcData (xs @ [x]) (Fin 67) = decimateOhlcData (xs @ [y]) (Fin 67))"
proof -
  let ?bs = "Fin (bucket_size (int (length data)) m)"
  let ?slices = "map (ohlc_slice data ?bs) [0..<nat m]" and ?e = "bucket_edge ?bs (nat m)"
  let ?groups = "filter (\<lambda>b. b \<noteq> []) ?slices"
  have ok: "sizes_ok (int (length data)) m" using assms(1-3) by (simp add: sizes_ok_def)
  have m: "int (nat m) = m" using assms(1) by simp
  have all: "concat ?groups = take (nat ?e) data"
    unfolding concat_filter_nonempty using ohlc_slices [OF ok, of "nat m"] m by simp
  have "set (concat ?groups) \<subseteq> set data" unfolding all by (rule set_take_subset)
  then have "g \<noteq> [] \<and> merges g (merge_candles g)" if "g \<in> set ?groups" for g
    using that assms(4) merge_candles_merges [of g] by fastforce
  moreover have "nat ?e = length data \<or> nat ?e = length data - 1"
    using bucket_edge_last [OF ok m] assms(1,2) by auto
  then have "concat ?groups = data \<or> concat ?groups = butlast data" unfolding all butlast_conv_take by auto
  moreover have "length ?groups \<le> nat m" using length_filter_le [of _ ?slices] by simp
  then have "int (length ?groups) \<le> m" using m by linarith
  ultimately show ?thesis using decimateOhlcData_groups [OF assms(1-3)] newest_candle_dropped by blast
qed

definition flat_candle :: "rat \<Rightarrow> row" where
  "flat_candle v = [(''open'', JNum (Fin v)), (''high'', JNum (Fin v)), (''low'', JNum (Fin v)), (''close'', JNum (Fin v))]"

theorem candle_decimation_witness:
  "\<exists>groups. decimateOhlcData (map flat_candle [1, 2, 3, 4, 5]) (Fin 2) = map merge_candles groups
     \<and> (\<forall>g \<in> set groups. g \<noteq> [] \<and> merges g (merge_candles g))"
proof -
  have "\<forall>r \<in> set (map flat_candle [1, 2, 3, 4, 5]). wick r"
    by (auto simp: flat_candle_def wick_def field_def get_or_def)
  then show ?thesis using candle_decimation [of 2 "map flat_candle [1, 2, 3, 4, 5]"] by auto
qed

subsection \<open>Ranges and runs\<close>

lemma js_le_Fin [simp]: "js_le (Fin x) (Fin y) \<longleftrightarrow> x \<le> y"
  by (auto simp: js_le_def js_eq_def)

lemma extent_fold:
  assumes "\<forall>d \<in> set data. \<exists>t. x d = Fin t" "data \<noteq> []"
  shows "\<exists>lo hi. foldl (\<lambda>(lo, hi) point. let time = x point
      in (if js_lt time lo then time else lo, if js_lt hi time then time else hi)) (PInf, NInf) data = (Fin lo, Fin hi)
    \<and> lo \<le> hi \<and> (\<forall>d \<in> set data. \<forall>t. x d = Fin t \<longrightarrow> lo \<le> t \<and> t \<le> hi)"
  using assms(2,1)
proof (induction data rule: rev_nonempty_induct)
  case (snoc d ds)
  then obtain lo hi t where "foldl (\<lambda>(lo, hi) point. let time = x point
      in (if js_lt time lo then time else lo, if js_lt hi time then time else hi)) (PInf, NInf) ds = (Fin lo, Fin hi)"
    "lo \<le> hi" "\<forall>d \<in> set ds. \<forall>t. x d = Fin t \<longrightarrow> lo \<le> t \<and> t \<le> hi" "x d = Fin t"
    by auto
  then show ?case by (intro exI [of _ "min lo t"] exI [of _ "max hi t"]) (auto simp: min_def max_def)
qed (auto simp: Let_def)

text \<open>The extent of the data selects all of it.\<close>

lemma filter_extent_all:
  assumes "\<forall>d \<in> set data. \<exists>t. x d = Fin t" "data \<noteq> []"
  shows "\<exists>e. resolveDataXExtent data x = Some e \<and> filterDataByXDomain data e x = data"
proof -
  obtain lo hi where e: "resolveDataXExtent data x = Some (Fin lo, Fin hi)" and "lo \<le> hi"
    and "\<forall>d \<in> set data. \<forall>t. x d = Fin t \<longrightarrow> lo \<le> t \<and> t \<le> hi"
    using extent_fold [OF assms] assms(2) unfolding resolveDataXExtent_def by force
  then have m: "js_min [Fin lo, Fin hi] = Fin lo" "js_max [Fin lo, Fin hi] = Fin hi"
    by (auto simp: js_min_def js_max_def js_min2_def js_max2_def)
  have "js_le (Fin lo) (x d) \<and> js_le (x d) (Fin hi)" if "d \<in> set data" for d
    using assms(1) that \<open>\<forall>d \<in> set data. \<forall>t. x d = Fin t \<longrightarrow> lo \<le> t \<and> t \<le> hi\<close> by fastforce
  then show ?thesis using e by (simp add: filterDataByXDomain_def m)
qed

definition has_sign :: "string \<Rightarrow> bool \<Rightarrow> row \<Rightarrow> bool" where
  "has_sign key pos p \<longleftrightarrow> (\<exists>x. field p key = JNum (Fin x) \<and> (0 \<le> x) = pos)"

definition same_sign :: "string \<Rightarrow> row \<Rightarrow> row \<Rightarrow> bool" where
  "same_sign key p q \<longleftrightarrow> (\<exists>pos. has_sign key pos p \<and> has_sign key pos q)"

definition joined :: "ProfitLossSegment list \<Rightarrow> row \<Rightarrow> row \<Rightarrow> bool" where
  "joined segs p q \<longleftrightarrow> (\<exists>s \<in> set segs. sublist [p, q] (seg_data s))"

definition good_seg :: "string \<Rightarrow> row list \<Rightarrow> ProfitLossSegment \<Rightarrow> bool" where
  "good_seg key xs s \<longleftrightarrow> seg_data s \<noteq> [] \<and> sublist (seg_data s) xs \<and> (\<forall>p \<in> set (seg_data s). has_sign key (isPositive s) p)"

definition joins :: "string \<Rightarrow> row list \<Rightarrow> ProfitLossSegment list \<Rightarrow> bool" where
  "joins key xs segs \<longleftrightarrow> (\<forall>p q. sublist [p, q] xs \<longrightarrow> same_sign key p q \<longrightarrow> joined segs p q)"

definition runs_inv :: "string \<Rightarrow> row list \<Rightarrow> ProfitLossSegment list \<times> bool \<Rightarrow> bool" where
  "runs_inv key xs st \<longleftrightarrow>
     (\<forall>s \<in> set (fst st). good_seg key xs s) \<and> joins key xs (fst st)
   \<and> (snd st \<longrightarrow> fst st \<noteq> [] \<and> suffix (seg_data (last (fst st))) xs)
   \<and> (\<forall>pos. xs \<noteq> [] \<and> has_sign key pos (last xs) \<longrightarrow> snd st)"

lemma sublist_snoc: "sublist xs (ys @ [y]) \<longleftrightarrow> suffix xs (ys @ [y]) \<or> sublist xs ys"
proof
  assume "sublist xs (ys @ [y])"
  then obtain ps ss where "ys @ [y] = ps @ xs @ ss" by (auto simp: sublist_def)
  then show "suffix xs (ys @ [y]) \<or> sublist xs ys"
    by (cases ss rule: rev_cases) (auto simp: suffix_def sublist_def)
next
  show "suffix xs (ys @ [y]) \<or> sublist xs ys \<Longrightarrow> sublist xs (ys @ [y])"
    using suffix_imp_sublist prefix_imp_sublist [of ys "ys @ [y]"] sublist_order.order_trans by blast
qed

lemma pair_suffix: "suffix [a, b] (ys @ [y]) \<longleftrightarrow> b = y \<and> ys \<noteq> [] \<and> last ys = a"
  by (cases ys rule: rev_cases) (auto simp: suffix_to_prefix)

lemma sublist_grow: "sublist xs ys \<Longrightarrow> sublist xs (ys @ [y])"
  by (simp add: sublist_snoc)

lemma good_seg_grow: "good_seg key xs s \<Longrightarrow> good_seg key (xs @ [p]) s"
  by (simp add: good_seg_def sublist_grow)

lemma joins_snoc:
  assumes "joins key xs segs" "\<And>p q. joined segs p q \<Longrightarrow> joined segs' p q"
    and "xs \<noteq> [] \<Longrightarrow> same_sign key (last xs) p \<Longrightarrow> joined segs' (last xs) p"
  shows "joins key (xs @ [p]) segs'"
  using assms unfolding joins_def sublist_snoc pair_suffix by blast

lemma runs_gap:
  assumes inv: "runs_inv key xs st" and gap: "\<And>pos. \<not> has_sign key pos p"
  shows "runs_inv key (xs @ [p]) (fst st, False)"
proof -
  have "joins key (xs @ [p]) (fst st)"
    using inv gap by (intro joins_snoc [of key xs "fst st"]) (auto simp: runs_inv_def same_sign_def)
  then show ?thesis using inv gap good_seg_grow by (simp add: runs_inv_def)
qed

lemma last_run_sign:
  assumes "runs_inv key xs (segs, cur)" "xs \<noteq> []" "has_sign key q (last xs)"
  shows "cur" "isPositive (last segs) = q"
proof -
  show cur: cur using assms by (auto simp: runs_inv_def)
  then have "good_seg key xs (last segs)" and suf: "suffix (seg_data (last segs)) xs" using assms(1) by (simp_all add: runs_inv_def)
  then have s: "seg_data (last segs) \<noteq> []" "\<forall>p \<in> set (seg_data (last segs)). has_sign key (isPositive (last segs)) p"
    by (simp_all add: good_seg_def)
  have "last xs = last (seg_data (last segs))" using suf s(1) by (auto simp: suffix_def)
  then have "has_sign key (isPositive (last segs)) (last xs)" using s by simp
  then show "isPositive (last segs) = q" using assms(3) by (auto simp: has_sign_def)
qed

lemma runs_new:
  assumes inv: "runs_inv key xs (segs, cur)" and p: "has_sign key pos p"
    and new: "\<not> cur \<or> isPositive (last segs) \<noteq> pos"
  shows "runs_inv key (xs @ [p]) (segs @ [\<lparr>seg_data = [p], isPositive = pos\<rparr>], True)"
proof -
  let ?s = "\<lparr>seg_data = [p], isPositive = pos\<rparr>"
  have "\<not> same_sign key (last xs) p" if "xs \<noteq> []"
    using last_run_sign [OF inv that] new p by (fastforce simp: same_sign_def has_sign_def)
  then have "joins key (xs @ [p]) (segs @ [?s])"
    using inv by (intro joins_snoc [of key xs segs]) (auto simp: runs_inv_def joined_def)
  moreover have "good_seg key (xs @ [p]) ?s" using p by (simp add: good_seg_def)
  ultimately show ?thesis using inv good_seg_grow by (simp add: runs_inv_def suffix_def)
qed

lemma runs_extend:
  assumes inv: "runs_inv key xs (segs, True)" and p: "has_sign key (isPositive (last segs)) p"
  shows "runs_inv key (xs @ [p]) (butlast segs @ [last segs\<lparr>seg_data := seg_data (last segs) @ [p]\<rparr>], True)"
proof -
  let ?l = "last segs\<lparr>seg_data := seg_data (last segs) @ [p]\<rparr>"
  have ne: "segs \<noteq> []" and suf: "suffix (seg_data (last segs)) xs" and good: "good_seg key xs (last segs)"
    and goods: "\<forall>s \<in> set segs. good_seg key xs s"
    using inv by (auto simp: runs_inv_def)
  have split: "set segs = insert (last segs) (set (butlast segs))"
    using ne by (metis append_butlast_last_id insert_is_Un list.set(1) list.simps(15) set_append sup_commute)
  have dne: "seg_data (last segs) \<noteq> []" using good by (simp add: good_seg_def)
  have sufl: "suffix (seg_data ?l) (xs @ [p])" using suf by simp
  have "last xs = last (seg_data (last segs))" using suf dne by (auto simp: suffix_def)
  then have "suffix [last xs, p] (seg_data ?l)" using dne pair_suffix [of "last xs" p "seg_data (last segs)" p] by simp
  then have "joined (butlast segs @ [?l]) (last xs) p" using suffix_imp_sublist unfolding joined_def by fastforce
  moreover have "joined segs a b \<Longrightarrow> joined (butlast segs @ [?l]) a b" for a b
    unfolding joined_def split by (auto simp: sublist_grow)
  ultimately have "joins key (xs @ [p]) (butlast segs @ [?l])"
    using inv by (intro joins_snoc [of key xs segs]) (auto simp: runs_inv_def)
  moreover have "good_seg key (xs @ [p]) ?l" using good p suffix_imp_sublist [OF sufl] by (simp add: good_seg_def)
  moreover have "\<forall>s \<in> set (butlast segs). good_seg key (xs @ [p]) s" using goods in_set_butlastD good_seg_grow by fastforce
  ultimately show ?thesis using sufl by (simp add: runs_inv_def)
qed

lemma runs_step:
  assumes "runs_inv key xs st"
  shows "runs_inv key (xs @ [p]) (split_step key st p)"
proof (cases "\<exists>x. field p key = JNum (Fin x)")
  case True
  then obtain x where x: "field p key = JNum (Fin x)" by blast
  obtain segs cur where st: "st = (segs, cur)" by (cases st)
  have p: "has_sign key (0 \<le> x) p" using x by (simp add: has_sign_def)
  show ?thesis
  proof (cases "\<not> cur \<or> isPositive (last segs) \<noteq> (0 \<le> x)")
    case True
    then show ?thesis using runs_new [OF assms [unfolded st] p True] x by (simp add: split_step_def st)
  next
    case False
    then show ?thesis using runs_extend [of key xs segs p] assms p x by (simp add: split_step_def st)
  qed
next
  case False
  then have "split_step key st p = (fst st, False)" by (auto simp: split_step_def split: jsval.splits jsnum.splits)
  then show ?thesis using runs_gap [OF assms] False by (simp add: has_sign_def)
qed

lemma runs_fold: "runs_inv key xs (foldl (split_step key) ([], False) xs)"
proof (induction xs rule: rev_induct)
  case (snoc p xs)
  then show ?case using runs_step by simp
qed (simp add: runs_inv_def joins_def)

text \<open>The segments are runs of neighbouring points of one sign, and every two neighbours of one
  sign are joined by a segment.\<close>

lemma split_sound:
  "s \<in> set (splitProfitLossSegments data key) \<Longrightarrow>
     2 \<le> length (seg_data s) \<and> sublist (seg_data s) data \<and> (\<forall>p \<in> set (seg_data s). has_sign key (isPositive s) p)"
  using runs_fold [of key data] by (auto simp: splitProfitLossSegments_def runs_inv_def good_seg_def)

lemma split_complete:
  assumes "sublist [a, b] data" "same_sign key a b"
  shows "joined (splitProfitLossSegments data key) a b"
proof -
  let ?segs = "fst (foldl (split_step key) ([], False) data)"
  have "joined ?segs a b" using runs_fold [of key data] assms unfolding runs_inv_def joins_def by blast
  then obtain s where s: "s \<in> set ?segs" "sublist [a, b] (seg_data s)" by (auto simp: joined_def)
  have "1 < length (seg_data s)" using sublist_length_le [OF s(2)] by simp
  then show ?thesis using s unfolding joined_def splitProfitLossSegments_def by auto
qed

end
