(* ===== verification/Chart_Phase.thy ===== *)
theory Chart_Phase
  imports Chart_Data
begin

text \<open>
  The life of a chart between its loading skeleton and its data:
  \<^verbatim>\<open>use-chart-phase-orchestrator.ts\<close> and \<^verbatim>\<open>chart-phase.ts\<close> of
  \<^verbatim>\<open>packages/ui/src/components/charts\<close>, with the vertical domains of \<^verbatim>\<open>y-domain-utils.ts\<close> and
  \<^verbatim>\<open>y-axis-scales.ts\<close> that hang on the phase.

  \<open>commit\<close> is one render with its effects. The effects see the state of the render, so the updates
  they queue are applied in order to the next state, and the last one wins; an effect runs when
  one of its dependencies differs from the render before. After an event the component renders
  until nothing changes (\<open>settle\<close>: three renders are enough, as \<open>settle_stable\<close> shows). Data are
  opaque values of type \<open>'d\<close>, compared by identity. Durations are whole milliseconds.
\<close>

subsection \<open>Phases\<close>

datatype ChartStatus = StLoading | StReady

datatype ChartPhase =
    PLoading | PExiting | PGridTweenReady | PRevealing | PReady | PExitingReady | PGridTweenLoading | PRevealingLoading

definition DEFAULT_Y_DOMAIN_TWEEN_MS :: int where
  "DEFAULT_Y_DOMAIN_TWEEN_MS = 500"

definition Y_DOMAIN_TWEEN_SKIP_THRESHOLD :: jsnum where
  "Y_DOMAIN_TWEEN_SKIP_THRESHOLD = of_rat_js (2 / 100)"

definition resolveRestingChartPhase :: "ChartStatus \<Rightarrow> ChartPhase" where
  "resolveRestingChartPhase status = (if status = StLoading then PLoading else PReady)"

definition isChartInteractionPhase :: "ChartPhase \<Rightarrow> bool" where
  "isChartInteractionPhase phase \<longleftrightarrow> phase = PReady"

definition isLoadingChromePhase :: "ChartPhase \<Rightarrow> bool" where
  "isLoadingChromePhase phase \<longleftrightarrow> phase = PLoading \<or> phase = PRevealingLoading"

definition isLoadingGridChromePhase :: "ChartPhase \<Rightarrow> bool" where
  "isLoadingGridChromePhase phase \<longleftrightarrow> phase = PLoading \<or> phase = PExiting \<or> phase = PGridTweenLoading"

definition isYDomainTweenPhase :: "ChartPhase \<Rightarrow> bool" where
  "isYDomainTweenPhase phase \<longleftrightarrow> phase = PGridTweenLoading \<or> phase = PGridTweenReady"

definition isReferenceAreaVisiblePhase :: "ChartPhase \<Rightarrow> bool" where
  "isReferenceAreaVisiblePhase phase \<longleftrightarrow> phase = PReady \<or> phase = PRevealing \<or> phase = PGridTweenReady"

subsection \<open>Vertical domains\<close>

type_synonym YDomain = "jsnum \<times> jsnum"

definition DEFAULT_Y_AXIS_ID :: string where
  "DEFAULT_Y_AXIS_ID = ''left''"

definition normalizeYAxisId :: "numstr option \<Rightarrow> string" where
  "normalizeYAxisId i =
     (case i of
        None \<Rightarrow> DEFAULT_Y_AXIS_ID
      | Some (Str s) \<Rightarrow> if s = [] then DEFAULT_Y_AXIS_ID else s
      | Some (Num n) \<Rightarrow> num_to_string n)"

record LineConfig =
  dataKey :: string
  yAxisId :: "numstr option"

definition groupLinesByYAxisId :: "LineConfig list \<Rightarrow> (string \<times> LineConfig list) list" where
  "groupLinesByYAxisId lines =
     fold (\<lambda>line groups.
             let axisId = normalizeYAxisId (yAxisId line); bucket = get_or (map_of groups axisId) []
             in map_set axisId (bucket @ [line]) groups) lines []"

definition shouldTweenYDomain :: "YDomain \<Rightarrow> YDomain \<Rightarrow> bool" where
  "shouldTweenYDomain from to =
     (let span = js_max [js_abs (js_sub (snd to) (fst to)), js_abs (js_sub (snd from) (fst from)), Fin 1];
          deltaMin = js_div (js_abs (js_sub (fst to) (fst from))) span;
          deltaMax = js_div (js_abs (js_sub (snd to) (snd from))) span
      in js_le Y_DOMAIN_TWEEN_SKIP_THRESHOLD deltaMin \<or> js_le Y_DOMAIN_TWEEN_SKIP_THRESHOLD deltaMax)"

definition resolveAnimatedYDestinationDomains :: "ChartPhase \<Rightarrow> 'm \<Rightarrow> 'm \<Rightarrow> 'm" where
  "resolveAnimatedYDestinationDomains phase skeletonByAxis targetByAxis =
     (case phase of
        PLoading \<Rightarrow> skeletonByAxis | PExiting \<Rightarrow> skeletonByAxis | PGridTweenLoading \<Rightarrow> skeletonByAxis
      | _ \<Rightarrow> targetByAxis)"

text \<open>\<open>niceYDomain\<close> is the scale library's, here the parameter \<open>nice\<close>.\<close>

definition computeYDomainsByAxis ::
  "(YDomain \<Rightarrow> YDomain) \<Rightarrow> LineConfig list \<Rightarrow> (string list \<Rightarrow> YDomain) \<Rightarrow> (string \<times> YDomain) list" where
  "computeYDomainsByAxis nice lines resolveDomain =
     (let domains = fold (\<lambda>(axisId, axisLines) domains.
            map_set (normalizeYAxisId (Some (Str axisId))) (nice (resolveDomain (map dataKey axisLines))) domains)
            (groupLinesByYAxisId lines) []
      in if map_has domains ''left'' then domains else map_set ''left'' (nice (Fin 0, Fin 100)) domains)"

definition mergeYDomainRecords :: "(string \<times> YDomain) list list \<Rightarrow> (string \<times> YDomain) list" where
  "mergeYDomainRecords records =
     fold (\<lambda>rec merged. fold (\<lambda>(axisId, domain) merged. map_set (normalizeYAxisId (Some (Str axisId))) domain merged) rec merged) records []"

definition domainsEqual :: "(string \<times> YDomain) list \<Rightarrow> (string \<times> YDomain) list \<Rightarrow> bool" where
  "domainsEqual left right \<longleftrightarrow>
     length left = length right \<and>
     list_all (\<lambda>axisId. case (map_of left axisId, map_of right axisId) of
                 (Some f, Some t) \<Rightarrow> js_eq (fst f) (fst t) \<and> js_eq (snd f) (snd t) | _ \<Rightarrow> False) (map_keys left)"

subsection \<open>The orchestrator\<close>

record 'd chart_props =
  chartStatus :: ChartStatus
  targetData :: 'd
  skeletonData :: 'd
  animationDuration :: int
  yDomainTweenDuration :: int
  revealSignature :: string
  skipEnterReveal :: bool

record 'd orchestrator =
  chartPhase :: ChartPhase
  plotData :: 'd
  revealEpoch :: nat
  concealEpoch :: nat
  isLoaded :: bool
  prevStatus :: ChartStatus
  reveal_timer :: bool
  props :: "'d chart_props"
  seen :: "('d chart_props \<times> ChartPhase) option"

definition mount_chart :: "'d chart_props \<Rightarrow> 'd orchestrator" where
  "mount_chart p =
     \<lparr>chartPhase = resolveRestingChartPhase (chartStatus p),
      plotData = (if chartStatus p = StLoading then skeletonData p else targetData p),
      revealEpoch = 0, concealEpoch = 0, isLoaded = (chartStatus p = StReady), prevStatus = chartStatus p,
      reveal_timer = False, props = p, seen = None\<rparr>"

text \<open>The first effect: a change of status.\<close>

definition status_effect :: "'d chart_props \<Rightarrow> 'd orchestrator \<Rightarrow> 'd orchestrator" where
  "status_effect p s =
     (if prevStatus s = chartStatus p then s
      else if chartStatus p = StReady then
        (let s1 = s\<lparr>prevStatus := StReady, isLoaded := False\<rparr> in
         if animationDuration p \<le> 0 then
           (if yDomainTweenDuration p \<le> 0 then s1\<lparr>plotData := targetData p, chartPhase := PRevealing\<rparr>
            else s1\<lparr>chartPhase := PGridTweenReady\<rparr>)
         else s1\<lparr>chartPhase := PExiting\<rparr>)
      else
        (let s1 = s\<lparr>prevStatus := StLoading, isLoaded := False\<rparr> in
         if animationDuration p \<le> 0 then
           (if yDomainTweenDuration p \<le> 0 then s1\<lparr>plotData := skeletonData p, chartPhase := PLoading\<rparr>
            else s1\<lparr>chartPhase := PGridTweenLoading\<rparr>)
         else s1\<lparr>concealEpoch := concealEpoch s1 + 1, chartPhase := PExitingReady\<rparr>))"

text \<open>The second effect replays the reveal; \<open>ph\<close> is the phase of the render, which \<open>phaseRef\<close> holds.\<close>

definition replay_effect :: "'d chart_props \<Rightarrow> ChartPhase \<Rightarrow> 'd orchestrator \<Rightarrow> 'd orchestrator" where
  "replay_effect p ph s =
     (if skipEnterReveal p \<or> chartStatus p \<noteq> StReady \<or> ph \<noteq> PReady then s
      else s\<lparr>chartPhase := PRevealing, isLoaded := False\<rparr>)"

definition replay_deps :: "'d chart_props \<Rightarrow> int \<times> ChartStatus \<times> string \<times> bool" where
  "replay_deps p = (animationDuration p, chartStatus p, revealSignature p, skipEnterReveal p)"

text \<open>The third chooses the data.\<close>

definition data_effect :: "'d chart_props \<Rightarrow> ChartPhase \<Rightarrow> 'd orchestrator \<Rightarrow> 'd orchestrator" where
  "data_effect p ph s =
     (case ph of
        PLoading \<Rightarrow> if chartStatus p = StLoading then s\<lparr>plotData := skeletonData p\<rparr> else s
      | PExiting \<Rightarrow> s\<lparr>plotData := skeletonData p\<rparr>
      | PRevealingLoading \<Rightarrow> s
      | _ \<Rightarrow> s\<lparr>plotData := targetData p\<rparr>)"

definition data_deps :: "'d chart_props \<Rightarrow> ChartPhase \<Rightarrow> ChartPhase \<times> ChartStatus \<times> 'd \<times> 'd" where
  "data_deps p ph = (ph, chartStatus p, skeletonData p, targetData p)"

text \<open>The fourth counts reveals and starts their timer; its cleanup clears it.\<close>

definition reveal_effect :: "'d chart_props \<Rightarrow> ChartPhase \<Rightarrow> 'd orchestrator \<Rightarrow> 'd orchestrator" where
  "reveal_effect p ph s =
     (let s0 = s\<lparr>reveal_timer := False\<rparr> in
      if ph \<noteq> PRevealing then s0
      else if animationDuration p \<le> 0 then s0\<lparr>revealEpoch := revealEpoch s + 1, chartPhase := PReady, isLoaded := True\<rparr>
      else s0\<lparr>revealEpoch := revealEpoch s + 1, reveal_timer := True\<rparr>)"

definition reveal_deps :: "'d chart_props \<Rightarrow> ChartPhase \<Rightarrow> int \<times> ChartPhase" where
  "reveal_deps p ph = (animationDuration p, ph)"

definition changed :: "('d chart_props \<Rightarrow> ChartPhase \<Rightarrow> 'k) \<Rightarrow> 'd orchestrator \<Rightarrow> bool" where
  "changed deps s =
     (case seen s of None \<Rightarrow> True | Some (p, ph) \<Rightarrow> deps p ph \<noteq> deps (props s) (chartPhase s))"

definition commit :: "'d orchestrator \<Rightarrow> 'd orchestrator" where
  "commit s =
     (let p = props s; ph = chartPhase s;
          s1 = status_effect p s;
          s2 = (if changed (\<lambda>p _. replay_deps p) s then replay_effect p ph s1 else s1);
          s3 = (if changed data_deps s then data_effect p ph s2 else s2);
          s4 = (if changed reveal_deps s then reveal_effect p ph s3 else s3)
      in s4\<lparr>seen := Some (p, ph)\<rparr>)"

definition settle :: "'d orchestrator \<Rightarrow> 'd orchestrator" where
  "settle s = commit (commit (commit s))"

definition notifyLoadingPulseComplete :: "'d orchestrator \<Rightarrow> 'd orchestrator" where
  "notifyLoadingPulseComplete s = (if chartPhase s \<noteq> PExiting then s else s\<lparr>chartPhase := PGridTweenReady\<rparr>)"

definition notifyRevealConcealComplete :: "'d orchestrator \<Rightarrow> 'd orchestrator" where
  "notifyRevealConcealComplete s = (if chartPhase s \<noteq> PExitingReady then s else s\<lparr>chartPhase := PGridTweenLoading\<rparr>)"

definition notifyYDomainTweenComplete :: "'d orchestrator \<Rightarrow> 'd orchestrator" where
  "notifyYDomainTweenComplete s =
     (if chartPhase s = PGridTweenLoading then s\<lparr>chartPhase := PLoading\<rparr>
      else if chartPhase s = PGridTweenReady then s\<lparr>chartPhase := PRevealing\<rparr> else s)"

definition fire_reveal :: "'d orchestrator \<Rightarrow> 'd orchestrator" where
  "fire_reveal s = (if reveal_timer s then s\<lparr>reveal_timer := False, chartPhase := PReady, isLoaded := True\<rparr> else s)"

datatype 'd chart_event = Update "'d chart_props" | PulseComplete | ConcealComplete | TweenComplete | RevealTimer

definition chart_step :: "'d chart_event \<Rightarrow> 'd orchestrator \<Rightarrow> 'd orchestrator" where
  "chart_step e s =
     settle (case e of
               Update p \<Rightarrow> s\<lparr>props := p\<rparr>
             | PulseComplete \<Rightarrow> notifyLoadingPulseComplete s
             | ConcealComplete \<Rightarrow> notifyRevealConcealComplete s
             | TweenComplete \<Rightarrow> notifyYDomainTweenComplete s
             | RevealTimer \<Rightarrow> fire_reveal s)"

subsection \<open>Settled states\<close>

definition phase_fits :: "ChartStatus \<Rightarrow> ChartPhase \<Rightarrow> bool" where
  "phase_fits status ph \<longleftrightarrow>
     (if status = StLoading then ph \<in> {PLoading, PExitingReady, PGridTweenLoading}
      else ph \<in> {PExiting, PGridTweenReady, PRevealing, PReady})"

definition shown_data :: "'d orchestrator \<Rightarrow> 'd" where
  "shown_data s =
     (if chartPhase s = PLoading \<or> chartPhase s = PExiting then skeletonData (props s) else targetData (props s))"

definition chart_inv :: "'d orchestrator \<Rightarrow> bool" where
  "chart_inv s \<longleftrightarrow>
     seen s = Some (props s, chartPhase s) \<and> prevStatus s = chartStatus (props s)
   \<and> phase_fits (chartStatus (props s)) (chartPhase s) \<and> isLoaded s = (chartPhase s = PReady)
   \<and> reveal_timer s = (chartPhase s = PRevealing)
   \<and> (chartPhase s = PRevealing \<longrightarrow> 0 < animationDuration (props s)) \<and> plotData s = shown_data s"

text \<open>A state whose phase has just been set.\<close>

definition entered :: "'d orchestrator \<Rightarrow> bool" where
  "entered s \<longleftrightarrow>
     (\<exists>ph. seen s = Some (props s, ph) \<and> ph \<noteq> chartPhase s) \<and> prevStatus s = chartStatus (props s)
   \<and> phase_fits (chartStatus (props s)) (chartPhase s) \<and> isLoaded s = (chartPhase s = PReady)"

lemmas effect_defs = status_effect_def replay_effect_def data_effect_def reveal_effect_def

lemmas deps_defs = changed_def replay_deps_def data_deps_def reveal_deps_def

lemma commit_quiet:
  "seen s = Some (props s, chartPhase s) \<Longrightarrow> prevStatus s = chartStatus (props s) \<Longrightarrow> commit s = s"
  by (simp add: commit_def Let_def changed_def status_effect_def)

lemma inv_quiet: "chart_inv s \<Longrightarrow> commit s = s"
  by (simp add: chart_inv_def commit_quiet)

lemma commit_entered:
  assumes "entered s"
  shows "commit s = (reveal_effect (props s) (chartPhase s) (data_effect (props s) (chartPhase s) s))
    \<lparr>seen := Some (props s, chartPhase s)\<rparr>"
  using assms by (auto simp: entered_def commit_def Let_def deps_defs status_effect_def)

lemma entered_step:
  assumes "entered s"
  shows "chart_inv (commit s) \<or> entered (commit s) \<and> chartPhase (commit s) = PReady"
  using assms unfolding commit_entered [OF assms]
  by (cases "chartPhase s")
    (auto simp: entered_def chart_inv_def shown_data_def phase_fits_def data_effect_def reveal_effect_def Let_def split: if_splits)

lemma entered_ready: "entered s \<Longrightarrow> chartPhase s = PReady \<Longrightarrow> chart_inv (commit s)"
  by (simp add: commit_entered) (auto simp: entered_def chart_inv_def shown_data_def data_effect_def reveal_effect_def)

lemma entered_settles: "entered s \<Longrightarrow> chart_inv (commit (commit s))"
  using entered_step [of s] entered_ready [of "commit s"] inv_quiet [of "commit s"] by auto

lemma settle_entered: "entered s \<Longrightarrow> chart_inv (settle s)"
  using entered_settles [of s] inv_quiet [of "commit (commit s)"] by (simp add: settle_def)

lemma settle_inv: "chart_inv s \<Longrightarrow> settle s = s"
  by (simp add: settle_def inv_quiet)

lemma settle_commit: "chart_inv (commit s) \<or> entered (commit s) \<Longrightarrow> chart_inv (settle s)"
  using entered_settles [of "commit s"] inv_quiet [of "commit s"] by (auto simp: settle_def)

lemma mount_inv: "chart_inv (settle (mount_chart p))"
proof (rule settle_commit)
  show "chart_inv (commit (mount_chart p)) \<or> entered (commit (mount_chart p))"
    by (cases "chartStatus p")
      (auto simp: mount_chart_def commit_def Let_def changed_def effect_defs resolveRestingChartPhase_def
        chart_inv_def entered_def phase_fits_def shown_data_def)
qed

lemma update_inv:
  assumes "chart_inv s" "animationDuration p = animationDuration (props s)"
  shows "chart_inv (settle (s\<lparr>props := p\<rparr>))"
proof (rule settle_commit)
  have "chartPhase s \<noteq> PRevealingLoading" using assms(1) by (auto simp: chart_inv_def phase_fits_def split: if_splits)
  then show "chart_inv (commit (s\<lparr>props := p\<rparr>)) \<or> entered (commit (s\<lparr>props := p\<rparr>))"
    using assms
    by (cases "chartPhase s"; cases "chartStatus p"; cases "chartStatus (props s)")
      (auto simp: commit_def Let_def deps_defs effect_defs chart_inv_def entered_def phase_fits_def shown_data_def)
qed

lemma event_inv:
  assumes "chart_inv s"
  shows "chart_inv (settle (notifyLoadingPulseComplete s))" "chart_inv (settle (notifyRevealConcealComplete s))"
    "chart_inv (settle (notifyYDomainTweenComplete s))" "chart_inv (settle (fire_reveal s))"
proof -
  have go: "chart_inv (settle t)" if "t = s \<or> entered t" for t
    using that assms settle_inv settle_entered by metis
  show "chart_inv (settle (notifyLoadingPulseComplete s))" "chart_inv (settle (notifyRevealConcealComplete s))"
    "chart_inv (settle (notifyYDomainTweenComplete s))" "chart_inv (settle (fire_reveal s))"
    using assms by (intro go; auto simp: notifyLoadingPulseComplete_def notifyRevealConcealComplete_def
        notifyYDomainTweenComplete_def fire_reveal_def entered_def chart_inv_def phase_fits_def split: if_splits)+
qed

subsection \<open>Progress\<close>

definition rank :: "ChartPhase \<Rightarrow> nat" where
  "rank ph = (case ph of PExiting \<Rightarrow> 3 | PGridTweenReady \<Rightarrow> 2 | PRevealing \<Rightarrow> 1 | PExitingReady \<Rightarrow> 2 | PGridTweenLoading \<Rightarrow> 1 | _ \<Rightarrow> 0)"

definition due :: "ChartPhase \<Rightarrow> 'd chart_event" where
  "due ph = (case ph of PExiting \<Rightarrow> PulseComplete | PExitingReady \<Rightarrow> ConcealComplete | PRevealing \<Rightarrow> RevealTimer | _ \<Rightarrow> TweenComplete)"

lemma due_no_update [simp]: "due ph \<noteq> Update p" "Update p \<noteq> due ph"
  by (simp_all add: due_def split: ChartPhase.split)

lemma commit_props [simp]: "props (commit s) = props s"
  by (cases "chartPhase s") (simp_all add: commit_def Let_def effect_defs)

lemma entered_phase:
  assumes "entered s"
  shows "chartPhase (settle s) = chartPhase s \<or> chartPhase s = PRevealing \<and> chartPhase (settle s) = PReady"
proof -
  have one: "chartPhase (commit t) = chartPhase t \<or> chartPhase t = PRevealing \<and> chartPhase (commit t) = PReady" if "entered t" for t
    unfolding commit_entered [OF that] by (cases "chartPhase t") (simp_all add: data_effect_def reveal_effect_def Let_def)
  then show ?thesis
    using entered_step [OF assms] one [OF assms] one [of "commit s"] inv_quiet [of "commit s"]
      inv_quiet [of "commit (commit s)"] entered_settles [OF assms] by (auto simp: settle_def)
qed

lemma chart_step_entered: "entered t \<Longrightarrow> props (settle t) = props t \<and> rank (chartPhase (settle t)) \<le> rank (chartPhase t)"
  using entered_phase [of t] by (auto simp: settle_def rank_def)

lemma due_progress:
  assumes inv: "chart_inv s" and busy: "chartPhase s \<noteq> resolveRestingChartPhase (chartStatus (props s))"
  shows "props (chart_step (due (chartPhase s)) s) = props s" "rank (chartPhase (chart_step (due (chartPhase s)) s)) < rank (chartPhase s)"
proof -
  obtain t where t: "chart_step (due (chartPhase s)) s = settle t" "entered t" "props t = props s" "rank (chartPhase t) < rank (chartPhase s)"
    using assms by (cases "chartPhase s"; cases "chartStatus (props s)")
      (auto simp: chart_step_def due_def notifyLoadingPulseComplete_def notifyRevealConcealComplete_def notifyYDomainTweenComplete_def
        fire_reveal_def chart_inv_def entered_def phase_fits_def resolveRestingChartPhase_def rank_def)
  then show "props (chart_step (due (chartPhase s)) s) = props s" "rank (chartPhase (chart_step (due (chartPhase s)) s)) < rank (chartPhase s)"
    using chart_step_entered [OF t(2)] by simp_all
qed

lemma step_keeps_inv:
  assumes "chart_inv s" "\<And>p. e = Update p \<Longrightarrow> animationDuration p = animationDuration (props s)"
  shows "chart_inv (chart_step e s)"
  using assms update_inv [OF assms(1)] event_inv [OF assms(1)] by (cases e) (simp_all add: chart_step_def)

lemma reaches_rest:
  assumes "chart_inv s"
  shows "\<exists>es. length es \<le> rank (chartPhase s) \<and> (\<forall>p. Update p \<notin> set es) \<and> props (fold chart_step es s) = props s
    \<and> chartPhase (fold chart_step es s) = resolveRestingChartPhase (chartStatus (props s))"
  using assms
proof (induction "rank (chartPhase s)" arbitrary: s rule: less_induct)
  case less
  show ?case
  proof (cases "chartPhase s = resolveRestingChartPhase (chartStatus (props s))")
    case True
    then show ?thesis by (intro exI [of _ "[]"]) simp
  next
    case False
    let ?s = "chart_step (due (chartPhase s)) s"
    note d = due_progress [OF less.prems False]
    have "chart_inv ?s" using less.prems by (rule step_keeps_inv) simp
    from less.hyps [OF d(2) this] obtain es where "length es \<le> rank (chartPhase ?s)" "\<forall>p. Update p \<notin> set es"
      "props (fold chart_step es ?s) = props ?s" "chartPhase (fold chart_step es ?s) = resolveRestingChartPhase (chartStatus (props ?s))"
      by blast
    then show ?thesis using d by (intro exI [of _ "due (chartPhase s) # es"]) auto
  qed
qed

lemma rank_le: "rank ph \<le> 3"
  by (simp add: rank_def split: ChartPhase.split)

lemma settle_props [simp]: "props (settle s) = props s"
  by (simp add: settle_def)

lemma step_duration:
  assumes "\<And>p. e = Update p \<Longrightarrow> animationDuration p = animationDuration (props s)"
  shows "animationDuration (props (chart_step e s)) = animationDuration (props s)"
  using assms by (cases e) (simp_all add: chart_step_def notifyLoadingPulseComplete_def notifyRevealConcealComplete_def
      notifyYDomainTweenComplete_def fire_reveal_def)

lemma run_inv_duration:
  assumes "\<forall>p. Update p \<in> set es \<longrightarrow> animationDuration p = animationDuration (props s)" "chart_inv s"
  shows "chart_inv (fold chart_step es s)"
  using assms
proof (induction es arbitrary: s)
  case (Cons e es)
  then have "chart_inv (chart_step e s)" "animationDuration (props (chart_step e s)) = animationDuration (props s)"
    by (auto intro!: step_keeps_inv step_duration)
  then show ?case using Cons by simp
qed simp

subsection \<open>The property\<close>

definition revealing_chart :: "nat chart_props" where
  "revealing_chart = \<lparr>chartStatus = StReady, targetData = 1, skeletonData = 0, animationDuration = 1100,
     yDomainTweenDuration = 500, revealSignature = [], skipEnterReveal = False\<rparr>"

definition stuck_chart :: "nat orchestrator" where
  "stuck_chart = chart_step (Update (revealing_chart\<lparr>chartStatus := StLoading, animationDuration := 0\<rparr>)) (settle (mount_chart revealing_chart))"

lemma stuck_chart_state:
  "chartPhase stuck_chart = PReady" "isLoaded stuck_chart" "\<not> reveal_timer stuck_chart"
  "chartStatus (props stuck_chart) = StLoading" "prevStatus stuck_chart = StLoading" "seen stuck_chart = Some (props stuck_chart, PReady)"
  by code_simp+

lemma stuck_chart_stays: "\<forall>p. e \<noteq> Update p \<Longrightarrow> chart_step e stuck_chart = stuck_chart"
  using commit_quiet [of stuck_chart] stuck_chart_state
  by (cases e) (simp_all add: chart_step_def settle_def notifyLoadingPulseComplete_def notifyRevealConcealComplete_def
      notifyYDomainTweenComplete_def fire_reveal_def)

text \<open>Whatever statuses, data and signatures a chart is given and whenever its animations report their
  end, as long as the duration of the animation stays the same: the phase fits the status, the
  chart counts as loaded exactly in the ready phase, the reveal timer runs exactly while it
  reveals, the rows on show are the skeleton's while loading and the data's otherwise, nothing is
  left to render, and at most three reports bring it to the resting phase of its status. A status
  that turns to loading in the same render as the duration drops to zero leaves a revealing chart
  ready and loaded, and only new props bring it out of there.
\<close>

theorem chart_reaches_rest:
  assumes "\<forall>p. Update p \<in> set es \<longrightarrow> animationDuration p = animationDuration p0"
  defines "s \<equiv> fold chart_step es (settle (mount_chart p0))"
  shows "phase_fits (chartStatus (props s)) (chartPhase s) \<and> isLoaded s = (chartPhase s = PReady)
    \<and> reveal_timer s = (chartPhase s = PRevealing) \<and> plotData s = shown_data s \<and> commit s = s
    \<and> (\<exists>ns. length ns \<le> 3 \<and> (\<forall>p. Update p \<notin> set ns)
         \<and> chartPhase (fold chart_step ns s) = resolveRestingChartPhase (chartStatus (props s)))
    \<and> chartPhase stuck_chart = PReady \<and> isLoaded stuck_chart \<and> chartStatus (props stuck_chart) = StLoading
    \<and> (\<forall>e. (\<forall>p. e \<noteq> Update p) \<longrightarrow> chart_step e stuck_chart = stuck_chart)"
proof -
  have "props (mount_chart p0) = p0" by (simp add: mount_chart_def)
  then have inv: "chart_inv s" unfolding s_def using assms(1) mount_inv by (intro run_inv_duration) simp_all
  moreover have "\<exists>ns. length ns \<le> 3 \<and> (\<forall>p. Update p \<notin> set ns)
      \<and> chartPhase (fold chart_step ns s) = resolveRestingChartPhase (chartStatus (props s))"
    using reaches_rest [OF inv] rank_le [of "chartPhase s"] order_trans by blast
  ultimately show ?thesis
    using inv_quiet [OF inv] stuck_chart_state stuck_chart_stays by (simp add: chart_inv_def)
qed

theorem chart_reaches_rest_witness:
  "phase_fits StLoading (chartPhase (fold chart_step [RevealTimer, Update (revealing_chart\<lparr>chartStatus := StLoading\<rparr>)] (settle (mount_chart revealing_chart))))"
proof -
  have "props (fold chart_step [RevealTimer, Update (revealing_chart\<lparr>chartStatus := StLoading\<rparr>)] (settle (mount_chart revealing_chart)))
      = revealing_chart\<lparr>chartStatus := StLoading\<rparr>" by (simp add: chart_step_def)
  then show ?thesis
    using chart_reaches_rest [of "[RevealTimer, Update (revealing_chart\<lparr>chartStatus := StLoading\<rparr>)]" revealing_chart] by simp
qed

end
