(* ===== verification/Live_Line.thy ===== *)
theory Live_Line
  imports JS_Value
begin

text \<open>
  \<^verbatim>\<open>packages/ui/src/components/charts/live-line-chart.tsx\<close>, the scrolling price chart: the vertical
  range, the easing of the frames, the tooltip under the cursor, the animation loop and the rows the
  lines are drawn from.

  A point is its fields in enumeration order; \<open>time\<close> and \<open>value\<close> are declared as numbers, and
  \<open>num_field\<close> reads them, \<open>NaN\<close> if a point carries no such number. A \<open>Date\<close> is its time value.
  The scales and the bisector are the drawing library's, here the parameters \<open>x_invert\<close>, \<open>y_scale\<close>
  and \<open>bisect\<close>. The clocks are arguments.
\<close>

type_synonym LiveLinePoint = "(string \<times> numstr) list"

definition num_field :: "string \<Rightarrow> LiveLinePoint \<Rightarrow> jsnum" where
  "num_field k p = (case map_of p k of Some (Num n) \<Rightarrow> n | _ \<Rightarrow> NaN)"

abbreviation time_of :: "LiveLinePoint \<Rightarrow> jsnum" where "time_of p \<equiv> num_field ''time'' p"
abbreviation value_of :: "LiveLinePoint \<Rightarrow> jsnum" where "value_of p \<equiv> num_field ''value'' p"

subsection \<open>The vertical range\<close>

definition LERP_SPEED :: jsnum where "LERP_SPEED = of_rat_js (8 / 100)"
definition LIVE_FRAME_COMMIT_MS :: jsnum where "LIVE_FRAME_COMMIT_MS = Fin 32"

record y_range =
  yMin :: jsnum
  yMax :: jsnum

record AnimFrame = y_range +
  now :: jsnum
  displayValue :: jsnum
  displayValueNo :: "jsnum option"

definition opt_list :: "'a option \<Rightarrow> 'a list" where
  "opt_list x = (case x of None \<Rightarrow> [] | Some v \<Rightarrow> [v])"

definition is_number :: "numstr \<Rightarrow> bool" where
  "is_number v = (case v of Num _ \<Rightarrow> True | Str _ \<Rightarrow> False)"

definition numericValues :: "LiveLinePoint \<Rightarrow> numstr list" where
  "numericValues d =
     (if is_finite_num (value_of d) then [Num (value_of d)] else [])
     @ opt_list (map_of d ''yes_price'') @ opt_list (map_of d ''no_price'')
     @ map snd (filter (\<lambda>(k, v). k \<notin> {''time'', ''value'', ''yes_price'', ''no_price''} \<and> is_number v) d)"

text \<open>One value of the scan; \<open>Number.isFinite\<close> is false of a string.\<close>

definition scan_value :: "numstr \<Rightarrow> jsnum \<times> jsnum \<Rightarrow> jsnum \<times> jsnum" where
  "scan_value v acc =
     (case v of
        Str _ \<Rightarrow> acc
      | Num n \<Rightarrow>
          if \<not> is_finite_num n then acc
          else (if js_lt n (fst acc) then n else fst acc, if js_lt (snd acc) n then n else snd acc))"

text \<open>The current values widen the range without the test.\<close>

definition widen :: "jsnum \<Rightarrow> jsnum \<times> jsnum \<Rightarrow> jsnum \<times> jsnum" where
  "widen v acc = (if js_lt v (fst acc) then v else fst acc, if js_lt (snd acc) v then v else snd acc)"

definition scan_range :: "LiveLinePoint list \<Rightarrow> jsnum \<Rightarrow> jsnum option \<Rightarrow> jsnum \<times> jsnum" where
  "scan_range data v vNo =
     (let acc = widen v (fold scan_value (concat (map numericValues data)) (PInf, NInf))
      in case vNo of None \<Rightarrow> acc | Some n \<Rightarrow> widen n acc)"

definition pad_of :: "jsnum \<Rightarrow> bool \<Rightarrow> jsnum" where
  "pad_of rawRange exaggerate =
     (let p = js_mul rawRange (if exaggerate then of_rat_js (3 / 100) else of_rat_js (15 / 100))
      in if p = NaN \<or> p = Fin 0 then (if exaggerate then of_rat_js (4 / 100) else Fin 10) else p)"

definition computeTargetRange :: "LiveLinePoint list \<Rightarrow> jsnum \<Rightarrow> jsnum option \<Rightarrow> bool \<Rightarrow> y_range" where
  "computeTargetRange data v vNo exaggerate =
     (if data = [] then \<lparr>yMin = Fin 0, yMax = Fin 100\<rparr>
      else
        (let (mn, mx) = scan_range data v vNo
         in if \<not> is_finite_num mn \<or> \<not> is_finite_num mx
            then \<lparr>yMin = js_sub v (of_rat_js (1 / 2)), yMax = js_add v (of_rat_js (1 / 2))\<rparr>
            else
              (let rangePad = pad_of (js_sub mx mn) exaggerate
               in \<lparr>yMin = js_sub mn rangePad, yMax = js_add mx rangePad\<rparr>)))"

subsection \<open>Frames\<close>

text \<open>\<open>prev + (target - prev) * speed\<close>\<close>

definition lerp :: "jsnum \<Rightarrow> jsnum \<Rightarrow> jsnum \<Rightarrow> jsnum" where
  "lerp prev target speed = js_add prev (js_mul (js_sub target prev) speed)"

definition nextAnimFrame ::
  "AnimFrame \<Rightarrow> y_range \<Rightarrow> jsnum \<Rightarrow> jsnum option \<Rightarrow> jsnum \<Rightarrow> bool \<Rightarrow> jsnum \<Rightarrow> AnimFrame" where
  "nextAnimFrame prev targetRange targetValue targetValueNo speed isPaused clock =
     \<lparr>yMin = (if js_lt (yMin targetRange) (yMin prev) then yMin targetRange
              else lerp (yMin prev) (yMin targetRange) speed),
      yMax = (if js_lt (yMax prev) (yMax targetRange) then yMax targetRange
              else lerp (yMax prev) (yMax targetRange) speed),
      now = (if isPaused then now prev else clock),
      displayValue = lerp (displayValue prev) targetValue speed,
      displayValueNo =
        (case targetValueNo of
           None \<Rightarrow> None
         | Some t \<Rightarrow> (case displayValueNo prev of None \<Rightarrow> Some t | Some d \<Rightarrow> Some (lerp d t speed)))\<rparr>"

text \<open>The first frame, seeded with the range of the data.\<close>

definition seed_frame :: "y_range \<Rightarrow> jsnum \<Rightarrow> jsnum option \<Rightarrow> jsnum \<Rightarrow> AnimFrame" where
  "seed_frame r v vNo clock =
     \<lparr>yMin = yMin r, yMax = yMax r, now = clock, displayValue = v, displayValueNo = vNo\<rparr>"

subsection \<open>The value under the cursor\<close>

text \<open>\<open>midPt && midPt.time <= timeSec\<close>\<close>

definition at_or_before :: "LiveLinePoint list \<Rightarrow> jsnum \<Rightarrow> nat \<Rightarrow> bool" where
  "at_or_before points t i \<longleftrightarrow> i < length points \<and> js_le (time_of (points ! i)) t"

function interp_search :: "LiveLinePoint list \<Rightarrow> jsnum \<Rightarrow> nat \<Rightarrow> nat \<Rightarrow> nat \<times> nat" where
  "interp_search points t lo hi =
     (if hi - lo > 1
      then (let mid = (lo + hi) div 2
            in if at_or_before points t mid then interp_search points t mid hi
               else interp_search points t lo mid)
      else (lo, hi))"
  by pat_completeness auto
termination
  by (relation "measure (\<lambda>(points, t, lo, hi). hi - lo)") auto

declare interp_search.simps [simp del]

definition segment_value :: "LiveLinePoint \<Rightarrow> LiveLinePoint \<Rightarrow> jsnum \<Rightarrow> jsnum" where
  "segment_value p1 p2 timeSec =
     (let dt = js_sub (time_of p2) (time_of p1)
      in if js_eq dt (Fin 0) then value_of p1
         else
           (let t = js_div (js_sub timeSec (time_of p1)) dt
            in js_add (value_of p1) (js_mul (js_sub (value_of p2) (value_of p1)) t)))"

definition interpolateAtTime :: "LiveLinePoint list \<Rightarrow> jsnum \<Rightarrow> jsnum option" where
  "interpolateAtTime points timeSec =
     (if points = [] then None
      else if js_le timeSec (time_of (hd points)) then Some (value_of (hd points))
      else if js_le (time_of (last points)) timeSec then Some (value_of (last points))
      else
        (let (lo, hi) = interp_search points timeSec 0 (length points - 1)
         in if lo < length points \<and> hi < length points
            then Some (segment_value (points ! lo) (points ! hi) timeSec) else None))"

record TooltipData =
  tip_date :: jsnum
  tip_value :: jsnum
  tip_x :: jsnum
  yPositions :: "(string \<times> jsnum) list"

definition liveTooltipKey :: "TooltipData option \<Rightarrow> string \<Rightarrow> string option" where
  "liveTooltipKey tooltip dataKey =
     map_option (\<lambda>t. num_to_string (js_round (tip_x t)) @ '':'' @
       num_to_string (js_round (get_or (map_of (yPositions t) dataKey) (Fin 0)))) tooltip"

text \<open>\<open>x_invert\<close> takes the two ends of the time domain, the width and a position; \<open>y_scale\<close> the two
  ends of the value domain, the height and a value.\<close>

type_synonym scale = "jsnum \<Rightarrow> jsnum \<Rightarrow> jsnum \<Rightarrow> jsnum \<Rightarrow> jsnum"

definition visible_points :: "LiveLinePoint list \<Rightarrow> jsnum \<Rightarrow> AnimFrame \<Rightarrow> jsnum \<Rightarrow> LiveLinePoint list" where
  "visible_points data windowStart frame xTickUnitMs =
     filter (\<lambda>p. js_le (js_div windowStart (Fin 1000)) (time_of p)) data
     @ [[(''time'', Num (js_div (now frame) (Fin 1000))), (''value'', Num (displayValue frame))],
        [(''time'', Num (js_div (js_add (now frame) xTickUnitMs) (Fin 1000))), (''value'', Num (displayValue frame))]]"

definition resolveLiveTooltip ::
  "scale \<Rightarrow> scale \<Rightarrow> jsnum option \<Rightarrow> jsnum \<Rightarrow> jsnum \<Rightarrow> AnimFrame \<Rightarrow> jsnum \<Rightarrow> jsnum \<Rightarrow> jsnum \<Rightarrow>
    LiveLinePoint list \<Rightarrow> string \<Rightarrow> TooltipData option" where
  "resolveLiveTooltip x_invert y_scale cursorX innerWidth innerHeight frame leadingMs windowMs xTickUnitMs data dataKey =
     (case cursorX of
        None \<Rightarrow> None
      | Some x \<Rightarrow>
          if js_le innerWidth (Fin 0) \<or> js_le innerHeight (Fin 0) then None
          else
            (let domainEndMs = js_add (now frame) leadingMs;
                 timeMs = x_invert (js_sub domainEndMs windowMs) domainEndMs innerWidth x;
                 timeSec = js_div timeMs (Fin 1000);
                 visible = visible_points data (js_sub domainEndMs windowMs) frame xTickUnitMs
             in case interpolateAtTime visible timeSec of
                  None \<Rightarrow> None
                | Some val \<Rightarrow>
                    Some \<lparr>tip_date = timeMs, tip_value = val, tip_x = x,
                          yPositions = [(dataKey, y_scale (yMin frame) (yMax frame) innerHeight val)]\<rparr>))"

subsection \<open>The animation loop\<close>

definition shouldCommitLiveUpdates :: "jsnum \<Rightarrow> jsnum \<Rightarrow> string option \<Rightarrow> string option \<Rightarrow> bool \<times> bool" where
  "shouldCommitLiveUpdates clock lastFrameCommit tooltipKey lastTooltipKey =
     (js_le LIVE_FRAME_COMMIT_MS (js_sub clock lastFrameCommit), tooltipKey \<noteq> lastTooltipKey)"

record live_props =
  data :: "LiveLinePoint list"
  curValue :: jsnum
  curValueNo :: "jsnum option"
  dataKey :: string
  windowMs :: jsnum
  xTickUnitMs :: jsnum
  leadingMs :: jsnum
  exaggerate :: bool
  lerpSpeed :: jsnum
  paused :: bool
  innerWidth :: jsnum
  innerHeight :: jsnum
  margin_left :: jsnum

record live_chart =
  animRef :: AnimFrame
  frame :: AnimFrame
  cursorX :: "jsnum option"
  tooltipData :: "TooltipData option"
  lastFrameCommit :: jsnum
  lastTooltipKey :: "string option"

definition target_of :: "live_props \<Rightarrow> y_range" where
  "target_of p = computeTargetRange (data p) (curValue p) (curValueNo p) (exaggerate p)"

definition mount_live :: "live_props \<Rightarrow> jsnum \<Rightarrow> live_chart" where
  "mount_live p clock =
     (let f = seed_frame (target_of p) (curValue p) (curValueNo p) clock
      in \<lparr>animRef = f, frame = f, cursorX = None, tooltipData = None, lastFrameCommit = Fin 0, lastTooltipKey = None\<rparr>)"

definition tick :: "scale \<Rightarrow> scale \<Rightarrow> live_props \<Rightarrow> jsnum \<Rightarrow> jsnum \<Rightarrow> live_chart \<Rightarrow> live_chart" where
  "tick x_invert y_scale p clock perf c =
     (let next = nextAnimFrame (animRef c) (target_of p) (curValue p) (curValueNo p) (lerpSpeed p) (paused p) clock;
          c1 = c\<lparr>animRef := next\<rparr>;
          nextTooltip = resolveLiveTooltip x_invert y_scale (cursorX c) (innerWidth p) (innerHeight p) next
            (leadingMs p) (windowMs p) (xTickUnitMs p) (data p) (dataKey p);
          tooltipKey = liveTooltipKey nextTooltip (dataKey p);
          (commitFrame, commitTooltip) = shouldCommitLiveUpdates perf (lastFrameCommit c) tooltipKey (lastTooltipKey c);
          c2 = (if commitFrame then c1\<lparr>lastFrameCommit := perf, frame := next\<rparr> else c1)
      in if commitTooltip then c2\<lparr>lastTooltipKey := tooltipKey, tooltipData := nextTooltip\<rparr> else c2)"

definition handleMouseMove :: "live_props \<Rightarrow> jsnum option \<Rightarrow> live_chart \<Rightarrow> live_chart" where
  "handleMouseMove p coords c =
     (case coords of
        None \<Rightarrow> c
      | Some cx \<Rightarrow>
          (let x = js_sub cx (margin_left p)
           in c\<lparr>cursorX := (if js_le (Fin 0) x \<and> js_le x (innerWidth p) then Some x else None)\<rparr>))"

definition handleMouseLeave :: "live_chart \<Rightarrow> live_chart" where
  "handleMouseLeave c = c\<lparr>cursorX := None, lastTooltipKey := None, tooltipData := None\<rparr>"

subsection \<open>The rows the lines are drawn from\<close>

definition drop_time :: "LiveLinePoint \<Rightarrow> LiveLinePoint" where
  "drop_time p = filter (\<lambda>(k, v). k \<noteq> ''time'') p"

definition carry_point :: "LiveLinePoint \<Rightarrow> LiveLinePoint \<Rightarrow> LiveLinePoint" where
  "carry_point p carried =
     fold (\<lambda>(k, v) m. if k \<noteq> ''time'' \<and> is_number v then map_set k v m else m) p carried"

text \<open>\<open>[key]: v\<close>, where an undefined \<open>v\<close> reads as a missing field.\<close>

definition put_opt :: "string \<Rightarrow> numstr option \<Rightarrow> LiveLinePoint \<Rightarrow> LiveLinePoint" where
  "put_opt k v m = (case v of None \<Rightarrow> map_delete k m | Some x \<Rightarrow> map_set k x m)"

definition context_row :: "string \<Rightarrow> LiveLinePoint \<Rightarrow> LiveLinePoint" where
  "context_row key p =
     put_opt key (map_of p ''value'') (map_set ''date'' (Num (js_mul (time_of p) (Fin 1000))) (drop_time p))"

definition virtualPoint :: "string \<Rightarrow> AnimFrame \<Rightarrow> LiveLinePoint \<Rightarrow> jsnum \<Rightarrow> LiveLinePoint" where
  "virtualPoint key fr carried date =
     (let r = map_set key (Num (displayValue fr)) (map_set ''date'' (Num date) carried)
      in case displayValueNo fr of
           None \<Rightarrow> r
         | Some n \<Rightarrow> map_set ''no_price'' (Num n) (map_set ''yes_price'' (Num (displayValue fr)) r))"

definition sliced_data :: "(LiveLinePoint list \<Rightarrow> jsnum \<Rightarrow> nat) \<Rightarrow> live_props \<Rightarrow> AnimFrame \<Rightarrow> LiveLinePoint list" where
  "sliced_data bisect p fr =
     (let windowStart = js_sub (js_add (now fr) (leadingMs p)) (windowMs p);
          startIdx = bisect (data p) (js_div windowStart (Fin 1000))
      in drop (if startIdx > 0 then startIdx - 1 else startIdx) (data p))"

definition contextData :: "(LiveLinePoint list \<Rightarrow> jsnum \<Rightarrow> nat) \<Rightarrow> live_props \<Rightarrow> AnimFrame \<Rightarrow> LiveLinePoint list" where
  "contextData bisect p fr =
     (let sliced = sliced_data bisect p fr;
          carried = fold carry_point sliced []
      in map (context_row (dataKey p)) sliced
         @ [virtualPoint (dataKey p) fr carried (now fr),
            virtualPoint (dataKey p) fr carried (js_add (now fr) (xTickUnitMs p))])"

subsection \<open>Easing never overshoots\<close>

lemma double_multiple:
  assumes "round64 x = x"
  shows "\<exists>k. x = of_int k * 2 powi (- 1074)"
proof (cases "x = 0")
  case False
  have "x = of_int (round_half_even (x / 2 powi ulp_exp x)) * 2 powi ulp_exp x"
    using assms False by (simp add: round64_def)
  moreover have "(2 :: rat) powi ulp_exp x = of_int (2 ^ nat (ulp_exp x - (- 1074))) * 2 powi (- 1074)"
    by (rule powi_diff_int) (simp add: ulp_exp_def)
  ultimately have "x = of_int (round_half_even (x / 2 powi ulp_exp x) * 2 ^ nat (ulp_exp x - (- 1074))) * 2 powi (- 1074)"
    by (metis (no_types, lifting) mult.assoc of_int_mult)
  then show ?thesis by blast
qed (auto intro: exI [of _ 0])

lemma round64_half_ulp: "\<bar>round64 x - x\<bar> \<le> 2 powi ulp_exp x / 2"
proof (cases "x = 0")
  case False
  let ?u = "2 powi ulp_exp x :: rat"
  have "round64 x - x = (of_int (round_half_even (x / ?u)) - x / ?u) * ?u" using False by (simp add: round64_def left_diff_distrib)
  then have "\<bar>round64 x - x\<bar> = \<bar>of_int (round_half_even (x / ?u)) - x / ?u\<bar> * ?u" by (simp add: abs_mult)
  also have "\<dots> \<le> 1 / 2 * ?u" using round_half_even_error [of "x / ?u"] by (rule mult_right_mono) simp
  finally show ?thesis by simp
qed (simp add: round64_def)

text \<open>A step of less than the rounded distance, by a few units in the last place of one, stays within the
  distance.\<close>

definition ease_limit :: rat where
  "ease_limit = 1 - 1 / 2 ^ 50"

lemma ease_step:
  assumes "round64 x = x" "round64 t = t" "x < t" "0 \<le> s" "s \<le> ease_limit"
  shows "0 \<le> round64 (round64 (t - x) * s)" "round64 (round64 (t - x) * s) \<le> t - x"
proof -
  let ?y = "t - x" let ?k = "rexp (t - x)" let ?d = "round64 (t - x)"
  have y: "0 < ?y" using assms(3) by simp
  have s: "s \<le> 1 - 1 / 2 ^ 50" "s \<le> 1" using assms(5) by (simp_all add: ease_limit_def)
  have d0: "0 \<le> ?d" using y by (simp add: round64_nonneg)
  show "0 \<le> round64 (?d * s)" using d0 assms(4) by (simp add: round64_nonneg)
  show "round64 (?d * s) \<le> ?y"
  proof (cases "?k - 52 \<le> - 1074")
    case True
    obtain a b where "x = of_int a * 2 powi (- 1074)" "t = of_int b * 2 powi (- 1074)"
      using assms(1,2) double_multiple by metis
    then have "?y = of_int (b - a) * 2 powi ulp_exp ?y" using True by (simp add: ulp_exp_def left_diff_distrib)
    then have exact: "?d = ?y" by (rule round64_multiple)
    have "?d * s \<le> ?y" using exact y s(2) by (simp add: mult_left_le)
    then have "round64 (?d * s) \<le> round64 ?y" by (rule round64_mono)
    then show ?thesis using exact by simp
  next
    case False
    let ?e = "2 powi (?k - 53) :: rat"
    have u: "ulp_exp ?y = ?k - 52" using False by (simp add: ulp_exp_def)
    have e: "2 powi (?k - 52) / 2 = ?e" "2 powi ?k = 8 * 2 ^ 50 * ?e" "0 < ?e"
      by (simp_all add: power_int_diff)
    have lo: "8 * 2 ^ 50 * ?e \<le> ?y" and hi: "?y < 2 powi (?k + 1)" using rexp_bounds [of ?y] y by (auto simp: e(2))
    have d: "?d \<le> ?y + ?e" using round64_half_ulp [of ?y] unfolding u e(1) by linarith
    have "?d * s \<le> (?y + ?e) * (1 - 1 / 2 ^ 50)" using d d0 s(1) assms(4) y by (intro mult_mono) auto
    also have "\<dots> = ?y + ?e - ?y * (1 / 2 ^ 50) - ?e * (1 / 2 ^ 50)" by (simp only: right_diff_distrib distrib_right mult_1_right)
    also have "\<dots> \<le> ?y + ?e - ?y * (1 / 2 ^ 50)" using e(3) by simp
    also have "\<dots> \<le> ?y - 7 * ?e" using mult_right_mono [OF lo, of "1 / 2 ^ 50"] by simp
    finally have ds: "?d * s \<le> ?y - 7 * ?e" .
    show ?thesis
    proof (cases "?d * s = 0")
      case False
      then have pos: "0 < ?d * s" using d0 assms(4) by (simp add: order_le_less)
      have "?d * s \<le> ?y" using ds e(3) by linarith
      then have "rexp (?d * s) \<le> ?k" using pos by (rule rexp_mono [rotated])
      then have "ulp_exp (?d * s) \<le> ?k - 52" using \<open>\<not> ?k - 52 \<le> - 1074\<close> by (simp add: ulp_exp_def)
      then have "(2 :: rat) powi ulp_exp (?d * s) \<le> 2 powi (?k - 52)" by (rule power_int_increasing) simp
      then have "round64 (?d * s) \<le> ?d * s + ?e" using round64_half_ulp [of "?d * s"] e(1) by linarith
      then show ?thesis using ds e(3) by linarith
    qed (use y in \<open>simp add: round64_def\<close>)
  qed
qed

text \<open>At full speed it need not: the distance from \<open>-1\<close> to \<open>3 / 2 ^ 54\<close> rounds up, and so does the step.\<close>

lemma full_speed_overshoots: "3 / 2 ^ 54 < - 1 + round64 (round64 (3 / 2 ^ 54 - (- 1)) * 1)"
  by code_simp

lemma is_double_pow2: "k \<le> 53 \<Longrightarrow> is_double (2 ^ k)"
  using is_double_of_int [of "2 ^ k"] power_increasing [of k 53 "2 :: int"] by simp

lemma of_rat_js_minus: "of_rat_js (- q) = js_neg (of_rat_js q)"
proof -
  have "0 < double_limit" by (simp add: double_limit_def)
  then show ?thesis by (auto simp: of_rat_js_def Let_def round64_minus)
qed

lemma of_rat_js_within:
  assumes "0 \<le> q" "q \<le> 2 ^ k" "k \<le> 53"
  shows "of_rat_js q = Fin (round64 q)" "0 \<le> round64 q" "round64 q \<le> 2 ^ k"
proof -
  have "is_double 0" using is_double_of_int [of 0] by simp
  from of_rat_js_bounded [OF this is_double_pow2 [OF assms(3)] assms(1,2)]
  obtain y where "of_rat_js q = Fin y" "0 \<le> y" "y \<le> 2 ^ k" by blast
  moreover from this have "y = round64 q" using of_rat_js_Fin by blast
  ultimately show "of_rat_js q = Fin (round64 q)" "0 \<le> round64 q" "round64 q \<le> 2 ^ k" by simp_all
qed

lemma lerp_up:
  assumes x: "is_double x" and t: "is_double t" and "x \<le> t" "0 \<le> s" "s \<le> ease_limit"
    and b: "\<bar>x\<bar> \<le> 2 ^ 50" "\<bar>t\<bar> \<le> 2 ^ 50"
  shows "\<exists>r. lerp (Fin x) (Fin t) (Fin s) = Fin r \<and> is_double r \<and> x \<le> r \<and> r \<le> t"
proof (cases "x = t")
  case True
  have "is_double 0" using is_double_of_int [of 0] by simp
  then show ?thesis using True x by (auto simp: lerp_def js_sub_def)
next
  case False
  then have lt: "x < t" using assms(3) by simp
  have r: "round64 x = x" "round64 t = t" using x t by (auto simp: is_double_def)
  have "0 \<le> t - x" "t - x \<le> 2 ^ 51" using lt b by auto
  note d = of_rat_js_within [OF this, simplified]
  have "round64 (t - x) * s \<le> 2 ^ 51 * 1" using d(2,3) assms by (intro mult_mono) (auto simp: ease_limit_def)
  then have m: "of_rat_js (round64 (t - x) * s) = Fin (round64 (round64 (t - x) * s))"
    using of_rat_js_within(1) [of "round64 (t - x) * s" 51] d(2) assms by simp
  have "x \<le> x + round64 (round64 (t - x) * s)" "x + round64 (round64 (t - x) * s) \<le> t"
    using ease_step [OF r lt assms(4,5)] by auto
  from of_rat_js_bounded [OF x t this] obtain q where
    q: "of_rat_js (x + round64 (round64 (t - x) * s)) = Fin q" "x \<le> q" "q \<le> t" by blast
  then have "lerp (Fin x) (Fin t) (Fin s) = Fin q" by (simp add: lerp_def js_sub_def d(1) m)
  with of_rat_js_Fin [OF q(1)] q(2,3) show ?thesis by blast
qed

lemma js_add_neg: "js_add (js_neg a) (js_neg b) = js_neg (js_add a b)"
proof (cases a; cases b)
  fix x y assume "a = Fin x" "b = Fin y"
  then show ?thesis using of_rat_js_minus [of "x + y"] by simp
qed simp_all

lemma js_mul_neg: "js_mul (js_neg a) b = js_neg (js_mul a b)"
proof (cases a; cases b)
  fix x y assume "a = Fin x" "b = Fin y"
  then show ?thesis using of_rat_js_minus [of "x * y"] by simp
qed (auto simp: signed_inf_def)

lemma lerp_minus: "lerp (Fin (- x)) (Fin (- t)) (Fin s) = js_neg (lerp (Fin x) (Fin t) (Fin s))"
proof -
  have "js_sub (Fin (- t)) (Fin (- x)) = js_neg (js_sub (Fin t) (Fin x))"
    using js_add_neg [of "Fin t" "Fin (- x)"] by (simp add: js_sub_def)
  then show ?thesis
    using js_add_neg [of "Fin x"] by (simp add: lerp_def js_mul_neg)
qed

lemma is_double_minus: "is_double (- x) \<longleftrightarrow> is_double x"
  by (auto simp: is_double_def round64_minus)

lemma lerp_down:
  assumes "is_double x" "is_double t" "t \<le> x" "0 \<le> s" "s \<le> ease_limit" "\<bar>x\<bar> \<le> 2 ^ 50" "\<bar>t\<bar> \<le> 2 ^ 50"
  shows "\<exists>r. lerp (Fin x) (Fin t) (Fin s) = Fin r \<and> is_double r \<and> t \<le> r \<and> r \<le> x"
proof -
  obtain r where r: "lerp (Fin (- x)) (Fin (- t)) (Fin s) = Fin r" "is_double r" "- x \<le> r" "r \<le> - t"
    using lerp_up [of "- x" "- t" s] assms by (auto simp: is_double_minus)
  from r(1) have "lerp (Fin x) (Fin t) (Fin s) = Fin (- r)"
    by (cases "lerp (Fin x) (Fin t) (Fin s)") (auto simp: lerp_minus)
  with r show ?thesis by (auto simp: is_double_minus)
qed


subsection \<open>The range contains what is plotted\<close>

text \<open>The numbers the chart has to show: the finite numeric fields of its points and the current
  values.\<close>

definition plotted :: "LiveLinePoint list \<Rightarrow> jsnum \<Rightarrow> jsnum option \<Rightarrow> rat set" where
  "plotted ps v vNo =
     {q. Num (Fin q) \<in> set (concat (map numericValues ps)) \<or> v = Fin q \<or> vNo = Some (Fin q)}"

definition small_double :: "nat \<Rightarrow> rat \<Rightarrow> bool" where
  "small_double k q \<longleftrightarrow> is_double q \<and> \<bar>q\<bar> \<le> 2 ^ k"

text \<open>The scan so far: both ends are still infinite, or they are small numbers.\<close>

definition scan_ok :: "jsnum \<times> jsnum \<Rightarrow> rat set \<Rightarrow> bool" where
  "scan_ok acc S \<longleftrightarrow>
     acc = (PInf, NInf) \<and> S = {} \<or>
     (\<exists>mn mx. acc = (Fin mn, Fin mx) \<and> small_double 40 mn \<and> small_double 40 mx \<and> mn \<le> mx
        \<and> (\<forall>q \<in> S. mn \<le> q \<and> q \<le> mx))"

lemma widen_ok:
  assumes "scan_ok acc S" "small_double 40 q"
  shows "scan_ok (widen (Fin q) acc) (insert q S)"
  using assms(1) unfolding scan_ok_def
proof (elim disjE exE conjE)
  fix mn mx assume h: "acc = (Fin mn, Fin mx)" "small_double 40 mn" "small_double 40 mx" "mn \<le> mx"
    "\<forall>q \<in> S. mn \<le> q \<and> q \<le> mx"
  have "widen (Fin q) acc = (Fin (min mn q), Fin (max mx q))"
    by (auto simp: widen_def h(1) min_def max_def)
  moreover have "small_double 40 (min mn q)" "small_double 40 (max mx q)" "min mn q \<le> max mx q"
    "\<forall>x \<in> insert q S. min mn q \<le> x \<and> x \<le> max mx q"
    using h assms(2) by (auto simp: min_def max_def)
  ultimately show "widen (Fin q) acc = (PInf, NInf) \<and> insert q S = {} \<or>
     (\<exists>mn mx. widen (Fin q) acc = (Fin mn, Fin mx) \<and> small_double 40 mn \<and> small_double 40 mx \<and> mn \<le> mx
        \<and> (\<forall>q \<in> insert q S. mn \<le> q \<and> q \<le> mx))" by blast
qed (use assms(2) in \<open>auto simp: widen_def\<close>)

lemma widen_NaN: "widen NaN acc = acc"
  by (cases acc; cases "fst acc"; cases "snd acc") (auto simp: widen_def)

lemma scan_value_widen:
  "scan_value v acc = (case v of Num (Fin q) \<Rightarrow> widen (Fin q) acc | _ \<Rightarrow> acc)"
  by (auto simp: scan_value_def widen_def is_finite_num_def split: numstr.splits jsnum.splits)

lemma scan_all_ok:
  assumes "scan_ok acc S" "\<forall>q. Num (Fin q) \<in> set vs \<longrightarrow> small_double 40 q"
  shows "scan_ok (fold scan_value vs acc) (S \<union> {q. Num (Fin q) \<in> set vs})"
  using assms
proof (induction vs arbitrary: acc S)
  case (Cons v vs)
  show ?case
  proof (cases "\<exists>q. v = Num (Fin q)")
    case True
    then obtain q where v: "v = Num (Fin q)" by blast
    have "scan_ok (scan_value v acc) (insert q S)"
      using widen_ok [OF Cons.prems(1)] Cons.prems(2) by (simp add: v scan_value_widen)
    then have "scan_ok (fold scan_value vs (scan_value v acc)) (insert q S \<union> {q. Num (Fin q) \<in> set vs})"
      using Cons.prems(2) by (intro Cons.IH) auto
    moreover have "S \<union> {q. Num (Fin q) \<in> set (v # vs)} = insert q S \<union> {q. Num (Fin q) \<in> set vs}"
      by (auto simp: v)
    ultimately show ?thesis by simp
  next
    case False
    then have "scan_value v acc = acc" by (auto simp: scan_value_widen split: numstr.splits jsnum.splits)
    moreover have "{q. Num (Fin q) \<in> set (v # vs)} = {q. Num (Fin q) \<in> set vs}" using False by auto
    ultimately show ?thesis using Cons by simp
  qed
qed simp

definition usable :: "LiveLinePoint list \<Rightarrow> jsnum \<Rightarrow> jsnum option \<Rightarrow> bool" where
  "usable ps v vNo \<longleftrightarrow>
     v \<notin> {PInf, NInf} \<and> vNo \<notin> {Some PInf, Some NInf} \<and> plotted ps v vNo \<noteq> {} \<and> (\<forall>q \<in> plotted ps v vNo. small_double 40 q)"

lemma scan_range_ok:
  assumes "usable ps v vNo"
  shows "\<exists>mn mx. scan_range ps v vNo = (Fin mn, Fin mx) \<and> small_double 40 mn \<and> small_double 40 mx \<and> mn \<le> mx
    \<and> (\<forall>q \<in> plotted ps v vNo. mn \<le> q \<and> q \<le> mx)"
proof -
  let ?vs = "concat (map numericValues ps)" let ?S = "{q. Num (Fin q) \<in> set ?vs}"
  have small: "\<forall>q \<in> plotted ps v vNo. small_double 40 q" using assms by (simp add: usable_def)
  have step: "scan_ok (widen n acc) (S \<union> {q. n = Fin q})" if "scan_ok acc S" "n \<notin> {PInf, NInf}" "\<forall>q. n = Fin q \<longrightarrow> small_double 40 q" for n acc S
    using that widen_ok [of acc S] by (cases n) (simp_all add: widen_NaN)
  have "scan_ok (fold scan_value ?vs (PInf, NInf)) ({} \<union> ?S)"
    using small by (intro scan_all_ok) (auto simp: scan_ok_def plotted_def)
  then have s1: "scan_ok (widen v (fold scan_value ?vs (PInf, NInf))) (?S \<union> {q. v = Fin q})"
    using assms small by (intro step) (auto simp: usable_def plotted_def)
  have "scan_ok (scan_range ps v vNo) (plotted ps v vNo)"
  proof (cases vNo)
    case None
    then have "plotted ps v vNo = ?S \<union> {q. v = Fin q}" by (auto simp: plotted_def)
    then show ?thesis using s1 None by (simp add: scan_range_def)
  next
    case (Some n)
    have "plotted ps v vNo = (?S \<union> {q. v = Fin q}) \<union> {q. n = Fin q}" by (auto simp: plotted_def Some)
    then show ?thesis using step [OF s1, of n] assms small by (simp add: scan_range_def Some usable_def)
  qed
  moreover have "plotted ps v vNo \<noteq> {}" using assms by (simp add: usable_def)
  ultimately show ?thesis unfolding scan_ok_def by blast
qed

lemma literal_within:
  assumes "0 \<le> q" "q \<le> 1"
  shows "\<exists>f. of_rat_js q = Fin f \<and> 0 \<le> f \<and> f \<le> 1"
  using of_rat_js_within [of q 0] assms by auto

lemma pad_of_nonneg:
  assumes "0 \<le> r" "r \<le> 2 ^ 42"
  shows "\<exists>p. pad_of (Fin r) ex = Fin p \<and> 0 \<le> p \<and> p \<le> 2 ^ 42"
proof -
  obtain f where f: "(if ex then of_rat_js (3 / 100) else of_rat_js (15 / 100)) = Fin f" "0 \<le> f" "f \<le> 1"
    using literal_within [of "3 / 100"] literal_within [of "15 / 100"] by (cases ex) auto
  obtain g where g: "of_rat_js (4 / 100) = Fin g" "0 \<le> g" "g \<le> 1" using literal_within [of "4 / 100"] by auto
  have "r * f \<le> 2 ^ 42 * 1" using assms f by (intro mult_mono) auto
  then have "of_rat_js (r * f) = Fin (round64 (r * f))" "0 \<le> round64 (r * f)" "round64 (r * f) \<le> 2 ^ 42"
    using of_rat_js_within [of "r * f" 42] assms f by auto
  then show ?thesis unfolding pad_of_def Let_def f(1) using g by auto
qed

lemma sub_pad:
  assumes "small_double 40 m" "0 \<le> p" "p \<le> 2 ^ 42"
  shows "\<exists>r. js_sub (Fin m) (Fin p) = Fin r \<and> small_double 43 r \<and> r \<le> m"
    and "\<exists>r. js_add (Fin m) (Fin p) = Fin r \<and> small_double 43 r \<and> m \<le> r"
proof -
  have m: "is_double m" "\<bar>m\<bar> \<le> 2 ^ 40" using assms(1) by (auto simp: small_double_def)
  have d: "is_double (2 ^ 43)" "is_double (- (2 ^ 43))" using is_double_pow2 [of 43] by (simp_all add: is_double_minus)
  have "- (2 ^ 43) \<le> m - p" "m - p \<le> m" using m assms by auto
  from of_rat_js_bounded [OF d(2) m(1) this] obtain r where
    r: "of_rat_js (m - p) = Fin r" "- (2 ^ 43) \<le> r" "r \<le> m" by blast
  have "is_double r" using of_rat_js_Fin [OF r(1)] by blast
  moreover have "\<bar>r\<bar> \<le> 2 ^ 43" using r(2,3) m(2) by (auto simp: abs_le_iff)
  ultimately show "\<exists>r. js_sub (Fin m) (Fin p) = Fin r \<and> small_double 43 r \<and> r \<le> m"
    using r by (auto simp: js_sub_def small_double_def)
  have "m \<le> m + p" "m + p \<le> 2 ^ 43" using m assms by auto
  from of_rat_js_bounded [OF m(1) d(1) this] obtain r where
    r: "of_rat_js (m + p) = Fin r" "m \<le> r" "r \<le> 2 ^ 43" by blast
  have "is_double r" using of_rat_js_Fin [OF r(1)] by blast
  moreover have "\<bar>r\<bar> \<le> 2 ^ 43" using r(2,3) m(2) by (auto simp: abs_le_iff)
  ultimately show "\<exists>r. js_add (Fin m) (Fin p) = Fin r \<and> small_double 43 r \<and> m \<le> r"
    using r by (auto simp: small_double_def)
qed

text \<open>A range of small numbers that contains a set.\<close>

definition spans :: "y_range \<Rightarrow> rat set \<Rightarrow> bool" where
  "spans r S \<longleftrightarrow>
     (\<exists>lo hi. yMin r = Fin lo \<and> yMax r = Fin hi \<and> small_double 43 lo \<and> small_double 43 hi
        \<and> (\<forall>q \<in> S. lo \<le> q \<and> q \<le> hi))"

lemma target_spans:
  assumes "usable ps v vNo" "ps \<noteq> []"
  shows "spans (computeTargetRange ps v vNo ex) (plotted ps v vNo)"
proof -
  obtain mn mx where s: "scan_range ps v vNo = (Fin mn, Fin mx)" "small_double 40 mn" "small_double 40 mx"
    "mn \<le> mx" "\<forall>q \<in> plotted ps v vNo. mn \<le> q \<and> q \<le> mx" using scan_range_ok [OF assms(1)] by blast
  have "0 \<le> mx - mn" "mx - mn \<le> 2 ^ 42" using s(2-4) by (auto simp: small_double_def)
  note raw = of_rat_js_within [OF this, simplified]
  obtain p where p: "pad_of (Fin (round64 (mx - mn))) ex = Fin p" "0 \<le> p" "p \<le> 2 ^ 42"
    using pad_of_nonneg raw by fastforce
  obtain lo hi where l: "js_sub (Fin mn) (Fin p) = Fin lo" "small_double 43 lo" "lo \<le> mn"
    and h: "js_add (Fin mx) (Fin p) = Fin hi" "small_double 43 hi" "mx \<le> hi"
    using sub_pad [OF s(2) p(2,3)] sub_pad [OF s(3) p(2,3)] by blast
  have "js_sub (Fin mx) (Fin mn) = Fin (round64 (mx - mn))" using raw by (simp add: js_sub_def)
  then have "computeTargetRange ps v vNo ex = \<lparr>yMin = Fin lo, yMax = Fin hi\<rparr>"
    using assms(2) p(1) l(1) h(1) by (simp add: computeTargetRange_def s(1) is_finite_num_def)
  moreover have "\<forall>q \<in> plotted ps v vNo. lo \<le> q \<and> q \<le> hi" using s(5) l(3) h(3) by force
  ultimately show ?thesis using l(2) h(2) by (simp add: spans_def)
qed

subsection \<open>No frame cuts off a value\<close>

abbreviation axis :: "AnimFrame \<Rightarrow> y_range" where
  "axis fr \<equiv> \<lparr>yMin = yMin fr, yMax = yMax fr\<rparr>"

lemma next_frame_spans:
  assumes "spans (axis prev) S0" "spans r S" "0 \<le> s" "s \<le> ease_limit"
  shows "spans (axis (nextAnimFrame prev r v vNo (Fin s) pz clock)) S"
proof -
  obtain a b where a: "yMin prev = Fin a" "small_double 43 a" and b: "yMax prev = Fin b" "small_double 43 b"
    using assms(1) by (auto simp: spans_def)
  obtain lo hi where l: "yMin r = Fin lo" "small_double 43 lo" and h: "yMax r = Fin hi" "small_double 43 hi"
    and S: "\<forall>q \<in> S. lo \<le> q \<and> q \<le> hi" using assms(2) by (auto simp: spans_def)
  have big: "\<bar>x\<bar> \<le> 2 ^ 50" if "small_double 43 x" for x using that by (auto simp: small_double_def)
  have "\<exists>x. (if js_lt (yMin r) (yMin prev) then yMin r else lerp (yMin prev) (yMin r) (Fin s)) = Fin x
      \<and> small_double 43 x \<and> x \<le> lo"
  proof (cases "lo < a")
    case False
    then obtain x where "lerp (Fin a) (Fin lo) (Fin s) = Fin x" "is_double x" "a \<le> x" "x \<le> lo"
      using lerp_up [of a lo s] a l assms big by (auto simp: small_double_def)
    with False a l show ?thesis by (auto simp: small_double_def abs_le_iff)
  qed (use a l in simp)
  moreover have "\<exists>x. (if js_lt (yMax prev) (yMax r) then yMax r else lerp (yMax prev) (yMax r) (Fin s)) = Fin x
      \<and> small_double 43 x \<and> hi \<le> x"
  proof (cases "b < hi")
    case False
    then obtain x where "lerp (Fin b) (Fin hi) (Fin s) = Fin x" "is_double x" "hi \<le> x" "x \<le> b"
      using lerp_down [of b hi s] b h assms big by (auto simp: small_double_def)
    with False b h show ?thesis by (auto simp: small_double_def abs_le_iff)
  qed (use b h in simp)
  ultimately obtain x y where
    "yMin (nextAnimFrame prev r v vNo (Fin s) pz clock) = Fin x" "small_double 43 x" "x \<le> lo"
    "yMax (nextAnimFrame prev r v vNo (Fin s) pz clock) = Fin y" "small_double 43 y" "hi \<le> y"
    by (auto simp: nextAnimFrame_def)
  with S show ?thesis by (force simp: spans_def)
qed


text \<open>What happens to a mounted chart: an animation frame under the current props, or the mouse.\<close>

datatype live_event =
    Frame live_props jsnum jsnum
  | MouseMove live_props "jsnum option"
  | MouseLeave

fun live_step :: "scale \<Rightarrow> scale \<Rightarrow> live_event \<Rightarrow> live_chart \<Rightarrow> live_chart" where
  "live_step xi ys (Frame p clock perf) c = tick xi ys p clock perf c"
| "live_step xi ys (MouseMove p coords) c = handleMouseMove p coords c"
| "live_step xi ys MouseLeave c = handleMouseLeave c"

text \<open>The props of the last animation frame.\<close>

fun last_props :: "live_props \<Rightarrow> live_event list \<Rightarrow> live_props" where
  "last_props p [] = p"
| "last_props p (Frame p' _ _ # es) = last_props p' es"
| "last_props p (_ # es) = last_props p es"

definition shown_values :: "live_props \<Rightarrow> rat set" where
  "shown_values p = plotted (data p) (curValue p) (curValueNo p)"

text \<open>Without points the axis is fixed; only what lies on it is in view.\<close>

definition in_view :: "live_props \<Rightarrow> rat set" where
  "in_view p = (if data p = [] then shown_values p \<inter> {0..100} else shown_values p)"

definition usable_props :: "live_props \<Rightarrow> bool" where
  "usable_props p \<longleftrightarrow>
     (\<exists>s. lerpSpeed p = Fin s \<and> 0 \<le> s \<and> s \<le> ease_limit) \<and>
     (data p = [] \<or> usable (data p) (curValue p) (curValueNo p))"

fun usable_event :: "live_event \<Rightarrow> bool" where
  "usable_event (Frame p _ _) = usable_props p"
| "usable_event _ = True"

lemma target_in_view:
  assumes "usable_props p"
  shows "spans (target_of p) (in_view p)"
proof (cases "data p = []")
  case True
  have "is_double (of_int n)" if "\<bar>n\<bar> \<le> 2 ^ 53" for n using that by (rule is_double_of_int)
  from this [of 0] this [of 100] have "small_double 43 0" "small_double 43 100" by (simp_all add: small_double_def)
  then show ?thesis using True by (simp add: spans_def target_of_def computeTargetRange_def in_view_def)
next
  case False
  then show ?thesis using assms target_spans by (simp add: usable_props_def target_of_def in_view_def shown_values_def)
qed

lemma animRef_tick:
  "animRef (tick xi ys p clock perf c) =
     nextAnimFrame (animRef c) (target_of p) (curValue p) (curValueNo p) (lerpSpeed p) (paused p) clock"
  by (simp add: tick_def Let_def split: prod.split)

lemma run_spans:
  assumes "spans (axis (animRef c)) (in_view p)" "\<forall>e \<in> set es. usable_event e"
  shows "spans (axis (animRef (fold (live_step xi ys) es c))) (in_view (last_props p es))"
  using assms
proof (induction es arbitrary: c p)
  case (Cons e es)
  show ?case
  proof (cases e)
    case (Frame p' clock perf)
    have use: "usable_props p'" using Cons.prems(2) by (simp add: Frame)
    then obtain s where "lerpSpeed p' = Fin s" "0 \<le> s" "s \<le> ease_limit" by (auto simp: usable_props_def)
    then have "spans (axis (animRef (live_step xi ys e c))) (in_view p')"
      using next_frame_spans [OF Cons.prems(1) target_in_view [OF use]] by (simp add: Frame animRef_tick)
    then show ?thesis using Cons.IH Cons.prems(2) by (simp add: Frame)
  next
    case (MouseMove p' coords)
    then have "animRef (live_step xi ys e c) = animRef c"
      by (simp add: handleMouseMove_def Let_def split: option.split)
    then show ?thesis using Cons.IH [of "live_step xi ys e c" p] Cons.prems by (simp add: MouseMove)
  next
    case MouseLeave
    then have "animRef (live_step xi ys e c) = animRef c" by (simp add: handleMouseLeave_def)
    then show ?thesis using Cons.IH [of "live_step xi ys e c" p] Cons.prems by (simp add: MouseLeave)
  qed
qed simp


definition sample_props :: "rat \<Rightarrow> rat \<Rightarrow> live_props" where
  "sample_props t v =
     \<lparr>data = [[(''time'', Num (Fin t)), (''value'', Num (Fin v)), (''Yes'', Num (Fin v)), (''No'', Num (Fin (1 - v)))]],
      curValue = Fin v, curValueNo = Some (Fin (1 - v)), dataKey = ''value'', windowMs = Fin 60000,
      xTickUnitMs = Fin 15000, leadingMs = Fin 0, exaggerate = False, lerpSpeed = Fin (1 / 16), paused = False,
      innerWidth = Fin 600, innerHeight = Fin 200, margin_left = Fin 40\<rparr>"

lemma sample_plotted: "shown_values (sample_props t v) = {v, 1 - v}"
  by (auto simp: shown_values_def plotted_def sample_props_def numericValues_def num_field_def is_finite_num_def
      opt_list_def is_number_def)

lemma sample_usable:
  assumes "small_double 40 v" "small_double 40 (1 - v)"
  shows "usable_props (sample_props t v)"
proof -
  have "\<forall>q \<in> shown_values (sample_props t v). small_double 40 q" "shown_values (sample_props t v) \<noteq> {}"
    using assms by (simp_all add: sample_plotted)
  then show ?thesis
    by (auto simp: usable_props_def usable_def shown_values_def sample_props_def ease_limit_def intro!: exI [of _ "1 / 16"])
qed


subsection \<open>The search finds the segment\<close>

definition timed :: "LiveLinePoint list \<Rightarrow> rat list \<Rightarrow> bool" where
  "timed points ts \<longleftrightarrow> map time_of points = map Fin ts"

lemma timed_nth: "timed points ts \<Longrightarrow> i < length ts \<Longrightarrow> time_of (points ! i) = Fin (ts ! i)"
  unfolding timed_def by (metis length_map nth_map)

lemma timed_length: "timed points ts \<Longrightarrow> length points = length ts"
  unfolding timed_def by (metis length_map)

lemma search_finds:
  assumes "timed points ts" "lo < hi" "hi < length ts" "ts ! lo \<le> t" "t < ts ! hi"
  shows "\<exists>i. interp_search points (Fin t) lo hi = (i, Suc i) \<and> lo \<le> i \<and> Suc i \<le> hi \<and> ts ! i \<le> t \<and> t < ts ! Suc i"
  using assms(2-)
proof (induction "hi - lo" arbitrary: lo hi rule: less_induct)
  case less
  let ?mid = "(lo + hi) div 2"
  show ?case
  proof (cases "hi - lo > 1")
    case True
    then have mid: "lo < ?mid" "?mid < hi" by auto
    have test: "at_or_before points (Fin t) ?mid \<longleftrightarrow> ts ! ?mid \<le> t"
      using mid less.prems(2) timed_length [OF assms(1)] timed_nth [OF assms(1), of ?mid]
      by (auto simp: at_or_before_def js_le_def js_eq_def)
    show ?thesis
    proof (cases "ts ! ?mid \<le> t")
      case T: True
      then have "interp_search points (Fin t) lo hi = interp_search points (Fin t) ?mid hi"
        using True test by (subst interp_search.simps) (simp add: Let_def)
      then show ?thesis using less.hyps [of hi ?mid] mid less.prems T by fastforce
    next
      case F: False
      then have "interp_search points (Fin t) lo hi = interp_search points (Fin t) lo ?mid"
        using True test by (subst interp_search.simps) (simp add: Let_def)
      then show ?thesis using less.hyps [of ?mid lo] mid less.prems F by fastforce
    qed
  next
    case False
    then have "hi = Suc lo" using less.prems(1) by simp
    then show ?thesis using less.prems by (subst interp_search.simps) simp
  qed
qed

text \<open>The straightforward routine: walk along the points to the first one that is later.\<close>

fun interpolate_scan :: "LiveLinePoint list \<Rightarrow> jsnum \<Rightarrow> jsnum option" where
  "interpolate_scan [] t = None"
| "interpolate_scan [p] t = Some (value_of p)"
| "interpolate_scan (p # q # ps) t =
     (if js_lt t (time_of q) then Some (segment_value p q t) else interpolate_scan (q # ps) t)"

lemma scan_at:
  assumes "timed points ts" "sorted ts" "Suc i < length ts" "ts ! i \<le> t" "t < ts ! Suc i"
  shows "interpolate_scan points (Fin t) = Some (segment_value (points ! i) (points ! Suc i) (Fin t))"
  using assms
proof (induction points "Fin t" arbitrary: ts i rule: interpolate_scan.induct)
  case (3 p q ps)
  obtain a b us where ts: "ts = a # b # us" "time_of q = Fin b" "timed (q # ps) (b # us)"
    using 3(2) by (auto simp: timed_def map_eq_Cons_conv Cons_eq_map_conv)
  show ?case
  proof (cases i)
    case 0
    then show ?thesis using 3(6) by (simp add: ts)
  next
    case (Suc j)
    have "(b # us) ! 0 \<le> (b # us) ! j" using 3(3,4) by (intro sorted_nth_mono) (auto simp: ts Suc)
    then have "b \<le> ts ! i" by (simp add: ts Suc)
    then have "\<not> t < b" using 3(5) by simp
    then have "interpolate_scan (p # q # ps) (Fin t) = interpolate_scan (q # ps) (Fin t)" by (simp add: ts(2))
    also have "\<dots> = Some (segment_value ((q # ps) ! j) ((q # ps) ! Suc j) (Fin t))"
      using \<open>\<not> t < b\<close> 3 by (intro 3(1) [OF _ ts(3)]) (auto simp: ts Suc)
    finally show ?thesis by (simp add: Suc)
  qed
qed (auto simp: timed_def)

text \<open>
  The tooltip's binary search agrees with walking along the line. On points in the order of their
  times, \<open>interpolateAtTime\<close> holds the first value before the first point and the last one from the
  last point on, and in between it interpolates on the segment a linear scan stops at, whose ends
  enclose the time asked for. The search always ends.
\<close>

theorem tooltip_search_correct:
  assumes "timed points ts" "sorted ts" "ts \<noteq> []"
  shows "interpolateAtTime points (Fin t) =
      (if t \<le> hd ts then Some (value_of (hd points))
       else if last ts \<le> t then Some (value_of (last points))
       else interpolate_scan points (Fin t))
    \<and> (hd ts < t \<and> t < last ts \<longrightarrow>
        (\<exists>i. Suc i < length ts \<and> ts ! i \<le> t \<and> t < ts ! Suc i
           \<and> interpolateAtTime points (Fin t) = Some (segment_value (points ! i) (points ! Suc i) (Fin t))))"
proof -
  have len: "length points = length ts" using assms(1) by (rule timed_length)
  then have ne: "points \<noteq> []" using assms(3) by auto
  have ends: "time_of (hd points) = Fin (hd ts)" "time_of (last points) = Fin (last ts)"
    using timed_nth [OF assms(1), of 0] timed_nth [OF assms(1), of "length ts - 1"] assms(3) ne len
    by (simp_all add: hd_conv_nth last_conv_nth)
  show ?thesis
  proof (cases "hd ts < t \<and> t < last ts")
    case False
    then show ?thesis using ne ends by (auto simp: interpolateAtTime_def js_le_def js_eq_def)
  next
    case True
    have "ts ! 0 \<le> t" "t < ts ! (length ts - 1)"
      using True assms(3) by (simp_all add: hd_conv_nth last_conv_nth)
    moreover from this have "0 < length ts - 1" by (cases "length ts - 1") auto
    moreover from this have "length ts - 1 < length ts" by simp
    ultimately obtain i where i: "interp_search points (Fin t) 0 (length ts - 1) = (i, Suc i)"
      "Suc i \<le> length ts - 1" "ts ! i \<le> t" "t < ts ! Suc i"
      using search_finds [OF assms(1), of 0 "length ts - 1" t] by blast
    have "interpolateAtTime points (Fin t) = Some (segment_value (points ! i) (points ! Suc i) (Fin t))"
      using True ne ends i(1,2) assms(3) len by (auto simp: interpolateAtTime_def js_le_def js_eq_def Suc_le_eq)
    moreover have "Suc i < length ts" using i(2) assms(3) by (cases ts) auto
    ultimately show ?thesis using scan_at [OF assms(1,2) _ i(3,4)] i(3,4) True by auto
  qed
qed

definition sample_line :: "LiveLinePoint list" where
  "sample_line = map (\<lambda>t. [(''time'', Num (Fin t)), (''value'', Num (Fin (t / 10)))]) [100, 110, 120, 130]"

theorem tooltip_search_correct_witness:
  "timed sample_line [100, 110, 120, 130] \<and> sorted [100, 110, 120, 130 :: rat]
    \<and> interpolateAtTime sample_line (Fin 115) = interpolate_scan sample_line (Fin 115)"
proof -
  have "timed sample_line [100, 110, 120, 130]" by (simp add: timed_def sample_line_def num_field_def)
  with tooltip_search_correct [of sample_line "[100, 110, 120, 130]" 115] show ?thesis by simp
qed

subsection \<open>The fallback band\<close>

text \<open>The scan of a chart with small finite values ends in finite numbers whenever the current value is
  one, whatever the samples are, so the fallback to a band around the current value is reached only
  where that band is not finite either.\<close>

lemma scan_finite_iff:
  assumes "scan_range ps v None = (mn, mx)" "\<forall>q. Num (Fin q) \<in> set (concat (map numericValues ps)) \<longrightarrow> small_double 40 q"
    and "\<not> is_finite_num mn \<or> \<not> is_finite_num mx"
  shows "\<not> is_finite_num v \<or> (\<exists>q. v = Fin q \<and> \<not> small_double 40 q)"
proof (rule ccontr)
  assume "\<not> ?thesis"
  then obtain q where "v = Fin q" "small_double 40 q" by (cases v) (auto simp: is_finite_num_def)
  moreover have "scan_ok (fold scan_value (concat (map numericValues ps)) (PInf, NInf)) ({} \<union> {q. Num (Fin q) \<in> set (concat (map numericValues ps))})"
    using assms(2) by (intro scan_all_ok) (auto simp: scan_ok_def)
  ultimately have "scan_ok (mn, mx) (insert q ({} \<union> {q. Num (Fin q) \<in> set (concat (map numericValues ps))}))"
    using widen_ok assms(1) by (metis scan_range_def option.simps(4))
  with assms(3) show False by (auto simp: scan_ok_def is_finite_num_def)
qed

text \<open>A flat market is padded by ten either way, on an axis of prices between zero and one.\<close>

lemma flat_market_axis:
  assumes "ps \<noteq> []" "scan_range ps v vNo = (Fin q, Fin q)"
  shows "computeTargetRange ps v vNo False = \<lparr>yMin = js_sub (Fin q) (Fin 10), yMax = js_add (Fin q) (Fin 10)\<rparr>"
proof -
  have zero: "is_double 0" using is_double_of_int [of 0] by simp
  obtain f where "of_rat_js (15 / 100) = Fin f" using literal_within [of "15 / 100"] by auto
  then have "pad_of (Fin 0) False = Fin 10" using zero by (simp add: pad_of_def)
  then show ?thesis using assms zero by (simp add: computeTargetRange_def js_sub_def is_finite_num_def)
qed

end
