(* ===== verification/Display_Format.thy ===== *)
theory Display_Format
  imports JS_Value
begin

text \<open>
  How the pages print numbers and times: \<open>Number.prototype.toFixed\<close>, the helpers of
  \<^verbatim>\<open>apps/web/lib/utils/format.ts\<close>, the copies and variants of them in the components, and the
  order book panel (\<^verbatim>\<open>apps/web/components/markets/order-book.tsx\<close>).

  \<open>new Date(s).getTime()\<close> on a string is the parameter \<open>getTime\<close>. What the locale decides
  (\<open>toLocaleDateString\<close>, \<open>toLocaleString\<close>) is the parameter \<open>locale_date\<close> or \<open>locale_number\<close>. The
  current time is an argument.
\<close>

subsection \<open>toFixed\<close>

text \<open>The integer nearest to \<open>q * 10 ^ d\<close>, the larger of two, and its digits with the point put in.\<close>

definition fixed_digits :: "nat \<Rightarrow> rat \<Rightarrow> string" where
  "fixed_digits d q =
     (let m = digits_of \<lfloor>q * 10 ^ d + 1 / 2\<rfloor>;
          z = pad_start (d + 1) (CHR ''0'') m
      in if d = 0 then m else take (length z - d) z @ ''.'' @ drop (length z - d) z)"

definition to_fixed :: "nat \<Rightarrow> jsnum \<Rightarrow> string" where
  "to_fixed d x =
     (case x of
        Fin q \<Rightarrow> if 10 ^ 21 \<le> \<bar>q\<bar> then num_to_string x else (if q < 0 then ''-'' else []) @ fixed_digits d \<bar>q\<bar>
      | _ \<Rightarrow> num_to_string x)"

subsection \<open>Amounts\<close>

text \<open>\<open>v == null || v === ""\<close>\<close>

definition no_amount :: "numstr option \<Rightarrow> bool" where
  "no_amount v \<longleftrightarrow> v = None \<or> v = Some (Str [])"

definition formatCurrency :: "numstr option \<Rightarrow> nat \<Rightarrow> string" where
  "formatCurrency amount decimals =
     (case amount of
        None \<Rightarrow> ''$0.00''
      | Some v \<Rightarrow>
          if v = Str [] then ''$0.00''
          else if js_Number v = NaN then ''$0.00''
          else ''$'' @ to_fixed decimals (js_Number v))"

text \<open>\<open>(n / unit).toFixed(1)\<close> and a suffix.\<close>

definition in_units :: "jsnum \<Rightarrow> rat \<Rightarrow> string \<Rightarrow> string" where
  "in_units n unit tag = to_fixed 1 (js_div n (Fin unit)) @ tag"

definition formatLargeNumber :: "(jsnum \<Rightarrow> string) \<Rightarrow> numstr option \<Rightarrow> bool \<Rightarrow> string" where
  "formatLargeNumber locale_number num short =
     (case num of
        None \<Rightarrow> ''0''
      | Some v \<Rightarrow>
          if v = Str [] then ''0''
          else
            (let n = js_Number v in
             if n = NaN then ''0''
             else if js_le (Fin (10 ^ 9)) n then in_units n (10 ^ 9) (if short then ''B'' else '' billion'')
             else if js_le (Fin (10 ^ 6)) n then in_units n (10 ^ 6) (if short then ''M'' else '' million'')
             else if js_le (Fin (10 ^ 3)) n then in_units n (10 ^ 3) (if short then ''K'' else '' thousand'')
             else locale_number n))"

text \<open>\<open>formatLiquidity\<close> has the same body.\<close>

definition formatVolume :: "numstr option \<Rightarrow> string" where
  "formatVolume volume =
     (case volume of
        None \<Rightarrow> ''$0''
      | Some v \<Rightarrow>
          if v = Str [] then ''$0''
          else
            (let n = js_Number v in
             if n = NaN then ''$0''
             else if js_le (Fin (10 ^ 9)) n then ''$'' @ in_units n (10 ^ 9) ''B''
             else if js_le (Fin (10 ^ 6)) n then ''$'' @ in_units n (10 ^ 6) ''M''
             else if js_le (Fin (10 ^ 3)) n then ''$'' @ in_units n (10 ^ 3) ''K''
             else ''$'' @ to_fixed 0 n))"

definition formatLiquidity :: "numstr option \<Rightarrow> string" where
  "formatLiquidity liquidity = formatVolume liquidity"

definition card_formatVolume :: "numstr \<Rightarrow> string" where
  "card_formatVolume v =
     (let n = js_Number v in
      if js_le (Fin (10 ^ 6)) n then ''$'' @ in_units n (10 ^ 6) ''M''
      else if js_le (Fin (10 ^ 3)) n then ''$'' @ in_units n (10 ^ 3) ''K''
      else ''$'' @ to_fixed 2 n)"

definition formatAmount :: "jsnum \<Rightarrow> string" where
  "formatAmount n = (if js_le (Fin 1000) n then in_units n 1000 ''K'' else to_fixed 0 n)"

definition formatPnL :: "jsnum \<Rightarrow> string" where
  "formatPnL v = (if js_le (Fin 0) v then ''+'' else []) @ ''$'' @ to_fixed 2 v"

definition formatPct :: "numstr \<Rightarrow> string" where
  "formatPct n = (if js_le (Fin 0) (js_Number n) then ''+'' else []) @ to_fixed 2 (js_Number n) @ ''%''"

definition formatLabel :: "jsnum \<Rightarrow> bool \<Rightarrow> (jsnum \<Rightarrow> string) option \<Rightarrow> string" where
  "formatLabel x formatLargeNumbers formatValue =
     (case formatValue of
        Some f \<Rightarrow> f x
      | None \<Rightarrow>
          if formatLargeNumbers \<and> js_le (Fin 1000) x then to_fixed 0 (js_div x (Fin 1000)) @ ''k''
          else num_to_string x)"

text \<open>\<open>n(v, fallback)\<close> of the orders page, the portfolio page and the order book.\<close>

definition number_or :: "numstr option \<Rightarrow> jsnum \<Rightarrow> jsnum" where
  "number_or v fallback =
     (case v of None \<Rightarrow> fallback | Some x \<Rightarrow> if js_Number x = NaN then fallback else js_Number x)"

definition parseYesPrice :: "numstr option \<Rightarrow> jsnum option" where
  "parseYesPrice raw =
     (case raw of
        None \<Rightarrow> None
      | Some v \<Rightarrow>
          if v = Str [] then None
          else if is_finite_num (js_Number v) then Some (js_Number v) else None)"

subsection \<open>Times\<close>

definition floor_div :: "jsnum \<Rightarrow> rat \<Rightarrow> jsnum" where
  "floor_div x k = js_floor (js_div x (Fin k))"

definition lt_num :: "jsnum \<Rightarrow> rat \<Rightarrow> bool" where
  "lt_num x k = js_lt x (Fin k)"

text \<open>The steps both relative clocks share, from a number of seconds.\<close>

definition relative_label :: "jsnum \<Rightarrow> (jsnum \<Rightarrow> string) \<Rightarrow> string" where
  "relative_label diffSec older =
     (if lt_num diffSec 60 then ''just now''
      else
        (let diffMin = floor_div diffSec 60 in
         if lt_num diffMin 60 then num_to_string diffMin @ ''m ago''
         else
           (let diffHr = floor_div diffMin 60 in
            if lt_num diffHr 24 then num_to_string diffHr @ ''h ago''
            else
              (let diffDay = floor_div diffHr 24 in
               if lt_num diffDay 7 then num_to_string diffDay @ ''d ago'' else older diffDay))))"

text \<open>The separator is the UTF-8 encoding of a middle dot between spaces.\<close>

definition middle_dot :: string where
  "middle_dot = [CHR '' '', CHR 0xC2, CHR 0xB7, CHR '' '']"

definition formatRelativeTime :: "(string \<Rightarrow> jsnum) \<Rightarrow> (string \<Rightarrow> string) \<Rightarrow> jsnum \<Rightarrow> string \<Rightarrow> string" where
  "formatRelativeTime getTime locale_date now dateStr =
     relative_label (floor_div (js_abs (js_sub now (getTime dateStr))) 1000)
       (\<lambda>diffDay. num_to_string diffDay @ ''d ago'' @ middle_dot @ locale_date dateStr)"

definition notification_time :: "(string \<Rightarrow> jsnum) \<Rightarrow> (string \<Rightarrow> string) \<Rightarrow> jsnum \<Rightarrow> string \<Rightarrow> string" where
  "notification_time getTime locale_date now dateStr =
     relative_label (floor_div (js_sub now (getTime dateStr)) 1000) (\<lambda>diffDay. locale_date dateStr)"

text \<open>The bullet, in UTF-8.\<close>

definition bullet :: string where
  "bullet = [CHR 0xE2, CHR 0x80, CHR 0xA2]"

definition ago_label :: "jsnum \<Rightarrow> string \<Rightarrow> string" where
  "ago_label diff older =
     (if lt_num diff 60 then num_to_string (js_floor diff) @ ''s ago''
      else if lt_num diff 3600 then num_to_string (floor_div diff 60) @ ''m ago''
      else if lt_num diff 86400 then num_to_string (floor_div diff 3600) @ ''h ago''
      else older)"

definition formatTime :: "(string \<Rightarrow> jsnum) \<Rightarrow> (string \<Rightarrow> string) \<Rightarrow> jsnum \<Rightarrow> string option \<Rightarrow> string" where
  "formatTime getTime locale_date now stamp =
     (case stamp of
        None \<Rightarrow> bullet
      | Some s \<Rightarrow>
          if s = [] then bullet
          else ago_label (js_div (js_sub now (getTime s)) (Fin 1000)) (locale_date s))"

definition timeAgo :: "(string \<Rightarrow> jsnum) \<Rightarrow> jsnum \<Rightarrow> string \<Rightarrow> string" where
  "timeAgo getTime now stamp =
     (let diff = js_div (js_sub now (getTime stamp)) (Fin 1000)
      in ago_label diff (num_to_string (floor_div diff 86400) @ ''d ago''))"

text \<open>The two clocks of the admin app.\<close>

definition plural :: "jsnum \<Rightarrow> string" where
  "plural k = (if js_eq k (Fin 1) then [] else ''s'')"

definition session_relative :: "(string \<Rightarrow> jsnum) \<Rightarrow> (string \<Rightarrow> string) \<Rightarrow> jsnum \<Rightarrow> string \<Rightarrow> string" where
  "session_relative getTime locale_date now stamp =
     (let minutes = floor_div (js_sub now (getTime stamp)) 60000 in
      if lt_num minutes 1 then ''just now''
      else if lt_num minutes 60 then num_to_string minutes @ '' min ago''
      else
        (let hours = floor_div minutes 60 in
         if lt_num hours 24 then num_to_string hours @ '' hour'' @ plural hours @ '' ago''
         else
           (let days = floor_div hours 24 in
            if lt_num days 30 then num_to_string days @ '' day'' @ plural days @ '' ago''
            else locale_date stamp)))"

definition dispute_relative :: "(string \<Rightarrow> jsnum) \<Rightarrow> jsnum \<Rightarrow> string \<Rightarrow> string" where
  "dispute_relative getTime now stamp =
     (let days = floor_div (js_sub now (getTime stamp)) 86400000 in
      if js_le days (Fin 0) then ''today''
      else if js_eq days (Fin 1) then ''1 day waiting''
      else num_to_string days @ '' days waiting'')"

subsection \<open>Devices\<close>

text \<open>\<open>s.includes(t)\<close>\<close>

definition str_includes :: "string \<Rightarrow> string \<Rightarrow> bool" where
  "str_includes s t \<longleftrightarrow> list_ex (\<lambda>u. starts_with u t) (suffixes s)"

definition describeAgent :: "string option \<Rightarrow> string" where
  "describeAgent userAgent =
     (case userAgent of
        None \<Rightarrow> ''Unknown device''
      | Some s \<Rightarrow>
          if s = [] then ''Unknown device''
          else
            (let ua = to_lower s;
                 browser = (if str_includes ua ''edg/'' then ''Edge''
                            else if str_includes ua ''chrome/'' then ''Chrome''
                            else if str_includes ua ''firefox/'' then ''Firefox''
                            else if str_includes ua ''safari/'' then ''Safari'' else ''Browser'');
                 platform = (if str_includes ua ''android'' then ''Android''
                             else if str_includes ua ''iphone'' \<or> str_includes ua ''ipad'' then ''iOS''
                             else if str_includes ua ''windows'' then ''Windows''
                             else if str_includes ua ''mac os'' then ''macOS''
                             else if str_includes ua ''linux'' then ''Linux'' else ''Unknown platform'')
             in browser @ '' on '' @ platform))"

subsection \<open>The order book panel\<close>

record OrderBookEntry =
  lv_price :: "numstr option"
  lv_size :: "numstr option"

abbreviation level_price :: "OrderBookEntry \<Rightarrow> jsnum" where "level_price e \<equiv> number_or (lv_price e) (Fin 0)"
abbreviation level_size :: "OrderBookEntry \<Rightarrow> jsnum" where "level_size e \<equiv> number_or (lv_size e) (Fin 0)"

definition maxDepth :: "OrderBookEntry list \<Rightarrow> OrderBookEntry list \<Rightarrow> jsnum" where
  "maxDepth bs as = js_max (map level_size bs @ map level_size as @ [Fin 1])"

definition bestBid :: "OrderBookEntry list \<Rightarrow> jsnum option" where
  "bestBid bs = (case bs of [] \<Rightarrow> None | b # _ \<Rightarrow> Some (level_price b))"

definition bestAsk :: "OrderBookEntry list \<Rightarrow> jsnum option" where
  "bestAsk as = (if as = [] then None else Some (level_price (last as)))"

definition spread :: "OrderBookEntry list \<Rightarrow> OrderBookEntry list \<Rightarrow> string option" where
  "spread bs as =
     (case (bestBid bs, bestAsk as) of
        (Some b, Some a) \<Rightarrow> Some (to_fixed 2 (js_mul (js_sub a b) (Fin 100)))
      | _ \<Rightarrow> None)"

definition divider_text :: "OrderBookEntry list \<Rightarrow> OrderBookEntry list \<Rightarrow> string" where
  "divider_text bs as =
     (case spread bs as of
        Some s \<Rightarrow> s @ ''% spread''
      | None \<Rightarrow> if bestBid bs \<noteq> None then ''Bid side only'' else ''Ask side only'')"

text \<open>The prices of the rows from top to bottom: the asks reversed, the divider, the bids.\<close>

definition ask_rows :: "OrderBookEntry list \<Rightarrow> jsnum list" where
  "ask_rows as = map level_price (rev as)"

definition bid_rows :: "OrderBookEntry list \<Rightarrow> jsnum list" where
  "bid_rows bs = map level_price bs"

definition bar_width :: "OrderBookEntry \<Rightarrow> jsnum \<Rightarrow> jsnum" where
  "bar_width e depth = js_mul (js_div (level_size e) depth) (Fin 100)"

definition book_isBinary :: "string list \<Rightarrow> bool" where
  "book_isBinary names \<longleftrightarrow> ''yes'' \<in> set (map to_lower names) \<and> ''no'' \<in> set (map to_lower names)"

subsection \<open>Printed amounts are the nearest ones\<close>

lemma parse_fixed_digits:
  assumes "0 \<le> q"
  shows "parse_unsigned (fixed_digits d q) = Some (of_int \<lfloor>q * 10 ^ d + 1 / 2\<rfloor> / 10 ^ d)"
proof -
  let ?n = "\<lfloor>q * 10 ^ d + 1 / 2\<rfloor>" let ?m = "digits_of ?n"
  have n: "0 \<le> ?n" using assms by simp
  have m: "is_digits ?m" "?m \<noteq> []" "value_of_digits ?m = ?n"
    using n digits_of_digits [of ?n] by (simp_all add: is_digits_def list_all_iff value_of_digits_of)
  show ?thesis
  proof (cases "d = 0")
    case True
    have "parse_mantissa ?m = Some (?n, 0)"
      using m digits_no_point [of ?m] by (simp add: parse_mantissa_def js_split_absent)
    then have "parse_unsigned ?m = Some (of_int ?n / 10 ^ 0)"
      using m(1) digits_no_exp by (intro parse_unsigned_plain) blast+
    then show ?thesis using True by (simp add: fixed_digits_def)
  next
    case False
    let ?z = "pad_start (d + 1) (CHR ''0'') ?m"
    let ?w = "take (length ?z - d) ?z" and ?f = "drop (length ?z - d) ?z"
    have z: "is_digits ?z" "value_of_digits ?z = ?n" "d + 1 \<le> length ?z"
      using m pad_start_digits [of ?m "d + 1"] by (auto simp: is_digits_def list_all_iff value_of_digits_pad length_pad_start)
    have w: "is_digits ?w" "is_digits ?f" "?w \<noteq> []" "length ?f = d"
      using z by (auto simp: is_digits_def list_all_iff dest: in_set_takeD in_set_dropD)
    have "parse_mantissa (?w @ CHR ''.'' # ?f) = Some (value_of_digits (?w @ ?f), length ?f)"
      using w by (intro parse_mantissa_point)
    then have "parse_unsigned (?w @ CHR ''.'' # ?f) = Some (of_int ?n / 10 ^ d)"
      using w z(2) digits_no_exp [OF w(1)] digits_no_exp [OF w(2)] parse_unsigned_plain [of "?w @ CHR ''.'' # ?f" ?n d]
      by (auto simp: is_exp_char_def)
    then show ?thesis using False by (simp add: fixed_digits_def Let_def)
  qed
qed

lemma fixed_digits_error:
  assumes "0 \<le> q"
  shows "\<exists>r. parse_unsigned (fixed_digits d q) = Some r \<and> \<bar>r - q\<bar> \<le> 1 / (2 * 10 ^ d)"
proof -
  let ?n = "\<lfloor>q * 10 ^ d + 1 / 2\<rfloor>"
  have "of_int ?n \<le> q * 10 ^ d + 1 / 2" "q * 10 ^ d + 1 / 2 < of_int ?n + 1" by linarith+
  then have "\<bar>of_int ?n - q * 10 ^ d\<bar> \<le> 1 / 2" by linarith
  then have "\<bar>of_int ?n - q * 10 ^ d\<bar> / 10 ^ d \<le> (1 / 2) / 10 ^ d" by (intro divide_right_mono) simp_all
  moreover have "of_int ?n / 10 ^ d - q = (of_int ?n - q * 10 ^ d) / 10 ^ d" by (simp add: diff_divide_distrib)
  then have "\<bar>of_int ?n / 10 ^ d - q\<bar> = \<bar>of_int ?n - q * 10 ^ d\<bar> / 10 ^ d" by (simp add: abs_divide)
  ultimately show ?thesis using parse_fixed_digits [OF assms] by simp
qed

text \<open>
  A printed amount is the nearest one with its number of decimals. For every amount that is a
  finite number below \<open>10 ^ 21\<close>, \<open>formatCurrency\<close> prints a dollar sign, the sign of the amount and a
  decimal numeral that differs from it by at most half a unit in the last place.
\<close>

theorem currency_label_accurate:
  assumes "js_Number v = Fin q" "v \<noteq> Str []" "\<bar>q\<bar> < 10 ^ 21"
  shows "\<exists>s r. formatCurrency (Some v) d = ''$'' @ (if q < 0 then ''-'' else []) @ s
    \<and> parse_unsigned s = Some r \<and> \<bar>r - \<bar>q\<bar>\<bar> \<le> 1 / (2 * 10 ^ d)"
proof -
  have "formatCurrency (Some v) d = ''$'' @ (if q < 0 then ''-'' else []) @ fixed_digits d \<bar>q\<bar>"
    using assms by (simp add: formatCurrency_def to_fixed_def)
  with fixed_digits_error [of "\<bar>q\<bar>" d] show ?thesis by auto
qed

theorem currency_label_accurate_witness:
  "\<exists>s r. formatCurrency (Some (Num (Fin (5 / 4)))) 1 = ''$'' @ [] @ s
    \<and> parse_unsigned s = Some r \<and> \<bar>r - \<bar>5 / 4\<bar>\<bar> \<le> 1 / (2 * 10 ^ 1)"
  using currency_label_accurate [of "Num (Fin (5 / 4))" "5 / 4" 1] by simp

subsection \<open>The rows of the order book\<close>

text \<open>The panel reads the best ask from the end of the list, so it is written for asks in descending
  order of price.\<close>

definition descending :: "OrderBookEntry list \<Rightarrow> bool" where
  "descending es \<longleftrightarrow> (\<exists>ps. map level_price es = map Fin ps \<and> sorted (rev ps))"

lemma descending_ends:
  assumes "sorted (rev ps)" "p \<in> set ps"
  shows "last ps \<le> p \<and> p \<le> hd ps"
proof -
  obtain i where i: "i < length ps" "p = ps ! i" using assms(2) by (auto simp: in_set_conv_nth)
  then have ne: "ps \<noteq> []" by auto
  have "ps ! (length ps - 1) \<le> ps ! i" "ps ! i \<le> ps ! 0"
    using assms(1) i(1) by (auto intro: sorted_rev_nth_mono)
  then show ?thesis using i(2) ne by (simp add: last_conv_nth hd_conv_nth)
qed

text \<open>
  The panel's spread and its rows disagree about which ask is the best one. For asks in the order
  the spread is computed for, the spread uses the lowest ask, but the row that ends up next to the
  bids is the highest one: the rows are reversed, so the asks nearest to the spread are the worst.
\<close>

theorem nearest_ask_row_is_worst:
  assumes "as \<noteq> []" "descending as"
  shows "\<exists>lo hi. bestAsk as = Some (Fin lo) \<and> last (ask_rows as) = Fin hi \<and> hd (ask_rows as) = Fin lo
    \<and> (\<forall>e \<in> set as. \<exists>p. level_price e = Fin p \<and> lo \<le> p \<and> p \<le> hi)"
proof -
  obtain ps where ps: "map level_price as = map Fin ps" "sorted (rev ps)" using assms(2) by (auto simp: descending_def)
  have ne: "ps \<noteq> []" using ps(1) assms(1) by auto
  have lo: "level_price (last as) = Fin (last ps)" and hi: "level_price (hd as) = Fin (hd ps)"
    using ps(1) assms(1) ne by (metis last_map, metis hd_map)
  have "\<exists>p. level_price e = Fin p \<and> last ps \<le> p \<and> p \<le> hd ps" if "e \<in> set as" for e
  proof -
    have "level_price e \<in> set (map Fin ps)" using ps(1) that by (metis image_eqI list.set_map)
    then obtain p where "level_price e = Fin p" "p \<in> set ps" by auto
    then show ?thesis using descending_ends [OF ps(2)] by blast
  qed
  moreover have "bestAsk as = Some (Fin (last ps))" using assms(1) lo by (simp add: bestAsk_def)
  moreover have "last (ask_rows as) = Fin (hd ps)" "hd (ask_rows as) = Fin (last ps)"
    using assms(1) lo hi by (simp_all add: ask_rows_def last_map hd_map hd_rev last_rev)
  ultimately show ?thesis by blast
qed

definition sample_asks :: "OrderBookEntry list" where
  "sample_asks = map (\<lambda>p. \<lparr>lv_price = Some (Num (Fin p)), lv_size = Some (Num (Fin 10))\<rparr>) [3 / 4, 5 / 8, 1 / 2]"

theorem nearest_ask_row_is_worst_witness:
  "\<exists>lo hi. bestAsk sample_asks = Some (Fin lo) \<and> last (ask_rows sample_asks) = Fin hi \<and> lo < hi"
proof -
  have "descending sample_asks"
    unfolding descending_def by (rule exI [of _ "[3 / 4, 5 / 8, 1 / 2]"]) (simp add: number_or_def sample_asks_def)
  then obtain lo hi where "bestAsk sample_asks = Some (Fin lo)" "last (ask_rows sample_asks) = Fin hi"
    using nearest_ask_row_is_worst [of sample_asks] by (auto simp: sample_asks_def)
  moreover from this have "lo < hi"
    by (simp add: bestAsk_def ask_rows_def number_or_def sample_asks_def)
  ultimately show ?thesis by blast
qed

end
