(* ===== verification/Admin_Treasury.thy ===== *)
theory Admin_Treasury
  imports Decimal Step_Up Admin_Api Query_Cache
begin

text \<open>
  The treasury page of the admin app: \<^verbatim>\<open>apps/admin/app/(admin)/treasury/AdminTreasuryClient.tsx\<close>
  (the figures and the sweep of all fees) and \<^verbatim>\<open>apps/admin/components/treasury-withdraw.tsx\<close> (the
  withdrawal of a chosen amount), on top of the exact decimals, the step-up hook and the admin
  endpoints, with the keys of \<^verbatim>\<open>apps/admin/lib/queryKeys.ts\<close> they read and invalidate.

  Both components call \<open>useStepUp\<close>, whose state is local to the caller, and only the page renders a
  prompt, for its own hook. The state of the page holds both hooks; an event of a prompt has an
  effect only if that prompt is among the \<open>rendered_prompts\<close>. The message with an em dash is written in UTF-8.
\<close>

subsection \<open>Keys\<close>

definition admin_key_me :: query_key where "admin_key_me = str_key [''auth'', ''me'']"
definition admin_key_treasury :: query_key where "admin_key_treasury = str_key [''treasury'', ''summary'']"
definition admin_key_treasuryLogs :: "int \<Rightarrow> query_key" where
  "admin_key_treasuryLogs page = [JStr ''admin'', JStr ''treasury-logs'', JNum (of_rat_js (of_int page))]"
definition admin_key_root :: query_key where "admin_key_root = str_key [''admin'']"
definition admin_key_users :: "int \<Rightarrow> string \<Rightarrow> string \<Rightarrow> string \<Rightarrow> query_key" where
  "admin_key_users page search status order =
     [JStr ''admin'', JStr ''users'', JNum (of_rat_js (of_int page)), JStr search, JStr status, JStr order]"
definition admin_key_user :: "string \<Rightarrow> string list option \<Rightarrow> query_key" where
  "admin_key_user userId include = str_key ([''admin'', ''user'', userId] @ get_or include [])"
definition admin_key_markets :: "string \<Rightarrow> int \<Rightarrow> query_key" where
  "admin_key_markets status page = [JStr ''admin'', JStr ''markets'', JStr status, JNum (of_rat_js (of_int page))]"
definition admin_key_actions :: "int \<Rightarrow> jsval \<Rightarrow> query_key" where
  "admin_key_actions page filters = [JStr ''admin'', JStr ''actions'', JNum (of_rat_js (of_int page)), filters]"
definition admin_key_disputes :: "string \<Rightarrow> int \<Rightarrow> string \<Rightarrow> query_key" where
  "admin_key_disputes status page search =
     [JStr ''admin'', JStr ''disputes'', JStr status, JNum (of_rat_js (of_int page)), JStr search]"
definition admin_key_dispute :: "string \<Rightarrow> query_key" where
  "admin_key_dispute disputeId = str_key [''admin'', ''dispute'', disputeId]"
definition admin_key_sessions :: query_key where "admin_key_sessions = str_key [''auth'', ''sessions'']"
definition admin_key_twoFactor :: query_key where "admin_key_twoFactor = str_key [''auth'', ''2fa'', ''status'']"

subsection \<open>The amount field\<close>

definition MAX_WITHDRAWAL :: string where "MAX_WITHDRAWAL = ''100000000''"

text \<open>\<open>/^\d{1,12}(\.\d{1,8})?$/\<close>\<close>

definition digits_between :: "nat \<Rightarrow> string \<Rightarrow> bool" where
  "digits_between k s \<longleftrightarrow> 1 \<le> length s \<and> length s \<le> k \<and> is_digits s"

definition AMOUNT_PATTERN :: "string \<Rightarrow> bool" where
  "AMOUNT_PATTERN s =
     (case js_split (CHR ''.'') s of
        [w] \<Rightarrow> digits_between 12 w
      | [w, f] \<Rightarrow> digits_between 12 w \<and> digits_between 8 f
      | _ \<Rightarrow> False)"

definition validateAmount :: "string \<Rightarrow> string option" where
  "validateAmount raw =
     (let v = js_trim raw in
      if v = [] then Some ''Enter an amount to withdraw.''
      else if \<not> AMOUNT_PATTERN v
      then Some (''Enter a plain number, like 250 or 250.50 '' @ [CHR 0xE2, CHR 0x80, CHR 0x94] @ '' up to 8 decimal places.'')
      else if js_le (string_to_number v) (Fin 0) then Some ''The amount must be more than zero.''
      else if js_lt (string_to_number MAX_WITHDRAWAL) (string_to_number v)
      then Some (''The maximum single withdrawal is '' @ group_digits MAX_WITHDRAWAL @ '' USDC.'')
      else None)"

definition exceedsBalance :: "string \<Rightarrow> string \<Rightarrow> bool" where
  "exceedsBalance balance amount =
     (if validateAmount amount \<noteq> None then False else starts_with (subtract balance (js_trim amount)) ''-'')"

definition canWithdraw :: "string \<Rightarrow> string \<Rightarrow> bool" where
  "canWithdraw balance amount \<longleftrightarrow> validateAmount amount = None \<and> \<not> exceedsBalance balance amount"

definition withdraw_request :: "string \<Rightarrow> string \<Rightarrow> string option \<Rightarrow> api_request" where
  "withdraw_request amount pw totp = treasuryDistribute (string_to_number (js_trim amount)) pw totp"

definition confirmLabel :: "string \<Rightarrow> string" where
  "confirmLabel amount = ''Withdraw '' @ group_digits (js_trim amount) @ '' USDC''"

subsection \<open>The figures of the page\<close>

definition pending_fees :: "(string \<times> string) option \<Rightarrow> string option" where
  "pending_fees totals = map_option (\<lambda>(collected, distributed). subtract collected distributed) totals"

definition nothingToMove :: "string option \<Rightarrow> bool" where
  "nothingToMove pending = (case pending of None \<Rightarrow> False | Some p \<Rightarrow> js_eq (string_to_number p) (Fin 0))"

definition figure_emphasised :: "string \<Rightarrow> bool" where
  "figure_emphasised v \<longleftrightarrow> \<not> starts_with v ''0'' \<and> \<not> starts_with v ''-0''"

subsection \<open>The page\<close>

record treasury_page =
  w_amount :: string
  w_touched :: bool
  w_confirming :: bool
  w_stepUp :: step_up
  page_stepUp :: step_up
  t_cache :: "cached_query list"
  t_toasts :: "(string \<times> string) list"

text \<open>The intents the two components hand to their hooks.\<close>

definition WITHDRAW :: nat where "WITHDRAW = 1"
definition DISTRIBUTE :: nat where "DISTRIBUTE = 2"

definition mount_treasury :: "cached_query list \<Rightarrow> treasury_page" where
  "mount_treasury cache =
     \<lparr>w_amount = [], w_touched = False, w_confirming = False, w_stepUp = initial_step_up,
      page_stepUp = initial_step_up, t_cache = cache, t_toasts = []\<rparr>"

definition type_amount :: "string \<Rightarrow> treasury_page \<Rightarrow> treasury_page" where
  "type_amount s p = p\<lparr>w_amount := s\<rparr>"

definition blur_amount :: "treasury_page \<Rightarrow> treasury_page" where
  "blur_amount p = p\<lparr>w_touched := True\<rparr>"

definition submit_amount :: "string \<Rightarrow> treasury_page \<Rightarrow> treasury_page" where
  "submit_amount balance p =
     (let p1 = p\<lparr>w_touched := True\<rparr>
      in if canWithdraw balance (w_amount p) then p1\<lparr>w_confirming := True\<rparr> else p1)"

definition close_dialog :: "treasury_page \<Rightarrow> treasury_page" where
  "close_dialog p = p\<lparr>w_confirming := False\<rparr>"

definition onConfirm :: "treasury_page \<Rightarrow> treasury_page" where
  "onConfirm p = p\<lparr>w_confirming := False, w_stepUp := begin_intent WITHDRAW (w_stepUp p)\<rparr>"

definition withdraw_onSuccess :: "matcher \<Rightarrow> treasury_page \<Rightarrow> treasury_page" where
  "withdraw_onSuccess matches p =
     p\<lparr>t_cache := invalidate_all matches [str_key [''admin'', ''treasury''], admin_key_treasuryLogs 1] (t_cache p),
       t_toasts := t_toasts p @ [(''Withdrawal complete'', js_trim (w_amount p) @ '' USDC moved to the treasury.'')],
       w_amount := [], w_touched := False\<rparr>"

definition withdraw_onError :: "thrown \<Rightarrow> treasury_page \<Rightarrow> treasury_page" where
  "withdraw_onError err p = p\<lparr>t_toasts := t_toasts p @ [(''Withdrawal failed'', apiErrorMessage err ''Try again.'')]\<rparr>"

text \<open>\<open>moved\<close> and \<open>count\<close> are the two figures of the answer, as they print.\<close>

definition distribute_onSuccess :: "matcher \<Rightarrow> string \<Rightarrow> string \<Rightarrow> treasury_page \<Rightarrow> treasury_page" where
  "distribute_onSuccess matches moved count p =
     p\<lparr>t_cache := invalidateQueries matches admin_key_treasury (t_cache p),
       t_toasts := t_toasts p @ [(''Protocol fees distributed'',
         group_digits moved @ '' USDC moved from '' @ count @ '' markets.'')]\<rparr>"

text \<open>Each of the two components calls \<open>useStepUp\<close> for itself. The prompts on the page are the
  \<open>StepUpPrompt\<close> elements the two render: one, with the props of the page's own hook.\<close>

datatype step_up_owner = Withdraw_Form | Treasury_Page

definition rendered_prompts :: "step_up_owner list" where
  "rendered_prompts = [Treasury_Page]"

definition over_step_up :: "step_up_owner \<Rightarrow> (step_up \<Rightarrow> step_up) \<Rightarrow> treasury_page \<Rightarrow> treasury_page" where
  "over_step_up owner f p =
     (case owner of
        Withdraw_Form \<Rightarrow> p\<lparr>w_stepUp := f (w_stepUp p)\<rparr>
      | Treasury_Page \<Rightarrow> p\<lparr>page_stepUp := f (page_stepUp p)\<rparr>)"

datatype treasury_event =
    TypeAmount string
  | BlurAmount
  | SubmitAmount string
  | CloseDialog
  | ConfirmWithdraw
  | ConfirmDistribute
  | PromptSubmit step_up_owner
  | PromptCancel step_up_owner
  | WithdrawAnswered "thrown option"
  | DistributeAnswered "thrown option" string string

text \<open>A step of a page on which \<open>prompts\<close> are rendered. An answer needs a call under way; its mutation
  callbacks run before the rest of \<open>submit\<close>.\<close>

fun treasury_step_with :: "step_up_owner list \<Rightarrow> matcher \<Rightarrow> treasury_event \<Rightarrow> treasury_page \<Rightarrow> treasury_page" where
  "treasury_step_with prompts m (TypeAmount s) p = type_amount s p"
| "treasury_step_with prompts m BlurAmount p = blur_amount p"
| "treasury_step_with prompts m (SubmitAmount balance) p = submit_amount balance p"
| "treasury_step_with prompts m CloseDialog p = close_dialog p"
| "treasury_step_with prompts m ConfirmWithdraw p = (if w_confirming p then onConfirm p else p)"
| "treasury_step_with prompts m ConfirmDistribute p = p\<lparr>page_stepUp := begin_intent DISTRIBUTE (page_stepUp p)\<rparr>"
| "treasury_step_with prompts m (PromptSubmit owner) p =
     (if owner \<in> set prompts then over_step_up owner submit p else p)"
| "treasury_step_with prompts m (PromptCancel owner) p =
     (if owner \<in> set prompts then over_step_up owner cancel p else p)"
| "treasury_step_with prompts m (WithdrawAnswered r) p =
     (if WITHDRAW \<in> set (calls_under_way (w_stepUp p))
      then (let p1 = (case r of None \<Rightarrow> withdraw_onSuccess m p | Some err \<Rightarrow> withdraw_onError err p)
            in p1\<lparr>w_stepUp := answer WITHDRAW r (w_stepUp p1)\<rparr>)
      else p)"
| "treasury_step_with prompts m (DistributeAnswered r moved count) p =
     (if DISTRIBUTE \<in> set (calls_under_way (page_stepUp p))
      then (let p1 = (case r of None \<Rightarrow> distribute_onSuccess m moved count p | Some _ \<Rightarrow> p)
            in p1\<lparr>page_stepUp := answer DISTRIBUTE r (page_stepUp p1)\<rparr>)
      else p)"

definition treasury_step :: "matcher \<Rightarrow> treasury_event \<Rightarrow> treasury_page \<Rightarrow> treasury_page" where
  "treasury_step = treasury_step_with rendered_prompts"

subsection \<open>Plain amounts\<close>

lemma pattern_shape:
  assumes "AMOUNT_PATTERN s"
  shows "\<exists>w f. s = printed False w f \<and> w \<noteq> [] \<and> is_digits w \<and> is_digits f \<and> length w \<le> 12 \<and> length f \<le> 8"
proof -
  have join: "js_join ''.'' (js_split (CHR ''.'') s) = s" by (rule js_join_split)
  consider w where "js_split (CHR ''.'') s = [w]" "digits_between 12 w"
    | w f where "js_split (CHR ''.'') s = [w, f]" "digits_between 12 w" "digits_between 8 f"
    using assms by (auto simp: AMOUNT_PATTERN_def split: list.splits)
  then show ?thesis
  proof cases
    case 1
    then have "s = printed False w []" using join by (simp add: printed_def)
    with 1(2) show ?thesis by (intro exI [of _ w] exI [of _ "[]"]) (auto simp: digits_between_def is_digits_def)
  next
    case 2
    then have "s = printed False w f" using join by (auto simp: printed_def digits_between_def)
    with 2(2,3) show ?thesis by (intro exI [of _ w] exI [of _ f]) (auto simp: digits_between_def)
  qed
qed

lemma trim_printed:
  assumes "is_digits w" "is_digits f"
  shows "js_trim (printed False w f) = printed False w f"
  using assms point_not_space by (intro js_trim_no_space) (auto simp: printed_def digits_no_space)

lemma number_of_printed:
  assumes "w \<noteq> []" "is_digits w" "is_digits f"
  shows "string_to_number (printed False w f) = of_rat_js (dec_value (parse (printed False w f)))"
proof -
  let ?s = "printed False w f"
  obtain c cs where w: "w = c # cs" using assms(1) by (cases w) auto
  have c: "is_digit_char c" using assms(2) by (simp add: w is_digits_def)
  have mant: "parse_mantissa ?s = Some (value_of_digits (w @ f), length f)"
    using assms digits_no_point [OF assms(2)] parse_mantissa_point [OF assms(2,3,1)]
    by (cases "f = []") (auto simp: printed_def parse_mantissa_def js_split_absent)
  have "parse_unsigned ?s = Some (of_int (value_of_digits (w @ f)) / 10 ^ length f)"
    using mant digits_no_exp [OF assms(2)] digits_no_exp [OF assms(3)]
    by (intro parse_unsigned_plain) (auto simp: printed_def is_exp_char_def split: if_splits)
  moreover have "take_sign ?s = (False, ?s)" using c by (auto simp: take_sign_def printed_def w is_digit_char_def)
  moreover have "?s \<noteq> ''Infinity''" using c by (auto simp: printed_def w is_digit_char_def)
  moreover have "\<not> starts_with ?s [CHR ''0'', x]" if "\<not> is_digit_char x" "x \<noteq> CHR ''.''" for x
    using that assms(2) by (cases cs) (auto simp: starts_with_def printed_def w is_digits_def split: if_splits)
  moreover have "\<not> is_digit_char x" if "x \<in> {CHR ''x'', CHR ''X'', CHR ''o'', CHR ''O'', CHR ''b'', CHR ''B''}" for x
    using that by (auto simp: is_digit_char_def)
  moreover have "?s \<noteq> []" by (simp add: printed_def w)
  moreover have "dec_value (parse ?s) = of_int (value_of_digits (w @ f)) / 10 ^ length f"
    using parse_printed [OF assms, of False] by (simp add: dec_value_def)
  ultimately show ?thesis
    using trim_printed [OF assms(2,3)] by (simp add: string_to_number_def Let_def)
qed


lemma digit_val_le: "is_digit_char c \<Longrightarrow> digit_val c \<le> 9"
  by (simp add: is_digit_char_def digit_val_def)

lemma value_of_digits_bound: "is_digits s \<Longrightarrow> value_of_digits s < 10 ^ length s"
proof (induction s rule: rev_induct)
  case (snoc c s)
  then have "value_of_digits s < 10 ^ length s" "digit_val c \<le> 9"
    by (auto simp: is_digits_def digit_val_le)
  then show ?case by simp
qed simp

text \<open>The value of a plain amount is a whole number of units of the eighth decimal.\<close>

lemma plain_value:
  assumes "w \<noteq> []" "is_digits w" "is_digits f" "length w \<le> 12" "length f \<le> 8"
  shows "\<exists>k. 0 \<le> k \<and> k < 10 ^ 20 \<and> dec_value (parse (printed False w f)) = of_int k / 10 ^ 8"
proof -
  let ?v = "value_of_digits (w @ f)" let ?k = "?v * 10 ^ (8 - length f)"
  have d: "is_digits (w @ f)" using assms by (simp add: is_digits_append)
  have v: "0 \<le> ?v" "?v < 10 ^ length (w @ f)"
    using d value_of_digits_nonneg [of "w @ f"] value_of_digits_bound [OF d] by (auto simp: is_digits_def list_all_iff)
  have "(10 :: rat) ^ 8 = 10 ^ (8 - length f) * 10 ^ length f" using assms(5) by (simp flip: power_add)
  then have "dec_value (parse (printed False w f)) = of_int ?k / 10 ^ 8"
    using parse_printed [OF assms(1-3), of False] by (simp add: dec_value_def frac_eq_eq del: power_numeral)
  moreover have "?k < 10 ^ length (w @ f) * 10 ^ (8 - length f)" using v by simp
  then have "?k < 10 ^ (length w + 8)" using assms(5) by (simp flip: power_add)
  moreover have "(10 :: int) ^ (length w + 8) \<le> 10 ^ 20" using assms(4) by (intro power_increasing) auto
  ultimately show ?thesis using v(1) by (intro exI [of _ ?k]) auto
qed

lemma round64_eighth_pos: "0 < round64 (1 / 10 ^ 8)"
  by code_simp

lemma round64_above_max: "10 ^ 8 < round64 (10 ^ 8 + 1 / 10 ^ 8)"
  by code_simp

text \<open>Comparing the rounded number with zero and with the maximum decides the exact comparison.\<close>

lemma eighths_compare:
  assumes "0 \<le> k" "k < 10 ^ 20" "q = of_int k / 10 ^ 8"
  shows "of_rat_js q = Fin (round64 q)" "round64 q \<le> 0 \<longleftrightarrow> q = 0" "10 ^ 8 < round64 q \<longleftrightarrow> 10 ^ 8 < q"
proof -
  have "q \<le> of_int (10 ^ 20) / 10 ^ 8" unfolding assms(3) using assms(2) by (intro divide_right_mono) (auto simp flip: of_int_le_iff)
  then have q: "0 \<le> q" "q \<le> 10 ^ 12" using assms by auto
  have dbl: "is_double 0" "is_double (10 ^ 12)" using is_double_of_int [of 0] is_double_of_int [of "10 ^ 12"] by simp_all
  from of_rat_js_bounded [OF dbl q] show "of_rat_js q = Fin (round64 q)" using of_rat_js_Fin by force
  show "round64 q \<le> 0 \<longleftrightarrow> q = 0"
  proof (cases "k = 0")
    case False
    then have "1 / 10 ^ 8 \<le> q" using assms by (simp add: divide_right_mono)
    then have "round64 (1 / 10 ^ 8) \<le> round64 q" by (rule round64_mono)
    then have "0 < round64 q" using round64_eighth_pos by (rule less_le_trans [rotated])
    moreover have "q \<noteq> 0" using False by (simp add: assms(3))
    ultimately show ?thesis by simp
  qed (simp add: assms(3) round64_def)
  show "10 ^ 8 < round64 q \<longleftrightarrow> 10 ^ 8 < q"
  proof (cases "k \<le> 10 ^ 16")
    case True
    then have "(of_int k :: rat) \<le> of_int (10 ^ 16)" by (simp only: of_int_le_iff)
    then have le: "q \<le> 10 ^ 8" by (simp add: assms(3))
    then have "round64 q \<le> round64 (10 ^ 8)" by (rule round64_mono)
    moreover have "round64 (10 ^ 8) = 10 ^ 8" using round64_of_int [of "10 ^ 8"] by simp
    ultimately show ?thesis using le by simp
  next
    case False
    then have "(of_int (10 ^ 16 + 1) :: rat) \<le> of_int k" by (simp only: of_int_le_iff)
    then have ge: "10 ^ 8 + 1 / 10 ^ 8 \<le> q" by (simp add: assms(3))
    then have "round64 (10 ^ 8 + 1 / 10 ^ 8) \<le> round64 q" by (rule round64_mono)
    then show ?thesis using round64_above_max ge by (auto intro: less_le_trans)
  qed
qed

lemma max_withdrawal_number: "string_to_number MAX_WITHDRAWAL = Fin (10 ^ 8)"
proof -
  have "printed False ''100000000'' [] = MAX_WITHDRAWAL" by (simp add: printed_def MAX_WITHDRAWAL_def)
  moreover have "is_digits ''100000000''" "is_digits []" by (simp_all add: is_digits_def is_digit_char_def)
  moreover have "dec_value (parse MAX_WITHDRAWAL) = 10 ^ 8" unfolding MAX_WITHDRAWAL_def by code_simp
  moreover have "is_double (10 ^ 8)" using is_double_of_int [of "10 ^ 8"] by simp
  ultimately show ?thesis using number_of_printed [of "''100000000''" "[]"] by simp
qed

lemma validate_exact:
  "validateAmount raw = None \<longleftrightarrow>
     AMOUNT_PATTERN (js_trim raw) \<and> 0 < dec_value (parse (js_trim raw)) \<and> dec_value (parse (js_trim raw)) \<le> 10 ^ 8"
proof (cases "AMOUNT_PATTERN (js_trim raw)")
  case True
  then obtain w f where s: "js_trim raw = printed False w f" and w: "w \<noteq> []" "is_digits w" "is_digits f" "length w \<le> 12" "length f \<le> 8"
    using pattern_shape by metis
  obtain k where k: "0 \<le> k" "k < 10 ^ 20" "dec_value (parse (printed False w f)) = of_int k / 10 ^ 8"
    using plain_value [OF w] by blast
  let ?q = "dec_value (parse (printed False w f))"
  note cmp = eighths_compare [OF k]
  have num: "string_to_number (printed False w f) = Fin (round64 ?q)"
    using number_of_printed [OF w(1-3)] cmp(1) by simp
  have ne: "printed False w f \<noteq> []" using w(1) by (simp add: printed_def)
  have "0 \<le> ?q" using k by simp
  then show ?thesis
    using True ne cmp(2,3) by (auto simp: validateAmount_def Let_def s num max_withdrawal_number js_le_def js_eq_def)
qed (simp add: validateAmount_def Let_def)

lemma format_negative: "starts_with (format v) ''-'' \<longleftrightarrow> units v < 0"
proof -
  define ds where "ds = pad_start (scale v + 1) (CHR ''0'') (digits_of \<bar>units v\<bar>)"
  have len: "scale v + 1 \<le> length ds" by (simp add: ds_def length_pad_start)
  have d: "is_digits ds"
    using pad_start_digits [OF digits_of_digits, of "\<bar>units v\<bar>"] by (simp add: ds_def is_digits_def list_all_iff)
  obtain c cs where c: "take (length ds - scale v) ds = c # cs" using len by (cases "take (length ds - scale v) ds") auto
  then have "is_digit_char c" using is_digits_take [OF d] by (metis is_digits_def list.pred_inject(2))
  then show ?thesis
    by (auto simp: format_printed [OF ds_def] printed_def c starts_with_def is_digit_char_def)
qed

lemma subtract_negative: "starts_with (subtract a b) ''-'' \<longleftrightarrow> dec_value (parse a) < dec_value (parse b)"
proof -
  let ?s = "max (scale (parse a)) (scale (parse b))"
  let ?u = "units (rescale (parse a) ?s) - units (rescale (parse b) ?s)"
  have "of_int ?u = (dec_value (parse a) - dec_value (parse b)) * 10 ^ ?s"
    by (simp add: dec_value_rescale left_diff_distrib)
  then have "?u < 0 \<longleftrightarrow> (dec_value (parse a) - dec_value (parse b)) * 10 ^ ?s < 0"
    by (metis of_int_less_0_iff)
  then show ?thesis by (simp add: subtract_def Let_def format_negative mult_less_0_iff)
qed

lemma canWithdraw_exact:
  "canWithdraw balance raw \<longleftrightarrow>
     AMOUNT_PATTERN (js_trim raw) \<and> 0 < dec_value (parse (js_trim raw))
     \<and> dec_value (parse (js_trim raw)) \<le> 10 ^ 8 \<and> dec_value (parse (js_trim raw)) \<le> dec_value (parse balance)"
  by (auto simp: canWithdraw_def exceedsBalance_def validate_exact subtract_negative)

text \<open>
  C11. The withdrawal form decides on exact money. It lets the operator go on exactly when the text is
  a plain decimal with at most twelve digits before the point and eight after, whose exact value is
  positive, at most the maximum and at most the balance: although the first two comparisons are made
  in floating point, no amount slips through or is refused for a rounding.
\<close>

theorem withdrawal_gate_exact:
  "canWithdraw balance raw \<longleftrightarrow>
     AMOUNT_PATTERN (js_trim raw) \<and> 0 < dec_value (parse (js_trim raw))
     \<and> dec_value (parse (js_trim raw)) \<le> 10 ^ 8 \<and> dec_value (parse (js_trim raw)) \<le> dec_value (parse balance)"
  by (rule canWithdraw_exact)

subsection \<open>What the page can send\<close>

lemma withdraw_calls_kept:
  assumes "calls_under_way (w_stepUp p) = []" "Withdraw_Form \<notin> set prompts"
  shows "calls_under_way (w_stepUp (treasury_step_with prompts m e p)) = []"
proof (cases e)
  case (PromptSubmit owner)
  then show ?thesis using assms by (cases owner) (simp_all add: over_step_up_def)
next
  case (PromptCancel owner)
  then show ?thesis using assms by (cases owner) (simp_all add: over_step_up_def)
qed (use assms in \<open>auto simp: type_amount_def blur_amount_def submit_amount_def close_dialog_def onConfirm_def
      begin_intent_def distribute_onSuccess_def Let_def split: option.splits\<close>)

lemma withdraw_calls_run:
  "calls_under_way (w_stepUp p) = [] \<Longrightarrow> Withdraw_Form \<notin> set prompts \<Longrightarrow>
    calls_under_way (w_stepUp (fold (treasury_step_with prompts m) es p)) = []"
  by (induction es arbitrary: p) (simp_all add: withdraw_calls_kept)

text \<open>
  The prompt a withdrawal lacks. The form starts the step-up of its own hook: on a page with a
  prompt for that hook, typing an amount the form accepts, submitting, confirming and answering the
  prompt makes the privileged call; on a page without one, as it is here, no sequence of events does.
\<close>

lemma withdrawal_needs_its_prompt:
  assumes "canWithdraw balance raw"
  shows "(\<exists>es. calls_under_way (w_stepUp (fold (treasury_step_with prompts m) es (mount_treasury cache))) \<noteq> [])
      \<longleftrightarrow> Withdraw_Form \<in> set prompts"
    and "calls_under_way (w_stepUp (fold (treasury_step m) es (mount_treasury cache))) = []"
proof -
  have start: "calls_under_way (w_stepUp (mount_treasury cache)) = []"
    by (simp add: mount_treasury_def initial_step_up_def)
  let ?es = "[TypeAmount raw, SubmitAmount balance, ConfirmWithdraw, PromptSubmit Withdraw_Form]"
  have "calls_under_way (w_stepUp (fold (treasury_step_with prompts m) ?es (mount_treasury cache))) = [WITHDRAW]"
    if "Withdraw_Form \<in> set prompts"
    using assms that by (simp add: mount_treasury_def type_amount_def submit_amount_def onConfirm_def over_step_up_def
        begin_intent_def submit_def idle_def initial_step_up_def Let_def)
  then show "(\<exists>es. calls_under_way (w_stepUp (fold (treasury_step_with prompts m) es (mount_treasury cache))) \<noteq> [])
      \<longleftrightarrow> Withdraw_Form \<in> set prompts"
    using withdraw_calls_run [OF start, of prompts m] by (metis list.distinct(1))
  show "calls_under_way (w_stepUp (fold (treasury_step m) es (mount_treasury cache))) = []"
    using withdraw_calls_run [OF start, of rendered_prompts m es] by (simp add: treasury_step_def rendered_prompts_def)
qed

text \<open>What the query library documents of filters made of strings and numbers.\<close>

definition flat_key :: "query_key \<Rightarrow> bool" where
  "flat_key k = list_all (\<lambda>v. case v of JStr _ \<Rightarrow> True | JNum _ \<Rightarrow> True | _ \<Rightarrow> False) k"

definition flat_matching :: "matcher \<Rightarrow> bool" where
  "flat_matching matches \<longleftrightarrow> (\<forall>k key. flat_key k \<longrightarrow> (matches k key \<longleftrightarrow> prefix k key))"

text \<open>
  A withdrawal that succeeded would leave the old balance on screen. Under the query library's
  prefix matching, the keys its success callback invalidates select neither the balance nor any page
  of the history but the first, so those queries stay exactly as they were.
\<close>

theorem withdrawal_leaves_balance_fresh:
  assumes "flat_matching matches" "e \<in> set (t_cache p)"
    and "q_key e = admin_key_treasury \<or> (\<exists>n. 1 < n \<and> n \<le> 2 ^ 53 \<and> q_key e = admin_key_treasuryLogs n)"
  shows "e \<in> set (t_cache (withdraw_onSuccess matches p))"
proof -
  have flat: "matches k key \<longleftrightarrow> prefix k key" if "flat_key k" for k key
    using assms(1) that by (simp add: flat_matching_def)
  have one: "of_rat_js 1 = Fin 1" using is_double_of_int [of 1] by simp
  have "of_rat_js (of_int n) = Fin (of_int n)" if "1 \<le> n" "n \<le> 2 ^ 53" for n
    using that by (intro of_rat_js_double is_double_of_int) simp
  then have "\<not> prefix (str_key [''admin'', ''treasury'']) (q_key e)" "\<not> prefix (admin_key_treasuryLogs 1) (q_key e)"
    using assms(3) one by (auto simp: admin_key_treasury_def admin_key_treasuryLogs_def)
  then have "\<not> matches (str_key [''admin'', ''treasury'']) (q_key e)" "\<not> matches (admin_key_treasuryLogs 1) (q_key e)"
    using flat by (auto simp: flat_key_def admin_key_treasuryLogs_def)
  then show ?thesis
    using assms(2) by (force simp: withdraw_onSuccess_def invalidate_all_def invalidateQueries_def)
qed

theorem withdrawal_leaves_balance_fresh_witness:
  "\<lparr>q_key = admin_key_treasury, q_data = JNull, q_stale = False\<rparr>
    \<in> set (t_cache (withdraw_onSuccess prefix
        (mount_treasury [\<lparr>q_key = admin_key_treasury, q_data = JNull, q_stale = False\<rparr>])))"
  using withdrawal_leaves_balance_fresh [of prefix "\<lparr>q_key = admin_key_treasury, q_data = JNull, q_stale = False\<rparr>"
      "mount_treasury [\<lparr>q_key = admin_key_treasury, q_data = JNull, q_stale = False\<rparr>]"]
  by (simp add: flat_matching_def mount_treasury_def)

text \<open>
  The number that is sent need not be the number that was approved. These two amounts are
  different, each passes the form against the same balance, and each is named exactly in the
  confirmation, but both send the same request: the nearest double of one is that of the other.
\<close>

theorem withdrawal_amount_rounded:
  "canWithdraw ''200000000'' ''99999991.99999992'' \<and> canWithdraw ''200000000'' ''99999991.99999993''
    \<and> confirmLabel ''99999991.99999992'' = ''Withdraw 99,999,991.99999992 USDC''
    \<and> confirmLabel ''99999991.99999993'' = ''Withdraw 99,999,991.99999993 USDC''
    \<and> withdraw_request ''99999991.99999992'' pw totp = withdraw_request ''99999991.99999993'' pw totp"
proof -
  have num: "string_to_number s = of_rat_js (dec_value (parse s))" if "AMOUNT_PATTERN s" for s
    using pattern_shape [OF that] number_of_printed by blast
  have t: "js_trim ''99999991.99999992'' = ''99999991.99999992''" "js_trim ''99999991.99999993'' = ''99999991.99999993''"
    by code_simp+
  have p: "AMOUNT_PATTERN ''99999991.99999992''" "AMOUNT_PATTERN ''99999991.99999993''" by code_simp+
  have v: "dec_value (parse ''99999991.99999992'') = 9999999199999992 / 10 ^ 8"
    "dec_value (parse ''99999991.99999993'') = 9999999199999993 / 10 ^ 8"
    "dec_value (parse ''200000000'') = 200000000" by code_simp+
  have "canWithdraw ''200000000'' ''99999991.99999992''" "canWithdraw ''200000000'' ''99999991.99999993''"
    using t p v by (simp_all add: canWithdraw_exact)
  moreover have "confirmLabel ''99999991.99999992'' = ''Withdraw 99,999,991.99999992 USDC''"
    "confirmLabel ''99999991.99999993'' = ''Withdraw 99,999,991.99999993 USDC''" by code_simp+
  moreover have "round64 (9999999199999992 / 10 ^ 8) = round64 (9999999199999993 / 10 ^ 8)" by code_simp
  then have "string_to_number ''99999991.99999992'' = string_to_number ''99999991.99999993''"
    using p v by (simp add: num of_rat_js_def del: power_numeral)
  ultimately show ?thesis by (simp add: withdraw_request_def t)
qed

end
