(* ===== verification/Market_Detail.thy ===== *)
theory Market_Detail
  imports Live_Price Live_Line Trade_Feed Query_Cache Realtime_Prefs Display_Format
begin

text \<open>
  The market page, \<^verbatim>\<open>apps/web/components/markets/market-detail.tsx\<close>, without its markup: the handler
  of the socket's frames with everything it writes (live trades, chart points, the cached market,
  the cached order book, the cached comments, announcements, notices and invalidations), the values
  the page derives from the market and the caches, and the claim of winnings.

  A frame is one JSON object; the record \<open>market_frame\<close> groups its fields by the branch that reads
  them. The cached market, order book and comments are fields of the page's state, and
  \<open>invalidated\<close> lists the filters handed to \<open>invalidateQueries\<close>. \<open>new Date(s).getTime()\<close> is the
  parameter \<open>getTime\<close>.
\<close>

subsection \<open>Frames and state\<close>

record market_frame =
  mtype :: "string option"
  trade_fields :: GlobalTradeFrame
  price_fields :: PriceUpdateMessage
  winning_outcome_name :: "string option"
  alert_id :: "string option"
  condition :: "string option"
  trigger_price :: "jsnum option"
  frame_outcomes :: "(string \<times> book) list option"
  comment_id :: jsval
  voter_id :: jsval
  vote_type :: jsval

record market_page =
  bookVersion :: nat
  wsPoints :: "LivePricePoint list"
  realtimeTrades :: "Trade list"
  marketIdRef :: "string option"
  yesOutcomeNameRef :: string
  md_market :: "market_cache option"
  md_orderbook :: "(string \<times> book) list option"
  md_comments :: "jsval option"
  md_announcer :: announcer
  notices :: "(string \<times> string) list"
  invalidated :: "query_key list"

definition WS_GAP :: string where "WS_GAP = ''__ws_gap__''"

text \<open>\<open>xs.slice(-200)\<close>\<close>

definition last_200 :: "'a list \<Rightarrow> 'a list" where
  "last_200 xs = drop (length xs - 200) xs"

subsection \<open>The branches of the handler\<close>

text \<open>An absent price reads as \<open>NaN\<close>, so a frame that passes the tests has both numbers.\<close>

definition trade_of_frame :: "string \<Rightarrow> string option \<Rightarrow> GlobalTradeFrame \<Rightarrow> Trade option" where
  "trade_of_frame slug idRef f =
     (let pr = opt_Number (fprice f); am = opt_Number (famount f)
      in if falsy_string (foutcome f) \<or> falsy_string (fside f) \<or> falsy_string (fid f) then None
         else if \<not> is_finite_num pr \<or> \<not> is_finite_num am then None
         else Some (Trade.make (the (fid f)) (get_or (or_else (fmarket_id f) idRef) [])
           (get_or (fmarket_slug f) slug) (get_or (fmarket_question f) []) (the (foutcome f)) (the (fside f))
           (js_String (the (fprice f))) (js_String (the (famount f))) (fexecuted_at f)
           (get_or (fusername f) ''Unknown'')))"

definition on_trade :: "string \<Rightarrow> market_frame \<Rightarrow> market_page \<Rightarrow> market_page" where
  "on_trade slug f p =
     (case trade_of_frame slug (marketIdRef p) (trade_fields f) of
        None \<Rightarrow> p
      | Some t \<Rightarrow>
          if list_ex (\<lambda>u. trade_id u = trade_id t) (realtimeTrades p) then p
          else p\<lparr>realtimeTrades := take 200 (t # realtimeTrades p)\<rparr>)"

definition announcement :: "string \<Rightarrow> string \<Rightarrow> jsnum \<Rightarrow> int \<Rightarrow> PriceChange" where
  "announcement key name pr ms =
     \<lparr>marketId = key, outcome = name, from_price = pr, to_price = pr, arrived = ms\<rparr>"

definition announce_entry :: "string \<Rightarrow> int \<Rightarrow> string \<times> jsnum option \<Rightarrow> announcer \<Rightarrow> announcer" where
  "announce_entry slug ms e a =
     (if isFiniteNumber (snd e)
      then announce True (announcement (slug @ '':'' @ fst e) (fst e) (the (snd e)) ms) a else a)"

definition announce_frame :: "string \<Rightarrow> string \<Rightarrow> int \<Rightarrow> PriceUpdateMessage \<Rightarrow> announcer \<Rightarrow> announcer" where
  "announce_frame slug yesName ms msg a =
     (let a1 = fold (announce_entry slug ms) (get_or (outcome_prices msg) []) a
      in if outcome_prices msg = None \<and> isFiniteNumber (yes_price msg)
         then announce True (announcement slug yesName (the (yes_price msg)) ms) a1 else a1)"

text \<open>\<open>Math.floor(Date.now() / 1000)\<close> of a clock in milliseconds.\<close>

definition clock_seconds :: "int \<Rightarrow> jsnum" where
  "clock_seconds ms = js_floor (js_div (Fin (of_int ms)) (Fin 1000))"

definition on_price :: "string \<Rightarrow> bool \<Rightarrow> int \<Rightarrow> PriceUpdateMessage \<Rightarrow> market_page \<Rightarrow> market_page" where
  "on_price slug announcing ms msg p =
     (let p1 = (case buildLivePricePoint msg (clock_seconds ms) of
                  None \<Rightarrow> p
                | Some pt \<Rightarrow> p\<lparr>wsPoints := last_200 (wsPoints p @ [pt])\<rparr>);
          p2 = p1\<lparr>md_market := snd (patchMarketPrices (md_market p1) msg)\<rparr>
      in if announcing then p2\<lparr>md_announcer := announce_frame slug (yesOutcomeNameRef p2) ms msg (md_announcer p2)\<rparr>
         else p2)"

definition on_resolved :: "string \<Rightarrow> market_frame \<Rightarrow> market_page \<Rightarrow> market_page" where
  "on_resolved slug f p =
     p\<lparr>notices := notices p @ [(''Market Resolved!'', ''Winning outcome: '' @ get_or (winning_outcome_name f) ''Unknown'')],
       invalidated := invalidated p @ [key_market slug, key_markets None, key_positions]\<rparr>"

definition upper_char :: "char \<Rightarrow> char" where
  "upper_char c =
     (let n = of_char c :: nat in if 97 \<le> n \<and> n \<le> 122 then char_of (n - 32) else c)"

text \<open>An absent value prints as \<open>undefined\<close> in a template.\<close>

definition on_alert :: "market_frame \<Rightarrow> market_page \<Rightarrow> market_page" where
  "on_alert f p =
     p\<lparr>notices := notices p @ [(''Price Alert!'',
         (case foutcome (trade_fields f) of None \<Rightarrow> ''undefined'' | Some s \<Rightarrow> map upper_char s) @ '' '' @
         get_or (condition f) ''undefined'' @ '' $'' @
         (case trigger_price f of None \<Rightarrow> ''undefined'' | Some x \<Rightarrow> to_fixed 2 x))]\<rparr>"

definition on_book :: "market_frame \<Rightarrow> market_page \<Rightarrow> market_page" where
  "on_book f p = p\<lparr>md_orderbook := frame_outcomes f, bookVersion := Suc (bookVersion p)\<rparr>"

text \<open>\<open>{...c, user_vote_type: t, user_has_voted: b}\<close>\<close>

definition with_vote :: "jsval \<Rightarrow> bool \<Rightarrow> jsval \<Rightarrow> jsval" where
  "with_vote t voted c =
     (case c of
        JObj fs \<Rightarrow> JObj (map_set ''user_has_voted'' (JBool voted) (map_set ''user_vote_type'' t fs))
      | _ \<Rightarrow> c)"

definition vote_comment :: "market_frame \<Rightarrow> jsval \<Rightarrow> jsval" where
  "vote_comment f c =
     (if Api_Errors.field c ''id'' = comment_id f
      then (if Api_Errors.field c ''user_id'' = voter_id f then with_vote (JNum (Fin 0)) False c
            else with_vote (vote_type f) True c)
      else c)"

text \<open>The updater: \<open>prev.comments\<close> is an array where it is present.\<close>

definition vote_updater :: "market_frame \<Rightarrow> jsval option \<Rightarrow> jsval option" where
  "vote_updater f prev =
     (case prev of
        None \<Rightarrow> None
      | Some v \<Rightarrow>
          (case Api_Errors.field v ''comments'' of
             JArr cs \<Rightarrow> Some (JArr (map (vote_comment f) cs))
           | _ \<Rightarrow> prev))"

definition on_vote :: "market_frame \<Rightarrow> market_page \<Rightarrow> market_page" where
  "on_vote f p = p\<lparr>md_comments := vote_updater f (md_comments p)\<rparr>"

definition invalidate_page :: "query_key list \<Rightarrow> market_page \<Rightarrow> market_page" where
  "invalidate_page ks p = p\<lparr>invalidated := invalidated p @ ks\<rparr>"

definition handleWSMessage :: "string \<Rightarrow> bool \<Rightarrow> int \<Rightarrow> market_frame \<Rightarrow> market_page \<Rightarrow> market_page" where
  "handleWSMessage slug announcing ms f p =
     (if mtype f = Some ''trade:new'' then on_trade slug f p
      else if mtype f = Some ''market:price_update'' then on_price slug announcing ms (price_fields f) p
      else if mtype f = Some ''market:resolved'' then on_resolved slug f p
      else if mtype f = Some ''notification'' \<and> \<not> falsy_string (alert_id f) then on_alert f p
      else if mtype f = Some ''orderbook:update'' \<and> frame_outcomes f \<noteq> None then on_book f p
      else if mtype f = Some ''comment:new'' \<or> mtype f = Some ''comment:updated'' then invalidate_page [key_comments slug] p
      else if mtype f = Some ''comment:deleted'' then invalidate_page [key_comments slug] p
      else if mtype f = Some ''comment:vote'' then on_vote f p
      else if mtype f = Some Query_Cache.WS_RESYNC \<or> mtype f = Some WS_GAP
      then invalidate_page [key_market slug, key_orderBook slug, str_key [''market-trades'', slug]] p
      else p)"

subsection \<open>What the page derives\<close>

definition headerOutcome :: "(string \<times> book) list option \<Rightarrow> book option" where
  "headerOutcome ob = (case ob of Some ((_, b) # _) \<Rightarrow> Some b | _ \<Rightarrow> None)"

definition outcomePrices :: "market_page \<Rightarrow> (string \<times> jsnum) list" where
  "outcomePrices p =
     buildOutcomePrices (case md_market p of None \<Rightarrow> None | Some m \<Rightarrow> outcomes m) (md_orderbook p)"

definition priceFor :: "(string \<times> jsnum) list \<Rightarrow> string \<Rightarrow> jsnum \<Rightarrow> jsnum" where
  "priceFor prices name fallback = get_or (map_of prices (to_lower name)) fallback"

definition find_outcome :: "string \<Rightarrow> MarketOutcomeCache list \<Rightarrow> MarketOutcomeCache option" where
  "find_outcome name os = List.find (\<lambda>o'. map_option to_lower (oname o') = Some name) os"

definition isBinary :: "MarketOutcomeCache list \<Rightarrow> bool" where
  "isBinary os \<longleftrightarrow> find_outcome ''yes'' os \<noteq> None \<and> find_outcome ''no'' os \<noteq> None"

text \<open>The name of an outcome, always present on the detail endpoint.\<close>

definition name_of :: "MarketOutcomeCache \<Rightarrow> string" where
  "name_of o' = get_or (oname o') []"

definition nan_or :: "jsnum \<Rightarrow> jsnum \<Rightarrow> jsnum" where
  "nan_or x d = (if x = NaN then d else x)"

definition seed_fields :: "market_cache \<Rightarrow> (string \<times> jsnum) list \<Rightarrow> (string \<times> jsnum) list" where
  "seed_fields m prices =
     (let os = get_or (outcomes m) [] in
      if isBinary os then
        (let y = js_Number (get_or (cyes_price m) (Num (of_rat_js (1 / 2))));
             n = js_Number (get_or (cno_price m) (Num (of_rat_js (1 / 2))))
         in [(''value'', y), (''Yes'', y), (''No'', n)])
      else
        (let uniform = (if os \<noteq> [] then js_div (Fin 1) (Fin (of_nat (length os))) else of_rat_js (1 / 2));
             first = priceFor prices (case os of [] \<Rightarrow> [] | o1 # _ \<Rightarrow> name_of o1) uniform
         in fold (\<lambda>o' m. map_set (name_of o') (nan_or (priceFor prices (name_of o') uniform) uniform) m) os
              [(''value'', nan_or first uniform)]))"

text \<open>Later fields overwrite earlier ones, as property writes do.\<close>

definition with_time :: "jsnum \<Rightarrow> (string \<times> jsnum) list \<Rightarrow> LivePricePoint" where
  "with_time t fs = fold (\<lambda>(k, v) m. map_set k v m) fs [(''time'', t)]"

definition seedPoints :: "market_page \<Rightarrow> int \<Rightarrow> LivePricePoint list" where
  "seedPoints p seedTime =
     (case md_market p of
        None \<Rightarrow> []
      | Some m \<Rightarrow>
          (let fs = seed_fields m (outcomePrices p)
           in [with_time (Fin (of_int (seedTime - 60))) fs, with_time (Fin (of_int seedTime)) fs]))"

definition history_field :: "history_outcome \<Rightarrow> LivePricePoint \<Rightarrow> LivePricePoint" where
  "history_field o' pt =
     (let pr = opt_Number (hprice o')
      in if is_finite_num pr then map_set (get_or (hname o') ''undefined'') pr pt else pt)"

definition historical_point :: "(string \<Rightarrow> jsnum) \<Rightarrow> PriceHistorySample \<Rightarrow> LivePricePoint option" where
  "historical_point getTime s =
     (let os = get_or (houtcomes s) [];
          v = (case os of [] \<Rightarrow> NaN | o1 # _ \<Rightarrow> opt_Number (hprice o1))
      in if \<not> is_finite_num v then None
         else Some (fold history_field os [(''time'', js_div (getTime (timestamp s)) (Fin 1000)), (''value'', v)]))"

definition historicalPoints :: "(string \<Rightarrow> jsnum) \<Rightarrow> PriceHistorySample list option \<Rightarrow> LivePricePoint list" where
  "historicalPoints getTime samples = List.map_filter (historical_point getTime) (get_or samples [])"

definition priceHistory ::
  "(string \<Rightarrow> jsnum) \<Rightarrow> PriceHistorySample list option \<Rightarrow> int \<Rightarrow> market_page \<Rightarrow> LivePricePoint list" where
  "priceHistory getTime samples seedTime p =
     last_200 (historicalPoints getTime samples @ seedPoints p seedTime @ wsPoints p)"

text \<open>The current value handed to the chart: the last point's, or the cached price.\<close>

definition chart_value :: "LivePricePoint list \<Rightarrow> market_cache \<Rightarrow> jsnum" where
  "chart_value h m =
     get_or (if h = [] then None else map_of (last h) ''value'')
       (js_Number (get_or (cyes_price m) (Num (of_rat_js (1 / 2)))))"

definition chart_valueNo :: "LivePricePoint list \<Rightarrow> market_cache \<Rightarrow> jsnum option" where
  "chart_valueNo h m =
     (if isBinary (get_or (outcomes m) [])
      then Some (get_or (if h = [] then None else map_of (last h) ''No'')
             (js_Number (get_or (cno_price m) (Num (of_rat_js (1 / 2))))))
      else None)"

definition combinedTrades :: "Trade list \<Rightarrow> Trade list option \<Rightarrow> Trade list" where
  "combinedTrades live rest = take 200 (live @ get_or rest [])"

subsection \<open>Resolving and claiming\<close>

text \<open>\<open>handleResolve\<close>: the request it makes, and the notice of its answer.\<close>

definition handleResolve :: "string \<Rightarrow> string \<Rightarrow> (string \<times> string) option" where
  "handleResolve slug selected = (if selected = [] then None else Some (slug, selected))"

definition resolve_notice :: "(thrown + string option) \<Rightarrow> string \<times> string" where
  "resolve_notice r =
     (case r of
        Inr message \<Rightarrow> (get_or message ''Market resolved!'', [])
      | Inl e \<Rightarrow> (''Resolve failed'', apiErrorMessage e ''Unknown error''))"

definition handleOutcomeSelect :: "string option \<Rightarrow> string" where
  "handleOutcomeSelect v = get_or v []"

record claim =
  claiming :: bool
  claimed :: bool

definition begin_claim :: "claim \<Rightarrow> claim" where
  "begin_claim c = c\<lparr>claiming := True\<rparr>"

text \<open>The answer of \<open>claimWinnings\<close>: state, invalidated filters and notice.\<close>

definition end_claim :: "(thrown + string option) \<Rightarrow> claim \<Rightarrow> claim \<times> query_key list \<times> string \<times> string" where
  "end_claim r c =
     (case r of
        Inr message \<Rightarrow>
          (c\<lparr>claimed := True, claiming := False\<rparr>, [key_wallet, key_transactions, key_positions],
           get_or message ''Winnings claimed!'', [])
      | Inl e \<Rightarrow> (c\<lparr>claiming := False\<rparr>, [], ''Claim failed'', apiErrorMessage e ''Unknown error''))"

definition claim_enabled :: "claim \<Rightarrow> bool" where
  "claim_enabled c \<longleftrightarrow> \<not> (claiming c \<or> claimed c)"

subsection \<open>What every frame keeps\<close>

text \<open>Live rows have different ids, and no list outgrows its cap.\<close>

definition page_inv :: "market_page \<Rightarrow> bool" where
  "page_inv p \<longleftrightarrow> distinct (map trade_id (realtimeTrades p)) \<and> length (realtimeTrades p) \<le> 200 \<and> length (wsPoints p) \<le> 200"

lemma length_last_200: "length (last_200 xs) \<le> 200"
  by (simp add: last_200_def)

lemma page_inv_handle: "page_inv p \<Longrightarrow> page_inv (handleWSMessage slug ann ms f p)"
proof -
  assume inv: "page_inv p"
  have "page_inv (on_trade slug f p)"
  proof (cases "trade_of_frame slug (marketIdRef p) (trade_fields f)")
    case (Some t)
    have "trade_id t \<notin> set (map trade_id (take 199 (realtimeTrades p)))"
      if "\<not> list_ex (\<lambda>u. trade_id u = trade_id t) (realtimeTrades p)"
      using that by (force simp: list_ex_iff dest: in_set_takeD)
    then show ?thesis using inv Some by (simp add: on_trade_def page_inv_def take_Cons' distinct_take take_map [symmetric])
  qed (use inv in \<open>simp add: on_trade_def\<close>)
  moreover have "page_inv (on_price slug ann ms (price_fields f) p)"
    using inv length_last_200 by (auto simp: on_price_def page_inv_def Let_def split: option.splits)
  moreover have "page_inv (on_resolved slug f p)" "page_inv (on_alert f p)" "page_inv (on_book f p)"
    "page_inv (on_vote f p)" "page_inv (invalidate_page ks p)" for ks
    using inv by (auto simp: page_inv_def on_resolved_def on_alert_def on_book_def on_vote_def invalidate_page_def)
  ultimately show ?thesis using inv by (simp add: handleWSMessage_def)
qed

text \<open>The first render: nothing live yet.\<close>

definition fresh_page :: "market_cache option \<Rightarrow> (string \<times> book) list option \<Rightarrow> jsval option \<Rightarrow> market_page" where
  "fresh_page m ob cs =
     \<lparr>bookVersion = 0, wsPoints = [], realtimeTrades = [], marketIdRef = None, yesOutcomeNameRef = ''Yes'',
      md_market = m, md_orderbook = ob, md_comments = cs,
      md_announcer = \<lparr>state_ref = EMPTY_STATE, timer_set = False, region = [], next_region = []\<rparr>,
      notices = [], invalidated = []\<rparr>"

definition handle_all :: "string \<Rightarrow> bool \<Rightarrow> (int \<times> market_frame) list \<Rightarrow> market_page \<Rightarrow> market_page" where
  "handle_all slug ann fs p = fold (\<lambda>(ms, f). handleWSMessage slug ann ms f) fs p"

lemma page_inv_all: "page_inv p \<Longrightarrow> page_inv (handle_all slug ann fs p)"
  unfolding handle_all_def by (induction fs arbitrary: p) (auto simp: page_inv_handle)

subsection \<open>A price frame reaches the chart and the cache alike\<close>

lemma last_last_200: "xs \<noteq> [] \<Longrightarrow> last (last_200 xs) = last xs"
  by (cases xs) (auto simp: last_200_def last_drop)

lemma last_200_ne: "xs \<noteq> [] \<Longrightarrow> last_200 xs \<noteq> []"
  by (cases xs) (auto simp: last_200_def)

definition binary_frame :: "rat \<Rightarrow> rat \<Rightarrow> PriceUpdateMessage" where
  "binary_frame y n = \<lparr>yes_price = Some (Fin y), no_price = Some (Fin n), outcome_prices = None\<rparr>"

text \<open>What the chart shows after a frame with outcome prices: the finite quote under a key of the
  point, or the point's own entry.\<close>

definition finite_quote :: "(string \<times> jsnum option) list \<Rightarrow> string \<Rightarrow> jsnum \<Rightarrow> jsnum" where
  "finite_quote ps k d = (case map_of ps k of Some (Some q) \<Rightarrow> if is_finite_num q then q else d | _ \<Rightarrow> d)"

lemma fold_add_price_lookup:
  assumes "distinct (map fst es)"
  shows "map_of (fold add_price es pt) k =
    (case map_of es k of Some v \<Rightarrow> if isFiniteNumber v then v else map_of pt k | None \<Rightarrow> map_of pt k)"
  using assms
proof (induction es arbitrary: pt)
  case (Cons e es)
  have step: "map_of (add_price e pt) k = (if k = fst e \<and> isFiniteNumber (snd e) then snd e else map_of pt k)"
    by (auto simp: add_price_def js_simps isFiniteNumber_def split: option.splits)
  have "k = fst e \<Longrightarrow> map_of es k = None" using Cons.prems by (simp add: map_of_eq_None_iff)
  then show ?case using Cons step by (cases e) (auto split: option.splits)
qed simp

lemma finite_quote_lookup:
  assumes "distinct (map fst es)"
  shows "get_or (map_of (fold add_price es pt) k) d = finite_quote es k (get_or (map_of pt k) d)"
  by (auto simp: fold_add_price_lookup [OF assms] finite_quote_def get_or_def isFiniteNumber_def split: option.splits)

lemma isBinary_priced: "isBinary (map (priced ps) os) = isBinary os"
proof -
  have "oname (priced ps oc) = oname oc" for oc by (auto simp: priced_def split: list.splits)
  then have "(find_outcome k (map (priced ps) os) = None) = (find_outcome k os = None)" for k
    by (auto simp: find_outcome_def find_None_iff)
  then show ?thesis by (simp add: isBinary_def)
qed

text \<open>The point of a frame with two finite prices, and where it ends up.\<close>

lemma price_point:
  assumes "yes_price msg = Some (Fin y)" "no_price msg = Some (Fin n)"
  shows "buildLivePricePoint msg t =
    (case get_or (outcome_prices msg) [] of
       [] \<Rightarrow> Some [(''time'', t), (''value'', Fin y), (''Yes'', Fin y), (''No'', Fin n)]
     | e # es \<Rightarrow> if isFiniteNumber (snd e)
         then Some (fold add_price (e # es) [(''time'', t), (''value'', the (snd e))]) else None)"
  using assms by (simp add: buildLivePricePoint_def isFiniteNumber_def is_finite_num_def Let_def split: list.split)

lemma price_page:
  assumes "p' = handleWSMessage slug ann ms (f\<lparr>mtype := Some ''market:price_update'', price_fields := msg\<rparr>) p"
  shows "wsPoints p' = (case buildLivePricePoint msg (clock_seconds ms) of None \<Rightarrow> wsPoints p | Some pt \<Rightarrow> last_200 (wsPoints p @ [pt]))"
    "md_market p' = snd (patchMarketPrices (md_market p) msg)"
  by (auto simp: assms handleWSMessage_def on_price_def Let_def split: option.split)

lemma last_point:
  assumes "wsPoints p' = last_200 (ws @ [pt])"
  shows "priceHistory getTime samples seedTime p' \<noteq> []" "last (priceHistory getTime samples seedTime p') = pt"
proof -
  have "wsPoints p' \<noteq> []" "last (wsPoints p') = pt" by (simp_all add: assms last_200_ne last_last_200)
  then show "priceHistory getTime samples seedTime p' \<noteq> []" "last (priceHistory getTime samples seedTime p') = pt"
    by (simp_all add: priceHistory_def last_200_ne last_last_200)
qed

lemma cached_prices_read_back:
  assumes "yes_price msg = Some (Fin y)" "no_price msg = Some (Fin n)" "normal_double y" "normal_double n"
  shows "\<exists>m'. snd (patchMarketPrices (Some m) msg) = Some m' \<and> other m' = other m
    \<and> outcomes m' = (case outcome_prices msg of None \<Rightarrow> outcomes m | Some ps \<Rightarrow> map_option (map (priced ps)) (outcomes m))
    \<and> js_Number (get_or (cyes_price m') (Num (of_rat_js (1 / 2)))) = Fin y
    \<and> js_Number (get_or (cno_price m') (Num (of_rat_js (1 / 2)))) = Fin n
    \<and> isBinary (get_or (outcomes m') []) = isBinary (get_or (outcomes m) [])"
proof -
  have "string_to_number (num_to_string (Fin y)) = Fin y" "string_to_number (num_to_string (Fin n)) = Fin n"
    using assms(3,4) by (simp_all only: normal_string_roundtrip)
  then show ?thesis
    using assms(1,2)
    by (auto simp: isBinary_priced patchMarketPrices_spec priced_outcomes_def isFiniteNumber_def is_finite_num_def get_or_def
        del: num_to_string.simps split: option.splits)
qed

lemma price_frame_shown:
  assumes "md_market p = Some m" "yes_price msg = Some (Fin y)" "no_price msg = Some (Fin n)" "normal_double y" "normal_double n"
    and distinct: "distinct (map fst (get_or (outcome_prices msg) []))"
    and p': "p' = handleWSMessage slug ann ms (f\<lparr>mtype := Some ''market:price_update'', price_fields := msg\<rparr>) p"
  shows "\<exists>m'. md_market p' = Some m' \<and> other m' = other m
    \<and> outcomes m' = (case outcome_prices msg of None \<Rightarrow> outcomes m | Some ps \<Rightarrow> map_option (map (priced ps)) (outcomes m))
    \<and> js_Number (get_or (cyes_price m') (Num (of_rat_js (1 / 2)))) = Fin y
    \<and> js_Number (get_or (cno_price m') (Num (of_rat_js (1 / 2)))) = Fin n
    \<and> (case get_or (outcome_prices msg) [] of
         [] \<Rightarrow> chart_value (priceHistory getTime samples seedTime p') m' = Fin y
           \<and> (isBinary (get_or (outcomes m) []) \<longrightarrow> chart_valueNo (priceHistory getTime samples seedTime p') m' = Some (Fin n))
       | (k, v) # es \<Rightarrow>
           if isFiniteNumber v
           then chart_value (priceHistory getTime samples seedTime p') m' = finite_quote ((k, v) # es) ''value'' (the v)
             \<and> (isBinary (get_or (outcomes m) []) \<longrightarrow>
                  chart_valueNo (priceHistory getTime samples seedTime p') m' = Some (finite_quote ((k, v) # es) ''No'' (Fin n)))
           else wsPoints p' = wsPoints p)"
proof -
  note page = price_page [OF p']
  obtain m' where m': "md_market p' = Some m'" "other m' = other m"
    "outcomes m' = (case outcome_prices msg of None \<Rightarrow> outcomes m | Some ps \<Rightarrow> map_option (map (priced ps)) (outcomes m))"
    "js_Number (get_or (cyes_price m') (Num (of_rat_js (1 / 2)))) = Fin y"
    "js_Number (get_or (cno_price m') (Num (of_rat_js (1 / 2)))) = Fin n"
    "isBinary (get_or (outcomes m') []) = isBinary (get_or (outcomes m) [])"
    using cached_prices_read_back [OF assms(2-5), of m] page(2) assms(1) by auto
  let ?h = "priceHistory getTime samples seedTime p'"
  have shown: "chart_value ?h m' = get_or (map_of pt ''value'') (Fin y)"
    "isBinary (get_or (outcomes m) []) \<longrightarrow> chart_valueNo ?h m' = Some (get_or (map_of pt ''No'') (Fin n))"
    if "buildLivePricePoint msg (clock_seconds ms) = Some pt" for pt
    using last_point [of p' "wsPoints p" pt getTime samples seedTime] page(1) that m'(4-6)
    by (simp_all add: chart_value_def chart_valueNo_def)
  show ?thesis
  proof (cases "get_or (outcome_prices msg) []")
    case Nil
    then show ?thesis using m'(1-5) shown price_point [OF assms(2,3)] by (auto simp: get_or_def)
  next
    case (Cons e es)
    obtain k v where e: "e = (k, v)" by (cases e)
    show ?thesis
    proof (cases "isFiniteNumber v")
      case True
      let ?pt = "fold add_price ((k, v) # es) [(''time'', clock_seconds ms), (''value'', the v)]"
      have "buildLivePricePoint msg (clock_seconds ms) = Some ?pt"
        using price_point [OF assms(2,3), of "clock_seconds ms"] Cons e True by simp
      moreover have "get_or (map_of ?pt c) d = finite_quote ((k, v) # es) c (get_or (map_of [(''time'', clock_seconds ms), (''value'', the v)] c) d)" for c d
        using finite_quote_lookup [of "(k, v) # es"] distinct Cons e by simp
      ultimately show ?thesis using m'(1-5) shown [of ?pt] Cons e True by (simp add: get_or_def del: fold_simps)
    next
      case False
      then have "wsPoints p' = wsPoints p" using page(1) price_point [OF assms(2,3)] Cons e by simp
      then show ?thesis using m'(1-5) Cons e False by simp
    qed
  qed
qed

subsection \<open>Announcements\<close>

lemma map_set_absent: "k \<notin> fst ` set m \<Longrightarrow> map_set k v m = m @ [(k, v)]"
  by (induction m) auto

text \<open>Nothing was spoken, and every staged change goes nowhere.\<close>

definition quiet :: "announcer \<Rightarrow> bool" where
  "quiet a \<longleftrightarrow> announced (state_ref a) = [] \<and> region a = [] \<and> next_region a = []
     \<and> (\<forall>e \<in> set (pending (state_ref a)). js_eq (from_price (snd e)) (to_price (snd e)))"

definition staged_keys :: "announcer \<Rightarrow> string set" where
  "staged_keys a = fst ` set (pending (state_ref a))"

lemma announce_quiet:
  assumes "quiet a" "is_finite_num pr" "key \<notin> staged_keys a"
  shows "quiet (announce True (announcement key name pr ms) a)"
    and "staged_keys (announce True (announcement key name pr ms) a) = insert key (staged_keys a)"
proof -
  have "map_of (pending (state_ref a)) key = None" using assms(3) by (simp add: staged_keys_def map_of_eq_None_iff)
  then have "pending (state_ref (announce True (announcement key name pr ms) a)) =
      pending (state_ref a) @ [(key, announcement key name pr ms)]"
    using assms(1,3) by (simp add: announce_def stagePriceChange_def Let_def announcement_def quiet_def staged_keys_def
        map_set_absent get_or_def)
  moreover have "pr \<noteq> NaN" using assms(2) by (auto simp: is_finite_num_def)
  ultimately show "quiet (announce True (announcement key name pr ms) a)"
    and "staged_keys (announce True (announcement key name pr ms) a) = insert key (staged_keys a)"
    using assms(1) by (auto simp: quiet_def staged_keys_def announce_def stagePriceChange_def Let_def announcement_def js_eq_def)
qed

lemma announce_entries_quiet:
  assumes "quiet a" "distinct (map fst es)" "\<forall>e \<in> set es. slug @ '':'' @ fst e \<notin> staged_keys a"
  shows "quiet (fold (announce_entry slug ms) es a)"
  using assms
proof (induction es arbitrary: a)
  case (Cons e es)
  show ?case
  proof (cases "isFiniteNumber (snd e)")
    case True
    then have fin: "is_finite_num (the (snd e))" by (auto simp: isFiniteNumber_def split: option.splits)
    let ?a = "announce_entry slug ms e a"
    have "quiet ?a" "staged_keys ?a = insert (slug @ '':'' @ fst e) (staged_keys a)"
      using announce_quiet [OF Cons.prems(1) fin, of "slug @ '':'' @ fst e"] Cons.prems(3) True
      by (simp_all add: announce_entry_def)
    moreover have "fst ea \<noteq> fst e" if "ea \<in> set es" for ea using Cons.prems(2) that by (metis distinct.simps(2) image_eqI list.set_map list.simps(9))
    ultimately show ?thesis using Cons.IH [of ?a] Cons.prems by simp
  next
    case False
    then show ?thesis using Cons by (simp add: announce_entry_def)
  qed
qed simp

lemma flush_quiet:
  assumes "quiet a"
  shows "quiet (fire_flush sig a)" "pending (state_ref (fire_flush sig a)) = []"
proof -
  have "fold (flush_entry sig) es ([], []) = ([], [])" if "\<forall>e \<in> set es. js_eq (from_price (snd e)) (to_price (snd e))" for es
    using that by (induction es) (simp_all add: flush_entry_def)
  then have "flushAnnouncements sig (state_ref a) = (\<lparr>announced = [], pending = []\<rparr>, [])"
    using assms by (simp add: flushAnnouncements_def quiet_def)
  then show "quiet (fire_flush sig a)" "pending (state_ref (fire_flush sig a)) = []"
    using assms by (simp_all add: fire_flush_def quiet_def)
qed

text \<open>A frame, and then the flush of its interval.\<close>

definition spoken_frame ::
  "string \<Rightarrow> (jsnum \<Rightarrow> jsnum \<Rightarrow> bool) \<Rightarrow> int \<times> market_frame \<Rightarrow> market_page \<Rightarrow> market_page" where
  "spoken_frame slug sig e p =
     (let p1 = handleWSMessage slug True (fst e) (snd e) p in p1\<lparr>md_announcer := fire_flush sig (md_announcer p1)\<rparr>)"

definition object_keys :: "market_frame \<Rightarrow> bool" where
  "object_keys f \<longleftrightarrow> distinct (map fst (get_or (outcome_prices (price_fields f)) []))"

lemma handle_quiet:
  assumes "quiet (md_announcer p)" "pending (state_ref (md_announcer p)) = []" "object_keys f"
  shows "quiet (md_announcer (handleWSMessage slug True ms f p))"
proof -
  have empty: "staged_keys (md_announcer p) = {}" using assms(2) by (simp add: staged_keys_def)
  have "quiet (announce_frame slug name ms (price_fields f) (md_announcer p))" for name
  proof (cases "outcome_prices (price_fields f)")
    case None
    then show ?thesis
      using assms(1) announce_quiet [OF assms(1), of _ slug] empty
      by (auto simp: announce_frame_def Let_def get_or_def isFiniteNumber_def split: option.splits)
  next
    case (Some es)
    then show ?thesis
      using announce_entries_quiet [OF assms(1), of es] assms(3) empty
      by (simp add: announce_frame_def Let_def get_or_def object_keys_def)
  qed
  then show ?thesis
    using assms(1) by (auto simp: handleWSMessage_def on_trade_def on_price_def on_resolved_def on_alert_def on_book_def
        on_vote_def invalidate_page_def Let_def split: option.splits)
qed

lemma spoken_run_quiet:
  assumes "quiet (md_announcer p)" "pending (state_ref (md_announcer p)) = []" "\<forall>e \<in> set fs. object_keys (snd e)"
  shows "quiet (md_announcer (fold (spoken_frame slug sig) fs p))"
  using assms
proof (induction fs arbitrary: p)
  case (Cons e fs)
  have "quiet (md_announcer (spoken_frame slug sig e p))" "pending (state_ref (md_announcer (spoken_frame slug sig e p))) = []"
    using flush_quiet [OF handle_quiet [OF Cons.prems(1,2)]] Cons.prems(3) by (simp_all add: spoken_frame_def Let_def)
  then show ?case using Cons.IH Cons.prems(3) by simp
qed simp


subsection \<open>Properties\<close>

text \<open>
  The page's live state stays sound under every sequence of frames: no two live rows of the trade
  list share an id, and neither the live rows, the live points, the plotted series nor the list of
  trades shown outgrows two hundred entries.
\<close>

theorem live_page_bounded:
  fixes m ob cs slug ann fs
  defines "p \<equiv> handle_all slug ann fs (fresh_page m ob cs)"
  shows "distinct (map trade_id (realtimeTrades p)) \<and> length (realtimeTrades p) \<le> 200
    \<and> length (wsPoints p) \<le> 200 \<and> length (priceHistory getTime samples seedTime p) \<le> 200
    \<and> length (combinedTrades (realtimeTrades p) rest) \<le> 200"
proof -
  have "page_inv p" unfolding p_def by (rule page_inv_all) (simp add: page_inv_def fresh_page_def)
  moreover have "length (combinedTrades xs rest) \<le> 200" for xs by (simp only: combinedTrades_def length_take min.cobounded2)
  ultimately show ?thesis by (simp add: page_inv_def priceHistory_def length_last_200)
qed

text \<open>
  C12. A price frame moves the chart and the cached market together. Let a frame arrive for a
  cached market whose yes and no prices are zero or normal doubles, whatever the price history holds. The cached yes and no prices,
  from which the headline and the order form read, become strings that read back as exactly the
  same numbers; the cached outcomes take the frame's own outcome prices where it quotes them, and
  nothing else of the cached market changes. Without outcome prices the value the chart eases
  to is the yes price, and on a binary market its second line goes to the no price. With outcome
  prices, the chart's value is the price of the frame's first outcome instead (of the outcome
  named "value", if there is one), and the second line goes to the frame's price for "No" or else to
  the no price; if the first outcome's price is not finite the chart gets no point at all.
\<close>

theorem price_frame_everywhere:
  assumes "md_market p = Some m" "yes_price msg = Some (Fin y)" "no_price msg = Some (Fin n)" "normal_double y" "normal_double n"
    and "distinct (map fst (get_or (outcome_prices msg) []))"
    and "p' = handleWSMessage slug ann ms (f\<lparr>mtype := Some ''market:price_update'', price_fields := msg\<rparr>) p"
  shows "\<exists>m'. md_market p' = Some m' \<and> other m' = other m
    \<and> outcomes m' = (case outcome_prices msg of None \<Rightarrow> outcomes m | Some ps \<Rightarrow> map_option (map (priced ps)) (outcomes m))
    \<and> js_Number (get_or (cyes_price m') (Num (of_rat_js (1 / 2)))) = Fin y
    \<and> js_Number (get_or (cno_price m') (Num (of_rat_js (1 / 2)))) = Fin n
    \<and> (case get_or (outcome_prices msg) [] of
         [] \<Rightarrow> chart_value (priceHistory getTime samples seedTime p') m' = Fin y
           \<and> (isBinary (get_or (outcomes m) []) \<longrightarrow> chart_valueNo (priceHistory getTime samples seedTime p') m' = Some (Fin n))
       | (k, v) # es \<Rightarrow>
           if isFiniteNumber v
           then chart_value (priceHistory getTime samples seedTime p') m' = finite_quote ((k, v) # es) ''value'' (the v)
             \<and> (isBinary (get_or (outcomes m) []) \<longrightarrow>
                  chart_valueNo (priceHistory getTime samples seedTime p') m' = Some (finite_quote ((k, v) # es) ''No'' (Fin n)))
           else wsPoints p' = wsPoints p)"
  using assms by (rule price_frame_shown)

definition sample_market :: market_cache where
  "sample_market = \<lparr>cyes_price = Some (Str ''0.4''), cno_price = Some (Str ''0.6''),
     outcomes = Some [\<lparr>oid = Some ''1'', oname = Some ''Yes'', oprice = None\<rparr>, \<lparr>oid = Some ''2'', oname = Some ''No'', oprice = None\<rparr>],
     other = []\<rparr>"

definition sample_frame :: market_frame where
  "sample_frame = \<lparr>mtype = None,
     trade_fields = \<lparr>ftype = None, fid = None, fmarket_id = None, fmarket_slug = None, fmarket_question = None,
       foutcome = None, fside = None, fprice = None, famount = None, fexecuted_at = None, fusername = None\<rparr>,
     price_fields = \<lparr>yes_price = None, no_price = None, outcome_prices = None\<rparr>,
     winning_outcome_name = None, alert_id = None, condition = None, trigger_price = None, frame_outcomes = None,
     comment_id = JUndef, voter_id = JUndef, vote_type = JUndef\<rparr>"

lemma sample_normal: "normal_double (3 / 4)" "normal_double (1 / 4)"
proof -
  have "round64 (3 / 4) = 3 / 4" "round64 (1 / 4) = 1 / 4" by code_simp+
  then show "normal_double (3 / 4)" "normal_double (1 / 4)" by (auto intro!: normal_doubleI)
qed

definition pool_frame :: PriceUpdateMessage where
  "pool_frame = \<lparr>yes_price = Some (Fin (3 / 4)), no_price = Some (Fin (1 / 4)),
     outcome_prices = Some [(''No'', Some (Fin (1 / 4))), (''Yes'', Some (Fin (3 / 4)))]\<rparr>"

theorem price_frame_everywhere_witness:
  "\<exists>m'. md_market (handleWSMessage ''m'' False 0 (sample_frame\<lparr>mtype := Some ''market:price_update'', price_fields := pool_frame\<rparr>)
        (fresh_page (Some sample_market) None None)) = Some m'
    \<and> js_Number (get_or (cyes_price m') (Num (of_rat_js (1 / 2)))) = Fin (3 / 4)
    \<and> map oprice (get_or (outcomes m') []) = [Some (Num (Fin (3 / 4))), Some (Num (Fin (1 / 4)))]
    \<and> chart_value (priceHistory (\<lambda>s. NaN) None 0 (handleWSMessage ''m'' False 0
        (sample_frame\<lparr>mtype := Some ''market:price_update'', price_fields := pool_frame\<rparr>) (fresh_page (Some sample_market) None None))) m'
      = Fin (1 / 4)"
proof -
  have 1: "yes_price pool_frame = Some (Fin (3 / 4))" "no_price pool_frame = Some (Fin (1 / 4))"
    "distinct (map fst (get_or (outcome_prices pool_frame) []))"
    by (simp_all add: pool_frame_def get_or_def)
  show ?thesis
    using price_frame_everywhere [OF _ 1(1,2) sample_normal 1(3) refl, of "fresh_page (Some sample_market) None None" sample_market
        "''m''" False 0 sample_frame "\<lambda>s. NaN" None 0]
    by (auto simp: fresh_page_def pool_frame_def sample_market_def get_or_def isFiniteNumber_def is_finite_num_def
        finite_quote_def priced_def quotes_def)
qed

text \<open>
  Announced prices stay silent on a market whose frames come one per interval. The page stages
  every frame as a change from the new price to the new price, so when each frame is flushed before
  the next one arrives, nothing is ever spoken, however far the price moves and whatever the
  significance rule is.
\<close>

theorem spaced_frames_never_spoken:
  assumes "\<forall>e \<in> set fs. object_keys (snd e)"
  shows "region (md_announcer (fold (spoken_frame slug sig) fs (fresh_page m ob cs))) = []
    \<and> next_region (md_announcer (fold (spoken_frame slug sig) fs (fresh_page m ob cs))) = []
    \<and> announced (state_ref (md_announcer (fold (spoken_frame slug sig) fs (fresh_page m ob cs)))) = []"
proof -
  have "quiet (md_announcer (fold (spoken_frame slug sig) fs (fresh_page m ob cs)))"
    using assms by (intro spoken_run_quiet) (simp_all add: fresh_page_def quiet_def EMPTY_STATE_def)
  then show ?thesis by (simp add: quiet_def)
qed

theorem spaced_frames_never_spoken_witness:
  "region (md_announcer (fold (spoken_frame ''m'' (\<lambda>a b. True))
     [(0, sample_frame\<lparr>mtype := Some ''market:price_update'', price_fields := binary_frame (1 / 4) (3 / 4)\<rparr>),
      (9000, sample_frame\<lparr>mtype := Some ''market:price_update'', price_fields := binary_frame (3 / 4) (1 / 4)\<rparr>)]
     (fresh_page None None None))) = []"
  using spaced_frames_never_spoken [of "[(0, sample_frame\<lparr>mtype := Some ''market:price_update'', price_fields := binary_frame (1 / 4) (3 / 4)\<rparr>),
      (9000, sample_frame\<lparr>mtype := Some ''market:price_update'', price_fields := binary_frame (3 / 4) (1 / 4)\<rparr>)]"
      "''m''" "\<lambda>a b. True" None None None]
  by (simp add: object_keys_def binary_frame_def get_or_def)

definition vote_frame :: "market_frame \<Rightarrow> market_frame" where
  "vote_frame f = f\<lparr>mtype := Some ''comment:vote''\<rparr>"

lemma vote_ignored:
  assumes "\<And>v. md_comments p = Some v \<Longrightarrow> Api_Errors.field v ''comments'' = JUndef"
  shows "handleWSMessage slug ann ms (vote_frame f) p = p"
  using assms by (cases "md_comments p") (simp_all add: handleWSMessage_def vote_frame_def on_vote_def vote_updater_def
      Query_Cache.WS_RESYNC_def WS_GAP_def)

text \<open>
  Live comment votes change nothing. The comments are cached as the response envelope, whose
  comments are under \<open>data\<close>; the updater looks for them at the top, so no sequence of vote frames
  alters the cached comments or anything else of the page.
\<close>

theorem live_votes_ignored:
  "fold (\<lambda>(ms, f). handleWSMessage slug ann ms (vote_frame f)) fs
     (fresh_page m ob (Some (JObj [(''success'', JBool True), (''data'', JObj [(''comments'', cs)])])))
   = fresh_page m ob (Some (JObj [(''success'', JBool True), (''data'', JObj [(''comments'', cs)])]))"
proof -
  have "handleWSMessage slug ann ms (vote_frame f)
      (fresh_page m ob (Some (JObj [(''success'', JBool True), (''data'', JObj [(''comments'', cs)])])))
    = fresh_page m ob (Some (JObj [(''success'', JBool True), (''data'', JObj [(''comments'', cs)])]))" for ms f
    by (rule vote_ignored) (auto simp: fresh_page_def field_def get_or_def)
  then show ?thesis by (induction fs) auto
qed

text \<open>
  A live trade that the next refetch returns is listed twice. The page puts its live rows before
  the rows of the endpoint without comparing ids, so once a trade is on both sides its id occurs
  twice in the list that is shown, whose rows are keyed by id.
\<close>

theorem refetched_trade_listed_twice:
  assumes "t \<in> set (realtimeTrades p)" "u \<in> set rest" "trade_id u = trade_id t" "length (realtimeTrades p) + length rest \<le> 200"
  shows "\<not> distinct (map trade_id (combinedTrades (realtimeTrades p) (Some rest)))"
proof -
  have "combinedTrades (realtimeTrades p) (Some rest) = realtimeTrades p @ rest"
    using assms(4) by (simp add: combinedTrades_def get_or_def)
  moreover have "trade_id t \<in> trade_id ` set (realtimeTrades p) \<inter> trade_id ` set rest" using assms(1-3) by (metis IntI image_eqI)
  ultimately show ?thesis by auto
qed

definition sample_trade :: Trade where
  "sample_trade = Trade.make ''t1'' ''m1'' ''m'' [] ''yes'' ''buy'' ''0.5'' ''10'' None ''ann''"

theorem refetched_trade_listed_twice_witness:
  "\<not> distinct (map trade_id (combinedTrades (realtimeTrades ((fresh_page None None None)\<lparr>realtimeTrades := [sample_trade]\<rparr>))
      (Some [sample_trade])))"
  using refetched_trade_listed_twice [of sample_trade "(fresh_page None None None)\<lparr>realtimeTrades := [sample_trade]\<rparr>"
      sample_trade "[sample_trade]"]
  by simp

text \<open>
  The plotted series is not in the order of time once the history is refetched. The history is put
  before the two seeds of the first render, so a sample that is later than the seed leaves a later
  point before an earlier one, and the chart's search for the value under the cursor is run on a
  series it is not made for.
\<close>

theorem refetched_history_out_of_order:
  assumes "md_market p = Some m" "pt \<in> set (historicalPoints getTime samples)" "map_of pt ''time'' = Some (Fin t)"
    and "of_int seedTime < t" "length (historicalPoints getTime samples @ wsPoints p) \<le> 198"
    and "''time'' \<notin> fst ` set (seed_fields m (outcomePrices p))"
  shows "\<exists>i j. i < j \<and> j < length (priceHistory getTime samples seedTime p)
    \<and> map_of (priceHistory getTime samples seedTime p ! i) ''time'' = Some (Fin t)
    \<and> map_of (priceHistory getTime samples seedTime p ! j) ''time'' = Some (Fin (of_int seedTime))"
proof -
  let ?h = "historicalPoints getTime samples" and ?fs = "seed_fields m (outcomePrices p)"
  let ?s1 = "with_time (Fin (of_int (seedTime - 60))) ?fs" and ?s2 = "with_time (Fin (of_int seedTime)) ?fs"
  have ph: "priceHistory getTime samples seedTime p = ?h @ [?s1, ?s2] @ wsPoints p"
    using assms(1,5) by (simp add: priceHistory_def last_200_def seedPoints_def Let_def)
  have keep: "map_of (fold (\<lambda>(k, v) m. map_set k v m) fs acc) ''time'' = map_of acc ''time''"
    if "''time'' \<notin> fst ` set fs" for fs :: "(string \<times> jsnum) list" and acc
    using that by (induction fs arbitrary: acc) (auto simp: map_of_set)
  have s2: "map_of ?s2 ''time'' = Some (Fin (of_int seedTime))" using keep [OF assms(6)] by (simp add: with_time_def)
  obtain i where i: "i < length ?h" "?h ! i = pt" using assms(2) by (auto simp: in_set_conv_nth)
  have "(?h @ [?s1, ?s2] @ wsPoints p) ! i = pt" using i by (simp add: nth_append)
  moreover have "(?h @ [?s1, ?s2] @ wsPoints p) ! (length ?h + 1) = ?s2" by (simp add: nth_append)
  ultimately show ?thesis
    using i(1) assms(3) s2 by (intro exI [of _ i] exI [of _ "length ?h + 1"]) (simp add: ph)
qed

definition sample_sample :: PriceHistorySample where
  "sample_sample = \<lparr>timestamp = ''s'', houtcomes = Some [\<lparr>hname = Some ''Yes'', hprice = Some (Num (Fin (1 / 2)))\<rparr>]\<rparr>"

theorem refetched_history_out_of_order_witness:
  "\<exists>i j. i < j \<and> j < length (priceHistory (\<lambda>s. Fin 2000000) (Some [sample_sample]) 1000 (fresh_page (Some sample_market) None None))
    \<and> map_of (priceHistory (\<lambda>s. Fin 2000000) (Some [sample_sample]) 1000 (fresh_page (Some sample_market) None None) ! i) ''time'' = Some (Fin 2000)
    \<and> map_of (priceHistory (\<lambda>s. Fin 2000000) (Some [sample_sample]) 1000 (fresh_page (Some sample_market) None None) ! j) ''time'' = Some (Fin 1000)"
proof -
  let ?pt = "[(''time'', Fin 2000), (''value'', Fin (1 / 2)), (''Yes'', Fin (1 / 2))]"
  have "of_rat_js 2000 = Fin 2000" using is_double_of_int [of 2000] by simp
  then have h: "historicalPoints (\<lambda>s. Fin 2000000) (Some [sample_sample]) = [?pt]"
    by (simp add: historicalPoints_def historical_point_def sample_sample_def get_or_def opt_Number_def is_finite_num_def
        history_field_def map_filter_def Let_def)
  have "''time'' \<notin> fst ` set (seed_fields sample_market (outcomePrices (fresh_page (Some sample_market) None None)))"
    by (simp add: seed_fields_def sample_market_def isBinary_def find_outcome_def get_or_def to_lower_def lower_char_def name_of_def Let_def)
  then show ?thesis
    using refetched_history_out_of_order [of "fresh_page (Some sample_market) None None" sample_market ?pt
        "\<lambda>s. Fin 2000000" "Some [sample_sample]" 2000 1000]
    by (simp add: h fresh_page_def)
qed

end
