(* ===== verification/Create_Market.thy ===== *)
theory Create_Market
  imports JS_Value
begin

text \<open>
  The form that proposes a market: \<^verbatim>\<open>apps/web/components/markets/create-market-form.tsx\<close>.
  The text of a field is a list of UTF-16 code units, which is what \<open>length\<close>, the regular expressions
  and \<open>trim\<close> of JavaScript work on. Four functions the form calls and the repository does not contain
  are parameters: \<open>toLowerCase\<close> and \<open>normalize("NFKD")\<close> (the Unicode tables), the \<open>url()\<close> check of
  zod, and \<open>new Date(s).toISOString()\<close>, which depends on the time zone and throws, here \<open>None\<close>, on an
  invalid date. The resolver of react-hook-form keeps the first problem of a field; \<open>None\<close> as its
  message stands for a text the schema leaves to zod.
\<close>

type_synonym text16 = "int list"

definition lit :: "string \<Rightarrow> text16" where
  "lit s = map of_char s"

definition is_space16 :: "int \<Rightarrow> bool" where
  "is_space16 c \<longleftrightarrow>
     (9 \<le> c \<and> c \<le> 13) \<or> c = 32 \<or> c = 0xA0 \<or> c = 0x1680 \<or> (0x2000 \<le> c \<and> c \<le> 0x200A) \<or>
     c = 0x2028 \<or> c = 0x2029 \<or> c = 0x202F \<or> c = 0x205F \<or> c = 0x3000 \<or> c = 0xFEFF"

definition trim16 :: "text16 \<Rightarrow> text16" where
  "trim16 s = rev (dropWhile is_space16 (rev (dropWhile is_space16 s)))"

subsection \<open>Slugs\<close>

definition is_slug_char :: "int \<Rightarrow> bool" where
  "is_slug_char c \<longleftrightarrow> (97 \<le> c \<and> c \<le> 122) \<or> (48 \<le> c \<and> c \<le> 57)"

definition hyphen :: int where "hyphen = 45"

text \<open>\<open>/^[a-z0-9]+(?:-[a-z0-9]+)*$/\<close>, read from the left: the flag says that the previous unit was a
  letter or a digit, so that the match may stop or take a hyphen there.\<close>

fun slug_from :: "bool \<Rightarrow> text16 \<Rightarrow> bool" where
  "slug_from in_word [] \<longleftrightarrow> in_word"
| "slug_from in_word (c # cs) \<longleftrightarrow>
     (if is_slug_char c then slug_from True cs else c = hyphen \<and> in_word \<and> slug_from False cs)"

definition SLUG_PATTERN :: "text16 \<Rightarrow> bool" where
  "SLUG_PATTERN s = slug_from False s"

text \<open>\<open>replace(/[^a-z0-9]+/g, "-")\<close>\<close>

function collapse :: "text16 \<Rightarrow> text16" where
  "collapse [] = []"
| "collapse (c # cs) =
     (if is_slug_char c then c # collapse cs
      else hyphen # collapse (dropWhile (\<lambda>x. \<not> is_slug_char x) cs))"
  by pat_completeness auto
termination
  by (relation "measure length") (auto simp: length_dropWhile_le le_imp_less_Suc)

definition drop_tail_hyphens :: "text16 \<Rightarrow> text16" where
  "drop_tail_hyphens s = rev (dropWhile (\<lambda>c. c = hyphen) (rev s))"

definition strip_hyphens :: "text16 \<Rightarrow> text16" where
  "strip_hyphens s = drop_tail_hyphens (dropWhile (\<lambda>c. c = hyphen) s)"

definition drop_marks :: "text16 \<Rightarrow> text16" where
  "drop_marks s = filter (\<lambda>c. \<not> (0x300 \<le> c \<and> c \<le> 0x36F)) s"

definition slugify :: "(text16 \<Rightarrow> text16) \<Rightarrow> (text16 \<Rightarrow> text16) \<Rightarrow> text16 \<Rightarrow> text16" where
  "slugify lower nfkd q =
     drop_tail_hyphens (take 255 (strip_hyphens (collapse (drop_marks (nfkd (lower q))))))"

subsection \<open>What a slug is made of\<close>

definition apart :: "text16 \<Rightarrow> bool" where
  "apart s \<longleftrightarrow>
     list_all (\<lambda>c. is_slug_char c \<or> c = hyphen) s \<and>
     successively (\<lambda>a b. a \<noteq> hyphen \<or> b \<noteq> hyphen) s"

lemma hyphen_no_slug_char [simp]: "\<not> is_slug_char hyphen"
  by (simp add: is_slug_char_def hyphen_def)

lemma apart_Nil [simp]: "apart []"
  by (simp add: apart_def)

lemma apart_append:
  "apart (xs @ ys) \<Longrightarrow> apart xs \<and> apart ys"
  by (auto simp: apart_def successively_append_iff)

lemma apart_Cons:
  "apart (c # cs) \<longleftrightarrow> (is_slug_char c \<or> c = hyphen) \<and> (cs \<noteq> [] \<longrightarrow> c \<noteq> hyphen \<or> hd cs \<noteq> hyphen) \<and> apart cs"
  by (cases cs) (auto simp: apart_def)

lemma apart_take: "apart s \<Longrightarrow> apart (take n s)"
  using apart_append [of "take n s" "drop n s"] by simp

lemma apart_dropWhile: "apart s \<Longrightarrow> apart (dropWhile P s)"
  using apart_append [of "takeWhile P s" "dropWhile P s"] by simp

lemma drop_tail_prefix:
  obtains k where "s = drop_tail_hyphens s @ replicate k hyphen"
proof -
  have "takeWhile (\<lambda>c. c = hyphen) (rev s) = replicate (length (takeWhile (\<lambda>c. c = hyphen) (rev s))) hyphen"
    by (metis (mono_tags, lifting) replicate_length_same set_takeWhileD)
  then have "rev s = replicate (length (takeWhile (\<lambda>c. c = hyphen) (rev s))) hyphen @ dropWhile (\<lambda>c. c = hyphen) (rev s)"
    by (metis takeWhile_dropWhile_id)
  then have "rev (rev s) = rev (replicate (length (takeWhile (\<lambda>c. c = hyphen) (rev s))) hyphen @ dropWhile (\<lambda>c. c = hyphen) (rev s))"
    by (rule arg_cong)
  then show thesis by (intro that) (simp add: drop_tail_hyphens_def)
qed

lemma apart_drop_tail: "apart s \<Longrightarrow> apart (drop_tail_hyphens s)"
  by (metis apart_append drop_tail_prefix)

lemma last_drop_tail: "drop_tail_hyphens s \<noteq> [] \<Longrightarrow> last (drop_tail_hyphens s) \<noteq> hyphen"
  by (metis (mono_tags, lifting) drop_tail_hyphens_def hd_dropWhile last_rev rev_is_Nil_conv)

lemma hd_drop_tail: "drop_tail_hyphens s \<noteq> [] \<Longrightarrow> hd (drop_tail_hyphens s) = hd s"
  by (metis drop_tail_prefix hd_append2)

lemma apart_collapse:
  "apart (collapse s) \<and> (s \<noteq> [] \<longrightarrow> collapse s \<noteq> [] \<and> (hd (collapse s) = hyphen \<longleftrightarrow> \<not> is_slug_char (hd s)))"
proof (induction s rule: collapse.induct)
  case (2 c cs)
  show ?case
  proof (cases "is_slug_char c")
    case True
    then show ?thesis using "2.IH" (1) by (auto simp: apart_Cons hyphen_def is_slug_char_def)
  next
    case False
    let ?r = "dropWhile (\<lambda>x. \<not> is_slug_char x) cs"
    have r: "?r = [] \<or> is_slug_char (hd ?r)" by (metis (mono_tags, lifting) hd_dropWhile)
    show ?thesis
    proof (cases "?r = []")
      case True
      show ?thesis using False unfolding collapse.simps True by (simp add: apart_Cons)
    next
      case ne: False
      show ?thesis using "2.IH" (2) [OF False] False ne r by (simp add: apart_Cons del: dropWhile_eq_Nil_conv)
    qed
  qed
qed simp

lemma slug_from_apart:
  assumes "apart s" "s \<noteq> [] \<Longrightarrow> last s \<noteq> hyphen" "s = [] \<Longrightarrow> w" "s \<noteq> [] \<Longrightarrow> w \<or> hd s \<noteq> hyphen"
  shows "slug_from w s"
  using assms
proof (induction s arbitrary: w)
  case (Cons c cs)
  show ?case
  proof (cases "is_slug_char c")
    case True
    then show ?thesis using Cons.prems Cons.IH [of True] by (auto simp: apart_Cons split: if_splits)
  next
    case False
    then have "c = hyphen" and "cs \<noteq> []" using Cons.prems by (auto simp: apart_Cons split: if_splits)
    then show ?thesis using Cons.prems Cons.IH [of False] by (auto simp: apart_Cons)
  qed
qed simp

lemma apart_SLUG_PATTERN:
  "apart s \<Longrightarrow> s \<noteq> [] \<Longrightarrow> hd s \<noteq> hyphen \<Longrightarrow> last s \<noteq> hyphen \<Longrightarrow> SLUG_PATTERN s"
  unfolding SLUG_PATTERN_def by (rule slug_from_apart) auto

lemma hd_strip: "strip_hyphens s \<noteq> [] \<Longrightarrow> hd (strip_hyphens s) \<noteq> hyphen"
  by (metis (mono_tags, lifting) drop_tail_hyphens_def dropWhile.simps(1) hd_drop_tail hd_dropWhile
      rev.simps(1) strip_hyphens_def)

lemma length_drop_tail: "length (drop_tail_hyphens s) \<le> length s"
  by (metis drop_tail_hyphens_def length_dropWhile_le length_rev)

text \<open>
  The slug made of a question, whatever the Unicode functions return, is empty or matches the pattern
  the API enforces, with at most 255 characters.\<close>

theorem slugify_valid:
  "slugify lower nfkd q = [] \<or> SLUG_PATTERN (slugify lower nfkd q) \<and> length (slugify lower nfkd q) \<le> 255"
proof (cases "slugify lower nfkd q = []")
  case False
  let ?t = "strip_hyphens (collapse (drop_marks (nfkd (lower q))))"
  have s: "slugify lower nfkd q = drop_tail_hyphens (take 255 ?t)" by (simp add: slugify_def)
  have "apart ?t" by (simp add: strip_hyphens_def apart_drop_tail apart_dropWhile apart_collapse)
  then have a: "apart (slugify lower nfkd q)" by (simp add: s apart_drop_tail apart_take)
  have ne: "take 255 ?t \<noteq> []" using False by (auto simp: s drop_tail_hyphens_def)
  then have "hd (slugify lower nfkd q) = hd ?t" using False by (simp add: s hd_drop_tail hd_take)
  moreover have "hd ?t \<noteq> hyphen" using ne by (intro hd_strip) auto
  ultimately have "SLUG_PATTERN (slugify lower nfkd q)"
    using a False last_drop_tail [of "take 255 ?t"] by (intro apart_SLUG_PATTERN) (auto simp: s)
  moreover have "length (slugify lower nfkd q) \<le> 255"
    using length_drop_tail [of "take 255 ?t"] by (simp add: s)
  ultimately show ?thesis by simp
qed simp

subsection \<open>The values of the form and its schema\<close>

datatype outcome_mode = Yes_No | Custom

record market_values =
  mv_question :: text16
  mv_description :: text16
  mv_category :: text16
  mv_subcategory :: text16
  mv_image_url :: text16
  mv_slug :: text16
  mv_closes_at :: text16
  mv_resolution_criteria :: text16
  mv_resolution_source :: text16
  mv_initial_liquidity :: jsnum
  mv_initial_probability :: "jsnum option"
  mv_outcome_mode :: outcome_mode
  mv_outcomes :: "text16 list"

definition defaultValues :: market_values where
  "defaultValues =
     \<lparr>mv_question = [], mv_description = [], mv_category = [], mv_subcategory = [], mv_image_url = [],
      mv_slug = [], mv_closes_at = [], mv_resolution_criteria = [], mv_resolution_source = [],
      mv_initial_liquidity = Fin 0, mv_initial_probability = None, mv_outcome_mode = Yes_No,
      mv_outcomes = [lit ''Yes'', lit ''No'']\<rparr>"

datatype market_field =
  F_question | F_description | F_category | F_subcategory | F_outcomes | F_image_url | F_slug |
  F_closes_at | F_resolution_criteria | F_resolution_source | F_initial_liquidity | F_initial_probability

type_synonym field_issue = "market_field \<times> string option"

text \<open>Per field: the first check that fails, in the order of the schema.\<close>

definition max_issue :: "market_field \<Rightarrow> nat \<Rightarrow> text16 \<Rightarrow> field_issue list" where
  "max_issue f n t = (if length (trim16 t) \<le> n then [] else [(f, None)])"

definition question_issue :: "text16 \<Rightarrow> field_issue list" where
  "question_issue t =
     (let n = length (trim16 t) in
      if n < 10
      then [(F_question, Some (''Ask a full question '' @ [CHR 0xE2, CHR 0x80, CHR 0x94] @ '' at least 10 characters.''))]
      else if 1000 < n then [(F_question, Some ''Keep the question under 1000 characters.'')] else [])"

definition outcomes_issue :: "text16 list \<Rightarrow> field_issue list" where
  "outcomes_issue rows =
     (case find (\<lambda>r. trim16 r = [] \<or> 100 < length (trim16 r)) rows of
        Some r \<Rightarrow> [(F_outcomes, if trim16 r = [] then Some ''Every outcome needs a name'' else None)]
      | None \<Rightarrow> if 50 < length rows then [(F_outcomes, Some ''50 outcomes is the ceiling.'')] else [])"

definition lower_unit :: "int \<Rightarrow> int" where
  "lower_unit c = (if 65 \<le> c \<and> c \<le> 90 then c + 32 else c)"

definition has_http_scheme :: "text16 \<Rightarrow> bool" where
  "has_http_scheme t \<longleftrightarrow>
     (let l = map lower_unit t in prefix (lit ''http://'') l \<or> prefix (lit ''https://'') l)"

definition image_url_issue :: "(text16 \<Rightarrow> bool) \<Rightarrow> text16 \<Rightarrow> field_issue list" where
  "image_url_issue is_url t =
     (let v = trim16 t in
      if t = [] \<or> (1 \<le> length v \<and> length v \<le> 500 \<and> is_url v \<and> has_http_scheme v) then []
      else [(F_image_url, None)])"

definition slug_issue :: "text16 \<Rightarrow> field_issue list" where
  "slug_issue t =
     (let v = trim16 t in
      if length v < 3 then [(F_slug, Some ''A slug needs at least 3 characters.'')]
      else if 255 < length v then [(F_slug, None)]
      else if \<not> SLUG_PATTERN v then [(F_slug, Some ''Use lowercase letters, numbers, and single hyphens only.'')]
      else [])"

definition closes_at_issue :: "text16 \<Rightarrow> field_issue list" where
  "closes_at_issue t = (if t = [] then [(F_closes_at, Some ''A close date is required.'')] else [])"

text \<open>\<open>z.number()\<close> rejects the infinities and \<open>NaN\<close>, \<open>z.nan()\<close> accepts \<open>NaN\<close> alone.\<close>

definition number_or_nan :: "jsnum \<Rightarrow> bool" where
  "number_or_nan n \<longleftrightarrow> n = NaN \<or> is_finite_num n"

definition liquidity_of :: "jsnum \<Rightarrow> jsnum" where
  "liquidity_of n = (if is_finite_num n \<and> js_lt (Fin 0) n then n else Fin 0)"

definition liquidity_issue :: "jsnum \<Rightarrow> field_issue list" where
  "liquidity_issue n =
     (if \<not> number_or_nan n then [(F_initial_liquidity, None)]
      else if js_lt (liquidity_of n) (Fin 0) then [(F_initial_liquidity, Some ''Liquidity cannot be negative.'')]
      else [])"

definition probability_of :: "jsnum option \<Rightarrow> jsnum option" where
  "probability_of p = (case p of None \<Rightarrow> None | Some n \<Rightarrow> if \<not> is_finite_num n then None else Some n)"

definition probability_issue :: "jsnum option \<Rightarrow> field_issue list" where
  "probability_issue p =
     (case p of
        None \<Rightarrow> []
      | Some n \<Rightarrow>
          if \<not> number_or_nan n then [(F_initial_probability, None)]
          else (case probability_of p of
                  None \<Rightarrow> []
                | Some q \<Rightarrow> if js_le (of_rat_js (1 / 100)) q \<and> js_le q (of_rat_js (99 / 100)) then []
                            else [(F_initial_probability, None)]))"

definition createMarketSchema :: "(text16 \<Rightarrow> bool) \<Rightarrow> market_values \<Rightarrow> field_issue list + market_values" where
  "createMarketSchema is_url v =
     (let issues =
        question_issue (mv_question v) @ max_issue F_description 5000 (mv_description v)
        @ max_issue F_category 100 (mv_category v) @ max_issue F_subcategory 100 (mv_subcategory v)
        @ outcomes_issue (mv_outcomes v) @ image_url_issue is_url (mv_image_url v) @ slug_issue (mv_slug v)
        @ closes_at_issue (mv_closes_at v)
        @ max_issue F_resolution_criteria 2000 (mv_resolution_criteria v)
        @ max_issue F_resolution_source 1000 (mv_resolution_source v)
        @ liquidity_issue (mv_initial_liquidity v) @ probability_issue (mv_initial_probability v)
      in if issues \<noteq> [] then Inl issues
         else Inr (v\<lparr>mv_question := trim16 (mv_question v), mv_description := trim16 (mv_description v),
           mv_category := trim16 (mv_category v), mv_subcategory := trim16 (mv_subcategory v),
           mv_outcomes := map trim16 (mv_outcomes v),
           mv_image_url := (if mv_image_url v = [] then [] else trim16 (mv_image_url v)),
           mv_slug := trim16 (mv_slug v),
           mv_resolution_criteria := trim16 (mv_resolution_criteria v),
           mv_resolution_source := trim16 (mv_resolution_source v),
           mv_initial_liquidity := liquidity_of (mv_initial_liquidity v),
           mv_initial_probability := probability_of (mv_initial_probability v)\<rparr>))"

subsection \<open>What is submitted\<close>

record market_payload =
  mp_question :: text16
  mp_description :: "text16 option"
  mp_category :: "text16 option"
  mp_subcategory :: "text16 option"
  mp_image_url :: "text16 option"
  mp_slug :: text16
  mp_closes_at :: text16
  mp_resolution_criteria :: "text16 option"
  mp_resolution_source :: "text16 option"
  mp_initial_liquidity :: jsnum
  mp_initial_probability :: "jsnum option"
  mp_outcomes :: "(text16 \<times> nat) list"

definition or_undefined :: "text16 \<Rightarrow> text16 option" where
  "or_undefined t = (if t = [] then None else Some t)"

definition outcomes_create :: "market_values \<Rightarrow> (text16 \<times> nat) list" where
  "outcomes_create d =
     (case mv_outcome_mode d of
        Custom \<Rightarrow> map (\<lambda>(i, o'). (trim16 o', i)) (enumerate 0 (mv_outcomes d))
      | Yes_No \<Rightarrow> [(lit ''Yes'', 0), (lit ''No'', 1)])"

definition market_payload_of :: "(text16 \<Rightarrow> text16 option) \<Rightarrow> market_values \<Rightarrow> market_payload option" where
  "market_payload_of to_iso d =
     (case to_iso (mv_closes_at d) of
        None \<Rightarrow> None
      | Some iso_date \<Rightarrow> Some
          \<lparr>mp_question = mv_question d, mp_description = or_undefined (mv_description d),
           mp_category = or_undefined (mv_category d), mp_subcategory = or_undefined (mv_subcategory d),
           mp_image_url = or_undefined (mv_image_url d), mp_slug = mv_slug d, mp_closes_at = iso_date,
           mp_resolution_criteria = or_undefined (mv_resolution_criteria d),
           mp_resolution_source = or_undefined (mv_resolution_source d),
           mp_initial_liquidity = mv_initial_liquidity d, mp_initial_probability = mv_initial_probability d,
           mp_outcomes = outcomes_create d\<rparr>)"

subsection \<open>What the form shows about the outcomes\<close>

definition outcomeProblem :: "(text16 \<Rightarrow> text16) \<Rightarrow> market_values \<Rightarrow> string option" where
  "outcomeProblem lower v =
     (case mv_outcome_mode v of
        Yes_No \<Rightarrow> None
      | Custom \<Rightarrow>
          if length (mv_outcomes v) < 2 then Some ''A market needs at least 2 outcomes.''
          else if list_ex (\<lambda>o'. trim16 o' = []) (mv_outcomes v) then Some ''Every outcome needs a name.''
          else if length (remdups (map (\<lambda>o'. lower (trim16 o')) (mv_outcomes v))) \<noteq> length (mv_outcomes v)
          then Some ''Outcomes cannot share a name.''
          else None)"

definition row_duplicate :: "(text16 \<Rightarrow> text16) \<Rightarrow> text16 list \<Rightarrow> nat \<Rightarrow> bool" where
  "row_duplicate lower rows i =
     (let own = trim16 (rows ! i) in
      if own = [] then True
      else find (\<lambda>j. lower (trim16 (rows ! j)) = lower own) [0..<length rows] = Some i)"

definition previewUrl :: "text16 \<Rightarrow> text16 \<Rightarrow> text16" where
  "previewUrl origin slug = origin @ lit ''/markets/'' @ (if slug = [] then [0x2026] else slug)"

subsection \<open>The form\<close>

datatype form_output =
  Mutate market_payload
| Range_Error
| Toast_Submitted
| Toast_Failed string
| Push text16

record market_form =
  fm_values :: market_values
  fm_slugTouched :: bool
  fm_isPending :: bool
  fm_errors :: "field_issue list"
  fm_out :: "form_output list"

definition initial_form :: market_form where
  "initial_form = \<lparr>fm_values = defaultValues, fm_slugTouched = False, fm_isPending = False, fm_errors = [], fm_out = []\<rparr>"

datatype text_field = Description | Category | Subcategory | Image_Url | Closes_At | Criteria | Source

fun set_text :: "text_field \<Rightarrow> text16 \<Rightarrow> market_values \<Rightarrow> market_values" where
  "set_text Description t v = v\<lparr>mv_description := t\<rparr>"
| "set_text Category t v = v\<lparr>mv_category := t\<rparr>"
| "set_text Subcategory t v = v\<lparr>mv_subcategory := t\<rparr>"
| "set_text Image_Url t v = v\<lparr>mv_image_url := t\<rparr>"
| "set_text Closes_At t v = v\<lparr>mv_closes_at := t\<rparr>"
| "set_text Criteria t v = v\<lparr>mv_resolution_criteria := t\<rparr>"
| "set_text Source t v = v\<lparr>mv_resolution_source := t\<rparr>"

definition set_values :: "(market_values \<Rightarrow> market_values) \<Rightarrow> market_form \<Rightarrow> market_form" where
  "set_values f s = s\<lparr>fm_values := f (fm_values s)\<rparr>"

definition on_question :: "(text16 \<Rightarrow> text16) \<Rightarrow> text16 \<Rightarrow> market_form \<Rightarrow> market_form" where
  "on_question slugify_q t s =
     (let s' = (if fm_slugTouched s then s else set_values (mv_slug_update (\<lambda>_. slugify_q t)) s)
      in set_values (mv_question_update (\<lambda>_. t)) s')"

definition on_slug :: "text16 \<Rightarrow> market_form \<Rightarrow> market_form" where
  "on_slug t s = set_values (mv_slug_update (\<lambda>_. t)) (s\<lparr>fm_slugTouched := True\<rparr>)"

text \<open>The rows and their buttons are rendered in the custom mode only; a disabled button does nothing.\<close>

definition on_edit_outcome :: "nat \<Rightarrow> text16 \<Rightarrow> market_form \<Rightarrow> market_form" where
  "on_edit_outcome i t s =
     (let rows = mv_outcomes (fm_values s) in
      if mv_outcome_mode (fm_values s) = Custom \<and> i < length rows
      then set_values (mv_outcomes_update (\<lambda>_. rows[i := t])) s else s)"

definition on_remove_outcome :: "nat \<Rightarrow> market_form \<Rightarrow> market_form" where
  "on_remove_outcome i s =
     (let rows = mv_outcomes (fm_values s) in
      if mv_outcome_mode (fm_values s) = Custom \<and> i < length rows \<and> \<not> length rows \<le> 2
      then set_values (mv_outcomes_update (\<lambda>_. take i rows @ drop (Suc i) rows)) s else s)"

definition on_add_outcome :: "market_form \<Rightarrow> market_form" where
  "on_add_outcome s =
     (let rows = mv_outcomes (fm_values s) in
      if mv_outcome_mode (fm_values s) = Custom \<and> \<not> 50 \<le> length rows
      then set_values (mv_outcomes_update (\<lambda>_. rows @ [[]])) s else s)"

definition on_submit :: "(text16 \<Rightarrow> bool) \<Rightarrow> (text16 \<Rightarrow> text16 option) \<Rightarrow> market_form \<Rightarrow> market_form" where
  "on_submit is_url to_iso s =
     (if fm_isPending s then s
      else case createMarketSchema is_url (fm_values s) of
        Inl issues \<Rightarrow> s\<lparr>fm_errors := issues\<rparr>
      | Inr d \<Rightarrow>
          (case market_payload_of to_iso d of
             None \<Rightarrow> s\<lparr>fm_errors := [], fm_out := fm_out s @ [Range_Error]\<rparr>
           | Some p \<Rightarrow> s\<lparr>fm_errors := [], fm_isPending := True, fm_out := fm_out s @ [Mutate p]\<rparr>))"

definition on_created :: "text16 option \<Rightarrow> market_form \<Rightarrow> market_form" where
  "on_created slug s =
     s\<lparr>fm_isPending := False,
       fm_out := fm_out s @ [Toast_Submitted,
         Push (case slug of
                 Some (c # cs) \<Rightarrow> lit ''/markets/mine?highlight='' @ c # cs
               | _ \<Rightarrow> lit ''/markets/mine'')]\<rparr>"

definition on_create_failed :: "string \<Rightarrow> market_form \<Rightarrow> market_form" where
  "on_create_failed message s = s\<lparr>fm_isPending := False, fm_out := fm_out s @ [Toast_Failed message]\<rparr>"

definition on_cancel :: "market_form \<Rightarrow> market_form" where
  "on_cancel s = (if fm_isPending s then s else s\<lparr>fm_out := fm_out s @ [Push (lit ''/markets'')]\<rparr>)"

datatype market_form_event =
  Type_Question text16
| Type_Slug text16
| Type_Text text_field text16
| Type_Liquidity jsnum
| Type_Probability jsnum
| Pick_Mode outcome_mode
| Edit_Outcome nat text16
| Remove_Outcome nat
| Add_Outcome
| Submit
| Created "text16 option"
| Create_Failed string
| Cancel

text \<open>What the form takes from outside: the two Unicode functions, the URL check, the date.\<close>

record form_host =
  fh_lower :: "text16 \<Rightarrow> text16"
  fh_nfkd :: "text16 \<Rightarrow> text16"
  fh_is_url :: "text16 \<Rightarrow> bool"
  fh_to_iso :: "text16 \<Rightarrow> text16 option"

fun market_form_step :: "form_host \<Rightarrow> market_form \<Rightarrow> market_form_event \<Rightarrow> market_form" where
  "market_form_step h s (Type_Question t) = on_question (slugify (fh_lower h) (fh_nfkd h)) t s"
| "market_form_step h s (Type_Slug t) = on_slug t s"
| "market_form_step h s (Type_Text f t) = set_values (set_text f t) s"
| "market_form_step h s (Type_Liquidity n) = set_values (mv_initial_liquidity_update (\<lambda>_. n)) s"
| "market_form_step h s (Type_Probability n) = set_values (mv_initial_probability_update (\<lambda>_. Some n)) s"
| "market_form_step h s (Pick_Mode m) = set_values (mv_outcome_mode_update (\<lambda>_. m)) s"
| "market_form_step h s (Edit_Outcome i t) = on_edit_outcome i t s"
| "market_form_step h s (Remove_Outcome i) = on_remove_outcome i s"
| "market_form_step h s Add_Outcome = on_add_outcome s"
| "market_form_step h s Submit = on_submit (fh_is_url h) (fh_to_iso h) s"
| "market_form_step h s (Created slug) = (if fm_isPending s then on_created slug s else s)"
| "market_form_step h s (Create_Failed m) = (if fm_isPending s then on_create_failed m s else s)"
| "market_form_step h s Cancel = on_cancel s"

definition run_form :: "form_host \<Rightarrow> market_form_event list \<Rightarrow> market_form" where
  "run_form h es = foldl (market_form_step h) initial_form es"

fun payloads :: "form_output list \<Rightarrow> market_payload list" where
  "payloads [] = []"
| "payloads (Mutate p # os) = p # payloads os"
| "payloads (_ # os) = payloads os"

subsection \<open>What the form guarantees\<close>

text \<open>What holds of a market the server is asked to create.\<close>

definition payload_ok :: "market_payload \<Rightarrow> bool" where
  "payload_ok p \<longleftrightarrow>
     10 \<le> length (mp_question p) \<and> length (mp_question p) \<le> 1000 \<and>
     3 \<le> length (mp_slug p) \<and> length (mp_slug p) \<le> 255 \<and> SLUG_PATTERN (mp_slug p) \<and>
     2 \<le> length (mp_outcomes p) \<and> length (mp_outcomes p) \<le> 50 \<and>
     map snd (mp_outcomes p) = [0..<length (mp_outcomes p)] \<and>
     list_all (\<lambda>(o', i). o' \<noteq> [] \<and> length o' \<le> 100) (mp_outcomes p) \<and>
     (\<exists>r\<ge>0. mp_initial_liquidity p = Fin r) \<and>
     (case mp_initial_probability p of
        None \<Rightarrow> True
      | Some q \<Rightarrow> js_le (of_rat_js (1 / 100)) q \<and> js_le q (of_rat_js (99 / 100)))"

definition market_form_inv :: "form_host \<Rightarrow> market_form \<Rightarrow> bool" where
  "market_form_inv h s \<longleftrightarrow>
     2 \<le> length (mv_outcomes (fm_values s)) \<and> length (mv_outcomes (fm_values s)) \<le> 50 \<and>
     list_all payload_ok (payloads (fm_out s)) \<and>
     (\<not> fm_slugTouched s \<longrightarrow>
        mv_slug (fm_values s) = slugify (fh_lower h) (fh_nfkd h) (mv_question (fm_values s)) \<or>
        mv_slug (fm_values s) = [] \<and> mv_question (fm_values s) = [])"

lemma payloads_append [simp]: "payloads (a @ b) = payloads a @ payloads b"
  by (induction a rule: payloads.induct) auto

lemma set_text_frame [simp]:
  "mv_outcomes (set_text f t v) = mv_outcomes v" "mv_slug (set_text f t v) = mv_slug v"
  "mv_question (set_text f t v) = mv_question v"
  by (cases f; simp)+

lemma trim16_hd: "trim16 t = trim16 (trim16 t)"
proof -
  have h: "dropWhile is_space16 (trim16 t) = trim16 t" for t
  proof (cases "dropWhile is_space16 t")
    case (Cons c cs)
    then have "\<not> is_space16 c" by (metis hd_dropWhile list.discI list.sel(1))
    then have "trim16 t = c # rev (dropWhile is_space16 (rev cs))"
      by (simp add: trim16_def Cons dropWhile_append dropWhile_eq_self_iff)
    then show ?thesis using \<open>\<not> is_space16 c\<close> by simp
  next
    case Nil
    show ?thesis unfolding trim16_def Nil by simp
  qed
  show ?thesis
    by (subst (2) trim16_def) (simp add: h, simp add: trim16_def dropWhile_idem)
qed

lemma outcomes_issue_none:
  assumes "outcomes_issue rows = []"
  shows "list_all (\<lambda>r. trim16 r \<noteq> [] \<and> length (trim16 r) \<le> 100) rows"
  using assms by (auto simp: outcomes_issue_def find_None_iff list_all_iff not_less split: option.splits if_splits)

lemma liquidity_of_ok: "\<exists>r\<ge>0. liquidity_of n = Fin r"
  by (cases n) (auto simp: liquidity_of_def is_finite_num_def)

lemma schema_payload_ok:
  assumes parsed: "createMarketSchema is_url v = Inr d" and sent: "market_payload_of to_iso d = Some p"
    and rows: "2 \<le> length (mv_outcomes v)" "length (mv_outcomes v) \<le> 50"
  shows "payload_ok p"
proof -
  let ?d = "d"
  have q: "question_issue (mv_question v) = []" and o': "outcomes_issue (mv_outcomes v) = []"
    and s: "slug_issue (mv_slug v) = []" and pr: "probability_issue (mv_initial_probability v) = []"
    and d: "mv_question d = trim16 (mv_question v)" "mv_slug d = trim16 (mv_slug v)"
      "mv_outcomes d = map trim16 (mv_outcomes v)" "mv_initial_liquidity d = liquidity_of (mv_initial_liquidity v)"
      "mv_initial_probability d = probability_of (mv_initial_probability v)"
    using parsed by (auto simp: createMarketSchema_def Let_def split: if_splits)
  have p: "mp_question p = mv_question d" "mp_slug p = mv_slug d" "mp_outcomes p = outcomes_create d"
    "mp_initial_liquidity p = mv_initial_liquidity d" "mp_initial_probability p = mv_initial_probability d"
    using sent by (auto simp: market_payload_of_def split: option.splits)
  have "10 \<le> length (mp_question p) \<and> length (mp_question p) \<le> 1000"
    using q by (auto simp: p d question_issue_def Let_def split: if_splits)
  moreover have "3 \<le> length (mp_slug p) \<and> length (mp_slug p) \<le> 255 \<and> SLUG_PATTERN (mp_slug p)"
    using s by (auto simp: p d slug_issue_def Let_def split: if_splits)
  moreover have "2 \<le> length (mp_outcomes p) \<and> length (mp_outcomes p) \<le> 50"
    using rows by (auto simp: p d outcomes_create_def split: outcome_mode.split)
  moreover have "map snd (mp_outcomes p) = [0..<length (mp_outcomes p)]"
    by (auto simp: p d outcomes_create_def enumerate_eq_zip intro!: nth_equalityI split: outcome_mode.split)
  moreover have "list_all (\<lambda>(o', i). o' \<noteq> [] \<and> length o' \<le> 100) (mp_outcomes p)"
    using outcomes_issue_none [OF o'] trim16_hd
    by (auto simp: p d outcomes_create_def enumerate_eq_zip list_all_iff lit_def dest!: set_zip_rightD split: outcome_mode.split)
  moreover have "\<exists>r\<ge>0. mp_initial_liquidity p = Fin r" by (simp add: p d liquidity_of_ok)
  moreover have "case mp_initial_probability p of None \<Rightarrow> True
      | Some q \<Rightarrow> js_le (of_rat_js (1 / 100)) q \<and> js_le q (of_rat_js (99 / 100))"
    using pr by (auto simp: p d probability_issue_def probability_of_def split: option.splits if_splits)
  ultimately show ?thesis by (simp add: payload_ok_def)
qed

lemma market_form_inv_submit:
  "market_form_inv h s \<Longrightarrow> market_form_inv h (on_submit is_url to_iso s)"
  by (auto simp: market_form_inv_def on_submit_def schema_payload_ok split: sum.split option.split)

lemma market_form_inv_step: "market_form_inv h s \<Longrightarrow> market_form_inv h (market_form_step h s e)"
proof (cases "e = Submit")
  case False
  then show "market_form_inv h s \<Longrightarrow> ?thesis"
    by (cases e) (auto simp: market_form_inv_def on_question_def on_slug_def on_edit_outcome_def on_remove_outcome_def
      on_add_outcome_def on_created_def on_create_failed_def on_cancel_def set_values_def Let_def)
qed (simp add: market_form_inv_submit)

lemma market_form_inv_init: "market_form_inv h initial_form"
  by (simp add: market_form_inv_def initial_form_def defaultValues_def)

interpretation mf: invariant_system initial_form "\<lambda>e s. market_form_step h s e" "market_form_inv h" for h
  by unfold_locales (rule market_form_inv_init, rule market_form_inv_step)

lemma market_form_run: "market_form_inv h (run_form h es)"
  unfolding run_form_def foldl_conv_fold by (rule mf.reachable_inv)

text \<open>C5.
  Whatever is typed, chosen, added and removed, every market the form asks the server to create has a
  question and a slug of the allowed form, between 2 and 50 outcomes with non-blank names of at most 100
  characters, numbered from zero without a gap, a finite liquidity that is not negative, and no starting
  price or one between 0.01 and 0.99.\<close>

theorem created_market_wellformed:
  "list_all payload_ok (payloads (fm_out (run_form h es)))"
  using market_form_run [of h es] by (simp add: market_form_inv_def)

theorem untouched_slug_follows_question:
  "fm_slugTouched (run_form h es) \<or>
   mv_slug (fm_values (run_form h es)) = slugify (fh_lower h) (fh_nfkd h) (mv_question (fm_values (run_form h es))) \<or>
   mv_slug (fm_values (run_form h es)) = [] \<and> mv_question (fm_values (run_form h es)) = []"
  using market_form_run [of h es] by (auto simp: market_form_inv_def)

subsection \<open>What the form does not prevent\<close>

text \<open>In the yes-or-no mode the rows of the named outcomes are neither rendered nor sent, and still
  parsed: a row left blank there stops every submission, and the only problem recorded is one the form
  has no element for.\<close>

definition rendered_issue :: "field_issue \<Rightarrow> bool" where
  "rendered_issue i \<longleftrightarrow>
     fst i \<in> {F_question, F_resolution_criteria, F_image_url, F_closes_at, F_slug}"

theorem hidden_outcome_blocks_submit:
  assumes "mv_outcome_mode (fm_values s) = Yes_No" "list_ex (\<lambda>r. trim16 r = []) (mv_outcomes (fm_values s))"
    "\<not> fm_isPending s"
  shows "payloads (fm_out (market_form_step h s Submit)) = payloads (fm_out s)"
    and "fm_errors (market_form_step h s Submit) \<noteq> []"
    and "outcomeProblem lower (fm_values s) = None"
proof -
  have "outcomes_issue (mv_outcomes (fm_values s)) \<noteq> []"
    using outcomes_issue_none assms(2) by (fastforce simp: list_ex_iff list_all_iff)
  then obtain bad where "createMarketSchema (fh_is_url h) (fm_values s) = Inl bad" "bad \<noteq> []"
    by (auto simp: createMarketSchema_def Let_def)
  then show "payloads (fm_out (market_form_step h s Submit)) = payloads (fm_out s)" "fm_errors (market_form_step h s Submit) \<noteq> []"
    using assms(3) by (auto simp: on_submit_def)
  show "outcomeProblem lower (fm_values s) = None" by (simp add: outcomeProblem_def assms(1))
qed

definition plain_host :: form_host where
  "plain_host = \<lparr>fh_lower = map lower_unit, fh_nfkd = (\<lambda>t. t), fh_is_url = (\<lambda>t. False), fh_to_iso = Some\<rparr>"

definition blank_row_events :: "market_form_event list" where
  "blank_row_events =
     [Type_Question (lit ''Will it rain?''), Type_Text Closes_At (lit ''2030-01-01T00:00''),
      Pick_Mode Custom, Add_Outcome, Pick_Mode Yes_No, Submit]"

lemma blank_row_events_blocked:
  "payloads (fm_out (run_form plain_host blank_row_events)) = [] \<and>
   fm_errors (run_form plain_host blank_row_events) = [(F_outcomes, Some ''Every outcome needs a name'')] \<and>
   \<not> list_ex rendered_issue (fm_errors (run_form plain_host blank_row_events)) \<and>
   mv_slug (fm_values (run_form plain_host blank_row_events)) = lit ''will-it-rain''"
  by code_simp

text \<open>The two names are equal up to case: the form says so, and sends them.\<close>

definition same_name_events :: "market_form_event list" where
  "same_name_events =
     [Type_Question (lit ''Will it rain?''), Type_Text Closes_At (lit ''1999-01-01T00:00''),
      Pick_Mode Custom, Edit_Outcome 1 (lit '' yes''), Submit]"

lemma same_name_events_sent:
  "outcomeProblem (fh_lower plain_host) (fm_values (run_form plain_host same_name_events)) =
     Some ''Outcomes cannot share a name.'' \<and>
   map mp_outcomes (payloads (fm_out (run_form plain_host same_name_events))) =
     [[(lit ''Yes'', 0), (lit ''yes'', 1)]]"
  by code_simp

text \<open>A negative liquidity is not refused: it is replaced by zero before it is checked.\<close>

lemma negative_liquidity_zeroed: "r < 0 \<Longrightarrow> liquidity_issue (Fin r) = [] \<and> liquidity_of (Fin r) = Fin 0"
  by (simp add: liquidity_issue_def liquidity_of_def number_or_nan_def is_finite_num_def)

lemma row_marked_iff:
  assumes "i < length rows" "trim16 (rows ! i) \<noteq> []"
  shows "\<not> row_duplicate lower rows i \<longleftrightarrow>
    (\<exists>j<i. lower (trim16 (rows ! j)) = lower (trim16 (rows ! i)))"
proof -
  let ?P = "\<lambda>j. lower (trim16 (rows ! j)) = lower (trim16 (rows ! i))"
  have "find ?P [0..<length rows] = Some i \<longleftrightarrow> (\<forall>j<i. \<not> ?P j)"
    using assms(1) by (auto simp: find_Some_iff intro!: exI [of _ i])
  then show ?thesis using assms(2) by (auto simp: row_duplicate_def Let_def)
qed

end
