(* ===== verification/Login_Form.thy ===== *)
theory Login_Form
  imports Web_Api
begin

text \<open>
  The sign-in page of the storefront, \<^verbatim>\<open>apps/web/components/auth/login-form.tsx\<close>, with the schemas
  of \<^verbatim>\<open>packages/schemas/src/auth.ts\<close> it validates against.

  The page shows one of three steps; a step that leaves the page loses its state. Requests are answered
  later, in any order: a request under way remembers the instance of the step that sent it, because an
  update of the state of a step that is gone is ignored while a navigation still happens. Whether a
  string is an email address is decided by zod and is the parameter \<open>is_email\<close>. The empty string as an
  error means that none is shown.
\<close>

subsection \<open>Schemas\<close>

definition MIN_PASSWORD_LENGTH :: nat where "MIN_PASSWORD_LENGTH = 1"
definition MAX_PASSWORD_LENGTH :: nat where "MAX_PASSWORD_LENGTH = 128"

text \<open>\<open>/^\d{6}$/\<close>\<close>

definition totpCodeSchema :: "string \<Rightarrow> string option" where
  "totpCodeSchema s =
     (if length s = 6 \<and> list_all is_digit_char s then None
      else Some ''Enter the 6-digit code from your authenticator'')"

definition emailSchema :: "(string \<Rightarrow> bool) \<Rightarrow> string \<Rightarrow> string option" where
  "emailSchema is_email s = (if is_email s then None else Some ''Enter a valid email address'')"

definition passwordSchema :: "string \<Rightarrow> string option" where
  "passwordSchema s =
     (if length s < MIN_PASSWORD_LENGTH then Some ''Password is required''
      else if MAX_PASSWORD_LENGTH < length s then Some ''That password is too long'' else None)"

text \<open>\<open>.optional()\<close> skips \<open>undefined\<close> only.\<close>

definition optionalTotpSchema :: "string option \<Rightarrow> string option" where
  "optionalTotpSchema v = (case v of None \<Rightarrow> None | Some s \<Rightarrow> totpCodeSchema s)"

subsection \<open>State\<close>

record email_step =
  es_email :: string
  es_isLoading :: bool
  es_error :: string
  es_problem :: "string option"

record password_step =
  ps_email :: string
  ps_password :: string
  ps_totp_code :: string
  ps_isLoading :: bool
  ps_globalError :: string
  ps_problems :: "string list"

record magic_step =
  ms_email :: string
  ms_otp :: string
  ms_resendTimer :: int
  ms_error :: string
  ms_partialToken :: string
  ms_in_totp :: bool
  ms_totpCode :: string

definition new_email_step :: email_step where
  "new_email_step = \<lparr>es_email = [], es_isLoading = False, es_error = [], es_problem = None\<rparr>"

definition new_password_step :: "string \<Rightarrow> password_step" where
  "new_password_step email =
     \<lparr>ps_email = email, ps_password = [], ps_totp_code = [], ps_isLoading = False, ps_globalError = [], ps_problems = []\<rparr>"

definition RESEND_COOLDOWN :: int where "RESEND_COOLDOWN = 60"

definition new_magic_step :: "string \<Rightarrow> magic_step" where
  "new_magic_step email =
     \<lparr>ms_email = email, ms_otp = [], ms_resendTimer = RESEND_COOLDOWN, ms_error = [], ms_partialToken = [],
      ms_in_totp = False, ms_totpCode = []\<rparr>"

datatype login_view = Email_View email_step | Password_View password_step | Magic_View magic_step

datatype login_call =
  Send_Code string
| Sign_In string string "string option"
| Verify_Code string string
| Verify_Totp string string
| Resend_Code string

fun login_request :: "login_call \<Rightarrow> auth_call" where
  "login_request (Send_Code email) = magicLinkApi_sendCode email"
| "login_request (Sign_In email pw totp) = authApi_login email pw totp"
| "login_request (Verify_Code email c) = magicLinkApi_verifyCode email c None"
| "login_request (Verify_Totp token c) = magicLinkApi_verifyMagic2fa token c"
| "login_request (Resend_Code email) = magicLinkApi_sendCode email"

datatype login_output = Called login_call | Go string | Toast_Success jsval | Toast_Error string

record login_page =
  lg_next :: "string option"
  lg_view :: login_view
  lg_instance :: nat
  lg_calls :: "(nat \<times> login_call) list"
  lg_out :: "login_output list"

definition mount_login :: "string option \<Rightarrow> login_page" where
  "mount_login nxt = \<lparr>lg_next = nxt, lg_view = Email_View new_email_step, lg_instance = 0, lg_calls = [], lg_out = []\<rparr>"

definition login_next :: "string option \<Rightarrow> string" where
  "login_next param =
     (let rawNext = get_or param ''/portfolio'' in
      if starts_with rawNext ''/'' \<and> \<not> starts_with rawNext ''//'' then rawNext else ''/portfolio'')"

definition forgot_path :: "string \<Rightarrow> string" where
  "forgot_path e = ''/forgot-password'' @ (if e = [] then [] else ''?email='' @ encodeURIComponent e)"

subsection \<open>Operations\<close>

definition out :: "login_output \<Rightarrow> login_page \<Rightarrow> login_page" where
  "out x s = s\<lparr>lg_out := lg_out s @ [x]\<rparr>"

definition show_view :: "login_view \<Rightarrow> login_page \<Rightarrow> login_page" where
  "show_view v s = s\<lparr>lg_view := v, lg_instance := Suc (lg_instance s)\<rparr>"

definition update_view :: "login_view \<Rightarrow> login_page \<Rightarrow> login_page" where
  "update_view v s = s\<lparr>lg_view := v\<rparr>"

definition start_call :: "login_call \<Rightarrow> login_page \<Rightarrow> login_page" where
  "start_call c s = out (Called c) (s\<lparr>lg_calls := lg_calls s @ [(lg_instance s, c)]\<rparr>)"

definition handlePasswordSubmit :: "(string \<Rightarrow> bool) \<Rightarrow> email_step \<Rightarrow> login_page \<Rightarrow> login_page" where
  "handlePasswordSubmit is_email v s =
     (if es_isLoading v then s
      else case emailSchema is_email (es_email v) of
        Some p \<Rightarrow> update_view (Email_View (v\<lparr>es_problem := Some p\<rparr>)) s
      | None \<Rightarrow> show_view (Password_View (new_password_step (es_email v))) s)"

definition handleMagicLinkSubmit :: "(string \<Rightarrow> bool) \<Rightarrow> email_step \<Rightarrow> login_page \<Rightarrow> login_page" where
  "handleMagicLinkSubmit is_email v s =
     (if es_isLoading v then s
      else case emailSchema is_email (es_email v) of
        Some p \<Rightarrow> update_view (Email_View (v\<lparr>es_problem := Some p\<rparr>)) s
      | None \<Rightarrow>
          if \<not> js_includes (es_email v) ''@'' then update_view (Email_View (v\<lparr>es_problem := None\<rparr>)) s
          else start_call (Send_Code (es_email v))
                 (update_view (Email_View (v\<lparr>es_problem := None, es_error := [], es_isLoading := True\<rparr>)) s))"

definition password_problems :: "(string \<Rightarrow> bool) \<Rightarrow> password_step \<Rightarrow> string list" where
  "password_problems is_email v =
     (if is_email (ps_email v) then [] else [''email''])
     @ (if passwordSchema (ps_password v) = None then [] else [''password''])
     @ (if optionalTotpSchema (Some (ps_totp_code v)) = None then [] else [''totp_code''])"

definition password_onSubmit :: "(string \<Rightarrow> bool) \<Rightarrow> password_step \<Rightarrow> login_page \<Rightarrow> login_page" where
  "password_onSubmit is_email v s =
     (if ps_isLoading v then s
      else if password_problems is_email v \<noteq> []
      then update_view (Password_View (v\<lparr>ps_problems := password_problems is_email v\<rparr>)) s
      else start_call
             (Sign_In (ps_email v) (ps_password v) (if ps_totp_code v = [] then None else Some (ps_totp_code v)))
             (update_view (Password_View (v\<lparr>ps_problems := [], ps_globalError := [], ps_isLoading := True\<rparr>)) s))"

definition handleVerifyOtp :: "string \<Rightarrow> magic_step \<Rightarrow> login_page \<Rightarrow> login_page" where
  "handleVerifyOtp c v s =
     (if length c \<noteq> 6 then update_view (Magic_View v) s
      else start_call (Verify_Code (ms_email v) c) (update_view (Magic_View (v\<lparr>ms_error := []\<rparr>)) s))"

definition handleTotp :: "string \<Rightarrow> magic_step \<Rightarrow> login_page \<Rightarrow> login_page" where
  "handleTotp c v s =
     (if length c \<noteq> 6 then update_view (Magic_View v) s
      else if ms_partialToken v = []
      then update_view (Magic_View (v\<lparr>ms_error := ''Session expired '' @ bullet @ '' please request a new code''\<rparr>)) s
      else start_call (Verify_Totp (ms_partialToken v) c) (update_view (Magic_View (v\<lparr>ms_error := []\<rparr>)) s))"

definition handleResend :: "magic_step \<Rightarrow> login_page \<Rightarrow> login_page" where
  "handleResend v s = (if ms_resendTimer v > 0 then s else start_call (Resend_Code (ms_email v)) s)"

subsection \<open>Answers\<close>

definition null_read :: thrown where
  "null_read = TypeErr ''Cannot read properties of null''"

definition nullish_or :: "jsval \<Rightarrow> jsval \<Rightarrow> jsval" where
  "nullish_or v d = (if v = JUndef \<or> v = JNull then d else v)"

text \<open>Typed \<open>string | undefined\<close> by the API.\<close>

definition token_of :: "jsval \<Rightarrow> string" where
  "token_of v = (case v of JStr t \<Rightarrow> t | _ \<Rightarrow> [])"

definition in_email :: "nat \<Rightarrow> (email_step \<Rightarrow> email_step) \<Rightarrow> login_page \<Rightarrow> login_page" where
  "in_email i f s =
     (case lg_view s of Email_View v \<Rightarrow> if lg_instance s = i then update_view (Email_View (f v)) s else s | _ \<Rightarrow> s)"

definition in_password :: "nat \<Rightarrow> (password_step \<Rightarrow> password_step) \<Rightarrow> login_page \<Rightarrow> login_page" where
  "in_password i f s =
     (case lg_view s of Password_View v \<Rightarrow> if lg_instance s = i then update_view (Password_View (f v)) s else s | _ \<Rightarrow> s)"

definition in_magic :: "nat \<Rightarrow> (magic_step \<Rightarrow> magic_step) \<Rightarrow> login_page \<Rightarrow> login_page" where
  "in_magic i f s =
     (case lg_view s of Magic_View v \<Rightarrow> if lg_instance s = i then update_view (Magic_View (f v)) s else s | _ \<Rightarrow> s)"

definition code_sent :: "nat \<Rightarrow> string \<Rightarrow> outcome \<Rightarrow> login_page \<Rightarrow> login_page" where
  "code_sent i email oc s =
     (case oc of
        Resolved _ \<Rightarrow> show_view (Magic_View (new_magic_step email)) s
      | Rejected err \<Rightarrow>
          in_email i (\<lambda>v. v\<lparr>es_error := apiErrorMessage err ''Failed to send code'', es_isLoading := False\<rparr>) s)"

definition signed_in_answer :: "nat \<Rightarrow> outcome \<Rightarrow> login_page \<Rightarrow> login_page" where
  "signed_in_answer i oc s =
     (case oc of
        Resolved _ \<Rightarrow> in_password i (\<lambda>v. v\<lparr>ps_isLoading := False\<rparr>) (out (Go (login_next (lg_next s))) s)
      | Rejected err \<Rightarrow>
          in_password i (\<lambda>v. v\<lparr>ps_globalError := apiErrorMessage err ''Login failed'', ps_isLoading := False\<rparr>) s)"

definition otp_refused :: "nat \<Rightarrow> thrown \<Rightarrow> login_page \<Rightarrow> login_page" where
  "otp_refused i err s =
     in_magic i (\<lambda>v. v\<lparr>ms_error := apiErrorMessage err ''Invalid or expired code'', ms_otp := []\<rparr>) s"

definition otp_answer :: "nat \<Rightarrow> outcome \<Rightarrow> login_page \<Rightarrow> login_page" where
  "otp_answer i oc s =
     (case oc of
        Rejected err \<Rightarrow> otp_refused i err s
      | Resolved res \<Rightarrow>
          (case js_get res ''data'' of
             None \<Rightarrow> otp_refused i null_read s
           | Some d \<Rightarrow>
               if js_truthy (Api_Errors.field d ''requires_2fa'')
               then in_magic i (\<lambda>v. v\<lparr>ms_partialToken := token_of (Api_Errors.field d ''partial_token''), ms_in_totp := True\<rparr>) s
               else out (Go (login_next (lg_next s))) s))"

definition totp_answer :: "nat \<Rightarrow> outcome \<Rightarrow> login_page \<Rightarrow> login_page" where
  "totp_answer i oc s =
     (case oc of
        Resolved _ \<Rightarrow> out (Go (login_next (lg_next s))) s
      | Rejected err \<Rightarrow> in_magic i (\<lambda>v. v\<lparr>ms_error := apiErrorMessage err ''Invalid 2FA code''\<rparr>) s)"

definition resend_answer :: "nat \<Rightarrow> outcome \<Rightarrow> login_page \<Rightarrow> login_page" where
  "resend_answer i oc s =
     (case oc of
        Rejected err \<Rightarrow> out (Toast_Error (apiErrorMessage err ''Failed to resend'')) s
      | Resolved res \<Rightarrow>
          (let s' = in_magic i (\<lambda>v. v\<lparr>ms_resendTimer := RESEND_COOLDOWN\<rparr>) s in
           case js_get res ''message'' of
             None \<Rightarrow> out (Toast_Error (apiErrorMessage null_read ''Failed to resend'')) s'
           | Some m \<Rightarrow> out (Toast_Success (nullish_or m (JStr ''Code resent''))) s'))"

definition answer_call :: "nat \<Rightarrow> login_call \<Rightarrow> outcome \<Rightarrow> login_page \<Rightarrow> login_page" where
  "answer_call i c oc s =
     (case c of
        Send_Code email \<Rightarrow> code_sent i email oc s
      | Sign_In _ _ _ \<Rightarrow> signed_in_answer i oc s
      | Verify_Code _ _ \<Rightarrow> otp_answer i oc s
      | Verify_Totp _ _ \<Rightarrow> totp_answer i oc s
      | Resend_Code _ \<Rightarrow> resend_answer i oc s)"

subsection \<open>Events\<close>

datatype login_event =
  Type_Email string | Continue | Send_Login_Code | Forgot | Create_Account
| Type_Password string | Type_Totp string | Press_Sign_In
| Type_Otp string | Type_Totp_Code string | Press_Resend | Second | Back_To_Otp
| Back
| Answered nat outcome

definition answered :: "nat \<Rightarrow> outcome \<Rightarrow> login_page \<Rightarrow> login_page" where
  "answered k oc s =
     (if k < length (lg_calls s)
      then answer_call (fst (lg_calls s ! k)) (snd (lg_calls s ! k)) oc
             (s\<lparr>lg_calls := take k (lg_calls s) @ drop (Suc k) (lg_calls s)\<rparr>)
      else s)"

fun email_event :: "(string \<Rightarrow> bool) \<Rightarrow> email_step \<Rightarrow> login_page \<Rightarrow> login_event \<Rightarrow> login_page" where
  "email_event is_email v s (Type_Email e) = update_view (Email_View (v\<lparr>es_email := e\<rparr>)) s"
| "email_event is_email v s Continue = handlePasswordSubmit is_email v s"
| "email_event is_email v s Send_Login_Code = handleMagicLinkSubmit is_email v s"
| "email_event is_email v s Forgot = out (Go (forgot_path (es_email v))) s"
| "email_event is_email v s Create_Account = out (Go ''/signup'') s"
| "email_event is_email v s _ = s"

fun password_event :: "(string \<Rightarrow> bool) \<Rightarrow> password_step \<Rightarrow> login_page \<Rightarrow> login_event \<Rightarrow> login_page" where
  "password_event is_email v s (Type_Password p) = update_view (Password_View (v\<lparr>ps_password := p\<rparr>)) s"
| "password_event is_email v s (Type_Totp c) = update_view (Password_View (v\<lparr>ps_totp_code := c\<rparr>)) s"
| "password_event is_email v s Press_Sign_In = password_onSubmit is_email v s"
| "password_event is_email v s Back = show_view (Email_View new_email_step) s"
| "password_event is_email v s Forgot = out (Go (''/forgot-password?email='' @ encodeURIComponent (ps_email v))) s"
| "password_event is_email v s _ = s"

fun magic_event :: "magic_step \<Rightarrow> login_page \<Rightarrow> login_event \<Rightarrow> login_page" where
  "magic_event v s (Type_Otp c) =
     (if ms_in_totp v then s else handleVerifyOtp c (v\<lparr>ms_otp := c\<rparr>) s)"
| "magic_event v s (Type_Totp_Code c) =
     (if ms_in_totp v then handleTotp c (v\<lparr>ms_totpCode := c\<rparr>) s else s)"
| "magic_event v s Press_Resend = (if ms_in_totp v then s else handleResend v s)"
| "magic_event v s Second =
     (if ms_resendTimer v \<le> 0 then s else update_view (Magic_View (v\<lparr>ms_resendTimer := ms_resendTimer v - 1\<rparr>)) s)"
| "magic_event v s Back_To_Otp =
     (if ms_in_totp v
      then update_view (Magic_View (v\<lparr>ms_in_totp := False, ms_totpCode := [], ms_error := []\<rparr>)) s else s)"
| "magic_event v s Back = (if ms_in_totp v then s else show_view (Email_View new_email_step) s)"
| "magic_event v s _ = s"

definition login_step :: "(string \<Rightarrow> bool) \<Rightarrow> login_page \<Rightarrow> login_event \<Rightarrow> login_page" where
  "login_step is_email s e =
     (case e of
        Answered k oc \<Rightarrow> answered k oc s
      | _ \<Rightarrow> (case lg_view s of
                Email_View v \<Rightarrow> email_event is_email v s e
              | Password_View v \<Rightarrow> password_event is_email v s e
              | Magic_View v \<Rightarrow> magic_event v s e))"

definition run_login :: "(string \<Rightarrow> bool) \<Rightarrow> login_page \<Rightarrow> login_event list \<Rightarrow> login_page" where
  "run_login is_email s es = foldl (login_step is_email) s es"

subsection \<open>Facts\<close>

lemma out_simps [simp]:
  "lg_out (out x s) = lg_out s @ [x]" "lg_view (out x s) = lg_view s" "lg_next (out x s) = lg_next s"
  "lg_calls (out x s) = lg_calls s" "lg_instance (out x s) = lg_instance s"
  by (simp_all add: out_def)

lemma show_view_simps [simp]:
  "lg_out (show_view v s) = lg_out s" "lg_view (show_view v s) = v" "lg_next (show_view v s) = lg_next s"
  by (simp_all add: show_view_def)

lemma update_view_simps [simp]:
  "lg_out (update_view v s) = lg_out s" "lg_view (update_view v s) = v" "lg_next (update_view v s) = lg_next s"
  by (simp_all add: update_view_def)

lemma start_call_simps [simp]:
  "lg_out (start_call c s) = lg_out s @ [Called c]" "lg_view (start_call c s) = lg_view s"
  "lg_next (start_call c s) = lg_next s"
  by (simp_all add: start_call_def)

lemma in_step_simps [simp]:
  "lg_out (in_email i f s) = lg_out s" "lg_next (in_email i f s) = lg_next s"
  "lg_out (in_password i g s) = lg_out s" "lg_next (in_password i g s) = lg_next s"
  "lg_out (in_magic i h s) = lg_out s" "lg_next (in_magic i h s) = lg_next s"
  by (auto simp: in_email_def in_password_def in_magic_def split: login_view.split)

lemmas answer_defs = code_sent_def signed_in_answer_def otp_answer_def otp_refused_def totp_answer_def resend_answer_def

lemma answer_call_out:
  "\<exists>xs. lg_out (answer_call i c oc s) = lg_out s @ xs \<and> (\<forall>x\<in>set xs. \<forall>d. x \<noteq> Called d)"
  by (auto simp: answer_call_def answer_defs Let_def split: login_call.split outcome.split option.split)

lemmas step_defs = login_step_def handlePasswordSubmit_def handleMagicLinkSubmit_def password_onSubmit_def
  handleVerifyOtp_def handleTotp_def handleResend_def

text \<open>Every request of the page other than an answer starts in a step that is shown.\<close>

inductive_set started :: "(string \<Rightarrow> bool) \<Rightarrow> login_page \<Rightarrow> login_call set"
  for is_email :: "string \<Rightarrow> bool" and s :: login_page where
  from_email: "lg_view s = Email_View v \<Longrightarrow> Send_Code (es_email v) \<in> started is_email s"
| from_password:
    "lg_view s = Password_View v \<Longrightarrow> password_problems is_email v = [] \<Longrightarrow>
     Sign_In (ps_email v) (ps_password v) (if ps_totp_code v = [] then None else Some (ps_totp_code v)) \<in> started is_email s"
| from_otp: "lg_view s = Magic_View v \<Longrightarrow> length c = 6 \<Longrightarrow> Verify_Code (ms_email v) c \<in> started is_email s"
| from_totp:
    "lg_view s = Magic_View v \<Longrightarrow> length c = 6 \<Longrightarrow> ms_partialToken v \<noteq> [] \<Longrightarrow>
     Verify_Totp (ms_partialToken v) c \<in> started is_email s"
| from_resend:
    "lg_view s = Magic_View v \<Longrightarrow> ms_resendTimer v \<le> 0 \<Longrightarrow> Resend_Code (ms_email v) \<in> started is_email s"

lemma email_event_out:
  assumes "lg_view s = Email_View v"
  shows "\<exists>xs. lg_out (email_event is_email v s e) = lg_out s @ xs \<and> (\<forall>d. Called d \<in> set xs \<longrightarrow> d \<in> started is_email s)"
  using assms by (cases e) (auto simp: step_defs intro: started.intros split: option.split)

lemma password_event_out:
  assumes "lg_view s = Password_View v"
  shows "\<exists>xs. lg_out (password_event is_email v s e) = lg_out s @ xs \<and> (\<forall>d. Called d \<in> set xs \<longrightarrow> d \<in> started is_email s)"
  using assms from_password [OF assms, of is_email] by (cases e) (auto simp: step_defs)

lemma magic_event_out:
  assumes "lg_view s = Magic_View v"
  shows "\<exists>xs. lg_out (magic_event v s e) = lg_out s @ xs \<and> (\<forall>d. Called d \<in> set xs \<longrightarrow> d \<in> started is_email s)"
  using from_otp [OF assms, of _ is_email] from_totp [OF assms, of _ is_email] from_resend [OF assms, of is_email]
  by (cases e) (auto simp: step_defs)

lemma login_step_out:
  "\<exists>xs. lg_out (login_step is_email s e) = lg_out s @ xs \<and> (\<forall>d. Called d \<in> set xs \<longrightarrow> d \<in> started is_email s)"
proof (cases "\<exists>k oc. e = Answered k oc")
  case True
  then obtain k oc where e: "e = Answered k oc" by blast
  show ?thesis
    using answer_call_out [of "fst (lg_calls s ! k)" "snd (lg_calls s ! k)" oc
        "s\<lparr>lg_calls := take k (lg_calls s) @ drop (Suc k) (lg_calls s)\<rparr>"]
    by (auto simp: e login_step_def answered_def)
next
  case False
  then have "login_step is_email s e =
      (case lg_view s of Email_View v \<Rightarrow> email_event is_email v s e
       | Password_View v \<Rightarrow> password_event is_email v s e | Magic_View v \<Rightarrow> magic_event v s e)"
    by (cases e) (auto simp: login_step_def)
  then show ?thesis
    using email_event_out password_event_out magic_event_out by (cases "lg_view s") simp_all
qed

lemma run_login_snoc: "run_login is_email s (es @ [e]) = login_step is_email (run_login is_email s es) e"
  by (simp add: run_login_def)

lemma run_login_Nil [simp]: "run_login is_email s [] = s"
  by (simp add: run_login_def)

lemma mount_login_out [simp]: "lg_out (mount_login nxt) = []" "lg_view (mount_login nxt) = Email_View new_email_step"
  by (simp_all add: mount_login_def)

text \<open>A request that was sent was started in a state the page went through.\<close>

lemma sent_was_started:
  "Called d \<in> set (lg_out (run_login is_email (mount_login nxt) es)) \<Longrightarrow>
   \<exists>es'. prefix es' es \<and> es' \<noteq> es \<and> d \<in> started is_email (run_login is_email (mount_login nxt) es')"
proof (induction es rule: rev_induct)
  case (snoc e es)
  obtain xs where xs: "lg_out (run_login is_email (mount_login nxt) (es @ [e])) = lg_out (run_login is_email (mount_login nxt) es) @ xs"
    "\<And>d. Called d \<in> set xs \<Longrightarrow> d \<in> started is_email (run_login is_email (mount_login nxt) es)"
    using login_step_out [of is_email "run_login is_email (mount_login nxt) es" e] by (auto simp: run_login_snoc)
  show ?case
  proof (cases "Called d \<in> set xs")
    case True
    then show ?thesis using xs(2) by (intro exI [of _ es]) auto
  next
    case False
    then obtain es' where "prefix es' es" "d \<in> started is_email (run_login is_email (mount_login nxt) es')"
      using snoc xs(1) by auto
    then show ?thesis by (intro exI [of _ es']) (auto dest: prefix_length_le)
  qed
qed simp

text \<open>C3.
  The form starts with an empty code, which the schema refuses: \<open>.optional()\<close> lets only a
  missing field through. So every password sign-in that leaves the page carries six digits.\<close>

theorem password_sign_in_needs_code:
  assumes "Called (Sign_In email pw totp) \<in> set (lg_out (run_login is_email (mount_login nxt) es))"
  shows "\<exists>c. totp = Some c \<and> length c = 6 \<and> list_all is_digit_char c"
proof -
  obtain es' where "Sign_In email pw totp \<in> started is_email (run_login is_email (mount_login nxt) es')"
    using sent_was_started [OF assms] by blast
  then obtain v where "password_problems is_email v = []"
    "totp = (if ps_totp_code v = [] then None else Some (ps_totp_code v))"
    by (cases rule: started.cases) auto
  then show ?thesis
    by (auto simp: password_problems_def optionalTotpSchema_def totpCodeSchema_def split: if_splits)
qed

text \<open>The same, as the visitor without a second factor meets it.\<close>

theorem no_second_factor_no_sign_in:
  assumes "lg_view s = Password_View v" "\<not> ps_isLoading v" "ps_totp_code v = []"
  shows "login_step is_email s Press_Sign_In =
    update_view (Password_View (v\<lparr>ps_problems := password_problems is_email v\<rparr>)) s"
    and "''totp_code'' \<in> set (password_problems is_email v)"
  using assms by (simp_all add: login_step_def password_onSubmit_def password_problems_def optionalTotpSchema_def totpCodeSchema_def)

subsection \<open>Leaving the page\<close>

text \<open>C4.
  The page goes on to its target exactly when the client marks the session active: after a
  challenge, a refusal or a new code neither happens.\<close>

theorem login_leaves_iff_session_marked:
  assumes "k < length (lg_calls s)" "sessionState c \<noteq> SActive"
  shows "Go (login_next (lg_next s)) \<in> set (drop (length (lg_out s)) (lg_out (login_step is_email s (Answered k oc)))) \<longleftrightarrow>
    sessionState (after_settled (snd (login_request (snd (lg_calls s ! k)))) oc c) = SActive"
proof -
  let ?s = "s\<lparr>lg_calls := take k (lg_calls s) @ drop (Suc k) (lg_calls s)\<rparr>"
  have step: "login_step is_email s (Answered k oc) = answer_call (fst (lg_calls s ! k)) (snd (lg_calls s ! k)) oc ?s"
    using assms(1) by (simp add: login_step_def answered_def)
  show ?thesis
    using assms(2) unfolding step answer_call_def
    by (cases "snd (lg_calls s ! k)"; cases oc)
      (auto simp: answer_defs Let_def after_settled_def signedIn_def signedInUnlessChallenged_def markSessionActive_def
        magicLinkApi_sendCode_def authApi_login_def magicLinkApi_verifyCode_def magicLinkApi_verifyMagic2fa_def
        split: option.split)
qed

subsection \<open>The cooldown\<close>

definition cooling :: "int \<Rightarrow> login_page \<Rightarrow> bool" where
  "cooling n s = (case lg_view s of Magic_View v \<Rightarrow> n \<le> ms_resendTimer v | _ \<Rightarrow> True)"

lemma cooling_answer:
  assumes "cooling n s" "n \<le> RESEND_COOLDOWN"
  shows "cooling n (answer_call i c oc s)"
  using assms
  by (auto simp: answer_call_def answer_defs cooling_def Let_def in_magic_def in_email_def in_password_def new_magic_step_def
      split: login_call.split outcome.split option.split login_view.splits)

lemma cooling_step:
  assumes "cooling n s" "n \<le> RESEND_COOLDOWN"
  shows "cooling (if e = Second then n - 1 else n) (login_step is_email s e)"
proof (cases "\<exists>k oc. e = Answered k oc")
  case True
  then obtain k oc where e: "e = Answered k oc" by blast
  have "cooling n (s\<lparr>lg_calls := take k (lg_calls s) @ drop (Suc k) (lg_calls s)\<rparr>)" using assms(1) by (simp add: cooling_def)
  then show ?thesis using assms by (auto simp: e login_step_def answered_def cooling_answer)
next
  case False
  show ?thesis
  proof (cases "lg_view s")
    case (Email_View v)
    then show ?thesis using assms False by (cases e) (auto simp: step_defs cooling_def split: option.split)
  next
    case (Password_View v)
    then show ?thesis using assms False by (cases e) (auto simp: step_defs cooling_def)
  next
    case (Magic_View v)
    then show ?thesis using assms False by (cases e) (auto simp: step_defs cooling_def)
  qed
qed

lemma cooling_run:
  "int (count_list es Second) < 60 \<Longrightarrow> cooling (60 - int (count_list es Second)) (run_login is_email (mount_login nxt) es)"
proof (induction es rule: rev_induct)
  case (snoc e es)
  let ?n = "60 - int (count_list es Second)"
  have "cooling ?n (run_login is_email (mount_login nxt) es)" using snoc by (auto split: if_splits)
  from cooling_step [OF this, of e is_email] show ?case
    by (cases "e = Second") (auto simp: run_login_snoc RESEND_COOLDOWN_def algebra_simps)
qed (simp add: cooling_def)

theorem resend_waits_a_minute:
  assumes "count_list es Second < 60"
  shows "Called (Resend_Code email) \<notin> set (lg_out (run_login is_email (mount_login nxt) es))"
proof
  assume "Called (Resend_Code email) \<in> set (lg_out (run_login is_email (mount_login nxt) es))"
  then obtain es' where es': "prefix es' es" "Resend_Code email \<in> started is_email (run_login is_email (mount_login nxt) es')"
    using sent_was_started by blast
  from es'(2) obtain v where "lg_view (run_login is_email (mount_login nxt) es') = Magic_View v" "ms_resendTimer v \<le> 0"
    by (cases rule: started.cases) auto
  moreover have "count_list es' Second \<le> count_list es Second"
    using es'(1) by (auto simp: prefix_def)
  ultimately show False using cooling_run [of es' is_email nxt] assms by (simp add: cooling_def)
qed

text \<open>The button waits for the timer and not for the request: at zero, every press asks for a code.\<close>

lemma resend_not_single:
  assumes "lg_view s = Magic_View v" "\<not> ms_in_totp v" "ms_resendTimer v \<le> 0"
  shows "lg_out (run_login is_email s (replicate n Press_Resend)) = lg_out s @ replicate n (Called (Resend_Code (ms_email v)))"
proof -
  have "lg_view (run_login is_email s (replicate n Press_Resend)) = Magic_View v \<and> ?thesis"
  proof (induction n)
    case (Suc n)
    have "run_login is_email s (replicate (Suc n) Press_Resend) = login_step is_email (run_login is_email s (replicate n Press_Resend)) Press_Resend"
      by (simp add: run_login_snoc [symmetric] replicate_append_same)
    then show ?case using Suc assms by (simp add: login_step_def handleResend_def replicate_append_same)
  qed (simp add: assms)
  then show ?thesis by simp
qed

text \<open>A challenge without a token leaves a step in which no code is ever sent.\<close>

lemma challenge_without_token:
  assumes "lg_view s = Magic_View v" "ms_in_totp v" "ms_partialToken v = []"
  shows "lg_out (login_step is_email s (Type_Totp_Code c)) = lg_out s"
  using assms by (simp add: login_step_def handleTotp_def)

definition sample_code_events :: "login_event list" where
  "sample_code_events =
     [Type_Email ''a@b.c'', Continue, Type_Password ''pw'', Type_Totp ''123456'', Press_Sign_In]"

theorem password_sign_in_needs_code_witness:
  "lg_out (run_login (\<lambda>e. js_includes e ''@'') (mount_login None) sample_code_events) =
     [Called (Sign_In ''a@b.c'' ''pw'' (Some ''123456''))] \<and>
   (\<exists>c. Some ''123456'' = Some c \<and> length c = 6 \<and> list_all is_digit_char c)"
proof -
  have "lg_out (run_login (\<lambda>e. js_includes e ''@'') (mount_login None) sample_code_events) =
     [Called (Sign_In ''a@b.c'' ''pw'' (Some ''123456''))]"
    by code_simp
  then show ?thesis
    using password_sign_in_needs_code [of "''a@b.c''" "''pw''" "Some ''123456''" "\<lambda>e. js_includes e ''@''" None sample_code_events]
    by simp
qed

definition sample_verifying :: login_page where
  "sample_verifying =
     run_login (\<lambda>e. True) (mount_login (Some ''/wallet''))
       [Type_Email ''a@b.c'', Send_Login_Code, Answered 0 (Resolved (JObj [])), Type_Otp ''123456'']"

theorem login_leaves_iff_session_marked_witness:
  "lg_calls sample_verifying = [(1, Verify_Code ''a@b.c'' ''123456'')] \<and>
   Go ''/wallet'' \<in> set (drop (length (lg_out sample_verifying))
     (lg_out (login_step (\<lambda>e. True) sample_verifying (Answered 0 (Resolved (JObj [(''data'', JObj [])])))))) \<and>
   Go ''/wallet'' \<notin> set (drop (length (lg_out sample_verifying))
     (lg_out (login_step (\<lambda>e. True) sample_verifying
        (Answered 0 (Resolved (JObj [(''data'', JObj [(''requires_2fa'', JBool True)])]))))))"
proof -
  have calls: "lg_calls sample_verifying = [(1, Verify_Code ''a@b.c'' ''123456'')]" by code_simp
  have nxt: "login_next (lg_next sample_verifying) = ''/wallet''" by code_simp
  have k: "0 < length (lg_calls sample_verifying)" by (simp add: calls)
  have c: "sessionState (initial_client 0 None) \<noteq> SActive" by (simp add: initial_client_def)
  show ?thesis
    using login_leaves_iff_session_marked [OF k c, of "\<lambda>e. True" "Resolved (JObj [(''data'', JObj [])])"]
      login_leaves_iff_session_marked [OF k c, of "\<lambda>e. True" "Resolved (JObj [(''data'', JObj [(''requires_2fa'', JBool True)])])"]
    by (simp add: calls nxt magicLinkApi_verifyCode_def after_settled_def signedInUnlessChallenged_def
        markSessionActive_def initial_client_def Api_Errors.field_def get_or_def)
qed

end
