(* ===== verification/Account_Forms.thy ===== *)
theory Account_Forms
  imports Login_Form Query_Cache
begin

text \<open>
  The other account pages of the storefront: \<^verbatim>\<open>components/auth/signup-form.tsx\<close>,
  \<^verbatim>\<open>ForgotPasswordClient.tsx\<close>, \<^verbatim>\<open>ResetPasswordClient.tsx\<close> and \<^verbatim>\<open>TwoFactorPageClient.tsx\<close>, with
  their schemas in \<^verbatim>\<open>apps/web/schemas/auth.ts\<close>. An event of a control that is not rendered or is
  disabled leaves the state as it is.
\<close>

subsection \<open>Schemas\<close>

definition is_username_char :: "char \<Rightarrow> bool" where
  "is_username_char c \<longleftrightarrow>
     (let n = of_char c :: int in
      (97 \<le> n \<and> n \<le> 122) \<or> (65 \<le> n \<and> n \<le> 90) \<or> (48 \<le> n \<and> n \<le> 57) \<or> n = 95 \<or> n = 45)"

definition username_ok :: "string \<Rightarrow> bool" where
  "username_ok s \<longleftrightarrow> 3 \<le> length s \<and> length s \<le> 30 \<and> list_all is_username_char s"

definition new_password_ok :: "string \<Rightarrow> bool" where
  "new_password_ok s \<longleftrightarrow> 8 \<le> length s \<and> length s \<le> 128"

definition six_digits :: "string \<Rightarrow> bool" where
  "six_digits s \<longleftrightarrow> length s = 6 \<and> list_all is_digit_char s"

definition registerSchema :: "(string \<Rightarrow> bool) \<Rightarrow> string \<Rightarrow> string \<Rightarrow> string \<Rightarrow> bool" where
  "registerSchema is_email email username pw \<longleftrightarrow> is_email email \<and> username_ok username \<and> new_password_ok pw"

definition resetPasswordSchema :: "(string \<Rightarrow> bool) \<Rightarrow> string \<Rightarrow> string \<Rightarrow> string \<Rightarrow> string \<Rightarrow> bool" where
  "resetPasswordSchema is_email email c newPassword confirmPassword \<longleftrightarrow>
     is_email email \<and> six_digits c \<and> new_password_ok newPassword \<and> newPassword = confirmPassword"

definition enableSchema :: "string \<Rightarrow> string \<Rightarrow> bool" where
  "enableSchema c pw \<longleftrightarrow> six_digits c \<and> 1 \<le> length pw"

subsection \<open>Signing up\<close>

datatype signup_call =
  Register string string string "string option"
| Verify_Email string string
| Resend_Verification string

fun signup_request :: "signup_call \<Rightarrow> auth_call" where
  "signup_request (Register email username pw ref) = registerApi_register email username pw ref"
| "signup_request (Verify_Email email c) = registerApi_verifyEmail email c"
| "signup_request (Resend_Verification email) = registerApi_resendVerification email"

datatype signup_output = Signup_Called signup_call | Signup_Go string | Signup_Toast string | Signup_Failed string

record signup_form =
  su_in_otp :: bool
  su_email :: string
  su_otp :: string
  su_isLoading :: bool
  su_resendTimer :: int
  su_otpError :: string
  su_form_email :: string
  su_form_username :: string
  su_form_password :: string
  su_form_referral :: string
  su_calls :: "signup_call list"
  su_out :: "signup_output list"

definition mount_signup :: "string option \<Rightarrow> signup_form" where
  "mount_signup refParam =
     \<lparr>su_in_otp = False, su_email = [], su_otp = [], su_isLoading = False, su_resendTimer = 0, su_otpError = [],
      su_form_email = [], su_form_username = [], su_form_password = [], su_form_referral = get_or refParam [],
      su_calls = [], su_out = []\<rparr>"

definition signup_put :: "signup_output list \<Rightarrow> signup_form \<Rightarrow> signup_form" where
  "signup_put xs s = s\<lparr>su_out := su_out s @ xs\<rparr>"

definition signup_start :: "signup_call \<Rightarrow> signup_form \<Rightarrow> signup_form" where
  "signup_start c s = signup_put [Signup_Called c] (s\<lparr>su_calls := su_calls s @ [c]\<rparr>)"

definition signup_onSubmit :: "(string \<Rightarrow> bool) \<Rightarrow> signup_form \<Rightarrow> signup_form" where
  "signup_onSubmit is_email s =
     (if su_in_otp s \<or> su_isLoading s then s
      else if \<not> registerSchema is_email (su_form_email s) (su_form_username s) (su_form_password s) then s
      else signup_start
             (Register (su_form_email s) (su_form_username s) (su_form_password s)
               (if su_form_referral s = [] then None else Some (su_form_referral s)))
             (s\<lparr>su_isLoading := True\<rparr>))"

definition signup_handleVerifyOtp :: "string \<Rightarrow> signup_form \<Rightarrow> signup_form" where
  "signup_handleVerifyOtp c s =
     (if length c \<noteq> 6 then s else signup_start (Verify_Email (su_email s) c) (s\<lparr>su_isLoading := True\<rparr>))"

definition signup_handleResend :: "signup_form \<Rightarrow> signup_form" where
  "signup_handleResend s =
     (if \<not> su_in_otp s \<or> 0 < su_resendTimer s then s else signup_start (Resend_Verification (su_email s)) s)"

definition register_answer :: "string \<Rightarrow> outcome \<Rightarrow> signup_form \<Rightarrow> signup_form" where
  "register_answer email oc s =
     (case oc of
        Resolved _ \<Rightarrow> s\<lparr>su_email := email, su_in_otp := True, su_resendTimer := RESEND_COOLDOWN\<rparr>
      | Rejected err \<Rightarrow>
          (signup_put [Signup_Failed (apiErrorMessage err ''Registration failed'')] s)\<lparr>su_isLoading := False\<rparr>)"

definition verify_answer :: "outcome \<Rightarrow> signup_form \<Rightarrow> signup_form" where
  "verify_answer oc s =
     (case oc of
        Resolved _ \<Rightarrow>
          (signup_put [Signup_Toast ''Email verified!'', Signup_Go ''/login''] s)\<lparr>su_isLoading := False\<rparr>
      | Rejected err \<Rightarrow>
          (signup_put [Signup_Failed (apiErrorMessage err ''Invalid or expired code'')] s)
            \<lparr>su_otpError := apiErrorMessage err ''Invalid or expired code'', su_otp := [], su_isLoading := False\<rparr>)"

definition resent_answer :: "outcome \<Rightarrow> signup_form \<Rightarrow> signup_form" where
  "resent_answer oc s =
     (case oc of
        Resolved _ \<Rightarrow>
          (signup_put [Signup_Toast ''Code resent''] s)\<lparr>su_resendTimer := RESEND_COOLDOWN, su_otpError := []\<rparr>
      | Rejected err \<Rightarrow> signup_put [Signup_Failed (apiErrorMessage err ''Failed to resend code'')] s)"

definition signup_answered :: "nat \<Rightarrow> outcome \<Rightarrow> signup_form \<Rightarrow> signup_form" where
  "signup_answered k oc s =
     (if k < length (su_calls s)
      then (let s' = s\<lparr>su_calls := take k (su_calls s) @ drop (Suc k) (su_calls s)\<rparr> in
            case su_calls s ! k of
              Register email _ _ _ \<Rightarrow> register_answer email oc s'
            | Verify_Email _ _ \<Rightarrow> verify_answer oc s'
            | Resend_Verification _ \<Rightarrow> resent_answer oc s')
      else s)"

datatype signup_event =
  SU_Email string | SU_Username string | SU_Password string | SU_Referral string | SU_Create
| SU_Otp string | SU_Resend | SU_Back | SU_Second | SU_Sign_In
| SU_Answered nat outcome

fun signup_step :: "(string \<Rightarrow> bool) \<Rightarrow> signup_form \<Rightarrow> signup_event \<Rightarrow> signup_form" where
  "signup_step is_email s (SU_Email t) = (if su_in_otp s then s else s\<lparr>su_form_email := t\<rparr>)"
| "signup_step is_email s (SU_Username t) = (if su_in_otp s then s else s\<lparr>su_form_username := t\<rparr>)"
| "signup_step is_email s (SU_Password t) = (if su_in_otp s then s else s\<lparr>su_form_password := t\<rparr>)"
| "signup_step is_email s (SU_Referral t) = (if su_in_otp s then s else s\<lparr>su_form_referral := t\<rparr>)"
| "signup_step is_email s SU_Create = signup_onSubmit is_email s"
| "signup_step is_email s (SU_Otp c) = (if su_in_otp s then signup_handleVerifyOtp c (s\<lparr>su_otp := c\<rparr>) else s)"
| "signup_step is_email s SU_Resend = signup_handleResend s"
| "signup_step is_email s SU_Back = (if su_in_otp s then s\<lparr>su_in_otp := False, su_otp := []\<rparr> else s)"
| "signup_step is_email s SU_Second = (if su_resendTimer s \<le> 0 then s else s\<lparr>su_resendTimer := su_resendTimer s - 1\<rparr>)"
| "signup_step is_email s SU_Sign_In = signup_put [Signup_Go ''/login''] s"
| "signup_step is_email s (SU_Answered k oc) = signup_answered k oc s"

definition run_signup :: "(string \<Rightarrow> bool) \<Rightarrow> signup_form \<Rightarrow> signup_event list \<Rightarrow> signup_form" where
  "run_signup is_email s es = foldl (signup_step is_email) s es"

subsection \<open>Forgotten and reset passwords\<close>

record forgot_page =
  fp_email :: string
  fp_sent :: bool
  fp_submittedEmail :: string
  fp_isSending :: bool
  fp_out :: "auth_call list"
  fp_toasts :: "string list"

definition mount_forgot :: "string option \<Rightarrow> forgot_page" where
  "mount_forgot emailParam =
     \<lparr>fp_email = get_or emailParam [], fp_sent = False, fp_submittedEmail = get_or emailParam [],
      fp_isSending = False, fp_out = [], fp_toasts = []\<rparr>"

datatype forgot_event = FP_Email string | FP_Send | FP_Other_Email | FP_Answered outcome

fun forgot_step :: "(string \<Rightarrow> bool) \<Rightarrow> forgot_page \<Rightarrow> forgot_event \<Rightarrow> forgot_page" where
  "forgot_step is_email s (FP_Email e) = (if fp_sent s then s else s\<lparr>fp_email := e\<rparr>)"
| "forgot_step is_email s FP_Send =
     (if fp_sent s \<or> fp_isSending s \<or> \<not> is_email (fp_email s) then s
      else s\<lparr>fp_isSending := True, fp_out := fp_out s @ [passwordApi_forgotPassword (fp_email s)]\<rparr>)"
| "forgot_step is_email s FP_Other_Email = (if fp_sent s then s\<lparr>fp_sent := False\<rparr> else s)"
| "forgot_step is_email s (FP_Answered oc) =
     (if \<not> fp_isSending s then s
      else case oc of
        Resolved _ \<Rightarrow> s\<lparr>fp_isSending := False, fp_sent := True, fp_submittedEmail := fp_email s\<rparr>
      | Rejected err \<Rightarrow> s\<lparr>fp_isSending := False, fp_toasts := fp_toasts s @ [apiErrorMessage err ''Failed to send code'']\<rparr>)"

record reset_page =
  rp_email :: string
  rp_code :: string
  rp_newPassword :: string
  rp_confirmPassword :: string
  rp_isResetting :: bool
  rp_out :: "auth_call list"
  rp_went :: "string list"

definition mount_reset :: "string option \<Rightarrow> string option \<Rightarrow> reset_page" where
  "mount_reset emailParam codeParam =
     \<lparr>rp_email = get_or emailParam [], rp_code = get_or codeParam [], rp_newPassword = [], rp_confirmPassword = [],
      rp_isResetting = False, rp_out = [], rp_went = []\<rparr>"

text \<open>The email field is rendered disabled: no event changes it.\<close>

datatype reset_event = RP_Code string | RP_New string | RP_Confirm string | RP_Reset | RP_Answered outcome

fun reset_step :: "(string \<Rightarrow> bool) \<Rightarrow> reset_page \<Rightarrow> reset_event \<Rightarrow> reset_page" where
  "reset_step is_email s (RP_Code c) = s\<lparr>rp_code := c\<rparr>"
| "reset_step is_email s (RP_New p) = s\<lparr>rp_newPassword := p\<rparr>"
| "reset_step is_email s (RP_Confirm p) = s\<lparr>rp_confirmPassword := p\<rparr>"
| "reset_step is_email s RP_Reset =
     (if rp_isResetting s \<or>
         \<not> resetPasswordSchema is_email (rp_email s) (rp_code s) (rp_newPassword s) (rp_confirmPassword s) then s
      else s\<lparr>rp_isResetting := True,
             rp_out := rp_out s @ [passwordApi_resetPassword (rp_email s) (rp_code s) (rp_newPassword s)]\<rparr>)"
| "reset_step is_email s (RP_Answered oc) =
     (if \<not> rp_isResetting s then s
      else case oc of
        Resolved _ \<Rightarrow> s\<lparr>rp_isResetting := False, rp_went := rp_went s @ [''/login'']\<rparr>
      | Rejected _ \<Rightarrow> s\<lparr>rp_isResetting := False\<rparr>)"

subsection \<open>Two-factor authentication\<close>

datatype two_factor_step = TF_Status | TF_Setup | TF_Enable

datatype two_factor_card = Enabled_Card | Disable_Form | Setup_Card | Start_Card

record two_factor_page =
  tf_enabled :: bool
  tf_setupData :: jsval
  tf_at :: two_factor_step
  tf_code :: string
  tf_form_code :: string
  tf_form_password :: string
  tf_setup_pending :: bool
  tf_enable_pending :: bool
  tf_disable_pending :: bool
  tf_calls :: "auth_call list"
  tf_invalidated :: "query_key list"

definition mount_two_factor :: "bool \<Rightarrow> two_factor_page" where
  "mount_two_factor enabled =
     \<lparr>tf_enabled = enabled, tf_setupData = JNull, tf_at = TF_Status, tf_code = [], tf_form_code = [], tf_form_password = [],
      tf_setup_pending = False, tf_enable_pending = False, tf_disable_pending = False, tf_calls = [], tf_invalidated = []\<rparr>"

definition cards :: "two_factor_page \<Rightarrow> two_factor_card list" where
  "cards s =
     (if tf_enabled s \<and> tf_at s = TF_Status then [Enabled_Card] else [])
     @ (if tf_enabled s \<and> tf_at s = TF_Enable then [Disable_Form] else [])
     @ (if tf_at s = TF_Setup \<and> js_truthy (tf_setupData s) then [Setup_Card] else [])
     @ (if \<not> tf_enabled s \<and> tf_at s = TF_Status then [Start_Card] else [])"

definition form_reset :: "two_factor_page \<Rightarrow> two_factor_page" where
  "form_reset s = s\<lparr>tf_code := [], tf_form_code := [], tf_form_password := []\<rparr>"

datatype two_factor_event =
  TF_Press_Setup | TF_Setup_Answered "jsval option"
| TF_Type_Code string | TF_Type_Password string
| TF_Press_Enable | TF_Enable_Answered bool
| TF_Press_Disable_Step | TF_Press_Disable | TF_Disable_Answered bool
| TF_Cancel
| TF_Status_Arrived bool

definition shown :: "two_factor_card \<Rightarrow> two_factor_page \<Rightarrow> bool" where
  "shown c s \<longleftrightarrow> c \<in> set (cards s)"

fun two_factor_event_step :: "two_factor_page \<Rightarrow> two_factor_event \<Rightarrow> two_factor_page" where
  "two_factor_event_step s TF_Press_Setup =
     (if shown Start_Card s \<and> \<not> tf_setup_pending s
      then s\<lparr>tf_setup_pending := True, tf_calls := tf_calls s @ [twoFactorApi_setup]\<rparr> else s)"
| "two_factor_event_step s (TF_Setup_Answered r) =
     (if \<not> tf_setup_pending s then s
      else case r of
        None \<Rightarrow> s\<lparr>tf_setup_pending := False\<rparr>
      | Some d \<Rightarrow> s\<lparr>tf_setup_pending := False, tf_setupData := d, tf_at := TF_Setup\<rparr>)"
| "two_factor_event_step s (TF_Type_Code c) =
     (if shown Disable_Form s \<or> shown Setup_Card s then s\<lparr>tf_code := c, tf_form_code := c\<rparr> else s)"
| "two_factor_event_step s (TF_Type_Password p) =
     (if shown Disable_Form s \<or> shown Setup_Card s then s\<lparr>tf_form_password := p\<rparr> else s)"
| "two_factor_event_step s TF_Press_Enable =
     (if shown Setup_Card s \<and> \<not> (tf_enable_pending s \<or> length (tf_code s) \<noteq> 6) \<and> enableSchema (tf_form_code s) (tf_form_password s)
      then s\<lparr>tf_enable_pending := True, tf_calls := tf_calls s @ [twoFactorApi_enable (tf_form_code s)]\<rparr> else s)"
| "two_factor_event_step s (TF_Enable_Answered ok) =
     (if \<not> tf_enable_pending s then s
      else if ok
      then form_reset (s\<lparr>tf_enable_pending := False, tf_invalidated := tf_invalidated s @ [key_twoFactorStatus],
             tf_at := TF_Status, tf_setupData := JNull\<rparr>)
      else s\<lparr>tf_enable_pending := False\<rparr>)"
| "two_factor_event_step s TF_Press_Disable_Step = (if shown Enabled_Card s then s\<lparr>tf_at := TF_Enable\<rparr> else s)"
| "two_factor_event_step s TF_Press_Disable =
     (if shown Disable_Form s \<and> \<not> tf_disable_pending s \<and> enableSchema (tf_form_code s) (tf_form_password s)
      then s\<lparr>tf_disable_pending := True, tf_calls := tf_calls s @ [twoFactorApi_disable (tf_form_code s) (tf_form_password s)]\<rparr> else s)"
| "two_factor_event_step s (TF_Disable_Answered ok) =
     (if \<not> tf_disable_pending s then s
      else if ok
      then form_reset (s\<lparr>tf_disable_pending := False, tf_invalidated := tf_invalidated s @ [key_twoFactorStatus]\<rparr>)
      else s\<lparr>tf_disable_pending := False\<rparr>)"
| "two_factor_event_step s TF_Cancel =
     (if shown Setup_Card s then form_reset (s\<lparr>tf_at := TF_Status, tf_setupData := JNull\<rparr>)
      else if shown Disable_Form s then form_reset (s\<lparr>tf_at := TF_Status\<rparr>)
      else s)"
| "two_factor_event_step s (TF_Status_Arrived on) = s\<lparr>tf_enabled := on\<rparr>"

definition run_two_factor :: "two_factor_page \<Rightarrow> two_factor_event list \<Rightarrow> two_factor_page" where
  "run_two_factor s es = foldl two_factor_event_step s es"

subsection \<open>A registration left half-way\<close>

text \<open>A successful registration leaves \<open>isLoading\<close> set, and only an answer to a code clears it. Going
  back to the details from the code step therefore leaves the button disabled, and nothing on the page
  sends a request any more.\<close>

fun signup_calls :: "signup_output list \<Rightarrow> signup_call list" where
  "signup_calls [] = []"
| "signup_calls (Signup_Called c # xs) = c # signup_calls xs"
| "signup_calls (_ # xs) = signup_calls xs"

lemma signup_calls_append [simp]: "signup_calls (a @ b) = signup_calls a @ signup_calls b"
  by (induction a rule: signup_calls.induct) auto

definition signup_dead :: "signup_form \<Rightarrow> bool" where
  "signup_dead s \<longleftrightarrow> \<not> su_in_otp s \<and> su_isLoading s \<and> su_calls s = []"

lemma signup_dead_step:
  "signup_dead s \<Longrightarrow> signup_dead (signup_step is_email s e) \<and> signup_calls (su_out (signup_step is_email s e)) = signup_calls (su_out s)"
  by (cases e)
    (auto simp: signup_dead_def signup_onSubmit_def signup_handleResend_def signup_put_def signup_answered_def)

lemma signup_dead_run:
  "signup_dead s \<Longrightarrow> signup_dead (run_signup is_email s es) \<and> signup_calls (su_out (run_signup is_email s es)) = signup_calls (su_out s)"
proof (induction es arbitrary: s)
  case (Cons e es)
  then show ?case using signup_dead_step [OF Cons.prems, of is_email e] Cons.IH [of "signup_step is_email s e"]
    by (simp add: run_signup_def)
qed (simp add: run_signup_def)

text \<open>  After a successful registration, going back to the details of the sign-up page leaves a form that sends
  nothing any more, whatever is typed and pressed.\<close>

theorem signup_back_is_a_dead_end:
  fixes s :: signup_form and v :: jsval
  assumes "\<not> su_in_otp s" "\<not> su_isLoading s" "su_calls s = []"
    and "registerSchema is_email (su_form_email s) (su_form_username s) (su_form_password s)"
  defines "s' \<equiv> run_signup is_email s [SU_Create, SU_Answered 0 (Resolved v), SU_Back]"
  shows "length (signup_calls (su_out s')) = Suc (length (signup_calls (su_out s)))
    \<and> signup_calls (su_out (run_signup is_email s' es)) = signup_calls (su_out s')"
proof -
  have "signup_dead s' \<and> length (signup_calls (su_out s')) = Suc (length (signup_calls (su_out s)))"
    using assms(1-4)
    by (simp add: s'_def run_signup_def signup_dead_def signup_onSubmit_def signup_start_def signup_put_def
        signup_answered_def register_answer_def)
  then show ?thesis using signup_dead_run by auto
qed

definition sample_details :: signup_form where
  "sample_details =
     run_signup (\<lambda>e. True) (mount_signup (Some ''FRIEND'')) [SU_Email ''a@b.c'', SU_Username ''ann'', SU_Password ''12345678'']"

theorem signup_back_is_a_dead_end_witness:
  "signup_calls (su_out (run_signup (\<lambda>e. True) (run_signup (\<lambda>e. True) sample_details [SU_Create, SU_Answered 0 (Resolved JNull), SU_Back])
      [SU_Email ''b@b.c'', SU_Create])) =
   [Register ''a@b.c'' ''ann'' ''12345678'' (Some ''FRIEND'')]"
proof -
  have "\<not> su_in_otp sample_details \<and> \<not> su_isLoading sample_details \<and> su_calls sample_details = []"
    "registerSchema (\<lambda>e. True) (su_form_email sample_details) (su_form_username sample_details) (su_form_password sample_details)"
    "signup_calls (su_out (run_signup (\<lambda>e. True) sample_details [SU_Create, SU_Answered 0 (Resolved JNull), SU_Back])) =
       [Register ''a@b.c'' ''ann'' ''12345678'' (Some ''FRIEND'')]"
    by code_simp+
  then show ?thesis
    using signup_back_is_a_dead_end [of sample_details "\<lambda>e. True" JNull "[SU_Email ''b@b.c'', SU_Create]"] by simp
qed

subsection \<open>Resetting a password\<close>

definition good_reset :: "string \<Rightarrow> auth_call \<Rightarrow> bool" where
  "good_reset email call \<longleftrightarrow> (\<exists>c p. call = passwordApi_resetPassword email c p \<and> six_digits c \<and> new_password_ok p)"

definition reset_inv :: "(string \<Rightarrow> bool) \<Rightarrow> string \<Rightarrow> reset_page \<Rightarrow> bool" where
  "reset_inv is_email email s \<longleftrightarrow>
     rp_email s = email \<and> list_all (good_reset email) (rp_out s) \<and> (rp_out s = [] \<or> is_email email)"

lemma reset_inv_step: "reset_inv is_email email s \<Longrightarrow> reset_inv is_email email (reset_step is_email s e)"
proof (cases "e = RP_Reset")
  case False
  then show "reset_inv is_email email s \<Longrightarrow> ?thesis" by (cases e) (auto simp: reset_inv_def split: outcome.split)
next
  case True
  have "six_digits c \<Longrightarrow> new_password_ok p \<Longrightarrow> good_reset email (passwordApi_resetPassword email c p)" for c p
    unfolding good_reset_def by blast
  then show "reset_inv is_email email s \<Longrightarrow> ?thesis" by (auto simp: True reset_inv_def resetPasswordSchema_def)
qed

interpretation rp: invariant_system "mount_reset emailParam codeParam" "\<lambda>e s. reset_step is_email s e"
    "reset_inv is_email (get_or emailParam [])" for emailParam codeParam is_email
  by unfold_locales (simp add: reset_inv_def mount_reset_def, rule reset_inv_step)

text \<open>Every request names the address of the link, a code of six digits and a password of an allowed
  length; a page opened without an address sends none, whatever is typed.\<close>

theorem reset_requests:
  "list_all (good_reset (get_or emailParam [])) (rp_out (foldl (reset_step is_email) (mount_reset emailParam codeParam) es)) \<and>
   (rp_out (foldl (reset_step is_email) (mount_reset emailParam codeParam) es) = [] \<or> is_email (get_or emailParam []))"
  using rp.reachable_inv [of is_email emailParam es codeParam] unfolding foldl_conv_fold by (simp add: reset_inv_def)

text \<open>The address shown after a reset was requested is the one in the field when the answer came, not
  the one the request named.\<close>

lemma forgot_shows_field:
  assumes "\<not> fp_sent s" "\<not> fp_isSending s" "is_email (fp_email s)"
  shows "let s' = foldl (forgot_step is_email) s [FP_Send, FP_Email other, FP_Answered (Resolved v)] in
    fp_out s' = fp_out s @ [passwordApi_forgotPassword (fp_email s)] \<and> fp_submittedEmail s' = other"
  using assms by simp

subsection \<open>Two-factor authentication\<close>

text \<open>Disabling leaves the page at its form: once the status says that the second factor is off,
  no card is rendered, and nothing but a reload brings one back.\<close>

definition tf_blank :: "two_factor_page \<Rightarrow> bool" where
  "tf_blank s \<longleftrightarrow> \<not> tf_enabled s \<and> tf_at s = TF_Enable \<and> \<not> tf_setup_pending s \<and> \<not> tf_enable_pending s \<and> \<not> tf_disable_pending s"

lemma tf_blank_cards: "tf_blank s \<Longrightarrow> cards s = []"
  by (simp add: tf_blank_def cards_def)

lemma tf_blank_step:
  "tf_blank s \<Longrightarrow> e \<noteq> TF_Status_Arrived True \<Longrightarrow>
   tf_blank (two_factor_event_step s e) \<and> tf_calls (two_factor_event_step s e) = tf_calls s"
  by (cases e) (auto simp: tf_blank_def shown_def cards_def)

lemma tf_blank_run:
  "tf_blank s \<Longrightarrow> TF_Status_Arrived True \<notin> set es \<Longrightarrow>
   tf_blank (run_two_factor s es) \<and> tf_calls (run_two_factor s es) = tf_calls s"
proof (induction es arbitrary: s)
  case (Cons e es)
  have "tf_blank (two_factor_event_step s e) \<and> tf_calls (two_factor_event_step s e) = tf_calls s"
    using Cons.prems by (intro tf_blank_step) auto
  then show ?case using Cons.IH [of "two_factor_event_step s e"] Cons.prems by (simp add: run_two_factor_def)
qed (simp add: run_two_factor_def)

text \<open>  Once the second factor has been disabled and the status has been read again, the page shows no card
  at all and sends nothing, whatever happens, until a status says that it is on.\<close>

theorem disabling_blanks_the_page:
  assumes "cards s = [Disable_Form]" "\<not> tf_setup_pending s" "\<not> tf_enable_pending s" "\<not> tf_disable_pending s"
    and "enableSchema (tf_form_code s) (tf_form_password s)" "TF_Status_Arrived True \<notin> set es"
  defines "s' \<equiv> run_two_factor s [TF_Press_Disable, TF_Disable_Answered True, TF_Status_Arrived False]"
  shows "tf_calls s' = tf_calls s @ [twoFactorApi_disable (tf_form_code s) (tf_form_password s)]
    \<and> cards (run_two_factor s' es) = [] \<and> tf_calls (run_two_factor s' es) = tf_calls s'"
proof -
  have "tf_enabled s \<and> tf_at s = TF_Enable" using assms(1) by (auto simp: cards_def split: if_splits)
  then have "tf_blank s' \<and> tf_calls s' = tf_calls s @ [twoFactorApi_disable (tf_form_code s) (tf_form_password s)]"
    using assms(2-5) by (simp add: s'_def run_two_factor_def tf_blank_def shown_def cards_def form_reset_def)
  then show ?thesis
    using tf_blank_run [OF _ assms(6)] tf_blank_cards by auto
qed

definition sample_disabling :: two_factor_page where
  "sample_disabling =
     run_two_factor (mount_two_factor True) [TF_Press_Disable_Step, TF_Type_Code ''123456'', TF_Type_Password ''pw'']"

theorem disabling_blanks_the_page_witness:
  "cards sample_disabling = [Disable_Form] \<and>
   cards (run_two_factor (run_two_factor sample_disabling [TF_Press_Disable, TF_Disable_Answered True, TF_Status_Arrived False])
     [TF_Press_Setup, TF_Cancel]) = []"
proof -
  have c: "cards sample_disabling = [Disable_Form]" by code_simp
  have "\<not> tf_setup_pending sample_disabling" "\<not> tf_enable_pending sample_disabling" "\<not> tf_disable_pending sample_disabling"
    "enableSchema (tf_form_code sample_disabling) (tf_form_password sample_disabling)"
    by code_simp+
  then show ?thesis
    using c disabling_blanks_the_page [OF c, of "[TF_Press_Setup, TF_Cancel]"] by simp
qed

text \<open>Enabling asks for the password, requires it and does not send it.\<close>

lemma enable_sends_code_only:
  "shown Setup_Card s \<Longrightarrow> \<not> tf_enable_pending s \<Longrightarrow> enableSchema (tf_form_code s) (tf_form_password s) \<Longrightarrow> length (tf_code s) = 6 \<Longrightarrow>
   tf_calls (two_factor_event_step s TF_Press_Enable) = tf_calls s @ [twoFactorApi_enable (tf_form_code s)]"
  by simp

end
