(* ===== verification/Admin_Session.thy ===== *)
theory Admin_Session
  imports Login_Form Query_Cache
begin

text \<open>
  How an operator gets into the admin app and stays in: the sign-in page
  \<^verbatim>\<open>apps/admin/app/login/AdminLoginClient.tsx\<close>, the identity query \<^verbatim>\<open>apps/admin/hooks/use-auth.ts\<close>, the
  gate of \<^verbatim>\<open>apps/admin/components/admin-shell.tsx\<close> and the sign-out of \<^verbatim>\<open>admin-sidebar.tsx\<close>, on top
  of the shared API client. What the query library hands to the gate (\<open>data\<close>, \<open>isLoading\<close>, \<open>isError\<close>,
  \<open>error\<close>) are arguments; that it keeps the data of the last success when a refetch fails is the library's
  documented behaviour.
\<close>

subsection \<open>Signing in\<close>

definition adminLoginSchema :: "(string \<Rightarrow> bool) \<Rightarrow> string \<Rightarrow> string \<Rightarrow> string option \<Rightarrow> (string \<times> string) list" where
  "adminLoginSchema is_email email pw totp =
     (case emailSchema is_email email of None \<Rightarrow> [] | Some m \<Rightarrow> [(''email'', m)])
     @ (case passwordSchema pw of None \<Rightarrow> [] | Some m \<Rightarrow> [(''password'', m)])
     @ (case optionalTotpSchema totp of None \<Rightarrow> [] | Some m \<Rightarrow> [(''totp_code'', m)])"

definition admin_login_call :: "string \<Rightarrow> string \<Rightarrow> string option \<Rightarrow> auth_call" where
  "admin_login_call email pw totp =
     ((POST, ''/api/v1/auth/login'',
       Some (JObj ([(''email'', JStr email), (''password'', JStr pw)]
         @ (case totp of None \<Rightarrow> [] | Some c \<Rightarrow> [(''totp_code'', JStr c)])))), Plain)"

datatype admin_login_output =
  AL_Called string string "string option" | AL_Cleared | AL_Signed_In | AL_Replace string | AL_Refresh

record admin_login =
  al_next :: "string option"
  al_email :: string
  al_password :: string
  al_code :: string
  al_requiresCode :: bool
  al_error :: "string option"
  al_isPending :: bool
  al_out :: "admin_login_output list"

definition mount_admin_login :: "string option \<Rightarrow> admin_login" where
  "mount_admin_login rawNext =
     \<lparr>al_next = rawNext, al_email = [], al_password = [], al_code = [], al_requiresCode = False, al_error = None,
      al_isPending = False, al_out = []\<rparr>"

definition admin_next :: "string option \<Rightarrow> string" where
  "admin_next rawNext =
     (case rawNext of
        None \<Rightarrow> ''/''
      | Some s \<Rightarrow> if s \<noteq> [] \<and> starts_with s ''/'' \<and> \<not> starts_with s ''//'' then s else ''/'')"

definition sent_code :: "admin_login \<Rightarrow> string option" where
  "sent_code s = (if al_requiresCode s then Some (al_code s) else None)"

definition canSubmit :: "(string \<Rightarrow> bool) \<Rightarrow> admin_login \<Rightarrow> bool" where
  "canSubmit is_email s \<longleftrightarrow> adminLoginSchema is_email (al_email s) (al_password s) (sent_code s) = []"

definition fieldError :: "(string \<Rightarrow> bool) \<Rightarrow> admin_login \<Rightarrow> string \<Rightarrow> string option" where
  "fieldError is_email s f =
     map_of (adminLoginSchema is_email (al_email s) (al_password s) (sent_code s)) f"

definition login_onError :: "thrown \<Rightarrow> admin_login \<Rightarrow> admin_login" where
  "login_onError err s =
     (if apiErrorCode err = JStr ''LOGIN_2FA_REQUIRED'' then s\<lparr>al_requiresCode := True, al_error := None\<rparr>
      else s\<lparr>al_code := (if apiErrorCode err = JStr ''LOGIN_2FA_INVALID'' then [] else al_code s),
             al_error := Some (apiErrorMessage err ''Could not sign in. Check the email and password and try again.'')\<rparr>)"

definition login_onSuccess :: "admin_login \<Rightarrow> admin_login" where
  "login_onSuccess s = s\<lparr>al_out := al_out s @ [AL_Cleared, AL_Signed_In, AL_Replace (admin_next (al_next s)), AL_Refresh]\<rparr>"

text \<open>\<open>mutate()\<close>: the guard inside \<open>mutationFn\<close> rejects before the request is made.\<close>

definition login_mutate :: "admin_login \<Rightarrow> admin_login" where
  "login_mutate s =
     (if al_requiresCode s \<and> length (al_code s) \<noteq> 6 then login_onError (OtherError ''Enter your 6-digit code'') s
      else s\<lparr>al_isPending := True, al_out := al_out s @ [AL_Called (al_email s) (al_password s) (sent_code s)]\<rparr>)"

datatype admin_login_event = AL_Email string | AL_Password string | AL_Code string | AL_Submit | AL_Answered outcome

fun admin_login_step :: "(string \<Rightarrow> bool) \<Rightarrow> admin_login \<Rightarrow> admin_login_event \<Rightarrow> admin_login" where
  "admin_login_step is_email s (AL_Email e) = (if al_isPending s then s else s\<lparr>al_email := e\<rparr>)"
| "admin_login_step is_email s (AL_Password p) = (if al_isPending s then s else s\<lparr>al_password := p\<rparr>)"
| "admin_login_step is_email s (AL_Code c) = (if al_isPending s \<or> \<not> al_requiresCode s then s else s\<lparr>al_code := c\<rparr>)"
| "admin_login_step is_email s AL_Submit =
     (if \<not> canSubmit is_email s \<or> al_isPending s then s else login_mutate (s\<lparr>al_error := None\<rparr>))"
| "admin_login_step is_email s (AL_Answered oc) =
     (if \<not> al_isPending s then s
      else (case oc of
              Resolved _ \<Rightarrow> login_onSuccess (s\<lparr>al_isPending := False\<rparr>)
            | Rejected err \<Rightarrow> login_onError err (s\<lparr>al_isPending := False\<rparr>)))"

definition run_admin_login :: "(string \<Rightarrow> bool) \<Rightarrow> admin_login \<Rightarrow> admin_login_event list \<Rightarrow> admin_login" where
  "run_admin_login is_email s es = foldl (admin_login_step is_email) s es"

subsection \<open>The gate\<close>

definition admin_shouldRetryMe :: "nat \<Rightarrow> thrown \<Rightarrow> bool" where
  "admin_shouldRetryMe failureCount err = (if isUnauthorized err then False else failureCount < 3)"

definition admin_me_call :: auth_call where
  "admin_me_call = ((GET, ''/api/v1/auth/me'', None), Plain)"

text \<open>\<open>"status" in error && error.status === 401\<close>: of what the client throws only an \<open>ApiError\<close> has a
  status.\<close>

definition isUnauthorizedError :: "thrown \<Rightarrow> bool" where
  "isUnauthorizedError err = (case err of ApiError _ st _ _ \<Rightarrow> st = 401 | _ \<Rightarrow> False)"

datatype gate_view = Checking | Gate_Error | No_Access bool | Shell

definition admin_gate :: "bool \<Rightarrow> thrown option \<Rightarrow> jsval \<Rightarrow> gate_view" where
  "admin_gate isLoading err user =
     (if isLoading then Checking
      else if (case err of None \<Rightarrow> False | Some e \<Rightarrow> \<not> isUnauthorizedError e) then Gate_Error
      else if \<not> js_truthy (Api_Errors.field user ''is_admin'') then No_Access (js_truthy user)
      else Shell)"

definition no_access_title :: "bool \<Rightarrow> string" where
  "no_access_title known = (if known then ''Admin access required'' else ''Sign in to continue'')"

definition admin_logout_call :: auth_call where
  "admin_logout_call = ((POST, ''/api/v1/auth/logout'', None), Plain)"

subsection \<open>The second factor is asked for, once\<close>

fun asks_code :: "admin_login_event \<Rightarrow> bool" where
  "asks_code (AL_Answered (Rejected err)) = (apiErrorCode err = JStr ''LOGIN_2FA_REQUIRED'')"
| "asks_code _ = False"

fun call_shape :: "admin_login_output \<Rightarrow> bool" where
  "call_shape (AL_Called e p (Some c)) \<longleftrightarrow> length c = 6 \<and> list_all is_digit_char c"
| "call_shape _ \<longleftrightarrow> True"

fun plain_call :: "admin_login_output \<Rightarrow> bool" where
  "plain_call (AL_Called e p t) \<longleftrightarrow> t = None"
| "plain_call _ \<longleftrightarrow> True"

lemma canSubmit_code: "canSubmit is_email s \<Longrightarrow> al_requiresCode s \<Longrightarrow> length (al_code s) = 6 \<and> list_all is_digit_char (al_code s)"
  by (auto simp: canSubmit_def adminLoginSchema_def sent_code_def optionalTotpSchema_def totpCodeSchema_def split: if_splits)

lemma call_shape_step:
  "list_all call_shape (al_out s) \<Longrightarrow> list_all call_shape (al_out (admin_login_step is_email s e))"
  using canSubmit_code [of is_email s]
  by (cases e) (auto simp: login_mutate_def login_onError_def login_onSuccess_def sent_code_def split: outcome.split)

lemma plain_call_step:
  assumes "list_all plain_call (al_out s)" "\<not> al_requiresCode s" "\<not> asks_code e"
  shows "list_all plain_call (al_out (admin_login_step is_email s e)) \<and> \<not> al_requiresCode (admin_login_step is_email s e)"
  using assms by (cases e) (auto simp: login_mutate_def login_onError_def login_onSuccess_def sent_code_def split: outcome.splits)

interpretation al: invariant_system "mount_admin_login nxt" "\<lambda>e s. admin_login_step is_email s e"
    "\<lambda>s. list_all call_shape (al_out s)" for nxt is_email
  by unfold_locales (simp add: mount_admin_login_def, rule call_shape_step)

lemma plain_call_run:
  "list_all plain_call (al_out s) \<Longrightarrow> \<not> al_requiresCode s \<Longrightarrow> \<not> list_ex asks_code es \<Longrightarrow>
   list_all plain_call (al_out (run_admin_login is_email s es))"
proof (induction es arbitrary: s)
  case (Cons e es)
  then show ?case using plain_call_step [OF Cons.prems(1,2), of e is_email] by (simp add: run_admin_login_def)
qed (simp add: run_admin_login_def)

text \<open>  No code is sent before the server has asked for one; every code that is sent has six digits; and
  once it is asked for, the credentials typed so far are kept, so that the code alone completes the
  sign-in.\<close>

theorem admin_second_factor_on_demand:
  "list_all call_shape (al_out (run_admin_login is_email (mount_admin_login nxt) es)) \<and>
   (\<not> list_ex asks_code es \<longrightarrow> list_all plain_call (al_out (run_admin_login is_email (mount_admin_login nxt) es))) \<and>
   (al_isPending s \<and> apiErrorCode err = JStr ''LOGIN_2FA_REQUIRED'' \<and> is_email (al_email s) \<and>
      passwordSchema (al_password s) = None \<and> length c = 6 \<and> list_all is_digit_char c \<longrightarrow>
    al_out (run_admin_login is_email s [AL_Answered (Rejected err), AL_Code c, AL_Submit]) =
      al_out s @ [AL_Called (al_email s) (al_password s) (Some c)])"
proof -
  have "list_all call_shape (al_out (run_admin_login is_email (mount_admin_login nxt) es))"
    unfolding run_admin_login_def foldl_conv_fold by (rule al.reachable_inv)
  moreover have "\<not> list_ex asks_code es \<longrightarrow> list_all plain_call (al_out (run_admin_login is_email (mount_admin_login nxt) es))"
    by (intro impI plain_call_run) (simp_all add: mount_admin_login_def)
  ultimately show ?thesis
    by (simp add: run_admin_login_def login_onError_def login_mutate_def canSubmit_def adminLoginSchema_def sent_code_def
        emailSchema_def optionalTotpSchema_def totpCodeSchema_def)
qed

definition sample_asked :: admin_login where
  "sample_asked =
     run_admin_login (\<lambda>e. True) (mount_admin_login None) [AL_Email ''a@b.c'', AL_Password ''pw'', AL_Submit]"

theorem admin_second_factor_on_demand_witness:
  "al_out (run_admin_login (\<lambda>e. True) sample_asked
     [AL_Answered (Rejected (ApiError ''code'' 401 JUndef (JStr ''LOGIN_2FA_REQUIRED''))), AL_Code ''123456'', AL_Submit]) =
   [AL_Called ''a@b.c'' ''pw'' None, AL_Called ''a@b.c'' ''pw'' (Some ''123456'')] \<and>
   list_all plain_call (al_out (run_admin_login (\<lambda>e. True) (mount_admin_login None) [AL_Email ''a@b.c'', AL_Password ''pw'', AL_Submit]))"
proof -
  have "al_isPending sample_asked" "passwordSchema (al_password sample_asked) = None"
    "al_email sample_asked = ''a@b.c''" "al_password sample_asked = ''pw''" "al_out sample_asked = [AL_Called ''a@b.c'' ''pw'' None]"
    "length ''123456'' = 6" "list_all is_digit_char ''123456''"
    by code_simp+
  then show ?thesis
    using admin_second_factor_on_demand [of "\<lambda>e. True" None "[AL_Email ''a@b.c'', AL_Password ''pw'', AL_Submit]" sample_asked
        "ApiError ''code'' 401 JUndef (JStr ''LOGIN_2FA_REQUIRED'')" "''123456''"]
    by (simp add: apiErrorCode_def)
qed

subsection \<open>The session after an operator signed in\<close>

text \<open>C6.
  The sign-in of this app tells the client nothing: a session the client holds for dead stays
  dead, and with it the rotation of the access token, while the same answer to the storefront's sign-in
  revives it.\<close>

theorem admin_sign_in_leaves_session_dead:
  assumes "sessionState c = SNone"
  shows "sessionState (call_answered (admin_login_call email pw totp) r c) = SNone
    \<and> refreshSuppressed (call_answered (admin_login_call email pw totp) r c)
    \<and> (res_ok r \<and> rbody r = Some (JObj fs) \<longrightarrow> sessionState (call_answered (authApi_login email pw totp) r c) = SActive)"
proof -
  have cred: "isCredentialEndpoint ''/api/v1/auth/login''"
    by (simp add: isCredentialEndpoint_def CREDENTIAL_PATHS_def js_first_def get_or_def)
  have settles: "\<exists>c'. same_session c c' \<and> call_answered ((POST, ''/api/v1/auth/login'', body), h) r c = after_settled h (call_outcome r) c'"
    for body h using call_settles [of POST r "''/api/v1/auth/login''" c body h] cred by blast
  obtain c' where "same_session c c'" "call_answered (admin_login_call email pw totp) r c = c'"
    using settles [of _ Plain] by (auto simp: admin_login_call_def after_settled_def)
  then have 1: "sessionState (call_answered (admin_login_call email pw totp) r c) = SNone"
    "refreshSuppressed (call_answered (admin_login_call email pw totp) r c)"
    using assms by (simp_all add: same_session_def refreshSuppressed_def)
  obtain c'' where "call_answered (authApi_login email pw totp) r c = signedIn (call_outcome r) c''"
    using settles [of _ SignedIn] by (auto simp: authApi_login_def after_settled_def)
  then have "res_ok r \<and> rbody r = Some (JObj fs) \<longrightarrow> sessionState (call_answered (authApi_login email pw totp) r c) = SActive"
    by (auto simp: signedIn_def call_outcome_def json_outcome_def res_ok_def markSessionActive_def)
  with 1 show ?thesis by simp
qed

text \<open>How the client gets there: the gate's own query is answered 401, the operator follows the link to
  the sign-in page, signs in, and the next expired token is not rotated.\<close>

definition answer :: "int \<Rightarrow> resp" where
  "answer st = \<lparr>rstatus = st, rbody = Some (JObj []), retryAfter = None\<rparr>"

definition operator_returns :: client where
  "operator_returns =
     call_answered ((POST, ''/api/v1/admin/markets/x/approve'', None), Plain) (answer 401)
       (call_answered (admin_login_call ''a@b.c'' ''pw'' None) (answer 200)
         (call_answered admin_me_call (answer 401) (initial_client 0 (Some ''/''))))"

theorem admin_sign_in_leaves_session_dead_witness:
  "sessionState (call_answered admin_me_call (answer 401) (initial_client 0 (Some ''/''))) = SNone \<and>
   sessionState (call_answered (admin_login_call ''a@b.c'' ''pw'' None) (answer 200)
     (call_answered admin_me_call (answer 401) (initial_client 0 (Some ''/'')))) = SNone \<and>
   \<not> list_ex (\<lambda>x. x = RefreshCall) (outputs operator_returns) \<and>
   sessionState (call_answered (authApi_login ''a@b.c'' ''pw'' None) (answer 200)
     (call_answered admin_me_call (answer 401) (initial_client 0 (Some ''/'')))) = SActive"
proof -
  have dead: "sessionState (call_answered admin_me_call (answer 401) (initial_client 0 (Some ''/''))) = SNone" by code_simp
  have "\<not> list_ex (\<lambda>x. x = RefreshCall) (outputs operator_returns)" by code_simp
  moreover have "res_ok (answer 200)" "rbody (answer 200) = Some (JObj [])" by code_simp+
  ultimately show ?thesis
    using dead admin_sign_in_leaves_session_dead [OF dead, of "''a@b.c''" "''pw''" None "answer 200"] by simp
qed

subsection \<open>What the gate lets through\<close>

text \<open>The gate closes on a first answer that is not an admin, and tells a stranger from a visitor; a 403
  is shown as an API that did not respond.\<close>

lemma gate_cases:
  "admin_gate False None user = Shell \<longleftrightarrow> js_truthy (Api_Errors.field user ''is_admin'')"
  "admin_gate False (Some (ApiError m 401 b k)) JUndef = No_Access False"
  "admin_gate False (Some (ApiError m 403 b k)) user = Gate_Error"
  by (simp_all add: admin_gate_def isUnauthorizedError_def Api_Errors.field_def get_or_def)

text \<open>With the user of the last success still in the cache, an answer of 401 does not close it.\<close>

lemma stale_admin_passes_gate:
  assumes "js_truthy (Api_Errors.field user ''is_admin'')"
  shows "admin_gate False (Some (ApiError m 401 b k)) user = Shell"
  using assms by (simp add: admin_gate_def isUnauthorizedError_def)

end
