(* ===== verification/Account_Views.thy ===== *)
theory Account_Views
  imports Query_Cache Display_Format "HOL-Library.Char_ord" "HOL-Library.Multiset"
begin

text \<open>
  What a signed-in trader looks at: the generic table (\<^verbatim>\<open>components/shared/data-table.tsx\<close>), the orders
  page (\<^verbatim>\<open>components/orders/OrdersPageClient.tsx\<close>), the portfolio page (\<^verbatim>\<open>app/(app)/portfolio/page.tsx\<close>)
  and the notification bell (\<^verbatim>\<open>components/notifications/notification-bell.tsx\<close>). A row of the table is the
  JSON object of the API; its cells are primitive values. Frames of the private feed are JSON values, and
  what they do is written on the query cache.
\<close>

subsection \<open>The table\<close>

text \<open>\<open><\<close> of JavaScript on primitive values: two strings are compared as text, anything else as
  numbers.\<close>

definition to_number :: "jsval \<Rightarrow> jsnum" where
  "to_number v =
     (case v of
        JNum n \<Rightarrow> n
      | JStr s \<Rightarrow> string_to_number s
      | JBool b \<Rightarrow> Fin (if b then 1 else 0)
      | JNull \<Rightarrow> Fin 0
      | _ \<Rightarrow> NaN)"

definition js_less :: "jsval \<Rightarrow> jsval \<Rightarrow> bool" where
  "js_less a b =
     (case (a, b) of
        (JStr s, JStr t) \<Rightarrow> ord_class.lexordp s t
      | _ \<Rightarrow> js_lt (to_number a) (to_number b))"

definition nullish :: "jsval \<Rightarrow> bool" where
  "nullish v \<longleftrightarrow> v = JNull \<or> v = JUndef"

datatype sort_dir = Asc | Desc

definition compare_cells :: "sort_dir \<Rightarrow> jsval \<Rightarrow> jsval \<Rightarrow> int" where
  "compare_cells dir av bv =
     (if nullish av \<and> nullish bv then 0
      else if nullish av then (if dir = Asc then 1 else - 1)
      else if nullish bv then (if dir = Asc then - 1 else 1)
      else (let cmp = (if js_less av bv then - 1 else if js_less bv av then 1 else 0)
            in if dir = Asc then cmp else - cmp))"

text \<open>\<open>Array.prototype.sort\<close> is stable: an element goes behind those that do not compare greater.\<close>

fun insert_by :: "('a \<Rightarrow> 'a \<Rightarrow> int) \<Rightarrow> 'a \<Rightarrow> 'a list \<Rightarrow> 'a list" where
  "insert_by cmp x [] = [x]"
| "insert_by cmp x (y # ys) = (if cmp x y \<le> 0 then x # y # ys else y # insert_by cmp x ys)"

definition js_sort :: "('a \<Rightarrow> 'a \<Rightarrow> int) \<Rightarrow> 'a list \<Rightarrow> 'a list" where
  "js_sort cmp xs = foldr (insert_by cmp) xs []"

type_synonym row = jsval

record table_sort =
  sortCol :: "string option"
  sortDir :: "sort_dir option"

definition sorted_rows :: "table_sort \<Rightarrow> string list \<Rightarrow> row list \<Rightarrow> row list" where
  "sorted_rows st columns rows =
     (case (sortCol st, sortDir st) of
        (Some c, Some dir) \<Rightarrow>
          if c = [] \<or> c \<notin> set columns then rows
          else js_sort (\<lambda>a b. compare_cells dir (Api_Errors.field a c) (Api_Errors.field b c)) rows
      | _ \<Rightarrow> rows)"

definition handleSort :: "string \<Rightarrow> table_sort \<Rightarrow> table_sort" where
  "handleSort key st =
     (if sortCol st \<noteq> Some key then \<lparr>sortCol = Some key, sortDir = Some Asc\<rparr>
      else (case sortDir st of
              Some Asc \<Rightarrow> st\<lparr>sortDir := Some Desc\<rparr>
            | Some Desc \<Rightarrow> \<lparr>sortCol = None, sortDir = None\<rparr>
            | None \<Rightarrow> st\<lparr>sortDir := Some Asc\<rparr>))"

definition handleSelectAll :: "(row \<Rightarrow> string) \<Rightarrow> row list \<Rightarrow> bool \<Rightarrow> string list" where
  "handleSelectAll rowKey rows checked = (if checked then remdups (map rowKey rows) else [])"

definition handleSelectRow :: "string list \<Rightarrow> string \<Rightarrow> bool \<Rightarrow> string list" where
  "handleSelectRow selectedIds i checked =
     (if checked then set_add i selectedIds else set_remove i selectedIds)"

definition allSelected :: "(row \<Rightarrow> string) \<Rightarrow> row list \<Rightarrow> string list \<Rightarrow> bool" where
  "allSelected rowKey rows selectedIds \<longleftrightarrow> 0 < length rows \<and> list_all (\<lambda>r. rowKey r \<in> set selectedIds) rows"

definition totalPages :: "(nat \<times> nat) option \<Rightarrow> int" where
  "totalPages pagination =
     (case pagination of None \<Rightarrow> 1 | Some (entries, pageSize) \<Rightarrow> \<lceil>(of_nat entries :: rat) / of_nat pageSize\<rceil>)"

datatype table_view = Failed | Skeleton | Empty_Table | Rows "row list"

definition render_table :: "table_sort \<Rightarrow> string list \<Rightarrow> bool \<Rightarrow> bool \<Rightarrow> row list \<Rightarrow> table_view" where
  "render_table st columns loading failed rows =
     (if failed then Failed
      else if loading \<and> rows = [] then Skeleton
      else if rows = [] then Empty_Table
      else Rows (sorted_rows st columns rows))"

subsection \<open>The orders page\<close>

definition order_columns :: "string list" where
  "order_columns = [''market_question'', ''side'', ''outcome'', ''order_type'', ''price'', ''amount'', ''status'', ''created_at'', ''cancel'']"

definition sortable_columns :: "string list" where
  "sortable_columns = [''market_question'', ''order_type'', ''price'', ''amount'', ''status'', ''created_at'']"

definition STATUS_FILTERS :: "string list" where
  "STATUS_FILTERS = [''all'', ''pending'', ''filled'', ''partial'', ''cancelled'']"

definition orders_filter :: "string \<Rightarrow> jsval" where
  "orders_filter statusFilter = (if statusFilter = ''all'' then JObj [] else JObj [(''status'', JStr statusFilter)])"

definition cancellable :: "row \<Rightarrow> bool" where
  "cancellable r \<longleftrightarrow> Api_Errors.field r ''status'' = JStr ''pending'' \<or> Api_Errors.field r ''status'' = JStr ''partial''"

definition fetch_more :: "bool \<Rightarrow> bool \<Rightarrow> bool \<Rightarrow> bool" where
  "fetch_more isIntersecting hasMore isFetchingNextPage \<longleftrightarrow> isIntersecting \<and> hasMore \<and> \<not> isFetchingNextPage"

definition orders_handleWsMessage :: "matcher \<Rightarrow> jsval \<Rightarrow> cached_query list \<Rightarrow> cached_query list" where
  "orders_handleWsMessage matches payload cache =
     (let (cache', done) = applyPrivateFeedResync matches payload cache in
      if done then cache'
      else if Api_Errors.field payload ''type'' = JStr ''order:fill'' \<or> Api_Errors.field payload ''type'' = JStr ''position:update''
           \<or> Api_Errors.field (Api_Errors.field payload ''notification'') ''type'' = JStr ''order_filled''
      then invalidate_all matches [key_orders None, key_positions] cache'
      else cache')"

text \<open>The dialog of one order: open, the request of \<open>mutateAsync\<close>, its answer.\<close>

record cancel_dialog =
  cd_open :: bool
  cd_calls :: nat
  cd_waiting :: nat

definition handleConfirm :: "cancel_dialog \<Rightarrow> cancel_dialog" where
  "handleConfirm d = (if cd_open d then d\<lparr>cd_calls := Suc (cd_calls d), cd_waiting := Suc (cd_waiting d)\<rparr> else d)"

definition cancel_answered :: "bool \<Rightarrow> cancel_dialog \<Rightarrow> cancel_dialog" where
  "cancel_answered ok d =
     (if cd_waiting d = 0 then d
      else d\<lparr>cd_waiting := cd_waiting d - 1, cd_open := (if ok then False else cd_open d)\<rparr>)"

subsection \<open>The portfolio page\<close>

definition js_sum :: "jsnum list \<Rightarrow> jsnum" where
  "js_sum xs = foldl js_add (Fin 0) xs"

record pnl_figures =
  totalUnrealized :: jsnum
  totalRealized :: jsnum
  totalPnL :: jsnum

text \<open>\<open>n(v)\<close> is \<open>number_or v 0\<close>; a position is its two amounts.\<close>

definition pnl_of :: "(numstr option \<times> numstr option) list \<Rightarrow> pnl_figures" where
  "pnl_of positions =
     (let u = js_sum (map (\<lambda>p. number_or (fst p) (Fin 0)) positions);
          r = js_sum (map (\<lambda>p. number_or (snd p) (Fin 0)) positions)
      in \<lparr>totalUnrealized = u, totalRealized = r, totalPnL = js_add u r\<rparr>)"

definition available_of :: "numstr option \<Rightarrow> jsnum" where
  "available_of v = js_max2 (Fin 0) (number_or v (Fin 0))"

datatype feed_toast = Info jsval jsval | Alert_Triggered

definition portfolio_handleWsMessage :: "matcher \<Rightarrow> jsval \<Rightarrow> cached_query list \<Rightarrow> cached_query list \<times> feed_toast list" where
  "portfolio_handleWsMessage matches payload cache =
     (let (cache', done) = applyPrivateFeedResync matches payload cache;
          ty = Api_Errors.field payload ''type''
      in
      if done then (cache', [])
      else if ty = JStr ''notification''
      then (invalidate_all matches [str_key [''notifications''], key_wallet, key_positions, key_orders None] cache',
            [Info (if nullish (Api_Errors.field payload ''title'') then JStr ''Notification'' else Api_Errors.field payload ''title'')
                  (if nullish (Api_Errors.field payload ''body'') then JStr [] else Api_Errors.field payload ''body'')])
      else if ty = JStr ''alert:triggered'' then (cache', [Alert_Triggered])
      else if ty = JStr ''order:fill'' \<or> ty = JStr ''position:update''
      then (invalidate_all matches [key_positions, key_orders None, key_wallet] cache', [])
      else (cache', []))"

subsection \<open>The bell\<close>

record overlay =
  prepends :: "jsval list"
  readIds :: "jsval list"

record bell =
  bl_overlay :: overlay
  bl_data :: "jsval list"

definition notif_id :: "jsval \<Rightarrow> jsval" where
  "notif_id n = Api_Errors.field n ''id''"

definition notifications :: "bell \<Rightarrow> jsval list" where
  "notifications b =
     filter (\<lambda>n. notif_id n \<notin> set (readIds (bl_overlay b))) (prepends (bl_overlay b) @ bl_data b)"

definition isUnread :: "jsval \<Rightarrow> bool" where
  "isUnread n \<longleftrightarrow> \<not> js_truthy (Api_Errors.field n ''read_at'')"

definition unreadCount :: "bell \<Rightarrow> nat" where
  "unreadCount b = length (filter isUnread (notifications b))"

definition badge_text :: "nat \<Rightarrow> string" where
  "badge_text k = (if 9 < k then ''9+'' else digits_of (int k))"

definition bell_handleWsMessage :: "matcher \<Rightarrow> jsval \<Rightarrow> bell \<Rightarrow> cached_query list \<Rightarrow> bell \<times> cached_query list" where
  "bell_handleWsMessage matches msg b cache =
     (let (cache', done) = applyPrivateFeedResync matches msg cache;
          n = Api_Errors.field msg ''notification''
      in
      if done then (b, cache')
      else if Api_Errors.field msg ''type'' = JStr ''notification'' \<and> js_truthy n
      then (b\<lparr>bl_overlay := (bl_overlay b)\<lparr>prepends := n # prepends (bl_overlay b)\<rparr>\<rparr>,
            invalidateQueries matches (str_key [''notifications'']) cache')
      else (b, cache'))"

definition handleMarkRead :: "jsval \<Rightarrow> bell \<Rightarrow> bell" where
  "handleMarkRead i b = b\<lparr>bl_overlay := (bl_overlay b)\<lparr>readIds := set_add i (readIds (bl_overlay b))\<rparr>\<rparr>"

definition handleMarkAllRead :: "bell \<Rightarrow> bell" where
  "handleMarkAllRead b =
     b\<lparr>bl_overlay := (bl_overlay b)\<lparr>readIds := fold (\<lambda>n. set_add (notif_id n)) (notifications b) (readIds (bl_overlay b))\<rparr>\<rparr>"

subsection \<open>Sorting\<close>

lemma mset_insert_by: "mset (insert_by cmp x ys) = add_mset x (mset ys)"
  by (induction ys) auto

lemma mset_js_sort: "mset (js_sort cmp xs) = mset xs"
  unfolding js_sort_def by (induction xs) (simp_all add: mset_insert_by)

lemma set_insert_by: "set (insert_by cmp x ys) = insert x (set ys)"
  using mset_insert_by [of cmp x ys] by (metis set_mset_add_mset_insert set_mset_mset)

text \<open>What a comparator owes: it is total, its sign is antisymmetric in the weak sense, and it is
  transitive, on the elements sorted.\<close>

definition orders_rows :: "('a \<Rightarrow> 'a \<Rightarrow> int) \<Rightarrow> 'a set \<Rightarrow> bool" where
  "orders_rows cmp A \<longleftrightarrow>
     (\<forall>x\<in>A. \<forall>y\<in>A. cmp x y \<le> 0 \<or> cmp y x \<le> 0) \<and>
     (\<forall>x\<in>A. \<forall>y\<in>A. \<forall>z\<in>A. cmp x y \<le> 0 \<longrightarrow> cmp y z \<le> 0 \<longrightarrow> cmp x z \<le> 0)"

lemma insert_by_sorted:
  assumes "orders_rows cmp A" "insert x (set ys) \<subseteq> A" "sorted_wrt (\<lambda>a b. cmp a b \<le> 0) ys"
  shows "sorted_wrt (\<lambda>a b. cmp a b \<le> 0) (insert_by cmp x ys)"
  using assms(2,3)
proof (induction ys)
  case (Cons y ys)
  have A: "x \<in> A" "y \<in> A" "\<And>z. z \<in> set ys \<Longrightarrow> z \<in> A" using Cons.prems(1) by auto
  have tot: "cmp x y \<le> 0 \<or> cmp y x \<le> 0" using assms(1) A unfolding orders_rows_def by blast
  have tr: "cmp x y \<le> 0 \<Longrightarrow> cmp y z \<le> 0 \<Longrightarrow> cmp x z \<le> 0" if "z \<in> set ys" for z
    using assms(1) A(1,2) A(3) [OF that] unfolding orders_rows_def by blast
  show ?case
  proof (cases "cmp x y \<le> 0")
    case True
    then show ?thesis using Cons.prems tr by auto
  next
    case False
    then show ?thesis using Cons tot by (auto simp: set_insert_by)
  qed
qed simp

lemma js_sort_sorted:
  assumes "orders_rows cmp (set xs)"
  shows "sorted_wrt (\<lambda>a b. cmp a b \<le> 0) (js_sort cmp xs)"
proof -
  have "sorted_wrt (\<lambda>a b. cmp a b \<le> 0) (foldr (insert_by cmp) ys [])" if "set ys \<subseteq> set xs" for ys
    using that
  proof (induction ys)
    case (Cons y ys)
    have "set (foldr (insert_by cmp) ys []) = set ys"
      using mset_js_sort [of cmp ys] by (metis js_sort_def set_mset_mset)
    then show ?case using Cons insert_by_sorted [OF assms] by simp
  qed simp
  then show ?thesis by (simp add: js_sort_def)
qed

definition text_cell :: "jsval \<Rightarrow> bool" where
  "text_cell v \<longleftrightarrow> nullish v \<or> (\<exists>s. v = JStr s)"

lemma nullish_JStr [simp]: "\<not> nullish (JStr s)"
  by (simp add: nullish_def)

lemma compare_text [simp]:
  "compare_cells dir (JStr s) (JStr t) \<le> 0 \<longleftrightarrow> (if dir = Asc then \<not> ord_class.lexordp t s else \<not> ord_class.lexordp s t)"
proof -
  have "ord_class.lexordp t s \<longrightarrow> \<not> ord_class.lexordp s t" using lexordp_antisym [of s t] by blast
  then show ?thesis by (cases dir) (auto simp: compare_cells_def nullish_def js_less_def)
qed

lemma compare_blank [simp]:
  "nullish a \<Longrightarrow> compare_cells dir a (JStr t) \<le> 0 \<longleftrightarrow> dir = Desc"
  "nullish a \<Longrightarrow> compare_cells dir (JStr t) a \<le> 0 \<longleftrightarrow> dir = Asc"
  "nullish a \<Longrightarrow> nullish b \<Longrightarrow> compare_cells dir a b \<le> 0"
  by (cases dir; simp add: compare_cells_def nullish_def)+

lemma text_le_trans: "\<not> ord_class.lexordp y x \<Longrightarrow> \<not> ord_class.lexordp z y \<Longrightarrow> \<not> ord_class.lexordp z x" for x y z :: string
  using lexordp_linear [of x y] lexordp_linear [of y z] lexordp_trans [of z x y] by blast

lemma text_cells_total:
  assumes "text_cell a" "text_cell b"
  shows "compare_cells dir a b \<le> 0 \<or> compare_cells dir b a \<le> 0"
proof -
  have "\<not> (ord_class.lexordp s t \<and> ord_class.lexordp t s)" for s t :: string using lexordp_antisym by blast
  then show ?thesis using assms unfolding text_cell_def by (cases dir) auto
qed

lemma text_cells_trans:
  assumes "text_cell a" "text_cell b" "text_cell c" "compare_cells dir a b \<le> 0" "compare_cells dir b c \<le> 0"
  shows "compare_cells dir a c \<le> 0"
proof (cases "nullish a \<or> nullish c")
  case True
  then show ?thesis using assms unfolding text_cell_def by (cases dir) auto
next
  case False
  then obtain s t where st: "a = JStr s" "c = JStr t" using assms(1,3) unfolding text_cell_def by blast
  show ?thesis
  proof (cases "nullish b")
    case True
    then show ?thesis using assms(4,5) by (cases dir) (simp_all add: st)
  next
    case False
    then obtain u where "b = JStr u" using assms(2) unfolding text_cell_def by blast
    then show ?thesis using assms(4,5) text_le_trans [of u s t] text_le_trans [of u t s] by (cases dir) (auto simp: st)
  qed
qed

lemma text_cells_ordered: "orders_rows (compare_cells dir) {v. text_cell v}"
  unfolding orders_rows_def using text_cells_total text_cells_trans by blast

text \<open>Sorting by a column of text keeps the rows and puts every pair in the order of the comparator;
  blank cells come last when ascending and first when descending.\<close>

theorem table_sort_correct:
  assumes "sortCol st = Some c" "sortDir st = Some dir" "list_all (\<lambda>r. text_cell (Api_Errors.field r c)) rows"
  shows "mset (sorted_rows st columns rows) = mset rows"
    and "c \<noteq> [] \<Longrightarrow> c \<in> set columns \<Longrightarrow>
      sorted_wrt (\<lambda>a b. compare_cells dir (Api_Errors.field a c) (Api_Errors.field b c) \<le> 0) (sorted_rows st columns rows)"
proof -
  let ?cmp = "\<lambda>a b. compare_cells dir (Api_Errors.field a c) (Api_Errors.field b c)"
  show "mset (sorted_rows st columns rows) = mset rows"
    by (simp add: sorted_rows_def mset_js_sort split: option.split prod.split)
  have "orders_rows ?cmp (set rows)"
    using text_cells_ordered [of dir] assms(3) unfolding orders_rows_def list_all_iff by blast
  then show "c \<noteq> [] \<Longrightarrow> c \<in> set columns \<Longrightarrow> sorted_wrt (\<lambda>a b. ?cmp a b \<le> 0) (sorted_rows st columns rows)"
    using assms(1,2) js_sort_sorted by (simp add: sorted_rows_def)
qed

text \<open>The amounts of the API are decimal strings, so the amount column is sorted as text: a hundred
  comes before twenty.\<close>

lemma amounts_sorted_as_text:
  "sorted_rows \<lparr>sortCol = Some ''amount'', sortDir = Some Asc\<rparr> order_columns
     [JObj [(''amount'', JStr ''20'')], JObj [(''amount'', JStr ''100'')]] =
   [JObj [(''amount'', JStr ''100'')], JObj [(''amount'', JStr ''20'')]]"
  by code_simp

theorem table_sort_correct_witness:
  "sorted_wrt (\<lambda>a b. compare_cells Asc (Api_Errors.field a ''amount'') (Api_Errors.field b ''amount'') \<le> 0)
     (sorted_rows \<lparr>sortCol = Some ''amount'', sortDir = Some Asc\<rparr> order_columns
        [JObj [(''amount'', JStr ''20'')], JObj [(''amount'', JStr ''100'')]])"
  by (rule table_sort_correct(2))
    (simp_all add: text_cell_def Api_Errors.field_def get_or_def order_columns_def)

text \<open>Three presses on a header go through both directions and back to the order of the API.\<close>

lemma handleSort_cycle:
  assumes "sortCol st \<noteq> Some k"
  shows "handleSort k st = \<lparr>sortCol = Some k, sortDir = Some Asc\<rparr>"
    and "handleSort k (handleSort k st) = \<lparr>sortCol = Some k, sortDir = Some Desc\<rparr>"
    and "sorted_rows (handleSort k (handleSort k (handleSort k st))) columns rows = rows"
  using assms by (simp_all add: handleSort_def sorted_rows_def)

lemma select_all_selects: "rows \<noteq> [] \<Longrightarrow> allSelected rowKey rows (handleSelectAll rowKey rows True)"
  by (auto simp: allSelected_def handleSelectAll_def list_all_iff)

subsection \<open>What a fill refreshes\<close>

lemma matches_name:
  assumes "prefix_matching matches"
  shows "matches [JStr n] key \<longleftrightarrow> prefix [JStr n] key"
  using assms [unfolded prefix_matching_def, rule_format, of "[n]" key] by simp

text \<open>A fill on the private feed marks the positions, the orders and the wallet as stale when the
  portfolio is open, and nothing else.\<close>

theorem portfolio_fill_marks:
  assumes "prefix_matching matches" "Api_Errors.field payload ''type'' \<in> {JStr ''order:fill'', JStr ''position:update''}"
  shows "portfolio_handleWsMessage matches payload cache =
    (map (\<lambda>e. if \<exists>n \<in> {''positions'', ''orders'', ''wallet''}. prefix [JStr n] (q_key e) then e\<lparr>q_stale := True\<rparr> else e) cache, [])"
  using assms(2)
  by (auto simp: portfolio_handleWsMessage_def applyPrivateFeedResync_def WS_RESYNC_def invalidate_all_map key_defs
      matches_name [OF assms(1)])

text \<open>On the orders page the same frame leaves the wallet as fresh as before the fill.\<close>

theorem orders_fill_leaves_wallet:
  assumes "prefix_matching matches" "Api_Errors.field payload ''type'' = JStr ''order:fill''"
  shows "orders_handleWsMessage matches payload cache =
    map (\<lambda>e. if \<exists>n \<in> {''positions'', ''orders''}. prefix [JStr n] (q_key e) then e\<lparr>q_stale := True\<rparr> else e) cache"
  using assms(2)
  by (auto simp: orders_handleWsMessage_def applyPrivateFeedResync_def WS_RESYNC_def invalidate_all_map key_defs
      matches_name [OF assms(1)])

subsection \<open>The bell\<close>

text \<open>A notification that arrives on the feed is shown at once and fetched again; when the list comes
  back with it, it is listed and counted twice.\<close>

theorem notification_counted_twice:
  fixes matches :: matcher and cache :: "cached_query list"
  assumes "Api_Errors.field msg ''type'' = JStr ''notification''" "js_truthy (Api_Errors.field msg ''notification'')"
    and "isUnread (Api_Errors.field msg ''notification'')"
    and "notif_id (Api_Errors.field msg ''notification'') \<notin> set (readIds (bl_overlay b))"
  defines "b1 \<equiv> fst (bell_handleWsMessage matches msg b cache)"
  shows "unreadCount b1 = Suc (unreadCount b)"
    and "unreadCount (b1\<lparr>bl_data := Api_Errors.field msg ''notification'' # bl_data b\<rparr>) = Suc (Suc (unreadCount b))"
  using assms(1-4)
  by (simp_all add: b1_def bell_handleWsMessage_def applyPrivateFeedResync_def WS_RESYNC_def unreadCount_def notifications_def)

lemma readIds_all: "set (fold (\<lambda>n. set_add (notif_id n)) ns rs) = set rs \<union> notif_id ` set ns"
  by (induction ns arbitrary: rs) (auto simp: set_add_def)

text \<open>Marking one or all as read takes them off the list, without waiting for the server.\<close>

theorem marked_read_is_hidden:
  "n \<in> set (notifications b) \<Longrightarrow> notif_id n \<notin> notif_id ` set (notifications (handleMarkRead (notif_id n) b))"
  "notifications (handleMarkAllRead b) = []"
proof -
  show "n \<in> set (notifications b) \<Longrightarrow> notif_id n \<notin> notif_id ` set (notifications (handleMarkRead (notif_id n) b))"
    by (auto simp: notifications_def handleMarkRead_def set_add_def)
  have "notif_id x \<in> set (readIds (bl_overlay (handleMarkAllRead b)))" if "x \<in> set (prepends (bl_overlay b) @ bl_data b)" for x
    using that by (auto simp: handleMarkAllRead_def readIds_all notifications_def)
  then show "notifications (handleMarkAllRead b) = []"
    by (simp add: notifications_def [of "handleMarkAllRead b"] filter_empty_conv) (simp add: handleMarkAllRead_def)
qed

text \<open>The confirm button of the cancel dialog is not disabled while its request is under way.\<close>

lemma cancel_sent_twice: "cd_open d \<Longrightarrow> cd_calls (handleConfirm (handleConfirm d)) = Suc (Suc (cd_calls d))"
  by (simp add: handleConfirm_def)

end
