(* ===== verification/Moderation.thy ===== *)
theory Moderation
  imports Step_Up Admin_Api Admin_Treasury
begin

text \<open>
  The lists of the admin app and the decisions made on them: the page controls of
  \<^verbatim>\<open>apps/admin/components/pagination.tsx\<close>, the market queue of
  \<^verbatim>\<open>apps/admin/app/(admin)/markets/AdminMarketsClient.tsx\<close> with \<^verbatim>\<open>bulk-approve-bar.tsx\<close> and
  \<^verbatim>\<open>reject-market-dialog.tsx\<close>, the users of \<^verbatim>\<open>users/AdminUsersClient.tsx\<close> with \<^verbatim>\<open>ban-dialog.tsx\<close>, the
  trails of \<^verbatim>\<open>audit/AdminAuditClient.tsx\<close>, and the schemas of \<^verbatim>\<open>apps/admin/schemas/privileged.ts\<close> they
  validate with. The dispute queue has its own theory.

  The rows of a list are the answer of its query and arrive as an event. A request is answered later, in
  any order with what the operator does. The three dialogs that ask for a text have the same shape
  and differ in the schema, the limits, the request and the messages, which a record holds. A field
  with \<open>maxLength\<close> keeps at most that many characters of what is typed. Messages with a dash are
  written in UTF-8.
\<close>

subsection \<open>Schemas\<close>

definition em_dash :: string where "em_dash = [CHR 0xE2, CHR 0x80, CHR 0x94]"

text \<open>The first problem of a trimmed text with a least and a greatest length.\<close>

definition trimmed_between :: "nat \<Rightarrow> string \<Rightarrow> nat \<Rightarrow> string \<Rightarrow> string \<Rightarrow> string option" where
  "trimmed_between least too_short most too_long s =
     (let n = length (js_trim s) in
      if n < least then Some too_short else if most < n then Some too_long else None)"

definition banReasonSchema :: "string \<Rightarrow> string option" where
  "banReasonSchema =
     trimmed_between 3 (''Say why '' @ em_dash @ '' the user will be told, and they cannot appeal what they are not told.'')
       500 ''Keep it under 500 characters. Anything longer belongs in the note.''"

definition rejectionReasonSchema :: "string \<Rightarrow> string option" where
  "rejectionReasonSchema =
     trimmed_between 3 (''Say why '' @ em_dash @ '' the author sees this and cannot resubmit without it.'')
       1000 ''Keep it under 1000 characters. Anything longer belongs in the note.''"

text \<open>The alternative \<open>z.literal("")\<close> compares the text as it was typed.\<close>

definition userSearchSchema :: "string \<Rightarrow> string option" where
  "userSearchSchema s =
     (if s = [] then None
      else let n = length (js_trim s) in
        if 200 < n then Some (''That search is too long '' @ em_dash @ '' search for a name or part of an email instead.'')
        else if n < 2 then Some ''Type at least 2 characters.'' else None)"

text \<open>\<open>rulingNoteSchema\<close>: not trimmed, and \<open>undefined\<close> passes.\<close>

definition rulingNoteSchema :: "string option \<Rightarrow> string option" where
  "rulingNoteSchema v =
     (case v of None \<Rightarrow> None | Some s \<Rightarrow> if 2000 < length s then Some ''That note is too long'' else None)"

subsection \<open>Page controls\<close>

text \<open>The quotient of \<open>Math.ceil\<close> is written for integers; row counts are far below the range where
  the division of doubles would round to another integer.\<close>

record Pagination =
  pg_page :: int
  pg_pageSize :: int
  pg_total :: "int option"
  pg_hasMore :: bool
  pg_isLoading :: bool

definition totalPages :: "Pagination \<Rightarrow> int option" where
  "totalPages p = map_option (\<lambda>rowcount. max 1 (- ((- rowcount) div pg_pageSize p))) (pg_total p)"

definition lastPage :: "Pagination \<Rightarrow> int" where
  "lastPage p = (case totalPages p of Some n \<Rightarrow> n | None \<Rightarrow> if pg_hasMore p then pg_page p + 1 else pg_page p)"

definition canGoBack :: "Pagination \<Rightarrow> bool" where
  "canGoBack p \<longleftrightarrow> 1 < pg_page p \<and> \<not> pg_isLoading p"

definition canGoForward :: "Pagination \<Rightarrow> bool" where
  "canGoForward p \<longleftrightarrow> pg_page p < lastPage p \<and> \<not> pg_isLoading p"

definition pagination_shown :: "Pagination \<Rightarrow> bool" where
  "pagination_shown p \<longleftrightarrow> canGoBack p \<or> canGoForward p"

definition first_row :: "Pagination \<Rightarrow> int" where
  "first_row p = (pg_page p - 1) * pg_pageSize p + 1"

definition last_row :: "Pagination \<Rightarrow> int" where
  "last_row p = (case pg_total p of Some rowcount \<Rightarrow> min (pg_page p * pg_pageSize p) rowcount | None \<Rightarrow> pg_page p * pg_pageSize p)"

definition previous_page :: "Pagination \<Rightarrow> int" where
  "previous_page p = max 1 (pg_page p - 1)"

definition next_page :: "Pagination \<Rightarrow> int" where
  "next_page p = min (lastPage p) (pg_page p + 1)"

definition page_label :: "Pagination \<Rightarrow> string option" where
  "page_label p =
     (case totalPages p of
        Some n \<Rightarrow> Some (''Page '' @ string_of_int (pg_page p) @ '' of '' @ string_of_int n)
      | None \<Rightarrow> if pg_hasMore p then Some (''Page '' @ string_of_int (pg_page p)) else None)"

text \<open>The pages an operator sees who presses Next as long as it is offered.\<close>

fun press_next :: "nat \<Rightarrow> Pagination \<Rightarrow> int list" where
  "press_next 0 p = [pg_page p]"
| "press_next (Suc n) p = pg_page p # (if canGoForward p then press_next n (p\<lparr>pg_page := next_page p\<rparr>) else [])"

lemma totalPages_bounds:
  assumes "pg_total p = Some rowcount" "0 < pg_pageSize p" "totalPages p = Some n"
  shows "1 \<le> n" "rowcount \<le> n * pg_pageSize p" "1 \<le> rowcount \<Longrightarrow> (n - 1) * pg_pageSize p < rowcount"
proof -
  define k where "k = pg_pageSize p"
  define q where "q = - ((- rowcount) div k)"
  have n: "n = max 1 q" using assms by (simp add: totalPages_def q_def k_def)
  have k: "0 < k" using assms(2) by (simp add: k_def)
  have dm: "- rowcount = k * (- q) + (- rowcount) mod k" by (simp add: q_def)
  have "0 \<le> (- rowcount) mod k" "(- rowcount) mod k < k" using k by simp_all
  then have lo: "rowcount \<le> q * k" and hi: "(q - 1) * k < rowcount" using dm by (simp_all add: algebra_simps)
  show "1 \<le> n" by (simp add: n)
  have "q * k \<le> n * k" using k by (simp add: n)
  then show "rowcount \<le> n * pg_pageSize p" using lo by (simp add: k_def)
  assume t: "1 \<le> rowcount"
  have "0 < q * k" using lo t by linarith
  then have "0 < q" using k by (simp add: zero_less_mult_iff)
  then have "n = q" by (simp add: n)
  then show "(n - 1) * pg_pageSize p < rowcount" using hi by (simp add: k_def)
qed

lemma press_next_upto:
  assumes "totalPages p = Some n" "\<not> pg_isLoading p" "pg_page p \<le> n" "nat (n - pg_page p) \<le> fuel"
  shows "press_next fuel p = [pg_page p..n]"
  using assms
proof (induction fuel arbitrary: p)
  case 0
  then show ?case by simp
next
  case (Suc fuel)
  have last: "lastPage p = n" using Suc.prems by (simp add: lastPage_def)
  show ?case
  proof (cases "pg_page p < n")
    case True
    let ?p = "p\<lparr>pg_page := pg_page p + 1\<rparr>"
    have "totalPages ?p = Some n" using Suc.prems by (simp add: totalPages_def)
    then have "press_next fuel ?p = [pg_page p + 1..n]"
      using Suc.IH [of ?p] Suc.prems True by simp
    then show ?thesis using True Suc.prems by (simp add: canGoForward_def next_page_def last upto_rec1)
  next
    case False
    then show ?thesis using Suc.prems by (simp add: canGoForward_def last)
  qed
qed

lemma rows_of_pages:
  assumes "0 < k" "(n - 1) * k < rowcount"
  shows "concat (map (\<lambda>i. [(i - 1) * k + 1..min (i * k) rowcount]) [1..n]) = [1..min (n * k) rowcount]"
  using assms
proof (induction "nat n" arbitrary: n)
  case 0
  then have "n * k \<le> 0" by (simp add: mult_nonpos_nonneg)
  then show ?case using 0 by simp
next
  case (Suc m)
  then have n: "1 \<le> n" "m = nat (n - 1)" by linarith+
  have lt: "(n - 1 - 1) * k < rowcount" using Suc.prems by (simp add: left_diff_distrib)
  have IH: "concat (map (\<lambda>i. [(i - 1) * k + 1..min (i * k) rowcount]) [1..n - 1]) = [1..(n - 1) * k]"
    using Suc.hyps(1) [OF n(2) Suc.prems(1) lt] Suc.prems(2) by (simp add: min_def)
  have "[1..min (n * k) rowcount] = [1..(n - 1) * k] @ [(n - 1) * k + 1..min (n * k) rowcount]"
  proof (cases "n = 1")
    case False
    then have "1 * 1 \<le> (n - 1) * k" using n(1) Suc.prems(1) by (intro mult_mono) auto
    then show ?thesis
      using upto_split2 [of 1 "(n - 1) * k" "min (n * k) rowcount"] Suc.prems by (simp add: left_diff_distrib)
  qed simp
  then show ?case using IH n(1) by (simp add: upto_rec2)
qed

subsection \<open>Decisions with a reason\<close>

text \<open>A dialog is mounted anew for every target. The call it is waiting for has a number.\<close>

record reason_dialog =
  rd_reason :: string
  rd_note :: string
  rd_touched :: bool
  rd_call :: "nat option"

definition fresh_dialog :: reason_dialog where
  "fresh_dialog = \<lparr>rd_reason = [], rd_note = [], rd_touched = False, rd_call = None\<rparr>"

text \<open>A target is its identifier and the name the messages use.\<close>

type_synonym target = "string \<times> string"

record decision_kind =
  dk_schema :: "string \<Rightarrow> string option"
  dk_maxReason :: nat
  dk_maxNote :: nat
  dk_request :: "string \<Rightarrow> string \<Rightarrow> string option \<Rightarrow> api_request"
  dk_success :: "target \<Rightarrow> nat \<Rightarrow> string \<times> string"
  dk_failure :: "string \<times> string"

record decision =
  dc_target :: "target option"
  dc_dialog :: reason_dialog
  dc_calls :: "(nat \<times> target) list"
  dc_next :: nat
  dc_sent :: "api_request list"
  dc_toasts :: "(string \<times> string) list"

definition no_decision :: decision where
  "no_decision = \<lparr>dc_target = None, dc_dialog = fresh_dialog, dc_calls = [], dc_next = 0, dc_sent = [], dc_toasts = []\<rparr>"

definition open_decision :: "target \<Rightarrow> decision \<Rightarrow> decision" where
  "open_decision t d = d\<lparr>dc_target := Some t, dc_dialog := fresh_dialog\<rparr>"

definition close_decision :: "decision \<Rightarrow> decision" where
  "close_decision d = d\<lparr>dc_target := None, dc_dialog := fresh_dialog\<rparr>"

definition reasonError :: "decision_kind \<Rightarrow> reason_dialog \<Rightarrow> string option" where
  "reasonError k r = (if rd_touched r then dk_schema k (rd_reason r) else None)"

definition canSubmit :: "decision_kind \<Rightarrow> reason_dialog \<Rightarrow> bool" where
  "canSubmit k r \<longleftrightarrow> dk_schema k (rd_reason r) = None \<and> rd_call r = None"

text \<open>\<open>note.trim() ? { note: note.trim() } : {}\<close>\<close>

definition optional_note :: "string \<Rightarrow> string option" where
  "optional_note s = (if js_trim s = [] then None else Some (js_trim s))"

definition submit_decision :: "decision_kind \<Rightarrow> decision \<Rightarrow> decision" where
  "submit_decision k d =
     (let r = (dc_dialog d)\<lparr>rd_touched := True\<rparr> in
      case dc_target d of
        None \<Rightarrow> d
      | Some t \<Rightarrow>
          if \<not> canSubmit k r then d\<lparr>dc_dialog := r\<rparr>
          else d\<lparr>dc_dialog := r\<lparr>rd_call := Some (dc_next d)\<rparr>, dc_next := Suc (dc_next d),
                 dc_calls := dc_calls d @ [(dc_next d, t)],
                 dc_sent := dc_sent d @ [dk_request k (fst t) (js_trim (rd_reason r)) (optional_note (rd_note r))]\<rparr>)"

text \<open>The callbacks of the mutation. \<open>onOpenChange(false)\<close> is the page's and clears its target,
  whichever that is by then.\<close>

definition decision_onSuccess :: "decision_kind \<Rightarrow> target \<Rightarrow> nat \<Rightarrow> decision \<Rightarrow> decision" where
  "decision_onSuccess k t released d = close_decision (d\<lparr>dc_toasts := dc_toasts d @ [dk_success k t released]\<rparr>)"

definition decision_onError :: "decision_kind \<Rightarrow> thrown \<Rightarrow> decision \<Rightarrow> decision" where
  "decision_onError k err d =
     d\<lparr>dc_toasts := dc_toasts d @ [(fst (dk_failure k), apiErrorMessage err (snd (dk_failure k)))]\<rparr>"

definition answer_decision :: "decision_kind \<Rightarrow> nat \<Rightarrow> thrown option \<Rightarrow> nat \<Rightarrow> decision \<Rightarrow> decision" where
  "answer_decision k n result released d =
     (case map_of (dc_calls d) n of
        None \<Rightarrow> d
      | Some t \<Rightarrow>
          (let r = dc_dialog d;
               d1 = d\<lparr>dc_calls := filter (\<lambda>c. fst c \<noteq> n) (dc_calls d),
                      dc_dialog := (if rd_call r = Some n then r\<lparr>rd_call := None\<rparr> else r)\<rparr>
           in case result of None \<Rightarrow> decision_onSuccess k t released d1 | Some err \<Rightarrow> decision_onError k err d1))"

datatype decision_event =
    OpenFor target
  | Dismiss_Dialog
  | CancelButton
  | TypeReason string
  | TypeNote string
  | BlurReason
  | SubmitReason
  | DecisionAnswered nat "thrown option" nat

text \<open>Escape or a press outside closes the dialog at any time, its Cancel button and its fields are
  disabled while the call is under way.\<close>

fun decision_step :: "decision_kind \<Rightarrow> decision_event \<Rightarrow> decision \<Rightarrow> decision" where
  "decision_step k (OpenFor t) d = (if dc_target d = None then open_decision t d else d)"
| "decision_step k Dismiss_Dialog d = close_decision d"
| "decision_step k CancelButton d = (if rd_call (dc_dialog d) = None then close_decision d else d)"
| "decision_step k (TypeReason s) d =
     (if rd_call (dc_dialog d) = None then d\<lparr>dc_dialog := (dc_dialog d)\<lparr>rd_reason := take (dk_maxReason k) s\<rparr>\<rparr> else d)"
| "decision_step k (TypeNote s) d =
     (if rd_call (dc_dialog d) = None then d\<lparr>dc_dialog := (dc_dialog d)\<lparr>rd_note := take (dk_maxNote k) s\<rparr>\<rparr> else d)"
| "decision_step k BlurReason d = d\<lparr>dc_dialog := (dc_dialog d)\<lparr>rd_touched := True\<rparr>\<rparr>"
| "decision_step k SubmitReason d = submit_decision k d"
| "decision_step k (DecisionAnswered n r released) d = answer_decision k n r released d"

text \<open>The three dialogs. Lifting a ban has no reason field.\<close>

definition BAN :: decision_kind where
  "BAN = \<lparr>dk_schema = banReasonSchema, dk_maxReason = 500, dk_maxNote = 2000, dk_request = ban,
     dk_success = (\<lambda>t released. (snd t @ '' banned'',
       if released \<noteq> 0
       then string_of_int (int released) @ '' resting order'' @ (if released = 1 then [] else ''s'')
              @ '' cancelled and the funds released.''
       else ''No resting orders to release.'')),
     dk_failure = (''Ban failed'', ''Try again.'')\<rparr>"

definition UNBAN :: decision_kind where
  "UNBAN = \<lparr>dk_schema = (\<lambda>_. None), dk_maxReason = 0, dk_maxNote = 2000,
     dk_request = (\<lambda>userId _ note. unban userId (map_option Some note)),
     dk_success = (\<lambda>t _. (snd t @ '' unbanned'', ''The account can sign in again.'')),
     dk_failure = (''Unban failed'', ''Try again.'')\<rparr>"

definition REJECT :: decision_kind where
  "REJECT = \<lparr>dk_schema = rejectionReasonSchema, dk_maxReason = 1000, dk_maxNote = 2000, dk_request = rejectMarket,
     dk_success = (\<lambda>_ _. (''Submission declined'', ''The author can read your reason on their market.'')),
     dk_failure = (''Could not decline'', ''Try again.'')\<rparr>"

subsection \<open>What a decision carries\<close>

text \<open>The contract of a dialog that asks for a reason: its schema accepts only texts with a least
  and a greatest length once trimmed. Then every request it ever sends has such a reason.\<close>

definition stated_reason :: "nat \<Rightarrow> nat \<Rightarrow> string \<Rightarrow> bool" where
  "stated_reason least most reason \<longleftrightarrow> js_trim reason = reason \<and> least \<le> length reason \<and> length reason \<le> most"

definition stated_note :: "nat \<Rightarrow> string option \<Rightarrow> bool" where
  "stated_note most note \<longleftrightarrow> (case note of None \<Rightarrow> True | Some n \<Rightarrow> js_trim n = n \<and> n \<noteq> [] \<and> length n \<le> most)"

definition reasoned :: "decision_kind \<Rightarrow> nat \<Rightarrow> nat \<Rightarrow> api_request \<Rightarrow> bool" where
  "reasoned k least most req \<longleftrightarrow>
     (\<exists>i reason note. req = dk_request k i reason note \<and> stated_reason least most reason \<and> stated_note (dk_maxNote k) note)"

definition reasoned_inv :: "decision_kind \<Rightarrow> nat \<Rightarrow> nat \<Rightarrow> decision \<Rightarrow> bool" where
  "reasoned_inv k least most d \<longleftrightarrow>
     length (rd_note (dc_dialog d)) \<le> dk_maxNote k \<and> list_all (reasoned k least most) (dc_sent d)"

lemma dropWhile_idem: "dropWhile P (dropWhile P xs) = dropWhile P xs"
  by (induction xs) auto

lemma dropWhile_rev_dropWhile:
  "dropWhile P (rev (dropWhile P (rev (dropWhile P xs)))) = rev (dropWhile P (rev (dropWhile P xs)))"
proof (cases "dropWhile P xs")
  case (Cons y ys)
  then have y: "\<not> P y" by (metis dropWhile_eq_Cons_conv)
  then have "dropWhile P (rev (y # ys)) = dropWhile P (rev ys) @ [y]"
    by (induction ys rule: rev_induct) auto
  then show ?thesis using Cons y by simp
next
  case Nil
  show ?thesis unfolding Nil by simp
qed

lemma js_trim_idem [simp]: "js_trim (js_trim s) = js_trim s"
  by (simp add: js_trim_def dropWhile_rev_dropWhile dropWhile_idem)

lemma js_trim_Nil [simp]: "js_trim [] = []"
  by (simp add: js_trim_def)

lemma length_js_trim: "length (js_trim s) \<le> length s"
  unfolding js_trim_def by (metis length_dropWhile_le length_rev order_trans)

lemma optional_note_stated: "length s \<le> most \<Longrightarrow> stated_note most (optional_note s)"
  using length_js_trim [of s] by (auto simp: stated_note_def optional_note_def)

locale reasoned_decisions =
  fixes k :: decision_kind and least most :: nat
  assumes schema_bounds: "dk_schema k s = None \<Longrightarrow> least \<le> length (js_trim s) \<and> length (js_trim s) \<le> most"
begin

lemma inv_initial: "reasoned_inv k least most no_decision"
  by (simp add: reasoned_inv_def no_decision_def fresh_dialog_def)

lemma inv_close: "reasoned_inv k least most d \<Longrightarrow> reasoned_inv k least most (close_decision d)"
  by (simp add: reasoned_inv_def close_decision_def fresh_dialog_def)

lemma inv_submit:
  assumes "reasoned_inv k least most d"
  shows "reasoned_inv k least most (submit_decision k d)"
proof -
  have "reasoned k least most (dk_request k i (js_trim (rd_reason (dc_dialog d))) (optional_note (rd_note (dc_dialog d))))"
    if "dk_schema k (rd_reason (dc_dialog d)) = None" for i
    using schema_bounds [OF that] optional_note_stated assms
    unfolding reasoned_def stated_reason_def reasoned_inv_def by (metis js_trim_idem)
  then show ?thesis using assms
    by (auto simp: reasoned_inv_def submit_decision_def canSubmit_def Let_def split: option.splits)
qed

lemma inv_answer:
  assumes "reasoned_inv k least most d"
  shows "reasoned_inv k least most (answer_decision k n r released d)"
  using assms
  by (auto simp: reasoned_inv_def answer_decision_def decision_onSuccess_def decision_onError_def close_decision_def
      fresh_dialog_def Let_def split: option.splits)

lemma inv_decision_step: "reasoned_inv k least most d \<Longrightarrow> reasoned_inv k least most (decision_step k e d)"
  by (cases e) (auto simp: inv_close inv_submit inv_answer, auto simp: reasoned_inv_def open_decision_def fresh_dialog_def)

lemma sent_reasoned: "list_all (reasoned k least most) (dc_sent (fold (decision_step k) es no_decision))"
proof -
  have "reasoned_inv k least most (fold (decision_step k) es d)" if "reasoned_inv k least most d" for d
    using that by (induction es arbitrary: d) (auto simp: inv_decision_step)
  then show ?thesis using inv_initial by (simp add: reasoned_inv_def)
qed

end

lemma trimmed_between_None:
  "trimmed_between least short most long s = None \<Longrightarrow> least \<le> length (js_trim s) \<and> length (js_trim s) \<le> most"
  by (simp add: trimmed_between_def Let_def split: if_splits)

interpretation bn: reasoned_decisions BAN 3 500
  by unfold_locales (simp add: BAN_def banReasonSchema_def trimmed_between_None)

interpretation rj: reasoned_decisions REJECT 3 1000
  by unfold_locales (simp add: REJECT_def rejectionReasonSchema_def trimmed_between_None)

subsection \<open>The market queue\<close>

record AdminMarketRow =
  am_id :: string
  am_slug :: string
  am_question :: string
  am_status :: string

definition FILTERS :: "(string \<times> string) list" where
  "FILTERS = [([], ''All''), (''pending_review'', ''Awaiting review''), (''rejected'', ''Rejected''), (''active'', ''Active''),
     (''closed'', ''Trading closed''), (''resolving'', ''Resolving''), (''dispute_window'', ''In dispute window''),
     (''resolved'', ''Resolved'')]"

definition SORTS :: "(string \<times> string) list" where
  "SORTS = [(''newest'', ''Newest first''), (''oldest'', ''Oldest first''), (''closing_soon'', ''Closing soonest''),
     (''volume'', ''Most traded''), (''liquidity'', ''Most liquid'')]"

text \<open>A bulk approval under way: the markets still to be answered, the first of them sent, the count of
  approvals and the questions of the failures.\<close>

record bulk_run =
  br_targets :: "AdminMarketRow list"
  br_approved :: nat
  br_failed :: "string list"

datatype toast = Success string string | Failure string string

record market_queue =
  mq_status :: string
  mq_search :: string
  mq_appliedSearch :: string
  mq_sort :: string
  mq_page :: int
  mq_rows :: "AdminMarketRow list"
  mq_selected :: "string list"
  mq_confirming :: bool
  mq_bulkRunning :: bool
  mq_bulk :: "bulk_run option"
  mq_approving :: "string option"
  mq_reject :: decision
  mq_bulk_sent :: "api_request list"
  mq_one_sent :: "api_request list"
  mq_toasts :: "toast list"
  mq_cache :: "cached_query list"

definition mount_markets :: "string option \<Rightarrow> cached_query list \<Rightarrow> market_queue" where
  "mount_markets marketParam cache =
     \<lparr>mq_status = [], mq_search = get_or marketParam [], mq_appliedSearch = get_or marketParam [], mq_sort = ''newest'',
      mq_page = 1, mq_rows = [], mq_selected = [], mq_confirming = False, mq_bulkRunning = False, mq_bulk = None,
      mq_approving = None, mq_reject = no_decision, mq_bulk_sent = [], mq_one_sent = [], mq_toasts = [], mq_cache = cache\<rparr>"

definition or_undefined :: "string \<Rightarrow> string option" where
  "or_undefined s = (if s = [] then None else Some s)"

definition markets_query :: "market_queue \<Rightarrow> query_key \<times> api_request" where
  "markets_query q =
     (admin_key_markets (if mq_status q = [] then ''all'' else mq_status q) (mq_page q)
        @ [JStr (mq_appliedSearch q), JStr (mq_sort q)],
      markets (or_undefined (mq_status q)) (or_undefined (mq_appliedSearch q)) (Some (mq_sort q)) (Some (mq_page q)) (Some 50))"

definition pending_filter :: "market_queue \<Rightarrow> bool" where
  "pending_filter q \<longleftrightarrow> mq_status q = ''pending_review''"

definition visibleIds :: "market_queue \<Rightarrow> string list" where
  "visibleIds q = map am_id (mq_rows q)"

definition liveSelection :: "market_queue \<Rightarrow> string list" where
  "liveSelection q = filter (\<lambda>i. i \<in> set (visibleIds q)) (mq_selected q)"

text \<open>The selected rows in page order: what the bar counts and the bulk approval sends.\<close>

definition bulk_targets :: "market_queue \<Rightarrow> AdminMarketRow list" where
  "bulk_targets q = filter (\<lambda>row. am_id row \<in> set (liveSelection q)) (mq_rows q)"

definition allSelected :: "market_queue \<Rightarrow> bool" where
  "allSelected q \<longleftrightarrow> bulk_targets q \<noteq> [] \<and> length (bulk_targets q) = length (mq_rows q)"

definition someSelected :: "market_queue \<Rightarrow> bool" where
  "someSelected q \<longleftrightarrow> bulk_targets q \<noteq> [] \<and> \<not> allSelected q"

definition NAMED :: nat where "NAMED = 5"

definition named_targets :: "market_queue \<Rightarrow> string list" where
  "named_targets q =
     (let sel = bulk_targets q in
      map am_question (take NAMED sel)
      @ (if NAMED < length sel
         then [[CHR 0xE2, CHR 0x80, CHR 0xA6] @ ''and '' @ string_of_int (int (length sel - NAMED)) @ '' more on this page.'']
         else []))"

definition toggle :: "string \<Rightarrow> bool \<Rightarrow> market_queue \<Rightarrow> market_queue" where
  "toggle i checked q =
     q\<lparr>mq_selected := (if checked then set_add i (mq_selected q) else set_remove i (mq_selected q))\<rparr>"

definition toggleAll :: "bool \<Rightarrow> market_queue \<Rightarrow> market_queue" where
  "toggleAll checked q = q\<lparr>mq_selected := (if checked then remdups (map am_id (mq_rows q)) else [])\<rparr>"

definition clearSelection :: "market_queue \<Rightarrow> market_queue" where
  "clearSelection q = q\<lparr>mq_selected := []\<rparr>"

definition refresh_markets :: "matcher \<Rightarrow> market_queue \<Rightarrow> market_queue" where
  "refresh_markets m q = q\<lparr>mq_cache := invalidateQueries m (str_key [''admin'', ''markets'']) (mq_cache q)\<rparr>"

definition bulk_toast :: "nat \<Rightarrow> string list \<Rightarrow> toast" where
  "bulk_toast approved failed =
     (let some = js_join ('' '' @ middot @ '' '') (take 2 failed) in
      if failed = []
      then Success (string_of_int (int approved) @ '' market'' @ (if approved = 1 then [] else ''s'') @ '' approved'')
             ''They are tradable now.''
      else if approved = 0
      then Failure ''Nothing was approved'' (string_of_int (int (length failed)) @ '' failed. '' @ some)
      else Failure (string_of_int (int approved) @ '' approved, '' @ string_of_int (int (length failed)) @ '' failed'')
             (''Not published: '' @ some))"

text \<open>\<open>bulkApprove\<close> up to its first \<open>await\<close>, and what follows the answer of each call.\<close>

definition bulkApprove :: "market_queue \<Rightarrow> market_queue" where
  "bulkApprove q =
     (case bulk_targets q of
        [] \<Rightarrow> q
      | row # rest \<Rightarrow>
          q\<lparr>mq_bulkRunning := True, mq_bulk := Some \<lparr>br_targets = row # rest, br_approved = 0, br_failed = []\<rparr>,
            mq_bulk_sent := mq_bulk_sent q @ [approveMarket (am_id row)]\<rparr>)"

definition bulk_finish :: "matcher \<Rightarrow> nat \<Rightarrow> string list \<Rightarrow> market_queue \<Rightarrow> market_queue" where
  "bulk_finish m approved failed q =
     (let q1 = refresh_markets m (clearSelection (q\<lparr>mq_bulkRunning := False, mq_bulk := None\<rparr>))
      in q1\<lparr>mq_toasts := mq_toasts q1 @ [bulk_toast approved failed]\<rparr>)"

definition bulk_answer :: "matcher \<Rightarrow> bool \<Rightarrow> market_queue \<Rightarrow> market_queue" where
  "bulk_answer m ok q =
     (case mq_bulk q of
        None \<Rightarrow> q
      | Some r \<Rightarrow>
          (case br_targets r of
             [] \<Rightarrow> q
           | market # rest \<Rightarrow>
               (let approved = br_approved r + (if ok then 1 else 0);
                    failed = br_failed r @ (if ok then [] else [am_question market])
                in case rest of
                     [] \<Rightarrow> bulk_finish m approved failed q
                   | nxt # _ \<Rightarrow>
                       q\<lparr>mq_bulk := Some \<lparr>br_targets = rest, br_approved = approved, br_failed = failed\<rparr>,
                         mq_bulk_sent := mq_bulk_sent q @ [approveMarket (am_id nxt)]\<rparr>)))"

definition approve_one :: "string \<Rightarrow> market_queue \<Rightarrow> market_queue" where
  "approve_one i q = q\<lparr>mq_approving := Some i, mq_one_sent := mq_one_sent q @ [approveMarket i]\<rparr>"

definition approve_answer :: "matcher \<Rightarrow> thrown option \<Rightarrow> market_queue \<Rightarrow> market_queue" where
  "approve_answer m r q =
     (let q1 = q\<lparr>mq_approving := None\<rparr> in
      case r of
        None \<Rightarrow> (let q2 = refresh_markets m q1 in q2\<lparr>mq_toasts := mq_toasts q2 @ [Success ''Market approved'' []]\<rparr>)
      | Some err \<Rightarrow> q1\<lparr>mq_toasts := mq_toasts q1 @ [Failure (apiErrorMessage err ''Could not approve market'') []]\<rparr>)"

datatype queue_event =
    Show_Rows "AdminMarketRow list"
  | Set_Status string
  | Type_Search string
  | Submit_Search
  | Clear_Search
  | Set_Sort string
  | Go_Page int
  | Toggle_Row string bool
  | Toggle_All bool
  | Clear_Selection
  | Open_Confirm
  | Close_Confirm
  | Confirm_Bulk
  | Bulk_Answered bool
  | Approve_One string
  | Approve_Answered "thrown option"
  | Reject decision_event

text \<open>The checkboxes and buttons of a row are there for the rows of the pending filter, the bar while
  something of the page is selected; leaving the pending filter unmounts the bar with its dialog. The
  invalidation of a rejection is the one of every decision, \<open>queryKeys.adminRoot()\<close>.\<close>

definition bar_shown :: "market_queue \<Rightarrow> bool" where
  "bar_shown q \<longleftrightarrow> pending_filter q \<and> bulk_targets q \<noteq> []"

definition reject_event :: "matcher \<Rightarrow> decision_event \<Rightarrow> market_queue \<Rightarrow> market_queue" where
  "reject_event m e q =
     (let q1 = q\<lparr>mq_reject := decision_step REJECT e (mq_reject q)\<rparr> in
      case e of
        DecisionAnswered n None _ \<Rightarrow>
          if map_of (dc_calls (mq_reject q)) n = None then q1
          else q1\<lparr>mq_cache := invalidateQueries m admin_key_root (mq_cache q1)\<rparr>
      | _ \<Rightarrow> q1)"

fun queue_step :: "matcher \<Rightarrow> queue_event \<Rightarrow> market_queue \<Rightarrow> market_queue" where
  "queue_step m (Show_Rows rows) q = q\<lparr>mq_rows := rows\<rparr>"
| "queue_step m (Set_Status s) q =
     q\<lparr>mq_page := 1, mq_status := s, mq_confirming := mq_confirming q \<and> s = ''pending_review''\<rparr>"
| "queue_step m (Type_Search s) q = q\<lparr>mq_search := s\<rparr>"
| "queue_step m Submit_Search q = q\<lparr>mq_page := 1, mq_appliedSearch := js_trim (mq_search q)\<rparr>"
| "queue_step m Clear_Search q =
     (if mq_appliedSearch q \<noteq> [] then q\<lparr>mq_search := [], mq_appliedSearch := [], mq_page := 1\<rparr> else q)"
| "queue_step m (Set_Sort s) q = q\<lparr>mq_page := 1, mq_sort := s\<rparr>"
| "queue_step m (Go_Page n) q = q\<lparr>mq_page := n\<rparr>"
| "queue_step m (Toggle_Row i checked) q =
     (if pending_filter q \<and> i \<in> set (visibleIds q) then toggle i checked q else q)"
| "queue_step m (Toggle_All checked) q = (if bar_shown q then toggleAll checked q else q)"
| "queue_step m Clear_Selection q = (if bar_shown q \<and> \<not> mq_bulkRunning q then clearSelection q else q)"
| "queue_step m Open_Confirm q = (if bar_shown q \<and> \<not> mq_bulkRunning q then q\<lparr>mq_confirming := True\<rparr> else q)"
| "queue_step m Close_Confirm q = q\<lparr>mq_confirming := False\<rparr>"
| "queue_step m Confirm_Bulk q = (if mq_confirming q then bulkApprove (q\<lparr>mq_confirming := False\<rparr>) else q)"
| "queue_step m (Bulk_Answered ok) q = bulk_answer m ok q"
| "queue_step m (Approve_One i) q =
     (if pending_filter q \<and> i \<in> set (visibleIds q) \<and> mq_approving q = None then approve_one i q else q)"
| "queue_step m (Approve_Answered r) q = (if mq_approving q = None then q else approve_answer m r q)"
| "queue_step m (Reject e) q = reject_event m e q"

text \<open>The answers to the calls of a bulk approval, in the order they came.\<close>

fun bulk_answers :: "queue_event list \<Rightarrow> bool list" where
  "bulk_answers [] = []"
| "bulk_answers (Bulk_Answered ok # es) = ok # bulk_answers es"
| "bulk_answers (_ # es) = bulk_answers es"

lemma bulk_answers_append [simp]: "bulk_answers (xs @ ys) = bulk_answers xs @ bulk_answers ys"
  by (induction xs rule: bulk_answers.induct) simp_all

text \<open>The questions of the markets whose answer was a failure.\<close>

definition refused :: "AdminMarketRow list \<Rightarrow> bool list \<Rightarrow> string list" where
  "refused rows answers = map (\<lambda>x. am_question (fst x)) (filter (\<lambda>x. \<not> snd x) (zip rows answers))"

lemma zip_take_length [simp]: "zip (take (length ys) xs) ys = zip xs ys"
  by (induction xs ys rule: list_induct2') simp_all

definition run_of :: "market_queue \<Rightarrow> bulk_run option \<times> bool \<times> bool \<times> api_request list" where
  "run_of q = (mq_bulk q, mq_bulkRunning q, mq_confirming q, mq_bulk_sent q)"

lemma run_of_other:
  assumes "mq_bulkRunning q" "\<not> mq_confirming q" "\<And>ok. e \<noteq> Bulk_Answered ok"
  shows "run_of (queue_step m e q) = run_of q"
proof (cases e)
  case (Reject d)
  then show ?thesis by (cases d) (auto simp: run_of_def reject_event_def Let_def split: option.splits)
qed (use assms in \<open>auto simp: run_of_def toggle_def toggleAll_def approve_one_def approve_answer_def refresh_markets_def Let_def
  split: option.splits\<close>)

lemma run_of_answer:
  assumes "run_of q = (Some \<lparr>br_targets = row # nxt # rest, br_approved = n, br_failed = f\<rparr>, True, False, sent)"
  shows "run_of (queue_step m (Bulk_Answered ok) q) =
    (Some \<lparr>br_targets = nxt # rest, br_approved = n + (if ok then 1 else 0),
       br_failed = f @ (if ok then [] else [am_question row])\<rparr>, True, False, sent @ [approveMarket (am_id nxt)])"
  using assms by (simp add: run_of_def bulk_answer_def Let_def)

lemma bulk_answers_other: "(\<And>ok. e \<noteq> Bulk_Answered ok) \<Longrightarrow> bulk_answers [e] = []"
  by (cases e) (simp_all, blast)

text \<open>While fewer answers have come than there are targets, the run holds the remaining targets and the
  outcome of the answered ones, whatever else the operator does meanwhile.\<close>

lemma bulk_progress:
  assumes "run_of q = (Some \<lparr>br_targets = t, br_approved = 0, br_failed = []\<rparr>, True, False, sent @ [approveMarket (am_id (hd t))])"
    and "length (bulk_answers es) < length t"
  shows "run_of (fold (queue_step m) es q) =
    (Some \<lparr>br_targets = drop (length (bulk_answers es)) t, br_approved = length (filter (\<lambda>b. b) (bulk_answers es)),
       br_failed = refused t (bulk_answers es)\<rparr>, True, False,
     sent @ map (\<lambda>row. approveMarket (am_id row)) (take (Suc (length (bulk_answers es))) t))"
  using assms(2)
proof (induction es rule: rev_induct)
  case Nil
  then have "take 1 t = [hd t]" by (cases t) auto
  then show ?case using assms(1) Nil by (simp add: refused_def)
next
  case (snoc e es)
  let ?q = "fold (queue_step m) es q" and ?a = "bulk_answers es"
  have IH: "run_of ?q = (Some \<lparr>br_targets = drop (length ?a) t, br_approved = length (filter (\<lambda>b. b) ?a), br_failed = refused t ?a\<rparr>,
      True, False, sent @ map (\<lambda>row. approveMarket (am_id row)) (take (Suc (length ?a)) t))"
    using snoc by (simp add: less_le_trans le_less_trans [of "length ?a"])
  show ?case
  proof (cases "\<exists>ok. e = Bulk_Answered ok")
    case False
    then have "run_of (queue_step m e ?q) = run_of ?q"
      using IH by (intro run_of_other) (auto simp: run_of_def)
    then show ?thesis using IH False by (simp add: bulk_answers_other)
  next
    case True
    then obtain ok where e: "e = Bulk_Answered ok" by blast
    with snoc.prems have len: "Suc (length ?a) < length t" by simp
    then have d: "drop (length ?a) t = t ! length ?a # t ! Suc (length ?a) # drop (Suc (Suc (length ?a))) t"
      by (simp add: Cons_nth_drop_Suc)
    have r: "refused t (?a @ [ok]) = refused t ?a @ (if ok then [] else [am_question (t ! length ?a)])"
      using len by (simp add: refused_def zip_append2 d)
    note run_of_answer [OF IH [unfolded d], of m ok]
    then show ?thesis using len r
      by (simp add: e Cons_nth_drop_Suc take_Suc_conv_app_nth)
  qed
qed

lemma bulk_start:
  assumes "bulk_targets q \<noteq> []" "mq_confirming q"
  shows "run_of (queue_step m Confirm_Bulk q) =
    (Some \<lparr>br_targets = bulk_targets q, br_approved = 0, br_failed = []\<rparr>, True, False,
     mq_bulk_sent q @ [approveMarket (am_id (hd (bulk_targets q)))])"
proof -
  have "bulk_targets (q\<lparr>mq_confirming := False\<rparr>) = bulk_targets q"
    by (simp add: bulk_targets_def liveSelection_def visibleIds_def)
  with assms show ?thesis by (cases "bulk_targets q") (auto simp: run_of_def bulkApprove_def)
qed

lemma bulk_last_answer:
  assumes "run_of q = (Some \<lparr>br_targets = [row], br_approved = n, br_failed = f\<rparr>, True, False, sent)"
  shows "let q' = queue_step m (Bulk_Answered ok) q in
    mq_bulk q' = None \<and> \<not> mq_bulkRunning q' \<and> mq_selected q' = [] \<and> mq_bulk_sent q' = sent
    \<and> mq_toasts q' = mq_toasts q @ [bulk_toast (n + (if ok then 1 else 0)) (f @ (if ok then [] else [am_question row]))]"
  using assms by (simp add: run_of_def bulk_answer_def bulk_finish_def refresh_markets_def clearSelection_def Let_def)

subsection \<open>Users\<close>

record AdminUserRow =
  au_id :: string
  au_email :: string
  au_is_admin :: bool
  au_is_active :: bool

datatype row_action = No_Action | Offer_Ban | Offer_Unban

definition user_row_action :: "AdminUserRow \<Rightarrow> row_action" where
  "user_row_action u = (if au_is_admin u then No_Action else if au_is_active u then Offer_Ban else Offer_Unban)"

record user_admin =
  ua_search :: string
  ua_applied :: string
  ua_page :: int
  ua_status :: string
  ua_sort :: string
  ua_ban :: decision
  ua_unban :: decision

definition mount_users :: user_admin where
  "mount_users = \<lparr>ua_search = [], ua_applied = [], ua_page = 1, ua_status = ''all'', ua_sort = ''newest'',
     ua_ban = no_decision, ua_unban = no_decision\<rparr>"

definition users_query :: "user_admin \<Rightarrow> query_key \<times> api_request" where
  "users_query u =
     (admin_key_users (ua_page u) (ua_applied u) (ua_status u) (ua_sort u),
      users (Some (ua_page u)) (Some 20) (or_undefined (ua_applied u)) (Some (ua_status u)) (Some (ua_sort u)))"

definition user_searchError :: "user_admin \<Rightarrow> string option" where
  "user_searchError u = (if ua_applied u = [] then None else userSearchSchema (ua_applied u))"

definition user_onSearch :: "user_admin \<Rightarrow> user_admin" where
  "user_onSearch u =
     (if js_trim (ua_search u) \<noteq> [] \<and> userSearchSchema (ua_search u) \<noteq> None then u
      else u\<lparr>ua_applied := js_trim (ua_search u), ua_page := 1\<rparr>)"

definition user_onStatus :: "string option \<Rightarrow> user_admin \<Rightarrow> user_admin" where
  "user_onStatus v u = (case v of None \<Rightarrow> u | Some s \<Rightarrow> if s = [] then u else u\<lparr>ua_status := s, ua_page := 1\<rparr>)"

definition user_onSort :: "string option \<Rightarrow> user_admin \<Rightarrow> user_admin" where
  "user_onSort v u = (case v of None \<Rightarrow> u | Some s \<Rightarrow> if s = [] then u else u\<lparr>ua_sort := s, ua_page := 1\<rparr>)"

definition user_filtered :: "user_admin \<Rightarrow> bool" where
  "user_filtered u \<longleftrightarrow> ua_status u \<noteq> ''all'' \<or> ua_applied u \<noteq> []"

definition clear_filters :: "user_admin \<Rightarrow> user_admin" where
  "clear_filters u = u\<lparr>ua_status := ''all'', ua_applied := [], ua_search := [], ua_page := 1\<rparr>"

datatype user_event =
    User_Search_Typed string
  | User_Search_Submitted
  | User_Status "string option"
  | User_Sort "string option"
  | Clear_Filters
  | User_Page int
  | Press_Row AdminUserRow
  | Ban_Event decision_event
  | Unban_Event decision_event

text \<open>The events of the two dialogs but for opening them, which is a press on a row.\<close>

fun opens :: "decision_event \<Rightarrow> bool" where
  "opens (OpenFor _) = True"
| "opens _ = False"

fun user_step :: "user_event \<Rightarrow> user_admin \<Rightarrow> user_admin" where
  "user_step (User_Search_Typed s) u = u\<lparr>ua_search := s\<rparr>"
| "user_step User_Search_Submitted u = user_onSearch u"
| "user_step (User_Status v) u = user_onStatus v u"
| "user_step (User_Sort v) u = user_onSort v u"
| "user_step Clear_Filters u = (if user_filtered u then clear_filters u else u)"
| "user_step (User_Page n) u = u\<lparr>ua_page := n\<rparr>"
| "user_step (Press_Row r) u =
     (case user_row_action r of
        No_Action \<Rightarrow> u
      | Offer_Ban \<Rightarrow> u\<lparr>ua_ban := decision_step BAN (OpenFor (au_id r, au_email r)) (ua_ban u)\<rparr>
      | Offer_Unban \<Rightarrow> u\<lparr>ua_unban := decision_step UNBAN (OpenFor (au_id r, au_email r)) (ua_unban u)\<rparr>)"
| "user_step (Ban_Event e) u = (if opens e then u else u\<lparr>ua_ban := decision_step BAN e (ua_ban u)\<rparr>)"
| "user_step (Unban_Event e) u = (if opens e then u else u\<lparr>ua_unban := decision_step UNBAN e (ua_unban u)\<rparr>)"

definition users_inv :: "user_admin \<Rightarrow> bool" where
  "users_inv u \<longleftrightarrow> (ua_applied u = [] \<or> js_trim (ua_applied u) = ua_applied u \<and> userSearchSchema (ua_applied u) = None)
     \<and> reasoned_inv BAN 3 500 (ua_ban u)"

lemma userSearchSchema_trim: "userSearchSchema s = None \<Longrightarrow> userSearchSchema (js_trim s) = None"
  by (auto simp: userSearchSchema_def Let_def split: if_splits)

lemma users_inv_step: "users_inv u \<Longrightarrow> users_inv (user_step e u)"
  by (cases e)
    (auto simp: users_inv_def user_onSearch_def user_onStatus_def user_onSort_def clear_filters_def userSearchSchema_trim
      bn.inv_decision_step simp del: decision_step.simps split: option.splits row_action.splits)

interpretation ur: invariant_system mount_users user_step users_inv
  by unfold_locales (auto simp: users_inv_step, simp add: users_inv_def mount_users_def bn.inv_initial)

subsection \<open>The audit trails\<close>

record audit_view =
  av_tab :: string
  av_success :: "string option"
  av_page :: int

definition mount_audit :: audit_view where
  "mount_audit = \<lparr>av_tab = ''actions'', av_success = None, av_page = 1\<rparr>"

definition audit_request :: "audit_view \<Rightarrow> api_request" where
  "audit_request a =
     (if av_tab a = ''actions'' then actions (Some (av_page a)) (Some 50) None None None (av_success a)
      else auditEvents (Some (av_page a)) (Some 50) None None)"

datatype audit_event = Audit_Tab string | Failures_Only | Audit_Page int

fun audit_step :: "audit_event \<Rightarrow> audit_view \<Rightarrow> audit_view" where
  "audit_step (Audit_Tab t) a = a\<lparr>av_page := 1, av_tab := t\<rparr>"
| "audit_step Failures_Only a =
     (if av_tab a = ''actions''
      then a\<lparr>av_success := (if av_success a = Some ''failure'' then None else Some ''failure'')\<rparr> else a)"
| "audit_step (Audit_Page n) a = a\<lparr>av_page := n\<rparr>"

subsection \<open>The market queue as a whole\<close>

definition queue_inv :: "market_queue \<Rightarrow> bool" where
  "queue_inv q \<longleftrightarrow>
     (case mq_bulk q of None \<Rightarrow> \<not> mq_bulkRunning q | Some r \<Rightarrow> mq_bulkRunning q \<and> \<not> mq_confirming q \<and> br_targets r \<noteq> [])
     \<and> reasoned_inv REJECT 3 1000 (mq_reject q)"

lemma queue_inv_bulk: "queue_inv q \<Longrightarrow> queue_inv (bulk_answer m ok q)"
  by (auto simp: queue_inv_def bulk_answer_def bulk_finish_def refresh_markets_def clearSelection_def Let_def
      split: option.splits list.splits)

lemma queue_inv_start: "queue_inv q \<Longrightarrow> mq_confirming q \<Longrightarrow> queue_inv (bulkApprove (q\<lparr>mq_confirming := False\<rparr>))"
  by (auto simp: queue_inv_def bulkApprove_def split: option.splits list.splits)

lemma queue_inv_reject: "queue_inv q \<Longrightarrow> queue_inv (reject_event m e q)"
  by (auto simp: queue_inv_def reject_event_def Let_def rj.inv_decision_step simp del: decision_step.simps
      split: option.splits decision_event.splits)

lemma queue_inv_step: "queue_inv q \<Longrightarrow> queue_inv (queue_step m e q)"
  by (cases e)
    (auto simp: queue_inv_bulk queue_inv_start queue_inv_reject,
     auto simp: queue_inv_def toggle_def toggleAll_def clearSelection_def approve_one_def approve_answer_def
       refresh_markets_def Let_def split: option.splits)

interpretation mq: invariant_system "mount_markets p c" "queue_step m" queue_inv for p c m
  by unfold_locales (auto simp: queue_inv_step, simp add: queue_inv_def mount_markets_def rj.inv_initial)

subsection \<open>Properties\<close>

text \<open>The failures and the message, without the lists the page builds.\<close>

lemma refused_indices:
  assumes "length answers = length t"
  shows "refused t answers = map (\<lambda>i. am_question (t ! i)) (filter (\<lambda>i. \<not> answers ! i) [0..<length t])"
proof -
  have "zip t answers = map (\<lambda>i. (t ! i, answers ! i)) [0..<length t]"
    using assms by (intro nth_equalityI) simp_all
  then show ?thesis by (simp add: refused_def filter_map comp_def)
qed

lemma refused_counts:
  assumes "length answers = length t"
  shows "length (filter (\<lambda>b. b) answers) + length (refused t answers) = length t"
    "refused t answers = [] \<longleftrightarrow> list_all (\<lambda>b. b) answers"
  using assms by (induction t answers rule: list_induct2') (auto simp: refused_def)

lemma bulk_toast_named:
  "bulk_toast approved failed =
    (let named = (case failed of [] \<Rightarrow> [] | [x] \<Rightarrow> x | x # y # _ \<Rightarrow> x @ '' '' @ middot @ '' '' @ y)
     in if failed = []
        then Success (string_of_int (int approved) @ (if approved = 1 then '' market approved'' else '' markets approved''))
               ''They are tradable now.''
        else if approved = 0
        then Failure ''Nothing was approved'' (string_of_int (int (length failed)) @ '' failed. '' @ named)
        else Failure (string_of_int (int approved) @ '' approved, '' @ string_of_int (int (length failed)) @ '' failed'')
               (''Not published: '' @ named))"
  by (auto simp: bulk_toast_def Let_def split: list.split)

text \<open>
  C8. A bulk approval does what the operator confirmed and reports what happened. After the
  confirmation, whatever the operator does while the calls are under way, once as many answers have
  come as rows were selected: exactly the selected rows of the page were sent, one after the other in page
  order; the message counts the approvals and the failures and names the first failed question, or
  the first two if more than one failed, and no further one; it is a success only if every call
  succeeded, and says that nothing was approved if none did; and the selection is empty and the bar is
  ready again.
\<close>

theorem bulk_approval_exact:
  assumes "t = bulk_targets q" "t \<noteq> []" "mq_confirming q"
    and "es = es' @ [Bulk_Answered b]" "answers = bulk_answers es" "length answers = length t"
    and "q' = fold (queue_step m) es (queue_step m Confirm_Bulk q)"
  defines "approved \<equiv> length (filter (\<lambda>b. b) answers)"
    and "failed \<equiv> map (\<lambda>i. am_question (t ! i)) (filter (\<lambda>i. \<not> answers ! i) [0..<length t])"
  defines "named \<equiv> (case failed of [] \<Rightarrow> [] | [x] \<Rightarrow> x | x # y # _ \<Rightarrow> x @ '' '' @ middot @ '' '' @ y)"
  shows "mq_bulk_sent q' = mq_bulk_sent q @ map (\<lambda>row. approveMarket (am_id row)) t
    \<and> mq_toasts q' \<noteq> []
    \<and> last (mq_toasts q') =
        (if list_all (\<lambda>b. b) answers
         then Success (string_of_int (int approved) @ (if approved = 1 then '' market approved'' else '' markets approved''))
                ''They are tradable now.''
         else if approved = 0
         then Failure ''Nothing was approved'' (string_of_int (int (length t)) @ '' failed. '' @ named)
         else Failure (string_of_int (int approved) @ '' approved, '' @ string_of_int (int (length failed)) @ '' failed'')
                (''Not published: '' @ named))
    \<and> approved + length failed = length t
    \<and> mq_bulk q' = None \<and> \<not> mq_bulkRunning q' \<and> mq_selected q' = []"
proof -
  let ?a = "bulk_answers es'" and ?q = "fold (queue_step m) es' (queue_step m Confirm_Bulk q)"
  have ans: "answers = ?a @ [b]" using assms(4,5) by simp
  have len: "length t = Suc (length ?a)" using assms(6) ans by simp
  have d: "drop (length ?a) t = [t ! length ?a]" using len by (simp add: Cons_nth_drop_Suc [symmetric])
  have "run_of ?q = (Some \<lparr>br_targets = [t ! length ?a], br_approved = length (filter (\<lambda>b. b) ?a), br_failed = refused t ?a\<rparr>,
      True, False, mq_bulk_sent q @ map (\<lambda>row. approveMarket (am_id row)) t)"
    using bulk_progress [OF bulk_start [of q m, folded assms(1), OF assms(2,3)], of es' m] len by (simp add: d)
  moreover have q': "q' = queue_step m (Bulk_Answered b) ?q" using assms(4,7) by simp
  ultimately have fin: "mq_bulk q' = None \<and> \<not> mq_bulkRunning q' \<and> mq_selected q' = []
      \<and> mq_bulk_sent q' = mq_bulk_sent q @ map (\<lambda>row. approveMarket (am_id row)) t"
    and toasts: "mq_toasts q' = mq_toasts ?q @ [bulk_toast (length (filter (\<lambda>b. b) ?a) + (if b then 1 else 0))
      (refused t ?a @ (if b then [] else [am_question (t ! length ?a)]))]"
    using bulk_last_answer [of ?q "t ! length ?a" _ _ _ m b] unfolding q' Let_def by blast+
  have r: "refused t answers = refused t ?a @ (if b then [] else [am_question (t ! length ?a)])"
    using d by (simp add: ans refused_def zip_append2)
  have toast: "mq_toasts q' = mq_toasts ?q @ [bulk_toast (length (filter (\<lambda>b. b) answers)) (refused t answers)]"
    unfolding r toasts by (simp add: ans)
  have failed: "refused t answers = failed" unfolding failed_def by (rule refused_indices [OF assms(6)])
  have "approved + length failed = length t" "failed = [] \<longleftrightarrow> list_all (\<lambda>b. b) answers"
    using refused_counts [OF assms(6)] by (simp_all add: failed approved_def)
  moreover have "last (mq_toasts q') = bulk_toast approved failed" "mq_toasts q' \<noteq> []"
    using toast by (simp_all add: failed approved_def)
  ultimately show ?thesis using fin by (auto simp: bulk_toast_named named_def)
qed

definition sample_rows :: "AdminMarketRow list" where
  "sample_rows = map (\<lambda>i. \<lparr>am_id = i, am_slug = i, am_question = ''Will '' @ i, am_status = ''pending_review''\<rparr>) [''a'', ''b'', ''c'']"

definition sample_queue :: market_queue where
  "sample_queue = fold (queue_step (=)) [Set_Status ''pending_review'', Show_Rows sample_rows, Toggle_Row ''c'' True,
     Toggle_Row ''a'' True, Open_Confirm] (mount_markets None [])"

theorem bulk_approval_exact_witness:
  "let q' = fold (queue_step (=)) [Bulk_Answered True, Toggle_Row ''b'' True, Bulk_Answered False] (queue_step (=) Confirm_Bulk sample_queue)
   in mq_bulk_sent q' = [approveMarket ''a'', approveMarket ''c'']
    \<and> last (mq_toasts q') = Failure ''1 approved, 1 failed'' ''Not published: Will c''"
proof -
  let ?es = "[Bulk_Answered True, Toggle_Row ''b'' True, Bulk_Answered False]" and ?t = "bulk_targets sample_queue"
  have t: "map am_id ?t = [''a'', ''c'']" "mq_confirming sample_queue" "mq_bulk_sent sample_queue = []"
    "map (\<lambda>i. am_question (?t ! i)) (filter (\<lambda>i. \<not> [True, False] ! i) [0..<length ?t]) = [''Will c'']" "?t \<noteq> []"
    "length [True, False] = length ?t" "string_of_int 1 = ''1''"
    by code_simp+
  have m: "map (\<lambda>row. approveMarket (am_id row)) ?t = [approveMarket ''a'', approveMarket ''c'']"
    using arg_cong [OF t(1), of "map approveMarket"] by (simp add: comp_def)
  have es: "?es = [Bulk_Answered True, Toggle_Row ''b'' True] @ [Bulk_Answered False]" "[True, False] = bulk_answers ?es"
    by simp_all
  show ?thesis
    using bulk_approval_exact [OF refl t(5,2) es t(6) refl, of "(=)", unfolded t(4)]
    unfolding Let_def m t(3) append_Nil by (simp add: t(7))
qed

text \<open>
  C10. The page controls reach every row. For a known count of rows, whatever the server says about
  there being more, an operator who presses Next from the first page as long as it is offered sees the pages from
  one to the last, the ranges of rows they announce follow on one another and make up all the rows,
  and Previous leads back. Without a count, Next is offered exactly when the server says that there is more.
  A page past the end, where a list that has shrunk leaves the operator, announces a range whose first
  row is greater than its last.
\<close>

theorem pagination_reaches_every_row:
  assumes "pg_total p = Some rowcount" "1 \<le> rowcount" "0 < pg_pageSize p" "pg_page p = 1" "\<not> pg_isLoading p"
    and "pg_total u = None" "\<not> pg_isLoading u"
  shows "\<exists>n. totalPages p = Some n \<and> press_next (nat n) p = [1..n]
      \<and> concat (map (\<lambda>i. [first_row (p\<lparr>pg_page := i\<rparr>)..last_row (p\<lparr>pg_page := i\<rparr>)]) (press_next (nat n) p)) = [1..rowcount]
      \<and> list_all (\<lambda>i. canGoBack (p\<lparr>pg_page := i\<rparr>) \<longleftrightarrow> i \<noteq> 1) [1..n]
      \<and> list_all (\<lambda>i. previous_page (p\<lparr>pg_page := next_page (p\<lparr>pg_page := i\<rparr>)\<rparr>) = i) [1..n - 1]
      \<and> last_row (p\<lparr>pg_page := n + 1\<rparr>) < first_row (p\<lparr>pg_page := n + 1\<rparr>)
    \<and> (canGoForward u \<longleftrightarrow> pg_hasMore u)"
proof -
  obtain n where n: "totalPages p = Some n" using assms(1) by (simp add: totalPages_def)
  note b = totalPages_bounds [OF assms(1,3) n]
  have pn: "press_next (nat n) p = [1..n]"
    using press_next_upto [OF n assms(5), of "nat n"] b(1) assms(4) by simp
  have "totalPages (p\<lparr>pg_page := i\<rparr>) = Some n" for i using n by (simp add: totalPages_def)
  then have last: "lastPage (p\<lparr>pg_page := i\<rparr>) = n" for i by (simp add: lastPage_def)
  have "concat (map (\<lambda>i. [first_row (p\<lparr>pg_page := i\<rparr>)..last_row (p\<lparr>pg_page := i\<rparr>)]) [1..n]) = [1..rowcount]"
    using rows_of_pages [OF assms(3) b(3) [OF assms(2)]] b(2) assms(1) by (simp add: first_row_def last_row_def)
  moreover have "last_row (p\<lparr>pg_page := n + 1\<rparr>) < first_row (p\<lparr>pg_page := n + 1\<rparr>)"
    using b(2) assms(1) by (simp add: first_row_def last_row_def)
  moreover have "canGoForward u \<longleftrightarrow> pg_hasMore u"
    using assms(6,7) by (simp add: canGoForward_def lastPage_def totalPages_def)
  ultimately show ?thesis using n pn b(1) assms(5)
    by (intro exI [of _ n]) (auto simp: list_all_iff canGoBack_def previous_page_def next_page_def last)
qed

theorem pagination_reaches_every_row_witness:
  "\<exists>n. totalPages \<lparr>pg_page = 1, pg_pageSize = 50, pg_total = Some 120, pg_hasMore = False, pg_isLoading = False\<rparr> = Some n
    \<and> press_next (nat n) \<lparr>pg_page = 1, pg_pageSize = 50, pg_total = Some 120, pg_hasMore = False, pg_isLoading = False\<rparr> = [1..n]"
  using pagination_reaches_every_row [of "\<lparr>pg_page = 1, pg_pageSize = 50, pg_total = Some 120, pg_hasMore = False, pg_isLoading = False\<rparr>"
      120 "\<lparr>pg_page = 1, pg_pageSize = 50, pg_total = None, pg_hasMore = True, pg_isLoading = False\<rparr>"]
  by auto

text \<open>
  C9. No ban and no rejection leaves the admin app without a reason. Whatever is pressed and typed and
  however answers arrive, every ban that was sent has a trimmed reason of 3 to 500 characters, every
  rejection one of 3 to 1000, and a note, where there is one, is trimmed, not blank and at most 2000 long. But the
  answer of a ban acts on the dialog that is open when it arrives: after the dialog of one account
  is dismissed, its late success closes the dialog of another and the reason typed there is lost.
\<close>

theorem decisions_state_reasons:
  "list_all (reasoned BAN 3 500) (dc_sent (ua_ban (fold user_step us mount_users)))
    \<and> list_all (reasoned REJECT 3 1000) (dc_sent (mq_reject (fold (queue_step m) es (mount_markets p c))))
    \<and> (let u = fold user_step [Press_Row \<lparr>au_id = ''1'', au_email = ''a@x'', au_is_admin = False, au_is_active = True\<rparr>,
          Ban_Event (TypeReason ''fraud''), Ban_Event SubmitReason, Ban_Event Dismiss_Dialog,
          Press_Row \<lparr>au_id = ''2'', au_email = ''b@x'', au_is_admin = False, au_is_active = True\<rparr>,
          Ban_Event (TypeReason ''spam'')] mount_users;
          v = user_step (Ban_Event (DecisionAnswered 0 None 0)) u
       in dc_target (ua_ban u) = Some (''2'', ''b@x'') \<and> rd_reason (dc_dialog (ua_ban u)) = ''spam''
        \<and> dc_target (ua_ban v) = None \<and> rd_reason (dc_dialog (ua_ban v)) = []
        \<and> dc_toasts (ua_ban v) = [(''a@x banned'', ''No resting orders to release.'')])"
proof (intro conjI)
  show "list_all (reasoned BAN 3 500) (dc_sent (ua_ban (fold user_step us mount_users)))"
    using ur.reachable_inv [of us] by (simp add: users_inv_def reasoned_inv_def)
  show "list_all (reasoned REJECT 3 1000) (dc_sent (mq_reject (fold (queue_step m) es (mount_markets p c))))"
    using mq.reachable_inv [of m es p c] by (simp add: queue_inv_def reasoned_inv_def)
qed code_simp

text \<open>
  A refused search of the users is silent. In every reachable state the error beside the search
  box is absent, because it is computed from the search that was applied, and only valid ones are applied;
  submitting a text of one character, or of more than 200, changes nothing at all.
\<close>

theorem refused_search_is_silent:
  assumes "u = fold user_step es mount_users"
  shows "user_searchError u = None
    \<and> (length (js_trim (ua_search u)) = 1 \<or> 200 < length (js_trim (ua_search u)) \<longrightarrow> user_step User_Search_Submitted u = u)"
proof
  have "users_inv u" unfolding assms by (rule ur.reachable_inv)
  then show "user_searchError u = None" by (auto simp: users_inv_def user_searchError_def)
  show "length (js_trim (ua_search u)) = 1 \<or> 200 < length (js_trim (ua_search u)) \<longrightarrow> user_step User_Search_Submitted u = u"
    by (auto simp: user_onSearch_def userSearchSchema_def Let_def)
qed

theorem refused_search_is_silent_witness:
  "user_step User_Search_Submitted (fold user_step [User_Search_Typed ''x''] mount_users) = fold user_step [User_Search_Typed ''x''] mount_users"
  using refused_search_is_silent [OF refl, of "[User_Search_Typed ''x'']"] by (simp add: mount_users_def js_trim_def is_js_space_def)

text \<open>
  A change of the filters starts at the first page. Whenever an event changes the search, the status or the order
  of the market queue or of the users, the page is one afterwards, and the same holds for a
  change of the audit trail shown. The filter for failures is the exception: it keeps the page, so an operator
  on a later page is shown a page that may lie past the end of the filtered trail.
\<close>

theorem filters_start_at_page_one:
  "((mq_status q, mq_appliedSearch q, mq_sort q)
      \<noteq> (mq_status (queue_step m e q), mq_appliedSearch (queue_step m e q), mq_sort (queue_step m e q)) \<longrightarrow>
     mq_page (queue_step m e q) = 1)
   \<and> ((ua_status u, ua_applied u, ua_sort u)
      \<noteq> (ua_status (user_step ue u), ua_applied (user_step ue u), ua_sort (user_step ue u)) \<longrightarrow>
     ua_page (user_step ue u) = 1)
   \<and> (av_tab a \<noteq> av_tab (audit_step ae a) \<longrightarrow> av_page (audit_step ae a) = 1)
   \<and> fold audit_step [Audit_Page 3, Failures_Only] mount_audit = \<lparr>av_tab = ''actions'', av_success = Some ''failure'', av_page = 3\<rparr>"
proof (intro conjI)
  show "(mq_status q, mq_appliedSearch q, mq_sort q)
      \<noteq> (mq_status (queue_step m e q), mq_appliedSearch (queue_step m e q), mq_sort (queue_step m e q)) \<longrightarrow>
     mq_page (queue_step m e q) = 1"
    by (cases e) (auto simp: toggle_def toggleAll_def clearSelection_def bulkApprove_def bulk_answer_def bulk_finish_def
        refresh_markets_def approve_one_def approve_answer_def reject_event_def Let_def
        split: list.splits option.splits decision_event.splits)
  show "(ua_status u, ua_applied u, ua_sort u)
      \<noteq> (ua_status (user_step ue u), ua_applied (user_step ue u), ua_sort (user_step ue u)) \<longrightarrow>
     ua_page (user_step ue u) = 1"
    by (cases ue) (auto simp: user_onSearch_def user_onStatus_def user_onSort_def clear_filters_def
        split: option.splits row_action.splits)
  show "av_tab a \<noteq> av_tab (audit_step ae a) \<longrightarrow> av_page (audit_step ae a) = 1"
    by (cases ae) auto
qed (simp add: mount_audit_def)

theorem filters_start_at_page_one_witness:
  "ua_page (user_step (User_Status (Some ''banned'')) (mount_users\<lparr>ua_page := 7\<rparr>)) = 1"
  using filters_start_at_page_one [where u = "mount_users\<lparr>ua_page := 7\<rparr>" and ue = "User_Status (Some ''banned'')"]
  by (simp add: user_onStatus_def mount_users_def)

end
