(* ===== verification/Dispute_Queue.thy ===== *)
theory Dispute_Queue
  imports Moderation
begin

text \<open>
  The dispute queue of the admin app, \<^verbatim>\<open>apps/admin/app/(admin)/disputes/AdminDisputesClient.tsx\<close>, with
  the dialog that shows a dispute, \<^verbatim>\<open>apps/admin/components/dispute-detail-dialog.tsx\<close>.

  A ruling goes through two dialogs, the confirmation with the reason and the step-up prompt. The intent
  handed to the step-up hook closes over the ruling; intents are numbered in the order they are begun, and
  \<open>dq_intents\<close> holds the ruling of each number. The list of the detail query's answers is an event,
  since the answer may be in the cache when a dispute is opened.
\<close>

subsection \<open>State\<close>

record AdminDisputeRow =
  ad_id :: string
  ad_market_question :: string
  ad_status :: string

record PendingRuling =
  pr_disputeId :: string
  pr_question :: string
  pr_ruling :: Ruling
  pr_note :: string

definition ruling_text :: "Ruling \<Rightarrow> string" where
  "ruling_text r = (case r of Upheld \<Rightarrow> ''upheld'' | Dismissed \<Rightarrow> ''dismissed'')"

definition DISPUTE_FILTERS :: "(string \<times> string) list" where
  "DISPUTE_FILTERS = [(''open'', ''Awaiting a ruling''), (''upheld'', ''Upheld''), (''dismissed'', ''Dismissed''), (''all'', ''All'')]"

text \<open>\<open>relative\<close>: whole days between two times in milliseconds.\<close>

definition relative :: "int \<Rightarrow> int \<Rightarrow> string" where
  "relative now thn =
     (let days = (now - thn) div 86400000 in
      if days \<le> 0 then ''today'' else if days = 1 then ''1 day waiting'' else string_of_int days @ '' days waiting'')"

record dispute_queue =
  dq_status :: string
  dq_page :: int
  dq_search :: string
  dq_appliedSearch :: string
  dq_searchError :: "string option"
  dq_pending :: "PendingRuling option"
  dq_reading :: "AdminDisputeRow option"
  dq_detail :: bool
  dq_stepUp :: step_up
  dq_intents :: "PendingRuling list"
  dq_sent :: "api_request list"
  dq_toasts :: "(string \<times> string) list"
  dq_cache :: "cached_query list"

definition mount_disputes :: "cached_query list \<Rightarrow> dispute_queue" where
  "mount_disputes cache =
     \<lparr>dq_status = ''open'', dq_page = 1, dq_search = [], dq_appliedSearch = [], dq_searchError = None, dq_pending = None,
      dq_reading = None, dq_detail = False, dq_stepUp = initial_step_up, dq_intents = [], dq_sent = [], dq_toasts = [],
      dq_cache = cache\<rparr>"

definition disputes_query :: "dispute_queue \<Rightarrow> query_key \<times> api_request" where
  "disputes_query q =
     (admin_key_disputes (dq_status q) (dq_page q) (dq_appliedSearch q),
      disputes (Some (dq_status q)) None (or_undefined (dq_appliedSearch q)) (Some (dq_page q)) None)"

subsection \<open>Operations\<close>

definition dispute_onSearch :: "dispute_queue \<Rightarrow> dispute_queue" where
  "dispute_onSearch q =
     (let trimmed = js_trim (dq_search q) in
      if 100 < length trimmed
      then q\<lparr>dq_searchError := Some (''That search is too long '' @ em_dash @ '' 100 characters at most.'')\<rparr>
      else q\<lparr>dq_searchError := None, dq_appliedSearch := trimmed, dq_page := 1\<rparr>)"

definition dispute_type_search :: "string \<Rightarrow> dispute_queue \<Rightarrow> dispute_queue" where
  "dispute_type_search s q = q\<lparr>dq_search := s, dq_searchError := None\<rparr>"

definition noteProblem :: "dispute_queue \<Rightarrow> string option" where
  "noteProblem q =
     (case dq_pending q of
        None \<Rightarrow> None
      | Some p \<Rightarrow>
          if pr_ruling p \<noteq> Dismissed then None
          else case validateRuling (pr_ruling p) (Some (pr_note p)) of
                 Some problem \<Rightarrow> Some problem
               | None \<Rightarrow> rulingNoteSchema (Some (pr_note p)))"

definition set_pending :: "AdminDisputeRow \<Rightarrow> Ruling \<Rightarrow> dispute_queue \<Rightarrow> dispute_queue" where
  "set_pending row r q =
     q\<lparr>dq_pending := Some \<lparr>pr_disputeId = ad_id row, pr_question = ad_market_question row, pr_ruling = r, pr_note = []\<rparr>\<rparr>"

definition type_ruling_note :: "string \<Rightarrow> dispute_queue \<Rightarrow> dispute_queue" where
  "type_ruling_note s q =
     (case dq_pending q of
        None \<Rightarrow> q
      | Some p \<Rightarrow> if pr_ruling p = Dismissed then q\<lparr>dq_pending := Some (p\<lparr>pr_note := s\<rparr>)\<rparr> else q)"

definition beginStepUp :: "PendingRuling \<Rightarrow> dispute_queue \<Rightarrow> dispute_queue" where
  "beginStepUp p q =
     q\<lparr>dq_pending := None, dq_intents := dq_intents q @ [p],
       dq_stepUp := begin_intent (length (dq_intents q)) (dq_stepUp q)\<rparr>"

text \<open>The texts of the prompt, as far as they say which ruling it is.\<close>

definition intent_title :: "PendingRuling \<Rightarrow> string" where
  "intent_title p = (if pr_ruling p = Upheld then ''Uphold this dispute'' else ''Dismiss this dispute'')"

definition intent_confirmLabel :: "PendingRuling \<Rightarrow> string" where
  "intent_confirmLabel p = (if pr_ruling p = Upheld then ''Rule upheld'' else ''Dismiss dispute'')"

definition adjudicate_request :: "PendingRuling \<Rightarrow> string \<Rightarrow> string option \<Rightarrow> api_request" where
  "adjudicate_request p pw cd =
     adjudicate (pr_disputeId p) (ruling_text (pr_ruling p)) (optional_note (pr_note p)) pw
       (case cd of None \<Rightarrow> None | Some c \<Rightarrow> or_undefined c)"

text \<open>The submission of the prompt: the hook calls the \<open>run\<close> of its intent with the credentials of the form.\<close>

definition prompt_submit :: "string \<Rightarrow> string \<Rightarrow> dispute_queue \<Rightarrow> dispute_queue" where
  "prompt_submit pw cd q =
     (let s = state (dq_stepUp q) in
      case (intent s, form_submit True s \<lparr>password = pw, code = cd, seen_open = True, seen_errorCode = errorCode s\<rparr>) of
        (Some i, Some (pw', cd')) \<Rightarrow>
          q\<lparr>dq_stepUp := submit (dq_stepUp q), dq_sent := dq_sent q @ [adjudicate_request (dq_intents q ! i) pw' cd']\<rparr>
      | _ \<Rightarrow> q)"

definition adjudicate_onSuccess :: "matcher \<Rightarrow> string \<Rightarrow> dispute_queue \<Rightarrow> dispute_queue" where
  "adjudicate_onSuccess m ruling q =
     q\<lparr>dq_cache := invalidate_all m [admin_key_root, admin_key_treasury] (dq_cache q),
       dq_toasts := dq_toasts q @
         [if ruling = ''upheld'' then (''Dispute upheld'', ''The market is resolved and settlement is queued.'')
          else (''Dispute dismissed'', ''The dispute is closed with no payout.'')]\<rparr>"

definition rule_from_detail :: "dispute_queue \<Rightarrow> dispute_queue" where
  "rule_from_detail q =
     (case dq_reading q of
        None \<Rightarrow> q
      | Some row \<Rightarrow> if dq_detail q then (set_pending row Upheld q)\<lparr>dq_reading := None, dq_detail := False\<rparr> else q)"

subsection \<open>The page as a state machine\<close>

datatype dispute_event =
    Dispute_Filter string
  | Dispute_Search_Typed string
  | Dispute_Search_Submitted
  | Dispute_Page int
  | Press_Ruling AdminDisputeRow Ruling
  | Read_Dispute AdminDisputeRow
  | Detail_Shown bool
  | Close_Detail
  | Rule_From_Detail
  | Ruling_Note string
  | Back
  | Continue_Ruling
  | Prompt_Submitted string string
  | Prompt_Cancelled
  | Adjudicated nat "thrown option" string

fun dispute_step :: "matcher \<Rightarrow> dispute_event \<Rightarrow> dispute_queue \<Rightarrow> dispute_queue" where
  "dispute_step m (Dispute_Filter s) q = q\<lparr>dq_page := 1, dq_status := s\<rparr>"
| "dispute_step m (Dispute_Search_Typed s) q = dispute_type_search s q"
| "dispute_step m Dispute_Search_Submitted q = dispute_onSearch q"
| "dispute_step m (Dispute_Page n) q = q\<lparr>dq_page := n\<rparr>"
| "dispute_step m (Press_Ruling row r) q = (if ad_status row = ''open'' then set_pending row r q else q)"
| "dispute_step m (Read_Dispute row) q = q\<lparr>dq_reading := Some row, dq_detail := False\<rparr>"
| "dispute_step m (Detail_Shown b) q = q\<lparr>dq_detail := b\<rparr>"
| "dispute_step m Close_Detail q = q\<lparr>dq_reading := None, dq_detail := False\<rparr>"
| "dispute_step m Rule_From_Detail q = rule_from_detail q"
| "dispute_step m (Ruling_Note s) q = type_ruling_note s q"
| "dispute_step m Back q = q\<lparr>dq_pending := None\<rparr>"
| "dispute_step m Continue_Ruling q =
     (case dq_pending q of None \<Rightarrow> q | Some p \<Rightarrow> if noteProblem q \<noteq> None then q else beginStepUp p q)"
| "dispute_step m (Prompt_Submitted pw cd) q = prompt_submit pw cd q"
| "dispute_step m Prompt_Cancelled q = q\<lparr>dq_stepUp := cancel (dq_stepUp q)\<rparr>"
| "dispute_step m (Adjudicated i r ruling) q =
     (if i \<in> set (calls_under_way (dq_stepUp q))
      then (let q1 = (case r of None \<Rightarrow> adjudicate_onSuccess m ruling q | Some _ \<Rightarrow> q)
            in q1\<lparr>dq_stepUp := answer i r (dq_stepUp q1)\<rparr>)
      else q)"

subsection \<open>Invariant\<close>

text \<open>What a confirmed ruling carries: a dismissal a reason that is not blank and fits the limit, an uphold
  no note.\<close>

definition grounded :: "PendingRuling \<Rightarrow> bool" where
  "grounded p \<longleftrightarrow>
     (case pr_ruling p of
        Dismissed \<Rightarrow> js_trim (pr_note p) \<noteq> [] \<and> length (pr_note p) \<le> 2000
      | Upheld \<Rightarrow> pr_note p = [])"

definition confirmed_by :: "PendingRuling list \<Rightarrow> api_request \<Rightarrow> bool" where
  "confirmed_by ps req \<longleftrightarrow> (\<exists>p pw cd. p \<in> set ps \<and> req = adjudicate_request p pw cd)"

definition disputes_inv :: "dispute_queue \<Rightarrow> bool" where
  "disputes_inv q \<longleftrightarrow>
     list_all grounded (dq_intents q) \<and> list_all (confirmed_by (dq_intents q)) (dq_sent q)
     \<and> (case intent (state (dq_stepUp q)) of None \<Rightarrow> True | Some i \<Rightarrow> i < length (dq_intents q))
     \<and> (case dq_pending q of None \<Rightarrow> True | Some p \<Rightarrow> pr_ruling p = Upheld \<longrightarrow> pr_note p = [])
     \<and> length (dq_appliedSearch q) \<le> 100"

lemma confirmed_by_more: "confirmed_by ps req \<Longrightarrow> confirmed_by (ps @ [p]) req"
  by (auto simp: confirmed_by_def)

lemma noteProblem_None:
  assumes "dq_pending q = Some p" "noteProblem q = None" "pr_ruling p = Upheld \<longrightarrow> pr_note p = []"
  shows "grounded p"
  using assms
  by (cases "pr_ruling p")
    (auto simp: grounded_def noteProblem_def validateRuling_def rulingNoteSchema_def get_or_def split: if_splits)

lemma disputes_inv_continue: "disputes_inv q \<Longrightarrow> disputes_inv (dispute_step m Continue_Ruling q)"
  using noteProblem_None [of q]
  by (auto simp: disputes_inv_def beginStepUp_def begin_intent_def idle_def list_all_iff confirmed_by_more split: option.splits)

lemma disputes_inv_prompt: "disputes_inv q \<Longrightarrow> disputes_inv (prompt_submit pw cd q)"
proof -
  assume inv: "disputes_inv q"
  have "confirmed_by (dq_intents q) (adjudicate_request (dq_intents q ! i) a b)" if "intent (state (dq_stepUp q)) = Some i" for i a b
    unfolding confirmed_by_def using inv that by (intro exI [of _ "dq_intents q ! i"] exI [of _ a] exI [of _ b]) (simp add: disputes_inv_def)
  then show ?thesis using inv
    by (auto simp: disputes_inv_def prompt_submit_def submit_def Let_def split: option.splits)
qed

lemma disputes_inv_answer: "disputes_inv q \<Longrightarrow> disputes_inv (dispute_step m (Adjudicated i r ruling) q)"
  by (auto simp: disputes_inv_def adjudicate_onSuccess_def answer_def idle_def Let_def split: option.splits)

lemma disputes_inv_step: "disputes_inv q \<Longrightarrow> disputes_inv (dispute_step m e q)"
proof (cases e)
  case Continue_Ruling
  then show "disputes_inv q \<Longrightarrow> ?thesis" using disputes_inv_continue by blast
next
  case (Adjudicated i r ruling)
  then show "disputes_inv q \<Longrightarrow> ?thesis" using disputes_inv_answer by blast
qed (auto simp: disputes_inv_prompt,
  auto simp: disputes_inv_def dispute_type_search_def dispute_onSearch_def set_pending_def rule_from_detail_def
    type_ruling_note_def cancel_def idle_def Let_def split: option.splits)

interpretation dp: invariant_system "mount_disputes c" "dispute_step m" disputes_inv for c m
  by unfold_locales (auto simp: disputes_inv_step, simp add: disputes_inv_def mount_disputes_def initial_step_up_def idle_def)

lemma sent_grounded:
  assumes "disputes_inv q" "req \<in> set (dq_sent q)"
  obtains p pw cd where "p \<in> set (dq_intents q)" "grounded p" "req = adjudicate_request p pw cd"
proof -
  have "list_all grounded (dq_intents q)" "confirmed_by (dq_intents q) req"
    using assms by (simp_all add: disputes_inv_def list_all_iff)
  then show thesis using that by (auto simp: confirmed_by_def list_all_iff)
qed

definition sample_dispute :: AdminDisputeRow where
  "sample_dispute = \<lparr>ad_id = ''d1'', ad_market_question = ''Rain?'', ad_status = ''open''\<rparr>"

subsection \<open>Properties\<close>

text \<open>
  C7. A dismissal always says why. Whatever the operator does on the dispute queue, every ruling that is
  sent was confirmed in the first dialog, and it carries exactly that ruling and the credentials of the second: a
  dismissal a reason that is trimmed, not blank and at most 2000 characters, an uphold no note. From a dispute that
  is being read only an uphold can be started, and it can be for a dispute that was ruled on before, which
  the rows of the list do not offer.
\<close>

theorem dismissals_say_why:
  assumes "q = fold (dispute_step m) es (mount_disputes c)" "req \<in> set (dq_sent q)"
  shows "(\<exists>p pw cd. p \<in> set (dq_intents q) \<and>
      (case pr_ruling p of
         Upheld \<Rightarrow> req = adjudicate (pr_disputeId p) ''upheld'' None pw cd
       | Dismissed \<Rightarrow> req = adjudicate (pr_disputeId p) ''dismissed'' (Some (js_trim (pr_note p))) pw cd
           \<and> stated_note 2000 (Some (js_trim (pr_note p)))))
    \<and> dq_sent (fold (dispute_step (=)) [Dispute_Filter ''dismissed'', Read_Dispute (sample_dispute\<lparr>ad_status := ''dismissed''\<rparr>),
        Detail_Shown True, Rule_From_Detail, Continue_Ruling, Prompt_Submitted ''pw'' []] (mount_disputes []))
      = [adjudicate ''d1'' ''upheld'' None ''pw'' None]"
proof
  have "disputes_inv q" unfolding assms(1) by (rule dp.reachable_inv)
  then obtain p pw cd where p: "p \<in> set (dq_intents q)" "grounded p" "req = adjudicate_request p pw cd"
    by (rule sent_grounded [OF _ assms(2)])
  let ?cd = "case cd of None \<Rightarrow> None | Some c \<Rightarrow> or_undefined c"
  have "case pr_ruling p of
      Upheld \<Rightarrow> req = adjudicate (pr_disputeId p) ''upheld'' None pw ?cd
    | Dismissed \<Rightarrow> req = adjudicate (pr_disputeId p) ''dismissed'' (Some (js_trim (pr_note p))) pw ?cd
        \<and> stated_note 2000 (Some (js_trim (pr_note p)))"
    using p(2,3) optional_note_stated [of "pr_note p" 2000]
    by (cases "pr_ruling p") (auto simp: grounded_def adjudicate_request_def ruling_text_def optional_note_def)
  then show "\<exists>p pw cd. p \<in> set (dq_intents q) \<and>
      (case pr_ruling p of
         Upheld \<Rightarrow> req = adjudicate (pr_disputeId p) ''upheld'' None pw cd
       | Dismissed \<Rightarrow> req = adjudicate (pr_disputeId p) ''dismissed'' (Some (js_trim (pr_note p))) pw cd
           \<and> stated_note 2000 (Some (js_trim (pr_note p))))"
    using p(1) by blast
qed code_simp

theorem dismissals_say_why_witness:
  "\<exists>p pw cd. p \<in> set (dq_intents (fold (dispute_step (=)) [Press_Ruling sample_dispute Dismissed, Continue_Ruling,
      Ruling_Note '' no source '', Continue_Ruling, Prompt_Submitted ''pw'' []] (mount_disputes []))) \<and>
      (case pr_ruling p of
         Upheld \<Rightarrow> adjudicate ''d1'' ''dismissed'' (Some ''no source'') ''pw'' None = adjudicate (pr_disputeId p) ''upheld'' None pw cd
       | Dismissed \<Rightarrow> adjudicate ''d1'' ''dismissed'' (Some ''no source'') ''pw'' None
             = adjudicate (pr_disputeId p) ''dismissed'' (Some (js_trim (pr_note p))) pw cd
           \<and> stated_note 2000 (Some (js_trim (pr_note p))))"
proof -
  have "dq_sent (fold (dispute_step (=)) [Press_Ruling sample_dispute Dismissed, Continue_Ruling, Ruling_Note '' no source '',
      Continue_Ruling, Prompt_Submitted ''pw'' []] (mount_disputes []))
    = [adjudicate ''d1'' ''dismissed'' (Some ''no source'') ''pw'' None]"
    by code_simp
  then have "adjudicate ''d1'' ''dismissed'' (Some ''no source'') ''pw'' None \<in>
    set (dq_sent (fold (dispute_step (=)) [Press_Ruling sample_dispute Dismissed, Continue_Ruling, Ruling_Note '' no source '',
      Continue_Ruling, Prompt_Submitted ''pw'' []] (mount_disputes [])))"
    by (metis list.set_intros(1))
  from conjunct1 [OF dismissals_say_why [OF refl this]] show ?thesis .
qed

text \<open>A search that is too long is refused with a message and the list stays as it is; any other is
  applied, from the first page.\<close>

lemma dispute_search_outcome:
  "(if 100 < length (js_trim (dq_search q))
    then dq_searchError (dispute_onSearch q) \<noteq> None \<and> disputes_query (dispute_onSearch q) = disputes_query q
    else dq_searchError (dispute_onSearch q) = None \<and> dq_appliedSearch (dispute_onSearch q) = js_trim (dq_search q)
      \<and> dq_page (dispute_onSearch q) = 1)"
  by (simp add: dispute_onSearch_def disputes_query_def Let_def)

end
