(* ===== verification/Calendar.thy ===== *)
theory Calendar
  imports JS_Prelude
begin

text \<open>
  The calendar of the \<open>Date\<close> objects of the language: days counted from the first of January 1970,
  the year, month, day of the month and day of the week of a day, and the constructor from a year and a
  month that may lie outside the year. The leap-year rule and the month table are those of the language
  standard. Times of day and time zones are where dates are used.
\<close>

subsection \<open>Years\<close>

definition leap :: "int \<Rightarrow> bool" where
  "leap y \<longleftrightarrow> y mod 4 = 0 \<and> (y mod 100 \<noteq> 0 \<or> y mod 400 = 0)"

definition DayFromYear :: "int \<Rightarrow> int" where
  "DayFromYear y = 365 * (y - 1970) + (y - 1969) div 4 - (y - 1901) div 100 + (y - 1601) div 400"

text \<open>The year of a day: the mean length of a year gives a candidate that is off by at most one.\<close>

definition year_of :: "int \<Rightarrow> int" where
  "year_of d =
     (let y = 1970 + (400 * d) div 146097 in
      if d < DayFromYear y then y - 1 else if DayFromYear (y + 1) \<le> d then y + 1 else y)"

lemma div_step: "0 < n \<Longrightarrow> (x + 1) div n = x div n + (if (x + 1) mod n = 0 then 1 else 0)" for x n :: int
proof -
  assume n: "0 < n"
  have m: "0 \<le> x mod n" "x mod n < n" using n by simp_all
  have x: "x = x div n * n + x mod n" by simp
  show ?thesis
  proof (cases "x mod n = n - 1")
    case True
    have "(x div n + 1) * n = x div n * n + n" by (simp add: distrib_right)
    then have "x + 1 = (x div n + 1) * n" using x True by linarith
    then show ?thesis using n by simp
  next
    case False
    then have lt: "0 \<le> x mod n + 1" "x mod n + 1 < n" using m by linarith+
    have "x + 1 = x div n * n + (x mod n + 1)" using x by linarith
    then have "(x + 1) div n = x div n" "(x + 1) mod n = x mod n + 1"
      using lt by (metis div_mult_self3 div_pos_pos_trivial add.right_neutral add.commute less_irrefl n,
          metis mod_mult_self3 mod_pos_pos_trivial)
    then show ?thesis using m by simp
  qed
qed

lemma div_next_year:
  fixes y n c :: int
  assumes "0 < n" "(c - 1) mod n = 0"
  shows "(y + 1 - c) div n = (y - c) div n + (if y mod n = 0 then 1 else 0)"
proof -
  have e: "y - c + 1 = y + 1 - c" "y - (c - 1) = y + 1 - c" by simp_all
  have "(y + 1 - c) mod n = y mod n" using mod_diff_right_eq [of y "c - 1" n] assms(2) unfolding e by simp
  then show ?thesis using div_step [OF assms(1), of "y - c"] unfolding e by (simp only:)
qed

lemma DayFromYear_Suc: "DayFromYear (y + 1) = DayFromYear y + (if leap y then 366 else 365)"
proof -
  define a b c where "a = (y - 1969) div 4" and "b = (y - 1901) div 100" and "c = (y - 1601) div 400"
  define p q r where "p \<longleftrightarrow> y mod 4 = 0" and "q \<longleftrightarrow> y mod 100 = 0" and "r \<longleftrightarrow> y mod 400 = 0"
  have "(y + 1 - 1969) div 4 = a + (if p then 1 else 0)"
    "(y + 1 - 1901) div 100 = b + (if q then 1 else 0)"
    "(y + 1 - 1601) div 400 = c + (if r then 1 else 0)"
    unfolding a_def b_def c_def p_def q_def r_def by (rule div_next_year; simp)+
  then have "DayFromYear (y + 1) = 365 * (y + 1 - 1970) + (a + (if p then 1 else 0))
      - (b + (if q then 1 else 0)) + (c + (if r then 1 else 0))"
    unfolding DayFromYear_def by (simp only:)
  moreover have "DayFromYear y = 365 * (y - 1970) + a - b + c"
    by (simp only: DayFromYear_def a_def b_def c_def)
  moreover have "q \<longrightarrow> p" unfolding p_def q_def using mod_mod_cancel [of 4 100 y] by auto
  moreover have "r \<longrightarrow> q" unfolding q_def r_def using mod_mod_cancel [of 100 400 y] by auto
  moreover have "leap y \<longleftrightarrow> p \<and> (\<not> q \<or> r)" by (simp only: leap_def p_def q_def r_def)
  ultimately show ?thesis by (cases p; cases q; cases r) simp_all
qed

lemma DayFromYear_near_mean:
  "400 * DayFromYear y \<le> 146097 * (y - 1970) + 589 \<and> 146097 * (y - 1970) - 506 \<le> 400 * DayFromYear y"
proof -
  define a b c where "a = (y - 1969) div 4" and "b = (y - 1901) div 100" and "c = (y - 1601) div 400"
  have "n * (x div n) \<le> x \<and> x \<le> n * (x div n) + n - 1" if "0 < n" for x n :: int
    using pos_mod_bound [OF that, of x] pos_mod_sign [OF that, of x] mult_div_mod_eq [of n x] by linarith
  from this [of 4 "y - 1969"] this [of 100 "y - 1901"] this [of 400 "y - 1601"]
  have "4 * a \<le> y - 1969" "y - 1969 \<le> 4 * a + 3" "100 * b \<le> y - 1901" "y - 1901 \<le> 100 * b + 99"
    "400 * c \<le> y - 1601" "y - 1601 \<le> 400 * c + 399"
    unfolding a_def [symmetric] b_def [symmetric] c_def [symmetric] by simp_all
  moreover have "DayFromYear y = 365 * (y - 1970) + a - b + c"
    by (simp only: DayFromYear_def a_def b_def c_def)
  ultimately show ?thesis by simp
qed

lemma year_of_bounds: "DayFromYear (year_of d) \<le> d" "d < DayFromYear (year_of d + 1)"
proof -
  define y where "y = 1970 + (400 * d) div 146097"
  have q: "146097 * (y - 1970) \<le> 400 * d" "400 * d < 146097 * (y - 1970) + 146097"
    unfolding y_def by (simp_all add: minus_mod_eq_mult_div [symmetric] del: minus_mod_eq_mult_div)
  have lo: "DayFromYear y \<le> d + 1" using DayFromYear_near_mean [of y] q by linarith
  have hi: "d \<le> DayFromYear (y + 1) + 1" using DayFromYear_near_mean [of "y + 1"] q by (simp add: algebra_simps)
  have s: "DayFromYear y + 365 \<le> DayFromYear (y + 1)" "DayFromYear (y - 1) + 365 \<le> DayFromYear y"
    "DayFromYear (y + 1) + 365 \<le> DayFromYear (y + 2)"
    using DayFromYear_Suc [of y] DayFromYear_Suc [of "y - 1"] DayFromYear_Suc [of "y + 1"] by (auto simp: add.commute [of 2] split: if_splits)
  have "year_of d = (if d < DayFromYear y then y - 1 else if DayFromYear (y + 1) \<le> d then y + 1 else y)"
    by (simp add: year_of_def Let_def y_def)
  then show "DayFromYear (year_of d) \<le> d" "d < DayFromYear (year_of d + 1)"
    using lo hi s by (auto simp: add.commute)
qed

lemma DayFromYear_mono: "x \<le> y \<Longrightarrow> DayFromYear x \<le> DayFromYear y"
  by (induction y rule: int_ge_induct) (auto simp: DayFromYear_Suc)

lemma year_of_eq: "DayFromYear y \<le> d \<Longrightarrow> d < DayFromYear (y + 1) \<Longrightarrow> year_of d = y"
  using year_of_bounds [of d] DayFromYear_mono [of "year_of d + 1" y] DayFromYear_mono [of "y + 1" "year_of d"]
  by (cases "year_of d < y"; cases "y < year_of d") auto

lemma year_of_mono: "d \<le> e \<Longrightarrow> year_of d \<le> year_of e"
  using year_of_bounds(1) [of d] year_of_bounds(2) [of e] DayFromYear_mono [of "year_of e + 1" "year_of d"] by linarith

subsection \<open>Months and days\<close>

definition month_start :: "bool \<Rightarrow> int \<Rightarrow> int" where
  "month_start lp m =
     (if m \<le> 0 then 0 else if m = 1 then 31
      else (if lp then 1 else 0) +
        (if m = 2 then 59 else if m = 3 then 90 else if m = 4 then 120 else if m = 5 then 151 else if m = 6 then 181
         else if m = 7 then 212 else if m = 8 then 243 else if m = 9 then 273 else if m = 10 then 304
         else if m = 11 then 334 else 365))"

definition month_in_year :: "bool \<Rightarrow> int \<Rightarrow> int" where
  "month_in_year lp k =
     (if k < month_start lp 1 then 0 else if k < month_start lp 2 then 1 else if k < month_start lp 3 then 2
      else if k < month_start lp 4 then 3 else if k < month_start lp 5 then 4 else if k < month_start lp 6 then 5
      else if k < month_start lp 7 then 6 else if k < month_start lp 8 then 7 else if k < month_start lp 9 then 8
      else if k < month_start lp 10 then 9 else if k < month_start lp 11 then 10 else 11)"

definition month_of :: "int \<Rightarrow> int" where
  "month_of d = month_in_year (leap (year_of d)) (d - DayFromYear (year_of d))"

definition date_of :: "int \<Rightarrow> int" where
  "date_of d = d - DayFromYear (year_of d) - month_start (leap (year_of d)) (month_of d) + 1"

text \<open>\<open>getDay()\<close>: 0 is Sunday; the first of January 1970 was a Thursday.\<close>

definition weekday_of :: "int \<Rightarrow> int" where
  "weekday_of d = (d + 4) mod 7"

text \<open>\<open>new Date(year, month, date)\<close>: months outside the year carry over, and years 0 to 99 mean the
  twentieth century.\<close>

definition make_day :: "int \<Rightarrow> int \<Rightarrow> int \<Rightarrow> int" where
  "make_day y m dt =
     (let y' = (if 0 \<le> y \<and> y \<le> 99 then 1900 + y else y); ym = y' + m div 12
      in DayFromYear ym + month_start (leap ym) (m mod 12) + dt - 1)"

lemmas month_start_simps [simp] =
  month_start_def [of _ 0] month_start_def [of _ 1] month_start_def [of _ 2] month_start_def [of _ 3] month_start_def [of _ 4]
  month_start_def [of _ 5] month_start_def [of _ 6] month_start_def [of _ 7] month_start_def [of _ 8] month_start_def [of _ 9]
  month_start_def [of _ 10] month_start_def [of _ 11] month_start_def [of _ 12]

lemma month_cases:
  assumes "0 \<le> m" "m < (12::int)"
  obtains "m = 0" | "m = 1" | "m = 2" | "m = 3" | "m = 4" | "m = 5" | "m = 6" | "m = 7" | "m = 8" | "m = 9" | "m = 10" | "m = 11"
proof -
  from assms have "m = 0 \<or> m = 1 \<or> m = 2 \<or> m = 3 \<or> m = 4 \<or> m = 5 \<or> m = 6 \<or> m = 7 \<or> m = 8 \<or> m = 9 \<or> m = 10 \<or> m = 11"
    by arith
  with that show thesis by blast
qed

lemma month_in_year_bounds:
  assumes "0 \<le> k" "k < (if lp then 366 else 365)"
  shows "0 \<le> month_in_year lp k" "month_in_year lp k < 12"
    "month_start lp (month_in_year lp k) \<le> k" "k < month_start lp (month_in_year lp k + 1)"
  using assms by (auto simp: month_in_year_def split: if_splits)

lemma month_in_year_eq:
  assumes "0 \<le> m" "m < 12" "month_start lp m \<le> k" "k < month_start lp (m + 1)"
  shows "month_in_year lp k = m"
  using assms(1,2)
proof (cases rule: month_cases)
qed (use assms(3,4) in \<open>auto simp: month_in_year_def split: if_splits\<close>)

lemma day_in_year: "0 \<le> d - DayFromYear (year_of d)" "d - DayFromYear (year_of d) < (if leap (year_of d) then 366 else 365)"
  using year_of_bounds [of d] DayFromYear_Suc [of "year_of d"] by (auto split: if_splits)

lemma month_of_range: "0 \<le> month_of d" "month_of d < 12"
  using month_in_year_bounds(1,2) [OF day_in_year] by (simp_all add: month_of_def)

lemma date_of_pos: "1 \<le> date_of d"
  using month_in_year_bounds(3) [OF day_in_year, of d] by (simp add: date_of_def month_of_def)

text \<open>The fields of a day name it.\<close>

lemma make_day_fields:
  assumes "\<not> (0 \<le> year_of d \<and> year_of d \<le> 99)"
  shows "make_day (year_of d) (month_of d) (date_of d) = d"
  using assms month_of_range [of d] by (auto simp: make_day_def date_of_def Let_def)

lemma fields_of_first:
  assumes "\<not> (0 \<le> y \<and> y \<le> 99)"
  shows "year_of (make_day y m 1) = y + m div 12 \<and> month_of (make_day y m 1) = m mod 12 \<and> date_of (make_day y m 1) = 1"
proof -
  define ym mn where "ym = y + m div 12" and "mn = m mod 12"
  have d: "make_day y m 1 = DayFromYear ym + month_start (leap ym) mn"
    using assms by (auto simp: make_day_def Let_def ym_def mn_def)
  have mn: "0 \<le> mn" "mn < 12" by (simp_all add: mn_def)
  have lt: "month_start (leap ym) mn < month_start (leap ym) (mn + 1)" "0 \<le> month_start (leap ym) mn"
    "month_start (leap ym) mn < 365"
    by (cases rule: month_cases [OF mn]; simp)+
  have y: "year_of (DayFromYear ym + month_start (leap ym) mn) = ym"
    using lt DayFromYear_Suc [of ym] by (intro year_of_eq) auto
  moreover have "month_of (DayFromYear ym + month_start (leap ym) mn) = mn"
    using month_in_year_eq [OF mn order_refl lt(1)] by (simp add: month_of_def y)
  ultimately have "year_of (make_day y m 1) = ym \<and> month_of (make_day y m 1) = mn \<and> date_of (make_day y m 1) = 1"
    unfolding d by (simp add: date_of_def)
  then show ?thesis by (simp only: ym_def mn_def)
qed

lemma weekday_range: "0 \<le> weekday_of d" "weekday_of d < 7"
  by (simp_all add: weekday_of_def)

lemma weekday_shift: "weekday_of (d - weekday_of d) = 0"
  by (simp add: weekday_of_def) presburger

lemma weekday_add: "weekday_of d = 0 \<Longrightarrow> 0 \<le> r \<Longrightarrow> r < 7 \<Longrightarrow> weekday_of (d + r) = r"
  by (simp add: weekday_of_def) presburger

end
