(* ===== verification/Heatmap.thy ===== *)
theory Heatmap
  imports Calendar JS_Value
begin

text \<open>
  The contribution heatmap of \<^verbatim>\<open>packages/ui/src/components/charts/heatmap\<close>: the helpers of
  \<^verbatim>\<open>heatmap-utils.ts\<close> in the order of the file, the separator configuration of
  \<^verbatim>\<open>heatmap-resolve-separator.ts\<close>, the dimensions and scales of \<^verbatim>\<open>heatmap-chart.tsx\<close>, the month labels of
  \<^verbatim>\<open>heatmap-x-axis.tsx\<close>, the colours of \<^verbatim>\<open>heatmap-colors.ts\<close> and the seeds of \<^verbatim>\<open>heatmap-animation.ts\<close>.

  A date is a local calendar day and the milliseconds since its midnight. The zone is the parameter
  \<open>off\<close>: the offset from UTC, in milliseconds, at the midnight of a day; \<open>zone\<close> states what is known of
  every zone. Differences of times and week counts are far below the range in which the division of
  doubles would round to another integer. \<open>setHours\<close> on the date of a bin changes the caller's data, so the functions
  that do it return the columns they leave.
\<close>

subsection \<open>Dates\<close>

record jsdate =
  on_day :: int
  at_ms :: int

definition MS_PER_DAY :: int where "MS_PER_DAY = 24 * 60 * 60 * 1000"
definition MS_PER_WEEK :: int where "MS_PER_WEEK = MS_PER_DAY * 7"

definition getTime :: "(int \<Rightarrow> int) \<Rightarrow> jsdate \<Rightarrow> int" where
  "getTime off t = on_day t * MS_PER_DAY - off (on_day t) + at_ms t"

definition midnight :: "int \<Rightarrow> jsdate" where
  "midnight d = \<lparr>on_day = d, at_ms = 0\<rparr>"

text \<open>\<open>setHours(0, 0, 0, 0)\<close> and \<open>setDate(getDate() + n)\<close>.\<close>

definition reset_hours :: "jsdate \<Rightarrow> jsdate" where
  "reset_hours t = t\<lparr>at_ms := 0\<rparr>"

definition add_days :: "int \<Rightarrow> jsdate \<Rightarrow> jsdate" where
  "add_days n t = t\<lparr>on_day := on_day t + n\<rparr>"

definition zone :: "(int \<Rightarrow> int) \<Rightarrow> bool" where
  "zone off \<longleftrightarrow> (\<forall>d. - (12 * 3600000) \<le> off d \<and> off d \<le> 14 * 3600000) \<and> (\<forall>d. off (d + 1) - off d < MS_PER_DAY)"

definition HEATMAP_MONTHS_ONE_YEAR :: int where "HEATMAP_MONTHS_ONE_YEAR = 12"
definition HEATMAP_MONTHS_SIX :: int where "HEATMAP_MONTHS_SIX = 6"
definition HEATMAP_WEEKS_ONE_YEAR :: int where "HEATMAP_WEEKS_ONE_YEAR = 52"

definition getHeatmapCalendarRangeStart :: "jsdate \<Rightarrow> int \<Rightarrow> jsdate" where
  "getHeatmapCalendarRangeStart today months =
     (let monthOffset = (if months = HEATMAP_MONTHS_SIX then months else months - 1)
      in midnight (make_day (year_of (on_day today)) (month_of (on_day today) - monthOffset) 1))"

definition getHeatmapYearStartMonth :: "jsdate \<Rightarrow> jsdate" where
  "getHeatmapYearStartMonth today = getHeatmapCalendarRangeStart today HEATMAP_MONTHS_ONE_YEAR"

definition getHeatmapWeekStartSunday :: "jsdate \<Rightarrow> jsdate" where
  "getHeatmapWeekStartSunday t = reset_hours (add_days (- weekday_of (on_day t)) t)"

definition getHeatmapWeekCount :: "(int \<Rightarrow> int) \<Rightarrow> jsdate \<Rightarrow> jsdate \<Rightarrow> int" where
  "getHeatmapWeekCount off startSunday endDate =
     (getTime off (getHeatmapWeekStartSunday endDate) - getTime off startSunday) div MS_PER_WEEK + 1"

definition countHeatmapWeekDaysOnOrAfter :: "(int \<Rightarrow> int) \<Rightarrow> jsdate \<Rightarrow> jsdate \<Rightarrow> int" where
  "countHeatmapWeekDaysOnOrAfter off weekStart threshold =
     (let day = reset_hours weekStart; cutoff = reset_hours threshold in
      int (length (filter (\<lambda>i. getTime off cutoff \<le> getTime off (add_days i day)) [0..6])))"

text \<open>The loop ends when a week has enough days; with more than seven it would not.\<close>

partial_function (option) skip_weeks :: "(int \<Rightarrow> int) \<Rightarrow> jsdate \<Rightarrow> int \<Rightarrow> jsdate \<Rightarrow> jsdate option" where
  "skip_weeks off rangeStart minDays startDate =
     (if countHeatmapWeekDaysOnOrAfter off startDate rangeStart < minDays
      then skip_weeks off rangeStart minDays (add_days 7 startDate) else Some startDate)"

definition getHeatmapWeekStartAlignedToRange :: "(int \<Rightarrow> int) \<Rightarrow> jsdate \<Rightarrow> int \<Rightarrow> jsdate option" where
  "getHeatmapWeekStartAlignedToRange off rangeStart minDaysInFirstWeek =
     (let startDate = getHeatmapWeekStartSunday rangeStart; weekEnd = add_days 6 startDate in
      if getTime off startDate \<le> getTime off rangeStart \<and> getTime off rangeStart \<le> getTime off weekEnd then Some startDate
      else skip_weeks off rangeStart minDaysInFirstWeek startDate)"

record HeatmapWeekRange =
  wr_startDate :: jsdate
  wr_weekCount :: int
  wr_rangeStart :: "jsdate option"

definition resolveHeatmapWeekRange :: "(int \<Rightarrow> int) \<Rightarrow> jsdate \<Rightarrow> int \<Rightarrow> HeatmapWeekRange option" where
  "resolveHeatmapWeekRange off today weeks =
     (let endDate = reset_hours today in
      if weeks = HEATMAP_WEEKS_ONE_YEAR then
        (let rangeStart = getHeatmapYearStartMonth endDate in
         map_option (\<lambda>startDate. \<lparr>wr_startDate = startDate, wr_weekCount = getHeatmapWeekCount off startDate endDate,
             wr_rangeStart = Some rangeStart\<rparr>)
           (getHeatmapWeekStartAlignedToRange off rangeStart 4))
      else
        (let t = add_days (- ((weeks - 1) * 7)) endDate; startDate = reset_hours (add_days (- weekday_of (on_day t)) t)
         in Some \<lparr>wr_startDate = startDate, wr_weekCount = weeks, wr_rangeStart = None\<rparr>))"

subsection \<open>Columns\<close>

text \<open>The interface HeatmapBin declares its date as a Date that is always there, so the guards the code puts before some of
  its reads (bin.date \<^verbatim>\<open>&&\<close>, firstDate) can only fail on data that break the interface; a column without bins, whose
  first and last date are missing, is a case of its own.\<close>

record HeatmapBin =
  hb_count :: jsnum
  hb_bin :: jsnum
  hb_date :: jsdate

record HeatmapColumn =
  hc_bin :: jsnum
  hc_bins :: "HeatmapBin list"

definition first_of_month :: "jsdate \<Rightarrow> jsdate" where
  "first_of_month t = midnight (make_day (year_of (on_day t)) (month_of (on_day t)) 1)"

definition getHeatmapColumnMonthAnchor :: "HeatmapColumn \<Rightarrow> jsdate option" where
  "getHeatmapColumnMonthAnchor column =
     (case List.find (\<lambda>b. date_of (on_day (hb_date b)) = 1) (hc_bins column) of
        Some b \<Rightarrow> Some (hb_date b)
      | None \<Rightarrow> map_option (\<lambda>b. first_of_month (hb_date b)) (js_first (hc_bins column)))"

definition getHeatmapColumnStartDate :: "HeatmapColumn \<Rightarrow> jsdate option" where
  "getHeatmapColumnStartDate column = map_option hb_date (js_first (hc_bins column))"

definition getHeatmapColumnEndDate :: "HeatmapColumn \<Rightarrow> jsdate option" where
  "getHeatmapColumnEndDate column = map_option hb_date (js_last (hc_bins column))"

definition getHeatmapTimeExtent :: "HeatmapColumn list \<Rightarrow> (jsdate \<times> jsdate) option" where
  "getHeatmapTimeExtent columns =
     (case (js_first columns, js_last columns) of
        (Some c, Some d) \<Rightarrow>
          (case (getHeatmapColumnStartDate c, getHeatmapColumnEndDate d) of
             (Some s, Some e) \<Rightarrow> Some (s, e) | _ \<Rightarrow> None)
      | _ \<Rightarrow> None)"

definition filterHeatmapColumns :: "(int \<Rightarrow> int) \<Rightarrow> HeatmapColumn list \<Rightarrow> (jsdate \<times> jsdate) option \<Rightarrow> HeatmapColumn list" where
  "filterHeatmapColumns off columns xDomain =
     (case xDomain of
        None \<Rightarrow> columns
      | Some (a, b) \<Rightarrow>
          (let start = min (getTime off a) (getTime off b); stop = max (getTime off a) (getTime off b) in
           filter (\<lambda>c. case (getHeatmapColumnStartDate c, getHeatmapColumnEndDate c) of
               (Some s, Some e) \<Rightarrow> start \<le> getTime off e \<and> getTime off s \<le> stop | _ \<Rightarrow> False) columns))"

subsection \<open>Labels\<close>

definition MONTH_NAMES :: "string list" where
  "MONTH_NAMES = [''January'', ''February'', ''March'', ''April'', ''May'', ''June'', ''July'', ''August'', ''September'',
     ''October'', ''November'', ''December'']"

definition WEEKDAY_NAMES :: "string list" where
  "WEEKDAY_NAMES = [''Sunday'', ''Monday'', ''Tuesday'', ''Wednesday'', ''Thursday'', ''Friday'', ''Saturday'']"

definition formatHeatmapOrdinalDay :: "int \<Rightarrow> string" where
  "formatHeatmapOrdinalDay day =
     string_of_int day @
     (if 11 \<le> day \<and> day \<le> 13 then ''th''
      else if day mod 10 = 1 then ''st'' else if day mod 10 = 2 then ''nd'' else if day mod 10 = 3 then ''rd'' else ''th'')"

definition formatHeatmapTooltipDate :: "jsdate \<Rightarrow> string" where
  "formatHeatmapTooltipDate t =
     MONTH_NAMES ! nat (month_of (on_day t)) @ '' '' @ formatHeatmapOrdinalDay (date_of (on_day t)) @ '' ''
       @ string_of_int (year_of (on_day t))"

definition formatHeatmapTooltipWeekday :: "jsdate \<Rightarrow> string" where
  "formatHeatmapTooltipWeekday t = WEEKDAY_NAMES ! nat (weekday_of (on_day t))"

definition formatHeatmapContributionLabel :: "jsnum \<Rightarrow> string" where
  "formatHeatmapContributionLabel count =
     num_to_string count @ '' '' @ (if js_eq count (Fin 1) then ''contribution'' else ''contributions'')"

definition HEATMAP_DAY_LABELS :: "string list" where
  "HEATMAP_DAY_LABELS = [''Sun'', ''Mon'', ''Tue'', ''Wed'', ''Thu'', ''Fri'', ''Sat'']"

definition getHeatmapDayLabels :: "nat \<Rightarrow> string list" where
  "getHeatmapDayLabels weekStartDay =
     (if weekStartDay = 0 then HEATMAP_DAY_LABELS
      else drop weekStartDay HEATMAP_DAY_LABELS @ take weekStartDay HEATMAP_DAY_LABELS)"

definition rotateHeatmapColumnBins :: "HeatmapColumn list \<Rightarrow> nat \<Rightarrow> HeatmapColumn list" where
  "rotateHeatmapColumnBins columns weekStartDay =
     (if weekStartDay = 0 then columns
      else map (\<lambda>c. c\<lparr>hc_bins := drop weekStartDay (hc_bins c) @ take weekStartDay (hc_bins c)\<rparr>) columns)"

datatype HeatmapYAxisTickFilter = Tick_All | Tick_Odd | Tick_Even
datatype HeatmapYAxisLabelFormat = Label_Full | Label_Initial

definition formatHeatmapYAxisLabel :: "string \<Rightarrow> HeatmapYAxisLabelFormat \<Rightarrow> string" where
  "formatHeatmapYAxisLabel label labelFormat = (if labelFormat = Label_Initial then take 1 label else label)"

fun shouldShowHeatmapYAxisTick :: "int \<Rightarrow> HeatmapYAxisTickFilter \<Rightarrow> bool" where
  "shouldShowHeatmapYAxisTick row Tick_All = True"
| "shouldShowHeatmapYAxisTick row Tick_Odd = (row mod 2 = 1)"
| "shouldShowHeatmapYAxisTick row Tick_Even = (row mod 2 = 0)"

subsection \<open>Separators\<close>

datatype HeatmapSeparatorGroupBy = By_Every | By_Quarter

record HeatmapSeparatorParsedConfig =
  sc_groupBy :: HeatmapSeparatorGroupBy
  sc_every :: "int option"
  sc_spacing :: jsnum

record HeatmapSeparatorGroup =
  sg_startColumnIndex :: nat
  sg_quarter :: int
  sg_year :: int
  sg_startDate :: jsdate
  sg_label :: string

record HeatmapSeparatorLayout =
  sl_spacing :: jsnum
  sl_atColumns :: "nat list"
  sl_groups :: "HeatmapSeparatorGroup list"

record HeatmapSeparatorGradient =
  gr_from :: string
  gr_via :: "string option"
  gr_to :: string
  gr_fromOpacity :: "jsnum option"
  gr_viaOpacity :: "jsnum option"
  gr_toOpacity :: "jsnum option"

definition buildHeatmapSeparatorGradientStops :: "HeatmapSeparatorGradient \<Rightarrow> jsnum \<Rightarrow> (string \<times> string \<times> jsnum) list" where
  "buildHeatmapSeparatorGradientStops gradient strokeOpacity =
     (let scaleOpacity = (\<lambda>v. js_mul (get_or v (Fin 1)) strokeOpacity) in
      case gr_via gradient of
        Some via \<Rightarrow>
          [(''0%'', gr_from gradient, scaleOpacity (gr_fromOpacity gradient)),
           (''50%'', via, scaleOpacity (gr_viaOpacity gradient)),
           (''100%'', gr_to gradient, scaleOpacity (gr_toOpacity gradient))]
      | None \<Rightarrow>
          [(''0%'', gr_from gradient, scaleOpacity (gr_fromOpacity gradient)),
           (''100%'', gr_to gradient, scaleOpacity (gr_toOpacity gradient))])"

definition resolveHeatmapSeparatorStrokeDasharray :: "bool \<Rightarrow> string option \<Rightarrow> string option" where
  "resolveHeatmapSeparatorStrokeDasharray dashed strokeDasharray = (if \<not> dashed then None else Some (get_or strokeDasharray ''4,4''))"

definition getCalendarQuarter :: "jsdate \<Rightarrow> int" where
  "getCalendarQuarter t = month_of (on_day t) div 3 + 1"

definition CALENDAR_QUARTER_START_MONTHS :: "int list" where
  "CALENDAR_QUARTER_START_MONTHS = [0, 3, 6, 9]"

definition getCalendarQuarterStartDatesBetween :: "(int \<Rightarrow> int) \<Rightarrow> jsdate \<Rightarrow> jsdate \<Rightarrow> jsdate list" where
  "getCalendarQuarterStartDatesBetween off gridStart gridEnd =
     concat (map (\<lambda>year.
         filter (\<lambda>t. getTime off gridStart < getTime off t \<and> getTime off t \<le> getTime off gridEnd)
           (map (\<lambda>month. midnight (make_day year month 1)) CALENDAR_QUARTER_START_MONTHS))
       [year_of (on_day gridStart)..year_of (on_day gridEnd)])"

text \<open>What the search leaves of a column it has looked at: the first and the last date at midnight.\<close>

definition reset_bin :: "HeatmapBin \<Rightarrow> HeatmapBin" where
  "reset_bin b = b\<lparr>hb_date := reset_hours (hb_date b)\<rparr>"

definition reset_ends :: "HeatmapColumn \<Rightarrow> HeatmapColumn" where
  "reset_ends c =
     c\<lparr>hc_bins := (case hc_bins c of
          [] \<Rightarrow> [] | b # bs \<Rightarrow> (if bs = [] then [reset_bin b] else reset_bin b # butlast bs @ [reset_bin (last bs)]))\<rparr>"

fun find_column :: "(int \<Rightarrow> int) \<Rightarrow> int \<Rightarrow> HeatmapColumn list \<Rightarrow> nat option \<times> HeatmapColumn list" where
  "find_column off targetTime [] = (None, [])"
| "find_column off targetTime (c # cs) =
     (case (getHeatmapColumnStartDate c, getHeatmapColumnEndDate c) of
        (Some s, Some e) \<Rightarrow>
          if getTime off (reset_hours s) \<le> targetTime \<and> targetTime \<le> getTime off (reset_hours e) then (Some 0, reset_ends c # cs)
          else (let (i, cs') = find_column off targetTime cs in (map_option Suc i, reset_ends c # cs'))
      | _ \<Rightarrow> (let (i, cs') = find_column off targetTime cs in (map_option Suc i, c # cs')))"

definition findHeatmapColumnIndexForDate :: "(int \<Rightarrow> int) \<Rightarrow> HeatmapColumn list \<Rightarrow> jsdate \<Rightarrow> nat option \<times> HeatmapColumn list" where
  "findHeatmapColumnIndexForDate off columns date = find_column off (getTime off (reset_hours date)) columns"

definition getHeatmapColumnQuarterAnchor :: "HeatmapColumn \<Rightarrow> (int \<times> int \<times> jsdate) option" where
  "getHeatmapColumnQuarterAnchor column =
     (case List.find (\<lambda>b. date_of (on_day (hb_date b)) = 1 \<and> month_of (on_day (hb_date b)) mod 3 = 0) (hc_bins column) of
        Some b \<Rightarrow> Some (month_of (on_day (hb_date b)) div 3 + 1, year_of (on_day (hb_date b)), hb_date b)
      | None \<Rightarrow>
          (case getHeatmapColumnStartDate column of
             None \<Rightarrow> None
           | Some t \<Rightarrow>
               (let quarter = getCalendarQuarter t; y = year_of (on_day t)
                in Some (quarter, y, midnight (make_day y ((quarter - 1) * 3) 1)))))"

text \<open>The loop breaks at the first start beyond the column.\<close>

fun group_start :: "nat \<Rightarrow> nat \<Rightarrow> nat list \<Rightarrow> nat" where
  "group_start groupStart columnIndex [] = groupStart"
| "group_start groupStart columnIndex (start # rest) =
     (if start \<le> columnIndex then group_start start columnIndex rest else groupStart)"

definition getHeatmapSeparatorGroupStartColumn :: "nat \<Rightarrow> nat list \<Rightarrow> nat" where
  "getHeatmapSeparatorGroupStartColumn columnIndex atColumns = group_start 0 columnIndex atColumns"

definition getHeatmapMonthLabelColumnIndex :: "nat \<Rightarrow> nat list option \<Rightarrow> nat" where
  "getHeatmapMonthLabelColumnIndex columnIndex atColumns =
     (case atColumns of
        None \<Rightarrow> columnIndex
      | Some cs \<Rightarrow> if cs = [] then columnIndex else getHeatmapSeparatorGroupStartColumn columnIndex cs)"

function every_from :: "int \<Rightarrow> int \<Rightarrow> int \<Rightarrow> int list" where
  "every_from columnIndex columnCount every =
     (if every \<le> 0 then [] else if columnIndex < columnCount then columnIndex # every_from (columnIndex + every) columnCount every else [])"
  by pat_completeness auto
termination by (relation "measure (\<lambda>(i, n, _). nat (n - i))") auto

definition getHeatmapSeparatorColumnIndices :: "int \<Rightarrow> int \<Rightarrow> int list" where
  "getHeatmapSeparatorColumnIndices columnCount every =
     (if every \<le> 0 \<or> columnCount \<le> every then [] else every_from every columnCount every)"

declare every_from.simps [simp del]

fun first_aligned :: "(int \<Rightarrow> int) \<Rightarrow> jsdate \<Rightarrow> jsdate \<Rightarrow> int list \<Rightarrow> jsdate option" where
  "first_aligned off today gridStart [] = None"
| "first_aligned off today gridStart (months # rest) =
     (let rangeStart = getHeatmapCalendarRangeStart today months in
      case getHeatmapWeekStartAlignedToRange off rangeStart 4 of
        Some alignedStart \<Rightarrow>
          if getTime off gridStart = getTime off alignedStart then Some rangeStart else first_aligned off today gridStart rest
      | None \<Rightarrow> None)"

definition inferHeatmapCalendarRangeStart :: "(int \<Rightarrow> int) \<Rightarrow> jsdate \<Rightarrow> HeatmapColumn list \<Rightarrow> jsdate option" where
  "inferHeatmapCalendarRangeStart off now columns =
     (case js_first columns of
        None \<Rightarrow> None
      | Some c \<Rightarrow>
          (case getHeatmapColumnStartDate c of
             None \<Rightarrow> None
           | Some gridStart \<Rightarrow>
               first_aligned off (reset_hours now) gridStart [HEATMAP_MONTHS_SIX, HEATMAP_MONTHS_ONE_YEAR]))"

record HeatmapDisplayRange =
  dr_start :: "jsdate option"
  dr_end :: "jsdate option"

definition resolveHeatmapDisplayRange :: "(int \<Rightarrow> int) \<Rightarrow> jsdate \<Rightarrow> HeatmapColumn list \<Rightarrow> HeatmapDisplayRange" where
  "resolveHeatmapDisplayRange off now columns =
     (case (getHeatmapTimeExtent columns, inferHeatmapCalendarRangeStart off now columns) of
        (Some (_, stop), Some start) \<Rightarrow>
          if getTime off (reset_hours now) \<le> getTime off stop then \<lparr>dr_start = Some start, dr_end = Some (reset_hours now)\<rparr>
          else \<lparr>dr_start = None, dr_end = None\<rparr>
      | _ \<Rightarrow> \<lparr>dr_start = None, dr_end = None\<rparr>)"

definition quarter_label :: "int \<Rightarrow> string" where
  "quarter_label q = ''Q'' @ string_of_int q"

fun quarter_loop ::
  "(int \<Rightarrow> int) \<Rightarrow> jsdate list \<Rightarrow> nat list \<Rightarrow> HeatmapSeparatorGroup list \<Rightarrow> HeatmapColumn list
    \<Rightarrow> HeatmapSeparatorGroup list \<times> HeatmapColumn list" where
  "quarter_loop off [] used groups columns = (groups, columns)"
| "quarter_loop off (t # ts) used groups columns =
     (case findHeatmapColumnIndexForDate off columns t of
        (None, columns') \<Rightarrow> quarter_loop off ts used groups columns'
      | (Some i, columns') \<Rightarrow>
          if i = 0 \<or> i \<in> set used then quarter_loop off ts used groups columns'
          else quarter_loop off ts (used @ [i])
                 (groups @ [\<lparr>sg_startColumnIndex = i, sg_quarter = getCalendarQuarter t, sg_year = year_of (on_day t),
                    sg_startDate = t, sg_label = quarter_label (getCalendarQuarter t)\<rparr>]) columns')"

text \<open>When the range falls back to the extent, the start of the first group is the date of the first bin itself,
  which the first search of the loop sets to midnight.\<close>

definition buildHeatmapQuarterSeparatorGroups ::
  "(int \<Rightarrow> int) \<Rightarrow> jsdate \<Rightarrow> HeatmapColumn list \<Rightarrow> HeatmapSeparatorGroup list \<times> HeatmapColumn list" where
  "buildHeatmapQuarterSeparatorGroups off now columns =
     (case getHeatmapTimeExtent columns of
        None \<Rightarrow> ([], columns)
      | Some (extentStart, gridEnd) \<Rightarrow>
          (let inferred = or_else (dr_start (resolveHeatmapDisplayRange off now columns))
                                  (inferHeatmapCalendarRangeStart off now columns);
               rangeStart = get_or inferred extentStart;
               starts = getCalendarQuarterStartDatesBetween off rangeStart gridEnd;
               shown = (if inferred = None \<and> starts \<noteq> [] then reset_hours rangeStart else rangeStart);
               firstQuarter = getCalendarQuarter rangeStart;
               first = \<lparr>sg_startColumnIndex = 0, sg_quarter = firstQuarter, sg_year = year_of (on_day rangeStart),
                 sg_startDate = shown, sg_label = quarter_label firstQuarter\<rparr>;
               (groups, columns') = quarter_loop off starts [0] [first] columns
           in (sort_key sg_startColumnIndex groups, columns')))"

definition resolveHeatmapSeparatorLayout ::
  "(int \<Rightarrow> int) \<Rightarrow> jsdate \<Rightarrow> HeatmapSeparatorParsedConfig option \<Rightarrow> HeatmapColumn list
    \<Rightarrow> HeatmapSeparatorLayout option \<times> HeatmapColumn list" where
  "resolveHeatmapSeparatorLayout off now config columns =
     (case config of
        None \<Rightarrow> (None, columns)
      | Some c \<Rightarrow>
          if sc_groupBy c = By_Quarter then
            (let (groups, columns') = buildHeatmapQuarterSeparatorGroups off now columns in
             if groups = [] then (None, columns')
             else (Some \<lparr>sl_spacing = sc_spacing c, sl_atColumns = filter (\<lambda>i. 0 < i) (map sg_startColumnIndex groups),
                     sl_groups = groups\<rparr>, columns'))
          else
            (case sc_every c of
               None \<Rightarrow> (None, columns)
             | Some n \<Rightarrow>
                 if n \<le> 0 then (None, columns)
                 else (Some \<lparr>sl_spacing = sc_spacing c,
                         sl_atColumns = map nat (getHeatmapSeparatorColumnIndices (int (length columns)) n), sl_groups = []\<rparr>, columns)))"

definition getHeatmapSeparatorCount :: "nat list option \<Rightarrow> nat" where
  "getHeatmapSeparatorCount atColumns = (case atColumns of None \<Rightarrow> 0 | Some cs \<Rightarrow> length cs)"

definition js_of_nat :: "nat \<Rightarrow> jsnum" where
  "js_of_nat n = Fin (of_nat n)"

definition getHeatmapColumnXOffset :: "nat \<Rightarrow> HeatmapSeparatorLayout option \<Rightarrow> jsnum" where
  "getHeatmapColumnXOffset columnIndex separator =
     (case separator of
        None \<Rightarrow> Fin 0
      | Some s \<Rightarrow>
          if js_le (sl_spacing s) (Fin 0) then Fin 0
          else if columnIndex = 0 then Fin 0
          else js_mul (js_of_nat (length (filter (\<lambda>col. col \<le> columnIndex) (sl_atColumns s)))) (sl_spacing s))"

definition getHeatmapPlotInnerWidth :: "nat \<Rightarrow> jsnum \<Rightarrow> HeatmapSeparatorLayout option \<Rightarrow> jsnum" where
  "getHeatmapPlotInnerWidth columnCount binWidth separator =
     (case separator of
        None \<Rightarrow> js_add (js_mul (js_of_nat columnCount) binWidth) (Fin 0)
      | Some s \<Rightarrow>
          js_add (js_mul (js_of_nat columnCount) binWidth)
            (js_mul (js_of_nat (getHeatmapSeparatorCount (Some (sl_atColumns s)))) (sl_spacing s)))"

definition getHeatmapSeparatorLineY :: "jsnum \<Rightarrow> jsnum \<Rightarrow> jsnum option \<Rightarrow> jsnum \<Rightarrow> jsnum \<times> jsnum" where
  "getHeatmapSeparatorLineY innerHeight marginTop startOffset paddingY =
     (let y1 = js_add (js_sub (get_or startOffset marginTop) marginTop) paddingY
      in (y1, js_max2 (js_sub innerHeight paddingY) y1))"

definition getHeatmapSeparatorX :: "nat \<Rightarrow> jsnum \<Rightarrow> jsnum \<Rightarrow> (nat \<Rightarrow> jsnum) \<Rightarrow> jsnum" where
  "getHeatmapSeparatorX columnIndex gap spacing xScale =
     (if js_lt (Fin 0) spacing then js_sub (xScale columnIndex) (js_div spacing (Fin 2))
      else js_sub (xScale columnIndex) (js_div gap (Fin 2)))"

definition isHeatmapGhostBin :: "(int \<Rightarrow> int) \<Rightarrow> HeatmapBin \<Rightarrow> HeatmapDisplayRange \<Rightarrow> bool" where
  "isHeatmapGhostBin off b rng \<longleftrightarrow>
     (let time = getTime off (hb_date b) in
      (case dr_end rng of None \<Rightarrow> False | Some e \<Rightarrow> getTime off e < time)
      \<or> (case dr_start rng of None \<Rightarrow> False | Some s \<Rightarrow> time < getTime off s))"

subsection \<open>Levels, hover and rows\<close>

definition getHeatmapContributionLevel :: "jsnum \<Rightarrow> nat" where
  "getHeatmapContributionLevel count =
     (if js_le count (Fin 0) then 0 else if js_eq count (Fin 1) then 1 else if js_eq count (Fin 2) then 2
      else if js_eq count (Fin 3) then 3 else 4)"

record HeatmapHoverStyleParams =
  hp_inactiveOpacity :: jsnum
  hp_inactiveScale :: jsnum
  hp_activeScale :: jsnum

definition isHeatmapHoverEffectEnabled :: "HeatmapHoverStyleParams \<Rightarrow> bool" where
  "isHeatmapHoverEffectEnabled p \<longleftrightarrow>
     \<not> js_eq (hp_inactiveOpacity p) (Fin 1) \<or> \<not> js_eq (hp_inactiveScale p) (Fin 1) \<or> \<not> js_eq (hp_activeScale p) (Fin 1)"

definition isHeatmapInactiveEffectEnabled :: "jsnum \<Rightarrow> jsnum \<Rightarrow> bool" where
  "isHeatmapInactiveEffectEnabled inactiveOpacity inactiveScale =
     isHeatmapHoverEffectEnabled \<lparr>hp_inactiveOpacity = inactiveOpacity, hp_inactiveScale = inactiveScale, hp_activeScale = Fin 1\<rparr>"

definition resolveHeatmapHoverStyle :: "bool \<Rightarrow> bool \<Rightarrow> HeatmapHoverStyleParams \<Rightarrow> jsnum \<times> jsnum" where
  "resolveHeatmapHoverStyle isHighlighted isDimmed p =
     (if isHighlighted \<and> \<not> js_eq (hp_activeScale p) (Fin 1) then (Fin 1, hp_activeScale p)
      else if isDimmed then (hp_inactiveOpacity p, hp_inactiveScale p)
      else (Fin 1, Fin 1))"

definition resolveHeatmapInactiveStyle :: "bool \<Rightarrow> jsnum \<Rightarrow> jsnum \<Rightarrow> jsnum \<times> jsnum" where
  "resolveHeatmapInactiveStyle isInactive inactiveOpacity inactiveScale =
     resolveHeatmapHoverStyle False isInactive
       \<lparr>hp_inactiveOpacity = inactiveOpacity, hp_inactiveScale = inactiveScale, hp_activeScale = Fin 1\<rparr>"

datatype row_opacity = Same_Opacity jsnum | Opacities "jsnum list"

definition resolveHeatmapRowOpacity :: "nat \<Rightarrow> row_opacity option \<Rightarrow> jsnum" where
  "resolveHeatmapRowOpacity row rowOpacity =
     (case rowOpacity of
        None \<Rightarrow> Fin 1
      | Some (Same_Opacity x) \<Rightarrow> x
      | Some (Opacities xs) \<Rightarrow> if row < length xs then xs ! row else Fin 1)"

datatype row_match = Match_Rows "int list" | Match_If "nat \<Rightarrow> bool"

definition set_faded :: "jsnum \<Rightarrow> nat \<Rightarrow> int \<Rightarrow> jsnum list \<Rightarrow> jsnum list" where
  "set_faded fadedOpacity rowCount row xs = (if 0 \<le> row \<and> row < int rowCount then xs[nat row := fadedOpacity] else xs)"

definition buildHeatmapRowOpacity :: "row_match \<Rightarrow> jsnum \<Rightarrow> jsnum \<Rightarrow> nat \<Rightarrow> jsnum list" where
  "buildHeatmapRowOpacity match fadedOpacity activeOpacity rowCount =
     (case match of
        Match_If f \<Rightarrow> map (\<lambda>row. if f row then fadedOpacity else activeOpacity) [0..<rowCount]
      | Match_Rows rows \<Rightarrow> fold (set_faded fadedOpacity rowCount) rows (replicate rowCount activeOpacity))"

definition buildHeatmapLegendGradient :: "string list \<Rightarrow> string" where
  "buildHeatmapLegendGradient colors =
     (let lastIndex = length colors - 1;
          stop = (\<lambda>(i, color). color @ '' '' @
            num_to_string (if lastIndex = 0 then Fin 0 else js_mul (js_div (js_of_nat i) (js_of_nat lastIndex)) (Fin 100)) @ ''%'')
      in ''linear-gradient(to right, '' @ js_join '', '' (map stop (zip [0..<length colors] colors)) @ '')'')"

subsection \<open>The configuration of the separators\<close>

record separator_props =
  sp_groupBy :: "HeatmapSeparatorGroupBy option"
  sp_every :: "int option"
  sp_spacing :: "jsnum option"

definition readHeatmapSeparatorConfig :: "separator_props \<Rightarrow> HeatmapSeparatorParsedConfig option" where
  "readHeatmapSeparatorConfig props =
     (if get_or (sp_groupBy props) By_Every = By_Quarter
      then Some \<lparr>sc_groupBy = By_Quarter, sc_every = None, sc_spacing = get_or (sp_spacing props) (Fin 0)\<rparr>
      else case sp_every props of
             None \<Rightarrow> None
           | Some n \<Rightarrow>
               if n \<le> 0 then None
               else Some \<lparr>sc_groupBy = By_Every, sc_every = Some n, sc_spacing = get_or (sp_spacing props) (Fin 0)\<rparr>)"

definition normalizeHeatmapSeparatorConfig :: "HeatmapSeparatorParsedConfig option \<Rightarrow> HeatmapSeparatorParsedConfig option" where
  "normalizeHeatmapSeparatorConfig config =
     (case config of
        None \<Rightarrow> None
      | Some c \<Rightarrow>
          if sc_groupBy c = By_Quarter then Some \<lparr>sc_groupBy = By_Quarter, sc_every = None, sc_spacing = sc_spacing c\<rparr>
          else case sc_every c of
                 None \<Rightarrow> None
               | Some n \<Rightarrow> if n \<le> 0 then None else Some \<lparr>sc_groupBy = By_Every, sc_every = Some n, sc_spacing = sc_spacing c\<rparr>)"

text \<open>A child of the chart: a separator, or another element with its own children. The search stops at the
  first separator whose configuration is accepted and does not look into a separator.\<close>

datatype chart_child = Separator separator_props | Other "chart_child list"

fun visit_child :: "chart_child \<Rightarrow> HeatmapSeparatorParsedConfig option"
  and visit_children :: "chart_child list \<Rightarrow> HeatmapSeparatorParsedConfig option" where
  "visit_child (Separator props) = readHeatmapSeparatorConfig props"
| "visit_child (Other children) = visit_children children"
| "visit_children [] = None"
| "visit_children (c # cs) = (case visit_child c of Some config \<Rightarrow> Some config | None \<Rightarrow> visit_children cs)"

definition resolveHeatmapSeparatorConfig ::
  "chart_child list \<Rightarrow> HeatmapSeparatorParsedConfig option \<Rightarrow> HeatmapSeparatorParsedConfig option" where
  "resolveHeatmapSeparatorConfig children chartSeparators =
     or_else (visit_children children) (normalizeHeatmapSeparatorConfig chartSeparators)"

definition resolveHeatmapSeparatorConfigWithData ::
  "(int \<Rightarrow> int) \<Rightarrow> jsdate \<Rightarrow> chart_child list \<Rightarrow> HeatmapColumn list \<Rightarrow> HeatmapSeparatorParsedConfig option
    \<Rightarrow> HeatmapSeparatorLayout option \<times> HeatmapColumn list" where
  "resolveHeatmapSeparatorConfigWithData off now children columns chartSeparators =
     resolveHeatmapSeparatorLayout off now (resolveHeatmapSeparatorConfig children chartSeparators) columns"

subsection \<open>The chart\<close>

record Margin =
  mg_top :: jsnum
  mg_right :: jsnum
  mg_bottom :: jsnum
  mg_left :: jsnum

record heatmap_dimensions =
  hd_binWidth :: jsnum
  hd_binHeight :: jsnum
  hd_innerWidth :: jsnum
  hd_innerHeight :: jsnum
  hd_height :: jsnum
  hd_width :: jsnum

datatype HeatmapLayout = Fluid | Fill

definition computeHeatmapDimensions ::
  "jsnum \<Rightarrow> jsnum \<Rightarrow> Margin \<Rightarrow> nat \<Rightarrow> nat \<Rightarrow> jsnum \<Rightarrow> HeatmapLayout \<Rightarrow> HeatmapSeparatorLayout option \<Rightarrow> heatmap_dimensions" where
  "computeHeatmapDimensions width parentHeight margin columnCount rowCount binSize layout separator =
     (let innerWidth = js_max2 (js_sub (js_sub width (mg_left margin)) (mg_right margin)) (Fin 0);
          availableHeight = js_max2 (js_sub (js_sub parentHeight (mg_top margin)) (mg_bottom margin)) (Fin 0);
          totalSpacing = (case separator of None \<Rightarrow> Fin 0
            | Some s \<Rightarrow> js_mul (js_of_nat (getHeatmapSeparatorCount (Some (sl_atColumns s)))) (sl_spacing s));
          fluidSize = js_max2 (js_div (js_sub innerWidth totalSpacing) (js_of_nat columnCount)) (Fin 0);
          size = (if js_lt (Fin 0) binSize then binSize
                  else if layout = Fluid then fluidSize
                  else js_min2 fluidSize (js_div availableHeight (js_of_nat rowCount)));
          plotInnerWidth = getHeatmapPlotInnerWidth columnCount size separator;
          innerHeight = js_mul (js_of_nat rowCount) size;
          content = js_add (js_add (mg_top margin) innerHeight) (mg_bottom margin)
      in \<lparr>hd_binWidth = size, hd_binHeight = size, hd_innerWidth = plotInnerWidth, hd_innerHeight = innerHeight,
          hd_height = (if layout = Fluid then content else js_max2 parentHeight content),
          hd_width = (if js_lt (Fin 0) binSize \<and> layout = Fluid
                      then js_add (js_add (mg_left margin) plotInnerWidth) (mg_right margin) else width)\<rparr>)"

text \<open>The data the chart draws and the separators it computes from them.\<close>

definition visibleData :: "(int \<Rightarrow> int) \<Rightarrow> HeatmapColumn list \<Rightarrow> (jsdate \<times> jsdate) option \<Rightarrow> nat \<Rightarrow> HeatmapColumn list" where
  "visibleData off columns xDomain weekStartDay = rotateHeatmapColumnBins (filterHeatmapColumns off columns xDomain) weekStartDay"

definition heatmap_columnCount :: "HeatmapColumn list \<Rightarrow> bool \<Rightarrow> nat option \<Rightarrow> nat" where
  "heatmap_columnCount visible hasDomain sizingColumnCount =
     (case sizingColumnCount of
        Some n \<Rightarrow> if hasDomain then max n 1 else max (length visible) 1
      | None \<Rightarrow> max (length visible) 1)"

definition heatmap_rowCount :: "HeatmapColumn list \<Rightarrow> nat" where
  "heatmap_rowCount visible = max (case visible of [] \<Rightarrow> 7 | c # _ \<Rightarrow> length (hc_bins c)) 1"

definition heatmap_xScale :: "jsnum \<Rightarrow> HeatmapSeparatorLayout option \<Rightarrow> nat \<Rightarrow> jsnum" where
  "heatmap_xScale binWidth separator columnIndex =
     js_add (js_mul (js_of_nat columnIndex) binWidth) (getHeatmapColumnXOffset columnIndex separator)"

definition generateHeatmapSkeletonFromTarget :: "HeatmapColumn list \<Rightarrow> HeatmapColumn list" where
  "generateHeatmapSkeletonFromTarget columns =
     map (\<lambda>c. \<lparr>hc_bin = hc_bin c, hc_bins = map (\<lambda>b. b\<lparr>hb_count := Fin 0\<rparr>) (hc_bins c)\<rparr>) columns"

text \<open>The month labels: the month and year of the last label are kept, at the start there is none.\<close>

fun month_ticks :: "nat \<Rightarrow> (int \<times> int) option \<Rightarrow> HeatmapColumn list \<Rightarrow> (nat \<times> int \<times> int) list" where
  "month_ticks columnIndex lastMonthKey [] = []"
| "month_ticks columnIndex lastMonthKey (c # cs) =
     (case getHeatmapColumnMonthAnchor c of
        None \<Rightarrow> month_ticks (Suc columnIndex) lastMonthKey cs
      | Some t \<Rightarrow>
          (let monthKey = (year_of (on_day t), month_of (on_day t)) in
           if lastMonthKey = Some monthKey then month_ticks (Suc columnIndex) lastMonthKey cs
           else (columnIndex, monthKey) # month_ticks (Suc columnIndex) (Some monthKey) cs))"

subsection \<open>Colours and seeds\<close>

definition count_or_zero :: "jsnum option \<Rightarrow> jsnum" where
  "count_or_zero c = get_or c (Fin 0)"

text \<open>The style of a level: its colour, and whether it is a pattern.\<close>

definition colorScaleFromStyles :: "(string \<times> bool) list \<Rightarrow> jsnum option \<Rightarrow> string" where
  "colorScaleFromStyles levelStyles count = fst (levelStyles ! getHeatmapContributionLevel (count_or_zero count))"

definition heatmapLevelPatternId :: "nat \<Rightarrow> string" where
  "heatmapLevelPatternId level = ''heatmap-level-'' @ string_of_int (int level)"

definition buildHeatmapFillScale :: "(string \<times> bool) list \<Rightarrow> jsnum option \<Rightarrow> string" where
  "buildHeatmapFillScale levelStyles count =
     (let level = getHeatmapContributionLevel (count_or_zero count); style = levelStyles ! level in
      if snd style then ''url(#'' @ heatmapLevelPatternId level @ '')'' else fst style)"

definition MINSTD :: int where "MINSTD = 2147483647"

text \<open>The state after seeding with a number that is not negative, and one step of the generator.\<close>

definition seed_state :: "int \<Rightarrow> int" where
  "seed_state seed = (let s = seed mod MINSTD in if s \<le> 0 then s + 2147483646 else s)"

definition next_state :: "int \<Rightarrow> int" where
  "next_state s = (s * 16807) mod MINSTD"

definition random_of :: "int \<Rightarrow> jsnum" where
  "random_of s = js_div (Fin (of_int (s - 1))) (Fin 2147483646)"

definition heatmapCellSeed :: "int \<Rightarrow> int \<Rightarrow> int" where
  "heatmapCellSeed column row = column * 1009 + row * 9176"

definition computeHeatmapLevelRange :: "HeatmapColumn list \<Rightarrow> nat \<times> nat" where
  "computeHeatmapLevelRange columns =
     (case map (\<lambda>b. getHeatmapContributionLevel (hb_count b)) (concat (map hc_bins columns)) of
        [] \<Rightarrow> (0, 4)
      | l # ls \<Rightarrow> (fold min ls l, fold max ls l))"

definition computeHeatmapEnterFadeDelayMs :: "int \<Rightarrow> int \<Rightarrow> int \<Rightarrow> jsnum \<Rightarrow> jsnum \<Rightarrow> jsnum \<Rightarrow> jsnum" where
  "computeHeatmapEnterFadeDelayMs column row revealEpoch animationDurationMs enterStaggerScale fadeDurationSec =
     (let s = next_state (seed_state (heatmapCellSeed column row + revealEpoch * 524287));
          fadeMs = js_mul fadeDurationSec (Fin 1000);
          maxDelayMs = js_max2 (Fin 0) (js_sub animationDurationMs fadeMs);
          spreadMs = js_mul (js_mul maxDelayMs (of_rat_js (3 / 5))) (js_max2 enterStaggerScale (Fin (1 / 4)))
      in js_mul (random_of s) spreadMs)"

definition heatmapLoadingCellParticipates :: "int \<Rightarrow> int \<Rightarrow> jsnum \<Rightarrow> bool" where
  "heatmapLoadingCellParticipates column row randomness \<longleftrightarrow>
     (if js_le (Fin 1) randomness then True else if js_le randomness (Fin 0) then False
      else js_lt (random_of (next_state (seed_state (heatmapCellSeed column row + 73133)))) randomness)"

subsection \<open>Times of midnights\<close>

lemma getTime_midnight: "getTime off (midnight d) = d * MS_PER_DAY - off d"
  by (simp add: getTime_def midnight_def)

lemma zone_bounds: "zone off \<Longrightarrow> - 43200000 \<le> off d \<and> off d \<le> 50400000"
  by (simp add: zone_def)

lemma midnight_step:
  assumes "zone off"
  shows "d * MS_PER_DAY - off d < (d + 1) * MS_PER_DAY - off (d + 1)"
  using assms spec [of "\<lambda>d. off (d + 1) - off d < MS_PER_DAY" d] by (simp add: zone_def algebra_simps)

lemma midnight_less:
  assumes "zone off" "a < b"
  shows "getTime off (midnight a) < getTime off (midnight b)"
  using assms(2)
proof (induction b rule: int_gr_induct)
  case base
  then show ?case using midnight_step [OF assms(1), of a] by (simp add: getTime_midnight)
next
  case (step b)
  then show ?case using midnight_step [OF assms(1), of b] by (simp add: getTime_midnight)
qed

lemma midnight_le: "zone off \<Longrightarrow> getTime off (midnight a) \<le> getTime off (midnight b) \<longleftrightarrow> a \<le> b"
  using midnight_less [of off a b] midnight_less [of off b a] by (cases a b rule: linorder_cases) auto

lemma midnight_lt: "zone off \<Longrightarrow> getTime off (midnight a) < getTime off (midnight b) \<longleftrightarrow> a < b"
  using midnight_le [of off b a] by auto

lemma date_midnight: "at_ms t = 0 \<Longrightarrow> t = midnight (on_day t)"
  by (simp add: midnight_def)

lemma midnight_simps [simp]:
  "on_day (midnight d) = d" "at_ms (midnight d) = 0" "reset_hours (midnight d) = midnight d"
  "add_days n (midnight d) = midnight (d + n)" "midnight a = midnight b \<longleftrightarrow> a = b"
  by (simp_all add: midnight_def reset_hours_def add_days_def)

lemma reset_hours_midnight: "reset_hours t = midnight (on_day t)"
  by (simp add: midnight_def reset_hours_def)

definition sunday_of :: "int \<Rightarrow> int" where
  "sunday_of d = d - weekday_of d"

lemma sunday_of_bounds: "sunday_of d \<le> d" "d \<le> sunday_of d + 6" "weekday_of (sunday_of d) = 0"
  using weekday_range [of d] weekday_shift [of d] by (simp_all add: sunday_of_def)

lemma weekStartSunday: "getHeatmapWeekStartSunday t = midnight (sunday_of (on_day t))"
  by (simp add: getHeatmapWeekStartSunday_def reset_hours_midnight add_days_def sunday_of_def)

text \<open>The first branch is always taken for a range that starts at midnight, so the loop that skips a week is
  never entered and the least number of days has no effect.\<close>

lemma aligned_is_sunday:
  assumes "zone off"
  shows "getHeatmapWeekStartAlignedToRange off (midnight d) minDays = Some (midnight (sunday_of d))"
  using sunday_of_bounds [of d]
  by (simp add: getHeatmapWeekStartAlignedToRange_def weekStartSunday midnight_le [OF assms] Let_def)

lemma week_difference:
  fixes a b :: int
  assumes "zone off" "7 dvd b - a"
  shows "(getTime off (midnight b) - getTime off (midnight a)) div MS_PER_WEEK =
    (b - a) div 7 - (if off a < off b then 1 else 0)"
proof -
  obtain k where k: "b - a = 7 * k" using assms(2) by (elim dvdE)
  have e: "getTime off (midnight b) - getTime off (midnight a) = k * MS_PER_WEEK + (off a - off b)"
    using k by (simp add: getTime_midnight MS_PER_WEEK_def algebra_simps)
  have r: "- MS_PER_WEEK \<le> off a - off b" "off a - off b < MS_PER_WEEK"
    using zone_bounds [OF assms(1), of a] zone_bounds [OF assms(1), of b] by (simp_all add: MS_PER_WEEK_def MS_PER_DAY_def)
  have pos: "0 < MS_PER_WEEK" by (simp add: MS_PER_WEEK_def MS_PER_DAY_def)
  have "(off a - off b) div MS_PER_WEEK = (if off a < off b then - 1 else 0)"
  proof (cases "off a < off b")
    case True
    then have "(off a - off b + MS_PER_WEEK) div MS_PER_WEEK = 0" using r by (intro div_pos_pos_trivial) auto
    then show ?thesis using True pos by simp
  next
    case False
    then show ?thesis using r by (simp add: div_pos_pos_trivial)
  qed
  then show ?thesis unfolding e k using pos by simp
qed

subsection \<open>Grids of weeks\<close>

text \<open>A grid as the data of the chart have it: columns of seven midnights from a Sunday on.\<close>

definition week_bins :: "(int \<Rightarrow> jsnum) \<Rightarrow> int \<Rightarrow> HeatmapBin list" where
  "week_bins counts s = map (\<lambda>j. \<lparr>hb_count = counts (s + j), hb_bin = Fin (of_int j), hb_date = midnight (s + j)\<rparr>) [0..6]"

definition week_grid :: "(int \<Rightarrow> jsnum) \<Rightarrow> int \<Rightarrow> nat \<Rightarrow> HeatmapColumn list" where
  "week_grid counts s n = map (\<lambda>i. \<lparr>hc_bin = js_of_nat i, hc_bins = week_bins counts (s + 7 * int i)\<rparr>) [0..<n]"

lemma week_bins_explicit:
  "week_bins counts s = map (\<lambda>j. \<lparr>hb_count = counts (s + j), hb_bin = Fin (of_int j), hb_date = midnight (s + j)\<rparr>) [0, 1, 2, 3, 4, 5, 6]"
  by (simp add: week_bins_def upto_rec1)

lemma length_week_bins [simp]: "length (week_bins counts s) = 7"
  by (simp add: week_bins_explicit)

lemma nth_week_bins: "r < 7 \<Longrightarrow> hb_date (week_bins counts s ! r) = midnight (s + int r)"
  unfolding week_bins_def by (subst nth_map) (auto simp: nth_upto)

definition rotated_bins :: "nat \<Rightarrow> HeatmapBin list \<Rightarrow> HeatmapBin list" where
  "rotated_bins w bs = drop w bs @ take w bs"

lemma rotated_first_last:
  assumes "w < 7" "length bs = 7"
  shows "js_first (rotated_bins w bs) = Some (bs ! w)" "js_last (rotated_bins w bs) = Some (bs ! ((w + 6) mod 7))"
proof -
  have ne: "rotated_bins w bs \<noteq> []" using assms by (auto simp: rotated_bins_def)
  have h: "hd (rotated_bins w bs) = bs ! w"
    using assms by (simp add: rotated_bins_def hd_append hd_drop_conv_nth)
  have l: "last (rotated_bins w bs) = bs ! ((w + 6) mod 7)"
  proof (cases "w = 0")
    case True
    moreover have "bs \<noteq> []" using assms(2) by auto
    ultimately show ?thesis using assms last_conv_nth [of bs] by (auto simp: rotated_bins_def)
  next
    case False
    then obtain v where v: "w = Suc v" by (cases w) auto
    have "(w + 6) mod 7 = (v + 7) mod 7" by (simp add: v)
    then have "(w + 6) mod 7 = v" using assms(1) v by simp
    moreover have "take w bs \<noteq> []" using assms v by auto
    ultimately show ?thesis using assms v last_conv_nth [of "take w bs"] by (simp add: rotated_bins_def min_def)
  qed
  show "js_first (rotated_bins w bs) = Some (bs ! w)" "js_last (rotated_bins w bs) = Some (bs ! ((w + 6) mod 7))"
    using ne h l by (cases "rotated_bins w bs"; simp add: js_first_def js_last_def)+
qed

subsection \<open>Finding the column of a day\<close>

text \<open>Columns whose first and last date are midnights, with the days of those.\<close>

definition spans :: "HeatmapColumn list \<Rightarrow> (int \<times> int) list \<Rightarrow> bool" where
  "spans cs ab \<longleftrightarrow> list_all2 (\<lambda>c p. getHeatmapColumnStartDate c = Some (midnight (fst p))
     \<and> getHeatmapColumnEndDate c = Some (midnight (snd p)) \<and> reset_ends c = c) cs ab"

fun first_span :: "int \<Rightarrow> (int \<times> int) list \<Rightarrow> nat option" where
  "first_span q [] = None"
| "first_span q ((a, b) # ab) = (if a \<le> q \<and> q \<le> b then Some 0 else map_option Suc (first_span q ab))"

lemma find_column_spans:
  assumes "zone off"
  shows "spans cs ab \<Longrightarrow> find_column off (getTime off (midnight q)) cs = (first_span q ab, cs)"
proof (induction cs arbitrary: ab)
  case (Cons c cs)
  then obtain a b ab' where ab: "ab = (a, b) # ab'" by (cases ab) (auto simp: spans_def)
  then have "find_column off (getTime off (midnight q)) cs = (first_span q ab', cs)"
    using Cons.prems by (intro Cons.IH) (simp add: spans_def)
  then show ?case using Cons.prems by (simp add: ab spans_def midnight_le [OF assms])
qed (simp add: spans_def)

lemma findIndex_spans:
  assumes "zone off" "spans cs ab" "at_ms t = 0"
  shows "findHeatmapColumnIndexForDate off cs t = (first_span (on_day t) ab, cs)"
  using find_column_spans [OF assms(1,2), of "on_day t"]
  by (simp add: findHeatmapColumnIndexForDate_def reset_hours_midnight)

lemma first_span_weeks:
  "first_span q (map (\<lambda>i. (s + 7 * int i, s + 7 * int i + 6)) [0..<n]) =
    (if s \<le> q \<and> q < s + 7 * int n then Some (nat ((q - s) div 7)) else None)"
proof (induction n arbitrary: s)
  case (Suc n)
  have "map (\<lambda>i. (s + 7 * int i, s + 7 * int i + 6)) [0..<Suc n] =
      (s, s + 6) # map (\<lambda>i. ((s + 7) + 7 * int i, (s + 7) + 7 * int i + 6)) [0..<n]"
    by (simp add: upt_conv_Cons map_Suc_upt [symmetric] o_def algebra_simps del: upt_Suc map_Suc_upt)
  moreover have "(q - s) div 7 = 0" if "s \<le> q" "q \<le> s + 6" using that by (simp add: div_pos_pos_trivial)
  moreover have "nat ((q - s) div 7) = Suc (nat ((q - (s + 7)) div 7))" if "s + 7 \<le> q"
  proof -
    have "(q - s) div 7 = (q - (s + 7) + 7) div 7" by (simp add: algebra_simps)
    also have "\<dots> = (q - (s + 7)) div 7 + 1" by (rule div_add_self2) simp
    finally show ?thesis using that by (simp add: nat_add_distrib pos_imp_zdiv_nonneg_iff)
  qed
  ultimately show ?case using Suc.IH [of "s + 7"] by auto
qed simp

lemma first_span_none: "list_all (\<lambda>p. snd p < fst p) ab \<Longrightarrow> first_span q ab = None"
  by (induction q ab rule: first_span.induct) auto

lemma rotate_grid: "w < 7 \<Longrightarrow> rotateHeatmapColumnBins (week_grid counts s n) w =
    map (\<lambda>i. \<lparr>hc_bin = js_of_nat i, hc_bins = rotated_bins w (week_bins counts (s + 7 * int i))\<rparr>) [0..<n]"
  by (simp add: rotateHeatmapColumnBins_def week_grid_def rotated_bins_def)

lemma reset_bin_id: "at_ms (hb_date b) = 0 \<Longrightarrow> reset_bin b = b"
  by (cases b) (simp add: reset_bin_def reset_hours_def)

lemma reset_ends_id:
  assumes "list_all (\<lambda>b. at_ms (hb_date b) = 0) (hc_bins c)"
  shows "reset_ends c = c"
proof (cases "hc_bins c")
  case Nil
  then show ?thesis by (cases c) (simp add: reset_ends_def)
next
  case (Cons b bs)
  have "reset_bin (last bs) = last bs" if "bs \<noteq> []"
    using assms Cons that last_in_set [OF that] by (intro reset_bin_id) (auto simp: list_all_iff)
  moreover have "reset_bin b = b" using assms Cons by (intro reset_bin_id) simp
  ultimately have "hc_bins (reset_ends c) = hc_bins c" using Cons by (simp add: reset_ends_def)
  then show ?thesis by (cases c) (simp add: reset_ends_def)
qed

lemma spans_grid:
  assumes "w < 7"
  shows "spans (rotateHeatmapColumnBins (week_grid counts s n) w)
    (map (\<lambda>i. (s + 7 * int i + int w, s + 7 * int i + int ((w + 6) mod 7))) [0..<n])"
proof -
  have "list_all (\<lambda>b. at_ms (hb_date b) = 0) (rotated_bins w (week_bins counts d))" for d
  proof -
    have "list_all (\<lambda>b. at_ms (hb_date b) = 0) (week_bins counts d)" by (simp add: week_bins_explicit)
    then show ?thesis by (auto simp: rotated_bins_def list_all_iff dest: in_set_dropD in_set_takeD)
  qed
  moreover have "(w + 6) mod 7 < 7" by simp
  ultimately show ?thesis
    unfolding rotate_grid [OF assms] spans_def list_all2_map1 list_all2_map2
    using assms
    by (intro list_all2_refl)
      (auto simp: getHeatmapColumnStartDate_def getHeatmapColumnEndDate_def rotated_first_last nth_week_bins intro!: reset_ends_id)
qed

lemma rotated_end_before_start: "0 < w \<Longrightarrow> w < 7 \<Longrightarrow> int ((w + 6) mod 7) < int w"
proof -
  assume w: "0 < w" "w < 7"
  then obtain v where v: "w = Suc v" by (cases w) auto
  have "(w + 6) mod 7 = (v + 7) mod 7" by (simp add: v)
  then show ?thesis using w v by simp
qed

text \<open>In a rotated grid every column ends before it starts, so no day is in any column.\<close>

lemma rotated_grid_finds_nothing:
  assumes "0 < w" "w < 7"
  shows "first_span q (map (\<lambda>i. (s + 7 * int i + int w, s + 7 * int i + int ((w + 6) mod 7))) [0..<n]) = None"
  by (rule first_span_none) (use rotated_end_before_start [OF assms] in \<open>simp add: list_all_iff\<close>)

subsection \<open>Quarters\<close>

definition quarter_day :: "int \<Rightarrow> bool" where
  "quarter_day q \<longleftrightarrow> date_of q = 1 \<and> month_of q mod 3 = 0"

lemma quarter_starts:
  assumes "zone off" "100 \<le> year_of a"
  shows "set (getCalendarQuarterStartDatesBetween off (midnight a) (midnight b)) = midnight ` {q. a < q \<and> q \<le> b \<and> quarter_day q}"
    (is "?L = ?R")
proof
  have L: "?L = (\<Union>y \<in> {year_of a..year_of b}. {t \<in> (\<lambda>m. midnight (make_day y m 1)) ` {0, 3, 6, 9}.
      getTime off (midnight a) < getTime off t \<and> getTime off t \<le> getTime off (midnight b)})"
    by (simp only: getCalendarQuarterStartDatesBetween_def CALENDAR_QUARTER_START_MONTHS_def set_concat set_map set_filter
        set_upto midnight_simps list.set image_image)
  have in_L: "t \<in> ?L \<longleftrightarrow> (\<exists>y m. year_of a \<le> y \<and> y \<le> year_of b \<and> m \<in> {0, 3, 6, 9} \<and> t = midnight (make_day y m 1)
      \<and> a < on_day t \<and> on_day t \<le> b)" for t
    unfolding L using midnight_lt [OF assms(1)] midnight_le [OF assms(1)] by fastforce
  show "?L \<subseteq> ?R"
  proof
    fix t assume "t \<in> ?L"
    then obtain y m where t: "year_of a \<le> y" "m \<in> {0, 3, 6, 9}" "t = midnight (make_day y m 1)" "a < on_day t" "on_day t \<le> b"
      using in_L by blast
    have "quarter_day (on_day t)" using fields_of_first [of y m] t(1,2,3) assms(2) by (auto simp: quarter_day_def)
    then show "t \<in> ?R" using t by auto
  qed
  show "?R \<subseteq> ?L"
  proof
    fix t assume "t \<in> ?R"
    then obtain q where q: "t = midnight q" "a < q" "q \<le> b" "date_of q = 1" "month_of q mod 3 = 0"
      by (auto simp: quarter_day_def)
    have y: "year_of a \<le> year_of q" "year_of q \<le> year_of b" using q year_of_mono by simp_all
    have "make_day (year_of q) (month_of q) 1 = q" using make_day_fields [of q] q(4) y(1) assms(2) by simp
    moreover have "month_of q \<in> {0, 3, 6, 9}"
      by (cases rule: month_cases [OF month_of_range, of q]) (use q(5) in simp_all)
    ultimately show "t \<in> ?L" unfolding in_L using q y
      by (intro exI [of _ "year_of q"] exI [of _ "month_of q"]) auto
  qed
qed

lemma quarter_loop_spans:
  assumes "zone off" "spans cs ab"
  shows "list_all (\<lambda>t. at_ms t = 0) ts \<Longrightarrow> set used = set (map sg_startColumnIndex groups) \<Longrightarrow> 0 \<in> set used \<Longrightarrow>
    distinct (map sg_startColumnIndex groups) \<Longrightarrow>
    \<exists>gs. quarter_loop off ts used groups cs = (gs, cs) \<and> distinct (map sg_startColumnIndex gs)
      \<and> set (map sg_startColumnIndex gs) = set used \<union> {i. \<exists>t \<in> set ts. first_span (on_day t) ab = Some i}"
proof (induction ts arbitrary: used groups)
  case (Cons t ts)
  let ?g = "\<lambda>i. \<lparr>sg_startColumnIndex = i, sg_quarter = getCalendarQuarter t, sg_year = year_of (on_day t),
      sg_startDate = t, sg_label = quarter_label (getCalendarQuarter t)\<rparr>"
  have f: "findHeatmapColumnIndexForDate off cs t = (first_span (on_day t) ab, cs)"
    using findIndex_spans [OF assms] Cons.prems by simp
  show ?case
  proof (cases "first_span (on_day t) ab")
    case None
    then show ?thesis using Cons f by auto
  next
    case (Some i)
    show ?thesis
    proof (cases "i \<in> set used")
      case True
      then show ?thesis using Cons.IH [of used groups] Cons.prems f Some by auto
    next
      case False
      then have "i \<noteq> 0" using Cons.prems(3) by metis
      then show ?thesis
        using Cons.IH [of "used @ [i]" "groups @ [?g i]"] Cons.prems f Some False by auto
    qed
  qed
qed simp

lemma js_last_ne: "xs \<noteq> [] \<Longrightarrow> js_last xs = Some (last xs)"
  by (cases xs) (simp_all add: js_last_def)

lemma first_last_upt:
  "js_first (map f [0..<Suc k]) = Some (f 0)" "js_last (map f [0..<Suc k]) = Some (f k)"
  by (simp add: js_first_def upt_conv_Cons del: upt_Suc) (simp add: js_last_ne)

lemma extent_grid:
  assumes "w < 7" "0 < n"
  shows "getHeatmapTimeExtent (rotateHeatmapColumnBins (week_grid counts s n) w) =
    Some (midnight (s + int w), midnight (s + 7 * int (n - 1) + int ((w + 6) mod 7)))"
proof -
  obtain k where k: "n = Suc k" using assms(2) by (cases n) auto
  have "(w + 6) mod 7 < 7" by simp
  then show ?thesis using assms(1)
    by (simp add: k getHeatmapTimeExtent_def rotate_grid first_last_upt getHeatmapColumnStartDate_def
        getHeatmapColumnEndDate_def rotated_first_last nth_week_bins del: upt_Suc)
qed

lemma inferred_range:
  assumes "zone off" "inferHeatmapCalendarRangeStart off now (week_grid counts s n) = Some r"
  shows "\<exists>d. r = midnight d \<and> s \<le> d \<and> d \<le> s + 6"
proof -
  obtain k where k: "n = Suc k" using assms(2) by (cases n) (auto simp: inferHeatmapCalendarRangeStart_def week_grid_def js_first_def)
  have "getHeatmapColumnStartDate (hd (week_grid counts s n)) = Some (midnight s)"
    by (simp add: k week_grid_def upt_conv_Cons getHeatmapColumnStartDate_def week_bins_explicit js_first_def del: upt_Suc)
  moreover have "js_first (week_grid counts s n) = Some (hd (week_grid counts s n))"
    by (simp add: k week_grid_def js_first_def upt_conv_Cons del: upt_Suc)
  ultimately have "first_aligned off (reset_hours now) (midnight s) [HEATMAP_MONTHS_SIX, HEATMAP_MONTHS_ONE_YEAR] = Some r"
    using assms(2) by (simp add: inferHeatmapCalendarRangeStart_def)
  moreover have "\<exists>d. r = midnight d \<and> s \<le> d \<and> d \<le> s + 6"
    if "first_aligned off today (midnight s) ms = Some r" for today ms
    using that
  proof (induction ms)
    case (Cons months ms)
    obtain d where d: "getHeatmapCalendarRangeStart today months = midnight d" by (simp add: getHeatmapCalendarRangeStart_def Let_def)
    have eq: "getTime off (midnight s) = getTime off (midnight (sunday_of d)) \<longleftrightarrow> s = sunday_of d"
      using midnight_le [OF assms(1), of s "sunday_of d"] midnight_le [OF assms(1), of "sunday_of d" s] by auto
    show ?case
    proof (cases "s = sunday_of d")
      case True
      then have "r = midnight d" using Cons.prems d eq aligned_is_sunday [OF assms(1), of d 4] by (simp add: Let_def)
      then show ?thesis using True sunday_of_bounds [of d] by blast
    next
      case False
      then show ?thesis using Cons d eq aligned_is_sunday [OF assms(1), of d 4] by (simp add: Let_def)
    qed
  qed simp
  ultimately show ?thesis by blast
qed

lemma weekday_columns:
  assumes "s \<le> a" "a \<le> s + 6" "0 < (n::nat)" and e: "e = s + 7 * int (n - 1) + 6"
  shows "{i. \<exists>t \<in> midnight ` {q. a < q \<and> q \<le> e \<and> P q}.
      first_span (on_day t) (map (\<lambda>i. (s + 7 * int i, s + 7 * int i + 6)) [0..<n]) = Some i} - {0}
    = (\<lambda>q. nat ((q - s) div 7)) ` {q. s + 7 \<le> q \<and> q < s + 7 * int n \<and> P q}"
proof -
  have n: "q < s + 7 * int n \<longleftrightarrow> q \<le> e" for q using assms(3) e by (simp add: of_nat_diff)
  let ?sp = "map (\<lambda>i. (s + 7 * int i, s + 7 * int i + 6)) [0..<n]"
  have fs: "first_span q ?sp = Some (nat ((q - s) div 7))" if "a < q" "q \<le> e" for q
    using that assms(1) n [of q] by (simp add: first_span_weeks)
  have zero: "nat ((q - s) div 7) = 0 \<longleftrightarrow> q < s + 7" if "a < q" for q
  proof (cases "q < s + 7")
    case True
    then have "(q - s) div 7 = 0" using that assms(1) by (intro div_pos_pos_trivial) auto
    then show ?thesis using True by simp
  next
    case False
    then have "7 div 7 \<le> (q - s) div 7" by (intro zdiv_mono1) auto
    then show ?thesis using False by simp
  qed
  have "{i. \<exists>t \<in> midnight ` {q. a < q \<and> q \<le> e \<and> P q}. first_span (on_day t) ?sp = Some i}
      = (\<lambda>q. nat ((q - s) div 7)) ` {q. a < q \<and> q \<le> e \<and> P q}"
    using fs by force
  also have "\<dots> - {0} = (\<lambda>q. nat ((q - s) div 7)) ` {q. s + 7 \<le> q \<and> q \<le> e \<and> P q}"
  proof (intro set_eqI iffI)
    fix i assume "i \<in> (\<lambda>q. nat ((q - s) div 7)) ` {q. a < q \<and> q \<le> e \<and> P q} - {0}"
    then obtain q where q: "a < q" "q \<le> e" "P q" "i = nat ((q - s) div 7)" "i \<noteq> 0" by blast
    then have "s + 7 \<le> q" using zero [of q] by linarith
    then show "i \<in> (\<lambda>q. nat ((q - s) div 7)) ` {q. s + 7 \<le> q \<and> q \<le> e \<and> P q}" using q by blast
  next
    fix i assume "i \<in> (\<lambda>q. nat ((q - s) div 7)) ` {q. s + 7 \<le> q \<and> q \<le> e \<and> P q}"
    then obtain q where q: "s + 7 \<le> q" "q \<le> e" "P q" "i = nat ((q - s) div 7)" by blast
    have "a < q" using q(1) assms(2) by linarith
    moreover have "i \<noteq> 0" using zero [OF \<open>a < q\<close>] q(1,4) by linarith
    ultimately show "i \<in> (\<lambda>q. nat ((q - s) div 7)) ` {q. a < q \<and> q \<le> e \<and> P q} - {0}" using q by blast
  qed
  finally show ?thesis by (simp only: n)
qed

subsection \<open>Properties\<close>

text \<open>
  C13. The separators of the quarters. For a grid of whole weeks from a Sunday on, in any time zone and at any
  time, the columns with a separator come in increasing order and are exactly the columns but the first that contain the first
  day of a calendar quarter, and the data are left as they were. But the chart computes them from the
  columns it has rotated for another first day of the week, and there every column ends before it starts:
  with any first day but Sunday no separator is found, whatever the grid.
\<close>

theorem quarter_separators:
  assumes "zone off" "100 \<le> year_of s" "0 < n" "w < 7" "sc_groupBy c = By_Quarter"
    and "columns = rotateHeatmapColumnBins (week_grid counts s n) w"
  shows "\<exists>l. resolveHeatmapSeparatorLayout off now (Some c) columns = (Some l, columns)
    \<and> sorted (sl_atColumns l) \<and> distinct (sl_atColumns l)
    \<and> set (sl_atColumns l) =
        (if w = 0 then (\<lambda>q. nat ((q - s) div 7)) ` {q. s + 7 \<le> q \<and> q < s + 7 * int n \<and> quarter_day q} else {})"
proof -
  let ?ab = "map (\<lambda>i. (s + 7 * int i + int w, s + 7 * int i + int ((w + 6) mod 7))) [0..<n]"
  let ?infer = "inferHeatmapCalendarRangeStart off now columns"
  have sp: "spans columns ?ab" using spans_grid [OF assms(4)] by (simp add: assms(6))
  have ext: "getHeatmapTimeExtent columns = Some (midnight (s + int w), midnight (s + 7 * int (n - 1) + int ((w + 6) mod 7)))"
    using extent_grid [OF assms(4,3)] by (simp add: assms(6))
  have inf: "or_else (dr_start (resolveHeatmapDisplayRange off now columns)) ?infer = ?infer"
    by (auto simp: resolveHeatmapDisplayRange_def ext or_else_def split: option.splits if_splits)
  define a where "a = get_or ?infer (midnight (s + int w))"
  define starts where "starts = getCalendarQuarterStartDatesBetween off a (midnight (s + 7 * int (n - 1) + int ((w + 6) mod 7)))"
  define shown where "shown = (if ?infer = None \<and> starts \<noteq> [] then reset_hours a else a)"
  let ?g = "\<lparr>sg_startColumnIndex = 0, sg_quarter = getCalendarQuarter a, sg_year = year_of (on_day a),
      sg_startDate = shown, sg_label = quarter_label (getCalendarQuarter a)\<rparr>"
  have "list_all (\<lambda>t. at_ms t = 0) starts" by (auto simp: starts_def getCalendarQuarterStartDatesBetween_def list_all_iff)
  from quarter_loop_spans [OF assms(1) sp this, of "[0]" "[?g]"] obtain gs
    where gs: "quarter_loop off starts [0] [?g] columns = (gs, columns)" "distinct (map sg_startColumnIndex gs)"
      "set (map sg_startColumnIndex gs) = {0} \<union> {i. \<exists>t \<in> set starts. first_span (on_day t) ?ab = Some i}"
    by auto
  have build: "buildHeatmapQuarterSeparatorGroups off now columns = (sort_key sg_startColumnIndex gs, columns)"
    by (simp only: buildHeatmapQuarterSeparatorGroups_def ext inf Let_def option.case prod.case a_def [symmetric]
        starts_def [symmetric] shown_def [symmetric] gs(1))
  have ne: "gs \<noteq> []" using gs(3) by auto
  define l where "l = \<lparr>sl_spacing = sc_spacing c,
      sl_atColumns = filter (\<lambda>i. 0 < i) (map sg_startColumnIndex (sort_key sg_startColumnIndex gs)),
      sl_groups = sort_key sg_startColumnIndex gs\<rparr>"
  have "sort_key sg_startColumnIndex gs \<noteq> []" using ne by (metis length_0_conv length_sort)
  then have res: "resolveHeatmapSeparatorLayout off now (Some c) columns = (Some l, columns)"
    by (simp add: resolveHeatmapSeparatorLayout_def assms(5) build l_def)
  have "set (map sg_startColumnIndex (sort_key sg_startColumnIndex gs)) = set (map sg_startColumnIndex gs)" by simp
  moreover have "distinct (map sg_startColumnIndex (sort_key sg_startColumnIndex gs))"
    using gs(2) by (simp add: distinct_map)
  moreover have "sorted (map sg_startColumnIndex (sort_key sg_startColumnIndex gs))" by simp
  ultimately have sd: "sorted (sl_atColumns l)" "distinct (sl_atColumns l)"
    "set (sl_atColumns l) = {i. \<exists>t \<in> set starts. first_span (on_day t) ?ab = Some i} - {0}"
    unfolding l_def gs(3) by (simp_all add: sorted_wrt_filter) (auto simp: gs(3) set_eq_iff)
  have "set (sl_atColumns l) =
      (if w = 0 then (\<lambda>q. nat ((q - s) div 7)) ` {q. s + 7 \<le> q \<and> q < s + 7 * int n \<and> quarter_day q} else {})"
  proof (cases "w = 0")
    case True
    then have col: "columns = week_grid counts s n" by (simp add: assms(6) rotateHeatmapColumnBins_def)
    obtain d where d: "a = midnight d" "s \<le> d" "d \<le> s + 6"
      using inferred_range [OF assms(1), of now counts s n] True by (cases ?infer) (auto simp: a_def get_or_def col)
    have "100 \<le> year_of d" using year_of_mono [OF d(2)] assms(2) by linarith
    then have "set starts = midnight ` {q. d < q \<and> q \<le> s + 7 * int (n - 1) + 6 \<and> quarter_day q}"
      using quarter_starts [OF assms(1)] True by (simp add: starts_def d(1))
    then show ?thesis using sd(3) weekday_columns [OF d(2,3) assms(3) refl, of quarter_day] True by simp
  next
    case False
    then show ?thesis using sd(3) rotated_grid_finds_nothing [OF _ assms(4)] by simp
  qed
  then show ?thesis using res sd by blast
qed

text \<open>
  C14. The grid of a year. In every time zone the default grid starts on the Sunday of the week of the first
  day of the month eleven months before, without ever skipping that week, and the week of today is the column
  number \<open>(sunday - start) div 7\<close>. The number of columns covers it exactly when the offset of the zone at
  that Sunday is not greater than at the start; when the clocks have been put forward in between, the count is one short
  and the current week is not shown.
\<close>

theorem year_grid_covers_today:
  assumes "zone off" "101 \<le> year_of (on_day today)"
    and "start = sunday_of (make_day (year_of (on_day today)) (month_of (on_day today) - 11) 1)"
    and "weeks = (sunday_of (on_day today) - start) div 7"
  shows "\<exists>r g. resolveHeatmapWeekRange off today HEATMAP_WEEKS_ONE_YEAR = Some g
    \<and> wr_startDate g = midnight start \<and> weekday_of start = 0 \<and> wr_rangeStart g = Some (midnight r)
    \<and> start \<le> r \<and> r \<le> start + 6 \<and> date_of r = 1
    \<and> 12 * year_of r + month_of r = 12 * year_of (on_day today) + month_of (on_day today) - 11
    \<and> start + 7 * weeks \<le> on_day today \<and> on_day today < start + 7 * (weeks + 1)
    \<and> wr_weekCount g = weeks + (if off start < off (sunday_of (on_day today)) then 0 else 1)"
proof -
  define d where "d = on_day today"
  define r where "r = make_day (year_of d) (month_of d - 11) 1"
  have s: "start = sunday_of r" using assms(3) by (simp add: r_def d_def)
  have f: "year_of r = year_of d + (month_of d - 11) div 12 \<and> month_of r = (month_of d - 11) mod 12 \<and> date_of r = 1"
    unfolding r_def by (rule fields_of_first) (use assms(2) in \<open>simp add: d_def\<close>)
  have ym: "12 * year_of r + month_of r = 12 * year_of d + month_of d - 11"
    using mult_div_mod_eq [of 12 "month_of d - 11"] f by linarith
  have "7 dvd sunday_of d - start"
    using sunday_of_bounds(3) [of d] sunday_of_bounds(3) [of r] unfolding s weekday_of_def by presburger
  note diff = week_difference [OF assms(1) this] and k = this
  have wk: "sunday_of d = start + 7 * weeks" using k assms(4) by (simp add: d_def)
  have "resolveHeatmapWeekRange off today HEATMAP_WEEKS_ONE_YEAR =
      Some \<lparr>wr_startDate = midnight start, wr_weekCount = weeks - (if off start < off (sunday_of d) then 1 else 0) + 1,
        wr_rangeStart = Some (midnight r)\<rparr>"
    using diff aligned_is_sunday [OF assms(1), of r 4] assms(4)
    by (simp add: resolveHeatmapWeekRange_def getHeatmapYearStartMonth_def getHeatmapCalendarRangeStart_def Let_def
        HEATMAP_MONTHS_ONE_YEAR_def HEATMAP_MONTHS_SIX_def reset_hours_midnight getHeatmapWeekCount_def weekStartSunday
        r_def [symmetric] d_def [symmetric] s [symmetric])
  then show ?thesis
    using sunday_of_bounds [of r] sunday_of_bounds [of d] f ym wk
    by (intro exI [of _ r] exI conjI) (auto simp: s d_def)
qed

text \<open>The zone of the witnesses: an hour ahead of UTC in winter, two in summer, for 2024 and 2025.\<close>

definition summer_time :: "int \<Rightarrow> int" where
  "summer_time d = (if 19814 \<le> d \<and> d \<le> 20023 \<or> 20178 \<le> d \<and> d \<le> 20387 then 7200000 else 3600000)"

lemma zone_summer_time: "zone summer_time"
  by (simp add: zone_def summer_time_def MS_PER_DAY_def)

definition quarterly :: HeatmapSeparatorParsedConfig where
  "quarterly = \<lparr>sc_groupBy = By_Quarter, sc_every = None, sc_spacing = Fin 8\<rparr>"

theorem quarter_separators_witness:
  "\<exists>l. resolveHeatmapSeparatorLayout summer_time (midnight 20100) (Some quarterly)
      (rotateHeatmapColumnBins (week_grid (\<lambda>_. Fin 1) 20086 20) 1)
    = (Some l, rotateHeatmapColumnBins (week_grid (\<lambda>_. Fin 1) 20086 20) 1) \<and> set (sl_atColumns l) = {}"
proof -
  have y: "100 \<le> year_of 20086" by (simp add: year_of_def DayFromYear_def Let_def)
  show ?thesis
    using quarter_separators [OF zone_summer_time y, of 20 1 quarterly _ "\<lambda>_. Fin 1" "midnight 20100", OF _ _ _ refl]
    by (auto simp: quarterly_def)
qed

text \<open>On the first of November 2025 the grid begins on the first of December, in the winter, but the Sunday of the current
  week is the day on which the clocks go back, and still has the offset of the summer at midnight: 48 weeks, 47 columns.\<close>

theorem year_grid_covers_today_witness:
  "\<exists>r g. resolveHeatmapWeekRange summer_time (midnight 20393) HEATMAP_WEEKS_ONE_YEAR = Some g
    \<and> wr_startDate g = midnight 20058 \<and> wr_rangeStart g = Some (midnight r) \<and> wr_weekCount g = 47"
proof -
  have c: "101 \<le> year_of 20393" "sunday_of (make_day (year_of 20393) (month_of 20393 - 11) 1) = 20058"
    "sunday_of 20393 = 20387"
    by code_simp+
  show ?thesis
    using year_grid_covers_today [OF zone_summer_time, of "midnight 20393" 20058 47] c by (auto simp: summer_time_def)
qed

subsection \<open>Rows, groups and scales\<close>

lemma weekday_add_weeks: "weekday_of (d + 7 * k) = weekday_of d"
  using mod_mult_self2 [of "d + 4" 7 k] by (simp add: weekday_of_def ac_simps)

text \<open>Each row of a rotated grid shows the days its label names; but the rows after the Saturday hold the days before
  the first row of the same column, so a column of a grid that starts on another day than Sunday is not a week.\<close>

lemma rotated_rows:
  fixes counts :: "int \<Rightarrow> jsnum"
  assumes "weekday_of s = 0" "w < 7" "r < 7" "i < n"
  defines "date \<equiv> \<lambda>r. on_day (hb_date (hc_bins (rotateHeatmapColumnBins (week_grid counts s n) w ! i) ! r))"
  shows "getHeatmapDayLabels w ! r = HEATMAP_DAY_LABELS ! nat (weekday_of (date r))"
    "7 - w \<le> r \<Longrightarrow> date r < date 0"
proof -
  have d: "date r = s + 7 * int i + int ((w + r) mod 7)" if "r < 7" for r
  proof -
    have "hc_bins (rotateHeatmapColumnBins (week_grid counts s n) w ! i) ! r = week_bins counts (s + 7 * int i) ! ((w + r) mod 7)"
    proof (cases "w + r < 7")
      case True
      then show ?thesis using assms(2,4) that by (simp add: rotate_grid rotated_bins_def nth_append)
    next
      case False
      then have "(w + r) mod 7 = w + r - 7" using assms(2) that by (simp add: mod_if)
      then show ?thesis using False assms(2,4) that by (simp add: rotate_grid rotated_bins_def nth_append add.commute)
    qed
    then show ?thesis by (simp add: date_def nth_week_bins)
  qed
  have "weekday_of (date r) = int ((w + r) mod 7)"
    using weekday_add [of "s + 7 * int i" "int ((w + r) mod 7)"] assms(1) by (simp add: d [OF assms(3)] weekday_add_weeks)
  moreover have len: "length HEATMAP_DAY_LABELS = 7" by (simp add: HEATMAP_DAY_LABELS_def)
  moreover have "getHeatmapDayLabels w ! r = HEATMAP_DAY_LABELS ! ((w + r) mod 7)"
  proof (cases "w + r < 7")
    case True
    then have "r < 7 - w" by linarith
    with True show ?thesis using assms(2,3) by (simp add: getHeatmapDayLabels_def nth_append len add.commute)
  next
    case False
    then have "(w + r) mod 7 = w + r - 7" using assms(2,3) by (simp add: mod_if)
    moreover have "\<not> r < 7 - w" using False by linarith
    ultimately show ?thesis using False assms(2,3) by (simp add: getHeatmapDayLabels_def nth_append len add.commute)
  qed
  ultimately show "getHeatmapDayLabels w ! r = HEATMAP_DAY_LABELS ! nat (weekday_of (date r))" by simp
  show "date r < date 0" if "7 - w \<le> r"
  proof -
    have "\<not> w + r < 7" using that by linarith
    then have "(w + r) mod 7 = w + r - 7" using assms(2,3) by (simp add: mod_if)
    then show ?thesis using that assms(2,3) d [OF assms(3)] d [of 0] by simp
  qed
qed

text \<open>On increasing separators a label snaps to the greatest one at or before its column.\<close>

lemma group_start_greatest:
  "sorted cs \<Longrightarrow> list_all (\<lambda>c. g \<le> c) cs \<Longrightarrow> g \<le> i \<Longrightarrow> group_start g i cs = Max (insert g {c \<in> set cs. c \<le> i})"
proof (induction cs arbitrary: g)
  case (Cons c cs)
  show ?case
  proof (cases "c \<le> i")
    case True
    have fin: "finite {x \<in> set cs. x \<le> i}" by simp
    have "insert g {x \<in> set (c # cs). x \<le> i} = insert g (insert c {x \<in> set cs. x \<le> i})" using True by auto
    moreover have "Max (insert g (insert c {x \<in> set cs. x \<le> i})) = Max (insert c {x \<in> set cs. x \<le> i})"
      using Cons.prems fin by (subst Max_insert) (auto intro!: max_absorb2 simp: Max_ge_iff)
    ultimately show ?thesis using Cons True by (simp add: list_all_iff)
  next
    case False
    then have "{x \<in> set (c # cs). x \<le> i} = {}" using Cons.prems(1) by auto
    then show ?thesis using False by (simp only: group_start.simps if_False Max_singleton)
  qed
qed simp

lemma getHeatmapSeparatorGroupStartColumn_greatest:
  "sorted cs \<Longrightarrow> getHeatmapSeparatorGroupStartColumn i cs = Max (insert 0 {c \<in> set cs. c \<le> i})"
  unfolding getHeatmapSeparatorGroupStartColumn_def by (rule group_start_greatest) (simp_all add: list_all_iff)

text \<open>The separators at a fixed interval are its multiples.\<close>

lemma every_from_multiples:
  "0 < e \<Longrightarrow> set (every_from i n e) = {j. i \<le> j \<and> j < n \<and> e dvd j - i}"
proof (induction i n e rule: every_from.induct)
  case (1 i n e)
  show ?case
  proof (cases "i < n")
    case True
    have "{j. i \<le> j \<and> j < n \<and> e dvd j - i} = insert i {j. i + e \<le> j \<and> j < n \<and> e dvd j - (i + e)}"
    proof (intro set_eqI iffI)
      fix j assume j: "j \<in> {j. i \<le> j \<and> j < n \<and> e dvd j - i}"
      show "j \<in> insert i {j. i + e \<le> j \<and> j < n \<and> e dvd j - (i + e)}"
      proof (cases "j = i")
        case False
        then have "e \<le> j - i" using j by (intro zdvd_imp_le) auto
        moreover have "e dvd j - (i + e)" using j dvd_diff [of e "j - i" e] by (simp add: diff_diff_eq)
        ultimately show ?thesis using j by simp
      qed simp
    next
      fix j assume "j \<in> insert i {j. i + e \<le> j \<and> j < n \<and> e dvd j - (i + e)}"
      then consider "j = i" | "i + e \<le> j" "j < n" "e dvd j - (i + e) + e" by fastforce
      then show "j \<in> {j. i \<le> j \<and> j < n \<and> e dvd j - i}"
        using True 1(2) by cases (auto simp: algebra_simps)
    qed
    then show ?thesis using 1 True by (simp add: every_from.simps [of i n e])
  next
    case False
    then show ?thesis by (auto simp: every_from.simps [of i n e])
  qed
qed

lemma separator_columns_multiples:
  "0 < e \<Longrightarrow> set (getHeatmapSeparatorColumnIndices n e) = {j. 0 < j \<and> j < n \<and> e dvd j}"
proof -
  assume e: "0 < e"
  have "e dvd j - e \<longleftrightarrow> e dvd j" for j by (rule dvd_diff_left_iff) simp
  then show ?thesis using e by (auto simp: getHeatmapSeparatorColumnIndices_def every_from_multiples dest: zdvd_imp_le)
qed

text \<open>A list of rows and the predicate of being in it build the same opacities.\<close>

lemma row_opacity_list_is_predicate:
  "buildHeatmapRowOpacity (Match_Rows rows) f a n = buildHeatmapRowOpacity (Match_If (\<lambda>r. int r \<in> set rows)) f a n"
proof -
  have len: "length (fold (set_faded f n) rows xs) = length xs" for xs
    by (induction rows arbitrary: xs) (simp_all add: set_faded_def)
  have "fold (set_faded f n) rows xs ! i = (if int i \<in> set rows then f else xs ! i)" if "i < n" "length xs = n" for xs i
    using that by (induction rows arbitrary: xs) (auto simp: set_faded_def nth_list_update)
  then show ?thesis by (intro nth_equalityI) (auto simp: buildHeatmapRowOpacity_def len)
qed

text \<open>The state of the generator stays within one and two below its modulus, which is prime to the factor, so a random
  number is never one.\<close>

lemma next_state_range:
  assumes "0 < s" "s < MINSTD"
  shows "0 < next_state s" "next_state s < MINSTD"
proof -
  have "coprime (MINSTD :: int) 16807" unfolding MINSTD_def by code_simp
  then have "\<not> MINSTD dvd s * 16807" using assms zdvd_imp_le [of MINSTD s] by (auto simp: coprime_dvd_mult_left_iff)
  then have "next_state s \<noteq> 0" by (auto simp: next_state_def dvd_eq_mod_eq_0)
  then show "0 < next_state s" using pos_mod_sign [of MINSTD "s * 16807"] by (simp add: next_state_def MINSTD_def)
  show "next_state s < MINSTD" by (simp add: next_state_def MINSTD_def)
qed

lemma seed_state_range: "0 < seed_state n" "seed_state n < MINSTD"
  using pos_mod_sign [of MINSTD n] pos_mod_bound [of MINSTD n]
  by (auto simp: seed_state_def Let_def MINSTD_def simp del: pos_mod_sign pos_mod_bound)

text \<open>Whole counts get the level of their size up to four; a fraction below one gets the highest.\<close>

lemma contribution_levels:
  "getHeatmapContributionLevel (js_of_nat n) = min n 4" "getHeatmapContributionLevel (Fin (1 / 2)) = 4"
proof -
  show "getHeatmapContributionLevel (js_of_nat n) = min n 4"
    by (auto simp: getHeatmapContributionLevel_def js_of_nat_def js_le_def js_eq_def)
qed (simp add: getHeatmapContributionLevel_def js_le_def js_eq_def)

end
