(* ===== verification/Projection.thy ===== *)
theory Projection
  imports Chart_Phase Chart_Data Candles
begin

text \<open>
  Projections of the time-series charts of \<^verbatim>\<open>packages/ui/src/components/charts\<close>: the dashed continuation of
  a series past its last row. \<^verbatim>\<open>projection-utils.ts\<close> reads the rows, finds their cadence and slope and builds the
  path; \<^verbatim>\<open>projection-config.ts\<close> collects the projections among the children of a chart and widens its
  domains; \<^verbatim>\<open>time-series-chart-shell.tsx\<close> computes those domains from the rows; \<^verbatim>\<open>projection-line.tsx\<close> and
  \<^verbatim>\<open>projection-line-end-marker.tsx\<close> place the line and the dot at its end.

  All arithmetic is on doubles. A \<open>Date\<close> is its time value, \<open>NaN\<close> when invalid; \<open>parse\<close> is \<open>Date.parse\<close> on a
  string. The scales of the chart are parameters: the pixel of a date or a value.
\<close>

subsection \<open>Rows\<close>

datatype cell = CDate jsnum | CVal jsval

type_synonym prow = "(string \<times> cell) list"

definition cell_at :: "prow \<Rightarrow> string \<Rightarrow> cell" where
  "cell_at row key = get_or (map_of row key) (CVal JUndef)"

definition valid_date :: "jsnum \<Rightarrow> jsnum option" where
  "valid_date t = (if is_nan t then None else Some t)"

definition readDate :: "(string \<Rightarrow> jsnum) \<Rightarrow> prow \<Rightarrow> string \<Rightarrow> jsnum option" where
  "readDate parse row xDataKey =
     (case cell_at row xDataKey of
        CDate t \<Rightarrow> valid_date t
      | CVal (JNum x) \<Rightarrow> if is_finite_num x then valid_date (time_clip x) else None
      | CVal (JStr s) \<Rightarrow> valid_date (time_clip (parse s))
      | _ \<Rightarrow> None)"

definition readValue :: "prow \<Rightarrow> string \<Rightarrow> jsnum option" where
  "readValue row seriesKey =
     (case cell_at row seriesKey of CVal (JNum x) \<Rightarrow> if is_finite_num x then Some x else None | _ \<Rightarrow> None)"

definition row_index :: "'a list \<Rightarrow> int \<Rightarrow> 'a option" where
  "row_index rows i = (if 0 \<le> i \<and> i < int (length rows) then Some (rows ! nat i) else None)"

definition resolveStartIndex :: "'a list \<Rightarrow> jsnum option \<Rightarrow> int" where
  "resolveStartIndex sourceData startIndex =
     (case startIndex of
        Some (Fin q) \<Rightarrow> min (max 0 \<lfloor>q\<rfloor>) (int (length sourceData) - 1)
      | _ \<Rightarrow> max 0 (int (length sourceData) - 1))"

subsection \<open>The cadence\<close>

definition date_of_row :: "(string \<Rightarrow> jsnum) \<Rightarrow> string \<Rightarrow> prow option \<Rightarrow> jsnum option" where
  "date_of_row parse xDataKey row = Option.bind row (\<lambda>r. readDate parse r xDataKey)"

definition intervalFromAdjacentRows :: "(string \<Rightarrow> jsnum) \<Rightarrow> prow list \<Rightarrow> string \<Rightarrow> int \<Rightarrow> jsnum option" where
  "intervalFromAdjacentRows parse sourceData xDataKey startIndex =
     (if startIndex < 1 then None
      else case (date_of_row parse xDataKey (row_index sourceData (startIndex - 1)), date_of_row parse xDataKey (row_index sourceData startIndex)) of
        (Some prev, Some current) \<Rightarrow>
          (let delta = js_sub current prev in if js_lt (Fin 0) delta then Some delta else None)
      | _ \<Rightarrow> None)"

definition intervalFromSeriesSpan :: "(string \<Rightarrow> jsnum) \<Rightarrow> prow list \<Rightarrow> string \<Rightarrow> jsnum option" where
  "intervalFromSeriesSpan parse sourceData xDataKey =
     (if length sourceData < 2 then None
      else case (date_of_row parse xDataKey (js_first sourceData), date_of_row parse xDataKey (js_last sourceData)) of
        (Some f, Some l) \<Rightarrow>
          (let span = js_sub l f in if js_lt (Fin 0) span then Some (js_div span (Fin (of_nat (length sourceData - 1)))) else None)
      | _ \<Rightarrow> None)"

definition resolveIntervalMs :: "(string \<Rightarrow> jsnum) \<Rightarrow> prow list \<Rightarrow> string \<Rightarrow> int \<Rightarrow> jsnum" where
  "resolveIntervalMs parse sourceData xDataKey startIndex =
     get_or (or_else (intervalFromAdjacentRows parse sourceData xDataKey startIndex) (intervalFromSeriesSpan parse sourceData xDataKey)) (Fin 86400000)"

subsection \<open>The slope\<close>

record reg_sums =
  sumT :: jsnum
  sumY :: jsnum
  sumTY :: jsnum
  sumTT :: jsnum

definition add_point :: "reg_sums \<Rightarrow> jsnum \<times> jsnum \<Rightarrow> reg_sums" where
  "add_point s p =
     \<lparr>sumT = js_add (sumT s) (fst p), sumY = js_add (sumY s) (snd p),
      sumTY = js_add (sumTY s) (js_mul (fst p) (snd p)), sumTT = js_add (sumTT s) (js_mul (fst p) (fst p))\<rparr>"

definition linearRegressionSlope :: "(jsnum \<times> jsnum) list \<Rightarrow> jsnum" where
  "linearRegressionSlope points =
     (if length points < 2 then Fin 0
      else
        let n = Fin (of_nat (length points));
            s = foldl add_point \<lparr>sumT = Fin 0, sumY = Fin 0, sumTY = Fin 0, sumTT = Fin 0\<rparr> points;
            denom = js_sub (js_mul n (sumTT s)) (js_mul (sumT s) (sumT s))
        in if js_lt (js_abs denom) (of_rat_js (1 / 10 ^ 12)) then Fin 0
           else js_div (js_sub (js_mul n (sumTY s)) (js_mul (sumT s) (sumY s))) denom)"

definition last_segment_slope :: "(jsnum \<times> jsnum) list \<Rightarrow> jsnum" where
  "last_segment_slope points =
     (case rev points of
        l # p # _ \<Rightarrow>
          (let dt = js_sub (fst l) (fst p) in if js_eq dt (Fin 0) then Fin 0 else js_div (js_sub (snd l) (snd p)) dt)
      | _ \<Rightarrow> Fin 0)"

definition dated_value :: "(string \<Rightarrow> jsnum) \<Rightarrow> string \<Rightarrow> string \<Rightarrow> prow \<Rightarrow> (jsnum \<times> jsnum) option" where
  "dated_value parse seriesKey xDataKey row =
     (case (readDate parse row xDataKey, readValue row seriesKey) of (Some t, Some y) \<Rightarrow> Some (t, y) | _ \<Rightarrow> None)"

definition history_points :: "(string \<Rightarrow> jsnum) \<Rightarrow> prow list \<Rightarrow> string \<Rightarrow> string \<Rightarrow> int \<Rightarrow> (jsnum \<times> jsnum) list" where
  "history_points parse sourceData seriesKey xDataKey startIndex =
     List.map_filter (dated_value parse seriesKey xDataKey) (take (nat (startIndex + 1)) sourceData)"

definition computeProjectionAnchorTangentSlope ::
  "(string \<Rightarrow> jsnum) \<Rightarrow> prow list \<Rightarrow> string \<Rightarrow> string \<Rightarrow> jsnum option \<Rightarrow> jsnum" where
  "computeProjectionAnchorTangentSlope parse sourceData seriesKey xDataKey startIndexProp =
     (if length sourceData < 2 then Fin 0
      else last_segment_slope (history_points parse sourceData seriesKey xDataKey (resolveStartIndex sourceData startIndexProp)))"

subsection \<open>The path\<close>

datatype ProjectionMode = Auto | Target | Manual
datatype ProjectionAutoMethod = LinearRegression | LastSegment
datatype ProjectionPathDensity = Stepped | Endpoints

record ProjectionPoint =
  pp_date :: jsnum
  pp_value :: jsnum

text \<open>The point \<open>i\<close> intervals after the anchor.\<close>

definition point_after :: "jsnum \<Rightarrow> jsnum \<Rightarrow> jsnum \<Rightarrow> jsnum \<Rightarrow> jsnum \<Rightarrow> ProjectionPoint" where
  "point_after anchorTime anchorValue slope intervalMs i =
     \<lparr>pp_date = time_clip (js_add anchorTime (js_mul intervalMs i)),
      pp_value = js_add anchorValue (js_mul (js_mul slope intervalMs) i)\<rparr>"

text \<open>The loop over the horizon; it does not end when the horizon is infinite or so large that \<open>i + 1\<close> rounds to \<open>i\<close>.\<close>

partial_function (option) step_points ::
  "(jsnum \<Rightarrow> ProjectionPoint) \<Rightarrow> jsnum \<Rightarrow> ProjectionPoint list \<Rightarrow> jsnum \<Rightarrow> ProjectionPoint list option" where
  "step_points point horizonPoints result i =
     (if js_le i horizonPoints then step_points point horizonPoints (result @ [point i]) (js_add i (Fin 1)) else Some result)"

definition anchor_point :: "jsnum \<Rightarrow> jsnum \<Rightarrow> ProjectionPoint" where
  "anchor_point anchorTime anchorValue = \<lparr>pp_date = time_clip anchorTime, pp_value = anchorValue\<rparr>"

definition buildAutoFutureValues ::
  "jsnum \<Rightarrow> jsnum \<Rightarrow> ProjectionAutoMethod \<Rightarrow> (jsnum \<times> jsnum) list \<Rightarrow> jsnum \<Rightarrow> jsnum \<Rightarrow> ProjectionPathDensity \<Rightarrow>
   ProjectionPoint list option" where
  "buildAutoFutureValues anchorTime anchorValue autoMethod historyPoints horizonPoints intervalMs pathDensity =
     (let slope = (if autoMethod = LastSegment \<and> 2 \<le> length historyPoints then last_segment_slope historyPoints
                   else linearRegressionSlope historyPoints);
          point = point_after anchorTime anchorValue slope intervalMs
      in if pathDensity = Endpoints then Some [anchor_point anchorTime anchorValue, point horizonPoints]
         else step_points point horizonPoints [anchor_point anchorTime anchorValue] (Fin 1))"

definition buildTargetPath :: "jsnum \<Rightarrow> jsnum \<Rightarrow> jsnum \<Rightarrow> jsnum \<Rightarrow> jsnum \<Rightarrow> ProjectionPoint list" where
  "buildTargetPath anchorTime anchorValue endValue horizonPoints intervalMs =
     [anchor_point anchorTime anchorValue,
      \<lparr>pp_date = time_clip (js_add anchorTime (js_mul intervalMs horizonPoints)), pp_value = endValue\<rparr>]"

record BuildProjectionPathOptions =
  sourceData :: "prow list"
  seriesKey :: string
  xDataKey :: "string option"
  mode :: ProjectionMode
  autoMethod :: "ProjectionAutoMethod option"
  pathDensity :: "ProjectionPathDensity option"
  startIndex :: "jsnum option"
  horizonPoints :: "jsnum option"
  endValue :: "jsnum option"
  points :: "ProjectionPoint list option"

definition anchor_index :: "BuildProjectionPathOptions \<Rightarrow> int" where
  "anchor_index opts = resolveStartIndex (sourceData opts) (startIndex opts)"

definition x_key :: "BuildProjectionPathOptions \<Rightarrow> string" where
  "x_key opts = get_or (xDataKey opts) ''date''"

definition horizon :: "BuildProjectionPathOptions \<Rightarrow> jsnum" where
  "horizon opts = get_or (horizonPoints opts) (Fin 6)"

text \<open>The date and the value of the row the projection starts from, when it has both.\<close>

definition anchor_of :: "(string \<Rightarrow> jsnum) \<Rightarrow> BuildProjectionPathOptions \<Rightarrow> (jsnum \<times> jsnum) option" where
  "anchor_of parse opts =
     Option.bind (row_index (sourceData opts) (anchor_index opts)) (dated_value parse (seriesKey opts) (x_key opts))"

definition manual_points :: "BuildProjectionPathOptions \<Rightarrow> ProjectionPoint list option" where
  "manual_points opts =
     (case points opts of Some ps \<Rightarrow> if mode opts = Manual \<and> 2 \<le> length ps then Some ps else None | None \<Rightarrow> None)"

definition target_value :: "BuildProjectionPathOptions \<Rightarrow> jsnum option" where
  "target_value opts =
     (case endValue opts of Some v \<Rightarrow> if mode opts = Target \<and> is_finite_num v then Some v else None | None \<Rightarrow> None)"

definition buildProjectionPath :: "(string \<Rightarrow> jsnum) \<Rightarrow> BuildProjectionPathOptions \<Rightarrow> ProjectionPoint list option" where
  "buildProjectionPath parse opts =
     (case manual_points opts of
        Some ps \<Rightarrow> Some (map (\<lambda>p. \<lparr>pp_date = time_clip (pp_date p), pp_value = pp_value p\<rparr>) ps)
      | None \<Rightarrow>
     (if sourceData opts = [] then Some []
      else case anchor_of parse opts of
        None \<Rightarrow> Some []
      | Some (anchorTime, anchorValue) \<Rightarrow>
          (let intervalMs = resolveIntervalMs parse (sourceData opts) (x_key opts) (anchor_index opts);
               historyPoints = history_points parse (sourceData opts) (seriesKey opts) (x_key opts) (anchor_index opts)
           in case target_value opts of
                Some v \<Rightarrow> Some (buildTargetPath anchorTime anchorValue v (horizon opts) intervalMs)
              | None \<Rightarrow>
                  buildAutoFutureValues anchorTime anchorValue (get_or (autoMethod opts) LinearRegression) historyPoints
                    (horizon opts) intervalMs (get_or (pathDensity opts) Endpoints))))"

text \<open>The cubic with horizontal tangents.\<close>

definition coordinate :: "jsnum \<Rightarrow> jsnum \<Rightarrow> string" where
  "coordinate x y = num_to_string x @ '','' @ num_to_string y"

definition straight_path :: "jsnum \<Rightarrow> jsnum \<Rightarrow> jsnum \<Rightarrow> jsnum \<Rightarrow> string" where
  "straight_path x0 y0 x1 y1 = ''M '' @ coordinate x0 y0 @ '' L '' @ coordinate x1 y1"

definition control_points :: "jsnum \<Rightarrow> jsnum \<Rightarrow> jsnum \<Rightarrow> jsnum \<times> jsnum" where
  "control_points x0 x1 tension =
     (let dx = js_sub x1 x0; t = js_min [of_rat_js (1 / 2), js_max [of_rat_js (5 / 100), tension]]
      in (js_add x0 (js_mul dx t), js_sub x1 (js_mul dx t)))"

definition buildHorizontalTangentBezierPath :: "jsnum \<Rightarrow> jsnum \<Rightarrow> jsnum \<Rightarrow> jsnum \<Rightarrow> jsnum option \<Rightarrow> string" where
  "buildHorizontalTangentBezierPath x0 y0 x1 y1 tension =
     (if js_lt (js_abs (js_sub x1 x0)) (of_rat_js (1 / 10 ^ 6)) then straight_path x0 y0 x1 y1
      else (let (c1x, c2x) = control_points x0 x1 (get_or tension (of_rat_js (45 / 100))) in
        ''M '' @ coordinate x0 y0 @ '' C '' @ coordinate c1x y0 @ '' '' @ coordinate c2x y1 @ '' '' @ coordinate x1 y1))"

definition widen_to :: "jsnum \<times> jsnum \<Rightarrow> jsnum \<Rightarrow> jsnum \<times> jsnum" where
  "widen_to e v = (if js_lt v (fst e) then v else fst e, if js_lt (snd e) v then v else snd e)"

definition extents_of :: "jsnum list \<Rightarrow> (jsnum \<times> jsnum) option" where
  "extents_of vs = (let e = foldl widen_to (PInf, NInf) vs in if fst e = PInf then None else Some e)"

definition projectionValueExtents :: "ProjectionPoint list list \<Rightarrow> (jsnum \<times> jsnum) option" where
  "projectionValueExtents paths = extents_of (map pp_value (concat paths))"

definition projectionDateExtents :: "ProjectionPoint list list \<Rightarrow> (jsnum \<times> jsnum) option" where
  "projectionDateExtents paths = extents_of (map pp_date (concat paths))"

subsection \<open>The chart\<close>

record ProjectionLineConfig =
  plc_yAxisId :: string
  plc_data :: "ProjectionPoint list"

text \<open>The points a projection line is given may carry a date, a number or a string.\<close>

datatype date_prop = DDate jsnum | DNum jsnum | DStr string

fun new_Date :: "(string \<Rightarrow> jsnum) \<Rightarrow> date_prop \<Rightarrow> jsnum" where
  "new_Date parse (DDate t) = t"
| "new_Date parse (DNum x) = time_clip x"
| "new_Date parse (DStr s) = time_clip (parse s)"

definition normalizeProjectionData :: "(string \<Rightarrow> jsnum) \<Rightarrow> (date_prop \<times> jsnum) list option \<Rightarrow> ProjectionPoint list" where
  "normalizeProjectionData parse pts =
     map (\<lambda>(d, v). \<lparr>pp_date = new_Date parse d, pp_value = v\<rparr>) (get_or pts [])"

text \<open>A child of the chart: text or a number, a projection line with its props, or any other element with its children.
  Fragments, clip wrappers and plain elements are all walked through.\<close>

datatype chart_node =
    Leaf
  | ProjectionLineNode "(date_prop \<times> jsnum) list option" "numstr option"
  | Element "chart_node list"

primrec visit_node :: "(string \<Rightarrow> jsnum) \<Rightarrow> chart_node \<Rightarrow> ProjectionLineConfig list" where
  "visit_node parse Leaf = []"
| "visit_node parse (ProjectionLineNode pts axis) =
     (let ps = normalizeProjectionData parse pts
      in if 2 \<le> length ps then [\<lparr>plc_yAxisId = normalizeYAxisId axis, plc_data = ps\<rparr>] else [])"
| "visit_node parse (Element children) = concat (map (visit_node parse) children)"

definition extractProjectionLineConfigs :: "(string \<Rightarrow> jsnum) \<Rightarrow> chart_node list \<Rightarrow> ProjectionLineConfig list" where
  "extractProjectionLineConfigs parse children = concat (map (visit_node parse) children)"

text \<open>\<open>x || 1\<close>\<close>

definition or_one :: "jsnum \<Rightarrow> jsnum" where
  "or_one x = (if is_nan x \<or> x = Fin 0 then Fin 1 else x)"

definition padded_domain :: "jsnum \<Rightarrow> jsnum \<Rightarrow> YDomain" where
  "padded_domain lo hi =
     (let padding = or_one (js_mul (js_sub hi lo) (of_rat_js (5 / 100))) in (js_sub lo padding, js_add hi padding))"

definition zero_based_domain :: "jsnum \<Rightarrow> YDomain" where
  "zero_based_domain hi = (Fin 0, if js_le hi (Fin 0) then Fin 100 else js_mul hi (of_rat_js (11 / 10)))"

definition mergeProjectionYDomain :: "YDomain \<Rightarrow> ProjectionLineConfig list \<Rightarrow> string \<Rightarrow> YDomain" where
  "mergeProjectionYDomain domain configs axisId =
     (case projectionValueExtents (map plc_data (filter (\<lambda>c. plc_yAxisId c = axisId) configs)) of
        None \<Rightarrow> domain
      | Some (minValue, maxValue) \<Rightarrow>
          (let nextMin = js_min [fst domain, minValue]; nextMax = js_max [snd domain, maxValue] in
           if js_le (Fin 0) nextMin \<and> js_le (Fin 0) (fst domain) then zero_based_domain nextMax
           else padded_domain nextMin nextMax))"

definition mergeProjectionXDomainMax :: "jsnum \<Rightarrow> ProjectionLineConfig list \<Rightarrow> jsnum" where
  "mergeProjectionXDomainMax maxTime configs =
     (case projectionDateExtents (map plc_data configs) of None \<Rightarrow> maxTime | Some (_, t) \<Rightarrow> js_max [maxTime, t])"

definition row_numbers :: "row list \<Rightarrow> string list \<Rightarrow> jsnum list" where
  "row_numbers rows dataKeys = concat (map (\<lambda>d. List.map_filter (\<lambda>key. number_of (field d key)) dataKeys) rows)"

definition collectNumericExtents :: "row list \<Rightarrow> string list \<Rightarrow> jsnum \<times> jsnum" where
  "collectNumericExtents rows dataKeys = get_or (extents_of (row_numbers rows dataKeys)) (Fin 0, Fin 100)"

definition resolveTimeSeriesYDomain :: "row list \<Rightarrow> string list \<Rightarrow> jsnum option \<Rightarrow> YDomain" where
  "resolveTimeSeriesYDomain rows dataKeys yScaleDomainMax =
     (case yScaleDomainMax of
        Some m \<Rightarrow> if js_lt (Fin 0) m then (Fin 0, js_mul m (of_rat_js (11 / 10)))
                  else (let (lo, hi) = collectNumericExtents rows dataKeys in
                        if js_le (Fin 0) lo then zero_based_domain hi else padded_domain lo hi)
      | None \<Rightarrow> (let (lo, hi) = collectNumericExtents rows dataKeys in
                 if js_le (Fin 0) lo then zero_based_domain hi else padded_domain lo hi))"

definition resolveYDomain :: "LineConfig list \<Rightarrow> jsnum option \<Rightarrow> row list \<Rightarrow> string list \<Rightarrow> YDomain" where
  "resolveYDomain lines yScaleDomainMax rows dataKeys =
     (let axisGroups = groupLinesByYAxisId lines;
          usesDefaultOnly = (length axisGroups = 1 \<and> map_has axisGroups DEFAULT_Y_AXIS_ID)
      in resolveTimeSeriesYDomain rows dataKeys (if usesDefaultOnly then yScaleDomainMax else None))"

definition merge_axes :: "(string \<times> YDomain) list \<Rightarrow> ProjectionLineConfig list \<Rightarrow> (string \<times> YDomain) list" where
  "merge_axes base configs =
     (let merged = fold (\<lambda>axisId m. map_set axisId (mergeProjectionYDomain (get_or (map_of base axisId) (Fin 0, Fin 100)) configs axisId) m)
            (map_keys base) base
      in fold (\<lambda>config m. if map_has m (plc_yAxisId config) then m
                else map_set (plc_yAxisId config) (mergeProjectionYDomain (Fin 0, Fin 100) configs (plc_yAxisId config)) m)
           configs merged)"

definition yDomainTargetByAxis ::
  "(YDomain \<Rightarrow> YDomain) \<Rightarrow> LineConfig list \<Rightarrow> jsnum option \<Rightarrow> row list \<Rightarrow> ProjectionLineConfig list \<Rightarrow> (string \<times> YDomain) list" where
  "yDomainTargetByAxis nice lines yScaleDomainMax visibleRows projectionConfigs =
     (let base = computeYDomainsByAxis nice lines (resolveYDomain lines yScaleDomainMax visibleRows)
      in if projectionConfigs = [] then base else merge_axes base projectionConfigs)"

text \<open>The horizontal domain, from the brush or from the times of the rows; \<open>extent\<close> of d3 ignores \<open>NaN\<close>.\<close>

definition d3_extent :: "jsnum list \<Rightarrow> (jsnum \<times> jsnum) option" where
  "d3_extent ts =
     (case filter (\<lambda>t. \<not> is_nan t) ts of [] \<Rightarrow> None | t # rest \<Rightarrow> Some (foldl widen_to (t, t) rest))"

definition x_domain :: "(jsnum \<times> jsnum) option \<Rightarrow> jsnum list \<Rightarrow> ProjectionLineConfig list \<Rightarrow> jsnum \<times> jsnum" where
  "x_domain brush ts projectionConfigs =
     (case brush of
        Some (lo, hi) \<Rightarrow> (lo, hi)
      | None \<Rightarrow>
          (let minTime = get_or (map_option fst (d3_extent ts)) (Fin 0);
               maxTime = get_or (map_option snd (d3_extent ts)) minTime
           in (minTime, mergeProjectionXDomainMax maxTime projectionConfigs)))"

text \<open>The axes that have a scale are those of the lines and the default one; the others use the default scale's.\<close>

definition scale_domains :: "LineConfig list \<Rightarrow> (string \<times> YDomain) list \<Rightarrow> (string \<times> YDomain) list" where
  "scale_domains lines domainsByAxis =
     (let scales = fold (\<lambda>axisId m. map_set axisId
              (get_or (or_else (map_of domainsByAxis axisId) (map_of domainsByAxis DEFAULT_Y_AXIS_ID)) (Fin 0, Fin 100)) m)
            (map_keys (groupLinesByYAxisId lines)) []
      in if map_has scales DEFAULT_Y_AXIS_ID then scales
         else map_set DEFAULT_Y_AXIS_ID (get_or (map_of domainsByAxis DEFAULT_Y_AXIS_ID) (Fin 0, Fin 100)) scales)"

definition useYScale :: "LineConfig list \<Rightarrow> (string \<times> YDomain) list \<Rightarrow> numstr option \<Rightarrow> YDomain" where
  "useYScale lines domainsByAxis axis =
     (let scales = scale_domains lines domainsByAxis
      in get_or (map_of scales (normalizeYAxisId axis)) (get_or (map_of scales DEFAULT_Y_AXIS_ID) (Fin 0, Fin 100)))"

subsection \<open>The line and its dot\<close>

definition resolveVisibleEndX :: "jsnum \<Rightarrow> jsnum \<Rightarrow> jsnum \<Rightarrow> jsnum \<Rightarrow> jsnum" where
  "resolveVisibleEndX endX innerWidth endpointRadius strokeWidth =
     (let edgePadding = js_add (js_add endpointRadius (js_mul strokeWidth (of_rat_js (1 / 2)))) (Fin 1)
      in js_min [endX, js_max [Fin 0, js_sub innerWidth edgePadding]])"

record line_geometry =
  startX :: jsnum
  startY :: jsnum
  visibleEndX :: jsnum
  endY :: jsnum

definition projection_geometry ::
  "(jsnum \<Rightarrow> jsnum) \<Rightarrow> (jsnum \<Rightarrow> jsnum) \<Rightarrow> jsnum \<Rightarrow> bool \<Rightarrow> jsnum \<Rightarrow> jsnum \<Rightarrow> ProjectionPoint list \<Rightarrow> line_geometry option" where
  "projection_geometry xScale yScale innerWidth showMarker endpointRadius strokeWidth pts =
     (case (js_first pts, js_last pts) of
        (Some s, Some e) \<Rightarrow>
          Some \<lparr>startX = xScale (pp_date s), startY = yScale (pp_value s),
                visibleEndX = resolveVisibleEndX (xScale (pp_date e)) innerWidth (if showMarker then endpointRadius else Fin 0) strokeWidth,
                endY = yScale (pp_value e)\<rparr>
      | _ \<Rightarrow> None)"

datatype ProjectionCurveKind = Linear | Bezier

definition projection_d :: "ProjectionCurveKind \<Rightarrow> line_geometry \<Rightarrow> string" where
  "projection_d curveKind g =
     (case curveKind of
        Bezier \<Rightarrow> buildHorizontalTangentBezierPath (startX g) (startY g) (visibleEndX g) (endY g) None
      | Linear \<Rightarrow> straight_path (startX g) (startY g) (visibleEndX g) (endY g))"

definition showStroke :: "ChartPhase \<Rightarrow> bool" where
  "showStroke phase \<longleftrightarrow> phase = PRevealing \<or> phase = PReady \<or> phase = PExitingReady"

definition ProjectionLine ::
  "(jsnum \<Rightarrow> jsnum) \<Rightarrow> (jsnum \<Rightarrow> jsnum) \<Rightarrow> jsnum \<Rightarrow> bool option \<Rightarrow> bool option \<Rightarrow> jsnum \<Rightarrow> jsnum \<Rightarrow> ProjectionCurveKind \<Rightarrow>
   ProjectionPoint list \<Rightarrow> string option" where
  "ProjectionLine xScale yScale innerWidth showEndMarker showEndpoints endpointRadius strokeWidth curveKind pts =
     (let showMarker = get_or (or_else showEndMarker showEndpoints) True in
      if length pts < 2 then None
      else map_option (projection_d curveKind) (projection_geometry xScale yScale innerWidth showMarker endpointRadius strokeWidth pts))"

definition ProjectionLineEndMarker ::
  "(jsnum \<Rightarrow> jsnum) \<Rightarrow> (jsnum \<Rightarrow> jsnum) \<Rightarrow> jsnum \<Rightarrow> jsnum \<Rightarrow> ChartPhase \<Rightarrow> ProjectionPoint list \<Rightarrow> (jsnum \<times> jsnum) option" where
  "ProjectionLineEndMarker xScale yScale innerWidth radius phase pts =
     (if \<not> showStroke phase \<or> length pts < 2 then None
      else map_option (\<lambda>e. (js_min [xScale (pp_date e), js_max [Fin 0, js_sub innerWidth (js_add radius (Fin 1))]], yScale (pp_value e)))
             (js_last pts))"

subsection \<open>Domains contain what they are computed from\<close>

definition double_num :: "jsnum \<Rightarrow> bool" where
  "double_num v \<longleftrightarrow> (case v of Fin q \<Rightarrow> is_double q | _ \<Rightarrow> False)"

definition inside :: "jsnum \<Rightarrow> YDomain \<Rightarrow> bool" where
  "inside v d \<longleftrightarrow> js_le (fst d) v \<and> js_le v (snd d)"

lemma double_numE:
  assumes "double_num v"
  obtains q where "v = Fin q" and "is_double q"
  using assms by (cases v) (auto simp: double_num_def)

lemma widen_to_Fin:
  "widen_to (PInf, NInf) (Fin q) = (Fin q, Fin q)"
  "widen_to (Fin a, Fin b) (Fin q) = (Fin (min a q), Fin (max b q))"
  by (auto simp: widen_to_def)

lemma widen_all:
  assumes "\<forall>v \<in> set vs. double_num v" and "is_double a" and "is_double b"
  shows "\<exists>lo hi. foldl widen_to (Fin a, Fin b) vs = (Fin lo, Fin hi) \<and> is_double lo \<and> is_double hi \<and> lo \<le> a \<and> b \<le> hi \<and>
           (\<forall>v \<in> set vs. inside v (Fin lo, Fin hi))"
  using assms
proof (induction vs arbitrary: a b)
  case (Cons v vs)
  obtain q where q: "v = Fin q" "is_double q" using Cons.prems(1) by (auto elim: double_numE)
  have "is_double (min a q)" "is_double (max b q)" using Cons.prems(2,3) q(2) by (simp_all add: min_def max_def)
  with Cons.IH [of "min a q" "max b q"] Cons.prems(1) obtain lo hi where
    h: "foldl widen_to (Fin (min a q), Fin (max b q)) vs = (Fin lo, Fin hi)" "is_double lo" "is_double hi"
       "lo \<le> min a q" "max b q \<le> hi" "\<forall>v \<in> set vs. inside v (Fin lo, Fin hi)" by auto
  then have "inside v (Fin lo, Fin hi)" by (simp add: q(1) inside_def)
  then show ?case using h by (auto simp: q(1) widen_to_Fin)
qed simp

lemma extents_contain:
  assumes "\<forall>v \<in> set vs. double_num v" and "vs \<noteq> []"
  shows "\<exists>lo hi. extents_of vs = Some (Fin lo, Fin hi) \<and> is_double lo \<and> is_double hi \<and> (\<forall>v \<in> set vs. inside v (Fin lo, Fin hi))"
proof -
  obtain q ws where vs: "vs = Fin q # ws" and q: "is_double q" and ws: "\<forall>v \<in> set ws. double_num v"
    using assms by (cases vs) (auto elim: double_numE)
  from widen_all [OF ws q q] obtain lo hi where
    "foldl widen_to (Fin q, Fin q) ws = (Fin lo, Fin hi)" "is_double lo" "is_double hi" "lo \<le> q" "q \<le> hi"
    "\<forall>v \<in> set ws. inside v (Fin lo, Fin hi)" by blast
  then show ?thesis by (auto simp: vs extents_of_def widen_to_Fin inside_def)
qed

lemma js_min_Fin: "js_min [Fin x, Fin y] = Fin (min x y)" and js_max_Fin: "js_max [Fin x, Fin y] = Fin (max x y)"
  by (auto simp: js_min_def js_max_def js_min2_def js_max2_def min_def max_def)

lemma rounds_up: "is_double x \<Longrightarrow> x \<le> y \<Longrightarrow> js_le (Fin x) (of_rat_js y)"
  using r64.rnd_mono [of x y] by (auto simp: of_rat_js_def Let_def is_double_def js_le_def js_eq_def)

lemma rounds_down: "is_double x \<Longrightarrow> y \<le> x \<Longrightarrow> js_le (of_rat_js y) (Fin x)"
  using r64.rnd_mono [of y x] by (auto simp: of_rat_js_def Let_def is_double_def js_le_def js_eq_def)

lemma js_le_trans: "js_le a b \<Longrightarrow> js_le b c \<Longrightarrow> js_le a c"
  by (cases a; cases b; cases c) (auto simp: js_le_def js_eq_def)

lemma one_and_a_tenth: "\<exists>f. of_rat_js (11 / 10) = Fin f \<and> 1 \<le> f"
  using of_rat_js_bounded [of 1 2 "11 / 10"] is_double_of_int [of 1] is_double_of_int [of 2] by auto

lemma five_hundredths: "\<exists>f. of_rat_js (5 / 100) = Fin f \<and> 0 \<le> f"
  using of_rat_js_bounded [of 0 1 "5 / 100"] is_double_of_int [of 0] is_double_of_int [of 1] by auto

lemma is_double_small [simp]: "is_double 0" "is_double 1" "is_double 100"
  using is_double_of_int [of 0] is_double_of_int [of 1] is_double_of_int [of 100] by auto

lemma zero_based_contains:
  assumes "is_double hi" and "0 \<le> x" and "x \<le> hi"
  shows "inside (Fin x) (zero_based_domain (Fin hi))"
proof -
  obtain f where f: "of_rat_js (11 / 10) = Fin f" "1 \<le> f" using one_and_a_tenth by blast
  have "hi \<le> hi * f" if "0 < hi" using that f(2) mult_left_mono [of 1 f hi] by simp
  then have "js_le (Fin hi) (of_rat_js (hi * f))" if "0 < hi" using that assms(1) by (simp add: rounds_up)
  then have "js_le (Fin x) (of_rat_js (hi * f))" if "0 < hi" using that assms(3) js_le_trans [of "Fin x" "Fin hi"] by simp
  then show ?thesis using assms by (auto simp: inside_def zero_based_domain_def f(1))
qed

lemma nonneg_padding:
  assumes "lo \<le> hi"
  obtains "or_one (js_mul (js_sub (Fin hi) (Fin lo)) (of_rat_js (5 / 100))) = PInf"
  | p where "or_one (js_mul (js_sub (Fin hi) (Fin lo)) (of_rat_js (5 / 100))) = Fin p" "0 \<le> p"
proof -
  obtain f where f: "of_rat_js (5 / 100) = Fin f" "0 \<le> f" using five_hundredths by blast
  have nn: "of_rat_js y = PInf \<or> (\<exists>r. of_rat_js y = Fin r \<and> 0 \<le> r)" if "0 \<le> y" for y
    using rounds_up [OF is_double_small(1) that] by (cases "of_rat_js y") (auto simp: js_le_def js_eq_def)
  have "or_one (js_mul d (Fin f)) = PInf \<or> (\<exists>p. or_one (js_mul d (Fin f)) = Fin p \<and> 0 \<le> p)"
    if "d = PInf \<or> (\<exists>r. d = Fin r \<and> 0 \<le> r)" for d
  proof -
    have "js_mul d (Fin f) = NaN \<or> js_mul d (Fin f) = PInf \<or> (\<exists>r. js_mul d (Fin f) = Fin r \<and> 0 \<le> r)"
      using that
    proof
      assume "\<exists>r. d = Fin r \<and> 0 \<le> r"
      then obtain r where "d = Fin r" "0 \<le> r" by blast
      then show ?thesis using nn [of "r * f"] f(2) by simp
    qed (use f(2) in \<open>simp add: signed_inf_def\<close>)
    then show ?thesis by (auto simp: or_one_def is_nan_def)
  qed
  moreover have "js_sub (Fin hi) (Fin lo) = PInf \<or> (\<exists>r. js_sub (Fin hi) (Fin lo) = Fin r \<and> 0 \<le> r)"
    using nn [of "hi - lo"] assms by (simp add: js_sub_def)
  ultimately show thesis using that f(1) by metis
qed

lemma padded_contains:
  assumes "is_double lo" and "is_double hi" and "lo \<le> x" and "x \<le> hi"
  shows "inside (Fin x) (padded_domain (Fin lo) (Fin hi))"
proof -
  have le: "lo \<le> hi" using assms by simp
  have ends: "js_le (Fin lo) (Fin x)" "js_le (Fin x) (Fin hi)" using assms by simp_all
  from le show ?thesis
  proof (cases rule: nonneg_padding)
    case 1
    then show ?thesis by (simp add: inside_def padded_domain_def js_sub_def js_le_def)
  next
    case (2 p)
    have "js_le (of_rat_js (lo - p)) (Fin lo)" "js_le (Fin hi) (of_rat_js (hi + p))"
      using 2(2) assms(1,2) by (simp_all add: rounds_down rounds_up)
    then show ?thesis
      using ends js_le_trans [of "of_rat_js (lo - p)" "Fin lo" "Fin x"] js_le_trans [of "Fin x" "Fin hi"]
      unfolding padded_domain_def Let_def 2(1) by (simp add: inside_def js_sub_def)
  qed
qed

lemma merged_domain_contains:
  assumes d: "is_double lo" "is_double hi"
    and vals: "\<forall>c \<in> set configs. \<forall>p \<in> set (plc_data c). double_num (pp_value p)"
    and v: "inside (Fin x) (Fin lo, Fin hi) \<or> (\<exists>c \<in> set configs. plc_yAxisId c = axis \<and> (\<exists>p \<in> set (plc_data c). pp_value p = Fin x))"
  shows "inside (Fin x) (mergeProjectionYDomain (Fin lo, Fin hi) configs axis)"
proof (cases "map pp_value (concat (map plc_data (filter (\<lambda>c. plc_yAxisId c = axis) configs))) = []")
  case True
  then have "projectionValueExtents (map plc_data (filter (\<lambda>c. plc_yAxisId c = axis) configs)) = None"
    unfolding projectionValueExtents_def extents_of_def by (simp only: True) simp
  moreover have "inside (Fin x) (Fin lo, Fin hi)" using v True by auto
  ultimately show ?thesis by (simp add: mergeProjectionYDomain_def)
next
  case False
  let ?vs = "map pp_value (concat (map plc_data (filter (\<lambda>c. plc_yAxisId c = axis) configs)))"
  have "\<forall>v \<in> set ?vs. double_num v" using vals by auto
  then obtain a b where ab: "projectionValueExtents (map plc_data (filter (\<lambda>c. plc_yAxisId c = axis) configs)) = Some (Fin a, Fin b)"
    "is_double a" "is_double b" "\<forall>v \<in> set ?vs. inside v (Fin a, Fin b)"
    using extents_contain [of ?vs] False by (auto simp: projectionValueExtents_def)
  have x: "min lo a \<le> x \<and> x \<le> max hi b" using v
  proof
    assume "\<exists>c \<in> set configs. plc_yAxisId c = axis \<and> (\<exists>p \<in> set (plc_data c). pp_value p = Fin x)"
    then have "Fin x \<in> set ?vs" by force
    then show ?thesis using ab(4) by (fastforce simp: inside_def)
  qed (auto simp: inside_def)
  have "is_double (min lo a)" "is_double (max hi b)" using d ab(2,3) by (simp_all add: min_def max_def)
  moreover have "0 \<le> x" if "0 \<le> lo" "0 \<le> a" using that x by (auto simp: min_def split: if_splits)
  ultimately show ?thesis using x zero_based_contains [of "max hi b" x] padded_contains [of "min lo a" "max hi b" x]
    by (simp add: mergeProjectionYDomain_def ab(1) js_min_Fin js_max_Fin Let_def)
qed

lemma map_of_set_keys:
  "map_of (fold (\<lambda>k m. map_set k (f k) m) ks m) k = (if k \<in> set ks then Some (f k) else map_of m k)"
  by (induction ks arbitrary: m) (auto simp: js_simps)

lemma map_of_set_missing:
  "map_of (fold (\<lambda>c m. if map_has m (g c) then m else map_set (g c) (f (g c)) m) cs m) k =
     (if map_has m k then map_of m k else if k \<in> g ` set cs then Some (f k) else None)"
  by (induction cs arbitrary: m) (auto simp: js_simps map_has_def)

lemma merge_axes_at:
  "map_of (merge_axes base configs) axis =
     (case map_of base axis of
        Some d \<Rightarrow> Some (mergeProjectionYDomain d configs axis)
      | None \<Rightarrow> if axis \<in> plc_yAxisId ` set configs then Some (mergeProjectionYDomain (Fin 0, Fin 100) configs axis) else None)"
proof -
  let ?m = "fold (\<lambda>axisId m. map_set axisId (mergeProjectionYDomain (get_or (map_of base axisId) (Fin 0, Fin 100)) configs axisId) m) (map_keys base) base"
  have keys: "axis \<in> set (map_keys base) \<longleftrightarrow> map_of base axis \<noteq> None" by (simp add: map_keys_def map_of_eq_None_iff)
  have m: "map_of ?m axis = map_option (\<lambda>d. mergeProjectionYDomain d configs axis) (map_of base axis)"
    unfolding map_of_set_keys keys by (cases "map_of base axis") (simp_all add: get_or_def)
  have has: "map_has ?m axis \<longleftrightarrow> map_of base axis \<noteq> None"
    using m by (cases "map_of base axis") (auto simp: map_has_def)
  show ?thesis unfolding merge_axes_def Let_def map_of_set_missing m has by (simp split: option.split)
qed

text \<open>C16. On every vertical axis the domain the chart settles on contains every value of every projection on that axis, and
  still contains what the domain of the lines contained, whatever the scale library makes of the line domains as long as they
  are finite. An axis that only projections use gets a domain too.\<close>

theorem projections_fit_their_axes:
  assumes finite_base: "\<forall>axis d. map_of (computeYDomainsByAxis nice lines (resolveYDomain lines yMax rows)) axis = Some d \<longrightarrow>
      double_num (fst d) \<and> double_num (snd d)"
    and finite_values: "\<forall>c \<in> set configs. \<forall>p \<in> set (plc_data c). double_num (pp_value p)"
  shows "(\<forall>c \<in> set configs. \<exists>d. map_of (yDomainTargetByAxis nice lines yMax rows configs) (plc_yAxisId c) = Some d \<and>
            (\<forall>p \<in> set (plc_data c). inside (pp_value p) d)) \<and>
         (\<forall>axis d. map_of (computeYDomainsByAxis nice lines (resolveYDomain lines yMax rows)) axis = Some d \<longrightarrow>
            (\<exists>d'. map_of (yDomainTargetByAxis nice lines yMax rows configs) axis = Some d' \<and>
               (\<forall>x. inside (Fin x) d \<longrightarrow> inside (Fin x) d')))"
proof -
  define base where "base = computeYDomainsByAxis nice lines (resolveYDomain lines yMax rows)"
  have merged: "inside (Fin x) (mergeProjectionYDomain d configs axis)"
    if dd: "double_num (fst d) \<and> double_num (snd d)"
      and v: "inside (Fin x) d \<or> (\<exists>c \<in> set configs. plc_yAxisId c = axis \<and> (\<exists>p \<in> set (plc_data c). pp_value p = Fin x))" for x d axis
  proof -
    obtain lo hi where "fst d = Fin lo" "snd d = Fin hi" "is_double lo" "is_double hi" using dd by (auto elim!: double_numE)
    then have "d = (Fin lo, Fin hi)" "is_double lo" "is_double hi" by (simp_all add: prod_eq_iff)
    then show ?thesis using merged_domain_contains [OF _ _ finite_values] v by simp
  qed
  have "\<exists>d. map_of (yDomainTargetByAxis nice lines yMax rows configs) (plc_yAxisId c) = Some d \<and> (\<forall>p \<in> set (plc_data c). inside (pp_value p) d)"
    if c: "c \<in> set configs" for c
  proof -
    define d where "d = get_or (map_of base (plc_yAxisId c)) (Fin 0, Fin 100)"
    have dd: "double_num (fst d) \<and> double_num (snd d)"
      using finite_base by (cases "map_of base (plc_yAxisId c)") (auto simp: d_def base_def get_or_def double_num_def)
    have "map_of (yDomainTargetByAxis nice lines yMax rows configs) (plc_yAxisId c) = Some (mergeProjectionYDomain d configs (plc_yAxisId c))"
      using c by (auto simp: yDomainTargetByAxis_def Let_def base_def [symmetric] merge_axes_at d_def get_or_def split: option.split)
    moreover have "inside (pp_value p) (mergeProjectionYDomain d configs (plc_yAxisId c))" if p: "p \<in> set (plc_data c)" for p
    proof -
      obtain x where x: "pp_value p = Fin x" using finite_values c p by (meson double_numE)
      then have "\<exists>c' \<in> set configs. plc_yAxisId c' = plc_yAxisId c \<and> (\<exists>p \<in> set (plc_data c'). pp_value p = Fin x)"
        using c p by blast
      then show ?thesis using merged [OF dd] by (simp add: x)
    qed
    ultimately show ?thesis by blast
  qed
  moreover have "\<exists>d'. map_of (yDomainTargetByAxis nice lines yMax rows configs) axis = Some d' \<and> (\<forall>x. inside (Fin x) d \<longrightarrow> inside (Fin x) d')"
    if "map_of base axis = Some d" for axis d
  proof -
    have dd: "double_num (fst d) \<and> double_num (snd d)" using finite_base that unfolding base_def by blast
    have "map_of (yDomainTargetByAxis nice lines yMax rows configs) axis =
        Some (if configs = [] then d else mergeProjectionYDomain d configs axis)"
      using that by (simp add: yDomainTargetByAxis_def Let_def base_def [symmetric] merge_axes_at)
    then show ?thesis using merged [OF dd] by simp
  qed
  ultimately show ?thesis by (simp add: base_def)
qed

definition falling :: ProjectionLineConfig where
  "falling = \<lparr>plc_yAxisId = ''left'', plc_data = [\<lparr>pp_date = Fin 0, pp_value = Fin 50\<rparr>, \<lparr>pp_date = Fin 1000, pp_value = Fin (- 10)\<rparr>]\<rparr>"

theorem projections_fit_their_axes_witness:
  "\<exists>d. map_of (yDomainTargetByAxis id [] None [] [falling]) ''left'' = Some d \<and> inside (Fin (- 10)) d \<and> inside (Fin 50) d"
proof -
  have base: "computeYDomainsByAxis id [] (resolveYDomain [] None []) = [(''left'', Fin 0, Fin 100)]"
    by (simp add: computeYDomainsByAxis_def groupLinesByYAxisId_def map_has_def)
  have fifty: "is_double 50" "is_double (- 10)" using is_double_of_int [of 50] is_double_of_int [of "- 10"] by auto
  have "\<forall>axis d. map_of (computeYDomainsByAxis id [] (resolveYDomain [] None [])) axis = Some d \<longrightarrow> double_num (fst d) \<and> double_num (snd d)"
    by (auto simp: base double_num_def split: if_splits)
  moreover have "\<forall>c \<in> set [falling]. \<forall>p \<in> set (plc_data c). double_num (pp_value p)"
    using fifty by (simp add: falling_def double_num_def)
  ultimately have "\<forall>c \<in> set [falling]. \<exists>d. map_of (yDomainTargetByAxis id [] None [] [falling]) (plc_yAxisId c) = Some d \<and>
      (\<forall>p \<in> set (plc_data c). inside (pp_value p) d)"
    using projections_fit_their_axes by blast
  then show ?thesis by (auto simp: falling_def)
qed

subsection \<open>The path starts at the anchor and goes forward\<close>

text \<open>The time value of a \<open>Date\<close> has always been clipped.\<close>

definition rows_ok :: "prow list \<Rightarrow> bool" where
  "rows_ok rows \<longleftrightarrow> (\<forall>row \<in> set rows. \<forall>(k, c) \<in> set row. case c of CDate t \<Rightarrow> time_clip t = t | CVal _ \<Rightarrow> True)"

definition whole_ms :: "jsnum \<Rightarrow> bool" where
  "whole_ms t \<longleftrightarrow> (\<exists>n :: int. t = Fin (of_int n) \<and> \<bar>n\<bar> \<le> 8640000000000000)"

lemma whole_msE:
  assumes "whole_ms t"
  obtains n :: int where "t = Fin (of_int n)" and "\<bar>n\<bar> \<le> 8640000000000000"
  using assms by (auto simp: whole_ms_def)

lemma time_clip_whole: "time_clip v = NaN \<or> whole_ms (time_clip v)"
proof (cases v)
  case (Fin q)
  have "\<bar>if 0 \<le> q then \<lfloor>q\<rfloor> else \<lceil>q\<rceil>\<bar> \<le> 8640000000000000" if "\<bar>q\<bar> \<le> 8640000000000000"
  proof (cases "0 \<le> q")
    case True
    then have "0 \<le> \<lfloor>q\<rfloor>" "\<lfloor>q\<rfloor> \<le> 8640000000000000" using that by linarith+
    then show ?thesis using True by simp
  next
    case False
    then have "- 8640000000000000 \<le> \<lceil>q\<rceil>" "\<lceil>q\<rceil> \<le> 0" using that by linarith+
    then show ?thesis using False by (simp only: if_False)
  qed
  then show ?thesis unfolding Fin time_clip_def whole_ms_def by (cases "\<bar>q\<bar> \<le> 8640000000000000") auto
qed (simp_all add: time_clip_def)

lemma whole_ms_clip: "whole_ms t \<Longrightarrow> time_clip t = t"
  by (auto simp: whole_ms_def time_clip_def simp flip: of_int_abs)

lemma whole_ms_double: "whole_ms (Fin a) \<Longrightarrow> is_double a"
  using is_double_of_int by (auto elim!: whole_msE)

lemma readDate_whole:
  assumes "rows_ok rows" and "row \<in> set rows" and "readDate parse row key = Some t"
  shows "whole_ms t"
proof -
  have v: "whole_ms t" if "valid_date (time_clip x) = Some t" for x
    using that time_clip_whole [of x] by (auto simp: valid_date_def is_nan_def split: if_splits)
  show ?thesis
  proof (cases "cell_at row key")
    case (CDate u)
    then have "(key, CDate u) \<in> set row" by (auto simp: cell_at_def get_or_def dest: map_of_SomeD split: option.splits)
    then have "time_clip u = u" using assms(1,2) by (fastforce simp: rows_ok_def)
    then show ?thesis using CDate assms(3) v [of u] by (simp add: readDate_def)
  next
    case (CVal w)
    then show ?thesis using assms(3) v by (auto simp: readDate_def split: jsval.splits if_splits)
  qed
qed

lemma row_index_in: "row_index rows i = Some row \<Longrightarrow> row \<in> set rows"
  by (auto simp: row_index_def split: if_splits)

lemma anchor_whole:
  assumes "rows_ok (sourceData opts)" and "anchor_of parse opts = Some (t, v)"
  shows "whole_ms t"
  using assms readDate_whole row_index_in
  by (fastforce simp: anchor_of_def dated_value_def bind_eq_Some_conv split: option.splits)

lemma nonneg_div: "js_lt (Fin 0) x \<Longrightarrow> 0 < n \<Longrightarrow> js_le (Fin 0) (js_div x (Fin n))"
  using rounds_up [of 0 "y / n" for y] by (cases x) (simp_all add: signed_inf_def, simp_all add: js_le_def)

lemma interval_nonneg: "js_le (Fin 0) (resolveIntervalMs parse rows key i)"
proof -
  have "js_le (Fin 0) d" if "intervalFromAdjacentRows parse rows key i = Some d" for d
    using that by (auto simp: intervalFromAdjacentRows_def Let_def js_le_def split: if_splits option.splits)
  moreover have "js_le (Fin 0) d" if "intervalFromSeriesSpan parse rows key = Some d" for d
  proof -
    have "(0 :: rat) < of_nat (length rows - 1)" using that by (auto simp: intervalFromSeriesSpan_def split: if_splits)
    then show ?thesis using that nonneg_div by (auto simp: intervalFromSeriesSpan_def Let_def split: if_splits option.splits)
  qed
  ultimately show ?thesis by (auto simp: resolveIntervalMs_def or_else_def get_or_def split: option.splits)
qed

lemma clip_forward:
  assumes "whole_ms (Fin a)" and "a \<le> q"
  shows "time_clip (Fin q) = NaN \<or> js_le (Fin a) (time_clip (Fin q))"
proof -
  obtain n :: int where "a = of_int n" using assms(1) by (auto simp: whole_ms_def)
  then have "n \<le> \<lfloor>q\<rfloor>" "\<lfloor>q\<rfloor> \<le> \<lceil>q\<rceil>" using assms(2) by (simp_all add: le_floor_iff floor_le_ceiling)
  then have "n \<le> \<lfloor>q\<rfloor>" "n \<le> \<lceil>q\<rceil>" by linarith+
  then show ?thesis using \<open>a = of_int n\<close> by (simp add: time_clip_def del: le_floor_iff)
qed

lemma point_forward:
  assumes a: "whole_ms t" and d: "js_le (Fin 0) d" and i: "0 \<le> i"
  shows "time_clip (js_add t (js_mul d (Fin i))) = NaN \<or> js_le t (time_clip (js_add t (js_mul d (Fin i))))"
proof -
  obtain a where t: "t = Fin a" and wa: "whole_ms (Fin a)" using a by (auto simp: whole_ms_def)
  have fwd: "time_clip (js_add t w) = NaN \<or> js_le t (time_clip (js_add t w))" if "w = NaN \<or> js_le (Fin 0) w" for w
  proof (cases w)
    case (Fin r)
    then have "js_le (Fin a) (of_rat_js (a + r))" using that whole_ms_double [OF wa] by (simp add: rounds_up)
    then show ?thesis using clip_forward [OF wa] by (cases "of_rat_js (a + r)") (auto simp: t Fin time_clip_def)
  qed (simp_all add: t time_clip_def)
  have "js_mul d (Fin i) = NaN \<or> js_le (Fin 0) (js_mul d (Fin i))"
  proof (cases d)
    case (Fin r)
    then show ?thesis using d i rounds_up [of 0 "r * i"] by simp
  qed (use d i in \<open>auto simp: signed_inf_def js_le_def js_eq_def\<close>)
  then show ?thesis by (rule fwd)
qed

lemma step_points_all:
  assumes "q < 2 ^ 53"
  shows "step_points point (Fin q) result (Fin (of_nat k)) =
    Some (result @ map (\<lambda>i. point (Fin (of_nat i))) [k..<nat (\<lfloor>q\<rfloor> + 1)])"
proof (induction "nat (\<lfloor>q\<rfloor> + 1) - k" arbitrary: k result)
  case 0
  then have "\<not> (of_nat k :: rat) \<le> q" by linarith
  then show ?case using 0 by (simp add: step_points.simps [of _ "Fin q"])
next
  case (Suc m)
  then have k: "(of_nat k :: rat) \<le> q" "k < nat (\<lfloor>q\<rfloor> + 1)" by linarith+
  have "(of_nat k :: rat) < of_nat (2 ^ 53)" using k(1) assms by simp
  then have "k < 2 ^ 53" by (simp only: of_nat_less_iff)
  then have "int k + 1 \<le> 2 ^ 53" by simp
  then have "is_double (of_int (int k + 1))" by (intro is_double_of_int) simp
  then have "js_add (Fin (of_nat k)) (Fin 1) = Fin (of_nat (Suc k))" by (simp add: add.commute)
  then have "step_points point (Fin q) result (Fin (of_nat k)) = step_points point (Fin q) (result @ [point (Fin (of_nat k))]) (Fin (of_nat (Suc k)))"
    using k(1) by (subst step_points.simps) simp
  also have "\<dots> = Some (result @ map (\<lambda>i. point (Fin (of_nat i))) (k # [Suc k..<nat (\<lfloor>q\<rfloor> + 1)]))"
    using Suc.hyps(1) [of "Suc k" "result @ [point (Fin (of_nat k))]"] Suc.hyps(2) by (simp del: of_nat_Suc)
  finally show ?case using k(2) by (simp add: upt_conv_Cons)
qed

lemma stepped_path:
  assumes "1 \<le> h" and "h < 2 ^ 53"
  shows "step_points point (Fin h) [p] (Fin 1) = Some (p # map (\<lambda>i. point (Fin (of_nat i))) [1..<nat (\<lfloor>h\<rfloor> + 1)])"
  using step_points_all [OF assms(2), of point "[p]" 1] by simp

text \<open>On a whole horizon the stepped path has the same ends as the short one.\<close>

lemma densities_agree:
  assumes "1 \<le> n" and "n < 2 ^ 53"
  shows "\<exists>path. buildAutoFutureValues t v am hist (Fin (of_nat n)) d Stepped = Some path \<and>
    buildAutoFutureValues t v am hist (Fin (of_nat n)) d Endpoints = Some [hd path, last path] \<and> length path = n + 1"
proof -
  have "(of_nat n :: rat) < of_nat (2 ^ 53)" using assms(2) by (simp only: of_nat_less_iff)
  then have n: "1 \<le> (of_nat n :: rat)" "(of_nat n :: rat) < 2 ^ 53" using assms(1) by simp_all
  have "nat (\<lfloor>of_nat n :: rat\<rfloor> + 1) = n + 1" by simp
  then show ?thesis
    using assms(1) by (auto simp: buildAutoFutureValues_def Let_def stepped_path [OF n] last_map simp del: upt_Suc)
qed

text \<open>A projection is empty when the row it would start from has no readable date or value; otherwise its first point
  is exactly that row, at least one more point follows, no later point has an earlier date (a date too far in the future is
  invalid), and in target mode the path ends at the target. The loop that steps through the horizon ends.\<close>

theorem projection_starts_at_the_anchor:
  assumes ok: "rows_ok (sourceData opts)" and m: "manual_points opts = None"
    and h: "horizon opts = Fin h" and h1: "1 \<le> h" and h2: "h < 2 ^ 53"
  shows "case anchor_of parse opts of
      None \<Rightarrow> buildProjectionPath parse opts = Some []
    | Some (t, v) \<Rightarrow> \<exists>rest. buildProjectionPath parse opts = Some (\<lparr>pp_date = t, pp_value = v\<rparr> # rest) \<and> rest \<noteq> [] \<and>
        (\<forall>p \<in> set rest. pp_date p = NaN \<or> js_le t (pp_date p)) \<and>
        (\<forall>w. target_value opts = Some w \<longrightarrow> map pp_value rest = [w])"
proof (cases "anchor_of parse opts")
  case None
  then show ?thesis by (simp add: buildProjectionPath_def m)
next
  case (Some a)
  obtain t v where a: "a = (t, v)" by force
  have t: "whole_ms t" using anchor_whole [OF ok] Some a by simp
  have ne: "sourceData opts \<noteq> []" using Some by (auto simp: anchor_of_def row_index_def split: if_splits)
  define d where "d = resolveIntervalMs parse (sourceData opts) (x_key opts) (anchor_index opts)"
  have fwd: "pp_date (point_after t v s d (Fin i)) = NaN \<or> js_le t (pp_date (point_after t v s d (Fin i)))" if "0 \<le> i" for s i
    using point_forward [OF t interval_nonneg that] by (simp add: point_after_def d_def)
  have first: "anchor_point t v = \<lparr>pp_date = t, pp_value = v\<rparr>" by (simp add: anchor_point_def whole_ms_clip [OF t])
  have some: "2 \<le> nat (\<lfloor>h\<rfloor> + 1)" using h1 by linarith
  show ?thesis
  proof (cases "target_value opts")
    case None
    then show ?thesis
      using fwd [of h] fwd [of "of_nat i" for i] h1 some
      by (auto simp: Some a buildProjectionPath_def m ne h d_def [symmetric] buildAutoFutureValues_def Let_def first
          stepped_path [OF h1 h2])
  next
    case (Some w)
    then show ?thesis using fwd [of h undefined] h1
      by (simp add: \<open>anchor_of parse opts = Some a\<close> a buildProjectionPath_def m ne h d_def [symmetric] buildTargetPath_def first point_after_def)
  qed
qed

definition one_day_on :: BuildProjectionPathOptions where
  "one_day_on =
     \<lparr>sourceData = [[(''date'', CDate (Fin 0)), (''v'', CVal (JNum (Fin 1)))], [(''date'', CDate (Fin 1000)), (''v'', CVal (JNum (Fin 3)))]],
      seriesKey = ''v'', xDataKey = None, mode = Target, autoMethod = None, pathDensity = None, startIndex = None,
      horizonPoints = None, endValue = Some (Fin 9), points = None\<rparr>"

theorem projection_starts_at_the_anchor_witness:
  "\<exists>rest. buildProjectionPath (\<lambda>_. NaN) one_day_on = Some (\<lparr>pp_date = Fin 1000, pp_value = Fin 3\<rparr> # rest) \<and> map pp_value rest = [Fin 9]"
proof -
  have a: "anchor_of (\<lambda>_. NaN) one_day_on = Some (Fin 1000, Fin 3)"
    by (simp add: one_day_on_def anchor_of_def anchor_index_def resolveStartIndex_def row_index_def dated_value_def readDate_def
        readValue_def cell_at_def get_or_def x_key_def valid_date_def is_nan_def is_finite_num_def)
  have "rows_ok (sourceData one_day_on)" by (simp add: one_day_on_def rows_ok_def time_clip_def)
  moreover have "manual_points one_day_on = None" "target_value one_day_on = Some (Fin 9)" "horizon one_day_on = Fin 6"
    by (simp_all add: one_day_on_def manual_points_def target_value_def horizon_def get_or_def is_finite_num_def)
  ultimately show ?thesis using projection_starts_at_the_anchor [of one_day_on 6 "\<lambda>_. NaN"] by (auto simp: a)
qed

subsection \<open>The slope is that of the least squares line\<close>

lemma js_int:
  assumes "\<bar>n\<bar> \<le> 2 ^ 53"
  shows "of_rat_js (of_int n) = Fin (of_int n)"
  using is_double_of_int [OF assms] by simp

lemma js_add_int: "\<bar>a + b\<bar> \<le> 2 ^ 53 \<Longrightarrow> js_add (Fin (of_int a)) (Fin (of_int b)) = Fin (of_int (a + b))"
  using js_int [of "a + b"] by (simp del: of_rat_js_double)

lemma js_sub_int: "\<bar>a - b\<bar> \<le> 2 ^ 53 \<Longrightarrow> js_sub (Fin (of_int a)) (Fin (of_int b)) = Fin (of_int (a - b))"
  using js_int [of "a - b"] by (simp add: js_sub_def del: of_rat_js_double)

lemma js_mul_int: "\<bar>a * b\<bar> \<le> 2 ^ 53 \<Longrightarrow> js_mul (Fin (of_int a)) (Fin (of_int b)) = Fin (of_int (a * b))"
  using js_int [of "a * b"] by (simp del: of_rat_js_double)

definition plot :: "(rat \<times> rat) list \<Rightarrow> (jsnum \<times> jsnum) list" where
  "plot zs = map (\<lambda>(t, y). (Fin t, Fin y)) zs"

definition total_of :: "('a \<Rightarrow> rat) \<Rightarrow> 'a list \<Rightarrow> rat" where
  "total_of f zs = sum_list (map f zs)"

text \<open>The two determinants of the normal equations.\<close>

definition ls_num :: "(rat \<times> rat) list \<Rightarrow> rat" where
  "ls_num zs = of_nat (length zs) * total_of (\<lambda>(t, y). t * y) zs - total_of fst zs * total_of snd zs"

definition ls_den :: "(rat \<times> rat) list \<Rightarrow> rat" where
  "ls_den zs = of_nat (length zs) * total_of (\<lambda>(t, y). t * t) zs - total_of fst zs * total_of fst zs"

text \<open>No operation on the points needs rounding: the products and the running sums of the loop, the four products
  after it and the two differences are doubles.\<close>

definition exact_run :: "(rat \<times> rat) list \<Rightarrow> bool" where
  "exact_run zs \<longleftrightarrow>
     (\<forall>(t, y) \<in> set zs. is_double (t * y) \<and> is_double (t * t)) \<and>
     (\<forall>xs \<in> set (prefixes zs). is_double (total_of fst xs) \<and> is_double (total_of snd xs) \<and>
        is_double (total_of (\<lambda>(t, y). t * y) xs) \<and> is_double (total_of (\<lambda>(t, y). t * t) xs)) \<and>
     is_double (of_nat (length zs) * total_of (\<lambda>(t, y). t * t) zs) \<and> is_double (total_of fst zs * total_of fst zs) \<and>
     is_double (of_nat (length zs) * total_of (\<lambda>(t, y). t * y) zs) \<and> is_double (total_of fst zs * total_of snd zs) \<and>
     is_double (ls_num zs) \<and> is_double (ls_den zs)"

definition rat_sums :: "(rat \<times> rat) list \<Rightarrow> reg_sums" where
  "rat_sums zs =
     \<lparr>sumT = Fin (total_of fst zs), sumY = Fin (total_of snd zs),
      sumTY = Fin (total_of (\<lambda>(t, y). t * y) zs), sumTT = Fin (total_of (\<lambda>(t, y). t * t) zs)\<rparr>"

lemma total_of_snoc [simp]: "total_of f (zs @ [z]) = total_of f zs + f z"
  by (simp add: total_of_def)

lemma exact_sums:
  assumes "\<And>t y. (t, y) \<in> set zs \<Longrightarrow> is_double (t * y) \<and> is_double (t * t)"
    and "\<And>xs. prefix xs zs \<Longrightarrow> is_double (total_of fst xs) \<and> is_double (total_of snd xs) \<and>
      is_double (total_of (\<lambda>(t, y). t * y) xs) \<and> is_double (total_of (\<lambda>(t, y). t * t) xs)"
  shows "foldl add_point \<lparr>sumT = Fin 0, sumY = Fin 0, sumTY = Fin 0, sumTT = Fin 0\<rparr> (plot zs) = rat_sums zs"
  using assms
proof (induction zs rule: rev_induct)
  case Nil
  show ?case by (simp add: plot_def rat_sums_def total_of_def)
next
  case (snoc z zs)
  obtain t y where z: "z = (t, y)" by force
  have IH: "foldl add_point \<lparr>sumT = Fin 0, sumY = Fin 0, sumTY = Fin 0, sumTT = Fin 0\<rparr> (plot zs) = rat_sums zs"
    using snoc.prems by (intro snoc.IH) auto
  have "add_point (rat_sums zs) (Fin t, Fin y) = rat_sums (zs @ [z])"
    using snoc.prems(2) [of "zs @ [z]"] snoc.prems(1) [of t y] by (simp add: add_point_def rat_sums_def z)
  then show ?case using IH by (simp add: plot_def z)
qed

lemma is_double_dyadic:
  assumes "\<bar>k\<bar> \<le> 2 ^ 53" and "m \<le> 1074"
  shows "is_double (of_int k / 2 ^ m)"
proof (rule is_doubleI)
  have "of_int k * 2 powi (- int m) = (of_int k / 2 ^ m :: rat)" by (simp add: power_int_minus divide_inverse)
  then show "round64 (of_int k / 2 ^ m) = of_int k / 2 ^ m" using round64_exact [of k "- int m"] assms by simp
  have "(of_int \<bar>k\<bar> :: rat) \<le> of_int (2 ^ 53)" using assms(1) by (simp only: of_int_le_iff)
  then have k: "\<bar>of_int k :: rat\<bar> < 2 ^ 60" by simp
  have "\<bar>of_int k / 2 ^ m :: rat\<bar> \<le> \<bar>of_int k\<bar>" by (simp add: divide_le_eq mult_le_cancel_left1)
  then show "\<bar>of_int k / 2 ^ m :: rat\<bar> < 2 ^ 60" using k by linarith
qed

lemma tiny: "\<exists>f. of_rat_js (1 / 10 ^ 12) = Fin f \<and> 0 < f \<and> f \<le> 1"
proof -
  have "is_double (1 / 2 ^ 40)" using is_double_dyadic [of 1 40] by simp
  moreover have "(1 / 2 ^ 40 :: rat) \<le> 1 / 10 ^ 12" "(1 / 10 ^ 12 :: rat) \<le> 1" "(0 :: rat) < 1 / 2 ^ 40" by simp_all
  ultimately show ?thesis using of_rat_js_bounded [OF _ is_double_small(2)] by (metis order_less_le_trans)
qed

lemma js_abs_Fin: "js_abs (Fin x) = Fin \<bar>x\<bar>"
  by (simp add: js_abs_def abs_if)

lemma regression_exact:
  assumes "exact_run zs" and "2 \<le> length zs"
  shows "linearRegressionSlope (plot zs) =
    (if js_lt (Fin \<bar>ls_den zs\<bar>) (of_rat_js (1 / 10 ^ 12)) then Fin 0 else of_rat_js (ls_num zs / ls_den zs))"
proof -
  have sums: "foldl add_point \<lparr>sumT = Fin 0, sumY = Fin 0, sumTY = Fin 0, sumTT = Fin 0\<rparr> (plot zs) = rat_sums zs"
    using assms(1) unfolding exact_run_def by (intro exact_sums) (auto simp: in_set_prefixes)
  have len: "\<not> length (plot zs) < 2" "length (plot zs) = length zs" using assms(2) by (simp_all add: plot_def)
  have d: "js_sub (js_mul (Fin (of_nat (length zs))) (sumTT (rat_sums zs))) (js_mul (sumT (rat_sums zs)) (sumT (rat_sums zs))) = Fin (ls_den zs)"
    "js_sub (js_mul (Fin (of_nat (length zs))) (sumTY (rat_sums zs))) (js_mul (sumT (rat_sums zs)) (sumY (rat_sums zs))) = Fin (ls_num zs)"
    using assms(1) by (simp_all add: exact_run_def rat_sums_def js_sub_def ls_den_def ls_num_def)
  obtain f where f: "of_rat_js (1 / 10 ^ 12) = Fin f" "0 < f" using tiny by blast
  show ?thesis
    unfolding linearRegressionSlope_def Let_def if_not_P [OF len(1)] len(2) sums d js_abs_Fin f(1) using f(2) assms(2) by auto
qed

definition sse :: "rat \<Rightarrow> rat \<Rightarrow> (rat \<times> rat) list \<Rightarrow> rat" where
  "sse m c zs = sum_list (map (\<lambda>(t, y). (y - (m * t + c))\<^sup>2) zs)"

text \<open>A line whose residuals sum to zero, plain and weighted by time, is a best one.\<close>

lemma normal_equations_minimal:
  assumes r0: "sum_list (map (\<lambda>(t, y). y - (m * t + c)) zs) = (0 :: rat)"
    and r1: "sum_list (map (\<lambda>(t, y). t * (y - (m * t + c))) zs) = (0 :: rat)"
  shows "sse m c zs \<le> sse m' c' zs"
proof -
  let ?r = "\<lambda>(t, y). y - (m * t + c) :: rat"
  let ?u = "\<lambda>(t :: rat, y :: rat). (m - m') * t + (c - c')"
  have "sse m' c' zs = sum_list (map (\<lambda>z. (?r z)\<^sup>2 + (2 * (m - m')) * (case z of (t, y) \<Rightarrow> t * ?r (t, y)) + (2 * (c - c')) * ?r z + (?u z)\<^sup>2) zs)"
    unfolding sse_def by (intro arg_cong [where f = sum_list] map_cong) (auto simp: power2_eq_square algebra_simps)
  also have "\<dots> = sse m c zs + (2 * (m - m')) * sum_list (map (\<lambda>(t, y). t * ?r (t, y)) zs) +
      (2 * (c - c')) * sum_list (map ?r zs) + sum_list (map (\<lambda>z. (?u z)\<^sup>2) zs)"
    unfolding sse_def sum_list_addf sum_list_const_mult by (simp add: case_prod_beta')
  finally have "sse m' c' zs = sse m c zs + sum_list (map (\<lambda>z. (?u z)\<^sup>2) zs)" using r0 r1 by simp
  moreover have "0 \<le> sum_list (map (\<lambda>z. (?u z)\<^sup>2) zs)" by (rule sum_list_nonneg) auto
  ultimately show ?thesis by linarith
qed

lemma residual_sums:
  "sum_list (map (\<lambda>(t, y). y - (m * t + c)) zs) = total_of snd zs - m * total_of fst zs - of_nat (length zs) * c"
  "sum_list (map (\<lambda>(t, y). t * (y - (m * t + c))) zs) =
     total_of (\<lambda>(t, y). t * y) zs - m * total_of (\<lambda>(t, y). t * t) zs - total_of fst zs * c"
  by (induction zs) (auto simp: total_of_def algebra_simps)

lemma least_squares_line:
  assumes "ls_den zs \<noteq> 0" and m: "m = ls_num zs / ls_den zs"
    and c: "c = (total_of snd zs - m * total_of fst zs) / of_nat (length zs)"
  shows "sse m c zs \<le> sse m' c' zs"
proof (rule normal_equations_minimal)
  let ?n = "of_nat (length zs) :: rat" and ?T = "total_of fst zs" and ?Y = "total_of snd zs"
    and ?TY = "total_of (\<lambda>(t, y). t * y) zs" and ?TT = "total_of (\<lambda>(t, y). t * t) zs"
  have "zs \<noteq> []" using assms(1) by (auto simp: ls_den_def total_of_def)
  then have n: "?n \<noteq> 0" by simp
  then show "sum_list (map (\<lambda>(t, y). y - (m * t + c)) zs) = 0" unfolding residual_sums by (simp add: c)
  have "m * ls_den zs = ls_num zs" using assms(1) by (simp add: m)
  then have e: "m * (?n * ?TT - ?T * ?T) = ?n * ?TY - ?T * ?Y" by (simp add: ls_den_def ls_num_def)
  have cn: "c * ?n = ?Y - m * ?T" using n by (simp add: c)
  have "?n * (?TY - m * ?TT - ?T * c) = ?n * ?TY - m * (?n * ?TT) - ?T * (c * ?n)" by (simp add: algebra_simps)
  also have "\<dots> = 0" unfolding cn using e by (simp add: algebra_simps)
  finally have "?n * (?TY - m * ?TT - ?T * c) = 0" .
  then show "sum_list (map (\<lambda>(t, y). t * (y - (m * t + c))) zs) = 0" using n unfolding residual_sums by simp
qed

lemma equal_times_no_spread:
  assumes "\<forall>z \<in> set zs. fst z = a"
  shows "ls_den zs = 0"
proof -
  have "map fst zs = replicate (length zs) a" using assms by (intro replicate_eqI) auto
  then have f: "total_of fst zs = of_nat (length zs) * a" by (simp add: total_of_def sum_list_replicate)
  have "map (\<lambda>(t, y). t * t) zs = replicate (length zs) (a * a)" using assms by (intro replicate_eqI) auto
  then have "total_of (\<lambda>(t, y). t * t) zs = of_nat (length zs) * (a * a)" by (simp add: total_of_def sum_list_replicate)
  then show ?thesis using f by (simp add: ls_den_def)
qed

subsection \<open>Epoch milliseconds\<close>

lemma round_half_even_tie:
  assumes "\<bar>q - of_int k\<bar> < 1 / 2 \<or> \<bar>q - of_int k\<bar> = 1 / 2 \<and> even k"
  shows "round_half_even q = k"
proof -
  consider "of_int k \<le> q" | "q < of_int k" by linarith
  then show ?thesis
  proof cases
    case 1
    then have "\<lfloor>q\<rfloor> = k" using assms by (intro floor_unique) linarith+
    then show ?thesis using 1 assms by (auto simp: round_half_even_def Let_def)
  next
    case 2
    then have "\<lfloor>q\<rfloor> = k - 1" using assms by (intro floor_unique) (simp_all, linarith+)
    then show ?thesis using 2 assms by (auto simp: round_half_even_def Let_def)
  qed
qed

lemma round64_int:
  fixes X k :: int and e :: nat
  assumes "2 ^ (e + 52) \<le> X" and "X < 2 ^ (e + 53)"
    and "2 * \<bar>X - k * 2 ^ e\<bar> < 2 ^ e \<or> 2 * \<bar>X - k * 2 ^ e\<bar> = 2 ^ e \<and> even k"
  shows "round64 (of_int X) = of_int (k * 2 ^ e)"
proof -
  have X: "0 < X" using assms(1) by (rule order_less_le_trans [rotated]) simp
  have abs: "\<bar>of_int X :: rat\<bar> = of_int X" using X by simp
  have "(2 :: rat) powi int (e + 52) \<le> \<bar>of_int X\<bar>"
  proof -
    have "(of_int (2 ^ (e + 52)) :: rat) \<le> of_int X" using assms(1) by (simp only: of_int_le_iff)
    then show ?thesis unfolding abs by (simp only: power_int_of_nat of_int_power of_int_numeral)
  qed
  moreover have "\<bar>of_int X\<bar> < (2 :: rat) powi int (e + 53)"
  proof -
    have "(of_int X :: rat) < of_int (2 ^ (e + 53))" using assms(2) by (simp only: of_int_less_iff)
    then show ?thesis unfolding abs by (simp only: power_int_of_nat of_int_power of_int_numeral)
  qed
  ultimately have "int (e + 52) \<le> rexp (of_int X)" "rexp (of_int X) < int (e + 53)" using X rexp_ge rexp_less by simp_all
  then have u: "ulp_exp (of_int X) = int e" by (simp add: ulp_exp_def)
  let ?d = "of_int (X - k * 2 ^ e) :: rat"
  have q: "of_int X / 2 powi int e - of_int k = ?d / 2 ^ e" by (simp add: power_int_of_nat field_simps)
  have "2 * \<bar>?d\<bar> = of_int (2 * \<bar>X - k * 2 ^ e\<bar>)" "(2 :: rat) ^ e = of_int (2 ^ e)" by simp_all
  then have "2 * \<bar>?d\<bar> < 2 ^ e \<or> 2 * \<bar>?d\<bar> = 2 ^ e \<and> even k" using assms(3) by (simp only: of_int_less_iff of_int_eq_iff)
  then have "\<bar>?d / 2 ^ e\<bar> < 1 / 2 \<or> \<bar>?d / 2 ^ e\<bar> = 1 / 2 \<and> even k" by (auto simp: abs_divide field_simps)
  then have "round_half_even (of_int X / 2 powi int e) = k" by (intro round_half_even_tie) (simp only: q)
  then show ?thesis using X by (simp add: round64_def u)
qed

lemma js_near:
  fixes X k :: int and e :: nat
  assumes "2 ^ (e + 52) \<le> X" and "X < 2 ^ (e + 53)"
    and "2 * \<bar>X - k * 2 ^ e\<bar> < 2 ^ e \<or> 2 * \<bar>X - k * 2 ^ e\<bar> = 2 ^ e \<and> even k"
    and "0 \<le> k" and "k \<le> 2 ^ 53" and "e < 900"
  shows "of_rat_js (of_int X) = Fin (of_int (k * 2 ^ e))"
proof -
  have "k * 2 ^ e \<le> 2 ^ 53 * 2 ^ e" using assms(5) by simp
  also have "\<dots> = 2 ^ (53 + e)" by (simp only: power_add)
  also have "\<dots> < 2 ^ 1024" using assms(6) by (intro power_strict_increasing) simp_all
  finally have "(of_int (k * 2 ^ e) :: rat) < of_int (2 ^ 1024)" by (simp only: of_int_less_iff)
  then have "of_int (k * 2 ^ e) < double_limit" unfolding double_limit_def by (simp only: of_int_power of_int_numeral)
  moreover have "0 < double_limit" using double_limit_large by (rule order_less_le_trans [rotated]) simp
  moreover have "0 \<le> (of_int (k * 2 ^ e) :: rat)" using assms(4) by simp
  ultimately have "\<not> double_limit \<le> of_int (k * 2 ^ e)" "\<not> of_int (k * 2 ^ e) \<le> - double_limit" by linarith+
  then show ?thesis unfolding of_rat_js_def round64_int [OF assms(1-3)] Let_def by (simp only: if_False)
qed

definition rising :: "prow list" where
  "rising = [[(''date'', CDate (Fin 1764547200000)), (''price'', CVal (JNum (Fin 50)))],
             [(''date'', CDate (Fin 1764547215000)), (''price'', CVal (JNum (Fin 51)))]]"

definition auto_projection :: "prow list \<Rightarrow> string \<Rightarrow> BuildProjectionPathOptions" where
  "auto_projection rows key =
     \<lparr>sourceData = rows, seriesKey = key, xDataKey = None, mode = Auto, autoMethod = None, pathDensity = None, startIndex = None,
      horizonPoints = None, endValue = None, points = None\<rparr>"

lemma rising_squares:
  "js_mul (Fin 1764547200000) (Fin 1764547200000) = Fin 3113626821027839797624832"
  "js_mul (Fin 1764547215000) (Fin 1764547215000) = Fin 3113626873964256076759040"
  "js_add (Fin 3113626821027839797624832) (Fin 3113626873964256076759040) = Fin 6227253694992095337512960"
  "js_mul (Fin 3529094415000) (Fin 3529094415000) = Fin 12454507389984192822509568"
  "js_mul (Fin 2) (Fin 6227253694992095337512960) = Fin 12454507389984190675025920"
  using js_near [of 29 3113626821027840000000000 5799581894702911] js_near [of 29 3113626873964256225000000 5799581993304670]
    js_near [of 30 6227253694992095874383872 5799581944003790] js_near [of 31 12454507389984192225000000 5799581944003791]
    js_near [of 31 12454507389984190675025920 5799581944003790]
  by simp_all

lemma small_sums:
  "js_add (Fin 0) (Fin 1764547200000) = Fin 1764547200000"
  "js_add (Fin 1764547200000) (Fin 1764547215000) = Fin 3529094415000"
  "js_add (Fin 0) (Fin 50) = Fin 50"
  "js_add (Fin 50) (Fin 51) = Fin 101"
  "js_mul (Fin 1764547200000) (Fin 50) = Fin 88227360000000"
  "js_mul (Fin 1764547215000) (Fin 51) = Fin 89991907965000"
  "js_add (Fin 0) (Fin 88227360000000) = Fin 88227360000000"
  "js_add (Fin 88227360000000) (Fin 89991907965000) = Fin 178219267965000"
  "js_mul (Fin 2) (Fin 178219267965000) = Fin 356438535930000"
  "js_mul (Fin 3529094415000) (Fin 101) = Fin 356438535915000"
  "js_sub (Fin 356438535930000) (Fin 356438535915000) = Fin 15000"
  "js_sub (Fin 1764547215000) (Fin 1764547200000) = Fin 15000"
  using js_add_int [of 0 1764547200000] js_add_int [of 1764547200000 1764547215000] js_add_int [of 0 50] js_add_int [of 50 51]
    js_mul_int [of 1764547200000 50] js_mul_int [of 1764547215000 51] js_add_int [of 0 88227360000000]
    js_add_int [of 88227360000000 89991907965000] js_mul_int [of 2 178219267965000] js_mul_int [of 3529094415000 101]
    js_sub_int [of 356438535930000 356438535915000] js_sub_int [of 1764547215000 1764547200000]
  by simp_all

lemma rising_spread:
  "js_add (Fin 0) (Fin 3113626821027839797624832) = Fin 3113626821027839797624832"
  "js_sub (Fin 12454507389984190675025920) (Fin 12454507389984192822509568) = Fin (- 2147483648)"
  "js_lt (js_abs (Fin (- 2147483648))) (of_rat_js (1 / 1000000000000)) = False"
proof -
  show "js_add (Fin 0) (Fin 3113626821027839797624832) = Fin 3113626821027839797624832"
    using js_near [of 29 3113626821027839797624832 5799581894702911] by simp
  show "js_sub (Fin 12454507389984190675025920) (Fin 12454507389984192822509568) = Fin (- 2147483648)"
    using js_sub_int [of 12454507389984190675025920 12454507389984192822509568] by simp
  show "js_lt (js_abs (Fin (- 2147483648))) (of_rat_js (1 / 1000000000000)) = False"
    using tiny by (auto simp: js_abs_Fin simp del: of_rat_js_double)
qed

lemma rising_products:
  "js_div (Fin 15000) (Fin (- 2147483648)) = Fin (- 15000 / 2147483648)"
  "js_mul (Fin (- 15000 / 2147483648)) (Fin 15000) = Fin (- 225000000 / 2147483648)"
  "js_mul (Fin (- 225000000 / 2147483648)) (Fin 6) = Fin (- 1350000000 / 2147483648)"
  "js_add (Fin 51) (Fin (- 1350000000 / 2147483648)) = Fin (108171666048 / 2147483648)"
  "js_add (Fin 1764547215000) (js_mul (Fin 15000) (Fin 6)) = Fin 1764547305000"
  using is_double_dyadic [of "- 15000" 31] is_double_dyadic [of "- 225000000" 31] is_double_dyadic [of "- 1350000000" 31]
    is_double_dyadic [of 108171666048 31] js_mul_int [of 15000 6] js_add_int [of 1764547215000 90000]
  by simp_all

lemma rising_slope:
  "linearRegressionSlope [(Fin 1764547200000, Fin 50), (Fin 1764547215000, Fin 51)] = Fin (- 15000 / 2147483648)"
  by (simp add: linearRegressionSlope_def Let_def add_point_def small_sums rising_squares rising_spread rising_products
      del: js_add.simps js_mul.simps js_div.simps)

text \<open>A price that rises by one in fifteen seconds is projected to fall: the squares of epoch milliseconds have lost the
  digits the denominator is made of.\<close>

lemma rising_series_projected_down:
  "buildProjectionPath parse (auto_projection rising ''price'') =
     Some [\<lparr>pp_date = Fin 1764547215000, pp_value = Fin 51\<rparr>, \<lparr>pp_date = Fin 1764547305000, pp_value = Fin (108171666048 / 2147483648)\<rparr>]"
proof -
  have read: "dated_value parse ''price'' ''date'' (rising ! 0) = Some (Fin 1764547200000, Fin 50)"
    "dated_value parse ''price'' ''date'' (rising ! Suc 0) = Some (Fin 1764547215000, Fin 51)"
    "readDate parse (rising ! 0) ''date'' = Some (Fin 1764547200000)" "readDate parse (rising ! Suc 0) ''date'' = Some (Fin 1764547215000)"
    by (simp_all add: rising_def dated_value_def readDate_def readValue_def cell_at_def get_or_def valid_date_def is_nan_def is_finite_num_def)
  have rows: "rising = [rising ! 0, rising ! Suc 0]" "length rising = 2" "rising \<noteq> []" by (simp_all add: rising_def)
  have index: "anchor_index (auto_projection rising ''price'') = 1"
    by (simp add: anchor_index_def auto_projection_def resolveStartIndex_def rows(2))
  have opts: "sourceData (auto_projection rising ''price'') = rising" "x_key (auto_projection rising ''price'') = ''date''"
    "horizon (auto_projection rising ''price'') = Fin 6" "seriesKey (auto_projection rising ''price'') = ''price''"
    "manual_points (auto_projection rising ''price'') = None" "target_value (auto_projection rising ''price'') = None"
    "autoMethod (auto_projection rising ''price'') = None" "pathDensity (auto_projection rising ''price'') = None"
    by (simp_all add: auto_projection_def x_key_def horizon_def get_or_def manual_points_def target_value_def)
  have anchor: "anchor_of parse (auto_projection rising ''price'') = Some (Fin 1764547215000, Fin 51)"
    by (simp add: anchor_of_def opts index row_index_def rows(2) read)
  have hist: "history_points parse rising ''price'' ''date'' 1 = [(Fin 1764547200000, Fin 50), (Fin 1764547215000, Fin 51)]"
    unfolding history_points_def by (subst rows(1)) (simp add: List.map_filter_def read)
  have interval: "resolveIntervalMs parse rising ''date'' 1 = Fin 15000"
    by (simp add: resolveIntervalMs_def intervalFromAdjacentRows_def date_of_row_def row_index_def rows(2) read small_sums or_else_def get_or_def)
  have clip: "time_clip (Fin 1764547215000) = Fin 1764547215000" "time_clip (Fin 1764547305000) = Fin 1764547305000"
    by (simp_all add: time_clip_def)
  show ?thesis
    unfolding buildProjectionPath_def opts anchor index hist interval Let_def option.simps prod.case get_or_def if_not_P [OF rows(3)]
      buildAutoFutureValues_def rising_slope point_after_def anchor_point_def rising_products clip
    by (simp only: simp_thms if_True if_False ProjectionAutoMethod.distinct rising_products)
qed

lemma rising_not_exact: "\<not> exact_run [(1764547200000, 50), (1764547215000, 51)]"
proof -
  have "\<not> is_double (1764547200000 * 1764547200000)"
    using rising_squares(1) of_rat_js_double [of "1764547200000 * 1764547200000"] by auto
  then show ?thesis by (simp add: exact_run_def)
qed

text \<open>C15. The regression slope, where it is exact and where it is not. On points none of whose sums, products and
  differences needs rounding (\<open>exact_run\<close>; fractions are allowed), the slope is zero if the spread of the times,
  \<open>n \<Sigma>t\<^sup>2 - (\<Sigma>t)\<^sup>2\<close>, is below \<open>1e-12\<close>, in particular if all times are equal, and otherwise it is the slope of a
  least squares line, rounded once. The times the chart passes are epoch milliseconds, whose squares do need rounding: the
  history of two points that rises from 50 to 51 within fifteen seconds is no exact run, and its projection falls.\<close>

theorem regression_is_least_squares:
  assumes "exact_run zs" and "2 \<le> length zs"
  shows "(js_lt (Fin \<bar>ls_den zs\<bar>) (of_rat_js (1 / 10 ^ 12)) \<longrightarrow> linearRegressionSlope (plot zs) = Fin 0)
    \<and> (\<not> js_lt (Fin \<bar>ls_den zs\<bar>) (of_rat_js (1 / 10 ^ 12)) \<longrightarrow>
        (\<exists>m c. linearRegressionSlope (plot zs) = of_rat_js m \<and> (\<forall>m' c'. sse m c zs \<le> sse m' c' zs)))
    \<and> ((\<forall>z \<in> set zs. fst z = fst (hd zs)) \<longrightarrow> linearRegressionSlope (plot zs) = Fin 0)
    \<and> \<not> exact_run [(1764547200000, 50), (1764547215000, 51)]
    \<and> buildProjectionPath parse (auto_projection rising ''price'') =
        Some [\<lparr>pp_date = Fin 1764547215000, pp_value = Fin 51\<rparr>, \<lparr>pp_date = Fin 1764547305000, pp_value = Fin (108171666048 / 2147483648)\<rparr>]"
proof -
  obtain f where f: "of_rat_js (1 / 10 ^ 12) = Fin f" "0 < f" using tiny by blast
  note slope = regression_exact [OF assms]
  have "\<exists>m c. linearRegressionSlope (plot zs) = of_rat_js m \<and> (\<forall>m' c'. sse m c zs \<le> sse m' c' zs)"
    if big: "\<not> js_lt (Fin \<bar>ls_den zs\<bar>) (of_rat_js (1 / 10 ^ 12))"
  proof -
    have "ls_den zs \<noteq> 0" using big f by auto
    from least_squares_line [OF this refl refl] show ?thesis using slope big by auto
  qed
  moreover have "linearRegressionSlope (plot zs) = Fin 0" if "\<forall>z \<in> set zs. fst z = fst (hd zs)"
    using slope equal_times_no_spread [OF that] f by simp
  ultimately show ?thesis using slope rising_not_exact rising_series_projected_down by simp
qed

theorem regression_is_least_squares_witness:
  "\<exists>m c. linearRegressionSlope (plot [(0, 1 / 4), (1 / 2, 3), (2, 4)]) = of_rat_js m
    \<and> (\<forall>m' c'. sse m c [(0, 1 / 4), (1 / 2, 3), (2, 4)] \<le> sse m' c' [(0, 1 / 4), (1 / 2, 3), (2, 4)])"
proof -
  let ?zs = "[(0, 1 / 4), (1 / 2, 3), (2, 4)] :: (rat \<times> rat) list"
  have d: "is_double (of_int k / 2 ^ 4)" if "\<bar>k\<bar> \<le> 2 ^ 53" for k using is_double_dyadic [OF that, of 4] by simp
  have "exact_run ?zs"
    using d [of 0] d [of 4] d [of 8] d [of 16] d [of 24] d [of 40] d [of 48] d [of 52] d [of 64] d [of 68] d [of 100] d [of 116] d [of 128]
      d [of 152] d [of 204] d [of 290] d [of 456] d [of 166] d [of 104]
    by (simp add: exact_run_def total_of_def ls_num_def ls_den_def)
  moreover have "\<not> js_lt (Fin \<bar>ls_den ?zs\<bar>) (of_rat_js (1 / 10 ^ 12))"
    using tiny by (auto simp: ls_den_def total_of_def)
  ultimately show ?thesis using regression_is_least_squares [of ?zs] by simp
qed

subsection \<open>What is drawn\<close>

text \<open>The line is drawn between its first and its last point only, whatever lies between them.\<close>

lemma line_ignores_middle:
  "ProjectionLine xScale yScale w sm se r sw kind (p # ps @ [q]) = ProjectionLine xScale yScale w sm se r sw kind [p, q]"
  by (simp add: ProjectionLine_def projection_geometry_def js_first_def js_last_def)

text \<open>With the default sizes a line that reaches the edge stops one pixel before the centre of its dot.\<close>

lemma dot_off_the_line:
  assumes "is_double w" and "7 \<le> w"
  shows "\<exists>a b. resolveVisibleEndX (Fin w) (Fin w) (Fin 5) (Fin 2) = Fin a \<and>
    ProjectionLineEndMarker (\<lambda>_. Fin w) y (Fin w) (Fin 5) PReady [p, q] = Some (Fin b, y (pp_value q)) \<and> a = round64 (w - 7) \<and> b = round64 (w - 6)"
proof -
  have "\<exists>a. of_rat_js (w - n) = Fin a \<and> 0 \<le> a \<and> a \<le> w" if "0 \<le> n" "n \<le> 7" for n
    using of_rat_js_bounded [OF is_double_small(1) assms(1), of "w - n"] that assms(2) by auto
  from this [of 7] this [of 6] obtain a b where ab: "of_rat_js (w - 7) = Fin a" "0 \<le> a" "a \<le> w" "of_rat_js (w - 6) = Fin b" "0 \<le> b" "b \<le> w" by auto
  have "of_rat_js (1 / 2) = Fin (1 / 2)" using is_double_dyadic [of 1 1] by simp
  moreover have "of_rat_js 6 = Fin 6" "of_rat_js 7 = Fin 7" using js_int [of 6] js_int [of 7] by simp_all
  ultimately have "resolveVisibleEndX (Fin w) (Fin w) (Fin 5) (Fin 2) = Fin a"
    "ProjectionLineEndMarker (\<lambda>_. Fin w) y (Fin w) (Fin 5) PReady [p, q] = Some (Fin b, y (pp_value q))"
    using ab by (simp_all add: resolveVisibleEndX_def ProjectionLineEndMarker_def showStroke_def js_last_def js_sub_def js_max_Fin js_min_Fin)
  then show ?thesis using of_rat_js_Fin [OF ab(1)] of_rat_js_Fin [OF ab(4)] by auto
qed

lemma group_keys: "set (map_keys (groupLinesByYAxisId lines)) = (\<lambda>l. normalizeYAxisId (yAxisId l)) ` set lines"
proof -
  have "set (map_keys (fold (\<lambda>line groups. let axisId = normalizeYAxisId (yAxisId line); bucket = get_or (map_of groups axisId) []
             in map_set axisId (bucket @ [line]) groups) lines m)) = set (map_keys m) \<union> (\<lambda>l. normalizeYAxisId (yAxisId l)) ` set lines" for m
    by (induction lines arbitrary: m) (auto simp: Let_def js_simps)
  from this [of "[]"] show ?thesis by (simp add: groupLinesByYAxisId_def map_keys_def)
qed

text \<open>A projection on an axis no line uses has a domain of its own but is drawn on the scale of the default axis.\<close>

lemma scale_of_axis_without_lines:
  assumes "\<forall>l \<in> set lines. normalizeYAxisId (yAxisId l) \<noteq> axis" and "axis \<noteq> DEFAULT_Y_AXIS_ID" and "axis \<noteq> []"
  shows "useYScale lines domains (Some (Str axis)) = useYScale lines domains None"
proof -
  have "axis \<notin> set (map_keys (groupLinesByYAxisId lines))" using assms(1) by (auto simp: group_keys)
  then have "map_of (scale_domains lines domains) axis = None"
    using assms(2) by (auto simp: scale_domains_def Let_def js_simps map_of_set_keys)
  then show ?thesis using assms(3) by (simp add: useYScale_def Let_def normalizeYAxisId_def get_or_def split: option.split)
qed

text \<open>Without a brush the horizontal domain reaches the last date of every projection.\<close>

lemma dates_in_x_domain:
  assumes "is_double t" and "\<forall>c \<in> set configs. \<forall>p \<in> set (plc_data c). double_num (pp_date p)"
    and "c \<in> set configs" and "p \<in> set (plc_data c)"
  shows "js_le (pp_date p) (mergeProjectionXDomainMax (Fin t) configs)"
proof -
  let ?ts = "map pp_date (concat (map plc_data configs))"
  have p: "pp_date p \<in> set ?ts" using assms(3,4) by auto
  then have "?ts \<noteq> []" by force
  moreover have "\<forall>v \<in> set ?ts. double_num v" using assms(2) by auto
  ultimately obtain lo hi where h: "extents_of ?ts = Some (Fin lo, Fin hi)" "\<forall>v \<in> set ?ts. inside v (Fin lo, Fin hi)"
    using extents_contain by blast
  then have "js_le (pp_date p) (Fin hi)" using p by (auto simp: inside_def)
  then have "js_le (pp_date p) (Fin (max t hi))" using js_le_trans [of _ "Fin hi" "Fin (max t hi)"] by simp
  then show ?thesis by (simp add: mergeProjectionXDomainMax_def projectionDateExtents_def h(1) js_max_Fin)
qed

lemma configs_have_two_points: "c \<in> set (extractProjectionLineConfigs parse children) \<Longrightarrow> 2 \<le> length (plc_data c)"
proof -
  have "c \<in> set (visit_node parse n) \<Longrightarrow> 2 \<le> length (plc_data c)" for n
    by (induction n) (auto simp: Let_def split: if_splits)
  then show "c \<in> set (extractProjectionLineConfigs parse children) \<Longrightarrow> 2 \<le> length (plc_data c)"
    by (auto simp: extractProjectionLineConfigs_def)
qed

end
