(* ===== verification/Sunburst.thy ===== *)
theory Sunburst
  imports Projection
begin

text \<open>
  The sunburst chart of \<^verbatim>\<open>packages/ui/src/components/charts\<close>: \<^verbatim>\<open>sunburst.ts\<close> in the order of the file (layout of the
  tree into arcs, rings, zoom, enter timing, hover growth), the relations between segments and the zoom of
  \<^verbatim>\<open>sunburst-chart.tsx\<close>, the breadcrumb, the hint and the colours of their own files.

  Angles and radii are doubles. A node is addressed by the names on the way to it, joined by the separator
  \<^verbatim>\<open> / \<close>; what the chart shows under a focus is decided on these strings. The sine and cosine of the host are parameters.
\<close>

datatype SunburstNode =
  Node (sn_name: string) (sn_value: "jsnum option") (sn_color: "string option") (sn_fill: "string option") (sn_children: "SunburstNode list")

record ArcDatum =
  ad_id :: string
  ad_name :: string
  ad_depth :: int
  ad_value :: jsnum
  ad_categoryIndex :: int
  ad_hasChildren :: bool
  ad_trail :: "string list"
  ad_parentId :: "string option"
  ad_a0 :: jsnum
  ad_a1 :: jsnum
  ad_arcIndex :: int
  ad_color :: "string option"
  ad_fill :: "string option"

record Focus =
  fo_id :: string
  fo_name :: string
  fo_depth :: int
  fo_parentId :: "string option"
  fo_categoryIndex :: int
  fo_a0 :: jsnum
  fo_a1 :: jsnum

record ArcGeometry =
  g_a0 :: jsnum
  g_a1 :: jsnum
  g_innerR :: jsnum
  g_outerR :: jsnum

text \<open>\<open>Math.PI\<close> is \<open>884279719003555 / 2 ^ 48\<close>; doubling and halving are exact.\<close>

definition PI_js :: rat where "PI_js = 884279719003555 / 281474976710656"
definition TOP :: jsnum where "TOP = Fin (- (PI_js / 2))"
definition TWO_PI :: jsnum where "TWO_PI = Fin (2 * PI_js)"
definition ID_SEP :: string where "ID_SEP = '' / ''"
definition DRILL_CENTER_SCALE :: jsnum where "DRILL_CENTER_SCALE = of_rat_js (65 / 100)"
definition DRILL_CENTER_DEPTH_SHRINK :: jsnum where "DRILL_CENTER_DEPTH_SHRINK = of_rat_js (8 / 100)"
definition HOVER_GROW_RING_BUDGET :: jsnum where "HOVER_GROW_RING_BUDGET = of_rat_js (28 / 100)"
definition HOVER_GROW_SEGMENT_CAP :: jsnum where "HOVER_GROW_SEGMENT_CAP = of_rat_js (1 / 10)"

definition num :: "int \<Rightarrow> jsnum" where "num n = Fin (of_int n)"

definition nodeId :: "string option \<Rightarrow> string \<Rightarrow> string" where
  "nodeId parentId name = (case parentId of Some p \<Rightarrow> if p = [] then name else p @ ID_SEP @ name | None \<Rightarrow> name)"

primrec sumValues :: "SunburstNode \<Rightarrow> jsnum" where
  "sumValues (Node name v col fil cs) =
     (if cs \<noteq> [] then foldl js_add (Fin 0) (map sumValues cs) else get_or v (Fin 0))"

record BuildContext =
  bc_arcs :: "ArcDatum list"
  bc_focusById :: "(string \<times> Focus) list"
  bc_maxDepth :: int
  bc_arcIndex :: int

text \<open>The part of \<open>layoutNode\<close> before the loop: the arc of the node and its focus.\<close>

definition enter_node ::
  "SunburstNode \<Rightarrow> string \<Rightarrow> int \<Rightarrow> jsnum \<Rightarrow> jsnum \<Rightarrow> string option \<Rightarrow> int \<Rightarrow> string list \<Rightarrow> BuildContext \<Rightarrow> BuildContext" where
  "enter_node node nid depth a0 a1 parentId categoryIndex trail ctx =
     (let ctx1 = (if 0 < depth then
            ctx\<lparr>bc_arcs := bc_arcs ctx @ [\<lparr>ad_id = nid, ad_name = sn_name node, ad_depth = depth, ad_value = sumValues node,
                   ad_categoryIndex = categoryIndex, ad_hasChildren = (sn_children node \<noteq> []), ad_trail = trail @ [sn_name node],
                   ad_parentId = parentId, ad_a0 = a0, ad_a1 = a1, ad_arcIndex = bc_arcIndex ctx, ad_color = sn_color node, ad_fill = sn_fill node\<rparr>],
                bc_arcIndex := bc_arcIndex ctx + 1\<rparr>
          else ctx)
      in ctx1\<lparr>bc_focusById := map_set nid \<lparr>fo_id = nid, fo_name = sn_name node, fo_depth = depth, fo_parentId = parentId,
                fo_categoryIndex = categoryIndex, fo_a0 = a0, fo_a1 = a1\<rparr> (bc_focusById ctx1),
              bc_maxDepth := max (bc_maxDepth ctx1) depth\<rparr>)"

text \<open>The loop over the children, each given by its name, its value and the function that lays it out.\<close>

type_synonym layout = "string \<Rightarrow> int \<Rightarrow> jsnum \<Rightarrow> jsnum \<Rightarrow> string option \<Rightarrow> int \<Rightarrow> string list \<Rightarrow> BuildContext \<Rightarrow> BuildContext"

fun layout_children ::
  "jsnum \<Rightarrow> string \<Rightarrow> int \<Rightarrow> jsnum \<Rightarrow> int \<Rightarrow> string list \<Rightarrow> (string \<times> jsnum \<times> layout) list \<Rightarrow> int \<Rightarrow> jsnum \<Rightarrow> BuildContext \<Rightarrow> BuildContext" where
  "layout_children value nid depth arcSpan categoryIndex trail [] index cursor ctx = ctx"
| "layout_children value nid depth arcSpan categoryIndex trail ((name, childValue, lay) # rest) index cursor ctx =
     (let childSpan = (if js_lt (Fin 0) value then js_mul (js_div childValue value) arcSpan else Fin 0)
      in layout_children value nid depth arcSpan categoryIndex trail rest (index + 1) (js_add cursor childSpan)
           (lay (nodeId (Some nid) name) (depth + 1) cursor (js_add cursor childSpan) (Some nid)
              (if depth = 0 then index else categoryIndex) trail ctx))"

primrec layoutNode :: "SunburstNode \<Rightarrow> layout" where
  "layoutNode (Node name v col fil cs) =
     (\<lambda>nid depth a0 a1 parentId categoryIndex trail ctx.
        layout_children (sumValues (Node name v col fil cs)) nid depth (js_sub a1 a0) categoryIndex (if depth = 0 then [name] else trail)
          (zip (map sn_name cs) (zip (map sumValues cs) (map layoutNode cs))) 0 a0
          (enter_node (Node name v col fil cs) nid depth a0 a1 parentId categoryIndex trail ctx))"

definition toRadians :: "jsnum \<Rightarrow> jsnum" where
  "toRadians normalized = js_add TOP (js_mul normalized TWO_PI)"

definition empty_context :: BuildContext where
  "empty_context = \<lparr>bc_arcs = [], bc_focusById = [], bc_maxDepth = 0, bc_arcIndex = 0\<rparr>"

definition buildArcs :: "SunburstNode \<Rightarrow> BuildContext" where
  "buildArcs tree =
     (let ctx = layoutNode tree (sn_name tree) 0 (Fin 0) (Fin 1) None 0 [] empty_context
      in ctx\<lparr>bc_arcs := map (\<lambda>a. a\<lparr>ad_a0 := toRadians (ad_a0 a), ad_a1 := toRadians (ad_a1 a)\<rparr>) (bc_arcs ctx),
             bc_focusById := map (\<lambda>(k, f). (k, f\<lparr>fo_a0 := toRadians (fo_a0 f), fo_a1 := toRadians (fo_a1 f)\<rparr>)) (bc_focusById ctx)\<rparr>)"

subsection \<open>Rings and zoom\<close>

definition ringOptions :: "int \<Rightarrow> int \<Rightarrow> jsnum \<Rightarrow> jsnum \<times> jsnum" where
  "ringOptions focusDepth maxDepth radius =
     (let oneLevelCenterR = js_div radius (num maxDepth) in
      if focusDepth = 0 then (Fin 0, oneLevelCenterR)
      else
        let depthPastFirstDrill = num (max 0 (focusDepth - 1));
            centerScale = js_max [of_rat_js (45 / 100), js_sub DRILL_CENTER_SCALE (js_mul depthPastFirstDrill DRILL_CENTER_DEPTH_SHRINK)];
            centerR = js_mul oneLevelCenterR centerScale;
            visibleRings = num (max 1 (maxDepth - focusDepth))
        in (centerR, js_div (js_sub radius centerR) visibleRings))"

text \<open>Whether an arc lies under a node, by their identifiers.\<close>

definition isDescendant :: "ArcDatum \<Rightarrow> string \<Rightarrow> bool" where
  "isDescendant d ancestorId \<longleftrightarrow> ad_id d = ancestorId \<or> starts_with (ad_id d) (ancestorId @ ID_SEP)"

definition map_angle :: "Focus \<Rightarrow> jsnum \<Rightarrow> jsnum" where
  "map_angle focus angle =
     (let focusSpan = js_sub (fo_a1 focus) (fo_a0 focus) in
      if js_le focusSpan (of_rat_js (1 / 10 ^ 9)) then TOP
      else js_add TOP (js_mul (js_div (js_sub angle (fo_a0 focus)) focusSpan) TWO_PI))"

definition geometryFor :: "ArcDatum \<Rightarrow> Focus \<Rightarrow> int \<Rightarrow> jsnum \<Rightarrow> ArcGeometry option" where
  "geometryFor arc focus maxDepth radius =
     (if ad_depth arc \<le> fo_depth focus then None
      else if \<not> isDescendant arc (fo_id focus) then None
      else
        let (centerR, ringWidth) = ringOptions (fo_depth focus) maxDepth radius;
            relativeDepth = ad_depth arc - fo_depth focus
        in Some \<lparr>g_a0 = map_angle focus (ad_a0 arc), g_a1 = map_angle focus (ad_a1 arc),
                 g_innerR = js_add centerR (js_mul (num (relativeDepth - 1)) ringWidth),
                 g_outerR = js_add centerR (js_mul (num relativeDepth) ringWidth)\<rparr>)"

text \<open>The two loops of \<open>lerpAngle\<close>.\<close>

partial_function (option) wrap_down :: "jsnum \<Rightarrow> jsnum option" where
  "wrap_down delta = (if js_lt (Fin PI_js) delta then wrap_down (js_sub delta TWO_PI) else Some delta)"

partial_function (option) wrap_up :: "jsnum \<Rightarrow> jsnum option" where
  "wrap_up delta = (if js_lt delta (Fin (- PI_js)) then wrap_up (js_add delta TWO_PI) else Some delta)"

definition lerpAngle :: "jsnum \<Rightarrow> jsnum \<Rightarrow> jsnum \<Rightarrow> jsnum option" where
  "lerpAngle from to progress =
     map_option (\<lambda>delta. js_add from (js_mul delta progress)) (Option.bind (wrap_down (js_sub to from)) wrap_up)"

definition clamp01 :: "jsnum \<Rightarrow> jsnum" where
  "clamp01 p = js_min [Fin 1, js_max [Fin 0, p]]"

definition mid_of :: "jsnum \<Rightarrow> jsnum \<Rightarrow> jsnum" where
  "mid_of a b = js_div (js_add a b) (Fin 2)"

definition lerp :: "jsnum \<Rightarrow> jsnum \<Rightarrow> jsnum \<Rightarrow> jsnum" where
  "lerp a b t = js_add a (js_mul (js_sub b a) t)"

definition lerpGeometry :: "ArcGeometry \<Rightarrow> ArcGeometry \<Rightarrow> jsnum \<Rightarrow> ArcGeometry option" where
  "lerpGeometry from to progress =
     (let t = clamp01 progress;
          fromHalf = js_div (js_sub (g_a1 from) (g_a0 from)) (Fin 2);
          toHalf = js_div (js_sub (g_a1 to) (g_a0 to)) (Fin 2);
          half = lerp fromHalf toHalf t
      in map_option (\<lambda>mid. \<lparr>g_a0 = js_sub mid half, g_a1 = js_add mid half,
             g_innerR = lerp (g_innerR from) (g_innerR to) t, g_outerR = lerp (g_outerR from) (g_outerR to) t\<rparr>)
           (lerpAngle (mid_of (g_a0 from) (g_a1 from)) (mid_of (g_a0 to) (g_a1 to)) t))"

definition pointGeometry :: "ArcGeometry \<Rightarrow> ArcGeometry" where
  "pointGeometry source =
     (let mid = mid_of (g_a0 source) (g_a1 source); radius = mid_of (g_innerR source) (g_outerR source);
          pin = js_max [Fin 0, js_min [js_mul radius (of_rat_js (12 / 100)), g_innerR source]]
      in \<lparr>g_a0 = mid, g_a1 = mid, g_innerR = pin, g_outerR = pin\<rparr>)"

text \<open>\<open>Some None\<close> when there is nothing to show; \<open>None\<close> when a loop does not end.\<close>

definition transitionGeometry :: "ArcDatum \<Rightarrow> Focus \<Rightarrow> Focus \<Rightarrow> int \<Rightarrow> jsnum \<Rightarrow> jsnum \<Rightarrow> ArcGeometry option option" where
  "transitionGeometry arc fromFocus toFocus maxDepth radius progress =
     (case (geometryFor arc fromFocus maxDepth radius, geometryFor arc toFocus maxDepth radius) of
        (None, None) \<Rightarrow> Some None
      | (Some from, Some to) \<Rightarrow> map_option Some (lerpGeometry from to progress)
      | (Some from, None) \<Rightarrow> map_option Some (lerpGeometry from (pointGeometry from) progress)
      | (None, Some to) \<Rightarrow> map_option Some (lerpGeometry (pointGeometry to) to progress))"

subsection \<open>Enter timing\<close>

definition clockwiseFraction :: "jsnum \<Rightarrow> jsnum" where
  "clockwiseFraction angle =
     (let normalized = js_sub angle TOP
      in js_div (if js_lt normalized (Fin 0) then js_add normalized TWO_PI else normalized) TWO_PI)"

definition by_depth :: "ArcDatum list \<Rightarrow> (int \<times> ArcDatum list) list" where
  "by_depth xs = foldl (\<lambda>m arc. map_set (ad_depth arc) (get_or (map_of m (ad_depth arc)) [] @ [arc]) m) [] xs"

definition segment_delay :: "jsnum \<Rightarrow> int \<Rightarrow> nat \<Rightarrow> jsnum" where
  "segment_delay scale ringIndex index =
     js_mul (js_add (js_mul (num ringIndex) (of_rat_js (12 / 100))) (js_mul (num (int index)) (of_rat_js (8 / 100)))) scale"

definition ring_delays :: "jsnum \<Rightarrow> ArcDatum list \<Rightarrow> (string \<times> jsnum) list" where
  "ring_delays scale ringArcs =
     (let sorted = sort_num (\<lambda>a. clockwiseFraction (ad_a0 a)) ringArcs;
          ringIndex = (case sorted of a # _ \<Rightarrow> ad_depth a | [] \<Rightarrow> 1) - 1
      in map (\<lambda>(index, arc). (ad_id arc, segment_delay scale ringIndex index)) (enumerate 0 sorted))"

definition buildSunburstEnterTiming :: "ArcDatum list \<Rightarrow> jsnum option \<Rightarrow> (string \<times> jsnum) list \<times> jsnum" where
  "buildSunburstEnterTiming xs staggerScale =
     (let scale = js_max [of_rat_js (1 / 4), get_or staggerScale (Fin 1)];
          delays = concat (map (\<lambda>(_, ring). ring_delays scale ring) (by_depth xs))
      in (foldl (\<lambda>m (k, d). map_set k d m) [] delays, foldl (\<lambda>mx (_, d). js_max [mx, d]) (Fin 0) delays))"

record SunburstRevealSchedule =
  ringStarts :: "(int \<times> jsnum) list"
  ringDuration :: jsnum
  segmentsCompleteAt :: jsnum
  labelsStart :: jsnum
  labelDuration :: jsnum

definition buildRevealSchedule :: "ArcDatum list \<Rightarrow> jsnum option \<Rightarrow> SunburstRevealSchedule" where
  "buildRevealSchedule xs staggerScale =
     (let (segmentDelays, maxDelay) = buildSunburstEnterTiming xs staggerScale
      in \<lparr>ringStarts = foldl (\<lambda>m arc. case map_of segmentDelays (ad_id arc) of Some d \<Rightarrow> map_set (ad_depth arc) d m | None \<Rightarrow> m) [] xs,
          ringDuration = of_rat_js (6 / 10), segmentsCompleteAt = maxDelay,
          labelsStart = js_add maxDelay (of_rat_js (12 / 100)), labelDuration = of_rat_js (2 / 10)\<rparr>)"

definition segmentRevealFromRingSweep :: "jsnum \<Rightarrow> jsnum \<Rightarrow> jsnum \<Rightarrow> jsnum \<times> jsnum" where
  "segmentRevealFromRingSweep ringProgress a0 a1 =
     (let radial = clamp01 ringProgress; startF = clockwiseFraction a0; endF = clockwiseFraction a1 in
      if js_le ringProgress startF then (Fin 0, radial)
      else if js_le endF ringProgress then (Fin 1, radial)
      else (js_div (js_sub ringProgress startF) (js_max [js_sub endF startF, of_rat_js (1 / 10 ^ 9)]), radial))"

definition buildRevealDelays :: "ArcDatum list \<Rightarrow> (string \<times> jsnum) list" where
  "buildRevealDelays xs =
     (let segmentDelays = fst (buildSunburstEnterTiming xs None)
      in foldl (\<lambda>m arc. map_set (ad_id arc) (get_or (map_of segmentDelays (ad_id arc)) (Fin 0)) m) [] xs)"

subsection \<open>Paths\<close>

definition xy :: "jsnum \<Rightarrow> jsnum \<Rightarrow> string" where
  "xy x y = num_to_string x @ '' '' @ num_to_string y"

definition arcPathFromRadii :: "(jsnum \<Rightarrow> jsnum) \<Rightarrow> (jsnum \<Rightarrow> jsnum) \<Rightarrow> jsnum \<Rightarrow> jsnum \<Rightarrow> jsnum \<Rightarrow> jsnum \<Rightarrow> string option" where
  "arcPathFromRadii sine cosine a0 a1 inner outer =
     (if js_lt (js_sub outer inner) (of_rat_js (1 / 2)) \<or> js_lt (js_sub a1 a0) (of_rat_js (1 / 1000)) then None
      else
        let largeArc = (if js_lt (Fin PI_js) (js_sub a1 a0) then ''1'' else ''0'');
            at_angle = (\<lambda>a r. xy (js_mul (sine a) r) (js_mul (js_neg (cosine a)) r));
            sweep = (\<lambda>r flag target. ''A '' @ xy r r @ '' 0 '' @ largeArc @ '' '' @ flag @ '' '' @ target)
        in if js_lt inner (Fin 1)
           then Some (''M 0 0 L '' @ at_angle a0 outer @ '' '' @ sweep outer ''1'' (at_angle a1 outer) @ '' Z'')
           else Some (''M '' @ at_angle a0 outer @ '' '' @ sweep outer ''1'' (at_angle a1 outer) @ '' L '' @ at_angle a1 inner @ '' '' @
                      sweep inner ''0'' (at_angle a0 inner) @ '' Z''))"

definition arcPath :: "(jsnum \<Rightarrow> jsnum) \<Rightarrow> (jsnum \<Rightarrow> jsnum) \<Rightarrow> ArcGeometry \<Rightarrow> jsnum \<Rightarrow> jsnum option \<Rightarrow> string option" where
  "arcPath sine cosine g progress radial =
     (let radialProgress = get_or radial progress in
      if js_le progress (Fin 0) \<and> js_le radialProgress (Fin 0) then None
      else
        let p = clamp01 progress; radialP = clamp01 radialProgress in
        if js_le (Fin 1) p \<and> js_le (Fin 1) radialP then arcPathFromRadii sine cosine (g_a0 g) (g_a1 g) (g_innerR g) (g_outerR g)
        else arcPathFromRadii sine cosine (g_a0 g) (js_add (g_a0 g) (js_mul (js_sub (g_a1 g) (g_a0 g)) p))
               (if js_lt (g_innerR g) (Fin 1) then Fin 0 else g_innerR g)
               (if js_lt (g_innerR g) (Fin 1) then js_mul (g_outerR g) radialP
                else js_add (g_innerR g) (js_mul (js_sub (g_outerR g) (g_innerR g)) radialP)))"

definition centroidAngle :: "ArcDatum \<Rightarrow> jsnum" where
  "centroidAngle arc = mid_of (ad_a0 arc) (ad_a1 arc)"

definition geomCentroidAngle :: "ArcGeometry \<Rightarrow> jsnum" where
  "geomCentroidAngle g = mid_of (g_a0 g) (g_a1 g)"

definition geomCentroidRadius :: "ArcGeometry \<Rightarrow> jsnum" where
  "geomCentroidRadius g = mid_of (g_innerR g) (g_outerR g)"

subsection \<open>Hover\<close>

definition visibleHoverPathLength :: "int \<Rightarrow> int \<Rightarrow> int" where
  "visibleHoverPathLength hoveredDepth focusDepth = max 1 (hoveredDepth - focusDepth)"

definition hoverGrowForPathSegment :: "jsnum \<Rightarrow> jsnum \<Rightarrow> int \<Rightarrow> jsnum" where
  "hoverGrowForPathSegment hoverPop ringWidth pathLength =
     (let budgetPerSegment = js_div (js_mul ringWidth HOVER_GROW_RING_BUDGET) (num pathLength);
          perSegmentCap = js_mul ringWidth HOVER_GROW_SEGMENT_CAP
      in js_min [hoverPop, perSegmentCap, budgetPerSegment])"

definition maxHoverSegmentThickness :: "int \<Rightarrow> jsnum \<Rightarrow> jsnum \<Rightarrow> int option \<Rightarrow> jsnum" where
  "maxHoverSegmentThickness maxDepth radius hoverPop referenceFocusDepth =
     (let ringWidth = snd (ringOptions (get_or referenceFocusDepth 1) maxDepth radius)
      in js_add ringWidth (hoverGrowForPathSegment hoverPop ringWidth 1))"

definition isOnHoverPath :: "ArcDatum \<Rightarrow> string \<Rightarrow> bool" where
  "isOnHoverPath d hoveredId \<longleftrightarrow> ad_id d = hoveredId \<or> starts_with hoveredId (ad_id d @ ID_SEP)"

definition allowed_grow :: "jsnum \<Rightarrow> jsnum \<Rightarrow> ArcGeometry option \<Rightarrow> jsnum" where
  "allowed_grow segmentGrow maxExpandedThickness base =
     (let baseThickness = (case base of Some g \<Rightarrow> js_sub (g_outerR g) (g_innerR g) | None \<Rightarrow> maxExpandedThickness)
      in if js_le maxExpandedThickness baseThickness then Fin 0
         else js_min [segmentGrow, js_sub maxExpandedThickness baseThickness])"

definition buildHoverGrowTargets ::
  "ArcDatum list \<Rightarrow> ArcDatum \<Rightarrow> Focus \<Rightarrow> int \<Rightarrow> jsnum \<Rightarrow> jsnum \<Rightarrow> (ArcDatum \<Rightarrow> string \<Rightarrow> bool) \<Rightarrow> (string \<times> jsnum) list" where
  "buildHoverGrowTargets xs hoveredArc focus maxDepth radius hoverPop onPath =
     (let ringWidth = snd (ringOptions (fo_depth focus) maxDepth radius);
          pathLength = visibleHoverPathLength (ad_depth hoveredArc) (fo_depth focus);
          segmentGrow = hoverGrowForPathSegment hoverPop ringWidth pathLength;
          maxExpandedThickness = maxHoverSegmentThickness maxDepth radius hoverPop None
      in foldl (\<lambda>targets d. if \<not> onPath d (ad_id hoveredArc) \<or> ad_depth d \<le> fo_depth focus then targets
                 else map_set (ad_id d) (allowed_grow segmentGrow maxExpandedThickness (geometryFor d focus maxDepth radius)) targets) [] xs)"

fun js_ceil :: "jsnum \<Rightarrow> jsnum" where
  "js_ceil (Fin x) = Fin (of_int \<lceil>x\<rceil>)"
| "js_ceil a = a"

definition defaultSunburstGrowPadding :: "int \<Rightarrow> jsnum \<Rightarrow> jsnum \<Rightarrow> jsnum" where
  "defaultSunburstGrowPadding maxDepth chartSize hoverPop =
     (let rootRingWidth = js_div (js_div chartSize (Fin 2)) (num (max 1 maxDepth));
          pathLength = max 1 (maxDepth - 1);
          segmentGrow = hoverGrowForPathSegment hoverPop rootRingWidth pathLength
      in js_ceil (js_add (js_mul segmentGrow (num pathLength)) segmentGrow))"

text \<open>\<open>arcId.split(ID_SEP)\<close>: the pieces between the occurrences of the separator, from the left.\<close>

fun split_sep :: "string \<Rightarrow> string \<Rightarrow> string list" where
  "split_sep acc (c1 # c2 # c3 # cs) =
     (if [c1, c2, c3] = ID_SEP then acc # split_sep [] cs else split_sep (acc @ [c1]) (c2 # c3 # cs))"
| "split_sep acc cs = [acc @ cs]"

definition ancestorGrowOffset :: "string \<Rightarrow> (string \<Rightarrow> jsnum) \<Rightarrow> jsnum" where
  "ancestorGrowOffset arcId growAmountForArc =
     (let parts = split_sep [] arcId
      in foldl (\<lambda>push i. js_add push (growAmountForArc (js_join ID_SEP (take i parts)))) (Fin 0) [1..<length parts])"

definition applyHoverGrow :: "ArcGeometry \<Rightarrow> string \<Rightarrow> (string \<Rightarrow> jsnum) \<Rightarrow> jsnum \<Rightarrow> ArcGeometry" where
  "applyHoverGrow base arcId growAmountForArc maxExpandedThickness =
     (let push = ancestorGrowOffset arcId growAmountForArc; ownGrow = growAmountForArc arcId in
      if js_le push (Fin 0) \<and> js_le ownGrow (Fin 0) then base
      else if js_le maxExpandedThickness (js_sub (g_outerR base) (g_innerR base)) then
        (if js_le push (Fin 0) then base
         else base\<lparr>g_innerR := js_add (g_innerR base) push, g_outerR := js_add (g_outerR base) push\<rparr>)
      else
        let innerR = js_add (g_innerR base) push;
            outerR = js_add (js_add (g_outerR base) push) ownGrow
        in base\<lparr>g_innerR := innerR,
                g_outerR := (if js_lt maxExpandedThickness (js_sub outerR innerR) then js_add innerR maxExpandedThickness else outerR)\<rparr>)"

definition localProgress :: "jsnum \<Rightarrow> jsnum \<Rightarrow> jsnum \<Rightarrow> jsnum" where
  "localProgress progress delay duration =
     (if js_le progress delay then Fin 0
      else if js_le duration (Fin 0) then Fin 1
      else js_min [Fin 1, js_div (js_sub progress delay) duration])"

subsection \<open>The chart\<close>

definition isRelated :: "ArcDatum option \<Rightarrow> ArcDatum \<Rightarrow> bool" where
  "isRelated hoveredArc d \<longleftrightarrow>
     (case hoveredArc of None \<Rightarrow> True | Some h \<Rightarrow> isDescendant d (ad_id h) \<or> starts_with (ad_id h) (ad_id d @ ID_SEP))"

definition defaultSunburstColors :: "string list" where
  "defaultSunburstColors = [''var(--chart-1)'', ''var(--chart-2)'', ''var(--chart-3)'', ''var(--chart-4)'', ''var(--chart-5)'']"

definition getColor :: "int \<Rightarrow> string option \<Rightarrow> string" where
  "getColor categoryIndex nodeColor =
     (case nodeColor of
        Some (c # cs) \<Rightarrow> c # cs
      | _ \<Rightarrow> defaultSunburstColors ! nat (categoryIndex mod int (length defaultSunburstColors)))"

text \<open>\<open>fillOverride\<close> counts when it is not empty, the others when they are given.\<close>

definition getFill :: "ArcDatum list \<Rightarrow> int \<Rightarrow> string option \<Rightarrow> string option \<Rightarrow> string" where
  "getFill xs arcIdx fillOverride colorOverride =
     (case fillOverride of
        Some (c # cs) \<Rightarrow> c # cs
      | _ \<Rightarrow>
          (case row_index xs arcIdx of
             None \<Rightarrow> hd defaultSunburstColors
           | Some arc \<Rightarrow> get_or (or_else colorOverride (or_else (ad_fill arc) (ad_color arc))) (getColor (ad_categoryIndex arc) None)))"

definition opacityForRelativeDepth :: "int \<Rightarrow> jsnum" where
  "opacityForRelativeDepth relativeDepth =
     (if relativeDepth \<le> 1 then Fin 1
      else js_max [of_rat_js (45 / 100), js_sub (Fin 1) (js_mul (num (relativeDepth - 1)) (of_rat_js (15 / 100)))])"

text \<open>The zoom of a chart that keeps its own focus: the focus, where it came from, the progress and the number of the
  animation under way.\<close>

record zoom =
  z_focusId :: string
  z_prevFocusId :: string
  z_t :: jsnum
  z_gen :: nat

datatype zoom_event =
    Zoom_To string bool
  | Zoom_Update nat jsnum
  | Zoom_Complete nat string

fun zoom_step :: "zoom_event \<Rightarrow> zoom \<Rightarrow> zoom" where
  "zoom_step (Zoom_To nextId reduced) z =
     (if nextId = z_focusId z then z
      else z\<lparr>z_prevFocusId := z_focusId z, z_focusId := nextId, z_gen := z_gen z + 1, z_t := (if reduced then Fin 1 else Fin 0)\<rparr>)"
| "zoom_step (Zoom_Update gen v) z = (if z_gen z = gen then z\<lparr>z_t := v\<rparr> else z)"
| "zoom_step (Zoom_Complete gen nextId) z = (if z_gen z = gen then z\<lparr>z_t := Fin 1, z_prevFocusId := nextId\<rparr> else z)"

text \<open>The breadcrumb walks from the focus to the root.\<close>

partial_function (option) crumbs_from :: "(string \<times> Focus) list \<Rightarrow> Focus option \<Rightarrow> Focus list \<Rightarrow> Focus list option" where
  "crumbs_from foci cur crumbs =
     (case cur of
        None \<Rightarrow> Some crumbs
      | Some c \<Rightarrow>
          crumbs_from foci (case fo_parentId c of Some p \<Rightarrow> if p = [] then None else map_of foci p | None \<Rightarrow> None) (c # crumbs))"

definition breadcrumb_items :: "SunburstNode \<Rightarrow> (string \<times> Focus) list \<Rightarrow> Focus \<Rightarrow> (string \<times> string \<times> bool) list option" where
  "breadcrumb_items tree foci focus =
     map_option (\<lambda>crumbs. map (\<lambda>(i, c). (fo_id c, if fo_id c = sn_name tree then sn_name tree else fo_name c, i = length crumbs - 1))
         (enumerate 0 crumbs))
       (crumbs_from foci (Some focus) [])"

definition hintText :: "string \<Rightarrow> string \<Rightarrow> ArcDatum option \<Rightarrow> Focus \<Rightarrow> string" where
  "hintText arrow idle hoveredArc focus =
     (case hoveredArc of
        Some a \<Rightarrow> js_join arrow (ad_trail a)
      | None \<Rightarrow> if fo_depth focus = 0 then idle else ''Click the center to zoom out'')"

subsection \<open>Identifiers are paths\<close>

definition id_of :: "string list \<Rightarrow> string" where
  "id_of p = js_join ID_SEP p"

text \<open>The nodes below a path in the order of the layout, each as the names on the way to it.\<close>

primrec sub_paths :: "SunburstNode \<Rightarrow> string list \<Rightarrow> string list list" where
  "sub_paths (Node name v col fil cs) = (\<lambda>pre. (pre @ [name]) # concat (map (\<lambda>f. f (pre @ [name])) (map sub_paths cs)))"

definition paths :: "SunburstNode \<Rightarrow> string list list" where
  "paths tree = sub_paths tree []"

lemma js_join_snoc: "p \<noteq> [] \<Longrightarrow> js_join sep (p @ [x]) = js_join sep p @ sep @ x"
  by (induction sep p rule: js_join.induct) auto

lemma js_join_Cons: "p \<noteq> [] \<Longrightarrow> js_join sep (x # p) = x @ sep @ js_join sep p"
  by (cases p) auto

lemma id_of_nonempty: "p \<noteq> [] \<Longrightarrow> hd p \<noteq> [] \<Longrightarrow> id_of p \<noteq> []"
  by (cases p; cases "tl p") (auto simp: id_of_def)

lemma nodeId_path: "p \<noteq> [] \<Longrightarrow> hd p \<noteq> [] \<Longrightarrow> nodeId (Some (id_of p)) name = id_of (p @ [name])"
  using id_of_nonempty [of p] by (simp add: nodeId_def id_of_def js_join_snoc)

text \<open>What the layout records of a node, apart from numbers and colours.\<close>

definition info :: "string list \<Rightarrow> string \<times> string \<times> int \<times> string option \<times> string list" where
  "info p = (id_of p, last p, int (length p) - 1, if length p = 1 then None else Some (id_of (butlast p)), [hd p, last p])"

definition arc_info :: "ArcDatum \<Rightarrow> string \<times> string \<times> int \<times> string option \<times> string list" where
  "arc_info a = (ad_id a, ad_name a, ad_depth a, ad_parentId a, ad_trail a)"

definition focus_matches :: "string list \<Rightarrow> Focus \<Rightarrow> bool" where
  "focus_matches p f \<longleftrightarrow> fo_id f = id_of p \<and> fo_name f = last p \<and> fo_depth f = int (length p) - 1 \<and>
     fo_parentId f = (if length p = 1 then None else Some (id_of (butlast p)))"

definition foci_extended :: "(string \<times> Focus) list \<Rightarrow> (string \<times> Focus) list \<Rightarrow> string list list \<Rightarrow> bool" where
  "foci_extended m m' ps \<longleftrightarrow>
     (\<forall>k \<in> id_of ` set ps. \<exists>p f. p \<in> set ps \<and> id_of p = k \<and> map_of m' k = Some f \<and> focus_matches p f) \<and>
     (\<forall>k. k \<notin> id_of ` set ps \<longrightarrow> map_of m' k = map_of m k)"

definition laid_out :: "BuildContext \<Rightarrow> BuildContext \<Rightarrow> string list list \<Rightarrow> bool" where
  "laid_out c c' ps \<longleftrightarrow>
     (\<exists>new. bc_arcs c' = bc_arcs c @ new \<and> map arc_info new = map info (filter (\<lambda>p. 1 < length p) ps) \<and>
        map ad_arcIndex new = map (\<lambda>i. bc_arcIndex c + int i) [0..<length new] \<and> bc_arcIndex c' = bc_arcIndex c + int (length new)) \<and>
     foci_extended (bc_focusById c) (bc_focusById c') ps"

lemma laid_out_refl: "laid_out c c []"
  by (simp add: laid_out_def foci_extended_def)

lemma foci_extended_trans:
  assumes "foci_extended m m' ps" and "foci_extended m' m'' qs"
  shows "foci_extended m m'' (ps @ qs)"
proof -
  have "\<exists>p f. p \<in> set (ps @ qs) \<and> id_of p = k \<and> map_of m'' k = Some f \<and> focus_matches p f" if k: "k \<in> id_of ` set (ps @ qs)" for k
  proof (cases "k \<in> id_of ` set qs")
    case True
    then obtain p f where "p \<in> set qs" "id_of p = k" "map_of m'' k = Some f" "focus_matches p f"
      using assms(2) unfolding foci_extended_def by blast
    then show ?thesis by (intro exI [of _ p] exI [of _ f]) simp
  next
    case False
    then have "map_of m'' k = map_of m' k" using assms(2) unfolding foci_extended_def by blast
    moreover have "k \<in> id_of ` set ps" using k False by auto
    then obtain p f where "p \<in> set ps" "id_of p = k" "map_of m' k = Some f" "focus_matches p f"
      using assms(1) unfolding foci_extended_def by blast
    ultimately show ?thesis by (intro exI [of _ p] exI [of _ f]) simp
  qed
  then show ?thesis using assms unfolding foci_extended_def by (simp add: image_Un)
qed

lemma index_shift: "map (\<lambda>i. a + int i) [0..<m] @ map (\<lambda>i. (a + int m) + int i) [0..<n] = map (\<lambda>i. a + int i) [0..<m + n]"
  by (rule nth_equalityI) (auto simp: nth_append)

lemma laid_out_trans:
  assumes "laid_out c c' ps" and "laid_out c' c'' qs"
  shows "laid_out c c'' (ps @ qs)"
proof -
  obtain m where m: "bc_arcs c' = bc_arcs c @ m" "map arc_info m = map info (filter (\<lambda>p. 1 < length p) ps)"
    "map ad_arcIndex m = map (\<lambda>i. bc_arcIndex c + int i) [0..<length m]" "bc_arcIndex c' = bc_arcIndex c + int (length m)"
    using assms(1) unfolding laid_out_def by blast
  obtain n where n: "bc_arcs c'' = bc_arcs c' @ n" "map arc_info n = map info (filter (\<lambda>p. 1 < length p) qs)"
    "map ad_arcIndex n = map (\<lambda>i. bc_arcIndex c' + int i) [0..<length n]" "bc_arcIndex c'' = bc_arcIndex c' + int (length n)"
    using assms(2) unfolding laid_out_def by blast
  have "\<exists>new. bc_arcs c'' = bc_arcs c @ new \<and> map arc_info new = map info (filter (\<lambda>p. 1 < length p) (ps @ qs)) \<and>
        map ad_arcIndex new = map (\<lambda>i. bc_arcIndex c + int i) [0..<length new] \<and> bc_arcIndex c'' = bc_arcIndex c + int (length new)"
    using m n index_shift [of "bc_arcIndex c" "length m" "length n"] by (intro exI [of _ "m @ n"]) simp
  moreover have "foci_extended (bc_focusById c) (bc_focusById c'') (ps @ qs)"
    using assms unfolding laid_out_def by (blast intro: foci_extended_trans)
  ultimately show ?thesis unfolding laid_out_def by blast
qed

lemma enter_laid_out:
  assumes "p \<noteq> []" and "last p = sn_name node" and "1 < length p \<longrightarrow> trail = [hd p]"
  shows "laid_out c (enter_node node (id_of p) (int (length p) - 1) a0 a1 (if length p = 1 then None else Some (id_of (butlast p))) cat trail c) [p]"
proof -
  have "0 < int (length p) - 1 \<longleftrightarrow> 1 < length p" by auto
  then show ?thesis using assms
    by (auto simp: laid_out_def foci_extended_def enter_node_def Let_def arc_info_def info_def focus_matches_def js_simps)
qed

definition lays_out :: "layout \<Rightarrow> (string list \<Rightarrow> string list list) \<Rightarrow> string \<Rightarrow> bool" where
  "lays_out lay sub name \<longleftrightarrow>
     (\<forall>pre a0 a1 cat trail c. pre \<noteq> [] \<longrightarrow> hd pre \<noteq> [] \<longrightarrow> trail = [hd pre] \<longrightarrow>
        laid_out c (lay (id_of (pre @ [name])) (int (length pre)) a0 a1 (Some (id_of pre)) cat trail c) (sub pre))"

lemma children_laid_out:
  assumes "list_all2 (\<lambda>(name, v, lay) sub. lays_out lay sub name) xs subs" and "p \<noteq> []" and "hd p \<noteq> []"
  shows "laid_out c (layout_children value (id_of p) (int (length p) - 1) arcSpan cat [hd p] xs index cursor c) (concat (map (\<lambda>f. f p) subs))"
  using assms(1)
proof (induction xs arbitrary: subs index cursor c)
  case Nil
  then show ?case by (simp add: laid_out_refl)
next
  case (Cons x xs)
  obtain name v lay where x: "x = (name, v, lay)" by (cases x)
  obtain sub rest where subs: "subs = sub # rest" "lays_out lay sub name" "list_all2 (\<lambda>(name, v, lay) sub. lays_out lay sub name) xs rest"
    using Cons.prems by (auto simp: x list_all2_Cons1)
  have "laid_out c (lay (id_of (p @ [name])) (int (length p)) a0 a1 (Some (id_of p)) ct [hd p] c) (sub p)" for a0 a1 ct
    using subs(2) assms(2,3) by (simp add: lays_out_def)
  then show ?case using Cons.IH [OF subs(3)] assms(2,3)
    by (auto simp: x subs(1) Let_def nodeId_path intro!: laid_out_trans)
qed

lemma layout_laid_out:
  assumes "pre @ [sn_name t] = p" and "hd p \<noteq> []" and "1 < length p \<longrightarrow> trail = [hd p]"
  shows "laid_out c (layoutNode t (id_of p) (int (length p) - 1) a0 a1 (if length p = 1 then None else Some (id_of (butlast p))) cat trail c) (sub_paths t pre)"
  using assms
proof (induction t arbitrary: pre p a0 a1 cat trail c)
  case (Node name v col fil cs)
  let ?t = "Node name v col fil cs"
  have p: "p \<noteq> []" "last p = name" "p = pre @ [name]" using Node.prems(1) by auto
  have each: "lays_out (layoutNode x) (sub_paths x) (sn_name x)" if x: "x \<in> set cs" for x
    unfolding lays_out_def
  proof (intro allI impI)
    fix q :: "string list" and a0 a1 cat trail c
    assume "q \<noteq> []" "hd q \<noteq> []" "trail = [hd q]"
    then show "laid_out c (layoutNode x (id_of (q @ [sn_name x])) (int (length q)) a0 a1 (Some (id_of q)) cat trail c) (sub_paths x q)"
      using Node.IH [OF x, of q "q @ [sn_name x]" trail c a0 a1 cat] by simp
  qed
  then have all: "list_all2 (\<lambda>(name, v, lay) sub. lays_out lay sub name)
      (zip (map sn_name cs) (zip (map sumValues cs) (map layoutNode cs))) (map sub_paths cs)"
    by (induction cs) auto
  have "(if int (length p) - 1 = 0 then [name] else trail) = [hd p]"
    using p Node.prems(3) by (cases pre) auto
  then show ?case
    using laid_out_trans [OF enter_laid_out [of p ?t trail] children_laid_out [OF all p(1) Node.prems(2)]] p(1,2) Node.prems(3)
    by (simp add: p(3))
qed

definition slash_free :: "string list \<Rightarrow> bool" where
  "slash_free p \<longleftrightarrow> (\<forall>x \<in> set p. CHR ''/'' \<notin> set x)"

definition clean :: "SunburstNode \<Rightarrow> bool" where
  "clean tree \<longleftrightarrow> sn_name tree \<noteq> [] \<and> (\<forall>p \<in> set (paths tree). slash_free p)"

lemma takeWhile_sep: "CHR ''/'' \<notin> set a \<Longrightarrow> takeWhile (\<lambda>c. c \<noteq> CHR ''/'') (a @ ID_SEP @ x) = a @ '' ''"
  by (induction a) (auto simp: ID_SEP_def)

lemma sep_prefix:
  assumes "CHR ''/'' \<notin> set a" and "CHR ''/'' \<notin> set b"
  shows "prefix (a @ ID_SEP @ x) (b @ ID_SEP @ y) \<longleftrightarrow> a = b \<and> prefix x y"
proof
  assume "prefix (a @ ID_SEP @ x) (b @ ID_SEP @ y)"
  then obtain z where "b @ ID_SEP @ y = a @ ID_SEP @ (x @ z)" by (auto simp: prefix_def)
  moreover from this have "b @ '' '' = a @ '' ''" using takeWhile_sep assms by metis
  ultimately show "a = b \<and> prefix x y" by (auto simp: prefix_def)
qed auto

lemma id_prefix:
  assumes "slash_free p" and "slash_free q" and "p \<noteq> []"
  shows "prefix (id_of p @ ID_SEP) (id_of q) \<longleftrightarrow> strict_prefix p q"
  using assms
proof (induction p arbitrary: q)
  case (Cons a p)
  have free: "CHR ''/'' \<notin> set a" "slash_free p" using Cons.prems(1) by (auto simp: slash_free_def)
  show ?case
  proof (cases q)
    case Nil
    then show ?thesis by (simp add: id_of_def ID_SEP_def)
  next
    case q: (Cons b q')
    have b: "CHR ''/'' \<notin> set b" "slash_free q'" using Cons.prems(2) by (auto simp: q slash_free_def)
    show ?thesis
    proof (cases "q' = []")
      case True
      have "CHR ''/'' \<in> set (id_of (a # p) @ ID_SEP)" by (simp add: ID_SEP_def)
      then have "\<not> prefix (id_of (a # p) @ ID_SEP) b" using b(1) set_mono_prefix by blast
      then show ?thesis using True by (simp add: q id_of_def)
    next
      case False
      then have idq: "id_of q = b @ ID_SEP @ id_of q'" by (simp add: q id_of_def js_join_Cons)
      show ?thesis
      proof (cases "p = []")
        case True
        then have "id_of (a # p) @ ID_SEP = a @ ID_SEP @ []" by (simp add: id_of_def)
        then show ?thesis unfolding idq using sep_prefix [OF free(1) b(1), of "[]" "id_of q'"] False True
          by (auto simp: q strict_prefix_def)
      next
        case p: False
        then have e: "id_of (a # p) @ ID_SEP = a @ ID_SEP @ (id_of p @ ID_SEP)" by (simp add: id_of_def js_join_Cons)
        show ?thesis unfolding idq e sep_prefix [OF free(1) b(1)] Cons.IH [OF free(2) b(2) p] by (auto simp: q)
      qed
    qed
  qed
qed simp

lemma id_inject:
  assumes "slash_free p" and "slash_free q" and "p \<noteq> []" and "q \<noteq> []" and "id_of p = id_of q"
  shows "p = q"
  using assms
proof (induction p arbitrary: q)
  case (Cons a p)
  obtain b q' where q: "q = b # q'" using Cons.prems(4) by (cases q) auto
  have free: "CHR ''/'' \<notin> set a" "slash_free p" "CHR ''/'' \<notin> set b" "slash_free q'"
    using Cons.prems(1,2) by (auto simp: q slash_free_def)
  have long: "id_of (x # xs) = x @ ID_SEP @ id_of xs" "CHR ''/'' \<in> set (id_of (x # xs))" if "xs \<noteq> []" for x xs
    using that by (simp_all add: id_of_def js_join_Cons ID_SEP_def)
  show ?case
  proof (cases "p = []"; cases "q' = []")
    assume "p = []" "q' = []"
    then show ?thesis using Cons.prems(5) by (simp add: q id_of_def)
  next
    assume "p = []" "q' \<noteq> []"
    then show ?thesis using Cons.prems(5) long(2) [of q' b] free(1) by (simp add: q id_of_def)
  next
    assume "p \<noteq> []" "q' = []"
    then show ?thesis using Cons.prems(5) long(2) [of p a] free(3) by (simp add: q id_of_def)
  next
    assume pq: "p \<noteq> []" "q' \<noteq> []"
    then have e: "a @ ID_SEP @ id_of p = b @ ID_SEP @ id_of q'" using Cons.prems(5) by (simp add: q long(1))
    then have "a = b" using sep_prefix [OF free(1,3), of "id_of p" "id_of q'"] by simp
    then show ?thesis using Cons.IH [OF free(2,4) pq] e by (simp add: q)
  qed
qed simp

text \<open>The paths of a tree start at its root and are closed under going up.\<close>

lemma sub_paths_prefix: "p \<in> set (sub_paths t pre) \<Longrightarrow> prefix (pre @ [sn_name t]) p"
proof (induction t arbitrary: pre)
  case (Node name v col fil cs)
  then show ?case by (auto dest!: Node.IH intro: append_prefixD)
qed

lemma sub_paths_up: "p \<in> set (sub_paths t pre) \<Longrightarrow> p \<noteq> pre @ [sn_name t] \<Longrightarrow> butlast p \<in> set (sub_paths t pre)"
proof (induction t arbitrary: pre)
  case (Node name v col fil cs)
  then obtain x where x: "x \<in> set cs" "p \<in> set (sub_paths x (pre @ [name]))" by auto
  show ?case
  proof (cases "p = pre @ [name, sn_name x]")
    case True
    then show ?thesis by (simp add: butlast_append)
  next
    case False
    then show ?thesis using Node.IH [OF x(1) x(2)] x(1) by auto
  qed
qed

lemma sub_paths_first: "sub_paths t pre = (pre @ [sn_name t]) # tl (sub_paths t pre)"
  by (cases t) auto

lemma paths_tail: "p \<in> set (tl (paths tree)) \<Longrightarrow> 1 < length p"
proof -
  assume "p \<in> set (tl (paths tree))"
  then obtain x where x: "x \<in> set (sn_children tree)" "p \<in> set (sub_paths x [sn_name tree])" by (cases tree) (auto simp: paths_def)
  then show ?thesis using sub_paths_prefix [OF x(2)] prefix_length_le by fastforce
qed

lemma path_ends: "p \<in> set (paths tree) \<Longrightarrow> p \<noteq> [] \<and> hd p = sn_name tree"
  using sub_paths_prefix [of p tree "[]"] by (auto simp: paths_def prefix_def)

lemma filter_paths: "filter (\<lambda>p. 1 < length p) (paths tree) = tl (paths tree)"
proof -
  have "paths tree = [sn_name tree] # tl (paths tree)" using sub_paths_first [of tree "[]"] by (simp add: paths_def)
  moreover have "filter (\<lambda>p. 1 < length p) (tl (paths tree)) = tl (paths tree)" using paths_tail by (simp add: filter_id_conv)
  moreover have "filter (\<lambda>p. 1 < length p) ([sn_name tree] # tl (paths tree)) = filter (\<lambda>p. 1 < length p) (tl (paths tree))" by simp
  ultimately show ?thesis by argo
qed

lemma map_of_map_snd: "map_of (map (\<lambda>(k, f). (k, h f)) m) k = map_option h (map_of m k)"
  by (induction m) auto

definition radian_arc :: "ArcDatum \<Rightarrow> ArcDatum" where
  "radian_arc a = a\<lparr>ad_a0 := toRadians (ad_a0 a), ad_a1 := toRadians (ad_a1 a)\<rparr>"

definition radian_focus :: "Focus \<Rightarrow> Focus" where
  "radian_focus f = f\<lparr>fo_a0 := toRadians (fo_a0 f), fo_a1 := toRadians (fo_a1 f)\<rparr>"

lemma radian_same [simp]:
  "arc_info (radian_arc a) = arc_info a" "ad_arcIndex (radian_arc a) = ad_arcIndex a" "focus_matches p (radian_focus f) = focus_matches p f"
  by (simp_all add: radian_arc_def radian_focus_def arc_info_def focus_matches_def)

lemma buildArcs_parts:
  "bc_arcs (buildArcs tree) = map radian_arc (bc_arcs (layoutNode tree (sn_name tree) 0 (Fin 0) (Fin 1) None 0 [] empty_context))"
  "bc_focusById (buildArcs tree) = map (\<lambda>(k, f). (k, radian_focus f)) (bc_focusById (layoutNode tree (sn_name tree) 0 (Fin 0) (Fin 1) None 0 [] empty_context))"
  by (simp_all add: buildArcs_def Let_def radian_arc_def radian_focus_def)

lemma built:
  assumes "sn_name tree \<noteq> []"
  shows "map arc_info (bc_arcs (buildArcs tree)) = map info (tl (paths tree))"
    and "map ad_arcIndex (bc_arcs (buildArcs tree)) = map int [0..<length (bc_arcs (buildArcs tree))]"
    and "p \<in> set (paths tree) \<Longrightarrow> \<exists>q f. q \<in> set (paths tree) \<and> id_of q = id_of p \<and> map_of (bc_focusById (buildArcs tree)) (id_of p) = Some f \<and> focus_matches q f"
proof -
  let ?c = "layoutNode tree (sn_name tree) 0 (Fin 0) (Fin 1) None 0 [] empty_context"
  have "laid_out empty_context ?c (paths tree)"
    using layout_laid_out [of "[]" tree "[sn_name tree]" "[]" empty_context "Fin 0" "Fin 1" 0] assms by (simp add: paths_def id_of_def)
  then obtain new where "bc_arcs ?c = new" "map arc_info new = map info (tl (paths tree))" "map ad_arcIndex new = map int [0..<length new]"
    and f: "foci_extended [] (bc_focusById ?c) (paths tree)"
    unfolding laid_out_def filter_paths by (auto simp: empty_context_def)
  then have l: "map arc_info (bc_arcs ?c) = map info (tl (paths tree))" "map ad_arcIndex (bc_arcs ?c) = map int [0..<length (bc_arcs ?c)]" by auto
  show "map arc_info (bc_arcs (buildArcs tree)) = map info (tl (paths tree))"
    "map ad_arcIndex (bc_arcs (buildArcs tree)) = map int [0..<length (bc_arcs (buildArcs tree))]"
    using l unfolding buildArcs_parts by (simp_all add: comp_def)
  show "\<exists>q f. q \<in> set (paths tree) \<and> id_of q = id_of p \<and> map_of (bc_focusById (buildArcs tree)) (id_of p) = Some f \<and> focus_matches q f"
    if p: "p \<in> set (paths tree)"
  proof -
    obtain q f where "q \<in> set (paths tree)" "id_of q = id_of p" "map_of (bc_focusById ?c) (id_of p) = Some f" "focus_matches q f"
      using f p unfolding foci_extended_def by blast
    then show ?thesis unfolding buildArcs_parts map_of_map_snd by (intro exI [of _ q] exI [of _ "radian_focus f"]) simp
  qed
qed

lemma focus_of_path:
  assumes "clean tree" and "p \<in> set (paths tree)"
  shows "\<exists>f. map_of (bc_focusById (buildArcs tree)) (id_of p) = Some f \<and> focus_matches p f"
proof -
  obtain q f where q: "q \<in> set (paths tree)" "id_of q = id_of p" "map_of (bc_focusById (buildArcs tree)) (id_of p) = Some f" "focus_matches q f"
    using built(3) [of tree p] assms by (auto simp: clean_def)
  have "q = p" using assms q path_ends by (intro id_inject) (auto simp: clean_def)
  then show ?thesis using q by blast
qed

lemma tail_in: "x \<in> set (tl xs) \<Longrightarrow> x \<in> set xs"
  by (cases xs) auto

text \<open>Nodes as such: the positions on the way to a node, child by child, beside the names.\<close>

primrec sub_places :: "SunburstNode \<Rightarrow> nat list \<Rightarrow> string list \<Rightarrow> (nat list \<times> string list) list" where
  "sub_places (Node name v col fil cs) =
     (\<lambda>pos pre. (pos, pre @ [name]) #
        concat (map (\<lambda>(k, f). f (pos @ [k]) (pre @ [name])) (enumerate 0 (map sub_places cs))))"

definition places :: "SunburstNode \<Rightarrow> (nat list \<times> string list) list" where
  "places tree = sub_places tree [] []"

primrec distinct_names :: "SunburstNode \<Rightarrow> bool" where
  "distinct_names (Node name v col fil cs) \<longleftrightarrow> distinct (map sn_name cs) \<and> list_all (\<lambda>b. b) (map distinct_names cs)"

lemma in_sub_places:
  "(q, p) \<in> set (sub_places (Node name v col fil cs) pos pre) \<longleftrightarrow>
     (q, p) = (pos, pre @ [name]) \<or> (\<exists>k < length cs. (q, p) \<in> set (sub_places (cs ! k) (pos @ [k]) (pre @ [name])))"
  by (force simp: in_set_enumerate_eq)

lemma sub_places_paths: "map snd (sub_places t pos pre) = sub_paths t pre"
proof (induction t arbitrary: pos pre)
  case (Node name v col fil cs)
  have "map snd (concat (map (\<lambda>(k, f). f (pos @ [k]) (pre @ [name])) (enumerate n (map sub_places ds)))) =
      concat (map (\<lambda>f. f (pre @ [name])) (map sub_paths ds))" if "set ds \<subseteq> set cs" for n ds
    using that by (induction ds arbitrary: n) (auto simp: Node.IH)
  then show ?case by simp
qed

lemma places_paths: "map snd (places tree) = paths tree"
  by (simp add: places_def paths_def sub_places_paths)

lemma sub_places_shape:
  "(q, p) \<in> set (sub_places t pos pre) \<Longrightarrow> \<exists>w u. q = pos @ w \<and> p = pre @ sn_name t # u \<and> (w = [] \<longleftrightarrow> u = [])"
proof (induction t arbitrary: pos pre)
  case (Node name v col fil cs)
  from Node.prems consider "(q, p) = (pos, pre @ [name])"
    | k where "k < length cs" "(q, p) \<in> set (sub_places (cs ! k) (pos @ [k]) (pre @ [name]))"
    unfolding in_sub_places by blast
  then show ?case
  proof cases
    case 2
    then show ?thesis using Node.IH [OF nth_mem [OF 2(1)] 2(2)] by auto
  qed simp
qed

text \<open>Where siblings have different names, the names on the way to a node stand for the node.\<close>

lemma prefix_places:
  assumes "distinct_names t" and "(pos @ w, pre @ sn_name t # u) \<in> set (sub_places t pos pre)"
    and "(pos @ w', pre @ sn_name t # u') \<in> set (sub_places t pos pre)"
  shows "prefix w w' \<longleftrightarrow> prefix u u'"
  using assms
proof (induction t arbitrary: pos pre w u w' u')
  case (Node name v col fil cs)
  have below: "w = [] \<and> u = [] \<or> (\<exists>k x y. k < length cs \<and> w = k # x \<and> u = sn_name (cs ! k) # y
      \<and> (pos @ k # x, pre @ name # sn_name (cs ! k) # y) \<in> set (sub_places (cs ! k) (pos @ [k]) (pre @ [name])))"
    if m: "(pos @ w, pre @ name # u) \<in> set (sub_places (Node name v col fil cs) pos pre)" for w u
  proof -
    from m consider "w = []" "u = []"
      | k where "k < length cs" "(pos @ w, pre @ name # u) \<in> set (sub_places (cs ! k) (pos @ [k]) (pre @ [name]))"
      unfolding in_sub_places by auto
    then show ?thesis
    proof cases
      case 2
      then show ?thesis using sub_places_shape [OF 2(2)] by auto
    qed simp
  qed
  have dist: "distinct (map sn_name cs)" "k < length cs \<Longrightarrow> distinct_names (cs ! k)" for k
    using Node.prems(1) by (auto simp: list_all_iff)
  show ?case
  proof (cases "w = [] \<or> w' = []")
    case True
    then show ?thesis using below [of w u] below [of w' u'] Node.prems(2,3) by auto
  next
    case False
    then obtain k x y k' x' y' where k: "k < length cs" "w = k # x" "u = sn_name (cs ! k) # y"
      "(pos @ k # x, pre @ name # sn_name (cs ! k) # y) \<in> set (sub_places (cs ! k) (pos @ [k]) (pre @ [name]))"
      and k': "k' < length cs" "w' = k' # x'" "u' = sn_name (cs ! k') # y'"
      "(pos @ k' # x', pre @ name # sn_name (cs ! k') # y') \<in> set (sub_places (cs ! k') (pos @ [k']) (pre @ [name]))"
      using below [of w u] below [of w' u'] Node.prems(2,3) by auto
    have same: "sn_name (cs ! k) = sn_name (cs ! k') \<longleftrightarrow> k = k'"
      using dist(1) k(1) k'(1) nth_eq_iff_index_eq [of "map sn_name cs" k k'] by simp
    show ?thesis
    proof (cases "k = k'")
      case True
      then show ?thesis using Node.IH [OF nth_mem [OF k(1)] dist(2) [OF k(1)], of "pos @ [k]" x "pre @ [name]" y x' y'] k k' by simp
    next
      case False
      then show ?thesis using same by (simp add: k(2,3) k'(2,3))
    qed
  qed
qed

lemma places_prefix:
  assumes "distinct_names tree" and "(q, p) \<in> set (places tree)" and "(q', p') \<in> set (places tree)"
  shows "prefix q q' \<longleftrightarrow> prefix p p'"
proof -
  obtain w u w' u' where "q = w" "p = sn_name tree # u" "q' = w'" "p' = sn_name tree # u'"
    using sub_places_shape [of q p tree "[]" "[]"] sub_places_shape [of q' p' tree "[]" "[]"] assms(2,3) by (auto simp: places_def)
  then show ?thesis using prefix_places [OF assms(1), of "[]" w "[]" u w' u'] assms(2,3) by (simp add: places_def)
qed

lemma places_strict_prefix:
  assumes "distinct_names tree" and "(q, p) \<in> set (places tree)" and "(q', p') \<in> set (places tree)"
  shows "strict_prefix q q' \<longleftrightarrow> strict_prefix p p'" and "q = q' \<longleftrightarrow> p = p'"
  using places_prefix [OF assms] places_prefix [OF assms(1,3,2)]
  by (auto simp: strict_prefix_def dest: prefix_order.antisym)

lemma sub_places_length: "(q, p) \<in> set (sub_places t pos pre) \<Longrightarrow> length p + length pos = Suc (length q + length pre)"
proof (induction t arbitrary: pos pre)
  case (Node name v col fil cs)
  from Node.prems consider "(q, p) = (pos, pre @ [name])"
    | k where "k < length cs" "(q, p) \<in> set (sub_places (cs ! k) (pos @ [k]) (pre @ [name]))"
    unfolding in_sub_places by blast
  then show ?case
  proof cases
    case 2
    then show ?thesis using Node.IH [OF nth_mem [OF 2(1)] 2(2)] by simp
  qed simp
qed

lemma places_length: "(q, p) \<in> set (places tree) \<Longrightarrow> length p = Suc (length q)"
  using sub_places_length [of q p tree "[]" "[]"] by (simp add: places_def)

text \<open>Over the name paths: the arcs in order, the foci, and which arcs have a shape.\<close>

lemma zoom_shows_paths:
  assumes "clean tree"
  shows "length (bc_arcs (buildArcs tree)) = length (tl (paths tree)) \<and>
    map ad_arcIndex (bc_arcs (buildArcs tree)) = map int [0..<length (tl (paths tree))] \<and>
    (\<forall>p \<in> set (paths tree). \<exists>f. map_of (bc_focusById (buildArcs tree)) (id_of p) = Some f \<and>
       (\<forall>i < length (tl (paths tree)). \<forall>md r. geometryFor (bc_arcs (buildArcs tree) ! i) f md r \<noteq> None \<longleftrightarrow> strict_prefix p (tl (paths tree) ! i)))"
proof -
  let ?arcs = "bc_arcs (buildArcs tree)" and ?ps = "tl (paths tree)"
  have name: "sn_name tree \<noteq> []" using assms by (simp add: clean_def)
  have len: "length ?arcs = length ?ps" using arg_cong [OF built(1) [OF name], of length] by simp
  have arc: "ad_id (?arcs ! i) = id_of (?ps ! i)" "ad_depth (?arcs ! i) = int (length (?ps ! i)) - 1" if "i < length ?ps" for i
  proof -
    have "arc_info (?arcs ! i) = info (?ps ! i)" using arg_cong [OF built(1) [OF name], of "\<lambda>xs. xs ! i"] that len by simp
    then show "ad_id (?arcs ! i) = id_of (?ps ! i)" "ad_depth (?arcs ! i) = int (length (?ps ! i)) - 1" by (simp_all add: arc_info_def info_def)
  qed
  have "\<exists>f. map_of (bc_focusById (buildArcs tree)) (id_of p) = Some f \<and>
      (\<forall>i < length ?ps. \<forall>md r. geometryFor (?arcs ! i) f md r \<noteq> None \<longleftrightarrow> strict_prefix p (?ps ! i))" if p: "p \<in> set (paths tree)" for p
  proof -
    obtain f where f: "map_of (bc_focusById (buildArcs tree)) (id_of p) = Some f" "focus_matches p f" using focus_of_path [OF assms p] by blast
    have "geometryFor (?arcs ! i) f md r \<noteq> None \<longleftrightarrow> strict_prefix p (?ps ! i)" if i: "i < length ?ps" for i md r
    proof -
      have q: "?ps ! i \<in> set (paths tree)" by (rule tail_in [OF nth_mem [OF i]])
      have free: "slash_free p" "slash_free (?ps ! i)" "p \<noteq> []" "?ps ! i \<noteq> []" using assms p q path_ends by (auto simp: clean_def)
      have "geometryFor (?arcs ! i) f md r \<noteq> None \<longleftrightarrow> length p < length (?ps ! i) \<and> (id_of (?ps ! i) = id_of p \<or> strict_prefix p (?ps ! i))"
        using f(2) arc [OF i] id_prefix [OF free(1,2,3)]
        by (simp add: geometryFor_def isDescendant_def focus_matches_def starts_with_def not_le Let_def split: prod.split)
      moreover have "length p < length (?ps ! i)" if "strict_prefix p (?ps ! i)" using that by (rule prefix_length_less)
      ultimately show ?thesis using id_inject [OF free(2,1) free(4,3)] by auto
    qed
    then show ?thesis using f(1) by blast
  qed
  then show ?thesis using len built(2) [OF name] by simp
qed

text \<open>C17. In a tree whose root has a name, in which no name contains a slash and no two children of a node have the same name, the
  chart zoomed to a node shows exactly the segments below it. There is one arc for every node but the root, in the order of the
  layout and numbered from zero; every node has a focus of its own; and under the focus of a node an arc has a shape exactly
  when its node lies below that node in the tree, a node being its position, child by child from the root. (Children of the same
  name share one focus: \<open>same_named_children\<close>.)\<close>

theorem zoom_shows_descendants:
  assumes "clean tree" and "distinct_names tree"
  shows "length (bc_arcs (buildArcs tree)) = length (tl (places tree)) \<and>
    map ad_arcIndex (bc_arcs (buildArcs tree)) = map int [0..<length (tl (places tree))] \<and>
    (\<forall>(pos, p) \<in> set (places tree). \<exists>f. map_of (bc_focusById (buildArcs tree)) (id_of p) = Some f \<and>
       fo_name f = last p \<and> fo_depth f = int (length pos) \<and>
       (\<forall>i < length (tl (places tree)). \<forall>md r.
          geometryFor (bc_arcs (buildArcs tree) ! i) f md r \<noteq> None \<longleftrightarrow> strict_prefix pos (fst (tl (places tree) ! i)))) \<and>
    (\<forall>(pos, p) \<in> set (places tree). \<forall>(pos', p') \<in> set (places tree). id_of p = id_of p' \<longrightarrow> pos = pos')"
proof -
  let ?arcs = "bc_arcs (buildArcs tree)"
  note P = zoom_shows_paths [OF assms(1)]
  have tl: "map snd (tl (places tree)) = tl (paths tree)" using places_paths [of tree] by (simp add: map_tl)
  then have len: "length (tl (places tree)) = length (tl (paths tree))" using length_map by metis
  have nth: "snd (tl (places tree) ! i) = tl (paths tree) ! i" "tl (places tree) ! i \<in> set (places tree)" if "i < length (tl (places tree))" for i
    using that tl [symmetric] tail_in [OF nth_mem [OF that]] by simp_all
  have mem: "p \<in> set (paths tree)" if "(pos, p) \<in> set (places tree)" for pos p
    using that unfolding places_paths [symmetric] by force
  have "\<exists>f. map_of (bc_focusById (buildArcs tree)) (id_of p) = Some f \<and> fo_name f = last p \<and> fo_depth f = int (length pos) \<and>
      (\<forall>i < length (tl (places tree)). \<forall>md r. geometryFor (?arcs ! i) f md r \<noteq> None \<longleftrightarrow> strict_prefix pos (fst (tl (places tree) ! i)))"
    if pos: "(pos, p) \<in> set (places tree)" for pos p
  proof -
    obtain f where f: "map_of (bc_focusById (buildArcs tree)) (id_of p) = Some f"
      "\<forall>i < length (tl (paths tree)). \<forall>md r. geometryFor (?arcs ! i) f md r \<noteq> None \<longleftrightarrow> strict_prefix p (tl (paths tree) ! i)"
      using P mem [OF pos] by blast
    have "focus_matches p f" using focus_of_path [OF assms(1) mem [OF pos]] f(1) by auto
    moreover have "length p = Suc (length pos)" using places_length [OF pos] .
    moreover have "strict_prefix pos (fst (tl (places tree) ! i)) \<longleftrightarrow> strict_prefix p (tl (paths tree) ! i)" if i: "i < length (tl (places tree))" for i
      using places_strict_prefix(1) [OF assms(2) pos, of "fst (tl (places tree) ! i)" "snd (tl (places tree) ! i)",
          unfolded prod.collapse, OF nth(2) [OF i]] nth(1) [OF i] by simp
    ultimately show ?thesis using f len by (intro exI [of _ f]) (simp add: focus_matches_def)
  qed
  moreover have "pos = pos'" if "(pos, p) \<in> set (places tree)" "(pos', p') \<in> set (places tree)" "id_of p = id_of p'" for pos p pos' p'
  proof -
    have "p = p'" using that mem path_ends assms(1) by (intro id_inject) (auto simp: clean_def)
    then show ?thesis using places_strict_prefix(2) [OF assms(2) that(1,2)] by simp
  qed
  ultimately show ?thesis using P len by (auto simp: case_prod_beta')
qed

definition sample_tree :: SunburstNode where
  "sample_tree = Node ''R'' None None None
     [Node ''A'' None None None [Node ''B'' (Some (Fin 1)) None None []], Node ''C'' (Some (Fin 3)) None None []]"

theorem zoom_shows_descendants_witness:
  "clean sample_tree \<and> distinct_names sample_tree \<and> (\<exists>f. map_of (bc_focusById (buildArcs sample_tree)) ''R / A'' = Some f \<and>
     (\<forall>md r. geometryFor (bc_arcs (buildArcs sample_tree) ! 1) f md r \<noteq> None) \<and> (\<forall>md r. geometryFor (bc_arcs (buildArcs sample_tree) ! 2) f md r = None))"
proof -
  have ps: "places sample_tree = [([], [''R'']), ([0], [''R'', ''A'']), ([0, 0], [''R'', ''A'', ''B'']), ([1], [''R'', ''C''])]"
    by (simp add: places_def sample_tree_def)
  have c: "clean sample_tree" unfolding clean_def places_paths [symmetric] ps by (simp add: sample_tree_def slash_free_def)
  have d: "distinct_names sample_tree" by (simp add: sample_tree_def)
  have "([0], [''R'', ''A'']) \<in> set (places sample_tree)" by (simp add: ps)
  then obtain f where "map_of (bc_focusById (buildArcs sample_tree)) (id_of [''R'', ''A'']) = Some f"
    "\<forall>i < length (tl (places sample_tree)). \<forall>md r.
       geometryFor (bc_arcs (buildArcs sample_tree) ! i) f md r \<noteq> None \<longleftrightarrow> strict_prefix [0] (fst (tl (places sample_tree) ! i))"
    using zoom_shows_descendants [OF c d] by blast
  then have f: "map_of (bc_focusById (buildArcs sample_tree)) ''R / A'' = Some f"
    and shape: "\<And>i. i < 3 \<Longrightarrow> \<forall>md r. geometryFor (bc_arcs (buildArcs sample_tree) ! i) f md r \<noteq> None \<longleftrightarrow> strict_prefix [0] (fst (tl (places sample_tree) ! i))"
    by (simp_all add: ps id_of_def ID_SEP_def)
  have "\<forall>md r. geometryFor (bc_arcs (buildArcs sample_tree) ! 1) f md r \<noteq> None" using shape [of 1] by (simp add: ps)
  moreover have "\<forall>md r. geometryFor (bc_arcs (buildArcs sample_tree) ! 2) f md r = None" using shape [of 2] by (simp add: ps)
  ultimately show ?thesis using c d f by blast
qed

text \<open>Two children of the same name have one focus, and zoomed to it the chart shows what lies below either.\<close>

definition twin_tree :: SunburstNode where
  "twin_tree = Node ''R'' None None None
     [Node ''A'' None None None [Node ''x'' (Some (Fin 1)) None None []], Node ''A'' None None None [Node ''y'' (Some (Fin 1)) None None []]]"

lemma same_named_children:
  "places twin_tree = [([], [''R'']), ([0], [''R'', ''A'']), ([0, 0], [''R'', ''A'', ''x'']), ([1], [''R'', ''A'']), ([1, 0], [''R'', ''A'', ''y''])]
   \<and> (\<exists>f. map_of (bc_focusById (buildArcs twin_tree)) (id_of [''R'', ''A'']) = Some f \<and>
        (\<forall>md r. geometryFor (bc_arcs (buildArcs twin_tree) ! 1) f md r \<noteq> None) \<and>
        (\<forall>md r. geometryFor (bc_arcs (buildArcs twin_tree) ! 3) f md r \<noteq> None))"
proof -
  have ps: "places twin_tree = [([], [''R'']), ([0], [''R'', ''A'']), ([0, 0], [''R'', ''A'', ''x'']), ([1], [''R'', ''A'']), ([1, 0], [''R'', ''A'', ''y''])]"
    by (simp add: places_def twin_tree_def)
  have qs: "paths twin_tree = [[''R''], [''R'', ''A''], [''R'', ''A'', ''x''], [''R'', ''A''], [''R'', ''A'', ''y'']]"
    unfolding places_paths [symmetric] ps by simp
  have c: "clean twin_tree" unfolding clean_def qs by (simp add: twin_tree_def slash_free_def)
  have "[''R'', ''A''] \<in> set (paths twin_tree)" by (simp add: qs)
  then obtain f where "map_of (bc_focusById (buildArcs twin_tree)) (id_of [''R'', ''A'']) = Some f"
    "\<forall>i < length (tl (paths twin_tree)). \<forall>md r. geometryFor (bc_arcs (buildArcs twin_tree) ! i) f md r \<noteq> None \<longleftrightarrow> strict_prefix [''R'', ''A''] (tl (paths twin_tree) ! i)"
    using zoom_shows_paths [OF c] by blast
  then show ?thesis unfolding ps qs by (auto intro!: exI [of _ f] simp: nth_Cons')
qed

text \<open>A slash in a name makes two nodes share an identifier, and the zoom to one shows what belongs to the other.\<close>

lemma names_collide: "id_of [''R'', ''A'', ''B''] = id_of [''R'', ''A / B'']"
  by (simp add: id_of_def ID_SEP_def)

text \<open>The hint of a segment names the root and the segment, not what lies between them.\<close>

lemma trail_skips_parents:
  assumes "sn_name tree \<noteq> []" and "a \<in> set (bc_arcs (buildArcs tree))"
  shows "ad_trail a = [sn_name tree, ad_name a]"
proof -
  have "arc_info a \<in> set (map info (tl (paths tree)))" using assms(2) built(1) [OF assms(1)] by (metis image_eqI list.set_map)
  then obtain p where "p \<in> set (paths tree)" "arc_info a = info p" by (auto dest: tail_in)
  then show ?thesis using path_ends [of p tree] by (simp add: arc_info_def info_def)
qed

text \<open>Rings touch: the outer radius of a ring is the inner radius of the next, to the last bit.\<close>

lemma rings_touch:
  assumes "geometryFor a f md r = Some g" and "geometryFor b f md r = Some h" and "ad_depth b = ad_depth a + 1"
  shows "g_innerR h = g_outerR g"
  using assms by (auto simp: geometryFor_def Let_def split: if_splits prod.splits)

subsection \<open>Going up\<close>

lemma crumbs_step:
  "crumbs_from foci (Some c) crumbs =
     crumbs_from foci (case fo_parentId c of Some p \<Rightarrow> if p = [] then None else map_of foci p | None \<Rightarrow> None) (c # crumbs)"
  by (subst crumbs_from.simps) simp

lemma crumbs_of_path:
  assumes "clean tree" and "p \<in> set (paths tree)" and "map_of (bc_focusById (buildArcs tree)) (id_of p) = Some f"
  shows "\<exists>cs. crumbs_from (bc_focusById (buildArcs tree)) (Some f) crumbs = Some (cs @ crumbs) \<and> map fo_id cs = map (\<lambda>n. id_of (take n p)) [1..<length p + 1]"
  using assms(2,3)
proof (induction "length p" arbitrary: p f crumbs)
  case 0
  then show ?case using path_ends by fastforce
next
  case (Suc n)
  have p: "p \<noteq> []" "hd p = sn_name tree" "hd p \<noteq> []" using path_ends [OF Suc.prems(1)] assms(1) by (auto simp: clean_def)
  have f: "focus_matches p f" using focus_of_path [OF assms(1) Suc.prems(1)] Suc.prems(2) by auto
  show ?case
  proof (cases "length p = 1")
    case True
    then have "fo_parentId f = None" "fo_id f = id_of p" using f by (simp_all add: focus_matches_def)
    then show ?thesis using True by (intro exI [of _ "[f]"]) (simp add: crumbs_step crumbs_from.simps)
  next
    case False
    have "p \<noteq> [] @ [sn_name tree]" using False by auto
    then have up: "butlast p \<in> set (paths tree)" using sub_paths_up [of p tree "[]"] Suc.prems(1) by (simp add: paths_def)
    obtain f' where f': "map_of (bc_focusById (buildArcs tree)) (id_of (butlast p)) = Some f'" using focus_of_path [OF assms(1) up] by blast
    have ne: "id_of (butlast p) \<noteq> []" using path_ends [OF up] assms(1) by (intro id_of_nonempty) (auto simp: clean_def)
    have "fo_parentId f = Some (id_of (butlast p))" "fo_id f = id_of p" using f False by (simp_all add: focus_matches_def)
    then have step: "crumbs_from (bc_focusById (buildArcs tree)) (Some f) crumbs = crumbs_from (bc_focusById (buildArcs tree)) (Some f') (f # crumbs)"
      using ne f' by (simp add: crumbs_step [of _ f])
    have "n = length (butlast p)" using Suc.hyps(2) by simp
    from Suc.hyps(1) [OF this up f'] obtain cs where
      cs: "crumbs_from (bc_focusById (buildArcs tree)) (Some f') (f # crumbs) = Some (cs @ f # crumbs)"
      "map fo_id cs = map (\<lambda>n. id_of (take n (butlast p))) [1..<length (butlast p) + 1]" by blast
    have "map (\<lambda>n. id_of (take n p)) [1..<length p + 1] = map (\<lambda>n. id_of (take n (butlast p))) [1..<length (butlast p) + 1] @ [id_of p]"
    proof -
      have "1 \<le> length p" "length (butlast p) + 1 = length p" using p(1) by (cases p; simp)+
      then show ?thesis by (auto simp: take_butlast upt_Suc_append simp del: length_butlast)
    qed
    then show ?thesis using step cs \<open>fo_id f = id_of p\<close> by (intro exI [of _ "cs @ [f]"]) simp
  qed
qed

text \<open>The breadcrumb of a focus lists the nodes from the root down to it; only the last is current.\<close>

lemma breadcrumb_is_the_path:
  assumes "clean tree" and "p \<in> set (paths tree)" and "map_of (bc_focusById (buildArcs tree)) (id_of p) = Some f"
  shows "\<exists>items. breadcrumb_items tree (bc_focusById (buildArcs tree)) f = Some items \<and>
    map fst items = map (\<lambda>n. id_of (take n p)) [1..<length p + 1] \<and> map (snd \<circ> snd) items = replicate (length p - 1) False @ [True]"
proof -
  obtain cs where cs: "crumbs_from (bc_focusById (buildArcs tree)) (Some f) [] = Some cs" "map fo_id cs = map (\<lambda>n. id_of (take n p)) [1..<length p + 1]"
    using crumbs_of_path [OF assms, of "[]"] by auto
  have ne: "0 < length p" using path_ends [OF assms(2)] by simp
  then have len: "length cs = length p" using arg_cong [OF cs(2), of length] by (simp add: Suc_le_eq)
  let ?item = "\<lambda>(i, c). (fo_id c, if fo_id c = sn_name tree then sn_name tree else fo_name c, i = length cs - 1)"
  have "map fst (map ?item (enumerate 0 cs)) = map fo_id cs" by (rule nth_equalityI) (auto simp: nth_enumerate_eq)
  moreover have "map (snd \<circ> snd) (map ?item (enumerate 0 cs)) = replicate (length p - 1) False @ [True]"
    using len ne by (intro nth_equalityI) (auto simp: nth_enumerate_eq nth_append)
  ultimately show ?thesis using cs by (simp add: breadcrumb_items_def)
qed

lemma split_sep_long: "CHR ''/'' \<notin> set x \<Longrightarrow> split_sep acc (x @ ID_SEP @ r) = (acc @ x) # split_sep [] r"
proof (induction x arbitrary: acc)
  case Nil
  show ?case by (simp add: ID_SEP_def)
next
  case (Cons c x)
  obtain d e s where s: "x @ ID_SEP @ r = d # e # s" by (cases x; cases "tl x") (auto simp: ID_SEP_def)
  have "d \<noteq> CHR ''/''" using s Cons.prems by (cases x) (auto simp: ID_SEP_def)
  then have "split_sep acc (c # d # e # s) = split_sep (acc @ [c]) (d # e # s)" by (simp add: ID_SEP_def)
  then show ?case using Cons s by simp
qed

lemma split_sep_last: "CHR ''/'' \<notin> set x \<Longrightarrow> split_sep acc x = [acc @ x]"
  by (induction acc x rule: split_sep.induct) (auto simp: ID_SEP_def)

lemma split_id:
  assumes "slash_free p" and "p \<noteq> []"
  shows "split_sep [] (id_of p) = p"
  using assms
proof (induction p)
  case (Cons a p)
  then show ?case
    by (cases "p = []") (auto simp: slash_free_def id_of_def js_join_Cons split_sep_last split_sep_long)
qed simp

text \<open>A segment is pushed outwards by the growth of the segments above it, from the root down.\<close>

lemma pushed_by_ancestors:
  assumes "slash_free p" and "p \<noteq> []"
  shows "ancestorGrowOffset (id_of p) grow = foldl js_add (Fin 0) (map (\<lambda>n. grow (id_of (take n p))) [1..<length p])"
  unfolding ancestorGrowOffset_def Let_def split_id [OF assms] by (simp add: foldl_map id_of_def)

subsection \<open>Angles\<close>

lemma PI_double: "is_double PI_js" "is_double (- PI_js)"
  using is_double_dyadic [of 884279719003555 48] is_double_dyadic [of "- 884279719003555" 48] by (simp_all add: PI_js_def)

lemma PI_pos: "0 < PI_js"
  by (simp add: PI_js_def)

lemma wrap_down_id: "\<not> js_lt (Fin PI_js) d \<Longrightarrow> wrap_down d = Some d"
  by (simp add: wrap_down.simps [of d])

lemma wrap_up_id: "\<not> js_lt d (Fin (- PI_js)) \<Longrightarrow> wrap_up d = Some d"
  by (simp add: wrap_up.simps [of d])

text \<open>Two angles of one turn are never more than a turn apart; then the loops end and the way is at most half a turn.\<close>

lemma shortest_way:
  assumes "is_double d" and "\<bar>d\<bar> \<le> 2 * PI_js"
  shows "\<exists>w. Option.bind (wrap_down (Fin d)) wrap_up = Some (Fin w) \<and> \<bar>w\<bar> \<le> PI_js"
proof -
  consider "PI_js < d" | "d < - PI_js" | "\<bar>d\<bar> \<le> PI_js" by linarith
  then show ?thesis
  proof cases
    case 1
    have "- PI_js \<le> d - 2 * PI_js" "d - 2 * PI_js \<le> PI_js" using 1 assms(2) PI_pos by linarith+
    then obtain w where w: "of_rat_js (d - 2 * PI_js) = Fin w" "- PI_js \<le> w" "w \<le> PI_js" using of_rat_js_bounded [OF PI_double(2,1)] by blast
    have "wrap_down (Fin d) = wrap_down (Fin w)" using 1 w(1) by (subst wrap_down.simps) (simp add: js_sub_def TWO_PI_def)
    then show ?thesis using w(2,3) by (auto simp: wrap_down_id wrap_up_id abs_le_iff)
  next
    case 2
    have "- PI_js \<le> d + 2 * PI_js" "d + 2 * PI_js \<le> PI_js" using 2 assms(2) PI_pos by linarith+
    then obtain w where w: "of_rat_js (d + 2 * PI_js) = Fin w" "- PI_js \<le> w" "w \<le> PI_js" using of_rat_js_bounded [OF PI_double(2,1)] by blast
    have "wrap_up (Fin d) = wrap_up (Fin w)" using 2 w(1) by (subst wrap_up.simps) (simp add: TWO_PI_def)
    moreover have "wrap_down (Fin d) = Some (Fin d)" using 2 PI_pos by (intro wrap_down_id) simp
    ultimately show ?thesis using w(2,3) by (auto simp: wrap_up_id abs_le_iff)
  next
    case 3
    then have "\<not> PI_js < d" "\<not> d < - PI_js" by linarith+
    then show ?thesis using 3 by (simp add: wrap_down_id wrap_up_id)
  qed
qed

lemma zoom_morph_ends:
  assumes "js_sub to from = Fin d" and "is_double d" and "\<bar>d\<bar> \<le> 2 * PI_js"
  shows "\<exists>w. lerpAngle from to t = Some (js_add from (js_mul (Fin w) t)) \<and> \<bar>w\<bar> \<le> PI_js"
  using shortest_way [OF assms(2,3)] by (auto simp: lerpAngle_def assms(1))

subsection \<open>The zoom\<close>

text \<open>Once a zoom has started, what is left of the animations before it changes nothing.\<close>

lemma stale_animation:
  assumes "n < z_gen z"
  shows "zoom_step (Zoom_Update n v) z = z" and "zoom_step (Zoom_Complete n k) z = z"
  using assms by simp_all

lemma finished_zoom:
  assumes "k \<noteq> z_focusId z" and "\<forall>e \<in> set es. \<exists>g. (\<exists>v. e = Zoom_Update g v) \<or> (\<exists>n. e = Zoom_Complete g n \<and> g \<le> z_gen z)"
  shows "let z' = zoom_step (Zoom_Complete (z_gen z + 1) k) (fold zoom_step es (zoom_step (Zoom_To k False) z))
    in z_focusId z' = k \<and> z_prevFocusId z' = k \<and> z_t z' = Fin 1"
proof -
  have "z_focusId (fold zoom_step es y) = z_focusId y \<and> z_gen (fold zoom_step es y) = z_gen y" for y
    using assms(2)
  proof (induction es arbitrary: y)
    case (Cons e es)
    have "z_focusId (zoom_step e y) = z_focusId y \<and> z_gen (zoom_step e y) = z_gen y" using Cons.prems by (cases e) auto
    then show ?case using Cons by simp
  qed simp
  then show ?thesis using assms(1) by (simp add: Let_def)
qed

end
