(* ===== verification/Spec2Isabelle.thy ===== *)
theory Spec2Isabelle
  imports Market_Socket_Props Market_Grid User_Socket Global_Trades Trade_Feed Live_Price Api_Client_Props
    Session_Proxy Decimal Candles Realtime_Prefs Step_Up Trade_Form Admin_Api
    Web_Api Query_Cache Chart_Data Chart_Phase Live_Line Display_Format Admin_Treasury Market_Detail
    Create_Market Login_Form Account_Forms Admin_Session Account_Views Moderation Dispute_Queue Heatmap Projection Sunburst
begin

text \<open>
  A verification library for the frontend of a prediction-market application: the storefront
  (\<^verbatim>\<open>apps/web\<close>), the operators' app (\<^verbatim>\<open>apps/admin\<close>) and the packages they share
  (\<^verbatim>\<open>packages/api-client\<close>, \<^verbatim>\<open>packages/schemas\<close>, \<^verbatim>\<open>packages/ui\<close>), all under \<^verbatim>\<open>src/frontend\<close>.

  \<^bold>\<open>The program and its parts.\<close> A browser tab of the storefront keeps one shared WebSocket for every
  market on screen, one private socket per signed-in user and one for the platform-wide trade feed.
  Frames become chart points, cached prices, trade rows and spoken announcements. Everything else
  goes through the API client, which retries, shares identical reads, refreshes the session once for
  all requests that need it, and decides which failures end a session. Pages are guarded on the
  server by a proxy per app that validates the session cookies. The order form quotes and submits
  orders; the operators' app moves money after a second proof of identity.

  \<^bold>\<open>The language.\<close>
  \<^item> \<open>JS_Prelude\<close>: maps, sets, strings and lists of the standard library, and the locale
    \<open>invariant_system\<close> that every state machine below interprets.
  \<^item> \<open>JS_Number\<close>: the \<open>number\<close> type as IEEE doubles over exact rationals, with the locale
    \<open>rounded\<close> of what clients know of rounding.
  \<^item> \<open>JS_Value\<close>: JSON values, \<open>Number(s)\<close> and \<open>String(x)\<close>; a normal double survives the trip through
    its shortest decimal, because seventeen digits are enough.
  \<^item> \<open>Browser\<close>: ready states of sockets and pending timers. \<open>Form_Query\<close>: query strings, with the
    round trip to what a server reads.

  \<^bold>\<open>Sockets and live data.\<close>
  \<^item> \<open>Ws_Backoff\<close> (\<^verbatim>\<open>lib/ws-backoff.ts\<close>): the reconnect delay and its range.
  \<^item> \<open>Market_Socket\<close>, \<open>Market_Socket_Inv\<close>, \<open>Market_Socket_Props\<close>, \<open>Market_Grid\<close>
    (\<^verbatim>\<open>hooks/use-market-socket.tsx\<close>): every function as a step on the connection; the invariant; one
    live socket, served subscriptions, replay on open, exact gap detection, no silent loss.
  \<^item> \<open>User_Socket\<close> (\<^verbatim>\<open>hooks/use-user-socket.ts\<close>) and \<open>Global_Trades\<close>
    (\<^verbatim>\<open>hooks/use-global-trades-socket.ts\<close>): the other two sockets, with one live socket and progress.
  \<^item> \<open>Trade_Feed\<close> (\<^verbatim>\<open>lib/global-trade-frame.ts\<close>, \<^verbatim>\<open>hooks/use-live-trade-feed.ts\<close> and the merge of the
    pages): the merged tape equals its specification.
  \<^item> \<open>Live_Price\<close> (\<^verbatim>\<open>lib/live-price.ts\<close>): frames to points and cached prices; the cache patch and the
    card overlay, two loops in the code and in the model, agree with one specification; the price shown for
    an outcome is that of the API or else of the book, where midpoints lie between bid and ask.
  \<^item> \<open>Realtime_Prefs\<close> (\<^verbatim>\<open>lib/realtime-prefs.tsx\<close>, \<^verbatim>\<open>price-announcer.tsx\<close>, \<^verbatim>\<open>use-price-tick.ts\<close>,
    \<^verbatim>\<open>outcome-colors.ts\<close>): preferences and the coalescing announcer.
  \<^item> \<open>Market_Detail\<close> (\<^verbatim>\<open>components/markets/market-detail.tsx\<close>): the handler of the market page over
    all of these; a price frame, with or without the prices of the outcomes, reaches the chart and
    the order form, and the live state is bounded.

  \<^bold>\<open>The API client and the session.\<close>
  \<^item> \<open>Api_Errors\<close>, \<open>Api_Client\<close>, \<open>Api_Client_Props\<close> (\<^verbatim>\<open>packages/api-client/src/client.ts\<close>): error
    envelopes, retries and the refresh gate (a refinement of an abstract gate). Every attempt of a
    request, every sleep, the refresh it waits for and the reading of its body is a step of its own. Every
    request ends in every run in which what it waits for keeps coming, within \<open>4 N + 6\<close> of its own events
    and \<open>2 N\<close> fetches for \<open>N\<close> attempts to a round; reads are shared until the headers of the response.
  \<^item> \<open>Session_Proxy\<close> (\<^verbatim>\<open>session.ts\<close>, \<^verbatim>\<open>config.ts\<close> and both \<^verbatim>\<open>proxy.ts\<close>): validation, cookie replay and
    the gates of the pages, through the locale \<open>session_gate\<close>.
  \<^item> \<open>Web_Api\<close> (\<^verbatim>\<open>apps/web/lib/api\<close>), \<open>Admin_Api\<close> (\<^verbatim>\<open>packages/api-client/src/admin.ts\<close>): the
    endpoints, and what the answers do to the session.
  \<^item> \<open>Query_Cache\<close> (\<^verbatim>\<open>lib/api/queryKeys.ts\<close>, \<^verbatim>\<open>lib/ws-resync.ts\<close>, the auth hooks and the mutations):
    which cached queries an event drops or refetches.

  \<^bold>\<open>Signing in and the account.\<close>
  \<^item> \<open>Login_Form\<close> (\<^verbatim>\<open>components/auth/login-form.tsx\<close>, \<^verbatim>\<open>packages/schemas/src/auth.ts\<close>): the three steps with
    answers in any order; the page is left exactly when the client marks the session active, and no
    password sign-in goes out without a code.
  \<^item> \<open>Account_Forms\<close> (sign-up, forgotten and reset passwords, two-factor set-up of
    \<^verbatim>\<open>components/auth\<close>): what is sent, and the two states in which a page is stuck.
  \<^item> \<open>Admin_Session\<close> (\<^verbatim>\<open>apps/admin/app/login\<close>, \<^verbatim>\<open>hooks/use-auth.ts\<close>, \<^verbatim>\<open>components/admin-shell.tsx\<close>): the
    second factor on demand, the session after a sign-in, the gate.
  \<^item> \<open>Account_Views\<close> (\<^verbatim>\<open>components/shared/data-table.tsx\<close>, the orders and portfolio pages, the bell): sorting,
    and what a frame of the private feed refreshes.

  \<^bold>\<open>Forms, money and display.\<close>
  \<^item> \<open>Trade_Form\<close> (\<^verbatim>\<open>components/markets/trade-form.tsx\<close>): the order sent is the order on screen.
  \<^item> \<open>Create_Market\<close> (\<^verbatim>\<open>components/markets/create-market-form.tsx\<close>): slugs match the pattern of the
    API and every market submitted is well formed; the rules the form only displays are counterexamples.
  \<^item> \<open>Step_Up\<close> (\<^verbatim>\<open>hooks/use-step-up.ts\<close>), \<open>Decimal\<close> (\<^verbatim>\<open>lib/decimal.ts\<close>) and \<open>Admin_Treasury\<close> (the
    treasury page and its withdrawal form): exact decimals, the three answers of a privileged call,
    the exactness of the form's checks, and the prompt that a withdrawal would need and the page does not render.
  \<^item> \<open>Moderation\<close> (\<^verbatim>\<open>apps/admin/components/pagination.tsx\<close>, the market queue, the users, the audit trails, the
    dialogs that ask for a reason): a bulk approval sends exactly what was confirmed and reports the counts and the first two failures, every page is
    reached, no ban or rejection goes out without a reason; the locale \<open>reasoned_decisions\<close> is what a dialog
    promises of its schema.
  \<^item> \<open>Dispute_Queue\<close> (the dispute queue and the detail of a dispute): a dismissal always carries its grounds.
  \<^item> \<open>Display_Format\<close> (\<^verbatim>\<open>lib/utils/format.ts\<close>, the helpers of the components, the order book panel):
    printed amounts are the nearest ones.

  \<^bold>\<open>Charts.\<close>
  \<^item> \<open>Candles\<close> (\<^verbatim>\<open>lib/utils/ohlc.ts\<close>, \<^verbatim>\<open>lib/utils/chart.ts\<close>): streaming equals batch.
  \<^item> \<open>Chart_Data\<close> and \<open>Chart_Phase\<close> (\<^verbatim>\<open>packages/ui/src/components/charts\<close>): thinning, cutting and the
    life of a chart between skeleton and data.
  \<^item> \<open>Live_Line\<close> (\<^verbatim>\<open>live-line-chart.tsx\<close>): the eased axis never clips a value while there are points, whatever the
    speed up to just below one, and the tooltip's binary search is correct on sorted points.
  \<^item> \<open>Calendar\<close> and \<open>Heatmap\<close> (\<^verbatim>\<open>charts/heatmap\<close>): the dates of the language with their fields and back,
    the weeks of a year in any time zone, the columns of the quarters, rows, levels and scales.
  \<^item> \<open>Projection\<close> (\<^verbatim>\<open>projection-utils.ts\<close>, \<^verbatim>\<open>projection-config.ts\<close>, the domains of
    \<^verbatim>\<open>time-series-chart-shell.tsx\<close>): the regression is the least squares line where no sum or product needs rounding
    (\<open>exact_run\<close>), and what goes wrong on epoch milliseconds, where they do; a path starts at its anchor, and the domains contain the projections.
  \<^item> \<open>Sunburst\<close> (\<^verbatim>\<open>sunburst.ts\<close> and the chart around it): identifiers are the paths of names in the tree; where
    names have no slash and siblings have different names the zoom to a node shows exactly what lies below it; the breadcrumb is the way to it, and the turn of a zoom is the shorter one.

  \<^bold>\<open>Conventions.\<close> Stateful code is a step function on a record; what can happen is an event datatype,
  and a property of all runs is a property of the fold over any list of events, by an invariant that
  every event keeps. A call between two awaits is one step. Errors are values. Library code outside
  the repository (the query library, the form library, the schema library, the scales of the charts)
  and what the host decides (parsing of timestamps, locale formatting, identifiers, clocks) are
  parameters. The loops that are not structural (retries, the binary search, digits of a number)
  have termination proofs; of those that need not end, all partial functions, \<open>skip_weeks\<close> of \<open>Heatmap\<close> is shown
  never to be entered, \<open>step_points\<close> of \<open>Projection\<close> to end on every finite horizon below \<open>2 ^ 53\<close>, and the loops of
  \<open>Sunburst\<close> to end on angles of one turn and on the nodes of a tree; fuel occurs in the specification \<open>press_next\<close> only, where the number of pages is enough.

  \<^bold>\<open>Bounds.\<close> Rows of a thinned chart are fewer than \<open>2 ^ 40\<close>, where bucket edges are exact; candle
  times are below \<open>8 * 10 ^ 12\<close> seconds with intervals up to a day; chart values are doubles of
  magnitude at most \<open>2 ^ 40\<close> and easing speeds at most \<open>1 - 2 ^ -50\<close> (at speed one rounding overshoots); levels of the book
  are at most \<open>2 ^ 50\<close>; a chart settles in three renders.
  The application stays within each of them. The regression has no such bound: its condition \<open>exact_run\<close> is about the
  arithmetic, and the times the charts pass do not meet it.

  \<^bold>\<open>Not modelled.\<close> Markup and rendering, and with them the presentational components and the drawing of
  the charts; the schemas of forms that are not listed above; observers and layout; the exact text of
  locale-dependent numbers and dates; the backend; the scripts under \<^verbatim>\<open>.agents\<close>. Strings are bytes and
  \<open>toLowerCase\<close> and \<open>trim\<close> follow ASCII (UTF-16 code units and Unicode as a parameter in \<open>Create_Market\<close>), the two zeros are identified, an aborted request is a
  rejection, and the order an engine gives to keys that are not finite is left out.
\<close>

end
